(* ===== verification/Prelude.thy ===== *)
theory Prelude
  imports Main "HOL-Library.Word" "HOL-Library.Sublist"
begin

text \<open>
  Shared vocabulary of the development: the Rust result type, the machine integers and time
  types, the string operations of the Rust standard library that the sources call, and the
  generic lemmas the component theories rely on.

  \<^item> \<open>Result<T, E>\<close> is the sum type \<open>'e + 'a\<close>; \<open>Ok\<close> and \<open>Err\<close> abbreviate its
    injections, so every early return by the question-mark operator is a visible \<open>case\<close>.
  \<^item> \<open>Duration\<close> and \<open>Instant\<close> are natural numbers of nanoseconds; \<open>DateTime\<close> is an integer.
    A reading of a clock is always an argument of the definition that reads it, or a field of
    the state that owns the clock.
  \<^item> Unsigned machine integers are words of their width.
\<close>

named_theorems result_simps \<open>rewriting of results and of early returns\<close>
named_theorems inv_intros \<open>preservation of the component invariants\<close>

section \<open>Results\<close>

type_synonym ('e, 'a) result = "'e + 'a"

abbreviation Ok :: "'a \<Rightarrow> ('e, 'a) result" where "Ok \<equiv> Inr"

abbreviation Err :: "'e \<Rightarrow> ('e, 'a) result" where "Err \<equiv> Inl"

definition is_ok :: "('e, 'a) result \<Rightarrow> bool" where
  "is_ok r = (case r of Err _ \<Rightarrow> False | Ok _ \<Rightarrow> True)"

definition ok_or :: "'e \<Rightarrow> 'a option \<Rightarrow> ('e, 'a) result" where
  "ok_or e x = (case x of None \<Rightarrow> Err e | Some a \<Rightarrow> Ok a)"

definition map_err :: "('e \<Rightarrow> 'f) \<Rightarrow> ('e, 'a) result \<Rightarrow> ('f, 'a) result" where
  "map_err f r = (case r of Err e \<Rightarrow> Err (f e) | Ok a \<Rightarrow> Ok a)"

definition unwrap_or :: "'a \<Rightarrow> 'a option \<Rightarrow> 'a" where
  "unwrap_or d x = (case x of None \<Rightarrow> d | Some a \<Rightarrow> a)"

lemma is_ok_simps [simp, result_simps]:
  "is_ok (Ok a) = True" "is_ok (Err e) = False"
  by (simp_all add: is_ok_def)

lemma ok_or_simps [simp, result_simps]:
  "ok_or e None = Err e" "ok_or e (Some a) = Ok a"
  by (simp_all add: ok_or_def)

lemma map_err_simps [simp, result_simps]:
  "map_err f (Err e) = Err (f e)" "map_err f (Ok a) = Ok a"
  by (simp_all add: map_err_def)

lemma map_err_eq_Ok [simp, result_simps]: "map_err f r = Ok a \<longleftrightarrow> r = Ok a"
  by (cases r) simp_all

lemma unwrap_or_simps [simp, result_simps]:
  "unwrap_or d None = d" "unwrap_or d (Some a) = a"
  by (simp_all add: unwrap_or_def)

section \<open>Time and machine integers\<close>

type_synonym duration = nat
type_synonym instant = nat
type_synonym datetime = int
type_synonym u32 = "32 word"
type_synonym u64 = "64 word"

definition nanos_per_milli :: nat where
  "nanos_per_milli = 1000000"

definition nanos_per_sec :: nat where
  "nanos_per_sec = 1000000000"

text \<open>\<open>Duration::as_millis\<close> truncates; \<open>Duration::from_millis\<close> is exact.\<close>

definition as_millis :: "duration \<Rightarrow> nat" where
  "as_millis d = d div nanos_per_milli"

definition from_millis :: "nat \<Rightarrow> duration" where
  "from_millis n = n * nanos_per_milli"

definition from_secs :: "nat \<Rightarrow> duration" where
  "from_secs n = n * nanos_per_sec"

lemma as_millis_from_millis [simp]: "as_millis (from_millis n) = n"
  by (simp add: as_millis_def from_millis_def nanos_per_milli_def)

lemma from_millis_as_millis_le: "from_millis (as_millis d) \<le> d"
  by (simp add: as_millis_def from_millis_def)

lemma as_millis_mono: "a \<le> b \<Longrightarrow> as_millis a \<le> as_millis b"
  by (simp add: as_millis_def div_le_mono)

lemma from_millis_le_iff [simp]: "from_millis a \<le> from_millis b \<longleftrightarrow> a \<le> b"
  by (simp add: from_millis_def nanos_per_milli_def)

lemma from_millis_eq_0_iff [simp]: "from_millis a = 0 \<longleftrightarrow> a = 0"
  by (simp add: from_millis_def nanos_per_milli_def)

lemma from_millis_le_of_as_millis: "n \<le> as_millis d \<Longrightarrow> from_millis n \<le> d"
  using from_millis_as_millis_le [of d] from_millis_le_iff [of n "as_millis d"] by linarith

text \<open>\<open>saturating_add\<close> on an unsigned type of width \<open>LENGTH('n)\<close>.\<close>

definition sat_add :: "'n::len word \<Rightarrow> 'n word \<Rightarrow> 'n word" where
  "sat_add a b = (if unat a + unat b < 2 ^ LENGTH('n) then a + b else - 1)"

lemma unat_sat_add: "unat (sat_add a b) = min (unat a + unat b) (2 ^ LENGTH('n) - 1)"
  for a b :: "'n::len word"
proof (cases "unat a + unat b < 2 ^ LENGTH('n)")
  case True
  then show ?thesis
    by (simp add: sat_add_def unat_word_ariths)
next
  case False
  then show ?thesis
    by (simp add: sat_add_def unsigned_minus_1_eq_mask mask_eq_exp_minus_1)
qed

lemma sat_add_assoc: "sat_add (sat_add a b) c = sat_add a (sat_add b c)"
  by (rule word_unat_eq_iff [THEN iffD2]) (simp add: unat_sat_add)

lemma sat_add_commute: "sat_add a b = sat_add b a"
  by (simp add: sat_add_def add.commute)

lemma unat_of_nat_u64: "n < 2 ^ 64 \<Longrightarrow> unat (of_nat n :: u64) = n"
  by (simp add: unat_of_nat)

lemma sat_add_0 [simp]: "sat_add 0 a = a" "sat_add a 0 = a"
  by (simp_all add: sat_add_def)

section \<open>Strings\<close>

text \<open>
  A Rust string is modelled by its characters. \<open>str::starts_with\<close> is \<^const>\<open>prefix\<close>.
\<close>

definition ascii_lower :: "char \<Rightarrow> char" where
  "ascii_lower c = (let n = (of_char c :: nat) in if 65 \<le> n \<and> n \<le> 90 then char_of (n + 32) else c)"

definition to_ascii_lowercase :: "string \<Rightarrow> string" where
  "to_ascii_lowercase s = map ascii_lower s"

definition strip_prefix_str :: "string \<Rightarrow> string \<Rightarrow> string option" where
  "strip_prefix_str p s = (if prefix p s then Some (drop (length p) s) else None)"

lemma strip_prefix_append [simp]: "strip_prefix_str p (p @ s) = Some s"
  by (simp add: strip_prefix_str_def)

lemma strip_prefix_Some_iff: "strip_prefix_str p s = Some r \<longleftrightarrow> s = p @ r"
  by (auto simp: strip_prefix_str_def prefix_def)

text \<open>
  The characters \<open>str::trim\<close> removes, for the Latin-1 range of \<^typ>\<open>char\<close>: the code points
  9 to 13, 32, 133 and 160.
\<close>

definition is_whitespace :: "char \<Rightarrow> bool" where
  "is_whitespace c = (let n = (of_char c :: nat) in (9 \<le> n \<and> n \<le> 13) \<or> n = 32 \<or> n = 133 \<or> n = 160)"

definition trim_str :: "string \<Rightarrow> string" where
  "trim_str s = rev (dropWhile is_whitespace (rev (dropWhile is_whitespace s)))"

lemma trim_str_empty_iff: "trim_str s = [] \<longleftrightarrow> list_all is_whitespace s"
proof
  assume "trim_str s = []"
  then have "\<forall>c \<in> set (dropWhile is_whitespace s). is_whitespace c"
    by (simp add: trim_str_def)
  then have "dropWhile is_whitespace s = []"
    by (metis hd_dropWhile hd_in_set)
  then show "list_all is_whitespace s"
    by (simp add: list_all_iff)
next
  assume "list_all is_whitespace s"
  then show "trim_str s = []"
    by (auto simp: trim_str_def list_all_iff dest: set_dropWhileD)
qed

text \<open>\<open>join\<close> on a slice of strings.\<close>

primrec join_with :: "string \<Rightarrow> string list \<Rightarrow> string" where
  "join_with sep [] = []"
| "join_with sep (x # xs) = (if xs = [] then x else x @ sep @ join_with sep xs)"

section \<open>Arithmetic and lists\<close>

lemma min_add_absorb: "min (min a m + b) m = min (a + b) m" for a b m :: nat
  by arith

lemma in_set_map_filter_iff: "x \<in> set (List.map_filter f xs) \<longleftrightarrow> (\<exists>y \<in> set xs. f y = Some x)"
  by (force simp: map_filter_def)

lemma split_at_first:
  "c \<notin> set xs \<Longrightarrow> c \<notin> set ys \<Longrightarrow> xs @ c # us = ys @ c # vs \<longleftrightarrow> xs = ys \<and> us = vs"
proof (induction xs arbitrary: ys)
  case Nil
  then show ?case by (cases ys) auto
next
  case (Cons x xs)
  then show ?case by (cases ys) auto
qed

end
