(* ===== verification/Algebra.thy ===== *)
theory Algebra
  imports Prelude
begin

text \<open>
  The algebraic abstractions of \<open>crates/agent-fw-core/src/algebra.rs\<close>: the \<open>Semigroup\<close> and
  \<open>Monoid\<close> traits as locales (their documented laws are the assumptions), the standard instances
  as interpretations, the generic \<open>fold\<close>, and \<open>Validated\<close> with its accumulation builder.
\<close>

section \<open>Semigroups and monoids\<close>

text \<open>The traits: \<open>combine\<close> is associative, \<open>empty\<close> is its two-sided identity.\<close>

locale Semigroup_trait =
  fixes combine :: "'a \<Rightarrow> 'a \<Rightarrow> 'a"
  assumes combine_assoc: "combine (combine a b) c = combine a (combine b c)"

locale Monoid_trait = Semigroup_trait combine for combine :: "'a \<Rightarrow> 'a \<Rightarrow> 'a" +
  fixes mempty :: 'a
  assumes empty_left: "combine mempty a = a"
    and empty_right: "combine a mempty = a"

text \<open>\<open>fold\<close> and \<open>fold_ref\<close>: a left fold from the identity.\<close>

definition fold_monoid :: "('a \<Rightarrow> 'a \<Rightarrow> 'a) \<Rightarrow> 'a \<Rightarrow> 'a list \<Rightarrow> 'a" where
  "fold_monoid combine mempty items = foldl combine mempty items"

context Monoid_trait
begin

lemma foldl_combine: "foldl combine a xs = combine a (foldl combine mempty xs)"
proof (induction xs arbitrary: a)
  case Nil
  show ?case by (simp add: empty_right)
next
  case (Cons x xs)
  have "foldl combine a (x # xs) = combine (combine a x) (foldl combine mempty xs)"
    using Cons.IH [of "combine a x"] by simp
  also have "\<dots> = combine a (combine x (foldl combine mempty xs))"
    by (rule combine_assoc)
  also have "\<dots> = combine a (foldl combine mempty (x # xs))"
    using Cons.IH [of x] by (simp add: empty_left)
  finally show ?case .
qed

lemma fold_append:
  "fold_monoid combine mempty (xs @ ys) =
   combine (fold_monoid combine mempty xs) (fold_monoid combine mempty ys)"
  using foldl_combine [of "foldl combine mempty xs" ys] by (simp add: fold_monoid_def)

lemma fold_concat:
  "fold_monoid combine mempty (concat xss) =
   fold_monoid combine mempty (map (fold_monoid combine mempty) xss)"
proof (induction xss)
  case Nil
  show ?case by (simp add: fold_monoid_def)
next
  case (Cons xs xss)
  have "fold_monoid combine mempty (concat (xs # xss)) =
      combine (fold_monoid combine mempty xs)
        (fold_monoid combine mempty (map (fold_monoid combine mempty) xss))"
    by (simp add: fold_append Cons.IH)
  also have "\<dots> = fold_monoid combine mempty (map (fold_monoid combine mempty) (xs # xss))"
    using fold_append [of "[fold_monoid combine mempty xs]" "map (fold_monoid combine mempty) xss"]
    by (simp add: fold_monoid_def empty_left)
  finally show ?case .
qed

end

section \<open>Standard library instances\<close>

text \<open>
  Unsigned integers add with saturation (\<^const>\<open>sat_add\<close>), strings and vectors concatenate,
  hash maps merge with the last write winning.
\<close>

definition uint_combine :: "'n::len word \<Rightarrow> 'n word \<Rightarrow> 'n word" where
  "uint_combine self other = sat_add self other"

definition string_combine :: "string \<Rightarrow> string \<Rightarrow> string" where
  "string_combine self other = self @ other"

definition vec_combine :: "'a list \<Rightarrow> 'a list \<Rightarrow> 'a list" where
  "vec_combine self other = self @ other"

definition hashmap_combine :: "('k \<rightharpoonup> 'v) \<Rightarrow> ('k \<rightharpoonup> 'v) \<Rightarrow> ('k \<rightharpoonup> 'v)" where
  "hashmap_combine self other = self ++ other"

datatype any_flag = AnyOf bool

fun any_combine :: "any_flag \<Rightarrow> any_flag \<Rightarrow> any_flag" where
  "any_combine (AnyOf a) (AnyOf b) = AnyOf (a \<or> b)"

datatype all_flag = AllOf bool

fun all_combine :: "all_flag \<Rightarrow> all_flag \<Rightarrow> all_flag" where
  "all_combine (AllOf a) (AllOf b) = AllOf (a \<and> b)"

datatype 'a max_of = MaxOf 'a

fun max_combine :: "'a::linorder max_of \<Rightarrow> 'a max_of \<Rightarrow> 'a max_of" where
  "max_combine (MaxOf a) (MaxOf b) = (if a \<ge> b then MaxOf a else MaxOf b)"

datatype 'a min_of = MinOf 'a

fun min_combine :: "'a::linorder min_of \<Rightarrow> 'a min_of \<Rightarrow> 'a min_of" where
  "min_combine (MinOf a) (MinOf b) = (if a \<le> b then MinOf a else MinOf b)"

fun option_combine :: "('a \<Rightarrow> 'a \<Rightarrow> 'a) \<Rightarrow> 'a option \<Rightarrow> 'a option \<Rightarrow> 'a option" where
  "option_combine combine (Some a) (Some b) = Some (combine a b)"
| "option_combine combine (Some a) None = Some a"
| "option_combine combine None (Some b) = Some b"
| "option_combine combine None None = None"

interpretation uint: Monoid_trait uint_combine "0 :: 'n::len word"
  by unfold_locales (simp_all add: uint_combine_def sat_add_assoc)

interpretation str: Monoid_trait string_combine "[]"
  by unfold_locales (simp_all add: string_combine_def)

interpretation vec: Monoid_trait vec_combine "[]"
  by unfold_locales (simp_all add: vec_combine_def)

interpretation hashmap: Monoid_trait hashmap_combine Map.empty
  by unfold_locales (simp_all add: hashmap_combine_def)

interpretation any: Monoid_trait any_combine "AnyOf False"
proof unfold_locales
  fix a b c :: any_flag
  show "any_combine (any_combine a b) c = any_combine a (any_combine b c)"
    by (cases a; cases b; cases c) simp
  show "any_combine (AnyOf False) a = a" "any_combine a (AnyOf False) = a"
    by (cases a; simp)+
qed

interpretation all: Monoid_trait all_combine "AllOf True"
proof unfold_locales
  fix a b c :: all_flag
  show "all_combine (all_combine a b) c = all_combine a (all_combine b c)"
    by (cases a; cases b; cases c) simp
  show "all_combine (AllOf True) a = a" "all_combine a (AllOf True) = a"
    by (cases a; simp)+
qed

interpretation maxs: Semigroup_trait "max_combine :: 'a::linorder max_of \<Rightarrow> _"
proof unfold_locales
  fix a b c :: "'a max_of"
  show "max_combine (max_combine a b) c = max_combine a (max_combine b c)"
    by (cases a; cases b; cases c) auto
qed

interpretation mins: Semigroup_trait "min_combine :: 'a::linorder min_of \<Rightarrow> _"
proof unfold_locales
  fix a b c :: "'a min_of"
  show "min_combine (min_combine a b) c = min_combine a (min_combine b c)"
    by (cases a; cases b; cases c) auto
qed

text \<open>\<open>Option<T>\<close> is a monoid for every semigroup \<open>T\<close>.\<close>

context Semigroup_trait
begin

lemma option_monoid: "Monoid_trait (option_combine combine) None"
proof unfold_locales
  fix a b c
  show "option_combine combine (option_combine combine a b) c =
      option_combine combine a (option_combine combine b c)"
    by (cases a; cases b; cases c) (simp_all add: combine_assoc)
  show "option_combine combine None a = a" "option_combine combine a None = a"
    by (cases a; simp)+
qed

end

interpretation opt_max: Monoid_trait "option_combine (max_combine :: 'a::linorder max_of \<Rightarrow> _)" None
  by (rule maxs.option_monoid)

interpretation opt_min: Monoid_trait "option_combine (min_combine :: 'a::linorder min_of \<Rightarrow> _)" None
  by (rule mins.option_monoid)

text \<open>
  Folding unsigned integers with the saturating monoid returns the exact sum when it fits
  the width and the maximal value otherwise, however the addends are ordered.
\<close>

theorem fold_uint_saturates:
  "unat (fold_monoid uint_combine 0 xs) = min (\<Sum>x\<leftarrow>xs. unat x) (2 ^ LENGTH('n) - 1)"
  for xs :: "'n::len word list"
proof (induction xs rule: rev_induct)
  case Nil
  show ?case by (simp add: fold_monoid_def)
next
  case (snoc x xs)
  have "fold_monoid uint_combine 0 (xs @ [x]) = uint_combine (fold_monoid uint_combine 0 xs) x"
    by (simp add: fold_monoid_def)
  then have "unat (fold_monoid uint_combine 0 (xs @ [x])) =
      min (unat (fold_monoid uint_combine 0 xs) + unat x) (2 ^ LENGTH('n) - 1)"
    by (simp add: uint_combine_def [of "fold_monoid uint_combine 0 xs" x] unat_sat_add)
  then show ?case
    using snoc.IH by (simp only: min_add_absorb map_append sum_list_append) simp
qed

text \<open>
  A parallel reduction is safe: splitting the work into chunks, folding every chunk with
  the optional-maximum monoid and folding the chunk results gives the fold of the whole input.
\<close>

theorem fold_option_max_chunks:
  "fold_monoid (option_combine max_combine) None (concat xss) =
   fold_monoid (option_combine max_combine) None
     (map (fold_monoid (option_combine max_combine) None) xss)"
  for xss :: "'a::linorder max_of option list list"
  by (rule opt_max.fold_concat)

section \<open>Validated\<close>

datatype ('e, 'a) Validated = Valid 'a | Invalid "'e list"

definition valid :: "'a \<Rightarrow> ('e, 'a) Validated" where
  "valid a = Valid a"

definition invalid :: "'e \<Rightarrow> ('e, 'a) Validated" where
  "invalid e = Invalid [e]"

definition invalid_many :: "'e list \<Rightarrow> ('e, 'a) Validated" where
  "invalid_many errors = Invalid errors"

fun is_valid :: "('e, 'a) Validated \<Rightarrow> bool" where
  "is_valid (Valid _) = True"
| "is_valid (Invalid _) = False"

fun is_invalid :: "('e, 'a) Validated \<Rightarrow> bool" where
  "is_invalid (Invalid _) = True"
| "is_invalid (Valid _) = False"

fun validated_map :: "('a \<Rightarrow> 'b) \<Rightarrow> ('e, 'a) Validated \<Rightarrow> ('e, 'b) Validated" where
  "validated_map f (Valid a) = Valid (f a)"
| "validated_map f (Invalid es) = Invalid es"

fun map_errors :: "('e \<Rightarrow> 'f) \<Rightarrow> ('e, 'a) Validated \<Rightarrow> ('f, 'a) Validated" where
  "map_errors f (Valid a) = Valid a"
| "map_errors f (Invalid es) = Invalid (map f es)"

fun to_result :: "('e, 'a) Validated \<Rightarrow> ('e list, 'a) result" where
  "to_result (Valid a) = Ok a"
| "to_result (Invalid es) = Err es"

fun from_result :: "('e, 'a) result \<Rightarrow> ('e, 'a) Validated" where
  "from_result (Ok a) = Valid a"
| "from_result (Err e) = Invalid [e]"

fun validated_and_then ::
  "('e, 'a) Validated \<Rightarrow> ('a \<Rightarrow> ('e, 'b) Validated) \<Rightarrow> ('e, 'b) Validated" where
  "validated_and_then (Valid a) f = f a"
| "validated_and_then (Invalid es) f = Invalid es"

fun validated_ensure :: "('a \<Rightarrow> bool) \<Rightarrow> 'e \<Rightarrow> ('e, 'a) Validated \<Rightarrow> ('e, 'a) Validated" where
  "validated_ensure predicate error (Valid a) = (if \<not> predicate a then Invalid [error] else Valid a)"
| "validated_ensure predicate error (Invalid es) = Invalid es"

fun validated_zip :: "('e, 'a) Validated \<Rightarrow> ('e, 'b) Validated \<Rightarrow> ('e, 'a \<times> 'b) Validated" where
  "validated_zip (Valid a) (Valid b) = Valid (a, b)"
| "validated_zip (Invalid e1) (Invalid e2) = Invalid (e1 @ e2)"
| "validated_zip (Invalid e) (Valid b) = Invalid e"
| "validated_zip (Valid a) (Invalid e) = Invalid e"

definition map2_validated ::
  "('a \<Rightarrow> 'b \<Rightarrow> 'c) \<Rightarrow> ('e, 'a) Validated \<Rightarrow> ('e, 'b) Validated \<Rightarrow> ('e, 'c) Validated" where
  "map2_validated f self other = validated_map (\<lambda>(a, b). f a b) (validated_zip self other)"

text \<open>The loop of \<open>sequence_validated\<close> over its two accumulators, and its final test.\<close>

fun sequence_validated_loop ::
  "('e, 'a) Validated list \<Rightarrow> 'a list \<Rightarrow> 'e list \<Rightarrow> 'a list \<times> 'e list" where
  "sequence_validated_loop [] vals errors = (vals, errors)"
| "sequence_validated_loop (Valid a # items) vals errors =
     sequence_validated_loop items (vals @ [a]) errors"
| "sequence_validated_loop (Invalid es # items) vals errors =
     sequence_validated_loop items vals (errors @ es)"

definition sequence_validated :: "('e, 'a) Validated list \<Rightarrow> ('e, 'a list) Validated" where
  "sequence_validated items =
     (let (vals, errors) = sequence_validated_loop items [] []
      in if errors = [] then Valid vals else Invalid errors)"

definition validate_that :: "bool \<Rightarrow> 'e \<Rightarrow> ('e, unit) Validated" where
  "validate_that condition error = (if condition then Valid () else Invalid [error])"

section \<open>ValidationBuilder\<close>

record 'e ValidationBuilder =
  builder_errors :: "'e list"

definition validation_builder_new :: "'e ValidationBuilder" where
  "validation_builder_new = \<lparr>builder_errors = []\<rparr>"

definition builder_check :: "bool \<Rightarrow> 'e \<Rightarrow> 'e ValidationBuilder \<Rightarrow> 'e ValidationBuilder" where
  "builder_check condition error b =
     (if \<not> condition then b\<lparr>builder_errors := builder_errors b @ [error]\<rparr> else b)"

definition builder_check_with :: "'e option \<Rightarrow> 'e ValidationBuilder \<Rightarrow> 'e ValidationBuilder" where
  "builder_check_with r b =
     (case r of Some e \<Rightarrow> b\<lparr>builder_errors := builder_errors b @ [e]\<rparr> | None \<Rightarrow> b)"

definition builder_accumulate ::
  "('e, unit) Validated \<Rightarrow> 'e ValidationBuilder \<Rightarrow> 'e ValidationBuilder" where
  "builder_accumulate r b =
     (case r of Invalid es \<Rightarrow> b\<lparr>builder_errors := builder_errors b @ es\<rparr> | Valid _ \<Rightarrow> b)"

definition builder_finish :: "(unit \<Rightarrow> 'a) \<Rightarrow> 'e ValidationBuilder \<Rightarrow> ('e, 'a) Validated" where
  "builder_finish f b =
     (if builder_errors b = [] then Valid (f ()) else Invalid (builder_errors b))"

definition builder_finish_result ::
  "(unit \<Rightarrow> 'a) \<Rightarrow> 'e ValidationBuilder \<Rightarrow> ('e list, 'a) result" where
  "builder_finish_result f b = to_result (builder_finish f b)"

section \<open>Accumulation of errors\<close>

text \<open>What an item contributes: its value or its errors.\<close>

fun item_values :: "('e, 'a) Validated \<Rightarrow> 'a list" where
  "item_values (Valid a) = [a]"
| "item_values (Invalid es) = []"

fun item_errors :: "('e, 'a) Validated \<Rightarrow> 'e list" where
  "item_errors (Valid a) = []"
| "item_errors (Invalid es) = es"

lemma sequence_validated_loop_eq:
  "sequence_validated_loop items vals errors =
   (vals @ concat (map item_values items), errors @ concat (map item_errors items))"
  by (induction items vals errors rule: sequence_validated_loop.induct) simp_all

lemma sequence_validated_eq:
  "sequence_validated items =
   (if concat (map item_errors items) = [] then Valid (concat (map item_values items))
    else Invalid (concat (map item_errors items)))"
  by (simp add: sequence_validated_def sequence_validated_loop_eq)

text \<open>
  \<open>sequence_validated\<close> never short-circuits: the result is the list of all values exactly
  when no item carries an error, and otherwise holds the errors of all items in input order.
\<close>

theorem sequence_validated_accumulates:
  "(sequence_validated items = Invalid es \<longleftrightarrow> es = concat (map item_errors items) \<and> es \<noteq> []) \<and>
   (sequence_validated items = Valid vs \<longleftrightarrow>
     concat (map item_errors items) = [] \<and> vs = concat (map item_values items)) \<and>
   sequence_validated (map Valid as) = (Valid as :: ('e, 'a list) Validated)"
proof -
  have "concat (map item_errors (map Valid as)) = ([] :: 'e list)"
    and "concat (map item_values (map (Valid :: 'a \<Rightarrow> ('e, 'a) Validated) as)) = as"
    by (induction as) simp_all
  then show ?thesis
    by (auto simp: sequence_validated_eq)
qed

text \<open>
  The accumulating builder reports every failed check, in order: running a list of checks
  and finishing returns the built value when all conditions hold and otherwise exactly the errors
  of the failed checks.
\<close>

theorem builder_reports_all_failures:
  "builder_finish_result f (fold (\<lambda>(c, e). builder_check c e) checks validation_builder_new) =
   (if list_all fst checks then Ok (f ())
    else Err (map snd (filter (\<lambda>(c, e). \<not> c) checks)))"
proof -
  have errors: "builder_errors (fold (\<lambda>(c, e). builder_check c e) checks b) =
      builder_errors b @ map snd (filter (\<lambda>(c, e). \<not> c) checks)" for b
  proof (induction checks arbitrary: b)
    case Nil
    show ?case by simp
  next
    case (Cons ce checks)
    then show ?case by (cases ce) (simp add: builder_check_def)
  qed
  show ?thesis
    by (force simp: builder_finish_result_def builder_finish_def errors
        validation_builder_new_def filter_empty_conv list_all_iff)
qed

end
