(* ===== verification/KV_Store.thy ===== *)
theory KV_Store
  imports Prelude Algebra
begin

text \<open>
  The tenant-scoped key-value store algebra of \<open>crates/agent-fw-algebra/src/kv_store.rs\<close>.

  \<^item> The object-safe trait \<open>KVStore\<close> is a record of operations (the trait object's method
    table) over an abstract store state that includes the store's clock.
  \<^item> \<open>KVStoreExt\<close> and \<open>PrefixedRecordStore\<close> are definitions over that record; the serde codec of
    the stored type is a record of two functions, because the serde crates are not part of the
    sources.
  \<^item> The documented store laws are the locale \<open>KV_laws\<close>; \<open>DashMap_KV\<close> interprets it.
\<close>

section \<open>Serde codecs\<close>

text \<open>
  \<open>serde_json::to_value\<close> and \<open>serde_json::from_value\<close> at one type, with their errors already
  printed. The documented behaviour the sources rely on is that a value that serializes is read
  back unchanged.
\<close>

record ('v, 'j) serde =
  to_value :: "'v \<Rightarrow> (string, 'j) result"
  from_value :: "'j \<Rightarrow> (string, 'v) result"

definition serde_roundtrip :: "('v, 'j) serde \<Rightarrow> bool" where
  "serde_roundtrip sd = (\<forall>v j. to_value sd v = Ok j \<longrightarrow> from_value sd j = Ok v)"

definition serde_total :: "('v, 'j) serde \<Rightarrow> bool" where
  "serde_total sd = (\<forall>v. is_ok (to_value sd v))"

definition serde_id :: "('v, 'v) serde" where
  "serde_id = \<lparr>to_value = Ok, from_value = Ok\<rparr>"

lemma serde_id_ok [simp]: "serde_roundtrip serde_id" "serde_total serde_id"
  by (simp_all add: serde_roundtrip_def serde_total_def serde_id_def)

lemma serde_roundtripD: "serde_roundtrip sd \<Longrightarrow> to_value sd v = Ok j \<Longrightarrow> from_value sd j = Ok v"
  by (auto simp: serde_roundtrip_def)

lemma serde_totalE:
  assumes "serde_total sd" obtains j where "to_value sd v = Ok j"
  using assms by (cases "to_value sd v") (auto simp: serde_total_def dest: spec [of _ v])

section \<open>The store interface\<close>

definition prefixed_key :: "string \<Rightarrow> string \<Rightarrow> string" where
  "prefixed_key prefix_str ident = (if prefix_str = [] then ident else prefix_str @ '':'' @ ident)"

datatype KVError = Serialization string | Deserialization string | Storage string

text \<open>The printed form given by the \<open>thiserror\<close> attributes.\<close>

fun display_KVError :: "KVError \<Rightarrow> string" where
  "display_KVError (Serialization e) = ''Serialization error: '' @ e"
| "display_KVError (Deserialization e) = ''Deserialization error: '' @ e"
| "display_KVError (Storage e) = ''Storage error: '' @ e"

record ('s, 'j) KVStore =
  put_json :: "'s \<Rightarrow> string \<Rightarrow> string \<Rightarrow> 'j \<Rightarrow> duration option \<Rightarrow> (KVError, unit) result \<times> 's"
  get_json :: "'s \<Rightarrow> string \<Rightarrow> string \<Rightarrow> (KVError, 'j option) result \<times> 's"
  kv_delete :: "'s \<Rightarrow> string \<Rightarrow> string \<Rightarrow> (KVError, bool) result \<times> 's"
  kv_exists :: "'s \<Rightarrow> string \<Rightarrow> string \<Rightarrow> (KVError, bool) result \<times> 's"
  list_keys :: "'s \<Rightarrow> string \<Rightarrow> string \<Rightarrow> (KVError, string list) result \<times> 's"
  get_many_json :: "'s \<Rightarrow> string \<Rightarrow> string list \<Rightarrow> (KVError, string \<rightharpoonup> 'j) result \<times> 's"

section \<open>Typed access\<close>

definition kv_put ::
  "('s, 'j) KVStore \<Rightarrow> ('v, 'j) serde \<Rightarrow> 's \<Rightarrow> string \<Rightarrow> string \<Rightarrow> 'v \<Rightarrow> duration option \<Rightarrow>
   (KVError, unit) result \<times> 's" where
  "kv_put kv sd s tenant key v ttl =
     (case to_value sd v of
        Err e \<Rightarrow> (Err (Serialization e), s)
      | Ok json \<Rightarrow> put_json kv s tenant key json ttl)"

definition kv_get ::
  "('s, 'j) KVStore \<Rightarrow> ('v, 'j) serde \<Rightarrow> 's \<Rightarrow> string \<Rightarrow> string \<Rightarrow>
   (KVError, 'v option) result \<times> 's" where
  "kv_get kv sd s tenant key =
     (case get_json kv s tenant key of
        (Err e, s') \<Rightarrow> (Err e, s')
      | (Ok (Some json), s') \<Rightarrow>
          (case from_value sd json of
             Err e \<Rightarrow> (Err (Deserialization e), s')
           | Ok v \<Rightarrow> (Ok (Some v), s'))
      | (Ok None, s') \<Rightarrow> (Ok None, s'))"

definition kv_get_or_default ::
  "('s, 'j) KVStore \<Rightarrow> ('v, 'j) serde \<Rightarrow> 'v \<Rightarrow> 's \<Rightarrow> string \<Rightarrow> string \<Rightarrow>
   (KVError, 'v) result \<times> 's" where
  "kv_get_or_default kv sd d s tenant key =
     (case kv_get kv sd s tenant key of
        (Err e, s') \<Rightarrow> (Err e, s')
      | (Ok (Some v), s') \<Rightarrow> (Ok v, s')
      | (Ok None, s') \<Rightarrow> (Ok d, s'))"

definition kv_put_default ::
  "('s, 'j) KVStore \<Rightarrow> ('v, 'j) serde \<Rightarrow> 's \<Rightarrow> string \<Rightarrow> string \<Rightarrow> 'v \<Rightarrow>
   (KVError, unit) result \<times> 's" where
  "kv_put_default kv sd s tenant key v = kv_put kv sd s tenant key v None"

section \<open>Prefixed record stores\<close>

datatype PrefixedRecordStoreError = RecordNotFound string | RecordKv KVError

record PrefixedRecordStore =
  prs_tenant :: string
  prs_prefix :: string
  prs_ttl :: "duration option"

definition prs_new :: "string \<Rightarrow> string \<Rightarrow> PrefixedRecordStore" where
  "prs_new tenant prefix_str = \<lparr>prs_tenant = tenant, prs_prefix = prefix_str, prs_ttl = None\<rparr>"

definition prs_with_ttl :: "duration option \<Rightarrow> PrefixedRecordStore \<Rightarrow> PrefixedRecordStore" where
  "prs_with_ttl ttl st = st\<lparr>prs_ttl := ttl\<rparr>"

definition prs_key :: "PrefixedRecordStore \<Rightarrow> string \<Rightarrow> string" where
  "prs_key st ident = prefixed_key (prs_prefix st) ident"

definition prs_load ::
  "('s, 'j) KVStore \<Rightarrow> ('v, 'j) serde \<Rightarrow> PrefixedRecordStore \<Rightarrow> 's \<Rightarrow> string \<Rightarrow>
   (KVError, 'v option) result \<times> 's" where
  "prs_load kv sd st s ident = kv_get kv sd s (prs_tenant st) (prs_key st ident)"

definition prs_load_required ::
  "('s, 'j) KVStore \<Rightarrow> ('v, 'j) serde \<Rightarrow> PrefixedRecordStore \<Rightarrow> 's \<Rightarrow> string \<Rightarrow>
   (PrefixedRecordStoreError, 'v) result \<times> 's" where
  "prs_load_required kv sd st s ident =
     (case prs_load kv sd st s ident of
        (Err e, s') \<Rightarrow> (Err (RecordKv e), s')
      | (Ok r, s') \<Rightarrow> (ok_or (RecordNotFound (prs_key st ident)) r, s'))"

definition prs_store ::
  "('s, 'j) KVStore \<Rightarrow> ('v, 'j) serde \<Rightarrow> PrefixedRecordStore \<Rightarrow> 's \<Rightarrow> string \<Rightarrow> 'v \<Rightarrow>
   (KVError, unit) result \<times> 's" where
  "prs_store kv sd st s ident v = kv_put kv sd s (prs_tenant st) (prs_key st ident) v (prs_ttl st)"

definition prs_delete ::
  "('s, 'j) KVStore \<Rightarrow> PrefixedRecordStore \<Rightarrow> 's \<Rightarrow> string \<Rightarrow> (KVError, bool) result \<times> 's" where
  "prs_delete kv st s ident = kv_delete kv s (prs_tenant st) (prs_key st ident)"

section \<open>Operation metrics\<close>

record KVMetricsAccumulator =
  total_bytes_written :: u64
  total_bytes_read :: u64
  total_duration_ms :: u64
  put_count :: u64
  get_count :: u64
  delete_count :: u64
  get_many_count :: u64

definition kv_metrics_new :: KVMetricsAccumulator where
  "kv_metrics_new = \<lparr>total_bytes_written = 0, total_bytes_read = 0, total_duration_ms = 0,
     put_count = 0, get_count = 0, delete_count = 0, get_many_count = 0\<rparr>"

definition record_put :: "u64 \<Rightarrow> u64 \<Rightarrow> KVMetricsAccumulator \<Rightarrow> KVMetricsAccumulator" where
  "record_put bytes ms m = m\<lparr>
     total_bytes_written := sat_add (total_bytes_written m) bytes,
     total_duration_ms := sat_add (total_duration_ms m) ms,
     put_count := sat_add (put_count m) 1\<rparr>"

definition record_get :: "u64 \<Rightarrow> u64 \<Rightarrow> KVMetricsAccumulator \<Rightarrow> KVMetricsAccumulator" where
  "record_get bytes ms m = m\<lparr>
     total_bytes_read := sat_add (total_bytes_read m) bytes,
     total_duration_ms := sat_add (total_duration_ms m) ms,
     get_count := sat_add (get_count m) 1\<rparr>"

definition record_delete :: "u64 \<Rightarrow> KVMetricsAccumulator \<Rightarrow> KVMetricsAccumulator" where
  "record_delete ms m = m\<lparr>
     total_duration_ms := sat_add (total_duration_ms m) ms,
     delete_count := sat_add (delete_count m) 1\<rparr>"

definition record_get_many :: "u64 \<Rightarrow> u64 \<Rightarrow> KVMetricsAccumulator \<Rightarrow> KVMetricsAccumulator" where
  "record_get_many bytes ms m = m\<lparr>
     total_bytes_read := sat_add (total_bytes_read m) bytes,
     total_duration_ms := sat_add (total_duration_ms m) ms,
     get_many_count := sat_add (get_many_count m) 1\<rparr>"

definition kv_metrics_combine ::
  "KVMetricsAccumulator \<Rightarrow> KVMetricsAccumulator \<Rightarrow> KVMetricsAccumulator" where
  "kv_metrics_combine self other =
     \<lparr>total_bytes_written = sat_add (total_bytes_written self) (total_bytes_written other),
      total_bytes_read = sat_add (total_bytes_read self) (total_bytes_read other),
      total_duration_ms = sat_add (total_duration_ms self) (total_duration_ms other),
      put_count = sat_add (put_count self) (put_count other),
      get_count = sat_add (get_count self) (get_count other),
      delete_count = sat_add (delete_count self) (delete_count other),
      get_many_count = sat_add (get_many_count self) (get_many_count other)\<rparr>"

definition kv_metrics_is_empty :: "KVMetricsAccumulator \<Rightarrow> bool" where
  "kv_metrics_is_empty m \<longleftrightarrow>
     put_count m = 0 \<and> get_count m = 0 \<and> delete_count m = 0 \<and> get_many_count m = 0"

text \<open>A plain \<open>+\<close> on \<open>u64\<close>: it wraps in release builds.\<close>

definition total_operations :: "KVMetricsAccumulator \<Rightarrow> u64" where
  "total_operations m = put_count m + get_count m + delete_count m + get_many_count m"

datatype kv_event = PutEvent u64 u64 | GetEvent u64 u64 | DeleteEvent u64 | GetManyEvent u64 u64

text \<open>The recording method a finished operation calls.\<close>

fun kv_record :: "kv_event \<Rightarrow> KVMetricsAccumulator \<Rightarrow> KVMetricsAccumulator" where
  "kv_record (PutEvent bytes ms) m = record_put bytes ms m"
| "kv_record (GetEvent bytes ms) m = record_get bytes ms m"
| "kv_record (DeleteEvent ms) m = record_delete ms m"
| "kv_record (GetManyEvent bytes ms) m = record_get_many bytes ms m"

lemmas kv_metrics_defs = kv_metrics_combine_def kv_metrics_new_def record_put_def
  record_get_def record_delete_def record_get_many_def

interpretation kv_metrics: Monoid_trait kv_metrics_combine kv_metrics_new
  by unfold_locales (simp_all add: kv_metrics_combine_def kv_metrics_new_def sat_add_assoc)

lemma kv_record_combine: "kv_record e m = kv_metrics_combine m (kv_record e kv_metrics_new)"
  by (cases e) (simp_all add: kv_metrics_defs)

text \<open>
  Metrics can be collected per shard: recording two batches of operations in separate
  accumulators and combining them gives the accumulator of the whole sequence, saturation
  included.
\<close>

theorem kv_metrics_shards:
  "fold kv_record (es @ es') kv_metrics_new =
   kv_metrics_combine (fold kv_record es kv_metrics_new) (fold kv_record es' kv_metrics_new)"
proof -
  have split: "fold kv_record es m = kv_metrics_combine m (fold kv_record es kv_metrics_new)"
    for es m
  proof (induction es arbitrary: m)
    case Nil
    show ?case by (simp add: kv_metrics.empty_right)
  next
    case (Cons e es)
    have "fold kv_record (e # es) m =
        kv_metrics_combine (kv_record e m) (fold kv_record es kv_metrics_new)"
      using Cons.IH [of "kv_record e m"] by (simp only: fold_simps)
    also have "\<dots> = kv_metrics_combine m
        (kv_metrics_combine (kv_record e kv_metrics_new) (fold kv_record es kv_metrics_new))"
      by (simp only: kv_record_combine [of e m] kv_metrics.combine_assoc)
    also have "\<dots> = kv_metrics_combine m (fold kv_record (e # es) kv_metrics_new)"
      using Cons.IH [of "kv_record e kv_metrics_new"] by (simp only: fold_simps)
    finally show ?case .
  qed
  show ?thesis
    using split [of es' "fold kv_record es kv_metrics_new"] by simp
qed

section \<open>Store laws\<close>

text \<open>
  The laws of the trait documentation. The parameter \<open>peek\<close> is the live content of a state:
  what a reader of a tenant sees now. \<open>separable\<close> marks the tenant names between which the
  store keeps its isolation promise. A read may change the state (expired entries are removed
  lazily) but never the content.
\<close>

locale KV_laws =
  fixes kv :: "('s, 'j) KVStore"
    and peek :: "'s \<Rightarrow> string \<Rightarrow> string \<Rightarrow> 'j option"
    and separable :: "string \<Rightarrow> bool"
  assumes get_content: "get_json kv s t k = (r, s') \<Longrightarrow> r = Ok (peek s t k) \<and> peek s' = peek s"
    and put_content: "put_json kv s t k v ttl = (rp, s') \<Longrightarrow> rp = Ok () \<and> peek s' t k = Some v"
    and put_frame: "put_json kv s t k v ttl = (rp, s') \<Longrightarrow> separable t \<Longrightarrow> separable t' \<Longrightarrow>
      (t', k') \<noteq> (t, k) \<Longrightarrow> peek s' t' k' = peek s t' k'"
    and delete_content: "kv_delete kv s t k = (rb, s') \<Longrightarrow>
      peek s' t k = None \<and> (\<exists>b. rb = Ok b \<and> (peek s t k \<noteq> None \<longrightarrow> b))"
    and delete_frame: "kv_delete kv s t k = (rb, s') \<Longrightarrow> separable t \<Longrightarrow> separable t' \<Longrightarrow>
      (t', k') \<noteq> (t, k) \<Longrightarrow> peek s' t' k' = peek s t' k'"
    and exists_content: "kv_exists kv s t k = (rb, s') \<Longrightarrow>
      rb = Ok (peek s t k \<noteq> None) \<and> peek s' = peek s"
    and list_content: "list_keys kv s t p = (rl, s') \<Longrightarrow>
      peek s' = peek s \<and> (\<exists>ks. rl = Ok ks \<and> set ks = {k. prefix p k \<and> peek s t k \<noteq> None})"
    and get_many_content: "get_many_json kv s t ks = (rm, s') \<Longrightarrow> peek s' = peek s \<and>
      rm = Ok (\<lambda>k. if k \<in> set ks then peek s t k else None)"
begin

lemma typed_put:
  assumes "kv_put kv sd s t k v ttl = (r, s')" and "serde_total sd"
  obtains j where "to_value sd v = Ok j" "r = Ok ()" "peek s' t k = Some j"
    "\<And>t' k'. separable t \<Longrightarrow> separable t' \<Longrightarrow> (t', k') \<noteq> (t, k) \<Longrightarrow> peek s' t' k' = peek s t' k'"
proof -
  obtain j where j: "to_value sd v = Ok j" using \<open>serde_total sd\<close> by (rule serde_totalE)
  with assms(1) have put: "put_json kv s t k j ttl = (r, s')" by (simp add: kv_put_def)
  show ?thesis
    using that [OF j] put_content [OF put] put_frame [OF put] by blast
qed

lemma typed_get:
  assumes "kv_get kv sd s t k = (r, s')"
  shows "peek s' = peek s"
    and "r = (case peek s t k of None \<Rightarrow> Ok None
              | Some j \<Rightarrow> map_err Deserialization (map_sum id Some (from_value sd j)))"
proof -
  obtain g s1 where g: "get_json kv s t k = (g, s1)" by fastforce
  from get_content [OF this] have g_ok: "g = Ok (peek s t k)" and s1: "peek s1 = peek s" by auto
  show "peek s' = peek s"
    using assms g g_ok s1 by (auto simp: kv_get_def split: option.splits sum.splits)
  show "r = (case peek s t k of None \<Rightarrow> Ok None
              | Some j \<Rightarrow> map_err Deserialization (map_sum id Some (from_value sd j)))"
    using assms g g_ok by (auto simp: kv_get_def split: option.splits sum.splits)
qed

lemma get_after_put:
  assumes put: "kv_put kv sd s t k v ttl = (r, s')" and codec: "serde_total sd" "serde_roundtrip sd"
    and same: "peek s'' t k = peek s' t k"
  shows "fst (kv_get kv sd s'' t k) = Ok (Some v)"
proof -
  obtain j where j: "to_value sd v = Ok j" "peek s' t k = Some j"
    using typed_put [OF put codec(1)] by metis
  obtain r2 s2 where get: "kv_get kv sd s'' t k = (r2, s2)" by fastforce
  have "r2 = map_err Deserialization (map_sum id Some (from_value sd j))"
    using typed_get(2) [OF get] j same by simp
  also have "\<dots> = Ok (Some v)"
    using serde_roundtripD [OF codec(2) j(1)] by simp
  finally show ?thesis using get by simp
qed

lemma prefixed_load_after_store:
  assumes "prs_store kv sd st s i v = (r, s')" and "serde_total sd" "serde_roundtrip sd"
  shows "fst (prs_load_required kv sd st s' i) = Ok v"
proof -
  obtain r2 s2 where get: "kv_get kv sd s' (prs_tenant st) (prs_key st i) = (r2, s2)" by fastforce
  have "fst (kv_get kv sd s' (prs_tenant st) (prs_key st i)) = Ok (Some v)"
    by (rule get_after_put [OF assms(1) [unfolded prs_store_def] assms(2,3) refl])
  with get show ?thesis
    by (simp add: prs_load_required_def prs_load_def)
qed

lemma prefixed_load_after_delete:
  assumes "prs_delete kv st s i = (r, s')"
  shows "fst (prs_load_required kv sd st s' i) = Err (RecordNotFound (prs_key st i))"
proof -
  have "peek s' (prs_tenant st) (prs_key st i) = None"
    using delete_content [OF assms [unfolded prs_delete_def]] by simp
  moreover obtain r2 s2 where get: "kv_get kv sd s' (prs_tenant st) (prs_key st i) = (r2, s2)"
    by fastforce
  ultimately have "r2 = Ok None" using typed_get(2) [OF get] by simp
  with get show ?thesis by (simp add: prs_load_required_def prs_load_def)
qed

end

end
