(* ===== verification/Plan_Context.thy ===== *)
theory Plan_Context
  imports KV_Store "HOL-Library.Finite_Map"
begin

text \<open>
  The opaque JSON context of a plan, \<open>crates/agent-fw-plan/src/context.rs\<close>: a finite map from keys
  to JSON values with raw and typed accessors. JSON values are a type variable and each typed
  accessor takes the serde codec of its type.
\<close>

type_synonym 'j PlanContext = "(string, 'j) fmap"

text \<open>The type parameter of a key is phantom: a key is its name.\<close>

type_synonym ContextKey = string

datatype ContextError =
    MissingKey string
  | TypeMismatch string string
  | SerializationError string string

definition context_new :: "'j PlanContext" where
  "context_new = fmempty"

definition context_set :: "string \<Rightarrow> 'j \<Rightarrow> 'j PlanContext \<Rightarrow> 'j PlanContext" where
  "context_set key v c = fmupd key v c"

definition context_get :: "'j PlanContext \<Rightarrow> string \<Rightarrow> 'j option" where
  "context_get c key = fmlookup c key"

definition context_remove :: "string \<Rightarrow> 'j PlanContext \<Rightarrow> 'j option \<times> 'j PlanContext" where
  "context_remove key c = (fmlookup c key, fmdrop key c)"

definition context_is_empty :: "'j PlanContext \<Rightarrow> bool" where
  "context_is_empty c \<longleftrightarrow> fmdom c = {||}"

definition context_len :: "'j PlanContext \<Rightarrow> nat" where
  "context_len c = fcard (fmdom c)"

definition context_extract ::
  "('v, 'j) serde \<Rightarrow> 'j PlanContext \<Rightarrow> string \<Rightarrow> (ContextError, 'v) result" where
  "context_extract sd c key =
     (case ok_or (MissingKey key) (fmlookup c key) of
        Err e \<Rightarrow> Err e
      | Ok v \<Rightarrow> map_err (TypeMismatch key) (from_value sd v))"

definition context_insert ::
  "('v, 'j) serde \<Rightarrow> string \<Rightarrow> 'v \<Rightarrow> 'j PlanContext \<Rightarrow> (ContextError, unit) result \<times> 'j PlanContext" where
  "context_insert sd key v c =
     (case map_err (SerializationError key) (to_value sd v) of
        Err e \<Rightarrow> (Err e, c)
      | Ok json \<Rightarrow> (Ok (), fmupd key json c))"

definition context_get_typed :: "('v, 'j) serde \<Rightarrow> 'j PlanContext \<Rightarrow> ContextKey \<Rightarrow> 'v option" where
  "context_get_typed sd c key =
     (case fmlookup c key of
        None \<Rightarrow> None
      | Some v \<Rightarrow> (case from_value sd v of Err _ \<Rightarrow> None | Ok a \<Rightarrow> Some a))"

definition context_set_typed ::
  "('v, 'j) serde \<Rightarrow> ContextKey \<Rightarrow> 'v \<Rightarrow> 'j PlanContext \<Rightarrow>
   (ContextError, unit) result \<times> 'j PlanContext" where
  "context_set_typed sd key v c =
     (case map_err (SerializationError key) (to_value sd v) of
        Err e \<Rightarrow> (Err e, c)
      | Ok json \<Rightarrow> (Ok (), fmupd key json c))"

definition context_has_typed :: "('v, 'j) serde \<Rightarrow> 'j PlanContext \<Rightarrow> ContextKey \<Rightarrow> bool" where
  "context_has_typed sd c key \<longleftrightarrow> context_get_typed sd c key \<noteq> None"

definition context_try_extract ::
  "('v, 'j) serde \<Rightarrow> 'j PlanContext \<Rightarrow> string \<Rightarrow> (ContextError, 'v option) result" where
  "context_try_extract sd c key =
     (case fmlookup c key of
        None \<Rightarrow> Ok None
      | Some v \<Rightarrow>
          (case map_err (TypeMismatch key) (from_value sd v) of
             Err e \<Rightarrow> Err e
           | Ok a \<Rightarrow> Ok (Some a)))"

lemmas context_defs = context_set_def context_get_def context_remove_def context_extract_def
  context_insert_def context_get_typed_def context_set_typed_def context_has_typed_def
  context_try_extract_def

lemma context_len_set:
  "context_len (context_set key v c) = (if key |\<in>| fmdom c then context_len c else Suc (context_len c))"
  by (simp add: context_len_def context_set_def fcard_finsert_if)

text \<open>The typed accessors differ only in what they do with a missing key and with a bad value.\<close>

lemma context_accessors_agree:
  "context_try_extract sd c key =
     (case context_extract sd c key of
        Ok v \<Rightarrow> Ok (Some v)
      | Err (MissingKey _) \<Rightarrow> Ok None
      | Err e \<Rightarrow> Err e)"
  "context_get_typed sd c key = (case context_extract sd c key of Ok v \<Rightarrow> Some v | Err _ \<Rightarrow> None)"
  by (auto simp: context_defs map_err_def split: option.splits sum.splits)

text \<open>
  The typed context laws: a value that was inserted is extracted unchanged by every
  accessor (roundtrip), other keys keep what they had (independence), and after a removal the
  strict accessor reports the missing key while the lenient ones return nothing.
\<close>

theorem context_typed_roundtrip:
  assumes "serde_total sd" "serde_roundtrip sd"
  shows "let (r, c') = context_insert sd key v c; (old, c'') = context_remove key c'
         in r = Ok () \<and> context_set_typed sd key v c = (r, c') \<and>
            context_extract sd c' key = Ok v \<and> context_try_extract sd c' key = Ok (Some v) \<and>
            context_get_typed sd c' key = Some v \<and> context_has_typed sd c' key \<and>
            (key' \<noteq> key \<longrightarrow> context_extract sd' c' key' = context_extract sd' c key') \<and>
            old = context_get c' key \<and> context_extract sd c'' key = Err (MissingKey key) \<and>
            context_try_extract sd c'' key = Ok None \<and> context_get_typed sd c'' key = None"
proof -
  obtain j where j: "to_value sd v = Ok j" using assms(1) by (rule serde_totalE)
  from serde_roundtripD [OF assms(2) j] j show ?thesis
    by (simp add: context_defs split: option.splits)
qed

theorem context_typed_roundtrip_witness:
  "context_extract serde_id (snd (context_insert serde_id ''n'' (42::nat) context_new)) ''n'' = Ok 42"
  using context_typed_roundtrip [of "serde_id :: (nat, nat) serde" "''n''" 42 context_new "''m''" serde_id]
  by (simp add: Let_def split: prod.splits)

end
