(* ===== verification/Ids.thy ===== *)
theory Ids
  imports Prelude "HOL-Library.Countable"
begin

text \<open>
  The typed identifiers of \<open>crates/agent-fw-core/src/id.rs\<close>. Every newtype is a datatype with
  one constructor, which is also \<open>new_unchecked\<close>; the selector is \<open>as_str\<close>. The validating
  constructors \<open>new\<close> differ: tenants and workspaces reject blank strings, the others empty ones.
\<close>

datatype TenantId = TenantId (tenant_str: string)

definition tenant_new :: "string \<Rightarrow> TenantId option" where
  "tenant_new s = (if trim_str s = [] then None else Some (TenantId s))"

datatype ThreadId = ThreadId (thread_str: string)

definition thread_new :: "string \<Rightarrow> ThreadId option" where
  "thread_new s = (if s = [] then None else Some (ThreadId s))"

definition derive_sub_thread :: "ThreadId \<Rightarrow> string \<Rightarrow> ThreadId" where
  "derive_sub_thread self agent_name = ThreadId (thread_str self @ ''-'' @ agent_name)"

datatype UserId = UserId (user_str: string)

definition user_new :: "string \<Rightarrow> UserId option" where
  "user_new s = (if s = [] then None else Some (UserId s))"

datatype PlanId = PlanId (plan_id_str: string)

definition plan_id_new :: "string \<Rightarrow> PlanId option" where
  "plan_id_new s = (if s = [] then None else Some (PlanId s))"

datatype EntitySetId = EntitySetId (entity_set_str: string)

definition entity_set_new :: "string \<Rightarrow> EntitySetId option" where
  "entity_set_new s = (if s = [] then None else Some (EntitySetId s))"

datatype ApprovalId = ApprovalId (approval_id_str: string)

definition approval_id_new :: "string \<Rightarrow> ApprovalId option" where
  "approval_id_new s = (if s = [] then None else Some (ApprovalId s))"

datatype EvalRunId = EvalRunId (eval_run_str: string)

definition eval_run_new :: "string \<Rightarrow> EvalRunId option" where
  "eval_run_new s = (if s = [] then None else Some (EvalRunId s))"

datatype TestCaseId = TestCaseId (test_case_str: string)

definition test_case_new :: "string \<Rightarrow> TestCaseId option" where
  "test_case_new s = (if s = [] then None else Some (TestCaseId s))"

datatype WorkspaceId = WorkspaceId (workspace_str: string)

definition workspace_new :: "string \<Rightarrow> WorkspaceId option" where
  "workspace_new s = (if trim_str s = [] then None else Some (WorkspaceId s))"

text \<open>\<open>Deserialize\<close> for \<open>WorkspaceId\<close> goes through \<open>new\<close>, unlike the derived ones.\<close>

definition workspace_deserialize :: "string \<Rightarrow> (string, WorkspaceId) result" where
  "workspace_deserialize s = ok_or ''workspace ID must not be blank'' (workspace_new s)"

definition default_workspace :: WorkspaceId where
  "default_workspace = WorkspaceId ''default''"

definition workspace_is_default :: "WorkspaceId \<Rightarrow> bool" where
  "workspace_is_default w = (workspace_str w = ''default'')"

text \<open>Identifiers are countable.\<close>

instance TenantId :: countable
  by countable_datatype

instance ThreadId :: countable
  by countable_datatype

instance UserId :: countable
  by countable_datatype

instance PlanId :: countable
  by countable_datatype

instance EntitySetId :: countable
  by countable_datatype

instance ApprovalId :: countable
  by countable_datatype

instance EvalRunId :: countable
  by countable_datatype

instance TestCaseId :: countable
  by countable_datatype

instance WorkspaceId :: countable
  by countable_datatype

lemma tenant_new_Some_iff: "tenant_new s = Some t \<longleftrightarrow> t = TenantId s \<and> \<not> list_all is_whitespace s"
  by (auto simp: tenant_new_def trim_str_empty_iff)

lemma workspace_new_Some_iff:
  "workspace_new s = Some w \<longleftrightarrow> w = WorkspaceId s \<and> \<not> list_all is_whitespace s"
  by (auto simp: workspace_new_def trim_str_empty_iff)

text \<open>
  The documented workspace id laws: an id accepted by \<open>new\<close> is not blank, the default
  workspace is accepted, and an accepted id survives the round trip through its printed form,
  both by \<open>new\<close> and by deserialization, which rejects exactly the blank strings.
\<close>

theorem workspace_id_roundtrip:
  "(workspace_new s = Some w \<longleftrightarrow> workspace_deserialize s = Ok w) \<and>
   (workspace_deserialize s = Err ''workspace ID must not be blank'' \<longleftrightarrow> list_all is_whitespace s) \<and>
   (workspace_new (workspace_str w) = Some w \<longleftrightarrow> \<not> list_all is_whitespace (workspace_str w)) \<and>
   workspace_new (workspace_str default_workspace) = Some default_workspace"
proof -
  have default: "workspace_new (workspace_str default_workspace) = Some default_workspace"
    by (simp add: workspace_new_Some_iff default_workspace_def is_whitespace_def)
  have parse: "workspace_new (workspace_str w) = Some w \<longleftrightarrow>
      \<not> list_all is_whitespace (workspace_str w)"
    by (cases w) (simp add: workspace_new_Some_iff)
  show ?thesis
    using default parse
    by (auto simp: workspace_deserialize_def workspace_new_def trim_str_empty_iff)
qed

end
