(* ===== verification/Non_Empty.thy ===== *)
theory Non_Empty
  imports Prelude Algebra "HOL-Library.Countable"
begin

text \<open>
  Non-empty sequences: \<open>NonEmpty<T>\<close> of \<open>crates/agent-fw-core/src/non_empty.rs\<close> and the
  \<open>ActionSeq<A>\<close> newtype of \<open>crates/agent-fw-plan/src/action.rs\<close> with its head/tail wire format.
\<close>

section \<open>NonEmpty\<close>

record 'a NonEmpty =
  ne_head :: 'a
  ne_tail :: "'a list"

definition ne_new :: "'a \<Rightarrow> 'a list \<Rightarrow> 'a NonEmpty" where
  "ne_new h t = \<lparr>ne_head = h, ne_tail = t\<rparr>"

definition ne_singleton :: "'a \<Rightarrow> 'a NonEmpty" where
  "ne_singleton v = \<lparr>ne_head = v, ne_tail = []\<rparr>"

definition ne_from_vec :: "'a list \<Rightarrow> 'a NonEmpty option" where
  "ne_from_vec v = (case v of [] \<Rightarrow> None | h # t \<Rightarrow> Some \<lparr>ne_head = h, ne_tail = t\<rparr>)"

definition ne_len :: "'a NonEmpty \<Rightarrow> nat" where
  "ne_len ne = 1 + length (ne_tail ne)"

definition ne_first :: "'a NonEmpty \<Rightarrow> 'a" where
  "ne_first ne = ne_head ne"

text \<open>\<open>to_vec\<close>, \<open>into_vec\<close>, \<open>iter\<close> and the \<open>IntoIterator\<close> instances enumerate the same list.\<close>

definition ne_to_vec :: "'a NonEmpty \<Rightarrow> 'a list" where
  "ne_to_vec ne = ne_head ne # ne_tail ne"

definition ne_push :: "'a \<Rightarrow> 'a NonEmpty \<Rightarrow> 'a NonEmpty" where
  "ne_push v ne = ne\<lparr>ne_tail := ne_tail ne @ [v]\<rparr>"

definition ne_map :: "('a \<Rightarrow> 'b) \<Rightarrow> 'a NonEmpty \<Rightarrow> 'b NonEmpty" where
  "ne_map f ne = \<lparr>ne_head = f (ne_head ne), ne_tail = map f (ne_tail ne)\<rparr>"

definition ne_last :: "'a NonEmpty \<Rightarrow> 'a" where
  "ne_last ne = (if ne_tail ne = [] then ne_head ne else last (ne_tail ne))"

definition ne_concat :: "'a NonEmpty \<Rightarrow> 'a NonEmpty \<Rightarrow> 'a NonEmpty" where
  "ne_concat self other = self\<lparr>ne_tail := (ne_tail self @ [ne_head other]) @ ne_tail other\<rparr>"

definition ne_extend :: "'a list \<Rightarrow> 'a NonEmpty \<Rightarrow> 'a NonEmpty" where
  "ne_extend xs ne = ne\<lparr>ne_tail := ne_tail ne @ xs\<rparr>"

definition ne_deserialize :: "'a list \<Rightarrow> (string, 'a NonEmpty) result" where
  "ne_deserialize v =
     ok_or ''NonEmpty requires at least one element, got empty array'' (ne_from_vec v)"

text \<open>Indexing panics out of range: \<open>None\<close> is the panic.\<close>

definition ne_index :: "'a NonEmpty \<Rightarrow> nat \<Rightarrow> 'a option" where
  "ne_index ne i =
     (if i = 0 then Some (ne_head ne)
      else if i - 1 < length (ne_tail ne) then Some (ne_tail ne ! (i - 1)) else None)"

lemma ne_to_vec_simps [simp]:
  "ne_to_vec (ne_new h t) = h # t"
  "ne_to_vec (ne_singleton v) = [v]"
  "ne_to_vec (ne_push v ne) = ne_to_vec ne @ [v]"
  "ne_to_vec (ne_map f ne) = map f (ne_to_vec ne)"
  "ne_to_vec (ne_concat ne ne') = ne_to_vec ne @ ne_to_vec ne'"
  "ne_to_vec (ne_extend xs ne) = ne_to_vec ne @ xs"
  by (simp_all add: ne_to_vec_def ne_new_def ne_singleton_def ne_push_def ne_map_def
      ne_concat_def ne_extend_def)

lemma ne_to_vec_inject: "ne_to_vec a = ne_to_vec b \<Longrightarrow> a = b"
  by (cases a; cases b) (simp add: ne_to_vec_def)

lemma ne_to_vec_from_vec: "ne_from_vec v = Some ne \<longleftrightarrow> ne_to_vec ne = v"
  by (cases ne; cases v) (auto simp: ne_from_vec_def ne_to_vec_def)

lemma ne_observers:
  "ne_len ne = length (ne_to_vec ne)" "ne_first ne = hd (ne_to_vec ne)"
  "ne_last ne = last (ne_to_vec ne)"
  "ne_index ne i = (if i < length (ne_to_vec ne) then Some (ne_to_vec ne ! i) else None)"
  by (auto simp: ne_len_def ne_first_def ne_last_def ne_to_vec_def ne_index_def nth_Cons')

interpretation ne: Semigroup_trait ne_concat
  by unfold_locales (rule ne_to_vec_inject, simp)

text \<open>
  \<open>NonEmpty\<close> refines the non-empty lists: \<open>from_vec\<close> and \<open>to_vec\<close> are inverse, every
  operation acts on the list view as its list counterpart does, and reading by index panics
  exactly out of range.
\<close>

theorem non_empty_refines_list:
  "ne_from_vec (ne_to_vec ne) = Some ne \<and> (ne_from_vec v = None \<longleftrightarrow> v = []) \<and>
   ne_to_vec (ne_concat ne ne') = ne_to_vec ne @ ne_to_vec ne' \<and>
   ne_to_vec (ne_map f ne) = map f (ne_to_vec ne) \<and>
   ne_to_vec (ne_push a ne) = ne_to_vec ne @ [a] \<and>
   ne_len (ne_concat ne ne') = ne_len ne + ne_len ne' \<and>
   ne_first ne = hd (ne_to_vec ne) \<and> ne_last ne = last (ne_to_vec ne) \<and>
   ne_index ne i = (if i < ne_len ne then Some (ne_to_vec ne ! i) else None)"
  using ne_to_vec_from_vec [of "ne_to_vec ne" ne] ne_observers [of "ne_concat ne ne'"]
  by (simp add: ne_observers ne_from_vec_def split: list.splits)

section \<open>Action sequences\<close>

datatype 'a ActionSeq = ActionSeq (as_non_empty: "'a NonEmpty")

instance NonEmpty_ext :: (countable, countable) countable
  by (rule countable_classI [of "\<lambda>ne. to_nat (ne_head ne, ne_tail ne, NonEmpty.more ne)"]) simp

instance ActionSeq :: (countable) countable
  by countable_datatype

definition action_seq_len :: "'a ActionSeq \<Rightarrow> nat" where
  "action_seq_len s = ne_len (as_non_empty s)"

definition action_seq_first :: "'a ActionSeq \<Rightarrow> 'a" where
  "action_seq_first s = ne_first (as_non_empty s)"

definition action_seq_to_vec :: "'a ActionSeq \<Rightarrow> 'a list" where
  "action_seq_to_vec s = ne_to_vec (as_non_empty s)"

text \<open>\<open>map\<close> applies \<open>f\<close> to the first element and to the iterator with one element skipped.\<close>

definition action_seq_map :: "('a \<Rightarrow> 'b) \<Rightarrow> 'a ActionSeq \<Rightarrow> 'b ActionSeq" where
  "action_seq_map f s =
     ActionSeq (ne_new (f (ne_first (as_non_empty s)))
       (map f (drop 1 (ne_to_vec (as_non_empty s)))))"

definition single_action :: "'a \<Rightarrow> 'a ActionSeq" where
  "single_action a = ActionSeq (ne_singleton a)"

definition action_seq_from_vec :: "'a list \<Rightarrow> 'a ActionSeq option" where
  "action_seq_from_vec actions = map_option ActionSeq (ne_from_vec actions)"

definition append_action :: "'a ActionSeq \<Rightarrow> 'a \<Rightarrow> 'a ActionSeq" where
  "append_action s a = ActionSeq (ne_push a (as_non_empty s))"

definition concat_actions :: "'a ActionSeq \<Rightarrow> 'a ActionSeq \<Rightarrow> 'a ActionSeq" where
  "concat_actions a b = ActionSeq (ne_concat (as_non_empty a) (as_non_empty b))"

subsection \<open>Wire format\<close>

text \<open>
  The wire form is a JSON object, here the sequence of its entries as the deserializer's map
  access yields them. The element codec belongs to the serde crates: \<open>ser\<close> and \<open>de\<close> for one
  action, \<open>ser_vec\<close> and \<open>de_vec\<close> for a vector of them.
\<close>

type_synonym 'j wire_object = "(string \<times> 'j) list"

definition action_seq_serialize ::
  "('a \<Rightarrow> 'j) \<Rightarrow> ('a list \<Rightarrow> 'j) \<Rightarrow> 'a ActionSeq \<Rightarrow> 'j wire_object" where
  "action_seq_serialize ser ser_vec s =
     [(''head'', ser (ne_first (as_non_empty s))),
      (''tail'', ser_vec (drop 1 (ne_to_vec (as_non_empty s))))]"

fun action_seq_visit_map ::
  "('j \<Rightarrow> (string, 'a) result) \<Rightarrow> ('j \<Rightarrow> (string, 'a list) result) \<Rightarrow> 'j wire_object \<Rightarrow>
   'a option \<Rightarrow> 'a list option \<Rightarrow> (string, 'a ActionSeq) result" where
  "action_seq_visit_map de de_vec [] h t =
     (case h of None \<Rightarrow> Err ''missing field head''
      | Some a \<Rightarrow> Ok (ActionSeq (ne_new a (unwrap_or [] t))))"
| "action_seq_visit_map de de_vec ((key, j) # entries) h t =
     (if key = ''head'' then
        (case de j of Err e \<Rightarrow> Err e
         | Ok a \<Rightarrow> action_seq_visit_map de de_vec entries (Some a) t)
      else if key = ''tail'' then
        (case de_vec j of Err e \<Rightarrow> Err e
         | Ok as \<Rightarrow> action_seq_visit_map de de_vec entries h (Some as))
      else action_seq_visit_map de de_vec entries h t)"

definition action_seq_deserialize ::
  "('j \<Rightarrow> (string, 'a) result) \<Rightarrow> ('j \<Rightarrow> (string, 'a list) result) \<Rightarrow> 'j wire_object \<Rightarrow>
   (string, 'a ActionSeq) result" where
  "action_seq_deserialize de de_vec entries = action_seq_visit_map de de_vec entries None None"

lemma action_seq_to_vec_simps [simp]:
  "action_seq_to_vec (single_action a) = [a]"
  "action_seq_to_vec (append_action s a) = action_seq_to_vec s @ [a]"
  "action_seq_to_vec (concat_actions s s') = action_seq_to_vec s @ action_seq_to_vec s'"
  "action_seq_to_vec (action_seq_map f s) = map f (action_seq_to_vec s)"
  by (simp_all add: action_seq_to_vec_def single_action_def append_action_def
      concat_actions_def action_seq_map_def ne_first_def ne_to_vec_def [of "as_non_empty s"])

lemma action_seq_to_vec_inject: "action_seq_to_vec a = action_seq_to_vec b \<Longrightarrow> a = b"
  by (cases a; cases b) (simp add: action_seq_to_vec_def ne_to_vec_inject)

lemma action_seq_to_vec_neq_Nil [simp]: "action_seq_to_vec s \<noteq> []"
  by (simp add: action_seq_to_vec_def ne_to_vec_def)

lemma action_seq_from_vec_iff: "action_seq_from_vec v = Some s \<longleftrightarrow> action_seq_to_vec s = v"
  by (cases s) (auto simp: action_seq_from_vec_def action_seq_to_vec_def ne_to_vec_from_vec)

interpretation actions: Semigroup_trait concat_actions
  by unfold_locales (rule action_seq_to_vec_inject, simp)

text \<open>
  The wire format round trips: with an element codec whose decoders invert its encoders,
  deserializing the serialized entries returns the sequence, also when unknown entries are mixed
  in before, between or after the two fields.
\<close>

theorem action_seq_wire_roundtrip:
  assumes head: "\<And>a. de (ser a) = Ok a" and tail: "\<And>as. de_vec (ser_vec as) = Ok as"
    and unknown: "list_all (\<lambda>(k, _). k \<noteq> ''head'' \<and> k \<noteq> ''tail'') (us @ vs @ ws)"
  shows "action_seq_deserialize de de_vec
      (us @ (''head'', ser (action_seq_first s)) # vs @
       (''tail'', ser_vec (drop 1 (action_seq_to_vec s))) # ws) = Ok s \<and>
    action_seq_serialize ser ser_vec s =
      [(''head'', ser (action_seq_first s)), (''tail'', ser_vec (drop 1 (action_seq_to_vec s)))]"
proof -
  have skip: "list_all (\<lambda>(k, _). k \<noteq> ''head'' \<and> k \<noteq> ''tail'') xs \<Longrightarrow>
      action_seq_visit_map de de_vec (xs @ ys) h t = action_seq_visit_map de de_vec ys h t"
    for xs ys h t
    by (induction xs) (auto split: prod.splits)
  have skip_last: "list_all (\<lambda>(k, _). k \<noteq> ''head'' \<and> k \<noteq> ''tail'') ws \<Longrightarrow>
      action_seq_visit_map de de_vec ws h t = action_seq_visit_map de de_vec [] h t" for h t
    using skip [of ws "[]"] by simp
  have whole: "ActionSeq (ne_new (action_seq_first s) (drop 1 (action_seq_to_vec s))) = s"
    by (cases s) (simp add: action_seq_first_def action_seq_to_vec_def ne_first_def
        ne_to_vec_def ne_new_def)
  show ?thesis
    using unknown whole
    by (simp add: action_seq_deserialize_def action_seq_serialize_def skip skip_last head tail
        action_seq_first_def action_seq_to_vec_def)
qed

theorem action_seq_wire_roundtrip_witness:
  "action_seq_deserialize (\<lambda>j. case j of [a] \<Rightarrow> Ok a | _ \<Rightarrow> Err ''not one'') Ok
     [(''note'', [9]), (''head'', [1]), (''tail'', [2, 3]), (''x'', [])] =
   (Ok (ActionSeq (ne_new (1::nat) [2, 3])) :: (string, nat ActionSeq) result)"
proof -
  let ?de = "\<lambda>j. case j of [a] \<Rightarrow> Ok a | _ \<Rightarrow> (Err ''not one'' :: (string, nat) result)"
  let ?s = "ActionSeq (ne_new (1::nat) [2, 3])"
  have "action_seq_deserialize ?de Ok
      ([(''note'', [9])] @ (''head'', (\<lambda>a. [a]) (action_seq_first ?s)) # [] @
       (''tail'', (\<lambda>as. as) (drop 1 (action_seq_to_vec ?s))) # [(''x'', [])]) = Ok ?s"
    by (rule action_seq_wire_roundtrip [of ?de "\<lambda>a. [a]" Ok "\<lambda>as. as", THEN conjunct1]) simp_all
  then show ?thesis
    by (simp add: action_seq_first_def action_seq_to_vec_def ne_first_def ne_new_def ne_to_vec_def)
qed

end
