(* ===== verification/Plan.thy ===== *)
theory Plan
  imports Plan_Context Ids Non_Empty
begin

text \<open>
  The plan state machine of \<open>crates/agent-fw-plan/src/plan.rs\<close> and the fluent builder of
  \<open>crates/agent-fw-plan/src/builder.rs\<close>. A reading of \<open>Utc::now()\<close> is an argument of the
  transition that takes it. Each transition consumes the plan and returns either the new plan or
  a \<open>Rejected\<close> value that carries the plan unmodified.
\<close>

section \<open>Data\<close>

datatype PlanStatus = Draft | Approved | Executing | Executed | Failed

fun status_is_terminal :: "PlanStatus \<Rightarrow> bool" where
  "status_is_terminal Executed = True"
| "status_is_terminal Failed = True"
| "status_is_terminal _ = False"

fun display_PlanStatus :: "PlanStatus \<Rightarrow> string" where
  "display_PlanStatus Draft = ''draft''"
| "display_PlanStatus Approved = ''approved''"
| "display_PlanStatus Executing = ''executing''"
| "display_PlanStatus Executed = ''executed''"
| "display_PlanStatus Failed = ''failed''"

record 'j ExecutionResult =
  entities_affected :: nat
  result_summary :: "string option"
  result_details :: "'j option"

record 'j PlanError =
  error_message :: string
  error_code :: "string option"
  error_details :: "'j option"

definition plan_error_new :: "string \<Rightarrow> 'j PlanError" where
  "plan_error_new msg = \<lparr>error_message = msg, error_code = None, error_details = None\<rparr>"

datatype 'j TerminalOutcome =
    ExecutedOutcome "'j ExecutionResult"
  | FailedOutcome "'j PlanError"

text \<open>
  The wire type also reads the retired pending state. \<open>from_wire\<close> is the derived deserializer of
  the tagged enum.
\<close>

datatype 'j OutcomeWire =
    PendingWire
  | ExecutedWire "'j ExecutionResult"
  | FailedWire "'j PlanError"

definition deserialize_outcome ::
  "('j \<Rightarrow> (string, 'j OutcomeWire) result) \<Rightarrow> 'j option \<Rightarrow>
   (string, 'j TerminalOutcome option) result" where
  "deserialize_outcome from_wire v =
     (case v of
        None \<Rightarrow> Ok None
      | Some j \<Rightarrow>
          (case from_wire j of
             Err e \<Rightarrow> Err e
           | Ok PendingWire \<Rightarrow> Ok None
           | Ok (ExecutedWire r) \<Rightarrow> Ok (Some (ExecutedOutcome r))
           | Ok (FailedWire e) \<Rightarrow> Ok (Some (FailedOutcome e))))"

datatype TransitionError =
    InvalidState (expected: PlanStatus) (actual: PlanStatus)
  | TerminalState PlanStatus

fun display_TransitionError :: "TransitionError \<Rightarrow> string" where
  "display_TransitionError (InvalidState e a) =
     ''invalid transition: expected '' @ display_PlanStatus e @ '', got '' @ display_PlanStatus a"
| "display_TransitionError (TerminalState s) =
     ''plan is in terminal state: '' @ display_PlanStatus s"

record ('a, 'j) Plan =
  plan_id :: PlanId
  owner :: TenantId
  actions :: "'a ActionSeq"
  status :: PlanStatus
  description :: "string option"
  plan_context :: "'j PlanContext"
  created_at :: datetime
  approved_at :: "datetime option"
  started_at :: "datetime option"
  completed_at :: "datetime option"
  failed_at :: "datetime option"
  approved_by :: "UserId option"
  outcome :: "'j TerminalOutcome option"

record ('a, 'j) Rejected =
  rejected_plan :: "('a, 'j) Plan"
  rejected_error :: TransitionError

definition into_parts :: "('a, 'j) Rejected \<Rightarrow> ('a, 'j) Plan \<times> TransitionError" where
  "into_parts r = (rejected_plan r, rejected_error r)"

text \<open>Plans over countable actions and values are countable, so they can be encoded.\<close>

instance ExecutionResult_ext :: (countable, countable) countable
  by (rule countable_classI [of "\<lambda>r. to_nat (entities_affected r, result_summary r, result_details r,
      ExecutionResult.more r)"]) simp

instance PlanError_ext :: (countable, countable) countable
  by (rule countable_classI [of "\<lambda>e. to_nat (error_message e, error_code e, error_details e,
      PlanError.more e)"]) simp

instance PlanStatus :: countable
  by countable_datatype

instance TerminalOutcome :: (countable) countable
  by countable_datatype

instance Plan_ext :: (countable, countable, countable) countable
  by (rule countable_classI [of "\<lambda>p. to_nat (plan_id p, owner p, actions p, status p, description p,
      plan_context p, created_at p, approved_at p, started_at p, completed_at p, failed_at p,
      approved_by p, outcome p, Plan.Plan.more p)"]) simp

section \<open>Operations\<close>

definition can_approve :: "('a, 'j) Plan \<Rightarrow> bool" where
  "can_approve p \<longleftrightarrow> status p = Draft"

definition can_start :: "('a, 'j) Plan \<Rightarrow> bool" where
  "can_start p \<longleftrightarrow> status p = Approved"

definition is_terminal :: "('a, 'j) Plan \<Rightarrow> bool" where
  "is_terminal p \<longleftrightarrow> status_is_terminal (status p)"

definition approve ::
  "datetime \<Rightarrow> UserId \<Rightarrow> ('a, 'j) Plan \<Rightarrow> (('a, 'j) Rejected, ('a, 'j) Plan) result" where
  "approve now by_user p =
     (if status p \<noteq> Draft
      then Err \<lparr>rejected_plan = p, rejected_error = InvalidState Draft (status p)\<rparr>
      else Ok (p\<lparr>status := Approved, approved_at := Some now, approved_by := Some by_user\<rparr>))"

definition start ::
  "datetime \<Rightarrow> ('a, 'j) Plan \<Rightarrow> (('a, 'j) Rejected, ('a, 'j) Plan) result" where
  "start now p =
     (if status p \<noteq> Approved
      then Err \<lparr>rejected_plan = p, rejected_error = InvalidState Approved (status p)\<rparr>
      else Ok (p\<lparr>status := Executing, started_at := Some now\<rparr>))"

definition complete ::
  "datetime \<Rightarrow> 'j ExecutionResult \<Rightarrow> ('a, 'j) Plan \<Rightarrow>
   (('a, 'j) Rejected, ('a, 'j) Plan) result" where
  "complete now res p =
     (if status p \<noteq> Executing
      then Err \<lparr>rejected_plan = p, rejected_error = InvalidState Executing (status p)\<rparr>
      else Ok (p\<lparr>status := Executed, completed_at := Some now,
                 outcome := Some (ExecutedOutcome res)\<rparr>))"

definition fail ::
  "datetime \<Rightarrow> 'j PlanError \<Rightarrow> ('a, 'j) Plan \<Rightarrow> (('a, 'j) Rejected, ('a, 'j) Plan) result" where
  "fail now err p =
     (if status p \<noteq> Executing
      then Err \<lparr>rejected_plan = p, rejected_error = InvalidState Executing (status p)\<rparr>
      else Ok (p\<lparr>status := Failed, failed_at := Some now, outcome := Some (FailedOutcome err)\<rparr>))"

definition timeline :: "('a, 'j) Plan \<Rightarrow> (PlanStatus \<times> datetime) list" where
  "timeline p =
     (let push = (\<lambda>st t events. case t of Some t \<Rightarrow> events @ [(st, t)] | None \<Rightarrow> events)
      in push Failed (failed_at p)
          (push Executed (completed_at p)
            (push Executing (started_at p)
              (push Approved (approved_at p) [(Draft, created_at p)]))))"

definition create_plan ::
  "datetime \<Rightarrow> PlanId \<Rightarrow> TenantId \<Rightarrow> 'a ActionSeq \<Rightarrow> ('a, 'j) Plan" where
  "create_plan now ident own acts =
     \<lparr>plan_id = ident, owner = own, actions = acts, status = Draft, description = None,
      plan_context = context_new, created_at = now, approved_at = None, started_at = None,
      completed_at = None, failed_at = None, approved_by = None, outcome = None\<rparr>"

definition create_plan_with_context ::
  "datetime \<Rightarrow> PlanId \<Rightarrow> TenantId \<Rightarrow> 'a ActionSeq \<Rightarrow> string \<Rightarrow> 'j PlanContext \<Rightarrow>
   ('a, 'j) Plan" where
  "create_plan_with_context now ident own acts desc ctx =
     (create_plan now ident own acts)\<lparr>description := Some desc, plan_context := ctx\<rparr>"

section \<open>Builder\<close>

datatype PlanBuildError = MissingField string | EmptyActions | BuildSerde string

record ('a, 'j) PlanBuilder =
  pb_id :: PlanId
  pb_owner :: TenantId
  pb_action_seq :: "'a ActionSeq option"
  pb_raw_actions :: "'a list option"
  pb_description :: "string option"
  pb_context :: "'j PlanContext"

definition plan_builder_new :: "PlanId \<Rightarrow> TenantId \<Rightarrow> ('a, 'j) PlanBuilder" where
  "plan_builder_new ident own =
     \<lparr>pb_id = ident, pb_owner = own, pb_action_seq = None, pb_raw_actions = None,
      pb_description = None, pb_context = context_new\<rparr>"

definition builder_description :: "string \<Rightarrow> ('a, 'j) PlanBuilder \<Rightarrow> ('a, 'j) PlanBuilder" where
  "builder_description desc b = b\<lparr>pb_description := Some desc\<rparr>"

definition builder_actions :: "'a list \<Rightarrow> ('a, 'j) PlanBuilder \<Rightarrow> ('a, 'j) PlanBuilder" where
  "builder_actions acts b = b\<lparr>pb_raw_actions := Some acts\<rparr>"

definition builder_action_seq :: "'a ActionSeq \<Rightarrow> ('a, 'j) PlanBuilder \<Rightarrow> ('a, 'j) PlanBuilder" where
  "builder_action_seq seq b = b\<lparr>pb_action_seq := Some seq\<rparr>"

definition builder_context_entry :: "string \<Rightarrow> 'j \<Rightarrow> ('a, 'j) PlanBuilder \<Rightarrow> ('a, 'j) PlanBuilder" where
  "builder_context_entry key v b = b\<lparr>pb_context := context_set key v (pb_context b)\<rparr>"

text \<open>A failing \<open>Serialize\<close> implementation panics: \<open>None\<close> is the panic.\<close>

definition builder_typed_context_entry ::
  "('v, 'j) serde \<Rightarrow> ContextKey \<Rightarrow> 'v \<Rightarrow> ('a, 'j) PlanBuilder \<Rightarrow> ('a, 'j) PlanBuilder option" where
  "builder_typed_context_entry sd key v b =
     (case context_set_typed sd key v (pb_context b) of
        (Err _, _) \<Rightarrow> None
      | (Ok (), c) \<Rightarrow> Some (b\<lparr>pb_context := c\<rparr>))"

definition build :: "datetime \<Rightarrow> ('a, 'j) PlanBuilder \<Rightarrow> (PlanBuildError, ('a, 'j) Plan) result" where
  "build now b =
     (let acts =
        (case pb_action_seq b of
           Some seq \<Rightarrow> Ok seq
         | None \<Rightarrow>
             (case pb_raw_actions b of
                Some raw \<Rightarrow> ok_or EmptyActions (action_seq_from_vec raw)
              | None \<Rightarrow> Err (MissingField ''actions'')))
      in case acts of
           Err e \<Rightarrow> Err e
         | Ok seq \<Rightarrow> Ok ((create_plan now (pb_id b) (pb_owner b) seq)
             \<lparr>description := pb_description b, plan_context := pb_context b\<rparr>))"

section \<open>Builder laws\<close>

lemma fold_context_entries:
  "fold (\<lambda>(k, v). builder_context_entry k v) kvs b =
     b\<lparr>pb_context := pb_context b ++\<^sub>f fmap_of_list (rev kvs)\<rparr>"
proof (induction kvs arbitrary: b)
  case Nil
  show ?case by simp
next
  case (Cons kv kvs)
  obtain k v where kv: "kv = (k, v)" by (cases kv)
  have "fmupd k v c ++\<^sub>f fmap_of_list (rev kvs) = c ++\<^sub>f fmap_of_list (rev (kv # kvs))" for c
    by (rule fmap_ext) (auto simp: kv fmlookup_of_list split: option.splits)
  with Cons kv show ?case by (simp add: builder_context_entry_def context_set_def)
qed

text \<open>
  The builder laws: an empty action list is rejected at build time, a missing one is
  reported by name, otherwise the plan is a draft of these actions; context entries accumulate
  and the last write of a key wins; a prepared action sequence takes priority.
\<close>

theorem plan_builder_laws:
  "build now (fold (\<lambda>(k, v). builder_context_entry k v) kvs (plan_builder_new i own)) =
     Err (MissingField ''actions'') \<and>
   build now (builder_actions acts (fold (\<lambda>(k, v). builder_context_entry k v) kvs
       (builder_description desc (plan_builder_new i own)))) =
     (case action_seq_from_vec acts of
        None \<Rightarrow> Err EmptyActions
      | Some seq \<Rightarrow> Ok (create_plan_with_context now i own seq desc (fmap_of_list (rev kvs)))) \<and>
   build now (builder_actions acts (builder_action_seq seq (plan_builder_new i own))) =
     Ok (create_plan now i own seq)"
  by (simp add: build_def builder_actions_def builder_action_seq_def builder_description_def
      plan_builder_new_def fold_context_entries create_plan_with_context_def create_plan_def
      context_new_def split: option.splits)

section \<open>The state machine\<close>

text \<open>A call of a transition method, and the plan a caller holds after it.\<close>

datatype 'j plan_cmd =
    Approve UserId
  | Start
  | Complete "'j ExecutionResult"
  | Fail "'j PlanError"

fun transition ::
  "datetime \<Rightarrow> 'j plan_cmd \<Rightarrow> ('a, 'j) Plan \<Rightarrow> (('a, 'j) Rejected, ('a, 'j) Plan) result" where
  "transition now (Approve u) p = approve now u p"
| "transition now Start p = start now p"
| "transition now (Complete r) p = complete now r p"
| "transition now (Fail e) p = fail now e p"

definition held_plan :: "(('a, 'j) Rejected, ('a, 'j) Plan) result \<Rightarrow> ('a, 'j) Plan" where
  "held_plan r = (case r of Err rej \<Rightarrow> fst (into_parts rej) | Ok p \<Rightarrow> p)"

fun run_plan :: "(datetime \<times> 'j plan_cmd) list \<Rightarrow> ('a, 'j) Plan \<Rightarrow> ('a, 'j) Plan" where
  "run_plan [] p = p"
| "run_plan ((now, c) # cs) p = run_plan cs (held_plan (transition now c p))"

text \<open>The documented diagram.\<close>

inductive status_step :: "PlanStatus \<Rightarrow> PlanStatus \<Rightarrow> bool" where
  draft_approved: "status_step Draft Approved"
| approved_executing: "status_step Approved Executing"
| executing_executed: "status_step Executing Executed"
| executing_failed: "status_step Executing Failed"

inductive_cases status_step_from [elim!]:
  "status_step Draft s" "status_step Approved s" "status_step Executing s"
  "status_step Executed s" "status_step Failed s"

inductive_simps status_step_simps: "status_step s s'"

declare status_step.intros [intro]

text \<open>The effect of a successful transition on the plan.\<close>

inductive plan_step :: "datetime \<Rightarrow> ('a, 'j) Plan \<Rightarrow> ('a, 'j) Plan \<Rightarrow> bool" where
  step_approve: "status p = Draft \<Longrightarrow>
    plan_step now p (p\<lparr>status := Approved, approved_at := Some now, approved_by := Some u\<rparr>)"
| step_start: "status p = Approved \<Longrightarrow>
    plan_step now p (p\<lparr>status := Executing, started_at := Some now\<rparr>)"
| step_complete: "status p = Executing \<Longrightarrow>
    plan_step now p (p\<lparr>status := Executed, completed_at := Some now,
      outcome := Some (ExecutedOutcome r)\<rparr>)"
| step_fail: "status p = Executing \<Longrightarrow>
    plan_step now p (p\<lparr>status := Failed, failed_at := Some now, outcome := Some (FailedOutcome e)\<rparr>)"

lemmas transition_defs = approve_def start_def complete_def fail_def

lemma transition_Ok: "transition now c p = Ok p' \<Longrightarrow> plan_step now p p'"
  by (cases c) (auto simp: transition_defs split: if_splits intro: plan_step.intros)

lemma transition_Err:
  "transition now c p = Err r \<Longrightarrow> rejected_plan r = p \<and> actual (rejected_error r) = status p"
  by (cases c) (auto simp: transition_defs split: if_splits)

lemma transition_cases:
  obtains (accepted) p' where "transition now c p = Ok p'" "held_plan (transition now c p) = p'"
      "plan_step now p p'"
    | (rejected) r where "transition now c p = Err r" "held_plan (transition now c p) = p"
proof (cases "transition now c p")
  case (Inl r)
  with transition_Err [OF this] rejected show ?thesis by (simp add: held_plan_def into_parts_def)
next
  case (Inr p')
  with transition_Ok [OF this] accepted show ?thesis by (simp add: held_plan_def)
qed

text \<open>Induction over a run: what every accepted transition keeps, the run keeps.\<close>

lemma run_plan_preserves:
  assumes "P p" and "\<And>now q q'. P q \<Longrightarrow> plan_step now q q' \<Longrightarrow> P q'"
  shows "P (run_plan cs p)"
  using assms(1)
proof (induction cs p rule: run_plan.induct)
  case (1 p)
  then show ?case by simp
next
  case (2 now c cs p)
  show ?case
    by (cases rule: transition_cases [of now c p]) (use 2 assms(2) in auto)
qed

lemma plan_step_status: "plan_step now p p' \<Longrightarrow> status_step (status p) (status p')"
  by (induction rule: plan_step.induct) auto

lemma plan_step_identity:
  "plan_step now p p' \<Longrightarrow> plan_id p' = plan_id p \<and> owner p' = owner p \<and> actions p' = actions p \<and>
     description p' = description p \<and> plan_context p' = plan_context p \<and> created_at p' = created_at p"
  by (induction rule: plan_step.induct) auto

lemma plan_step_audit:
  "plan_step now p p' \<Longrightarrow> status p \<noteq> Draft \<Longrightarrow>
     approved_by p' = approved_by p \<and> approved_at p' = approved_at p \<and> status p' \<noteq> Draft"
  by (induction rule: plan_step.induct) auto

lemma terminal_no_step: "is_terminal p \<Longrightarrow> \<not> plan_step now p p'"
  by (auto simp: is_terminal_def elim: plan_step.cases)

fun status_rank :: "PlanStatus \<Rightarrow> nat" where
  "status_rank Draft = 0"
| "status_rank Approved = 1"
| "status_rank Executing = 2"
| "status_rank Executed = 3"
| "status_rank Failed = 3"

lemma status_step_rank: "status_step s s' \<Longrightarrow> status_rank s < status_rank s'"
  by (induction rule: status_step.induct) auto

section \<open>Invariants\<close>

text \<open>The states a plan has passed through, in order, when it is in a given state.\<close>

fun status_path :: "PlanStatus \<Rightarrow> PlanStatus list" where
  "status_path Draft = [Draft]"
| "status_path Approved = [Draft, Approved]"
| "status_path Executing = [Draft, Approved, Executing]"
| "status_path Executed = [Draft, Approved, Executing, Executed]"
| "status_path Failed = [Draft, Approved, Executing, Failed]"

definition outcome_matches :: "PlanStatus \<Rightarrow> 'j TerminalOutcome option \<Rightarrow> bool" where
  "outcome_matches st out =
     (case out of
        None \<Rightarrow> \<not> status_is_terminal st
      | Some (ExecutedOutcome _) \<Rightarrow> st = Executed
      | Some (FailedOutcome _) \<Rightarrow> st = Failed)"

definition plan_wf :: "('a, 'j) Plan \<Rightarrow> bool" where
  "plan_wf p \<longleftrightarrow>
     map fst (timeline p) = status_path (status p) \<and>
     (approved_by p \<noteq> None \<longleftrightarrow> status p \<noteq> Draft) \<and>
     outcome_matches (status p) (outcome p)"

lemma plan_wf_create [simp, inv_intros]:
  "plan_wf (create_plan now i own acts)" "plan_wf (create_plan_with_context now i own acts d c)"
  by (simp_all add: plan_wf_def create_plan_with_context_def create_plan_def timeline_def
      outcome_matches_def)

lemma plan_wf_cases:
  assumes "plan_wf p"
  shows "status p = Draft \<Longrightarrow> approved_at p = None \<and> started_at p = None \<and> completed_at p = None \<and> failed_at p = None"
    and "status p = Approved \<Longrightarrow> approved_at p \<noteq> None \<and> started_at p = None \<and> completed_at p = None \<and> failed_at p = None"
    and "status p = Executing \<Longrightarrow> approved_at p \<noteq> None \<and> started_at p \<noteq> None \<and> completed_at p = None \<and> failed_at p = None"
  using assms by (auto simp: plan_wf_def timeline_def Let_def split: option.splits)

lemma plan_step_timeline:
  "plan_step now p p' \<Longrightarrow> plan_wf p \<Longrightarrow> timeline p' = timeline p @ [(status p', now)]"
  by (induction rule: plan_step.induct)
    (use plan_wf_cases in \<open>force simp: timeline_def Let_def\<close>)+

lemma plan_step_wf [inv_intros]: "plan_step now p p' \<Longrightarrow> plan_wf p \<Longrightarrow> plan_wf p'"
proof -
  assume step: "plan_step now p p'" and wf: "plan_wf p"
  have "map fst (timeline p') = status_path (status p) @ [status p']"
    using plan_step_timeline [OF step wf] wf by (simp add: plan_wf_def)
  with step wf show "plan_wf p'"
    by (auto simp: plan_wf_def outcome_matches_def elim!: plan_step.cases
        split: option.splits TerminalOutcome.splits)
qed

section \<open>Properties\<close>

text \<open>
  C3. Every plan a caller can hold is consistent: after any sequence of transition calls, accepted
  or rejected, the set timestamps are exactly those of the states on the way to the current one,
  the approver is recorded iff the plan left the draft state, and the outcome is present iff the
  state is terminal and of the matching kind. If the clock readings do not go back, the timeline
  is in ascending order.
\<close>

theorem plan_run_consistent:
  fixes cs :: "(datetime \<times> 'j plan_cmd) list" and acts :: "'a ActionSeq"
  shows "plan_wf (run_plan cs (create_plan t0 i own acts)) \<and>
   (sorted (t0 # map fst cs) \<longrightarrow>
    sorted (map snd (timeline (run_plan cs (create_plan t0 i own acts)))))"
proof
  show "plan_wf (run_plan cs (create_plan t0 i own acts))"
    by (rule run_plan_preserves [where P = plan_wf]) (auto intro: inv_intros)
  have "sorted (map snd (timeline (run_plan cs p)))"
    if "plan_wf p" "sorted (map snd (timeline p))" "sorted (map fst cs)"
      "\<forall>t \<in> snd ` set (timeline p). \<forall>t' \<in> fst ` set cs. t \<le> t'"
    for p :: "('a, 'j) Plan"
    using that
  proof (induction cs p rule: run_plan.induct)
    case (1 p)
    then show ?case by simp
  next
    case (2 now c cs p)
    show ?case
    proof (cases rule: transition_cases [of now c p])
      case (accepted p')
      have "timeline p' = timeline p @ [(status p', now)]"
        using accepted(3) "2.prems"(1) by (rule plan_step_timeline)
      then have "sorted (map snd (timeline (run_plan cs p')))"
        using 2 accepted plan_step_wf [OF accepted(3) "2.prems"(1)]
        by (auto simp: sorted_append)
      with accepted show ?thesis by simp
    next
      case rejected
      with 2 show ?thesis by auto
    qed
  qed
  from this [of "create_plan t0 i own acts"]
 show "sorted (t0 # map fst cs) \<longrightarrow>
      sorted (map snd (timeline (run_plan cs (create_plan t0 i own acts))))"
    by (simp add: timeline_def [of "create_plan t0 i own acts"]) (simp add: create_plan_def)
qed

theorem plan_run_consistent_witness:
  "sorted (map snd (timeline (run_plan
     [(5, Approve (UserId ''u'')), (6, Fail (plan_error_new ''no'')), (7, Start)]
     (create_plan 1 (PlanId ''p'') (TenantId ''t'') (single_action 0) :: (nat, nat) Plan))))"
  using plan_run_consistent [of "[(5, Approve (UserId ''u'')), (6, Fail (plan_error_new ''no'')),
      (7, Start)] :: (datetime \<times> nat plan_cmd) list" 1 "PlanId ''p''" "TenantId ''t''"
      "single_action (0::nat)"]
  by auto

text \<open>
  Transitions only move forward and keep the plan's identity: the rank of the status never
  decreases, a terminal plan is unchanged by every further call, the id, owner, actions,
  description, context and creation time never change, and the approval record, once written, is
  never overwritten.
\<close>

theorem plan_run_forward:
  "status_rank (status p) \<le> status_rank (status (run_plan cs p)) \<and>
   (is_terminal p \<longrightarrow> run_plan cs p = p) \<and>
   (status p \<noteq> Draft \<longrightarrow> approved_by (run_plan cs p) = approved_by p \<and>
      approved_at (run_plan cs p) = approved_at p) \<and>
   plan_id (run_plan cs p) = plan_id p \<and> owner (run_plan cs p) = owner p \<and>
   actions (run_plan cs p) = actions p \<and> description (run_plan cs p) = description p \<and>
   plan_context (run_plan cs p) = plan_context p \<and> created_at (run_plan cs p) = created_at p"
proof -
  have rank: "status_rank (status p) \<le> status_rank (status (run_plan cs p))"
    by (rule run_plan_preserves [where P = "\<lambda>q. status_rank (status p) \<le> status_rank (status q)"])
      (auto dest!: plan_step_status status_step_rank)
  have terminal: "run_plan cs p = p" if "is_terminal p"
    using that terminal_no_step [OF that]
    by (intro run_plan_preserves [where P = "\<lambda>q. q = p"]) auto
  have audit: "approved_by (run_plan cs p) = approved_by p \<and>
      approved_at (run_plan cs p) = approved_at p \<and> status (run_plan cs p) \<noteq> Draft"
    if "status p \<noteq> Draft"
    using that
    by (intro run_plan_preserves [where P = "\<lambda>q. approved_by q = approved_by p \<and>
          approved_at q = approved_at p \<and> status q \<noteq> Draft"])
      (auto dest: plan_step_audit)
  have "plan_id (run_plan cs p) = plan_id p \<and> owner (run_plan cs p) = owner p \<and>
      actions (run_plan cs p) = actions p \<and> description (run_plan cs p) = description p \<and>
      plan_context (run_plan cs p) = plan_context p \<and> created_at (run_plan cs p) = created_at p"
    by (rule run_plan_preserves [where P = "\<lambda>q. plan_id q = plan_id p \<and> owner q = owner p \<and>
          actions q = actions p \<and> description q = description p \<and>
          plan_context q = plan_context p \<and> created_at q = created_at p"])
      (auto dest: plan_step_identity)
  with rank terminal audit show ?thesis by blast
qed

theorem plan_run_forward_witness:
  "run_plan [(3, Approve (UserId ''v''))]
     (run_plan [(1, Approve (UserId ''u'')), (1, Start), (2, Complete
         \<lparr>entities_affected = 1, result_summary = None, result_details = None\<rparr>)]
       (create_plan 0 (PlanId ''p'') (TenantId ''t'') (single_action 0) :: (nat, nat) Plan)) =
   run_plan [(1, Approve (UserId ''u'')), (1, Start), (2, Complete
       \<lparr>entities_affected = 1, result_summary = None, result_details = None\<rparr>)]
     (create_plan 0 (PlanId ''p'') (TenantId ''t'') (single_action 0) :: (nat, nat) Plan)"
  using plan_run_forward [of "run_plan [(1, Approve (UserId ''u'')), (1, Start), (2, Complete
       \<lparr>entities_affected = 1, result_summary = None, result_details = None\<rparr>)]
     (create_plan 0 (PlanId ''p'') (TenantId ''t'') (single_action 0) :: (nat, nat) Plan)"
     "[(3, Approve (UserId ''v''))]"]
  by (simp add: is_terminal_def transition_defs held_plan_def create_plan_def)

lemma status_step_realised:
  assumes "status_step (status p) s'"
  obtains c where "status (held_plan (transition now c p)) = s'"
proof (cases "status p")
  case Draft
  with assms that [of "Approve u" for u] show ?thesis
    by (auto simp: approve_def held_plan_def)
next
  case Approved
  with assms that [of Start] show ?thesis by (auto simp: start_def held_plan_def)
next
  case Executing
  with assms that [of "Complete r" for r] that [of "Fail e" for e] show ?thesis
    by (auto simp: transition_defs held_plan_def)
qed (use assms in auto)

lemma run_plan_append: "run_plan (cs @ cs') p = run_plan cs' (run_plan cs p)"
  by (induction cs p rule: run_plan.induct) auto

text \<open>
  The methods implement the documented diagram and nothing else: from a plan in some state,
  the states reachable by calling transition methods are exactly the states reachable in the
  diagram.
\<close>

theorem plan_refines_diagram:
  "(\<exists>cs. status (run_plan cs p) = s') \<longleftrightarrow> status_step\<^sup>*\<^sup>* (status p) s'"
proof
  assume "\<exists>cs. status (run_plan cs p) = s'"
  then obtain cs where "status (run_plan cs p) = s'" ..
  moreover have "status_step\<^sup>*\<^sup>* (status p) (status (run_plan cs p))"
    by (rule run_plan_preserves [where P = "\<lambda>q. status_step\<^sup>*\<^sup>* (status p) (status q)"])
      (auto dest: plan_step_status intro: rtranclp.rtrancl_into_rtrancl)
  ultimately show "status_step\<^sup>*\<^sup>* (status p) s'" by simp
next
  assume "status_step\<^sup>*\<^sup>* (status p) s'"
  then show "\<exists>cs. status (run_plan cs p) = s'"
  proof (induction rule: rtranclp_induct)
    case base
    show ?case by (rule exI [of _ "[]"]) simp
  next
    case (step s s')
    then obtain cs where cs: "status (run_plan cs p) = s" by blast
    with step.hyps obtain c where "status (held_plan (transition 0 c (run_plan cs p))) = s'"
      using status_step_realised [of "run_plan cs p" s' 0] by metis
    then show ?case
      by (intro exI [of _ "cs @ [(0, c)]"]) (simp add: run_plan_append)
  qed
qed

end
