(* ===== verification/DashMap_KV.thy ===== *)
theory DashMap_KV
  imports KV_Store Ids "HOL-Library.DAList"
begin

text \<open>
  The in-memory store of \<open>crates/agent-fw-interpreter/src/dashmap_kv.rs\<close>: the concurrent map is
  an association list with distinct keys (its iteration order stands for the unspecified one of
  the hash map), the state also holds the reading of the monotonic clock. Each method is one
  atomic operation; \<open>dashmap_elapse\<close> lets time pass between operations.
\<close>

section \<open>State and operations\<close>

record 'j Entry =
  entry_value :: 'j
  entry_created :: instant
  entry_ttl :: "duration option"

text \<open>\<open>Instant::elapsed\<close> is the saturating difference to the current reading.\<close>

definition is_expired :: "instant \<Rightarrow> 'j Entry \<Rightarrow> bool" where
  "is_expired now e =
     (case entry_ttl e of None \<Rightarrow> False | Some d \<Rightarrow> now - entry_created e > d)"

record 'j DashMapKVStore =
  dm_data :: "(string, 'j Entry) alist"
  dm_now :: instant

definition dashmap_new :: "instant \<Rightarrow> 'j DashMapKVStore" where
  "dashmap_new now = \<lparr>dm_data = DAList.empty, dm_now = now\<rparr>"

definition dashmap_elapse :: "duration \<Rightarrow> 'j DashMapKVStore \<Rightarrow> 'j DashMapKVStore" where
  "dashmap_elapse d s = s\<lparr>dm_now := dm_now s + d\<rparr>"

definition dashmap_len :: "'j DashMapKVStore \<Rightarrow> nat" where
  "dashmap_len s = size (dm_data s)"

definition cleanup_expired :: "'j DashMapKVStore \<Rightarrow> 'j DashMapKVStore" where
  "cleanup_expired s =
     s\<lparr>dm_data := DAList.filter (\<lambda>(_, e). \<not> is_expired (dm_now s) e) (dm_data s)\<rparr>"

definition scoped_key :: "string \<Rightarrow> string \<Rightarrow> string" where
  "scoped_key tenant key = tenant @ '':'' @ key"

definition dashmap_put_json ::
  "'j DashMapKVStore \<Rightarrow> string \<Rightarrow> string \<Rightarrow> 'j \<Rightarrow> duration option \<Rightarrow>
   (KVError, unit) result \<times> 'j DashMapKVStore" where
  "dashmap_put_json s tenant key v ttl =
     (let e = \<lparr>entry_value = v, entry_created = dm_now s, entry_ttl = ttl\<rparr>
      in (Ok (), s\<lparr>dm_data := DAList.update (scoped_key tenant key) e (dm_data s)\<rparr>))"

definition dashmap_remove :: "string \<Rightarrow> 'j DashMapKVStore \<Rightarrow> 'j DashMapKVStore" where
  "dashmap_remove k s = s\<lparr>dm_data := DAList.delete k (dm_data s)\<rparr>"

definition dashmap_get_json ::
  "'j DashMapKVStore \<Rightarrow> string \<Rightarrow> string \<Rightarrow> (KVError, 'j option) result \<times> 'j DashMapKVStore" where
  "dashmap_get_json s tenant key =
     (let sk = scoped_key tenant key
      in case DAList.lookup (dm_data s) sk of
           Some e \<Rightarrow> if is_expired (dm_now s) e then (Ok None, dashmap_remove sk s)
                    else (Ok (Some (entry_value e)), s)
         | None \<Rightarrow> (Ok None, s))"

definition dashmap_delete ::
  "'j DashMapKVStore \<Rightarrow> string \<Rightarrow> string \<Rightarrow> (KVError, bool) result \<times> 'j DashMapKVStore" where
  "dashmap_delete s tenant key =
     (let sk = scoped_key tenant key
      in (Ok (DAList.lookup (dm_data s) sk \<noteq> None), dashmap_remove sk s))"

definition dashmap_exists ::
  "'j DashMapKVStore \<Rightarrow> string \<Rightarrow> string \<Rightarrow> (KVError, bool) result \<times> 'j DashMapKVStore" where
  "dashmap_exists s tenant key =
     (let sk = scoped_key tenant key
      in case DAList.lookup (dm_data s) sk of
           Some e \<Rightarrow> if is_expired (dm_now s) e then (Ok False, dashmap_remove sk s) else (Ok True, s)
         | None \<Rightarrow> (Ok False, s))"

fun dashmap_get_many_loop ::
  "string \<Rightarrow> string list \<Rightarrow> (string \<rightharpoonup> 'j) \<Rightarrow> 'j DashMapKVStore \<Rightarrow>
   (string \<rightharpoonup> 'j) \<times> 'j DashMapKVStore" where
  "dashmap_get_many_loop tenant [] res s = (res, s)"
| "dashmap_get_many_loop tenant (key # keys) res s =
     (let sk = scoped_key tenant key
      in case DAList.lookup (dm_data s) sk of
           Some e \<Rightarrow> if is_expired (dm_now s) e
                    then dashmap_get_many_loop tenant keys res (dashmap_remove sk s)
                    else dashmap_get_many_loop tenant keys (res(key \<mapsto> entry_value e)) s
         | None \<Rightarrow> dashmap_get_many_loop tenant keys res s)"

definition dashmap_get_many_json ::
  "'j DashMapKVStore \<Rightarrow> string \<Rightarrow> string list \<Rightarrow>
   (KVError, string \<rightharpoonup> 'j) result \<times> 'j DashMapKVStore" where
  "dashmap_get_many_json s tenant keys =
     (let (res, s') = dashmap_get_many_loop tenant keys Map.empty s in (Ok res, s'))"

definition dashmap_list_keys ::
  "'j DashMapKVStore \<Rightarrow> string \<Rightarrow> string \<Rightarrow> (KVError, string list) result \<times> 'j DashMapKVStore" where
  "dashmap_list_keys s tenant prefix_str =
     (let tenant_prefix = tenant @ '':'';
          full_prefix = tenant_prefix @ prefix_str
      in (Ok (List.map_filter (\<lambda>(k, e). strip_prefix_str tenant_prefix k)
            (filter (\<lambda>(k, e). prefix full_prefix k \<and> \<not> is_expired (dm_now s) e)
              (alist.impl_of (dm_data s)))), s))"

definition dashmap_kv :: "('j DashMapKVStore, 'j) KVStore" where
  "dashmap_kv = \<lparr>put_json = dashmap_put_json, get_json = dashmap_get_json,
     kv_delete = dashmap_delete, kv_exists = dashmap_exists, list_keys = dashmap_list_keys,
     get_many_json = dashmap_get_many_json\<rparr>"

section \<open>Content and laws\<close>

definition dashmap_peek :: "'j DashMapKVStore \<Rightarrow> string \<Rightarrow> string \<Rightarrow> 'j option" where
  "dashmap_peek s t k =
     (case DAList.lookup (dm_data s) (scoped_key t k) of
        None \<Rightarrow> None
      | Some e \<Rightarrow> if is_expired (dm_now s) e then None else Some (entry_value e))"

definition colon_free :: "string \<Rightarrow> bool" where
  "colon_free t \<longleftrightarrow> CHR '':'' \<notin> set t"

lemma scoped_key_inject:
  "colon_free t \<Longrightarrow> colon_free t' \<Longrightarrow> scoped_key t k = scoped_key t' k' \<longleftrightarrow> t = t' \<and> k = k'"
  by (simp add: scoped_key_def colon_free_def split_at_first)

lemma scoped_key_eq_same_tenant [simp]: "scoped_key t k = scoped_key t k' \<longleftrightarrow> k = k'"
  by (simp add: scoped_key_def)

lemma fresh_not_expired [simp]: "\<not> is_expired now \<lparr>entry_value = v, entry_created = now, entry_ttl = ttl\<rparr>"
  by (simp add: is_expired_def split: option.splits)

lemma peek_remove:
  "dashmap_peek (dashmap_remove sk s) t k = (if sk = scoped_key t k then None else dashmap_peek s t k)"
  by (auto simp: dashmap_peek_def dashmap_remove_def lookup_delete split: option.splits)

lemma peek_remove_expired:
  "DAList.lookup (dm_data s) sk = Some e \<Longrightarrow> is_expired (dm_now s) e \<Longrightarrow>
   dashmap_peek (dashmap_remove sk s) = dashmap_peek s"
  by (rule ext)+ (auto simp: peek_remove dashmap_peek_def [of s])

lemma get_many_loop_content:
  "dashmap_get_many_loop t ks res s = (res', s') \<Longrightarrow>
   dashmap_peek s' = dashmap_peek s \<and>
   res' = (\<lambda>k. if k \<in> set ks \<and> dashmap_peek s t k \<noteq> None then dashmap_peek s t k else res k)"
proof (induction t ks res s rule: dashmap_get_many_loop.induct)
  case (1 t res s)
  then show ?case by simp
next
  case (2 t key keys res s)
  let ?look = "DAList.lookup (dm_data s) (scoped_key t key)"
  show ?case
  proof (cases ?look)
    case None
    then have peek: "dashmap_peek s t key = None" by (simp add: dashmap_peek_def)
    from "2.prems" None have "dashmap_get_many_loop t keys res s = (res', s')" by simp
    from "2.IH"(1) [OF refl None this] peek show ?thesis by (auto simp: fun_eq_iff)
  next
    case (Some e)
    show ?thesis
    proof (cases "is_expired (dm_now s) e")
      case True
      with Some have peek: "dashmap_peek s t key = None" by (simp add: dashmap_peek_def)
      from "2.prems" Some True
      have "dashmap_get_many_loop t keys res (dashmap_remove (scoped_key t key) s) = (res', s')"
        by simp
      from "2.IH"(2) [OF refl Some True this] peek Some True show ?thesis
        by (auto simp: peek_remove_expired fun_eq_iff)
    next
      case False
      with Some have peek: "dashmap_peek s t key = Some (entry_value e)"
        by (simp add: dashmap_peek_def)
      from "2.prems" Some False
      have "dashmap_get_many_loop t keys (res(key \<mapsto> entry_value e)) s = (res', s')" by simp
      from "2.IH"(3) [OF refl Some False this] peek show ?thesis by (auto simp: fun_eq_iff)
    qed
  qed
qed

lemma lookup_impl_of: "DAList.lookup al k = Some e \<longleftrightarrow> (k, e) \<in> set (alist.impl_of al)"
  by (simp add: DAList.lookup.rep_eq)

lemma list_keys_content:
  "set (List.map_filter (\<lambda>(k, e). strip_prefix_str (t @ '':'') k)
     (filter (\<lambda>(k, e). prefix ((t @ '':'') @ p) k \<and> \<not> is_expired (dm_now s) e)
       (alist.impl_of (dm_data s)))) =
   {k. prefix p k \<and> dashmap_peek s t k \<noteq> None}" (is "set ?ks = ?live")
proof (rule set_eqI)
  fix k
  have "k \<in> set ?ks \<longleftrightarrow> (\<exists>sk e. (sk, e) \<in> set (alist.impl_of (dm_data s)) \<and>
      prefix ((t @ '':'') @ p) sk \<and> \<not> is_expired (dm_now s) e \<and> sk = (t @ '':'') @ k)"
    by (auto simp: in_set_map_filter_iff strip_prefix_Some_iff)
  also have "\<dots> \<longleftrightarrow> prefix p k \<and>
      (\<exists>e. DAList.lookup (dm_data s) (scoped_key t k) = Some e \<and> \<not> is_expired (dm_now s) e)"
    by (auto simp: lookup_impl_of scoped_key_def)
  also have "\<dots> \<longleftrightarrow> k \<in> ?live"
    by (auto simp: dashmap_peek_def split: option.splits)
  finally show "k \<in> set ?ks \<longleftrightarrow> k \<in> ?live" .
qed

lemmas dashmap_op_defs = dashmap_kv_def dashmap_put_json_def dashmap_get_json_def
  dashmap_delete_def dashmap_exists_def dashmap_list_keys_def dashmap_get_many_json_def

interpretation dashmap: KV_laws dashmap_kv dashmap_peek colon_free
proof unfold_locales
  fix s s' :: "'a DashMapKVStore" and t t' k k' v ttl rp rb rl rm p ks r
  show "r = Ok (dashmap_peek s t k) \<and> dashmap_peek s' = dashmap_peek s"
    if "get_json dashmap_kv s t k = (r, s')"
    using that by (auto simp: dashmap_op_defs Let_def dashmap_peek_def [of s t k]
        peek_remove_expired split: option.splits if_splits)
  show "rp = Ok () \<and> dashmap_peek s' t k = Some v" if "put_json dashmap_kv s t k v ttl = (rp, s')"
    using that by (auto simp: dashmap_op_defs Let_def dashmap_peek_def)
  show "dashmap_peek s' t' k' = dashmap_peek s t' k'"
    if "put_json dashmap_kv s t k v ttl = (rp, s')" "colon_free t" "colon_free t'" "(t', k') \<noteq> (t, k)"
    using that by (auto simp: dashmap_op_defs Let_def dashmap_peek_def lookup_update scoped_key_inject
        split: option.splits)
  show "dashmap_peek s' t k = None \<and> (\<exists>b. rb = Ok b \<and> (dashmap_peek s t k \<noteq> None \<longrightarrow> b))"
    if "kv_delete dashmap_kv s t k = (rb, s')"
    using that by (auto simp: dashmap_op_defs Let_def peek_remove dashmap_peek_def [of s] split: option.splits)
  show "dashmap_peek s' t' k' = dashmap_peek s t' k'"
    if "kv_delete dashmap_kv s t k = (rb, s')" "colon_free t" "colon_free t'" "(t', k') \<noteq> (t, k)"
    using that by (auto simp: dashmap_op_defs Let_def peek_remove scoped_key_inject)
  show "rb = Ok (dashmap_peek s t k \<noteq> None) \<and> dashmap_peek s' = dashmap_peek s"
    if "kv_exists dashmap_kv s t k = (rb, s')"
    using that by (auto simp: dashmap_op_defs Let_def dashmap_peek_def [of s t k]
        peek_remove_expired split: option.splits if_splits)
  show "dashmap_peek s' = dashmap_peek s \<and>
      (\<exists>ks. rl = Ok ks \<and> set ks = {k. prefix p k \<and> dashmap_peek s t k \<noteq> None})"
    if "list_keys dashmap_kv s t p = (rl, s')"
    using that list_keys_content [of t p s] by (auto simp: dashmap_op_defs Let_def)
  show "dashmap_peek s' = dashmap_peek s \<and> rm = Ok (\<lambda>k. if k \<in> set ks then dashmap_peek s t k else None)"
    if "get_many_json dashmap_kv s t ks = (rm, s')"
  proof -
    obtain res s1 where loop: "dashmap_get_many_loop t ks Map.empty s = (res, s1)" by fastforce
    from get_many_loop_content [OF loop] that loop show ?thesis
      by (auto simp: dashmap_op_defs fun_eq_iff)
  qed
qed

section \<open>Properties\<close>

lemma dashmap_get_peek: "fst (dashmap_get_json s t k) = Ok (dashmap_peek s t k)"
  by (auto simp: dashmap_get_json_def dashmap_peek_def Let_def split: option.splits)

lemma is_expired_later: "is_expired now e \<Longrightarrow> is_expired (now + d) e"
  by (auto simp: is_expired_def split: option.splits)

lemma elapse_simps [simp]:
  "dm_data (dashmap_elapse d s) = dm_data s" "dm_now (dashmap_elapse d s) = dm_now s + d"
  by (simp_all add: dashmap_elapse_def)

text \<open>What can happen to the store between two operations of a task, one operation at a time.\<close>

datatype 'j dm_op =
    DmPut string string 'j "duration option"
  | DmGet string string
  | DmDelete string string
  | DmExists string string
  | DmGetMany string "string list"
  | DmListKeys string string
  | DmCleanup
  | DmElapse duration

primrec run_dm_op :: "'j dm_op \<Rightarrow> 'j DashMapKVStore \<Rightarrow> 'j DashMapKVStore" where
  "run_dm_op (DmPut t k v ttl) s = snd (dashmap_put_json s t k v ttl)"
| "run_dm_op (DmGet t k) s = snd (dashmap_get_json s t k)"
| "run_dm_op (DmDelete t k) s = snd (dashmap_delete s t k)"
| "run_dm_op (DmExists t k) s = snd (dashmap_exists s t k)"
| "run_dm_op (DmGetMany t ks) s = snd (dashmap_get_many_json s t ks)"
| "run_dm_op (DmListKeys t p) s = snd (dashmap_list_keys s t p)"
| "run_dm_op DmCleanup s = cleanup_expired s"
| "run_dm_op (DmElapse d) s = dashmap_elapse d s"

fun writes :: "string \<Rightarrow> 'j dm_op \<Rightarrow> bool" where
  "writes sk (DmPut t k v ttl) \<longleftrightarrow> scoped_key t k = sk"
| "writes sk (DmDelete t k) \<longleftrightarrow> scoped_key t k = sk"
| "writes sk op \<longleftrightarrow> False"

fun time_of :: "'j dm_op \<Rightarrow> duration" where
  "time_of (DmElapse d) = d"
| "time_of op = 0"

text \<open>An entry that nobody writes is there, or it has expired and may have been evicted.\<close>

definition holds_entry :: "string \<Rightarrow> 'j Entry \<Rightarrow> 'j DashMapKVStore \<Rightarrow> bool" where
  "holds_entry sk e s \<longleftrightarrow>
     DAList.lookup (dm_data s) sk = Some e \<or> DAList.lookup (dm_data s) sk = None \<and> is_expired (dm_now s) e"

lemma holds_entry_remove:
  assumes "holds_entry sk e s" "DAList.lookup (dm_data s) sk' = Some e'" "is_expired (dm_now s) e'"
  shows "holds_entry sk e (dashmap_remove sk' s)"
  using assms by (auto simp: holds_entry_def dashmap_remove_def lookup_delete)

lemma dashmap_remove_now [simp]: "dm_now (dashmap_remove sk s) = dm_now s"
  by (simp add: dashmap_remove_def)

lemma holds_entry_get_many:
  "holds_entry sk e s \<Longrightarrow> dm_now (snd (dashmap_get_many_loop t ks res s)) = dm_now s \<and>
     holds_entry sk e (snd (dashmap_get_many_loop t ks res s))"
proof (induction ks arbitrary: res s)
  case (Cons key keys)
  show ?case
  proof (cases "DAList.lookup (dm_data s) (scoped_key t key)")
    case None
    with Cons.IH [OF Cons.prems] show ?thesis by simp
  next
    case (Some e')
    show ?thesis
    proof (cases "is_expired (dm_now s) e'")
      case True
      with Some Cons.IH [OF holds_entry_remove [OF Cons.prems Some True]] show ?thesis by simp
    next
      case False
      with Some Cons.IH [OF Cons.prems] show ?thesis by simp
    qed
  qed
qed simp

lemma lookup_cleanup:
  fixes s :: "'j DashMapKVStore"
  shows "DAList.lookup (dm_data (cleanup_expired s)) sk =
     (case DAList.lookup (dm_data s) sk of
        Some e \<Rightarrow> if is_expired (dm_now s) e then None else Some e | None \<Rightarrow> None)"
proof -
  have "map_of (filter (\<lambda>(_, e). \<not> is_expired (dm_now s) e) xs) sk =
      (case map_of xs sk of Some e \<Rightarrow> if is_expired (dm_now s) e then None else Some e | None \<Rightarrow> None)"
    if "distinct (map fst xs)" for xs :: "(string \<times> 'j Entry) list"
    using that by (induction xs) (auto split: option.splits simp: map_of_eq_None_iff image_iff dest: map_of_SomeD)
  from this [of "alist.impl_of (dm_data s)"] alist.impl_of [of "dm_data s"] show ?thesis
    by (simp add: cleanup_expired_def DAList.lookup.rep_eq DAList.filter.rep_eq)
qed

lemma holds_entry_op:
  assumes "holds_entry sk e s" "\<not> writes sk op"
  shows "holds_entry sk e (run_dm_op op s) \<and> dm_now (run_dm_op op s) = dm_now s + time_of op"
proof (cases op)
  case (DmGetMany t ks)
  with holds_entry_get_many [OF assms(1), of t ks Map.empty] show ?thesis
    by (simp add: dashmap_get_many_json_def case_prod_beta)
next
  case DmCleanup
  with assms(1) show ?thesis
    by (cases "is_expired (dm_now s) e") (auto simp: holds_entry_def lookup_cleanup, auto simp: cleanup_expired_def)
next
  case (DmElapse d)
  with assms(1) show ?thesis by (auto simp: holds_entry_def is_expired_later)
next
  case (DmGet t k)
  with assms(1) show ?thesis
    by (auto simp: dashmap_get_json_def Let_def holds_entry_remove split: option.splits)
next
  case (DmExists t k)
  with assms(1) show ?thesis
    by (auto simp: dashmap_exists_def Let_def holds_entry_remove split: option.splits)
next
  case (DmPut t k v ttl)
  with assms show ?thesis by (simp add: holds_entry_def dashmap_put_json_def lookup_update)
next
  case (DmDelete t k)
  with assms show ?thesis by (simp add: holds_entry_def dashmap_delete_def dashmap_remove_def Let_def lookup_delete)
next
  case (DmListKeys t p)
  with assms(1) show ?thesis by (simp add: dashmap_list_keys_def)
qed

lemma holds_entry_ops:
  "holds_entry sk e s \<Longrightarrow> list_all (\<lambda>op. \<not> writes sk op) ops \<Longrightarrow>
   holds_entry sk e (fold run_dm_op ops s) \<and> dm_now (fold run_dm_op ops s) = dm_now s + sum_list (map time_of ops)"
proof (induction ops arbitrary: s)
  case (Cons op ops)
  from holds_entry_op [of sk e s op] Cons.prems have "holds_entry sk e (run_dm_op op s)" "dm_now (run_dm_op op s) = dm_now s + time_of op"
    by simp_all
  with Cons.IH [of "run_dm_op op s"] Cons.prems(2) show ?case by simp
qed simp

text \<open>
  C9. Times to live are exact, over every history of operations that run one after the other: after a put, let
  any reads, writes of other entries, evictions, cleanups and passages of time follow, none of which puts or
  deletes this entry. Then every read finds the value as long as no more time than its time to live has
  passed, counting the last moment, and no read finds it afterwards; without a time to live it is found for
  ever. The four reads agree: the value itself, the test for existence, the batch read and the listing of keys.
\<close>

theorem dashmap_ttl_exact:
  fixes ops :: "'j dm_op list" and s :: "'j DashMapKVStore"
  assumes "list_all (\<lambda>op. \<not> writes (scoped_key t k) op) ops" "k \<in> set ks" "prefix p k"
    and s': "s' = fold run_dm_op ops (snd (dashmap_put_json s t k v ttl))"
    and live: "live \<longleftrightarrow> (case ttl of None \<Rightarrow> True | Some limit \<Rightarrow> sum_list (map time_of ops) \<le> limit)"
  shows "fst (dashmap_get_json s' t k) = Ok (if live then Some v else None) \<and>
    fst (dashmap_exists s' t k) = Ok live \<and>
    (\<exists>found. fst (dashmap_get_many_json s' t ks) = Ok found \<and> found k = (if live then Some v else None)) \<and>
    (\<exists>keys. fst (dashmap_list_keys s' t p) = Ok keys \<and> (k \<in> set keys \<longleftrightarrow> live))"
proof -
  let ?e = "\<lparr>entry_value = v, entry_created = dm_now s, entry_ttl = ttl\<rparr>"
  let ?s0 = "snd (dashmap_put_json s t k v ttl)"
  have start: "holds_entry (scoped_key t k) ?e ?s0" "dm_now ?s0 = dm_now s"
    by (simp_all add: holds_entry_def dashmap_put_json_def lookup_update)
  have "holds_entry (scoped_key t k) ?e s'" "dm_now s' = dm_now s + sum_list (map time_of ops)"
    using holds_entry_ops [OF start(1) assms(1)] start(2) unfolding s' by simp_all
  moreover from this(2) have "is_expired (dm_now s') ?e \<longleftrightarrow> \<not> live"
    by (auto simp: is_expired_def live split: option.splits)
  ultimately have peek: "dashmap_peek s' t k = (if live then Some v else None)"
    by (auto simp: holds_entry_def dashmap_peek_def)
  note many = dashmap.get_many_content [of s' t ks "fst (dashmap_get_many_json s' t ks)" "snd (dashmap_get_many_json s' t ks)"]
  note listed = dashmap.list_content [of s' t p "fst (dashmap_list_keys s' t p)" "snd (dashmap_list_keys s' t p)"]
  note ex = dashmap.exists_content [of s' t k "fst (dashmap_exists s' t k)" "snd (dashmap_exists s' t k)"]
  show ?thesis
    using many listed ex assms(2,3) by (auto simp: dashmap_kv_def dashmap_get_peek peek)
qed

theorem dashmap_ttl_exact_witness:
  "fst (dashmap_get_json (fold run_dm_op [DmElapse 3, DmGet ''t'' ''k'', DmCleanup, DmPut ''t'' ''l'' 8 None, DmElapse 2]
     (snd (dashmap_put_json (dashmap_new 0) ''t'' ''k'' (7::nat) (Some 5)))) ''t'' ''k'') = Ok (Some 7) \<and>
   fst (dashmap_get_json (fold run_dm_op [DmElapse 3, DmGet ''t'' ''k'', DmCleanup, DmPut ''t'' ''l'' 8 None, DmElapse 3]
     (snd (dashmap_put_json (dashmap_new 0) ''t'' ''k'' (7::nat) (Some 5)))) ''t'' ''k'') = Ok None"
  using dashmap_ttl_exact [of "''t''" "''k''" "[DmElapse 3, DmGet ''t'' ''k'', DmCleanup, DmPut ''t'' ''l'' 8 None, DmElapse 2]"
      "[''k'']" "[]" _ "dashmap_new 0" "7::nat" "Some 5", OF _ _ _ refl refl]
    dashmap_ttl_exact [of "''t''" "''k''" "[DmElapse 3, DmGet ''t'' ''k'', DmCleanup, DmPut ''t'' ''l'' 8 None, DmElapse 3]"
      "[''k'']" "[]" _ "dashmap_new 0" "7::nat" "Some 5", OF _ _ _ refl refl]
  by simp

text \<open>
  Operations of a tenant are invisible to others: for tenant names without a colon, a put or
  a delete leaves every other tenant-key pair as it was, at every later time.
\<close>

theorem dashmap_tenant_isolation:
  assumes "colon_free t" "colon_free t'" "(t', k') \<noteq> (t, k)"
  shows "fst (dashmap_get_json (dashmap_elapse d (snd (dashmap_put_json s t k v ttl))) t' k') =
         fst (dashmap_get_json (dashmap_elapse d s) t' k') \<and>
         fst (dashmap_get_json (dashmap_elapse d (snd (dashmap_delete s t k))) t' k') =
         fst (dashmap_get_json (dashmap_elapse d s) t' k')"
  using assms
  by (auto simp: dashmap_get_peek dashmap_peek_def dashmap_put_json_def dashmap_delete_def
      dashmap_remove_def lookup_update scoped_key_inject Let_def split: option.splits)

theorem dashmap_tenant_isolation_witness:
  "fst (dashmap_get_json (dashmap_elapse 1 (snd (dashmap_put_json
     (dashmap_new 0 :: nat DashMapKVStore) ''a'' ''k'' 7 None))) ''b'' ''k'') =
   fst (dashmap_get_json (dashmap_elapse 1 (dashmap_new 0 :: nat DashMapKVStore)) ''b'' ''k'')"
  using dashmap_tenant_isolation [of "''a''" "''b''" "''k''" "''k''" 1
      "dashmap_new 0 :: nat DashMapKVStore" 7 None]
  by (simp add: colon_free_def)

text \<open>
  The four ways of reading agree: \<open>exists\<close>, \<open>get_many_json\<close> and \<open>list_keys\<close> report
  exactly the keys that \<open>get_json\<close> finds, and none of them changes what a later read finds.
\<close>

theorem dashmap_reads_agree:
  "fst (dashmap_exists s t k) = Ok (fst (dashmap_get_json s t k) \<noteq> Ok None) \<and>
   fst (dashmap_get_many_json s t ks) =
     Ok (\<lambda>k. if k \<in> set ks then dashmap_peek s t k else None) \<and>
   (case fst (dashmap_list_keys s t p) of
      Err _ \<Rightarrow> False
    | Ok keys \<Rightarrow> set keys = {k. prefix p k \<and> fst (dashmap_get_json s t k) \<noteq> Ok None}) \<and>
   dashmap_peek (snd (dashmap_get_json s t k)) = dashmap_peek s \<and>
   dashmap_peek (snd (dashmap_exists s t k)) = dashmap_peek s \<and>
   dashmap_peek (snd (dashmap_get_many_json s t ks)) = dashmap_peek s"
proof (intro conjI)
  show "fst (dashmap_exists s t k) = Ok (fst (dashmap_get_json s t k) \<noteq> Ok None)"
    using dashmap.exists_content [of s t k "fst (dashmap_exists s t k)" "snd (dashmap_exists s t k)"]
    by (simp add: dashmap_kv_def dashmap_get_peek)
  show "dashmap_peek (snd (dashmap_exists s t k)) = dashmap_peek s"
    using dashmap.exists_content [of s t k "fst (dashmap_exists s t k)" "snd (dashmap_exists s t k)"]
    by (simp add: dashmap_kv_def)
  show "dashmap_peek (snd (dashmap_get_json s t k)) = dashmap_peek s"
    using dashmap.get_content [of s t k "fst (dashmap_get_json s t k)" "snd (dashmap_get_json s t k)"]
    by (simp add: dashmap_kv_def)
  note many = dashmap.get_many_content
    [of s t ks "fst (dashmap_get_many_json s t ks)" "snd (dashmap_get_many_json s t ks)"]
  show "fst (dashmap_get_many_json s t ks) =
      Ok (\<lambda>k. if k \<in> set ks then dashmap_peek s t k else None)"
    using many by (simp add: dashmap_kv_def)
  show "dashmap_peek (snd (dashmap_get_many_json s t ks)) = dashmap_peek s"
    using many by (simp add: dashmap_kv_def)
  show "case fst (dashmap_list_keys s t p) of Err _ \<Rightarrow> False
      | Ok keys \<Rightarrow> set keys = {k. prefix p k \<and> fst (dashmap_get_json s t k) \<noteq> Ok None}"
    using dashmap.list_content [of s t p "fst (dashmap_list_keys s t p)" "snd (dashmap_list_keys s t p)"]
    by (auto simp: dashmap_kv_def dashmap_get_peek)
qed

text \<open>
  The background cleanup is invisible: it removes no live entry, so every read at every
  later time returns what it would have returned without it, and no expired entry is left.
\<close>

theorem dashmap_cleanup_invisible:
  "fst (dashmap_get_json (dashmap_elapse d (cleanup_expired s)) t k) =
   fst (dashmap_get_json (dashmap_elapse d s) t k) \<and>
   list_all (\<lambda>(_, e). \<not> is_expired (dm_now s) e) (alist.impl_of (dm_data (cleanup_expired s)))"
proof
  let ?keep = "\<lambda>(_ :: string, e). \<not> is_expired (dm_now s) e"
  have now: "dm_now (cleanup_expired s) = dm_now s" by (simp add: cleanup_expired_def)
  show "fst (dashmap_get_json (dashmap_elapse d (cleanup_expired s)) t k) =
      fst (dashmap_get_json (dashmap_elapse d s) t k)"
    by (auto simp: dashmap_get_peek dashmap_peek_def lookup_cleanup now is_expired_later split: option.splits)
  show "list_all ?keep (alist.impl_of (dm_data (cleanup_expired s)))"
    by (simp add: cleanup_expired_def DAList.filter.rep_eq list_all_iff)
qed

text \<open>
  Round trip of the typed record store over this store: what \<open>store\<close> wrote is what
  \<open>load_required\<close> reads, and after \<open>delete\<close> it reports the full key as missing. The codec of the
  record type is a parameter that has to read back what it writes.
\<close>

theorem dashmap_record_roundtrip:
  assumes "serde_total sd" "serde_roundtrip sd"
  shows "fst (prs_load_required dashmap_kv sd st (snd (prs_store dashmap_kv sd st s i v)) i) = Ok v \<and>
         fst (prs_load_required dashmap_kv sd st (snd (prs_delete dashmap_kv st s i)) i) =
           Err (RecordNotFound (prs_key st i))"
  using dashmap.prefixed_load_after_store [of sd st s i v "fst (prs_store dashmap_kv sd st s i v)"
      "snd (prs_store dashmap_kv sd st s i v)"] assms
    dashmap.prefixed_load_after_delete [of st s i "fst (prs_delete dashmap_kv st s i)"
      "snd (prs_delete dashmap_kv st s i)"]
  by simp

theorem dashmap_record_roundtrip_witness:
  "fst (prs_load_required dashmap_kv serde_id (prs_new ''t'' ''plan'') (snd (prs_store dashmap_kv
     serde_id (prs_new ''t'' ''plan'') (dashmap_new 0) ''p1'' (5::nat))) ''p1'') = Ok 5"
  using dashmap_record_roundtrip [of "serde_id :: (nat, nat) serde" "prs_new ''t'' ''plan''"
      "dashmap_new 0" "''p1''" 5]
  by simp

section \<open>Limits of the store's promises\<close>

text \<open>
  The separator is not escaped, so two tenants one of which continues the other after a colon
  share entries: isolation needs colon-free names, and \<open>TenantId\<close> does not require them.
\<close>

lemma tenant_colon_collision:
  "fst (dashmap_get_json (snd (dashmap_put_json s ''a'' ''b:c'' v None)) ''a:b'' ''c'') = Ok (Some v)"
  by (simp add: dashmap_get_json_def dashmap_put_json_def scoped_key_def)

text \<open>
  \<open>get_json\<close>, \<open>exists\<close> and \<open>get_many_json\<close> release the read lock between the expiry test and the
  removal. As two atomic steps:
\<close>

datatype 'j lookup_outcome = Absent | Stale | Live 'j

definition dashmap_check :: "'j DashMapKVStore \<Rightarrow> string \<Rightarrow> 'j lookup_outcome" where
  "dashmap_check s sk =
     (case DAList.lookup (dm_data s) sk of
        None \<Rightarrow> Absent
      | Some e \<Rightarrow> if is_expired (dm_now s) e then Stale else Live (entry_value e))"

lemma get_json_two_steps:
  "dashmap_get_json s t k =
     (case dashmap_check s (scoped_key t k) of
        Absent \<Rightarrow> (Ok None, s)
      | Stale \<Rightarrow> (Ok None, dashmap_remove (scoped_key t k) s)
      | Live v \<Rightarrow> (Ok (Some v), s))"
  by (auto simp: dashmap_get_json_def dashmap_check_def Let_def split: option.splits)

text \<open>
  A put that another task completes between the two steps is lost: the removal takes the fresh
  entry, and the writer reads nothing back.
\<close>

lemma eviction_race_loses_put:
  fixes s :: "nat DashMapKVStore"
  defines "s \<equiv> dashmap_elapse 2 (snd (dashmap_put_json (dashmap_new 0) ''t'' ''k'' 1 (Some 1)))"
  shows "dashmap_check s (scoped_key ''t'' ''k'') = Stale"
    and "fst (dashmap_get_json (dashmap_remove (scoped_key ''t'' ''k'')
           (snd (dashmap_put_json s ''t'' ''k'' 2 None))) ''t'' ''k'') = Ok None"
  by (simp_all add: s_def dashmap_check_def dashmap_get_json_def dashmap_remove_def
      dashmap_put_json_def dashmap_new_def is_expired_def Let_def)

end
