(* ===== verification/Plan_Persist.thy ===== *)
theory Plan_Persist
  imports Plan DashMap_KV
begin

text \<open>
  Plan persistence, \<open>crates/agent-fw-plan/src/persist.rs\<close>: loading, storing and transitioning plans
  through a key-value store. Every definition takes the store's method table, the plan codec, the
  reading of the wall clock where one is taken, and passes the store state. An observer is a
  transformer of the observed world, so the order of its calls is visible.
\<close>

section \<open>Observers\<close>

type_synonym 'o PlanTransitionObserver =
  "'o \<Rightarrow> PlanId \<Rightarrow> TenantId \<Rightarrow> PlanStatus \<Rightarrow> PlanStatus \<Rightarrow> 'o"

definition null_plan_observer :: "'o PlanTransitionObserver" where
  "null_plan_observer obs pid tenant from_st to_st = obs"

definition composed_plan_observer ::
  "'o PlanTransitionObserver \<Rightarrow> 'o PlanTransitionObserver \<Rightarrow> 'o PlanTransitionObserver" where
  "composed_plan_observer first second obs pid tenant from_st to_st =
     second (first obs pid tenant from_st to_st) pid tenant from_st to_st"

section \<open>Plan store\<close>

definition PLAN_TTL :: duration where
  "PLAN_TTL = from_secs (7 * 24 * 3600)"

definition PLAN_PREFIX :: string where
  "PLAN_PREFIX = ''plan''"

record PlanStore =
  ps_tenant :: TenantId
  ps_prefix :: string
  ps_ttl :: duration

datatype PlanPersistError =
    PlanNotFound
  | PlanTransition TransitionError
  | PlanKv KVError

fun display_PlanPersistError :: "PlanPersistError \<Rightarrow> string" where
  "display_PlanPersistError PlanNotFound = ''Plan not found''"
| "display_PlanPersistError (PlanTransition e) = ''Invalid transition: '' @ display_TransitionError e"
| "display_PlanPersistError (PlanKv e) = ''KV error: '' @ display_KVError e"

definition persist_error_from_rejected :: "('a, 'j) Rejected \<Rightarrow> PlanPersistError" where
  "persist_error_from_rejected r = PlanTransition (rejected_error r)"

definition plan_key :: "string \<Rightarrow> PlanId \<Rightarrow> string" where
  "plan_key prefix_str pid = prefix_str @ '':'' @ plan_id_str pid"

definition plan_store_new :: "TenantId \<Rightarrow> PlanStore" where
  "plan_store_new tenant = \<lparr>ps_tenant = tenant, ps_prefix = PLAN_PREFIX, ps_ttl = PLAN_TTL\<rparr>"

definition with_prefix :: "string \<Rightarrow> PlanStore \<Rightarrow> PlanStore" where
  "with_prefix prefix_str ps = ps\<lparr>ps_prefix := prefix_str\<rparr>"

definition with_ttl :: "duration \<Rightarrow> PlanStore \<Rightarrow> PlanStore" where
  "with_ttl ttl ps = ps\<lparr>ps_ttl := ttl\<rparr>"

definition plan_store_key :: "PlanStore \<Rightarrow> PlanId \<Rightarrow> string" where
  "plan_store_key ps pid = plan_key (ps_prefix ps) pid"

section \<open>Free functions\<close>

type_synonym ('a, 'j) plan_serde = "(('a, 'j) Plan, 'j) serde"

definition persist_plan_with_prefix ::
  "('s, 'j) KVStore \<Rightarrow> ('a, 'j) plan_serde \<Rightarrow> 's \<Rightarrow> TenantId \<Rightarrow> ('a, 'j) Plan \<Rightarrow> string \<Rightarrow> duration \<Rightarrow>
   (PlanPersistError, unit) result \<times> 's" where
  "persist_plan_with_prefix kv sd s tenant p prefix_str ttl =
     (let key = plan_key prefix_str (plan_id p)
      in case kv_put kv sd s (tenant_str tenant) key p (Some ttl) of
           (Err e, s') \<Rightarrow> (Err (PlanKv e), s')
         | (Ok _, s') \<Rightarrow> (Ok (), s'))"

definition persist_plan ::
  "('s, 'j) KVStore \<Rightarrow> ('a, 'j) plan_serde \<Rightarrow> 's \<Rightarrow> TenantId \<Rightarrow> ('a, 'j) Plan \<Rightarrow> duration \<Rightarrow>
   (PlanPersistError, unit) result \<times> 's" where
  "persist_plan kv sd s tenant p ttl = persist_plan_with_prefix kv sd s tenant p PLAN_PREFIX ttl"

definition load_plan_with_prefix ::
  "('s, 'j) KVStore \<Rightarrow> ('a, 'j) plan_serde \<Rightarrow> 's \<Rightarrow> TenantId \<Rightarrow> PlanId \<Rightarrow> string \<Rightarrow>
   (PlanPersistError, ('a, 'j) Plan option) result \<times> 's" where
  "load_plan_with_prefix kv sd s tenant pid prefix_str =
     (let key = plan_key prefix_str pid
      in case kv_get kv sd s (tenant_str tenant) key of
           (Err e, s') \<Rightarrow> (Err (PlanKv e), s')
         | (Ok p, s') \<Rightarrow> (Ok p, s'))"

definition load_plan ::
  "('s, 'j) KVStore \<Rightarrow> ('a, 'j) plan_serde \<Rightarrow> 's \<Rightarrow> TenantId \<Rightarrow> PlanId \<Rightarrow>
   (PlanPersistError, ('a, 'j) Plan option) result \<times> 's" where
  "load_plan kv sd s tenant pid = load_plan_with_prefix kv sd s tenant pid PLAN_PREFIX"

definition load_required ::
  "('s, 'j) KVStore \<Rightarrow> ('a, 'j) plan_serde \<Rightarrow> 's \<Rightarrow> TenantId \<Rightarrow> PlanId \<Rightarrow> string \<Rightarrow>
   (PlanPersistError, ('a, 'j) Plan) result \<times> 's" where
  "load_required kv sd s tenant pid prefix_str =
     (case load_plan_with_prefix kv sd s tenant pid prefix_str of
        (Err e, s') \<Rightarrow> (Err e, s')
      | (Ok p, s') \<Rightarrow> (ok_or PlanNotFound p, s'))"

text \<open>
  The four transition functions differ only in the transition they apply between loading and
  persisting; an error at any of the three stages returns early.
\<close>

definition load_apply_persist ::
  "('s, 'j) KVStore \<Rightarrow> ('a, 'j) plan_serde \<Rightarrow>
   (('a, 'j) Plan \<Rightarrow> (('a, 'j) Rejected, ('a, 'j) Plan) result) \<Rightarrow>
   's \<Rightarrow> TenantId \<Rightarrow> PlanId \<Rightarrow> duration \<Rightarrow> (PlanPersistError, ('a, 'j) Plan) result \<times> 's" where
  "load_apply_persist kv sd f s tenant pid ttl =
     (case load_required kv sd s tenant pid PLAN_PREFIX of
        (Err e, s1) \<Rightarrow> (Err e, s1)
      | (Ok p, s1) \<Rightarrow>
          (case f p of
             Err rej \<Rightarrow> (Err (persist_error_from_rejected rej), s1)
           | Ok p' \<Rightarrow>
               (case persist_plan kv sd s1 tenant p' ttl of
                  (Err e, s2) \<Rightarrow> (Err e, s2)
                | (Ok _, s2) \<Rightarrow> (Ok p', s2))))"

definition approve_plan_in_kv ::
  "('s, 'j) KVStore \<Rightarrow> ('a, 'j) plan_serde \<Rightarrow> datetime \<Rightarrow> 's \<Rightarrow> TenantId \<Rightarrow> PlanId \<Rightarrow> UserId \<Rightarrow>
   duration \<Rightarrow> (PlanPersistError, ('a, 'j) Plan) result \<times> 's" where
  "approve_plan_in_kv kv sd now s tenant pid by_user ttl =
     load_apply_persist kv sd (approve now by_user) s tenant pid ttl"

definition start_plan_in_kv ::
  "('s, 'j) KVStore \<Rightarrow> ('a, 'j) plan_serde \<Rightarrow> datetime \<Rightarrow> 's \<Rightarrow> TenantId \<Rightarrow> PlanId \<Rightarrow>
   duration \<Rightarrow> (PlanPersistError, ('a, 'j) Plan) result \<times> 's" where
  "start_plan_in_kv kv sd now s tenant pid ttl = load_apply_persist kv sd (start now) s tenant pid ttl"

definition complete_plan_in_kv ::
  "('s, 'j) KVStore \<Rightarrow> ('a, 'j) plan_serde \<Rightarrow> datetime \<Rightarrow> 's \<Rightarrow> TenantId \<Rightarrow> PlanId \<Rightarrow>
   'j ExecutionResult \<Rightarrow> duration \<Rightarrow> (PlanPersistError, ('a, 'j) Plan) result \<times> 's" where
  "complete_plan_in_kv kv sd now s tenant pid res ttl =
     load_apply_persist kv sd (complete now res) s tenant pid ttl"

definition fail_plan_in_kv ::
  "('s, 'j) KVStore \<Rightarrow> ('a, 'j) plan_serde \<Rightarrow> datetime \<Rightarrow> 's \<Rightarrow> TenantId \<Rightarrow> PlanId \<Rightarrow>
   'j PlanError \<Rightarrow> duration \<Rightarrow> (PlanPersistError, ('a, 'j) Plan) result \<times> 's" where
  "fail_plan_in_kv kv sd now s tenant pid err ttl =
     load_apply_persist kv sd (fail now err) s tenant pid ttl"

text \<open>Two clock readings: one of the completion, a later one of the recovery.\<close>

definition complete_or_recover_in_kv ::
  "('s, 'j) KVStore \<Rightarrow> ('a, 'j) plan_serde \<Rightarrow> datetime \<Rightarrow> datetime \<Rightarrow> 's \<Rightarrow> TenantId \<Rightarrow> PlanId \<Rightarrow>
   'j ExecutionResult \<Rightarrow> duration \<Rightarrow> (PlanPersistError, ('a, 'j) Plan) result \<times> 's" where
  "complete_or_recover_in_kv kv sd now now' s tenant pid res ttl =
     (case complete_plan_in_kv kv sd now s tenant pid res ttl of
        (Ok p, s1) \<Rightarrow> (Ok p, s1)
      | (Err complete_err, s1) \<Rightarrow>
          fail_plan_in_kv kv sd now' s1 tenant pid
            (plan_error_new (''Completion failed: '' @ display_PlanPersistError complete_err)) ttl)"

section \<open>Methods of the plan store\<close>

definition ps_persist ::
  "('s, 'j) KVStore \<Rightarrow> ('a, 'j) plan_serde \<Rightarrow> PlanStore \<Rightarrow> 's \<Rightarrow> ('a, 'j) Plan \<Rightarrow>
   (PlanPersistError, unit) result \<times> 's" where
  "ps_persist kv sd ps s p = persist_plan_with_prefix kv sd s (ps_tenant ps) p (ps_prefix ps) (ps_ttl ps)"

definition ps_load ::
  "('s, 'j) KVStore \<Rightarrow> ('a, 'j) plan_serde \<Rightarrow> PlanStore \<Rightarrow> 's \<Rightarrow> PlanId \<Rightarrow>
   (PlanPersistError, ('a, 'j) Plan option) result \<times> 's" where
  "ps_load kv sd ps s pid = load_plan_with_prefix kv sd s (ps_tenant ps) pid (ps_prefix ps)"

definition ps_load_required ::
  "('s, 'j) KVStore \<Rightarrow> ('a, 'j) plan_serde \<Rightarrow> PlanStore \<Rightarrow> 's \<Rightarrow> PlanId \<Rightarrow>
   (PlanPersistError, ('a, 'j) Plan) result \<times> 's" where
  "ps_load_required kv sd ps s pid = load_required kv sd s (ps_tenant ps) pid (ps_prefix ps)"

definition ps_approve ::
  "('s, 'j) KVStore \<Rightarrow> ('a, 'j) plan_serde \<Rightarrow> datetime \<Rightarrow> PlanStore \<Rightarrow> 's \<Rightarrow> PlanId \<Rightarrow> UserId \<Rightarrow>
   (PlanPersistError, ('a, 'j) Plan) result \<times> 's" where
  "ps_approve kv sd now ps s pid by_user =
     approve_plan_in_kv kv sd now s (ps_tenant ps) pid by_user (ps_ttl ps)"

definition ps_start ::
  "('s, 'j) KVStore \<Rightarrow> ('a, 'j) plan_serde \<Rightarrow> datetime \<Rightarrow> PlanStore \<Rightarrow> 's \<Rightarrow> PlanId \<Rightarrow>
   (PlanPersistError, ('a, 'j) Plan) result \<times> 's" where
  "ps_start kv sd now ps s pid = start_plan_in_kv kv sd now s (ps_tenant ps) pid (ps_ttl ps)"

definition ps_complete ::
  "('s, 'j) KVStore \<Rightarrow> ('a, 'j) plan_serde \<Rightarrow> datetime \<Rightarrow> PlanStore \<Rightarrow> 's \<Rightarrow> PlanId \<Rightarrow>
   'j ExecutionResult \<Rightarrow> (PlanPersistError, ('a, 'j) Plan) result \<times> 's" where
  "ps_complete kv sd now ps s pid res =
     complete_plan_in_kv kv sd now s (ps_tenant ps) pid res (ps_ttl ps)"

definition ps_fail ::
  "('s, 'j) KVStore \<Rightarrow> ('a, 'j) plan_serde \<Rightarrow> datetime \<Rightarrow> PlanStore \<Rightarrow> 's \<Rightarrow> PlanId \<Rightarrow>
   'j PlanError \<Rightarrow> (PlanPersistError, ('a, 'j) Plan) result \<times> 's" where
  "ps_fail kv sd now ps s pid err = fail_plan_in_kv kv sd now s (ps_tenant ps) pid err (ps_ttl ps)"

definition ps_complete_or_recover ::
  "('s, 'j) KVStore \<Rightarrow> ('a, 'j) plan_serde \<Rightarrow> datetime \<Rightarrow> datetime \<Rightarrow> PlanStore \<Rightarrow> 's \<Rightarrow> PlanId \<Rightarrow>
   'j ExecutionResult \<Rightarrow> (PlanPersistError, ('a, 'j) Plan) result \<times> 's" where
  "ps_complete_or_recover kv sd now now' ps s pid res =
     complete_or_recover_in_kv kv sd now now' s (ps_tenant ps) pid res (ps_ttl ps)"

section \<open>Observed transitions\<close>

text \<open>The observer is called after a successful transition with the given pair of states.\<close>

definition notify_on_ok ::
  "'o PlanTransitionObserver \<Rightarrow> 'o \<Rightarrow> PlanId \<Rightarrow> TenantId \<Rightarrow> PlanStatus \<Rightarrow> (('a, 'j) Plan \<Rightarrow> PlanStatus) \<Rightarrow>
   (PlanPersistError, ('a, 'j) Plan) result \<times> 's \<Rightarrow>
   (PlanPersistError, ('a, 'j) Plan) result \<times> 's \<times> 'o" where
  "notify_on_ok observer obs pid tenant from_st to_st out =
     (case out of
        (Err e, s') \<Rightarrow> (Err e, s', obs)
      | (Ok p, s') \<Rightarrow> (Ok p, s', observer obs pid tenant from_st (to_st p)))"

definition approve_plan_observed ::
  "('s, 'j) KVStore \<Rightarrow> ('a, 'j) plan_serde \<Rightarrow> datetime \<Rightarrow> 's \<Rightarrow> TenantId \<Rightarrow> PlanId \<Rightarrow> UserId \<Rightarrow>
   duration \<Rightarrow> 'o PlanTransitionObserver \<Rightarrow> 'o \<Rightarrow> (PlanPersistError, ('a, 'j) Plan) result \<times> 's \<times> 'o" where
  "approve_plan_observed kv sd now s tenant pid by_user ttl observer obs =
     notify_on_ok observer obs pid tenant Draft (\<lambda>_. Approved)
       (approve_plan_in_kv kv sd now s tenant pid by_user ttl)"

definition start_plan_observed ::
  "('s, 'j) KVStore \<Rightarrow> ('a, 'j) plan_serde \<Rightarrow> datetime \<Rightarrow> 's \<Rightarrow> TenantId \<Rightarrow> PlanId \<Rightarrow>
   duration \<Rightarrow> 'o PlanTransitionObserver \<Rightarrow> 'o \<Rightarrow> (PlanPersistError, ('a, 'j) Plan) result \<times> 's \<times> 'o" where
  "start_plan_observed kv sd now s tenant pid ttl observer obs =
     notify_on_ok observer obs pid tenant Approved (\<lambda>_. Executing)
       (start_plan_in_kv kv sd now s tenant pid ttl)"

definition complete_plan_observed ::
  "('s, 'j) KVStore \<Rightarrow> ('a, 'j) plan_serde \<Rightarrow> datetime \<Rightarrow> 's \<Rightarrow> TenantId \<Rightarrow> PlanId \<Rightarrow>
   'j ExecutionResult \<Rightarrow> duration \<Rightarrow> 'o PlanTransitionObserver \<Rightarrow> 'o \<Rightarrow>
   (PlanPersistError, ('a, 'j) Plan) result \<times> 's \<times> 'o" where
  "complete_plan_observed kv sd now s tenant pid res ttl observer obs =
     notify_on_ok observer obs pid tenant Executing (\<lambda>_. Executed)
       (complete_plan_in_kv kv sd now s tenant pid res ttl)"

definition fail_plan_observed ::
  "('s, 'j) KVStore \<Rightarrow> ('a, 'j) plan_serde \<Rightarrow> datetime \<Rightarrow> 's \<Rightarrow> TenantId \<Rightarrow> PlanId \<Rightarrow>
   'j PlanError \<Rightarrow> duration \<Rightarrow> 'o PlanTransitionObserver \<Rightarrow> 'o \<Rightarrow>
   (PlanPersistError, ('a, 'j) Plan) result \<times> 's \<times> 'o" where
  "fail_plan_observed kv sd now s tenant pid err ttl observer obs =
     notify_on_ok observer obs pid tenant Executing (\<lambda>_. Failed)
       (fail_plan_in_kv kv sd now s tenant pid err ttl)"

definition complete_or_recover_observed ::
  "('s, 'j) KVStore \<Rightarrow> ('a, 'j) plan_serde \<Rightarrow> datetime \<Rightarrow> datetime \<Rightarrow> 's \<Rightarrow> TenantId \<Rightarrow> PlanId \<Rightarrow>
   'j ExecutionResult \<Rightarrow> duration \<Rightarrow> 'o PlanTransitionObserver \<Rightarrow> 'o \<Rightarrow>
   (PlanPersistError, ('a, 'j) Plan) result \<times> 's \<times> 'o" where
  "complete_or_recover_observed kv sd now now' s tenant pid res ttl observer obs =
     notify_on_ok observer obs pid tenant Executing status
       (complete_or_recover_in_kv kv sd now now' s tenant pid res ttl)"

section \<open>Laws over any lawful store\<close>

lemma plan_key_inject: "plan_key q pid = plan_key q pid' \<longleftrightarrow> pid = pid'"
  by (auto simp: plan_key_def intro: PlanId.expand)

lemma plan_key_prefix: "plan_key q pid = plan_key q' pid \<longleftrightarrow> q = q'"
  by (simp add: plan_key_def)

lemma load_apply_persist_Ok:
  assumes "load_apply_persist kv sd f s tenant pid ttl = (Ok p', s')"
  obtains p s1 where "f p = Ok p'" "load_required kv sd s tenant pid PLAN_PREFIX = (Ok p, s1)"
    "persist_plan kv sd s1 tenant p' ttl = (Ok (), s')"
proof -
  obtain r s1 where load: "load_required kv sd s tenant pid PLAN_PREFIX = (r, s1)" by fastforce
  with assms obtain p where p: "r = Ok p" by (cases r) (auto simp: load_apply_persist_def)
  with assms load obtain q where q: "f p = Ok q"
    by (cases "f p") (auto simp: load_apply_persist_def)
  obtain r2 s2 where put: "persist_plan kv sd s1 tenant q ttl = (r2, s2)" by fastforce
  with assms load p q that show ?thesis
    by (cases r2) (auto simp: load_apply_persist_def)
qed

context KV_laws
begin

lemma persist_spec:
  assumes "persist_plan_with_prefix kv sd s tenant p q ttl = (r, s')" and "serde_total sd"
  obtains j where "to_value sd p = Ok j" "r = Ok ()"
    "put_json kv s (tenant_str tenant) (plan_key q (plan_id p)) j (Some ttl) = (Ok (), s')"
    "peek s' (tenant_str tenant) (plan_key q (plan_id p)) = Some j"
proof -
  obtain j where j: "to_value sd p = Ok j" using assms(2) by (rule serde_totalE)
  obtain r1 s1 where put:
    "put_json kv s (tenant_str tenant) (plan_key q (plan_id p)) j (Some ttl) = (r1, s1)"
    by fastforce
  from put_content [OF this] assms(1) j put that [OF j] show ?thesis
    by (simp add: persist_plan_with_prefix_def kv_put_def)
qed

lemma load_spec:
  assumes "peek s (tenant_str tenant) (plan_key q pid) = Some j" "from_value sd j = Ok p"
  shows "fst (load_plan_with_prefix kv sd s tenant pid q) = Ok (Some p)"
    and "fst (load_required kv sd s tenant pid q) = Ok p"
    and "peek (snd (load_required kv sd s tenant pid q)) = peek s"
proof -
  obtain g s1 where g: "kv_get kv sd s (tenant_str tenant) (plan_key q pid) = (g, s1)" by fastforce
  from typed_get [OF this] assms have "g = Ok (Some p)" "peek s1 = peek s" by auto
  with g show "fst (load_plan_with_prefix kv sd s tenant pid q) = Ok (Some p)"
    and "fst (load_required kv sd s tenant pid q) = Ok p"
    and "peek (snd (load_required kv sd s tenant pid q)) = peek s"
    by (auto simp: load_plan_with_prefix_def load_required_def)
qed

lemma load_absent:
  assumes "peek s (tenant_str tenant) (plan_key q pid) = None"
  shows "fst (load_plan_with_prefix kv sd s tenant pid q) = Ok None"
    and "fst (load_required kv sd s tenant pid q) = Err PlanNotFound"
proof -
  obtain g s1 where g: "kv_get kv sd s (tenant_str tenant) (plan_key q pid) = (g, s1)" by fastforce
  from typed_get(2) [OF this] assms have "g = Ok None" by simp
  with g show "fst (load_plan_with_prefix kv sd s tenant pid q) = Ok None"
    and "fst (load_required kv sd s tenant pid q) = Err PlanNotFound"
    by (auto simp: load_plan_with_prefix_def load_required_def)
qed

lemma load_after_persist:
  assumes "persist_plan_with_prefix kv sd s tenant p q ttl = (r, s')"
    and "serde_total sd" "serde_roundtrip sd"
  shows "fst (load_plan_with_prefix kv sd s' tenant (plan_id p) q) = Ok (Some p)"
  using persist_spec [OF assms(1,2)] load_spec(1) serde_roundtripD [OF assms(3)] by metis

lemma load_other_after_persist:
  assumes persist: "persist_plan_with_prefix kv sd s tenant p q ttl = (r, s')" and "serde_total sd"
    and "separable (tenant_str tenant)" "separable (tenant_str tenant')"
    and "(tenant', plan_key q' pid') \<noteq> (tenant, plan_key q (plan_id p))"
  shows "fst (load_plan_with_prefix kv sd' s' tenant' pid' q') =
         fst (load_plan_with_prefix kv sd' s tenant' pid' q')"
proof -
  obtain j where put: "put_json kv s (tenant_str tenant) (plan_key q (plan_id p)) j (Some ttl) = (Ok (), s')"
    using persist_spec [OF persist assms(2)] by metis
  have neq: "(tenant_str tenant', plan_key q' pid') \<noteq> (tenant_str tenant, plan_key q (plan_id p))"
    using assms(5) by (auto intro: TenantId.expand)
  have peek: "peek s' (tenant_str tenant') (plan_key q' pid') =
      peek s (tenant_str tenant') (plan_key q' pid')"
    by (rule put_frame [OF put assms(3,4) neq])
  obtain g s1 g' s1' where g: "kv_get kv sd' s (tenant_str tenant') (plan_key q' pid') = (g, s1)"
    and g': "kv_get kv sd' s' (tenant_str tenant') (plan_key q' pid') = (g', s1')" by fastforce
  from typed_get(2) [OF g] typed_get(2) [OF g'] peek have "g = g'" by simp
  with g g' show ?thesis by (auto simp: load_plan_with_prefix_def split: sum.splits)
qed

end

section \<open>Transitions through the store\<close>

text \<open>The persisted transition that a command of the state machine stands for.\<close>

fun kv_transition ::
  "('s, 'j) KVStore \<Rightarrow> ('a, 'j) plan_serde \<Rightarrow> datetime \<Rightarrow> 'j plan_cmd \<Rightarrow> 's \<Rightarrow> TenantId \<Rightarrow> PlanId \<Rightarrow>
   duration \<Rightarrow> (PlanPersistError, ('a, 'j) Plan) result \<times> 's" where
  "kv_transition kv sd now (Approve u) s tenant pid ttl = approve_plan_in_kv kv sd now s tenant pid u ttl"
| "kv_transition kv sd now Start s tenant pid ttl = start_plan_in_kv kv sd now s tenant pid ttl"
| "kv_transition kv sd now (Complete r) s tenant pid ttl = complete_plan_in_kv kv sd now s tenant pid r ttl"
| "kv_transition kv sd now (Fail e) s tenant pid ttl = fail_plan_in_kv kv sd now s tenant pid e ttl"

lemma transition_funs:
  "transition now (Approve u) = approve now u" "transition now Start = start now"
  "transition now (Complete r) = complete now r" "transition now (Fail e) = fail now e"
  by (rule ext, simp)+

lemma kv_transition_eq:
  "kv_transition kv sd now c s tenant pid ttl =
     load_apply_persist kv sd (transition now c) s tenant pid ttl"
  by (cases c) (simp_all only: kv_transition.simps approve_plan_in_kv_def start_plan_in_kv_def
      complete_plan_in_kv_def fail_plan_in_kv_def transition_funs)

text \<open>A sequence of calls with the time that passes before each.\<close>

fun kv_run ::
  "('a, 'j) plan_serde \<Rightarrow> TenantId \<Rightarrow> PlanId \<Rightarrow> duration \<Rightarrow> (duration \<times> datetime \<times> 'j plan_cmd) list \<Rightarrow>
   'j DashMapKVStore \<Rightarrow> 'j DashMapKVStore" where
  "kv_run sd tenant pid ttl [] s = s"
| "kv_run sd tenant pid ttl ((d, now, c) # cs) s =
     kv_run sd tenant pid ttl cs
       (snd (kv_transition dashmap_kv sd now c (dashmap_elapse d s) tenant pid ttl))"

text \<open>The entry of a key stays live for at least the given time.\<close>

definition live_for :: "duration \<Rightarrow> 'j DashMapKVStore \<Rightarrow> string \<Rightarrow> string \<Rightarrow> 'j \<Rightarrow> bool" where
  "live_for b s t k j \<longleftrightarrow> (\<forall>d \<le> b. dashmap_peek (dashmap_elapse d s) t k = Some j)"

lemma live_for_now: "live_for b s t k j \<Longrightarrow> dashmap_peek s t k = Some j"
  using spec [of "\<lambda>d. d \<le> b \<longrightarrow> dashmap_peek (dashmap_elapse d s) t k = Some j" 0]
  by (simp add: live_for_def dashmap_elapse_def)

lemma live_for_elapse: "live_for b s t k j \<Longrightarrow> d \<le> b \<Longrightarrow> live_for (b - d) (dashmap_elapse d s) t k j"
  by (auto simp: live_for_def dashmap_elapse_def add.assoc)

lemma live_for_mono: "live_for b s t k j \<Longrightarrow> b' \<le> b \<Longrightarrow> live_for b' s t k j"
  by (auto simp: live_for_def)

lemma live_for_put: "live_for ttl (snd (dashmap_put_json s t k j (Some ttl))) t k j"
  by (auto simp: live_for_def dashmap_peek_def dashmap_put_json_def is_expired_def)

lemma get_live_unchanged: "dashmap_peek s t k = Some j \<Longrightarrow> dashmap_get_json s t k = (Ok (Some j), s)"
  by (auto simp: dashmap_peek_def dashmap_get_json_def Let_def split: option.splits if_splits)

lemma transition_keeps_id: "transition now c p = Ok p' \<Longrightarrow> plan_id p' = plan_id p"
  using transition_Ok plan_step_identity by blast

lemma dashmap_load_live:
  assumes "live_for b s (tenant_str tenant) (plan_key PLAN_PREFIX pid) j" "from_value sd j = Ok p"
  shows "load_required dashmap_kv sd s tenant pid PLAN_PREFIX = (Ok p, s)"
  using get_live_unchanged [OF live_for_now [OF assms(1)]] assms(2)
  by (simp add: load_required_def load_plan_with_prefix_def kv_get_def dashmap_kv_def)

lemma dashmap_transition_sim:
  assumes codec: "serde_total sd" "serde_roundtrip sd"
    and live: "live_for b s (tenant_str tenant) (plan_key PLAN_PREFIX pid) j" "from_value sd j = Ok p"
    and "plan_id p = pid" "b \<le> ttl"
  shows "\<exists>j'. live_for b (snd (kv_transition dashmap_kv sd now c s tenant pid ttl))
        (tenant_str tenant) (plan_key PLAN_PREFIX pid) j' \<and>
      from_value sd j' = Ok (held_plan (transition now c p)) \<and>
      fst (kv_transition dashmap_kv sd now c s tenant pid ttl) =
        map_err persist_error_from_rejected (transition now c p)"
proof -
  note load = dashmap_load_live [OF live]
  show ?thesis
  proof (cases rule: transition_cases [of now c p])
    case (rejected r)
    with load live show ?thesis
      by (auto simp: kv_transition_eq load_apply_persist_def)
  next
    case (accepted p')
    obtain j' where j': "to_value sd p' = Ok j'" using codec(1) by (rule serde_totalE)
    have "plan_id p' = pid" using transition_keeps_id [OF accepted(1)] assms(5) by simp
    then have "persist_plan dashmap_kv sd s tenant p' ttl =
        (Ok (), snd (dashmap_put_json s (tenant_str tenant) (plan_key PLAN_PREFIX pid) j' (Some ttl)))"
      using j' by (simp add: persist_plan_def persist_plan_with_prefix_def kv_put_def dashmap_kv_def
          dashmap_put_json_def Let_def)
    then have "kv_transition dashmap_kv sd now c s tenant pid ttl =
        (Ok p', snd (dashmap_put_json s (tenant_str tenant) (plan_key PLAN_PREFIX pid) j' (Some ttl)))"
      using load accepted(1) by (simp add: kv_transition_eq load_apply_persist_def)
    moreover have "from_value sd j' = Ok p'" using codec(2) j' by (rule serde_roundtripD)
    moreover have "live_for b
        (snd (dashmap_put_json s (tenant_str tenant) (plan_key PLAN_PREFIX pid) j' (Some ttl)))
        (tenant_str tenant) (plan_key PLAN_PREFIX pid) j'"
      by (rule live_for_mono [OF live_for_put \<open>b \<le> ttl\<close>])
    ultimately show ?thesis using accepted(1,2) by (intro exI [of _ j']) simp
  qed
qed

lemma kv_run_sim:
  assumes codec: "serde_total sd" "serde_roundtrip sd"
  shows "live_for b s (tenant_str tenant) (plan_key PLAN_PREFIX pid) j \<Longrightarrow> from_value sd j = Ok p \<Longrightarrow>
    plan_id p = pid \<Longrightarrow> sum_list (map fst cs) \<le> b \<Longrightarrow> b \<le> ttl \<Longrightarrow>
    \<exists>j'. dashmap_peek (kv_run sd tenant pid ttl cs s) (tenant_str tenant) (plan_key PLAN_PREFIX pid) =
        Some j' \<and> from_value sd j' = Ok (run_plan (map snd cs) p)"
proof (induction cs arbitrary: b j p s)
  case Nil
  then show ?case by (auto dest: live_for_now)
next
  case (Cons step cs)
  obtain d now c where step: "step = (d, now, c)" by (cases step)
  have live: "live_for (b - d) (dashmap_elapse d s) (tenant_str tenant) (plan_key PLAN_PREFIX pid) j"
    using Cons.prems step by (intro live_for_elapse) auto
  have "b - d \<le> ttl" using Cons.prems by simp
  from dashmap_transition_sim [OF codec live Cons.prems(2,3) this, of now c]
  obtain j' where j': "live_for (b - d)
      (snd (kv_transition dashmap_kv sd now c (dashmap_elapse d s) tenant pid ttl))
      (tenant_str tenant) (plan_key PLAN_PREFIX pid) j'"
    "from_value sd j' = Ok (held_plan (transition now c p))" by blast
  have "plan_id (held_plan (transition now c p)) = pid"
    by (cases rule: transition_cases [of now c p]) (use Cons.prems(3) transition_keeps_id in auto)
  with Cons.IH [OF j'] Cons.prems step show ?case by auto
qed

section \<open>Properties\<close>

text \<open>
  C10. The store refines the state machine: after a plan was persisted, any sequence of persisted
  transitions, accepted or rejected, that ends before the time to live has passed leaves in the
  store exactly the plan that the same sequence of transition methods produces in memory. The
  plan codec is a parameter that has to read back what it writes.
\<close>

theorem plan_kv_run_refines:
  assumes "serde_total sd" "serde_roundtrip sd" "sum_list (map fst cs) \<le> ttl"
  shows "fst (load_plan dashmap_kv sd (kv_run sd tenant (plan_id p) ttl cs
             (snd (persist_plan dashmap_kv sd s tenant p ttl))) tenant (plan_id p)) =
         Ok (Some (run_plan (map snd cs) p))"
proof -
  obtain j where j: "to_value sd p = Ok j" using assms(1) by (rule serde_totalE)
  let ?s = "snd (persist_plan dashmap_kv sd s tenant p ttl)"
  have "?s = snd (dashmap_put_json s (tenant_str tenant) (plan_key PLAN_PREFIX (plan_id p)) j (Some ttl))"
    using j by (simp add: persist_plan_def persist_plan_with_prefix_def kv_put_def dashmap_kv_def
        dashmap_put_json_def Let_def)
  then have "live_for ttl ?s (tenant_str tenant) (plan_key PLAN_PREFIX (plan_id p)) j"
    by (simp add: live_for_put)
  from kv_run_sim [OF assms(1,2) this serde_roundtripD [OF assms(2) j] refl assms(3) order_refl]
  show ?thesis by (auto simp: load_plan_def dest: dashmap.load_spec(1))
qed

definition plan_nat_serde :: "(nat, nat) plan_serde" where
  "plan_nat_serde = \<lparr>to_value = Ok \<circ> to_nat, from_value = Ok \<circ> from_nat\<rparr>"

lemma plan_nat_serde_ok [simp]: "serde_total plan_nat_serde" "serde_roundtrip plan_nat_serde"
  by (simp_all add: plan_nat_serde_def serde_total_def serde_roundtrip_def)

theorem plan_kv_run_refines_witness:
  "fst (load_plan dashmap_kv plan_nat_serde (kv_run plan_nat_serde (TenantId ''t'') (PlanId ''p'') 10
      [(4, 1, Approve (UserId ''u'')), (5, 2, Start)]
      (snd (persist_plan dashmap_kv plan_nat_serde (dashmap_new 0) (TenantId ''t'')
        (create_plan 0 (PlanId ''p'') (TenantId ''t'') (single_action 7)) 10)))
      (TenantId ''t'') (PlanId ''p'')) =
   Ok (Some (run_plan [(1, Approve (UserId ''u'')), (2, Start)]
     (create_plan 0 (PlanId ''p'') (TenantId ''t'') (single_action 7))))"
  using plan_kv_run_refines [of plan_nat_serde "[(4, 1, Approve (UserId ''u'')), (5, 2, Start)]" 10
      "TenantId ''t''" "create_plan 0 (PlanId ''p'') (TenantId ''t'') (single_action 7)" "dashmap_new 0"]
  by (simp add: create_plan_def)

text \<open>
  Persistence laws: a persisted plan is loaded unchanged, and for tenants without a colon in
  their name loading any other plan or for any other tenant gives what it gave before.
\<close>

theorem plan_persist_roundtrip:
  assumes "serde_total sd" "serde_roundtrip sd"
    and "colon_free (tenant_str (ps_tenant ps))" "colon_free (tenant_str (ps_tenant ps'))"
  shows "fst (ps_load dashmap_kv sd ps' (snd (ps_persist dashmap_kv sd ps s p)) pid) =
         (if ps_tenant ps' = ps_tenant ps \<and> plan_store_key ps' pid = plan_store_key ps (plan_id p)
          then Ok (Some p) else fst (ps_load dashmap_kv sd ps' s pid))"
proof -
  obtain r s' where persist: "ps_persist dashmap_kv sd ps s p = (r, s')" by fastforce
  note defs = ps_load_def ps_persist_def plan_store_key_def
  show ?thesis
  proof (cases "ps_tenant ps' = ps_tenant ps \<and> plan_store_key ps' pid = plan_store_key ps (plan_id p)")
    case True
    moreover have "fst (load_plan_with_prefix dashmap_kv sd s' (ps_tenant ps) (plan_id p) (ps_prefix ps)) =
        Ok (Some p)"
      using persist assms(1,2) unfolding defs by (rule dashmap.load_after_persist)
    ultimately show ?thesis
      using persist by (simp add: defs load_plan_with_prefix_def)
  next
    case False
    then have "(ps_tenant ps', plan_key (ps_prefix ps') pid) \<noteq>
        (ps_tenant ps, plan_key (ps_prefix ps) (plan_id p))" by (simp add: defs)
    from dashmap.load_other_after_persist [OF persist [unfolded defs] assms(1,3,4) this, of sd]
    show ?thesis using persist False by (simp only: defs if_False snd_conv)
  qed
qed

theorem plan_persist_roundtrip_witness:
  "fst (ps_load dashmap_kv plan_nat_serde (plan_store_new (TenantId ''b''))
     (snd (ps_persist dashmap_kv plan_nat_serde (plan_store_new (TenantId ''a'')) (dashmap_new 0)
       (create_plan 0 (PlanId ''p'') (TenantId ''a'') (single_action 7)))) (PlanId ''p'')) =
   fst (ps_load dashmap_kv plan_nat_serde (plan_store_new (TenantId ''b'')) (dashmap_new 0) (PlanId ''p''))"
  using plan_persist_roundtrip [of plan_nat_serde "plan_store_new (TenantId ''a'')"
      "plan_store_new (TenantId ''b'')" "dashmap_new 0"
      "create_plan 0 (PlanId ''p'') (TenantId ''a'') (single_action 7)" "PlanId ''p''"]
  by (simp add: plan_store_new_def colon_free_def)

text \<open>
  The recovery pattern, for any store and codec, lawful or not: when it returns a plan, that
  plan is terminal, either executed with the given result or failed with the reason of the failed
  completion; and it reports an error only when the completion and the recovery both failed.
\<close>

theorem complete_or_recover_terminal:
  "case complete_or_recover_in_kv kv sd now now' s tenant pid res ttl of
     (Ok p, s') \<Rightarrow>
       (status p = Executed \<and> outcome p = Some (ExecutedOutcome res) \<and>
          complete_plan_in_kv kv sd now s tenant pid res ttl = (Ok p, s')) \<or>
       (\<exists>e s1. complete_plan_in_kv kv sd now s tenant pid res ttl = (Err e, s1) \<and> status p = Failed \<and>
          outcome p = Some (FailedOutcome
            (plan_error_new (''Completion failed: '' @ display_PlanPersistError e))))
   | (Err e', s') \<Rightarrow>
       \<exists>e s1. complete_plan_in_kv kv sd now s tenant pid res ttl = (Err e, s1) \<and>
         fail_plan_in_kv kv sd now' s1 tenant pid
           (plan_error_new (''Completion failed: '' @ display_PlanPersistError e)) ttl = (Err e', s')"
proof -
  have completed: "status p = Executed \<and> outcome p = Some (ExecutedOutcome res)"
    if "complete_plan_in_kv kv sd now s tenant pid res ttl = (Ok p, s')" for p s'
    using that unfolding complete_plan_in_kv_def
    by (rule load_apply_persist_Ok) (auto simp: complete_def split: if_splits)
  have failed: "status p = Failed \<and> outcome p = Some (FailedOutcome err)"
    if "fail_plan_in_kv kv sd now' s1 tenant pid err ttl = (Ok p, s')" for p s' s1 err
    using that unfolding fail_plan_in_kv_def
    by (rule load_apply_persist_Ok) (auto simp: fail_def split: if_splits)
  show ?thesis
    by (auto simp: complete_or_recover_in_kv_def split: prod.splits sum.splits
        dest: completed failed)
qed

section \<open>Limits\<close>

text \<open>
  The transition methods of \<open>PlanStore\<close> use the default prefix whatever \<open>with_prefix\<close> set, so a
  store with another prefix never finds the plan it just persisted.
\<close>

lemma with_prefix_transition_not_found:
  fixes p :: "(nat, nat) Plan"
  assumes "q \<noteq> PLAN_PREFIX" and "ps = with_prefix q (plan_store_new tenant)"
    and "s = snd (ps_persist dashmap_kv plan_nat_serde ps (dashmap_new 0) p)"
  shows "fst (ps_load dashmap_kv plan_nat_serde ps s (plan_id p)) = Ok (Some p)"
    and "fst (ps_approve dashmap_kv plan_nat_serde now ps s (plan_id p) u) = Err PlanNotFound"
proof -
  let ?t = "tenant_str tenant"
  let ?k = "plan_key q (plan_id p)"
  have s: "s = snd (dashmap_put_json (dashmap_new 0) ?t ?k (to_nat p) (Some PLAN_TTL))"
    by (simp add: assms ps_persist_def with_prefix_def plan_store_new_def kv_put_def dashmap_kv_def
        persist_plan_with_prefix_def plan_nat_serde_def dashmap_put_json_def Let_def)
  have "dashmap_peek s ?t ?k = Some (to_nat p)"
    by (rule live_for_now [of PLAN_TTL]) (simp only: s live_for_put)
  then show "fst (ps_load dashmap_kv plan_nat_serde ps s (plan_id p)) = Ok (Some p)"
    using dashmap.load_spec(1) [of s tenant q "plan_id p" "to_nat p" plan_nat_serde p]
    by (simp add: ps_load_def assms(2) with_prefix_def plan_store_new_def plan_nat_serde_def)
  have "plan_key PLAN_PREFIX (plan_id p) \<noteq> ?k" using assms(1) plan_key_prefix by metis
  then have "dashmap_peek s ?t (plan_key PLAN_PREFIX (plan_id p)) = None"
    by (simp add: s dashmap_peek_def dashmap_put_json_def dashmap_new_def Let_def lookup_update)
  from dashmap.load_absent(2) [OF this, of plan_nat_serde]
  show "fst (ps_approve dashmap_kv plan_nat_serde now ps s (plan_id p) u) = Err PlanNotFound"
    by (auto simp: ps_approve_def approve_plan_in_kv_def load_apply_persist_def assms(2)
        with_prefix_def plan_store_new_def split: prod.splits)
qed

end
