(* ===== verification/Approval_Store.thy ===== *)
theory Approval_Store
  imports Ids "HOL-Library.Finite_Map"
begin

text \<open>
  Pre-dispatch approval: the data types of \<open>crates/agent-fw-core/src/approval.rs\<close> and the
  \<open>PendingApprovalStore\<close> algebra with its in-memory implementation,
  \<open>crates/agent-fw-algebra/src/approval.rs\<close>.

  The one-shot channels belong to the tokio crate. A channel is a number, and the state records
  what was sent into each channel; a receiver sees the value once it is sent, an error when the
  sender was dropped without sending, and is pending otherwise. The store's mutex makes each
  method one atomic step.
\<close>

section \<open>Data\<close>

datatype ApprovalKind = ToolKind | PlanKind

fun display_ApprovalKind :: "ApprovalKind \<Rightarrow> string" where
  "display_ApprovalKind ToolKind = ''tool''"
| "display_ApprovalKind PlanKind = ''plan''"

record 'j ApprovalRequest =
  req_id :: ApprovalId
  req_kind :: ApprovalKind
  req_target :: string
  req_payload :: 'j
  req_glimpse :: "'j option"
  req_resource_id :: TenantId
  req_thread_id :: ThreadId
  req_correlation_id :: "string option"

datatype 'j ApprovalOutcome = OutcomeApprove | OutcomeReject | OutcomeRevise 'j

fun is_approve :: "'j ApprovalOutcome \<Rightarrow> bool" where
  "is_approve OutcomeApprove = True"
| "is_approve _ = False"

record 'j ApprovalDecision =
  dec_id :: ApprovalId
  dec_outcome :: "'j ApprovalOutcome"
  dec_feedback :: "string option"

definition decision_approve :: "ApprovalId \<Rightarrow> 'j ApprovalDecision" where
  "decision_approve i = \<lparr>dec_id = i, dec_outcome = OutcomeApprove, dec_feedback = None\<rparr>"

definition decision_reject :: "ApprovalId \<Rightarrow> string \<Rightarrow> 'j ApprovalDecision" where
  "decision_reject i feedback = \<lparr>dec_id = i, dec_outcome = OutcomeReject, dec_feedback = Some feedback\<rparr>"

definition decision_revise :: "ApprovalId \<Rightarrow> 'j \<Rightarrow> 'j ApprovalDecision" where
  "decision_revise i partial = \<lparr>dec_id = i, dec_outcome = OutcomeRevise partial, dec_feedback = None\<rparr>"

record PlanStatusChange =
  psc_plan_id :: string
  psc_from :: string
  psc_to :: string

datatype ExpireReason = Cancelled | Timeout | Restart | HostShutdown

datatype ApprovalError =
    ApprovalNotFound ApprovalId
  | AlreadyRegistered ApprovalId
  | AlreadyResolved ApprovalId
  | Expired ApprovalId ExpireReason
  | SenderDropped
  | ApprovalStorage string

type_synonym chan = nat
type_synonym 'j settlement = "(ApprovalError, 'j ApprovalDecision) result"

section \<open>The in-memory store\<close>

record 'j PendingEntry =
  entry_body :: "'j ApprovalRequest"
  entry_sender :: chan

text \<open>The last two fields are the channels of the async runtime.\<close>

record 'j InMemoryStore =
  ap_pending :: "(ApprovalId, 'j PendingEntry) fmap"
  ap_resolved :: "ApprovalId fset"
  chan_next :: chan
  chan_sent :: "(chan, 'j settlement) fmap"

definition in_memory_new :: "'j InMemoryStore" where
  "in_memory_new = \<lparr>ap_pending = fmempty, ap_resolved = {||}, chan_next = 0, chan_sent = fmempty\<rparr>"

definition pending_count :: "'j InMemoryStore \<Rightarrow> nat" where
  "pending_count st = fcard (fmdom (ap_pending st))"

definition im_register ::
  "'j InMemoryStore \<Rightarrow> 'j ApprovalRequest \<Rightarrow> (ApprovalError, chan) result \<times> 'j InMemoryStore" where
  "im_register st req =
     (if req_id req |\<in>| fmdom (ap_pending st) \<or> req_id req |\<in>| ap_resolved st
      then (Err (AlreadyRegistered (req_id req)), st)
      else let ch = chan_next st
           in (Ok ch, st\<lparr>ap_pending := fmupd (req_id req) \<lparr>entry_body = req, entry_sender = ch\<rparr> (ap_pending st),
                         chan_next := Suc ch\<rparr>))"

text \<open>Both ways to settle an id: remove the entry, record the id, wake the awaiter.\<close>

definition im_settle ::
  "'j InMemoryStore \<Rightarrow> ApprovalId \<Rightarrow> 'j settlement \<Rightarrow> (ApprovalError, unit) result \<times> 'j InMemoryStore" where
  "im_settle st i payload =
     (if i |\<in>| ap_resolved st then (Err (AlreadyResolved i), st)
      else case fmlookup (ap_pending st) i of
             None \<Rightarrow> (Err (ApprovalNotFound i), st)
           | Some entry \<Rightarrow>
               (Ok (), st\<lparr>ap_pending := fmdrop i (ap_pending st),
                          ap_resolved := finsert i (ap_resolved st),
                          chan_sent := fmupd (entry_sender entry) payload (chan_sent st)\<rparr>))"

definition im_resolve ::
  "'j InMemoryStore \<Rightarrow> 'j ApprovalDecision \<Rightarrow> (ApprovalError, unit) result \<times> 'j InMemoryStore" where
  "im_resolve st d = im_settle st (dec_id d) (Ok d)"

definition im_expire ::
  "'j InMemoryStore \<Rightarrow> ApprovalId \<Rightarrow> ExpireReason \<Rightarrow> (ApprovalError, unit) result \<times> 'j InMemoryStore" where
  "im_expire st i reason = im_settle st i (Err (Expired i reason))"

definition im_get :: "'j InMemoryStore \<Rightarrow> ApprovalId \<Rightarrow> (ApprovalError, 'j ApprovalRequest option) result" where
  "im_get st i = Ok (map_option entry_body (fmlookup (ap_pending st) i))"

text \<open>Dropping the store drops every sender it holds.\<close>

definition im_drop :: "'j InMemoryStore \<Rightarrow> 'j InMemoryStore" where
  "im_drop st = st\<lparr>ap_pending := fmempty, ap_resolved := {||}\<rparr>"

text \<open>\<open>ApprovalAwait::poll\<close> of the receiver of a channel.\<close>

datatype 'a poll = Ready 'a | Pending

definition sender_alive :: "'j InMemoryStore \<Rightarrow> chan \<Rightarrow> bool" where
  "sender_alive st ch = fBex (fmran (ap_pending st)) (\<lambda>e. entry_sender e = ch)"

definition await_poll :: "'j InMemoryStore \<Rightarrow> chan \<Rightarrow> 'j settlement poll" where
  "await_poll st ch =
     (case fmlookup (chan_sent st) ch of
        Some inner \<Rightarrow> Ready inner
      | None \<Rightarrow> if sender_alive st ch then Pending else Ready (Err SenderDropped))"

section \<open>The algebra's contract\<close>

text \<open>What a store knows of an id: nothing, a waiting request with its channel, or a settled one.\<close>

datatype 'j phase = Unknown | Waiting "'j ApprovalRequest" chan | Settled

datatype 'j approval_op =
    RegisterOp "'j ApprovalRequest"
  | ResolveOp "'j ApprovalDecision"
  | ExpireOp ApprovalId ExpireReason

text \<open>The id an operation settles and what it sends.\<close>

fun settles :: "ApprovalId \<Rightarrow> 'j approval_op \<Rightarrow> 'j settlement option" where
  "settles i (RegisterOp req) = None"
| "settles i (ResolveOp d) = (if dec_id d = i then Some (Ok d) else None)"
| "settles i (ExpireOp k reason) = (if k = i then Some (Err (Expired i reason)) else None)"

fun first_settlement :: "ApprovalId \<Rightarrow> 'j approval_op list \<Rightarrow> 'j settlement option" where
  "first_settlement i [] = None"
| "first_settlement i (op # ops) =
     (case settles i op of Some x \<Rightarrow> Some x | None \<Rightarrow> first_settlement i ops)"

text \<open>A sequence of calls on a store given by its three state-changing methods.\<close>

fun run_approval_op ::
  "('s \<Rightarrow> 'j ApprovalRequest \<Rightarrow> (ApprovalError, chan) result \<times> 's) \<Rightarrow>
   ('s \<Rightarrow> 'j ApprovalDecision \<Rightarrow> (ApprovalError, unit) result \<times> 's) \<Rightarrow>
   ('s \<Rightarrow> ApprovalId \<Rightarrow> ExpireReason \<Rightarrow> (ApprovalError, unit) result \<times> 's) \<Rightarrow>
   'j approval_op \<Rightarrow> 's \<Rightarrow> 's" where
  "run_approval_op reg resol expi (RegisterOp req) s = snd (reg s req)"
| "run_approval_op reg resol expi (ResolveOp d) s = snd (resol s d)"
| "run_approval_op reg resol expi (ExpireOp i reason) s = snd (expi s i reason)"

text \<open>
  A store is given by its operations, the polling of a channel, the phase of each id and an
  invariant. The laws are L1 to L3 of the trait documentation plus what each step leaves alone.
\<close>

locale Approval_laws =
  fixes reg :: "'s \<Rightarrow> 'j ApprovalRequest \<Rightarrow> (ApprovalError, chan) result \<times> 's"
    and resol :: "'s \<Rightarrow> 'j ApprovalDecision \<Rightarrow> (ApprovalError, unit) result \<times> 's"
    and expi :: "'s \<Rightarrow> ApprovalId \<Rightarrow> ExpireReason \<Rightarrow> (ApprovalError, unit) result \<times> 's"
    and pol :: "'s \<Rightarrow> chan \<Rightarrow> 'j settlement poll"
    and phase_of :: "'s \<Rightarrow> ApprovalId \<Rightarrow> 'j phase"
    and inv :: "'s \<Rightarrow> bool"
  assumes reg_fresh: "inv s \<Longrightarrow> phase_of s (req_id req) = Unknown \<Longrightarrow> \<exists>ch s'.
      reg s req = (Ok ch, s') \<and> inv s' \<and> phase_of s' = (phase_of s)(req_id req := Waiting req ch) \<and>
      (\<forall>c. pol s c \<noteq> Ready (Err SenderDropped) \<longrightarrow> pol s' c = pol s c)"
    and reg_known: "inv s \<Longrightarrow> phase_of s (req_id req) \<noteq> Unknown \<Longrightarrow>
      reg s req = (Err (AlreadyRegistered (req_id req)), s)"
    and resolve_waiting: "inv s \<Longrightarrow> phase_of s (dec_id d) = Waiting req ch \<Longrightarrow> \<exists>s'.
      resol s d = (Ok (), s') \<and> inv s' \<and> pol s' = (pol s)(ch := Ready (Ok d)) \<and>
      phase_of s' = (phase_of s)(dec_id d := Settled)"
    and resolve_unknown: "inv s \<Longrightarrow> phase_of s (dec_id d) = Unknown \<Longrightarrow>
      resol s d = (Err (ApprovalNotFound (dec_id d)), s)"
    and resolve_settled: "inv s \<Longrightarrow> phase_of s (dec_id d) = Settled \<Longrightarrow>
      resol s d = (Err (AlreadyResolved (dec_id d)), s)"
    and expire_waiting: "inv s \<Longrightarrow> phase_of s i = Waiting req ch \<Longrightarrow> \<exists>s'.
      expi s i reason = (Ok (), s') \<and> inv s' \<and> pol s' = (pol s)(ch := Ready (Err (Expired i reason))) \<and>
      phase_of s' = (phase_of s)(i := Settled)"
    and expire_unknown: "inv s \<Longrightarrow> phase_of s i = Unknown \<Longrightarrow>
      expi s i reason = (Err (ApprovalNotFound i), s)"
    and expire_settled: "inv s \<Longrightarrow> phase_of s i = Settled \<Longrightarrow>
      expi s i reason = (Err (AlreadyResolved i), s)"
    and waiting_pending: "inv s \<Longrightarrow> phase_of s i = Waiting req ch \<Longrightarrow> pol s ch = Pending"
begin

abbreviation run_op :: "'j approval_op \<Rightarrow> 's \<Rightarrow> 's" where
  "run_op \<equiv> run_approval_op reg resol expi"

text \<open>Every operation is a fresh registration, a settlement of a waiting id, or has no effect.\<close>

lemma run_op_cases:
  assumes "inv s"
  obtains (fresh) req ch where "op = RegisterOp req" "phase_of s (req_id req) = Unknown"
      "phase_of (run_op op s) = (phase_of s)(req_id req := Waiting req ch)"
      "\<And>c. pol s c \<noteq> Ready (Err SenderDropped) \<Longrightarrow> pol (run_op op s) c = pol s c" "inv (run_op op s)"
    | (settle) i req ch x where "settles i op = Some x" "phase_of s i = Waiting req ch"
      "x \<noteq> Err SenderDropped" "\<And>k. k \<noteq> i \<Longrightarrow> settles k op = None"
      "phase_of (run_op op s) = (phase_of s)(i := Settled)"
      "pol (run_op op s) = (pol s)(ch := Ready x)" "inv (run_op op s)"
    | (none) "run_op op s = s" "\<And>i req ch. phase_of s i = Waiting req ch \<Longrightarrow> settles i op = None"
proof (cases op)
  case (RegisterOp req)
  show ?thesis
  proof (cases "phase_of s (req_id req) = Unknown")
    case True
    from reg_fresh [OF assms True] RegisterOp fresh [OF RegisterOp True] show ?thesis by auto
  next
    case False
    from reg_known [OF assms False] RegisterOp none show ?thesis by auto
  qed
next
  case (ResolveOp d)
  show ?thesis
  proof (cases "phase_of s (dec_id d)")
    case Unknown
    show ?thesis
      by (rule none) (use ResolveOp Unknown resolve_unknown [OF assms Unknown] in \<open>auto split: if_splits\<close>)
  next
    case (Waiting req ch)
    from resolve_waiting [OF assms Waiting] obtain s' where s': "resol s d = (Ok (), s')" "inv s'"
      "pol s' = (pol s)(ch := Ready (Ok d))" "phase_of s' = (phase_of s)(dec_id d := Settled)" by blast
    show ?thesis by (rule settle [of "dec_id d" "Ok d"]) (use ResolveOp Waiting s' in auto)
  next
    case Settled
    show ?thesis
      by (rule none) (use ResolveOp Settled resolve_settled [OF assms Settled] in \<open>auto split: if_splits\<close>)
  qed
next
  case (ExpireOp i reason)
  show ?thesis
  proof (cases "phase_of s i")
    case Unknown
    show ?thesis
      by (rule none) (use ExpireOp Unknown expire_unknown [OF assms Unknown] in \<open>auto split: if_splits\<close>)
  next
    case (Waiting req ch)
    from expire_waiting [OF assms Waiting, of reason] obtain s' where s': "expi s i reason = (Ok (), s')"
      "inv s'" "pol s' = (pol s)(ch := Ready (Err (Expired i reason)))"
      "phase_of s' = (phase_of s)(i := Settled)" by blast
    show ?thesis by (rule settle [of i "Err (Expired i reason)"]) (use ExpireOp Waiting s' in auto)
  next
    case Settled
    show ?thesis
      by (rule none) (use ExpireOp Settled expire_settled [OF assms Settled] in \<open>auto split: if_splits\<close>)
  qed
qed

lemma run_op_inv: "inv s \<Longrightarrow> inv (run_op op s)"
  by (rule run_op_cases [of s op]) auto

lemma run_ops_inv: "inv s \<Longrightarrow> inv (fold run_op ops s)"
  by (induction ops arbitrary: s) (auto simp: run_op_inv)

lemma settled_stays:
  "inv s \<Longrightarrow> phase_of s i = Settled \<Longrightarrow> phase_of (fold run_op ops s) i = Settled"
proof (induction ops arbitrary: s)
  case (Cons op ops)
  have "phase_of (run_op op s) i = Settled"
    using Cons.prems by (auto elim!: run_op_cases [of s op])
  with Cons run_op_inv show ?case by simp
qed simp

lemma delivered_stays:
  "inv s \<Longrightarrow> pol s ch = Ready x \<Longrightarrow> x \<noteq> Err SenderDropped \<Longrightarrow> pol (fold run_op ops s) ch = Ready x"
proof (induction ops arbitrary: s)
  case (Cons op ops)
  from Cons.prems(1) have "pol (run_op op s) ch = Ready x"
  proof (cases rule: run_op_cases [of s op])
    case (settle i req c y)
    then have "pol s c = Pending" using Cons.prems(1) waiting_pending by blast
    with settle Cons.prems show ?thesis by auto
  qed (use Cons.prems in auto)
  with Cons run_op_inv show ?case by simp
qed simp

text \<open>A waiting request stays the same until it is settled, so an awaiter that is woken finds its id settled.\<close>

lemma waiting_or_settled:
  "inv s \<Longrightarrow> phase_of s i = Waiting req ch \<Longrightarrow> phase_of (fold run_op ops s) i \<in> {Waiting req ch, Settled}"
proof (induction ops arbitrary: s)
  case (Cons op ops)
  from Cons.prems(1) have "phase_of (run_op op s) i \<in> {Waiting req ch, Settled}"
    by (cases rule: run_op_cases [of s op]) (use Cons.prems in \<open>auto split: if_splits\<close>)
  then show ?case using Cons settled_stays [of "run_op op s" i ops] run_op_inv [of s op] by auto
qed simp

lemma woken_is_settled:
  assumes "inv s" "phase_of s i = Waiting req ch" "pol (fold run_op ops s) ch = Ready x"
  shows "phase_of (fold run_op ops s) i = Settled"
  using waiting_or_settled [OF assms(1,2), of ops] waiting_pending [OF run_ops_inv [OF assms(1)], of ops i req ch] assms(3) by auto

text \<open>The awaiter of a waiting request sees the first settlement of its id, and only that.\<close>

lemma first_settlement_wins:
  "inv s \<Longrightarrow> phase_of s i = Waiting req ch \<Longrightarrow>
   pol (fold run_op ops s) ch =
     (case first_settlement i ops of None \<Rightarrow> Pending | Some x \<Rightarrow> Ready x)"
proof (induction ops arbitrary: s)
  case Nil
  then show ?case by (simp add: waiting_pending)
next
  case (Cons op ops)
  from Cons.prems(1) show ?case
  proof (cases rule: run_op_cases [of s op])
    case (fresh req' ch')
    with Cons.prems have "phase_of (run_op op s) i = Waiting req ch" "settles i op = None" by auto
    with Cons.IH [OF fresh(5)] show ?thesis by simp
  next
    case (settle k req' ch' x)
    show ?thesis
    proof (cases "k = i")
      case True
      with settle Cons.prems delivered_stays [OF settle(7), of ch x ops] show ?thesis by simp
    next
      case False
      with settle Cons.prems have "phase_of (run_op op s) i = Waiting req ch" "settles i op = None"
        by auto
      with Cons.IH [OF settle(7)] show ?thesis by simp
    qed
  next
    case none
    with Cons show ?thesis by simp
  qed
qed

text \<open>After the first settlement every further call on the id is refused.\<close>

lemma settled_after:
  "inv s \<Longrightarrow> phase_of s i = Waiting req ch \<Longrightarrow> first_settlement i ops \<noteq> None \<Longrightarrow>
   phase_of (fold run_op ops s) i = Settled"
proof (induction ops arbitrary: s)
  case (Cons op ops)
  from Cons.prems(1) show ?case
  proof (cases rule: run_op_cases [of s op])
    case (fresh req' ch')
    with Cons.prems have "phase_of (run_op op s) i = Waiting req ch" "settles i op = None" by auto
    with Cons fresh(5) show ?thesis by simp
  next
    case (settle k req' ch' x)
    show ?thesis
    proof (cases "k = i")
      case True
      with settle settled_stays [OF settle(7), of i ops] show ?thesis by simp
    next
      case False
      with settle Cons.prems have "phase_of (run_op op s) i = Waiting req ch" "settles i op = None"
        by auto
      with Cons settle(7) show ?thesis by simp
    qed
  next
    case none
    with Cons.prems have "settles i op = None" by blast
    with none Cons show ?thesis by simp
  qed
qed simp

end

section \<open>The in-memory store meets the contract\<close>

definition im_phase :: "'j InMemoryStore \<Rightarrow> ApprovalId \<Rightarrow> 'j phase" where
  "im_phase st i =
     (if i |\<in>| ap_resolved st then Settled
      else case fmlookup (ap_pending st) i of
             None \<Rightarrow> Unknown
           | Some e \<Rightarrow> Waiting (entry_body e) (entry_sender e))"

text \<open>
  The store's invariant: no id is both pending and resolved, every pending entry holds its own
  unused channel.
\<close>

definition im_inv :: "'j InMemoryStore \<Rightarrow> bool" where
  "im_inv st \<longleftrightarrow>
     fmdom (ap_pending st) |\<inter>| ap_resolved st = {||} \<and>
     (\<forall>i e. fmlookup (ap_pending st) i = Some e \<longrightarrow>
        entry_sender e < chan_next st \<and> fmlookup (chan_sent st) (entry_sender e) = None \<and>
        (\<forall>k e'. fmlookup (ap_pending st) k = Some e' \<longrightarrow> entry_sender e' = entry_sender e \<longrightarrow> k = i)) \<and>
     (\<forall>ch. fmlookup (chan_sent st) ch \<noteq> None \<longrightarrow> ch < chan_next st)"

lemma im_inv_new [simp, inv_intros]: "im_inv in_memory_new"
  by (simp add: im_inv_def in_memory_new_def)

lemma sender_alive_iff: "sender_alive st ch \<longleftrightarrow> (\<exists>i e. fmlookup (ap_pending st) i = Some e \<and> entry_sender e = ch)"
  unfolding sender_alive_def by (metis fmlookup_ran_iff)

lemma im_invD:
  assumes "im_inv st" "fmlookup (ap_pending st) i = Some e"
  shows "i |\<notin>| ap_resolved st" "entry_sender e < chan_next st"
    "fmlookup (chan_sent st) (entry_sender e) = None"
    "fmlookup (ap_pending st) k = Some e' \<Longrightarrow> entry_sender e' = entry_sender e \<Longrightarrow> k = i"
  using assms by (auto simp: im_inv_def dest: fmdomI)

lemma im_invI:
  assumes "\<And>i e. fmlookup (ap_pending st) i = Some e \<Longrightarrow> i |\<notin>| ap_resolved st \<and>
      entry_sender e < chan_next st \<and> fmlookup (chan_sent st) (entry_sender e) = None"
    and "\<And>i k e e'. fmlookup (ap_pending st) i = Some e \<Longrightarrow> fmlookup (ap_pending st) k = Some e' \<Longrightarrow>
      entry_sender e' = entry_sender e \<Longrightarrow> k = i"
    and "\<And>ch x. fmlookup (chan_sent st) ch = Some x \<Longrightarrow> ch < chan_next st"
  shows "im_inv st"
  unfolding im_inv_def using assms by (auto simp: fmlookup_dom_iff)

lemma im_inv_sent: "im_inv st \<Longrightarrow> fmlookup (chan_sent st) ch = Some x \<Longrightarrow> ch < chan_next st"
  by (auto simp: im_inv_def)

lemma im_phase_Waiting:
  assumes "im_inv st"
  shows "im_phase st i = Waiting req ch \<longleftrightarrow>
     fmlookup (ap_pending st) i = Some \<lparr>entry_body = req, entry_sender = ch\<rparr>"
  using im_invD(1) [OF assms, of i]
  by (cases "fmlookup (ap_pending st) i") (auto simp: im_phase_def)

lemma im_register_fresh:
  assumes inv: "im_inv st" and unknown: "im_phase st (req_id req) = Unknown"
  shows "\<exists>ch st'. im_register st req = (Ok ch, st') \<and> im_inv st' \<and>
      im_phase st' = (im_phase st)(req_id req := Waiting req ch) \<and>
      (\<forall>c. await_poll st c \<noteq> Ready (Err SenderDropped) \<longrightarrow> await_poll st' c = await_poll st c)"
proof -
  let ?st' = "st\<lparr>ap_pending := fmupd (req_id req) \<lparr>entry_body = req, entry_sender = chan_next st\<rparr>
    (ap_pending st), chan_next := Suc (chan_next st)\<rparr>"
  from unknown have fresh: "req_id req |\<notin>| fmdom (ap_pending st)" "req_id req |\<notin>| ap_resolved st"
    by (auto simp: im_phase_def split: if_splits option.splits)
  then have "im_register st req = (Ok (chan_next st), ?st')"
    by (simp add: im_register_def Let_def)
  moreover have "im_inv ?st'"
  proof (rule im_invI)
    fix i k e e' c x
    have old: "entry_sender e < chan_next st" if "fmlookup (ap_pending st) i = Some e" for i e
      using im_invD(2) [OF inv that] .
    show "i |\<notin>| ap_resolved ?st' \<and> entry_sender e < chan_next ?st' \<and>
        fmlookup (chan_sent ?st') (entry_sender e) = None"
      if "fmlookup (ap_pending ?st') i = Some e"
      using that fresh im_invD(1-3) [OF inv, of i e] im_inv_sent [OF inv, of "chan_next st"]
      by (cases "fmlookup (chan_sent st) (chan_next st)") (auto split: if_splits)
    show "k = i" if "fmlookup (ap_pending ?st') i = Some e" "fmlookup (ap_pending ?st') k = Some e'"
        "entry_sender e' = entry_sender e"
      using that old [of i e] old [of k e'] im_invD(4) [OF inv, of i e k e'] by (auto split: if_splits)
    show "c < chan_next ?st'" if "fmlookup (chan_sent ?st') c = Some x"
      using im_inv_sent [OF inv, of c x] that by simp
  qed
  moreover have "im_phase ?st' = (im_phase st)(req_id req := Waiting req (chan_next st))"
    using fresh by (intro ext) (simp add: im_phase_def)
  moreover have "await_poll ?st' c = await_poll st c"
    if "await_poll st c \<noteq> Ready (Err SenderDropped)" for c
  proof -
    have "sender_alive st c \<Longrightarrow> sender_alive ?st' c"
    proof -
      assume "sender_alive st c"
      then obtain i e where e: "fmlookup (ap_pending st) i = Some e" "entry_sender e = c"
        by (auto simp: sender_alive_iff)
      with fresh(1) have "req_id req \<noteq> i" by (auto dest: fmdomI)
      with e have "fmlookup (ap_pending ?st') i = Some e" by simp
      with e(2) show ?thesis unfolding sender_alive_iff by blast
    qed
    with that show ?thesis by (auto simp: await_poll_def split: option.splits if_splits)
  qed
  ultimately show ?thesis by blast
qed

lemma im_settle_waiting:
  assumes inv: "im_inv st" and waiting: "im_phase st i = Waiting req ch"
  shows "\<exists>st'. im_settle st i x = (Ok (), st') \<and> im_inv st' \<and>
      await_poll st' = (await_poll st)(ch := Ready x) \<and> im_phase st' = (im_phase st)(i := Settled)"
proof -
  let ?e = "\<lparr>entry_body = req, entry_sender = ch\<rparr>"
  let ?st' = "st\<lparr>ap_pending := fmdrop i (ap_pending st), ap_resolved := finsert i (ap_resolved st),
    chan_sent := fmupd ch x (chan_sent st)\<rparr>"
  have entry: "fmlookup (ap_pending st) i = Some ?e" and open_id: "i |\<notin>| ap_resolved st"
    using waiting im_phase_Waiting [OF inv, of i req ch] im_invD(1) [OF inv, of i] by auto
  then have "im_settle st i x = (Ok (), ?st')" by (simp add: im_settle_def)
  moreover have "im_inv ?st'"
  proof (rule im_invI)
    fix j k e e' c y
    show "j |\<notin>| ap_resolved ?st' \<and> entry_sender e < chan_next ?st' \<and>
        fmlookup (chan_sent ?st') (entry_sender e) = None"
      if "fmlookup (ap_pending ?st') j = Some e"
      using that im_invD(1-3) [OF inv, of j e] im_invD(4) [OF inv entry, of j e] by (auto split: if_splits)
    show "k = j" if "fmlookup (ap_pending ?st') j = Some e" "fmlookup (ap_pending ?st') k = Some e'"
        "entry_sender e' = entry_sender e"
      using that im_invD(4) [OF inv, of j e k e'] by (auto split: if_splits)
    show "c < chan_next ?st'" if "fmlookup (chan_sent ?st') c = Some y"
      using that im_inv_sent [OF inv, of c y] im_invD(2) [OF inv entry] by (auto split: if_splits)
  qed
  moreover have "im_phase ?st' = (im_phase st)(i := Settled)"
    by (intro ext) (simp add: im_phase_def)
  moreover have "await_poll ?st' c = ((await_poll st)(ch := Ready x)) c" for c
  proof (cases "c = ch")
    case False
    have "fmlookup (ap_pending ?st') j = Some e \<and> entry_sender e = c \<longleftrightarrow>
        fmlookup (ap_pending st) j = Some e \<and> entry_sender e = c" for j e
      using False entry by auto
    then have "sender_alive ?st' c \<longleftrightarrow> sender_alive st c" unfolding sender_alive_iff by blast
    with False show ?thesis by (simp add: await_poll_def)
  qed (simp add: await_poll_def)
  ultimately show ?thesis by blast
qed

interpretation in_memory: Approval_laws im_register im_resolve im_expire await_poll im_phase im_inv
proof
  fix s :: "'a InMemoryStore" and req ch d i reason
  assume inv: "im_inv s"
  show "\<exists>ch s'. im_register s req = (Ok ch, s') \<and> im_inv s' \<and>
      im_phase s' = (im_phase s)(req_id req := Waiting req ch) \<and>
      (\<forall>c. await_poll s c \<noteq> Ready (Err SenderDropped) \<longrightarrow> await_poll s' c = await_poll s c)"
    if "im_phase s (req_id req) = Unknown"
    by (rule im_register_fresh [OF inv that])
  show "im_register s req = (Err (AlreadyRegistered (req_id req)), s)"
    if "im_phase s (req_id req) \<noteq> Unknown"
    using that by (auto simp: im_phase_def im_register_def split: if_splits option.splits dest: fmdomI)
  show "\<exists>s'. im_resolve s d = (Ok (), s') \<and> im_inv s' \<and> await_poll s' = (await_poll s)(ch := Ready (Ok d)) \<and>
      im_phase s' = (im_phase s)(dec_id d := Settled)"
    if "im_phase s (dec_id d) = Waiting req ch"
    unfolding im_resolve_def by (rule im_settle_waiting [OF inv that])
  show "\<exists>s'. im_expire s i reason = (Ok (), s') \<and> im_inv s' \<and>
      await_poll s' = (await_poll s)(ch := Ready (Err (Expired i reason))) \<and>
      im_phase s' = (im_phase s)(i := Settled)"
    if "im_phase s i = Waiting req ch"
    unfolding im_expire_def by (rule im_settle_waiting [OF inv that])
  show "im_resolve s d = (Err (ApprovalNotFound (dec_id d)), s)" if "im_phase s (dec_id d) = Unknown"
    using that by (auto simp: im_phase_def im_resolve_def im_settle_def split: if_splits option.splits)
  show "im_resolve s d = (Err (AlreadyResolved (dec_id d)), s)" if "im_phase s (dec_id d) = Settled"
    using that by (auto simp: im_phase_def im_resolve_def im_settle_def split: if_splits option.splits)
  show "im_expire s i reason = (Err (ApprovalNotFound i), s)" if "im_phase s i = Unknown"
    using that by (auto simp: im_phase_def im_expire_def im_settle_def split: if_splits option.splits)
  show "im_expire s i reason = (Err (AlreadyResolved i), s)" if "im_phase s i = Settled"
    using that by (auto simp: im_phase_def im_expire_def im_settle_def split: if_splits option.splits)
  show "await_poll s ch = Pending" if "im_phase s i = Waiting req ch"
  proof -
    have entry: "fmlookup (ap_pending s) i = Some \<lparr>entry_body = req, entry_sender = ch\<rparr>"
      using that im_phase_Waiting [OF inv] by simp
    then have "sender_alive s ch" unfolding sender_alive_iff by force
    with im_invD(3) [OF inv entry] show ?thesis by (simp add: await_poll_def)
  qed
qed

section \<open>Properties\<close>

abbreviation im_run :: "'j approval_op list \<Rightarrow> 'j InMemoryStore \<Rightarrow> 'j InMemoryStore" where
  "im_run ops \<equiv> fold (run_approval_op im_register im_resolve im_expire) ops"

text \<open>
  C4. An awaiter is woken exactly once, by the first settlement: in any history of the store, a
  gate that registered a request stays suspended until the first later \<open>resolve\<close> or \<open>expire\<close> of
  its id, then sees that decision or expiry, and nothing that happens afterwards changes it.
\<close>

theorem approval_first_settlement_wins:
  assumes "im_register (im_run before in_memory_new) req = (Ok ch, st)"
  shows "await_poll (im_run after st) ch =
    (case first_settlement (req_id req) after of None \<Rightarrow> Pending | Some x \<Rightarrow> Ready x)"
proof -
  let ?st0 = "im_run before in_memory_new"
  have inv0: "im_inv ?st0" by (rule in_memory.run_ops_inv) simp
  have unknown: "im_phase ?st0 (req_id req) = Unknown"
    using in_memory.reg_known [OF inv0, of req] assms by auto
  from im_register_fresh [OF inv0 unknown] assms
  have "im_inv st" "im_phase st (req_id req) = Waiting req ch" by auto
  then show ?thesis by (rule in_memory.first_settlement_wins)
qed

theorem approval_first_settlement_wins_witness:
  "let req = \<lparr>req_id = ApprovalId ''a'', req_kind = PlanKind, req_target = ''p'', req_payload = (),
       req_glimpse = None, req_resource_id = TenantId ''t'', req_thread_id = ThreadId ''th'',
       req_correlation_id = None\<rparr>
   in await_poll (im_run [ResolveOp (decision_reject (ApprovalId ''b'') ''no''),
        ExpireOp (ApprovalId ''a'') Cancelled, ResolveOp (decision_approve (ApprovalId ''a''))]
        (snd (im_register in_memory_new req))) 0 = Ready (Err (Expired (ApprovalId ''a'') Cancelled))"
proof -
  let ?req = "\<lparr>req_id = ApprovalId ''a'', req_kind = PlanKind, req_target = ''p'', req_payload = (),
       req_glimpse = None, req_resource_id = TenantId ''t'', req_thread_id = ThreadId ''th'',
       req_correlation_id = None\<rparr>"
  let ?st = "snd (im_register in_memory_new ?req)"
  have "im_register (im_run [] in_memory_new) ?req = (Ok 0, ?st)"
    by (simp add: im_register_def in_memory_new_def)
  from approval_first_settlement_wins [OF this, of "[ResolveOp (decision_reject (ApprovalId ''b'') ''no''),
      ExpireOp (ApprovalId ''a'') Cancelled, ResolveOp (decision_approve (ApprovalId ''a''))]"]
  show ?thesis unfolding Let_def by (simp add: decision_reject_def)
qed

text \<open>
  The answers of the store are determined by the phase of the id (L1 to L3, L5): only an
  unknown id can be registered, only a waiting one resolved or expired, a settled one is refused
  by all three for ever, and the body can be read exactly while the request waits.
\<close>

theorem approval_store_answers:
  "let st = im_run ops in_memory_new in
   (case im_phase st i of
      Unknown \<Rightarrow> fst (im_expire st i reason) = Err (ApprovalNotFound i) \<and>
        fst (im_resolve st (d\<lparr>dec_id := i\<rparr>)) = Err (ApprovalNotFound i) \<and> im_get st i = Ok None \<and>
        is_ok (fst (im_register st (req\<lparr>req_id := i\<rparr>)))
    | Waiting body ch \<Rightarrow> fst (im_expire st i reason) = Ok () \<and>
        fst (im_resolve st (d\<lparr>dec_id := i\<rparr>)) = Ok () \<and> im_get st i = Ok (Some body) \<and>
        fst (im_register st (req\<lparr>req_id := i\<rparr>)) = Err (AlreadyRegistered i)
    | Settled \<Rightarrow> im_phase (im_run later st) i = Settled \<and>
        fst (im_expire st i reason) = Err (AlreadyResolved i) \<and>
        fst (im_resolve st (d\<lparr>dec_id := i\<rparr>)) = Err (AlreadyResolved i) \<and> im_get st i = Ok None \<and>
        fst (im_register st (req\<lparr>req_id := i\<rparr>)) = Err (AlreadyRegistered i))"
proof -
  let ?st = "im_run ops in_memory_new"
  let ?req = "req\<lparr>req_id := i\<rparr>"
  have inv: "im_inv ?st" by (rule in_memory.run_ops_inv) simp
  have dec: "dec_id (d\<lparr>dec_id := i\<rparr>) = i" by simp
  note res = in_memory.resolve_unknown [OF inv, of "d\<lparr>dec_id := i\<rparr>", unfolded dec]
    in_memory.resolve_settled [OF inv, of "d\<lparr>dec_id := i\<rparr>", unfolded dec]
    in_memory.resolve_waiting [OF inv, of "d\<lparr>dec_id := i\<rparr>", unfolded dec]
  note exp = in_memory.expire_unknown [OF inv, of i reason] in_memory.expire_settled [OF inv, of i reason]
    in_memory.expire_waiting [OF inv, of i _ _ reason]
  note reg = in_memory.reg_known [OF inv, of ?req] in_memory.reg_fresh [OF inv, of ?req]
  show ?thesis
  proof (cases "im_phase ?st i")
    case Unknown
    moreover from this have "im_get ?st i = Ok None"
      by (auto simp: im_phase_def im_get_def split: if_splits option.splits)
    ultimately show ?thesis using res exp reg by (auto simp: Let_def)
  next
    case (Waiting body ch)
    moreover have "im_get ?st i = Ok (Some body)"
      using Waiting im_phase_Waiting [OF inv] by (simp add: im_get_def)
    ultimately show ?thesis using res exp reg by (auto simp: Let_def)
  next
    case Settled
    moreover have "im_get ?st i = Ok None"
      using Settled im_invD(1) [OF inv, of i]
      by (cases "fmlookup (ap_pending ?st) i") (auto simp: im_phase_def im_get_def)
    ultimately show ?thesis
      using res exp reg in_memory.settled_stays [OF inv Settled] by (auto simp: Let_def)
  qed
qed

text \<open>Dropping the store wakes every waiting gate with \<open>SenderDropped\<close> (L4).\<close>

lemma drop_wakes_waiters:
  "im_inv st \<Longrightarrow> im_phase st i = Waiting req ch \<Longrightarrow> await_poll (im_drop st) ch = Ready (Err SenderDropped)"
  using im_phase_Waiting [of st i req ch] im_invD(3) [of st i]
  by (auto simp: await_poll_def im_drop_def sender_alive_def)

end
