(* ===== verification/Kv_Approval_Store.thy ===== *)
theory Kv_Approval_Store
  imports Approval_Store DashMap_KV
begin

text \<open>
  The approval store with a write-through audit record,
  \<open>crates/agent-fw-interpreter/src/approval_store.rs\<close>: the in-memory awaiters decide, a key-value
  store keeps the status-tagged request body. The store's method table, the codec of the record
  and the namespace are arguments, the state holds the awaiters and the state of the
  key-value store.
\<close>

section \<open>Model\<close>

datatype 'j StoredApprovalStatus =
    StoredPending
  | StoredResolved "'j ApprovalDecision"
  | StoredExpired ExpireReason

record 'j StoredApproval =
  sa_request :: "'j ApprovalRequest"
  sa_status :: "'j StoredApprovalStatus"

record ('s, 'j) KvPendingApprovalStore =
  kp_awaiters :: "'j InMemoryStore"
  kp_kv :: 's

definition DEFAULT_APPROVAL_NAMESPACE :: string where
  "DEFAULT_APPROVAL_NAMESPACE = ''approval''"

definition kp_new :: "'s \<Rightarrow> ('s, 'j) KvPendingApprovalStore" where
  "kp_new s = \<lparr>kp_awaiters = in_memory_new, kp_kv = s\<rparr>"

definition body_key :: "string \<Rightarrow> ApprovalId \<Rightarrow> string" where
  "body_key namespace i = namespace @ '':'' @ approval_id_str i"

definition read_stored ::
  "('s, 'j) KVStore \<Rightarrow> ('j StoredApproval, 'j) serde \<Rightarrow> string \<Rightarrow> ('s, 'j) KvPendingApprovalStore \<Rightarrow>
   TenantId \<Rightarrow> ApprovalId \<Rightarrow>
   (ApprovalError, 'j StoredApproval option) result \<times> ('s, 'j) KvPendingApprovalStore" where
  "read_stored kv sd ns st tenant i =
     (case kv_get kv sd (kp_kv st) (tenant_str tenant) (body_key ns i) of
        (r, s') \<Rightarrow> (map_err (ApprovalStorage \<circ> display_KVError) r, st\<lparr>kp_kv := s'\<rparr>))"

text \<open>Best effort: the error of the put is only logged.\<close>

definition write_stored ::
  "('s, 'j) KVStore \<Rightarrow> ('j StoredApproval, 'j) serde \<Rightarrow> string \<Rightarrow> ('s, 'j) KvPendingApprovalStore \<Rightarrow>
   TenantId \<Rightarrow> ApprovalId \<Rightarrow> 'j StoredApproval \<Rightarrow> ('s, 'j) KvPendingApprovalStore" where
  "write_stored kv sd ns st tenant i stored =
     (case kv_put kv sd (kp_kv st) (tenant_str tenant) (body_key ns i) stored None of
        (_, s') \<Rightarrow> st\<lparr>kp_kv := s'\<rparr>)"

fun sweep_loop ::
  "('s, 'j) KVStore \<Rightarrow> ('j StoredApproval, 'j) serde \<Rightarrow> string \<Rightarrow> TenantId \<Rightarrow> ApprovalId list \<Rightarrow>
   ApprovalId list \<Rightarrow> ('s, 'j) KvPendingApprovalStore \<Rightarrow>
   (ApprovalError, ApprovalId list) result \<times> ('s, 'j) KvPendingApprovalStore" where
  "sweep_loop kv sd ns tenant [] swept st = (Ok swept, st)"
| "sweep_loop kv sd ns tenant (i # ids) swept st =
     (case read_stored kv sd ns st tenant i of
        (Err e, st1) \<Rightarrow> (Err e, st1)
      | (Ok None, st1) \<Rightarrow> sweep_loop kv sd ns tenant ids swept st1
      | (Ok (Some stored), st1) \<Rightarrow>
          (case sa_status stored of
             StoredPending \<Rightarrow>
               sweep_loop kv sd ns tenant ids (swept @ [i])
                 (write_stored kv sd ns st1 tenant i (stored\<lparr>sa_status := StoredExpired Restart\<rparr>))
           | _ \<Rightarrow> sweep_loop kv sd ns tenant ids swept st1))"

definition sweep_orphans_on_startup ::
  "('s, 'j) KVStore \<Rightarrow> ('j StoredApproval, 'j) serde \<Rightarrow> string \<Rightarrow> ('s, 'j) KvPendingApprovalStore \<Rightarrow>
   TenantId \<Rightarrow> ApprovalId list \<Rightarrow>
   (ApprovalError, ApprovalId list) result \<times> ('s, 'j) KvPendingApprovalStore" where
  "sweep_orphans_on_startup kv sd ns st tenant candidates = sweep_loop kv sd ns tenant candidates [] st"

text \<open>No tenant is known here, so the fallback finds nothing.\<close>

definition read_stored_any_tenant :: "ApprovalId \<Rightarrow> 'j ApprovalRequest option" where
  "read_stored_any_tenant i = None"

definition kp_register ::
  "('s, 'j) KVStore \<Rightarrow> ('j StoredApproval, 'j) serde \<Rightarrow> string \<Rightarrow> ('s, 'j) KvPendingApprovalStore \<Rightarrow>
   'j ApprovalRequest \<Rightarrow> (ApprovalError, chan) result \<times> ('s, 'j) KvPendingApprovalStore" where
  "kp_register kv sd ns st req =
     (case im_register (kp_awaiters st) req of
        (Err e, aw) \<Rightarrow> (Err e, st\<lparr>kp_awaiters := aw\<rparr>)
      | (Ok awaiter, aw) \<Rightarrow>
          (Ok awaiter, write_stored kv sd ns (st\<lparr>kp_awaiters := aw\<rparr>) (req_resource_id req) (req_id req)
             \<lparr>sa_request = req, sa_status = StoredPending\<rparr>))"

text \<open>
  \<open>resolve\<close> and \<open>expire\<close> take a snapshot of the body, settle the awaiter, and then record the new
  status for the tenant of the body.
\<close>

definition kp_settle ::
  "('s, 'j) KVStore \<Rightarrow> ('j StoredApproval, 'j) serde \<Rightarrow> string \<Rightarrow> ('s, 'j) KvPendingApprovalStore \<Rightarrow>
   ApprovalId \<Rightarrow> ('j InMemoryStore \<Rightarrow> (ApprovalError, unit) result \<times> 'j InMemoryStore) \<Rightarrow>
   'j StoredApprovalStatus \<Rightarrow> (ApprovalError, unit) result \<times> ('s, 'j) KvPendingApprovalStore" where
  "kp_settle kv sd ns st i settle new_status =
     (case im_get (kp_awaiters st) i of
        Err e \<Rightarrow> (Err e, st)
      | Ok got \<Rightarrow>
          (let prior = (case got of Some req \<Rightarrow> Some req | None \<Rightarrow> read_stored_any_tenant i)
           in case settle (kp_awaiters st) of
                (Err e, aw) \<Rightarrow> (Err e, st\<lparr>kp_awaiters := aw\<rparr>)
              | (Ok _, aw) \<Rightarrow>
                  (case prior of
                     None \<Rightarrow> (Ok (), st\<lparr>kp_awaiters := aw\<rparr>)
                   | Some req \<Rightarrow>
                       (Ok (), write_stored kv sd ns (st\<lparr>kp_awaiters := aw\<rparr>) (req_resource_id req) i
                          \<lparr>sa_request = req, sa_status = new_status\<rparr>))))"

definition kp_resolve ::
  "('s, 'j) KVStore \<Rightarrow> ('j StoredApproval, 'j) serde \<Rightarrow> string \<Rightarrow> ('s, 'j) KvPendingApprovalStore \<Rightarrow>
   'j ApprovalDecision \<Rightarrow> (ApprovalError, unit) result \<times> ('s, 'j) KvPendingApprovalStore" where
  "kp_resolve kv sd ns st d =
     kp_settle kv sd ns st (dec_id d) (\<lambda>aw. im_resolve aw d) (StoredResolved d)"

definition kp_expire ::
  "('s, 'j) KVStore \<Rightarrow> ('j StoredApproval, 'j) serde \<Rightarrow> string \<Rightarrow> ('s, 'j) KvPendingApprovalStore \<Rightarrow>
   ApprovalId \<Rightarrow> ExpireReason \<Rightarrow> (ApprovalError, unit) result \<times> ('s, 'j) KvPendingApprovalStore" where
  "kp_expire kv sd ns st i reason =
     kp_settle kv sd ns st i (\<lambda>aw. im_expire aw i reason) (StoredExpired reason)"

definition kp_get ::
  "('s, 'j) KvPendingApprovalStore \<Rightarrow> ApprovalId \<Rightarrow> (ApprovalError, 'j ApprovalRequest option) result" where
  "kp_get st i =
     (case im_get (kp_awaiters st) i of
        Err e \<Rightarrow> Err e
      | Ok (Some req) \<Rightarrow> Ok (Some req)
      | Ok None \<Rightarrow> Ok (read_stored_any_tenant i))"

text \<open>Records over countable values can be encoded.\<close>

instance ApprovalKind :: countable
  by countable_datatype

instance ApprovalRequest_ext :: (countable, countable) countable
  by (rule countable_classI [of "\<lambda>r. to_nat (req_id r, req_kind r, req_target r, req_payload r,
      req_glimpse r, req_resource_id r, req_thread_id r, req_correlation_id r, ApprovalRequest.more r)"])
    simp

instance ApprovalOutcome :: (countable) countable
  by countable_datatype

instance ApprovalDecision_ext :: (countable, countable) countable
  by (rule countable_classI [of "\<lambda>d. to_nat (dec_id d, dec_outcome d, dec_feedback d,
      ApprovalDecision.more d)"]) simp

instance ExpireReason :: countable
  by countable_datatype

instance StoredApprovalStatus :: (countable) countable
  by countable_datatype

instance StoredApproval_ext :: (countable, countable) countable
  by (rule countable_classI [of "\<lambda>x. to_nat (sa_request x, sa_status x, StoredApproval.more x)"]) simp

definition stored_nat_serde :: "(nat StoredApproval, nat) serde" where
  "stored_nat_serde = \<lparr>to_value = Ok \<circ> to_nat, from_value = Ok \<circ> from_nat\<rparr>"

lemma stored_nat_serde_ok [simp]: "serde_total stored_nat_serde" "serde_roundtrip stored_nat_serde"
  by (simp_all add: stored_nat_serde_def serde_total_def serde_roundtrip_def)

section \<open>The write-through cannot disturb the gate\<close>

lemma write_stored_awaiters [simp]: "kp_awaiters (write_stored kv sd ns st t i x) = kp_awaiters st"
  by (simp add: write_stored_def split: prod.splits)

lemma kp_register_awaiters:
  "fst (kp_register kv sd ns st req) = fst (im_register (kp_awaiters st) req)"
  "kp_awaiters (snd (kp_register kv sd ns st req)) = snd (im_register (kp_awaiters st) req)"
  by (auto simp: kp_register_def split: prod.splits sum.splits)

lemma kp_settle_awaiters:
  "fst (kp_settle kv sd ns st i f x) = fst (f (kp_awaiters st))"
  "kp_awaiters (snd (kp_settle kv sd ns st i f x)) = snd (f (kp_awaiters st))"
  by (auto simp: kp_settle_def im_get_def Let_def split: prod.splits sum.splits option.splits)

lemmas kp_awaiter_simps = kp_register_awaiters kp_settle_awaiters

lemma kp_resolve_awaiters:
  "fst (kp_resolve kv sd ns st d) = fst (im_resolve (kp_awaiters st) d)"
  "kp_awaiters (snd (kp_resolve kv sd ns st d)) = snd (im_resolve (kp_awaiters st) d)"
  by (simp_all add: kp_resolve_def kp_settle_awaiters)

lemma kp_expire_awaiters:
  "fst (kp_expire kv sd ns st i r) = fst (im_expire (kp_awaiters st) i r)"
  "kp_awaiters (snd (kp_expire kv sd ns st i r)) = snd (im_expire (kp_awaiters st) i r)"
  by (simp_all add: kp_expire_def kp_settle_awaiters)

lemma kp_errors_keep_state:
  "im_register (kp_awaiters st) req = (Err e, kp_awaiters st) \<Longrightarrow> kp_register kv sd ns st req = (Err e, st)"
  "f (kp_awaiters st) = (Err e, kp_awaiters st) \<Longrightarrow> kp_settle kv sd ns st i f x = (Err e, st)"
  by (simp_all add: kp_register_def kp_settle_def im_get_def)

text \<open>
  The gate laws hold for every key-value store, codec and namespace, also for a store that fails
  or loses data.
\<close>

interpretation kv_gate: Approval_laws "kp_register kv sd ns" "kp_resolve kv sd ns" "kp_expire kv sd ns"
  "\<lambda>st. await_poll (kp_awaiters st)" "\<lambda>st. im_phase (kp_awaiters st)" "\<lambda>st. im_inv (kp_awaiters st)"
  for kv :: "('s, 'j) KVStore" and sd ns
proof
  fix s :: "('s, 'j) KvPendingApprovalStore" and req ch d i reason
  assume inv: "im_inv (kp_awaiters s)"
  show "\<exists>ch s'. kp_register kv sd ns s req = (Ok ch, s') \<and> im_inv (kp_awaiters s') \<and>
      im_phase (kp_awaiters s') = (im_phase (kp_awaiters s))(req_id req := Waiting req ch) \<and>
      (\<forall>c. await_poll (kp_awaiters s) c \<noteq> Ready (Err SenderDropped) \<longrightarrow>
        await_poll (kp_awaiters s') c = await_poll (kp_awaiters s) c)"
    if "im_phase (kp_awaiters s) (req_id req) = Unknown"
    using in_memory.reg_fresh [OF inv that] kp_register_awaiters [of kv sd ns s req]
    by (metis fst_conv snd_conv prod.collapse)
  show "kp_register kv sd ns s req = (Err (AlreadyRegistered (req_id req)), s)"
    if "im_phase (kp_awaiters s) (req_id req) \<noteq> Unknown"
    by (rule kp_errors_keep_state(1) [OF in_memory.reg_known [OF inv that]])
  show "\<exists>s'. kp_resolve kv sd ns s d = (Ok (), s') \<and> im_inv (kp_awaiters s') \<and>
      await_poll (kp_awaiters s') = (await_poll (kp_awaiters s))(ch := Ready (Ok d)) \<and>
      im_phase (kp_awaiters s') = (im_phase (kp_awaiters s))(dec_id d := Settled)"
    if "im_phase (kp_awaiters s) (dec_id d) = Waiting req ch"
    using in_memory.resolve_waiting [OF inv that] kp_resolve_awaiters [of kv sd ns s d]
    by (metis fst_conv snd_conv prod.collapse)
  show "\<exists>s'. kp_expire kv sd ns s i reason = (Ok (), s') \<and> im_inv (kp_awaiters s') \<and>
      await_poll (kp_awaiters s') = (await_poll (kp_awaiters s))(ch := Ready (Err (Expired i reason))) \<and>
      im_phase (kp_awaiters s') = (im_phase (kp_awaiters s))(i := Settled)"
    if "im_phase (kp_awaiters s) i = Waiting req ch"
    using in_memory.expire_waiting [OF inv that, of reason] kp_expire_awaiters [of kv sd ns s i reason]
    by (metis fst_conv snd_conv prod.collapse)
  show "kp_resolve kv sd ns s d = (Err (ApprovalNotFound (dec_id d)), s)"
    if "im_phase (kp_awaiters s) (dec_id d) = Unknown"
    unfolding kp_resolve_def
    by (rule kp_errors_keep_state(2)) (rule in_memory.resolve_unknown [OF inv that])
  show "kp_resolve kv sd ns s d = (Err (AlreadyResolved (dec_id d)), s)"
    if "im_phase (kp_awaiters s) (dec_id d) = Settled"
    unfolding kp_resolve_def
    by (rule kp_errors_keep_state(2)) (rule in_memory.resolve_settled [OF inv that])
  show "kp_expire kv sd ns s i reason = (Err (ApprovalNotFound i), s)"
    if "im_phase (kp_awaiters s) i = Unknown"
    unfolding kp_expire_def
    by (rule kp_errors_keep_state(2)) (rule in_memory.expire_unknown [OF inv that])
  show "kp_expire kv sd ns s i reason = (Err (AlreadyResolved i), s)"
    if "im_phase (kp_awaiters s) i = Settled"
    unfolding kp_expire_def
    by (rule kp_errors_keep_state(2)) (rule in_memory.expire_settled [OF inv that])
  show "await_poll (kp_awaiters s) ch = Pending" if "im_phase (kp_awaiters s) i = Waiting req ch"
    by (rule in_memory.waiting_pending [OF inv that])
qed

abbreviation kp_run where
  "kp_run kv sd ns ops \<equiv> fold (run_approval_op (kp_register kv sd ns) (kp_resolve kv sd ns) (kp_expire kv sd ns)) ops"

text \<open>
  A failing or slow audit store never disturbs a gate: for every key-value store and codec,
  whatever they return, a registered gate is woken exactly once, by the first later decision or
  expiry of its id.
\<close>

theorem kv_approval_first_settlement_wins:
  assumes "kp_register kv sd ns (kp_run kv sd ns before (kp_new s0)) req = (Ok ch, st)"
  shows "await_poll (kp_awaiters (kp_run kv sd ns after st)) ch =
    (case first_settlement (req_id req) after of None \<Rightarrow> Pending | Some x \<Rightarrow> Ready x)"
proof -
  let ?st0 = "kp_run kv sd ns before (kp_new s0)"
  have inv0: "im_inv (kp_awaiters ?st0)"
    by (rule kv_gate.run_ops_inv) (simp add: kp_new_def)
  have unknown: "im_phase (kp_awaiters ?st0) (req_id req) = Unknown"
    using kv_gate.reg_known [OF inv0, of req kv sd ns] assms by auto
  from kv_gate.reg_fresh [OF inv0 unknown, of kv sd ns] assms
  have "im_inv (kp_awaiters st)" "im_phase (kp_awaiters st) (req_id req) = Waiting req ch" by auto
  then show ?thesis by (rule kv_gate.first_settlement_wins)
qed

definition sample_request :: "nat ApprovalRequest" where
  "sample_request = \<lparr>req_id = ApprovalId ''a'', req_kind = ToolKind, req_target = ''delete_rows'',
     req_payload = 0, req_glimpse = None, req_resource_id = TenantId ''t'',
     req_thread_id = ThreadId ''th'', req_correlation_id = None\<rparr>"

text \<open>A store whose every operation fails.\<close>

definition broken_kv :: "(unit, 'j) KVStore" where
  "broken_kv = \<lparr>put_json = (\<lambda>s t k v ttl. (Err (Storage ''down''), s)),
     get_json = (\<lambda>s t k. (Err (Storage ''down''), s)), kv_delete = (\<lambda>s t k. (Err (Storage ''down''), s)),
     kv_exists = (\<lambda>s t k. (Err (Storage ''down''), s)), list_keys = (\<lambda>s t p. (Err (Storage ''down''), s)),
     get_many_json = (\<lambda>s t ks. (Err (Storage ''down''), s))\<rparr>"

definition stuck_serde :: "('v, 'j) serde" where
  "stuck_serde = \<lparr>to_value = (\<lambda>_. Err ''e''), from_value = (\<lambda>_. Err ''e'')\<rparr>"

theorem kv_approval_first_settlement_wins_witness:
  "await_poll (kp_awaiters (kp_run broken_kv stuck_serde ''approval''
      [ResolveOp (decision_approve (ApprovalId ''a'')), ExpireOp (ApprovalId ''a'') Cancelled]
      (snd (kp_register broken_kv stuck_serde ''approval'' (kp_new ()) sample_request)))) 0 =
   Ready (Ok (decision_approve (ApprovalId ''a'')))"
proof -
  let ?st = "snd (kp_register broken_kv stuck_serde ''approval'' (kp_new ()) sample_request)"
  have "kp_register broken_kv stuck_serde ''approval''
      (kp_run broken_kv stuck_serde ''approval'' [] (kp_new ())) sample_request = (Ok 0, ?st)"
    by (simp add: kp_register_def kp_new_def im_register_def in_memory_new_def)
  from kv_approval_first_settlement_wins [OF this, of
      "[ResolveOp (decision_approve (ApprovalId ''a'')), ExpireOp (ApprovalId ''a'') Cancelled]"]
  show ?thesis by (simp add: sample_request_def decision_approve_def)
qed

section \<open>The audit record\<close>

text \<open>What the record of an id holds.\<close>

definition audit ::
  "string \<Rightarrow> ('j DashMapKVStore, 'j) KvPendingApprovalStore \<Rightarrow>
   TenantId \<Rightarrow> ApprovalId \<Rightarrow> 'j option" where
  "audit ns st tenant i = dashmap_peek (kp_kv st) (tenant_str tenant) (body_key ns i)"

fun op_id :: "'j approval_op \<Rightarrow> ApprovalId" where
  "op_id (RegisterOp req) = req_id req"
| "op_id (ResolveOp d) = dec_id d"
| "op_id (ExpireOp i _) = i"

fun op_tenant_ok :: "'j approval_op \<Rightarrow> bool" where
  "op_tenant_ok (RegisterOp req) = colon_free (tenant_str (req_resource_id req))"
| "op_tenant_ok _ = True"

definition tenants_ok :: "'j InMemoryStore \<Rightarrow> bool" where
  "tenants_ok aw \<longleftrightarrow>
     (\<forall>i e. fmlookup (ap_pending aw) i = Some e \<longrightarrow> colon_free (tenant_str (req_resource_id (entry_body e))))"

lemma body_key_inject [simp]: "body_key ns i = body_key ns i' \<longleftrightarrow> i = i'"
  by (cases i; cases i') (simp add: body_key_def)

lemma write_stored_audit:
  assumes "to_value sd x = Ok j"
  shows "audit ns (write_stored dashmap_kv sd ns st t i x) t i = Some j"
  using dashmap.put_content [of "kp_kv st" "tenant_str t" "body_key ns i" j None] assms
  by (auto simp: audit_def write_stored_def kv_put_def split: prod.splits)

lemma write_stored_frame:
  assumes "colon_free (tenant_str t)" "colon_free (tenant_str t')" "i' \<noteq> i"
  shows "audit ns (write_stored dashmap_kv sd ns st t i x) t' i' = audit ns st t' i'"
proof (cases "to_value sd x")
  case (Inr j)
  obtain r s' where put: "put_json dashmap_kv (kp_kv st) (tenant_str t) (body_key ns i) j None = (r, s')"
    by fastforce
  from dashmap.put_frame [OF put assms(1,2), where k' = "body_key ns i'"] assms(3) put Inr
  show ?thesis by (simp add: audit_def write_stored_def kv_put_def)
qed (simp add: audit_def write_stored_def kv_put_def)

lemma audit_awaiters [simp]: "audit ns (st\<lparr>kp_awaiters := aw\<rparr>) t i = audit ns st t i"
  by (simp add: audit_def)

lemma kp_settle_frame:
  assumes "tenants_ok (kp_awaiters st)" "colon_free (tenant_str t)" "i' \<noteq> i"
  shows "audit ns (snd (kp_settle dashmap_kv sd ns st i f x)) t i' = audit ns st t i'"
  using assms
  by (auto simp: kp_settle_def im_get_def read_stored_any_tenant_def tenants_ok_def write_stored_frame
      split: sum.splits prod.splits option.splits)

abbreviation kp_op where
  "kp_op sd ns \<equiv> run_approval_op (kp_register dashmap_kv sd ns) (kp_resolve dashmap_kv sd ns)
     (kp_expire dashmap_kv sd ns)"

lemma kp_op_frame:
  assumes "tenants_ok (kp_awaiters st)" "op_tenant_ok op" "colon_free (tenant_str t)" "op_id op \<noteq> i"
  shows "audit ns (kp_op sd ns op st) t i = audit ns st t i"
proof (cases op)
  case (RegisterOp req)
  with assms show ?thesis
    by (auto simp: kp_register_def write_stored_frame split: prod.splits sum.splits)
next
  case (ResolveOp d)
  with assms show ?thesis by (simp add: kp_resolve_def kp_settle_frame)
next
  case (ExpireOp k r)
  with assms show ?thesis by (simp add: kp_expire_def kp_settle_frame)
qed

lemma tenants_ok_register:
  "tenants_ok aw \<Longrightarrow> colon_free (tenant_str (req_resource_id req)) \<Longrightarrow> tenants_ok (snd (im_register aw req))"
  by (auto simp: tenants_ok_def im_register_def Let_def split: if_splits)

lemma tenants_ok_settle: "tenants_ok aw \<Longrightarrow> tenants_ok (snd (im_settle aw i x))"
  by (auto simp: tenants_ok_def im_settle_def split: option.splits if_splits)

lemma tenants_ok_op:
  "tenants_ok (kp_awaiters st) \<Longrightarrow> op_tenant_ok op \<Longrightarrow> tenants_ok (kp_awaiters (kp_op sd ns op st))"
  by (cases op) (auto simp: kp_register_awaiters kp_resolve_awaiters kp_expire_awaiters im_resolve_def
      im_expire_def intro: tenants_ok_register tenants_ok_settle)

fun stored_status :: "'j settlement option \<Rightarrow> 'j StoredApprovalStatus" where
  "stored_status None = StoredPending"
| "stored_status (Some (Ok d)) = StoredResolved d"
| "stored_status (Some (Err (Expired _ r))) = StoredExpired r"
| "stored_status (Some (Err _)) = StoredPending"

lemma kp_op_settles:
  assumes "im_inv (kp_awaiters st)" "im_phase (kp_awaiters st) i = Waiting req ch"
    "settles i op = Some x" "to_value sd \<lparr>sa_request = req, sa_status = stored_status (Some x)\<rparr> = Ok j"
  shows "audit ns (kp_op sd ns op st) (req_resource_id req) i = Some j"
proof -
  have entry: "fmlookup (ap_pending (kp_awaiters st)) i = Some \<lparr>entry_body = req, entry_sender = ch\<rparr>"
    using assms(1,2) im_phase_Waiting by blast
  have settle: "audit ns (snd (kp_settle dashmap_kv sd ns st i f y)) (req_resource_id req) i = Some j"
    if "fst (f (kp_awaiters st)) = Ok ()" "to_value sd \<lparr>sa_request = req, sa_status = y\<rparr> = Ok j" for f y
    using that entry write_stored_audit
    by (auto simp: kp_settle_def im_get_def split: prod.splits sum.splits)
  show ?thesis
  proof (cases op)
    case (ResolveOp d)
    with assms(3,4) settle in_memory.resolve_waiting [OF assms(1), of d] assms(2) show ?thesis
      by (auto simp: kp_resolve_def split: if_splits)
  next
    case (ExpireOp k r)
    with assms(3,4) settle [of "\<lambda>aw. im_expire aw i r" "StoredExpired r"]
      in_memory.expire_waiting [OF assms(1,2), of r]
    show ?thesis by (auto simp: kp_expire_def split: if_splits)
  qed (use assms(3) in simp)
qed

lemma kp_op_ignored:
  assumes "im_inv (kp_awaiters st)" "op_id op = i" "im_phase (kp_awaiters st) i \<noteq> Unknown"
    "im_phase (kp_awaiters st) i = Settled \<or> settles i op = None"
  shows "kp_op sd ns op st = st"
  using assms kv_gate.reg_known [OF assms(1), of _ dashmap_kv sd ns]
    kv_gate.resolve_settled [OF assms(1), of _ dashmap_kv sd ns]
    kv_gate.expire_settled [OF assms(1), of i dashmap_kv sd ns]
  by (cases op) auto

lemma kp_ops_audit:
  assumes "serde_total sd" "colon_free (tenant_str (req_resource_id req))"
  shows "im_inv (kp_awaiters st) \<Longrightarrow> tenants_ok (kp_awaiters st) \<Longrightarrow> list_all op_tenant_ok ops \<Longrightarrow>
    (im_phase (kp_awaiters st) i = Settled \<longrightarrow>
       audit ns (fold (kp_op sd ns) ops st) (req_resource_id req) i = audit ns st (req_resource_id req) i) \<and>
    (im_phase (kp_awaiters st) i = Waiting req ch \<longrightarrow>
       to_value sd \<lparr>sa_request = req, sa_status = StoredPending\<rparr> = Ok j0 \<longrightarrow>
       audit ns st (req_resource_id req) i = Some j0 \<longrightarrow>
       (\<exists>j. to_value sd \<lparr>sa_request = req, sa_status = stored_status (first_settlement i ops)\<rparr> = Ok j \<and>
         audit ns (fold (kp_op sd ns) ops st) (req_resource_id req) i = Some j))"
proof (induction ops arbitrary: st)
  case Nil
  then show ?case by simp
next
  case (Cons op ops)
  let ?t = "req_resource_id req"
  let ?st = "kp_op sd ns op st"
  have op: "op_tenant_ok op" and ops: "list_all op_tenant_ok ops" using Cons.prems(3) by simp_all
  have inv: "im_inv (kp_awaiters ?st)" by (rule kv_gate.run_op_inv [OF Cons.prems(1)])
  note IH = Cons.IH [OF inv tenants_ok_op [OF Cons.prems(2) op] ops]
  have frame: "audit ns ?st ?t i = audit ns st ?t i" if "op_id op \<noteq> i"
    using kp_op_frame [OF Cons.prems(2) op assms(2) that] .
  have settled: "audit ns ?st ?t i = audit ns st ?t i" if "im_phase (kp_awaiters st) i = Settled"
    using frame kp_op_ignored [OF Cons.prems(1), of op i sd ns] that by (cases "op_id op = i") auto
  have settled': "im_phase (kp_awaiters ?st) i = Settled" if "im_phase (kp_awaiters st) i = Settled"
    using kv_gate.settled_stays [OF Cons.prems(1) that, of dashmap_kv sd ns "[op]"] by simp
  show ?case
  proof (intro conjI impI)
    assume "im_phase (kp_awaiters st) i = Settled"
    with IH settled settled' show "audit ns (fold (kp_op sd ns) (op # ops) st) ?t i = audit ns st ?t i"
      by simp
  next
    assume waiting: "im_phase (kp_awaiters st) i = Waiting req ch"
      and j0: "to_value sd \<lparr>sa_request = req, sa_status = StoredPending\<rparr> = Ok j0"
      and au: "audit ns st ?t i = Some j0"
    show "\<exists>j. to_value sd \<lparr>sa_request = req, sa_status = stored_status (first_settlement i (op # ops))\<rparr> =
        Ok j \<and> audit ns (fold (kp_op sd ns) (op # ops) st) ?t i = Some j"
    proof (cases "settles i op")
      case None
      have "op_id op = i \<Longrightarrow> ?st = st"
        using kp_op_ignored [OF Cons.prems(1), of op i sd ns] waiting None by simp
      moreover have "im_phase (kp_awaiters ?st) i = Waiting req ch"
        using Cons.prems(1) waiting None
        by (cases rule: kv_gate.run_op_cases [of st op dashmap_kv sd ns]) auto
      ultimately show ?thesis using IH frame None j0 au by (cases "op_id op = i") auto
    next
      case (Some x)
      obtain j where j: "to_value sd \<lparr>sa_request = req, sa_status = stored_status (Some x)\<rparr> = Ok j"
        using assms(1) by (rule serde_totalE)
      have "im_phase (kp_awaiters ?st) i = Settled"
        using kv_gate.settled_after [OF Cons.prems(1) waiting, of "[op]" dashmap_kv sd ns] Some by simp
      with IH kp_op_settles [OF Cons.prems(1) waiting Some j] j Some show ?thesis by auto
    qed
  qed
qed

text \<open>
  The audit record is truthful: after a registration on the in-memory key-value store, and
  after any further calls, the record read for the request's tenant holds the request with the
  status of the first settlement, pending if there was none. Tenant names are free of colons, and
  the record codec reads back what it writes.
\<close>

theorem approval_audit_trail:
  assumes "serde_total sd" "serde_roundtrip sd"
    and "list_all op_tenant_ok before" "list_all op_tenant_ok (RegisterOp req # after)"
    and "kp_register dashmap_kv sd ns (kp_run dashmap_kv sd ns before (kp_new s0)) req = (Ok ch, st)"
  shows "fst (read_stored dashmap_kv sd ns (kp_run dashmap_kv sd ns after st)
           (req_resource_id req) (req_id req)) =
         Ok (Some \<lparr>sa_request = req, sa_status = stored_status (first_settlement (req_id req) after)\<rparr>)"
proof -
  let ?st0 = "kp_run dashmap_kv sd ns before (kp_new s0)"
  let ?i = "req_id req" and ?t = "req_resource_id req"
  have "tenants_ok (kp_awaiters (kp_new s0))"
    by (simp add: tenants_ok_def kp_new_def in_memory_new_def)
  moreover have "tenants_ok (kp_awaiters s1) \<Longrightarrow> list_all op_tenant_ok ops \<Longrightarrow>
      tenants_ok (kp_awaiters (kp_run dashmap_kv sd ns ops s1))" for s1 ops
    by (induction ops arbitrary: s1) (auto simp: tenants_ok_op)
  ultimately have ten0: "tenants_ok (kp_awaiters ?st0)" using assms(3) by blast
  have inv0: "im_inv (kp_awaiters ?st0)" by (rule kv_gate.run_ops_inv) (simp add: kp_new_def)
  have unknown: "im_phase (kp_awaiters ?st0) ?i = Unknown"
    using kv_gate.reg_known [OF inv0, of req dashmap_kv sd ns] assms(5) by auto
  from kv_gate.reg_fresh [OF inv0 unknown, of dashmap_kv sd ns] assms(5)
  have st: "im_inv (kp_awaiters st)" "im_phase (kp_awaiters st) ?i = Waiting req ch" by auto
  have ten: "tenants_ok (kp_awaiters st)"
    using tenants_ok_op [OF ten0, of "RegisterOp req" sd ns] assms(4,5) by simp
  obtain j0 where j0: "to_value sd \<lparr>sa_request = req, sa_status = StoredPending\<rparr> = Ok j0"
    using assms(1) by (rule serde_totalE)
  have "audit ns st ?t ?i = Some j0"
    using assms(5) write_stored_audit [OF j0] by (auto simp: kp_register_def split: prod.splits sum.splits)
  with kp_ops_audit [OF assms(1), of req st after ?i ns ch j0] assms(4) st ten j0
  obtain j where j: "to_value sd \<lparr>sa_request = req, sa_status = stored_status (first_settlement ?i after)\<rparr> = Ok j"
    "audit ns (kp_run dashmap_kv sd ns after st) ?t ?i = Some j" by auto
  obtain r s' where get: "kv_get dashmap_kv sd (kp_kv (kp_run dashmap_kv sd ns after st)) (tenant_str ?t)
      (body_key ns ?i) = (r, s')" by fastforce
  from dashmap.typed_get(2) [OF get] j(2) serde_roundtripD [OF assms(2) j(1)] get show ?thesis
    by (simp add: read_stored_def audit_def)
qed

theorem approval_audit_trail_witness:
  "fst (read_stored dashmap_kv stored_nat_serde ''approval''
     (kp_run dashmap_kv stored_nat_serde ''approval''
       [ExpireOp (ApprovalId ''b'') Timeout, ResolveOp (decision_approve (ApprovalId ''a'')),
        ExpireOp (ApprovalId ''a'') Cancelled]
       (snd (kp_register dashmap_kv stored_nat_serde ''approval'' (kp_new (dashmap_new 0)) sample_request)))
     (TenantId ''t'') (ApprovalId ''a'')) =
   Ok (Some \<lparr>sa_request = sample_request, sa_status = StoredResolved (decision_approve (ApprovalId ''a''))\<rparr>)"
proof -
  let ?ops = "[ExpireOp (ApprovalId ''b'') Timeout, ResolveOp (decision_approve (ApprovalId ''a'')),
        ExpireOp (ApprovalId ''a'') Cancelled] :: nat approval_op list"
  let ?st = "snd (kp_register dashmap_kv stored_nat_serde ''approval'' (kp_new (dashmap_new 0)) sample_request)"
  have reg: "kp_register dashmap_kv stored_nat_serde ''approval''
      (kp_run dashmap_kv stored_nat_serde ''approval'' [] (kp_new (dashmap_new 0))) sample_request = (Ok 0, ?st)"
    by (simp add: kp_register_def kp_new_def im_register_def in_memory_new_def)
  have "list_all op_tenant_ok (RegisterOp sample_request # ?ops)"
    by (simp add: sample_request_def colon_free_def)
  from approval_audit_trail [OF stored_nat_serde_ok _ this reg] show ?thesis
    by (simp add: sample_request_def decision_approve_def)
qed

section \<open>Sweep after a restart\<close>

definition stored_at ::
  "('j StoredApproval, 'j) serde \<Rightarrow> string \<Rightarrow> ('j DashMapKVStore, 'j) KvPendingApprovalStore \<Rightarrow>
   TenantId \<Rightarrow> ApprovalId \<Rightarrow> 'j StoredApproval option" where
  "stored_at sd ns st tenant i =
     (case audit ns st tenant i of
        None \<Rightarrow> None
      | Some j \<Rightarrow> (case from_value sd j of Err _ \<Rightarrow> None | Ok x \<Rightarrow> Some x))"

definition orphaned :: "'j StoredApproval option \<Rightarrow> bool" where
  "orphaned x = (case x of None \<Rightarrow> False | Some y \<Rightarrow> sa_status y = StoredPending)"

definition mark_restarted :: "'j StoredApproval \<Rightarrow> 'j StoredApproval" where
  "mark_restarted x = (if sa_status x = StoredPending then x\<lparr>sa_status := StoredExpired Restart\<rparr> else x)"

lemma read_stored_spec:
  assumes "read_stored dashmap_kv sd ns st t i = (r, st1)"
    and "audit ns st t i = None \<or> stored_at sd ns st t i \<noteq> None"
  shows "r = Ok (stored_at sd ns st t i)" "audit ns st1 = audit ns st" "kp_awaiters st1 = kp_awaiters st"
proof -
  obtain g s' where get: "kv_get dashmap_kv sd (kp_kv st) (tenant_str t) (body_key ns i) = (g, s')"
    by fastforce
  from dashmap.typed_get [OF get] assms get
  show "r = Ok (stored_at sd ns st t i)" "audit ns st1 = audit ns st" "kp_awaiters st1 = kp_awaiters st"
    by (auto simp: read_stored_def stored_at_def audit_def fun_eq_iff split: option.splits sum.splits)
qed

lemma stored_at_cong: "audit ns st' t i = audit ns st t i \<Longrightarrow> stored_at sd ns st' t i = stored_at sd ns st t i"
  by (simp add: stored_at_def)

lemma stored_at_write:
  assumes "serde_total sd" "serde_roundtrip sd" "colon_free (tenant_str t)"
  shows "stored_at sd ns (write_stored dashmap_kv sd ns st t i x) t k =
    (if k = i then Some x else stored_at sd ns st t k)"
proof -
  obtain j where j: "to_value sd x = Ok j" using assms(1) by (rule serde_totalE)
  show ?thesis
    using write_stored_audit [OF j, of ns st t i] serde_roundtripD [OF assms(2) j]
      write_stored_frame [OF assms(3,3), of k i ns sd st x]
    by (auto simp: stored_at_def)
qed

lemma sweep_loop_spec:
  assumes codec: "serde_total sd" "serde_roundtrip sd" and t: "colon_free (tenant_str t)"
  shows "distinct ids \<Longrightarrow> list_all (\<lambda>i. audit ns st t i = None \<or> stored_at sd ns st t i \<noteq> None) ids \<Longrightarrow>
    sweep_loop dashmap_kv sd ns t ids swept st = (r, st') \<Longrightarrow>
    r = Ok (swept @ filter (\<lambda>i. orphaned (stored_at sd ns st t i)) ids) \<and>
    stored_at sd ns st' t k = (if k \<in> set ids then map_option mark_restarted (stored_at sd ns st t k)
      else stored_at sd ns st t k) \<and> kp_awaiters st' = kp_awaiters st"
proof (induction ids arbitrary: swept st)
  case Nil
  then show ?case by simp
next
  case (Cons i ids)
  obtain rd st1 where rd: "read_stored dashmap_kv sd ns st t i = (rd, st1)" by fastforce
  have ok: "audit ns st t i = None \<or> stored_at sd ns st t i \<noteq> None" using Cons.prems(2) by simp
  note rd1 = read_stored_spec [OF rd ok]
  have same: "stored_at sd ns st1 t m = stored_at sd ns st t m" for m
    using rd1(2) by (intro stored_at_cong) simp
  show ?case
  proof (cases "orphaned (stored_at sd ns st t i)")
    case False
    then have "sweep_loop dashmap_kv sd ns t ids swept st1 = (r, st')"
      using Cons.prems(3) rd rd1(1)
      by (auto simp: orphaned_def split: option.splits StoredApprovalStatus.splits)
    moreover have "map_option mark_restarted (stored_at sd ns st t i) = stored_at sd ns st t i"
      using False by (auto simp: orphaned_def mark_restarted_def split: option.splits)
    ultimately show ?thesis
      using Cons.IH [of st1 swept] Cons.prems(1,2) False rd1(2,3) by (auto simp: same)
  next
    case True
    then obtain x where x: "stored_at sd ns st t i = Some x" "sa_status x = StoredPending"
      by (auto simp: orphaned_def split: option.splits)
    let ?y = "x\<lparr>sa_status := StoredExpired Restart\<rparr>"
    let ?st2 = "write_stored dashmap_kv sd ns st1 t i ?y"
    have run: "sweep_loop dashmap_kv sd ns t ids (swept @ [i]) ?st2 = (r, st')"
      using Cons.prems(3) rd rd1(1) x by simp
    have st2: "stored_at sd ns ?st2 t m = (if m = i then Some ?y else stored_at sd ns st t m)" for m
      using stored_at_write [OF codec t] same by simp
    have "list_all (\<lambda>i. audit ns ?st2 t i = None \<or> stored_at sd ns ?st2 t i \<noteq> None) ids"
      using Cons.prems(1,2) rd1(2) write_stored_frame [OF t t, of _ i ns sd st1 ?y]
      by (auto simp: list_all_iff st2)
    then have IH: "r = Ok ((swept @ [i]) @ filter (\<lambda>m. orphaned (stored_at sd ns ?st2 t m)) ids)"
      "stored_at sd ns st' t k = (if k \<in> set ids then map_option mark_restarted (stored_at sd ns ?st2 t k)
        else stored_at sd ns ?st2 t k)" "kp_awaiters st' = kp_awaiters st1"
      using Cons.IH [OF _ _ run] Cons.prems(1) by simp_all
    have "filter (\<lambda>m. orphaned (stored_at sd ns ?st2 t m)) ids =
        filter (\<lambda>m. orphaned (stored_at sd ns st t m)) ids"
      using Cons.prems(1) by (intro filter_cong refl) (auto simp: st2)
    with IH Cons.prems(1) x True rd1(3) show ?thesis
      by (simp add: st2 mark_restarted_def)
  qed
qed

text \<open>
  The startup sweep expires exactly the orphans: it returns, in order, the candidates whose
  record is still pending, marks those as expired by restart with their request kept, and leaves
  every other record and the awaiters alone. The candidates are distinct and their records
  readable.
\<close>

theorem sweep_expires_exactly_pending:
  assumes "serde_total sd" "serde_roundtrip sd" "colon_free (tenant_str t)" "distinct ids"
    and "list_all (\<lambda>i. audit ns st t i = None \<or> stored_at sd ns st t i \<noteq> None) ids"
  shows "let (r, st') = sweep_orphans_on_startup dashmap_kv sd ns st t ids
    in r = Ok (filter (\<lambda>i. orphaned (stored_at sd ns st t i)) ids) \<and>
       stored_at sd ns st' t k = (if k \<in> set ids then map_option mark_restarted (stored_at sd ns st t k)
         else stored_at sd ns st t k) \<and> kp_awaiters st' = kp_awaiters st"
proof -
  obtain r st' where run: "sweep_loop dashmap_kv sd ns t ids [] st = (r, st')" by fastforce
  from sweep_loop_spec [OF assms(1-5) run, of k] run show ?thesis
    by (simp only: sweep_orphans_on_startup_def Let_def prod.case append_Nil)
qed

theorem sweep_expires_exactly_pending_witness:
  "let st = snd (kp_register dashmap_kv stored_nat_serde ''approval'' (kp_new (dashmap_new 0)) sample_request);
       (r, st') = sweep_orphans_on_startup dashmap_kv stored_nat_serde ''approval'' st (TenantId ''t'')
         [ApprovalId ''z'', ApprovalId ''a'']
   in r = Ok (filter (\<lambda>i. orphaned (stored_at stored_nat_serde ''approval'' st (TenantId ''t'') i))
        [ApprovalId ''z'', ApprovalId ''a'']) \<and> kp_awaiters st' = kp_awaiters st"
proof -
  let ?st = "snd (kp_register dashmap_kv stored_nat_serde ''approval'' (kp_new (dashmap_new 0)) sample_request)"
  have "list_all (\<lambda>i. audit ''approval'' ?st (TenantId ''t'') i = None \<or>
      stored_at stored_nat_serde ''approval'' ?st (TenantId ''t'') i \<noteq> None) [ApprovalId ''z'', ApprovalId ''a'']"
    by (auto simp: stored_at_def stored_nat_serde_def split: option.splits)
  moreover have "colon_free (tenant_str (TenantId ''t''))" "distinct [ApprovalId ''z'', ApprovalId ''a'']"
    by (simp_all add: colon_free_def)
  ultimately show ?thesis
    using sweep_expires_exactly_pending [OF stored_nat_serde_ok, of "TenantId ''t''"
        "[ApprovalId ''z'', ApprovalId ''a'']" "''approval''" ?st "ApprovalId ''a''"]
    unfolding Let_def by (simp only: case_prod_beta)
qed

section \<open>Limits\<close>

text \<open>
  \<open>register\<close> is two steps: the awaiter first, then the pending record. A \<open>resolve\<close> that runs
  between them writes its record first, and the late write puts it back to pending, although the
  gate was already opened; a sweep after a restart then reports the approval as expired.
\<close>

lemma register_resolve_race_stale_audit:
  fixes aw :: "nat InMemoryStore"
  defines "d \<equiv> decision_approve (ApprovalId ''a'')"
    and "st1 \<equiv> (kp_new (dashmap_new 0))\<lparr>kp_awaiters := snd (im_register in_memory_new sample_request)\<rparr>"
  defines "st2 \<equiv> snd (kp_resolve dashmap_kv stored_nat_serde ''approval'' st1 d)"
  defines "st3 \<equiv> write_stored dashmap_kv stored_nat_serde ''approval'' st2 (TenantId ''t'') (ApprovalId ''a'')
      \<lparr>sa_request = sample_request, sa_status = StoredPending\<rparr>"
  shows "await_poll (kp_awaiters st3) 0 = Ready (Ok d)"
    and "stored_at stored_nat_serde ''approval'' st3 (TenantId ''t'') (ApprovalId ''a'') =
      Some \<lparr>sa_request = sample_request, sa_status = StoredPending\<rparr>"
proof -
  show "await_poll (kp_awaiters st3) 0 = Ready (Ok d)"
    by (simp add: st3_def st2_def st1_def d_def kp_resolve_awaiters im_resolve_def im_settle_def
        im_register_def in_memory_new_def sample_request_def decision_approve_def await_poll_def)
  show "stored_at stored_nat_serde ''approval'' st3 (TenantId ''t'') (ApprovalId ''a'') =
      Some \<lparr>sa_request = sample_request, sa_status = StoredPending\<rparr>"
    unfolding st3_def by (subst stored_at_write) (simp_all add: colon_free_def)
qed

end
