(* ===== verification/Stream_Part.thy ===== *)
theory Stream_Part
  imports Algebra Approval_Store
begin

text \<open>
  Token usage (\<open>crates/agent-fw-core/src/usage.rs\<close>) and the data stream protocol
  (\<open>crates/agent-fw-core/src/stream_part.rs\<close>): the events of a stream and the accumulator that
  turns them into the persisted parts of a message. The latency summary is carried unread, so
  its type is the parameter \<open>'l\<close>.
\<close>

section \<open>Token usage\<close>

record TokenUsage =
  prompt_tokens :: u64
  completion_tokens :: u64
  cache_read_input_tokens :: u64
  cache_creation_input_tokens :: u64

definition usage_ZERO :: TokenUsage where
  "usage_ZERO = \<lparr>prompt_tokens = 0, completion_tokens = 0, cache_read_input_tokens = 0,
     cache_creation_input_tokens = 0\<rparr>"

definition usage_simple :: "u64 \<Rightarrow> u64 \<Rightarrow> TokenUsage" where
  "usage_simple p c = \<lparr>prompt_tokens = p, completion_tokens = c, cache_read_input_tokens = 0,
     cache_creation_input_tokens = 0\<rparr>"

definition usage_total :: "TokenUsage \<Rightarrow> u64" where
  "usage_total u = sat_add (prompt_tokens u) (completion_tokens u)"

definition usage_combine :: "TokenUsage \<Rightarrow> TokenUsage \<Rightarrow> TokenUsage" where
  "usage_combine a b =
     \<lparr>prompt_tokens = sat_add (prompt_tokens a) (prompt_tokens b),
      completion_tokens = sat_add (completion_tokens a) (completion_tokens b),
      cache_read_input_tokens = sat_add (cache_read_input_tokens a) (cache_read_input_tokens b),
      cache_creation_input_tokens = sat_add (cache_creation_input_tokens a) (cache_creation_input_tokens b)\<rparr>"

definition usage_is_zero :: "TokenUsage \<Rightarrow> bool" where
  "usage_is_zero u \<longleftrightarrow> prompt_tokens u = 0 \<and> completion_tokens u = 0 \<and>
     cache_read_input_tokens u = 0 \<and> cache_creation_input_tokens u = 0"

definition fold_usage :: "TokenUsage list \<Rightarrow> TokenUsage" where
  "fold_usage us = foldl usage_combine usage_ZERO us"

text \<open>The fields the serializer writes and the helper struct the deserializer reads.\<close>

definition usage_serialize :: "TokenUsage \<Rightarrow> (string \<times> u64) list" where
  "usage_serialize u =
     [(''promptTokens'', prompt_tokens u), (''completionTokens'', completion_tokens u),
      (''cacheReadInputTokens'', cache_read_input_tokens u),
      (''cacheCreationInputTokens'', cache_creation_input_tokens u),
      (''totalTokens'', usage_total u)]"

definition usage_deserialize :: "(string \<times> u64) list \<Rightarrow> (string, TokenUsage) result" where
  "usage_deserialize obj =
     (case map_of obj ''promptTokens'' of
        None \<Rightarrow> Err ''missing field promptTokens''
      | Some p \<Rightarrow>
          (case map_of obj ''completionTokens'' of
             None \<Rightarrow> Err ''missing field completionTokens''
           | Some c \<Rightarrow>
               Ok \<lparr>prompt_tokens = p, completion_tokens = c,
                   cache_read_input_tokens = unwrap_or 0 (map_of obj ''cacheReadInputTokens''),
                   cache_creation_input_tokens = unwrap_or 0 (map_of obj ''cacheCreationInputTokens'')\<rparr>))"

interpretation usage: Monoid_trait usage_combine usage_ZERO
  by unfold_locales (simp_all add: usage_combine_def usage_ZERO_def sat_add_assoc)

section \<open>Stream parts\<close>

datatype 'j ToolInvocationState = InvocationCall | InvocationResult 'j

record 'j ToolInvocationData =
  ti_id :: string
  ti_name :: string
  ti_args :: 'j
  ti_state :: "'j ToolInvocationState"

datatype ToolAgentState = AgentCall | AgentResult

record ToolAgentData =
  ta_agent_name :: string
  ta_invocation_id :: string
  ta_state :: ToolAgentState

record 'j ToolProgressData =
  tp_tool_name :: string
  tp_tool_call_id :: "string option"
  tp_label :: string
  tp_phase_index :: "8 word"
  tp_total_phases :: "8 word"
  tp_milestone :: "'j option"

datatype FinishReason = FinishStop | FinishToolCalls | FinishLength | FinishContentFilter

record AgentUsage =
  au_agent_name :: string
  au_model :: string
  au_usage :: TokenUsage

record CostSummary =
  cs_agents :: "AgentUsage list"

definition total_usage :: "CostSummary \<Rightarrow> TokenUsage" where
  "total_usage c = foldl usage_combine usage_ZERO (map au_usage (cs_agents c))"

record FileRegistration =
  fr_file_id :: string
  fr_filename :: string
  fr_thread_id :: string
  fr_timestamp :: datetime

record ErrorInfo =
  ei_message :: string
  ei_code :: "string option"

record CommandCardPayload =
  card_dsl :: string

datatype ('j, 'l) StreamPart =
    Text string
  | Reasoning string
  | StepStart
  | ToolInvocation "'j ToolInvocationData"
  | ToolAgent ToolAgentData
  | DataToolAgent AgentUsage
  | DataFileRegistered FileRegistration
  | DataCostSummary CostSummary
  | DataLatencySummary 'l
  | DataFlowUI CommandCardPayload
  | Finish FinishReason TokenUsage
  | ToolProgress "'j ToolProgressData"
  | ApprovalRequiredPart "'j ApprovalRequest"
  | ApprovalDecisionPart "'j ApprovalDecision"
  | PlanStatusChangePart PlanStatusChange
  | ErrorPart ErrorInfo
  | Custom string 'j

definition tool_call_part :: "string \<Rightarrow> string \<Rightarrow> 'j \<Rightarrow> ('j, 'l) StreamPart" where
  "tool_call_part i name args =
     ToolInvocation \<lparr>ti_id = i, ti_name = name, ti_args = args, ti_state = InvocationCall\<rparr>"

definition tool_result_part :: "string \<Rightarrow> string \<Rightarrow> 'j \<Rightarrow> 'j \<Rightarrow> ('j, 'l) StreamPart" where
  "tool_result_part i name args res =
     ToolInvocation \<lparr>ti_id = i, ti_name = name, ti_args = args, ti_state = InvocationResult res\<rparr>"

definition plan_status_change :: "string \<Rightarrow> string \<Rightarrow> string \<Rightarrow> ('j, 'l) StreamPart" where
  "plan_status_change pid from_st to_st =
     PlanStatusChangePart \<lparr>psc_plan_id = pid, psc_from = from_st, psc_to = to_st\<rparr>"

fun is_tool_call :: "('j, 'l) StreamPart \<Rightarrow> bool" where
  "is_tool_call (ToolInvocation d) = (case ti_state d of InvocationCall \<Rightarrow> True | InvocationResult _ \<Rightarrow> False)"
| "is_tool_call _ = False"

fun is_tool_result :: "('j, 'l) StreamPart \<Rightarrow> bool" where
  "is_tool_result (ToolInvocation d) = (case ti_state d of InvocationCall \<Rightarrow> False | InvocationResult _ \<Rightarrow> True)"
| "is_tool_result _ = False"

fun tool_invocation_id :: "('j, 'l) StreamPart \<Rightarrow> string option" where
  "tool_invocation_id (ToolInvocation d) = Some (ti_id d)"
| "tool_invocation_id (ToolAgent d) = Some (ta_invocation_id d)"
| "tool_invocation_id _ = None"

section \<open>Message parts\<close>

datatype MessagePartState = PartCall | PartResult

datatype 'j MessagePart =
    TextMsg string
  | ReasoningMsg string
  | ToolInvocationMsg string string 'j MessagePartState "'j option"
  | ToolAgentMsg string string MessagePartState
  | FlowUIMsg string
  | FileMsg string string

record 'j MessagePartAccumulator =
  acc_parts :: "'j MessagePart list"
  pending_text :: string
  pending_reasoning :: string
  plain_text :: string

definition accumulator_new :: "'j MessagePartAccumulator" where
  "accumulator_new = \<lparr>acc_parts = [], pending_text = [], pending_reasoning = [], plain_text = []\<rparr>"

definition flush_text :: "'j MessagePartAccumulator \<Rightarrow> 'j MessagePartAccumulator" where
  "flush_text a =
     (if pending_text a = [] then a
      else a\<lparr>acc_parts := acc_parts a @ [TextMsg (pending_text a)], pending_text := []\<rparr>)"

definition flush_reasoning :: "'j MessagePartAccumulator \<Rightarrow> 'j MessagePartAccumulator" where
  "flush_reasoning a =
     (if pending_reasoning a = [] then a
      else a\<lparr>acc_parts := acc_parts a @ [ReasoningMsg (pending_reasoning a)], pending_reasoning := []\<rparr>)"

definition push_part :: "'j MessagePart \<Rightarrow> 'j MessagePartAccumulator \<Rightarrow> 'j MessagePartAccumulator" where
  "push_part m a = a\<lparr>acc_parts := acc_parts a @ [m]\<rparr>"

definition invocation_msg :: "'j ToolInvocationData \<Rightarrow> 'j MessagePart" where
  "invocation_msg d =
     (let (st, res) = (case ti_state d of
            InvocationCall \<Rightarrow> (PartCall, None)
          | InvocationResult r \<Rightarrow> (PartResult, Some r))
      in ToolInvocationMsg (ti_id d) (ti_name d) (ti_args d) st res)"

definition agent_msg :: "ToolAgentData \<Rightarrow> 'j MessagePart" where
  "agent_msg d = ToolAgentMsg (ta_invocation_id d) (ta_agent_name d)
     (case ta_state d of AgentCall \<Rightarrow> PartCall | AgentResult \<Rightarrow> PartResult)"

fun accumulator_push :: "('j, 'l) StreamPart \<Rightarrow> 'j MessagePartAccumulator \<Rightarrow> 'j MessagePartAccumulator" where
  "accumulator_push (Text t) a =
     (let a' = flush_reasoning a
      in a'\<lparr>pending_text := pending_text a' @ t, plain_text := plain_text a' @ t\<rparr>)"
| "accumulator_push (Reasoning t) a =
     (let a' = flush_text a in a'\<lparr>pending_reasoning := pending_reasoning a' @ t\<rparr>)"
| "accumulator_push (ToolInvocation d) a = push_part (invocation_msg d) (flush_reasoning (flush_text a))"
| "accumulator_push (ToolAgent d) a = push_part (agent_msg d) a"
| "accumulator_push (DataFlowUI d) a = push_part (FlowUIMsg (card_dsl d)) (flush_reasoning (flush_text a))"
| "accumulator_push (DataFileRegistered d) a = push_part (FileMsg (fr_file_id d) (fr_filename d)) a"
| "accumulator_push _ a = a"

definition accumulator_finish :: "'j MessagePartAccumulator \<Rightarrow> 'j MessagePart list \<times> string" where
  "accumulator_finish a = (let a' = flush_reasoning (flush_text a) in (acc_parts a', plain_text a'))"

definition accumulate :: "('j, 'l) StreamPart list \<Rightarrow> 'j MessagePart list \<times> string" where
  "accumulate ps = accumulator_finish (fold accumulator_push ps accumulator_new)"

section \<open>Usage laws\<close>

text \<open>
  Token accounting: the cost summary's total is the saturated sum over the agents whatever the
  grouping, and a usage survives serialization, whose computed total is ignored on reading.
\<close>

theorem usage_accounting:
  "total_usage \<lparr>cs_agents = as @ bs\<rparr> =
     usage_combine (total_usage \<lparr>cs_agents = as\<rparr>) (total_usage \<lparr>cs_agents = bs\<rparr>) \<and>
   unat (prompt_tokens (total_usage \<lparr>cs_agents = as\<rparr>)) =
     min (sum_list (map (unat \<circ> prompt_tokens \<circ> au_usage) as)) (2 ^ 64 - 1) \<and>
   usage_deserialize (usage_serialize u) = Ok u \<and>
   (usage_is_zero u \<longleftrightarrow> u = usage_ZERO)"
proof (intro conjI)
  have split: "foldl usage_combine u us = usage_combine u (foldl usage_combine usage_ZERO us)" for u us
  proof (induction us arbitrary: u)
    case Nil
    show ?case by (simp add: usage.empty_right)
  next
    case (Cons v us)
    show ?case
      using Cons.IH [of "usage_combine u v"] Cons.IH [of v] Cons.IH [of "usage_combine usage_ZERO v"]
      by (simp add: usage.combine_assoc usage.empty_left)
  qed
  show "total_usage \<lparr>cs_agents = as @ bs\<rparr> =
      usage_combine (total_usage \<lparr>cs_agents = as\<rparr>) (total_usage \<lparr>cs_agents = bs\<rparr>)"
    using split [of "foldl usage_combine usage_ZERO (map au_usage as)"] by (simp add: total_usage_def)
  have "unat (prompt_tokens (foldl usage_combine u us)) =
      min (unat (prompt_tokens u) + sum_list (map (unat \<circ> prompt_tokens) us)) (2 ^ 64 - 1)" for u us
  proof (induction us arbitrary: u)
    case Nil
    have "unat (prompt_tokens u) < 2 ^ 64" using unsigned_less [of "prompt_tokens u"] by simp
    then show ?case by simp
  next
    case (Cons v us)
    then show ?case
      by (simp add: usage_combine_def unat_sat_add min_add_absorb add.assoc)
  qed
  from this [of usage_ZERO "map au_usage as"]
  show "unat (prompt_tokens (total_usage \<lparr>cs_agents = as\<rparr>)) =
      min (sum_list (map (unat \<circ> prompt_tokens \<circ> au_usage) as)) (2 ^ 64 - 1)"
    by (simp add: total_usage_def usage_ZERO_def comp_def)
  show "usage_deserialize (usage_serialize u) = Ok u"
    by (simp add: usage_deserialize_def usage_serialize_def)
  show "usage_is_zero u \<longleftrightarrow> u = usage_ZERO"
    by (cases u) (auto simp: usage_is_zero_def usage_ZERO_def)
qed

section \<open>What the accumulator keeps\<close>

fun part_text :: "('j, 'l) StreamPart \<Rightarrow> string" where
  "part_text (Text t) = t"
| "part_text _ = []"

fun part_reasoning :: "('j, 'l) StreamPart \<Rightarrow> string" where
  "part_reasoning (Reasoning t) = t"
| "part_reasoning _ = []"

fun msg_text :: "'j MessagePart \<Rightarrow> string" where
  "msg_text (TextMsg t) = t"
| "msg_text _ = []"

fun msg_reasoning :: "'j MessagePart \<Rightarrow> string" where
  "msg_reasoning (ReasoningMsg t) = t"
| "msg_reasoning _ = []"

text \<open>The message part one event stands for, if it is persisted at all.\<close>

fun item_of :: "('j, 'l) StreamPart \<Rightarrow> 'j MessagePart option" where
  "item_of (Text t) = Some (TextMsg t)"
| "item_of (Reasoning t) = Some (ReasoningMsg t)"
| "item_of (ToolInvocation d) = Some (invocation_msg d)"
| "item_of (ToolAgent d) = Some (agent_msg d)"
| "item_of (DataFlowUI d) = Some (FlowUIMsg (card_dsl d))"
| "item_of (DataFileRegistered d) = Some (FileMsg (fr_file_id d) (fr_filename d))"
| "item_of _ = None"

fun structural :: "'j MessagePart \<Rightarrow> bool" where
  "structural (TextMsg _) = False"
| "structural (ReasoningMsg _) = False"
| "structural _ = True"

lemma structural_msgs [simp]: "structural (invocation_msg d)" "structural (agent_msg d')"
  by (simp_all add: invocation_msg_def agent_msg_def split: ToolInvocationState.splits)

lemma structural_no_text [simp]: "structural m \<Longrightarrow> msg_text m = []" "structural m \<Longrightarrow> msg_reasoning m = []"
  by (cases m; simp)+

lemma map_filter_simps' [simp]:
  "List.map_filter f [] = []"
  "List.map_filter f (x # xs) = (case f x of None \<Rightarrow> List.map_filter f xs | Some y \<Rightarrow> y # List.map_filter f xs)"
  by (simp_all add: map_filter_def split: option.splits)

lemmas accumulator_defs = flush_text_def flush_reasoning_def push_part_def

lemma push_keeps:
  "plain_text (accumulator_push p a) = plain_text a @ part_text p"
  "concat (map msg_text (acc_parts (accumulator_push p a))) @ pending_text (accumulator_push p a) =
     concat (map msg_text (acc_parts a)) @ pending_text a @ part_text p"
  "concat (map msg_reasoning (acc_parts (accumulator_push p a))) @ pending_reasoning (accumulator_push p a) =
     concat (map msg_reasoning (acc_parts a)) @ pending_reasoning a @ part_reasoning p"
  "filter structural (acc_parts (accumulator_push p a)) =
     filter structural (acc_parts a) @ filter structural (List.map_filter item_of [p])"
  by (cases p; simp add: accumulator_defs Let_def)+

text \<open>
  Nothing is lost or invented: for every stream, the plain text is the concatenation of its
  text events, the text parts and the reasoning parts of the message concatenate to the text and
  the reasoning of the stream, and the tool, agent, card and file parts are those of the stream in
  its order.
\<close>

theorem accumulator_keeps_content:
  "let (parts, plain) = accumulate ps
   in plain = concat (map part_text ps) \<and> concat (map msg_text parts) = plain \<and>
      concat (map msg_reasoning parts) = concat (map part_reasoning ps) \<and>
      filter structural parts = filter structural (List.map_filter item_of ps)"
proof -
  let ?f = "fold accumulator_push ps"
  have "plain_text (?f a) = plain_text a @ concat (map part_text ps) \<and>
      concat (map msg_text (acc_parts (?f a))) @ pending_text (?f a) =
        concat (map msg_text (acc_parts a)) @ pending_text a @ concat (map part_text ps) \<and>
      concat (map msg_reasoning (acc_parts (?f a))) @ pending_reasoning (?f a) =
        concat (map msg_reasoning (acc_parts a)) @ pending_reasoning a @ concat (map part_reasoning ps) \<and>
      filter structural (acc_parts (?f a)) =
        filter structural (acc_parts a) @ filter structural (List.map_filter item_of ps)" for a
  proof (induction ps arbitrary: a)
    case (Cons p ps)
    show ?case
      using Cons.IH [of "accumulator_push p a"] push_keeps [of p a]
      by (auto simp del: accumulator_push.simps split: option.splits)
  qed simp
  from this [of accumulator_new] show ?thesis
    by (auto simp: accumulate_def accumulator_finish_def accumulator_new_def accumulator_defs Let_def)
qed

section \<open>Reference behaviour\<close>

text \<open>
  The reference: take the persisted events in order, join neighbouring texts and neighbouring
  reasoning texts, and drop the empty ones.
\<close>

fun add_part :: "'j MessagePart \<Rightarrow> 'j MessagePart list \<Rightarrow> 'j MessagePart list" where
  "add_part (TextMsg a) (TextMsg b # ms) = TextMsg (a @ b) # ms"
| "add_part (ReasoningMsg a) (ReasoningMsg b # ms) = ReasoningMsg (a @ b) # ms"
| "add_part m ms = m # ms"

definition merge_runs :: "'j MessagePart list \<Rightarrow> 'j MessagePart list" where
  "merge_runs ms = foldr add_part ms []"

definition nonempty_part :: "'j MessagePart \<Rightarrow> bool" where
  "nonempty_part m \<longleftrightarrow> m \<noteq> TextMsg [] \<and> m \<noteq> ReasoningMsg []"

definition reference_parts :: "('j, 'l) StreamPart list \<Rightarrow> 'j MessagePart list" where
  "reference_parts ps = filter nonempty_part (merge_runs (List.map_filter item_of ps))"

lemma merge_runs_Cons: "merge_runs (m # ms) = add_part m (merge_runs ms)"
  by (simp add: merge_runs_def)

lemma add_part_assoc:
  "add_part (TextMsg a) (add_part (TextMsg b) ms) = add_part (TextMsg (a @ b)) ms"
  "add_part (ReasoningMsg a) (add_part (ReasoningMsg b) ms) = add_part (ReasoningMsg (a @ b)) ms"
  by (cases ms; (cases "hd ms")?; simp)+

lemma add_part_split [simp]:
  "add_part (TextMsg a) (add_part (ReasoningMsg b) ms) = TextMsg a # add_part (ReasoningMsg b) ms"
  "add_part (ReasoningMsg a) (add_part (TextMsg b) ms) = ReasoningMsg a # add_part (TextMsg b) ms"
  by (cases ms; (cases "hd ms")?; simp)+

lemma add_part_structural [simp]:
  "structural m \<Longrightarrow> add_part m ms = m # ms"
  "structural m \<Longrightarrow> add_part x (m # ms) = x # m # ms"
  by (cases m; simp)+

lemma filter_empty_head [simp]:
  "filter nonempty_part (add_part (TextMsg []) ms) = filter nonempty_part ms"
  "filter nonempty_part (add_part (ReasoningMsg []) ms) = filter nonempty_part ms"
  by (cases ms; (cases "hd ms")?; simp add: nonempty_part_def)+

text \<open>The pending buffers as a part still open at its end; at most one of them is in use.\<close>

definition open_part :: "'j MessagePartAccumulator \<Rightarrow> 'j MessagePart list" where
  "open_part a = (if pending_text a \<noteq> [] then [TextMsg (pending_text a)]
     else if pending_reasoning a \<noteq> [] then [ReasoningMsg (pending_reasoning a)] else [])"

definition one_open :: "'j MessagePartAccumulator \<Rightarrow> bool" where
  "one_open a \<longleftrightarrow> pending_text a = [] \<or> pending_reasoning a = []"

fun flushing :: "('j, 'l) StreamPart \<Rightarrow> bool" where
  "flushing (ToolAgent _) = False"
| "flushing (DataFileRegistered _) = False"
| "flushing _ = True"

lemma push_reference:
  assumes "one_open a" "flushing p"
  shows "one_open (accumulator_push p a)"
    and "acc_parts (accumulator_push p a) @
      filter nonempty_part (merge_runs (open_part (accumulator_push p a) @ ms)) =
      acc_parts a @ filter nonempty_part (merge_runs (open_part a @ List.map_filter item_of [p] @ ms))"
proof -
  show "one_open (accumulator_push p a)"
    using assms by (cases p) (auto simp: one_open_def accumulator_defs Let_def)
  show "acc_parts (accumulator_push p a) @
      filter nonempty_part (merge_runs (open_part (accumulator_push p a) @ ms)) =
      acc_parts a @ filter nonempty_part (merge_runs (open_part a @ List.map_filter item_of [p] @ ms))"
    using assms
    by (cases p) (auto simp: one_open_def open_part_def accumulator_defs Let_def merge_runs_Cons
        add_part_assoc nonempty_part_def invocation_msg_def split: ToolInvocationState.splits)
qed

text \<open>
  C18. Equivalence with the reference: on a stream without sub-agent and file events, the buffered
  accumulator produces exactly the coalesced parts of the reference, so consecutive texts become
  one part, tool calls and cards are part boundaries, and nothing is reordered.
\<close>

theorem accumulator_matches_reference:
  assumes "list_all flushing ps"
  shows "fst (accumulate ps) = reference_parts ps"
proof -
  have "acc_parts (flush_reasoning (flush_text (fold accumulator_push ps a))) =
      acc_parts a @ filter nonempty_part (merge_runs (open_part a @ List.map_filter item_of ps))"
    if "one_open a" "list_all flushing ps" for a
    using that
  proof (induction ps arbitrary: a)
    case Nil
    then show ?case
      by (auto simp: one_open_def open_part_def accumulator_defs merge_runs_def nonempty_part_def)
  next
    case (Cons p ps)
    have "List.map_filter item_of (p # ps) = List.map_filter item_of [p] @ List.map_filter item_of ps"
      by (simp split: option.splits)
    with Cons.IH [of "accumulator_push p a"] push_reference(1) [of a p]
      push_reference(2) [of a p "List.map_filter item_of ps"] Cons.prems
    show ?case by simp
  qed
  from this [of accumulator_new] assms show ?thesis
    by (simp add: accumulate_def accumulator_finish_def reference_parts_def accumulator_new_def
        one_open_def open_part_def Let_def)
qed

theorem accumulator_matches_reference_witness:
  "fst (accumulate [Text ''a'', StepStart, Text ''b'', Reasoning ''r'', tool_call_part ''1'' ''t'' (0::nat),
      (Text ''c'' :: (nat, unit) StreamPart)]) =
   reference_parts [Text ''a'', StepStart, Text ''b'', Reasoning ''r'', tool_call_part ''1'' ''t'' (0::nat),
      (Text ''c'' :: (nat, unit) StreamPart)]"
  by (rule accumulator_matches_reference) (simp add: tool_call_part_def)

text \<open>
  Sub-agent and file events do not flush the buffers, so a text that came before such an event is
  persisted after it, joined with the text that follows.
\<close>

lemma agent_event_reorders_text:
  "accumulate [Text ''before'', ToolAgent d, Text ''after''] =
     ([agent_msg d, TextMsg ''beforeafter''], ''beforeafter'')"
  by (simp add: accumulate_def accumulator_finish_def accumulator_new_def accumulator_defs Let_def)

end
