(* ===== verification/Event_Sink.thy ===== *)
theory Event_Sink
  imports Stream_Part "HOL-Library.FSet"
begin

text \<open>
  Event sinks, \<open>crates/agent-fw-algebra/src/event_sink.rs\<close>: the sink interface as a record of
  operations over the sink's state, the validating and the tee combinators and the broadcast
  channel. The tokio broadcast sender behind the channel is represented by the sequence of events
  handed to it.
\<close>

section \<open>The interface\<close>

record ('k, 'j, 'l) EventSink =
  sink_emit :: "'k \<Rightarrow> ('j, 'l) StreamPart \<Rightarrow> bool \<times> 'k"
  sink_close :: "'k \<Rightarrow> 'k"
  sink_is_open :: "'k \<Rightarrow> bool"

definition emit_approval_required ::
  "('k, 'j, 'l) EventSink \<Rightarrow> 'k \<Rightarrow> 'j ApprovalRequest \<Rightarrow> bool \<times> 'k" where
  "emit_approval_required sink k req = sink_emit sink k (ApprovalRequiredPart req)"

definition emit_approval_decision ::
  "('k, 'j, 'l) EventSink \<Rightarrow> 'k \<Rightarrow> 'j ApprovalDecision \<Rightarrow> bool \<times> 'k" where
  "emit_approval_decision sink k d = sink_emit sink k (ApprovalDecisionPart d)"

definition emit_plan_status_change ::
  "('k, 'j, 'l) EventSink \<Rightarrow> 'k \<Rightarrow> string \<Rightarrow> string \<Rightarrow> string \<Rightarrow> bool \<times> 'k" where
  "emit_plan_status_change sink k pid from_st to_st = sink_emit sink k (plan_status_change pid from_st to_st)"

definition emit_all ::
  "('k, 'j, 'l) EventSink \<Rightarrow> ('j, 'l) StreamPart list \<Rightarrow> 'k \<Rightarrow> 'k" where
  "emit_all sink ps k = fold (\<lambda>p k. snd (sink_emit sink k p)) ps k"

section \<open>Broadcast channel\<close>

record ('j, 'l) BroadcastEventChannel =
  bc_sent :: "('j, 'l) StreamPart list"
  bc_open :: bool

definition broadcast_new :: "('j, 'l) BroadcastEventChannel" where
  "broadcast_new = \<lparr>bc_sent = [], bc_open = True\<rparr>"

definition broadcast_emit ::
  "('j, 'l) BroadcastEventChannel \<Rightarrow> ('j, 'l) StreamPart \<Rightarrow> bool \<times> ('j, 'l) BroadcastEventChannel" where
  "broadcast_emit k p = (if \<not> bc_open k then (False, k) else (True, k\<lparr>bc_sent := bc_sent k @ [p]\<rparr>))"

definition broadcast_close :: "('j, 'l) BroadcastEventChannel \<Rightarrow> ('j, 'l) BroadcastEventChannel" where
  "broadcast_close k = k\<lparr>bc_open := False\<rparr>"

definition broadcast_sink :: "(('j, 'l) BroadcastEventChannel, 'j, 'l) EventSink" where
  "broadcast_sink = \<lparr>sink_emit = broadcast_emit, sink_close = broadcast_close, sink_is_open = bc_open\<rparr>"

section \<open>Validating sink\<close>

record 'k ValidatingEventSink =
  v_inner :: 'k
  v_tool_calls :: "string fset"
  v_agent_calls :: "string fset"

definition validating_wrap :: "'k \<Rightarrow> 'k ValidatingEventSink" where
  "validating_wrap k = \<lparr>v_inner = k, v_tool_calls = {||}, v_agent_calls = {||}\<rparr>"

text \<open>
  The bookkeeping before the event is forwarded. An orphan result is reported by a log message
  (and by a failing \<open>debug_assert!\<close> in debug builds); the model is of the release build.
\<close>

fun validating_track :: "('j, 'l) StreamPart \<Rightarrow> 'k ValidatingEventSink \<Rightarrow> 'k ValidatingEventSink" where
  "validating_track (ToolInvocation d) v =
     (case ti_state d of
        InvocationCall \<Rightarrow> v\<lparr>v_tool_calls := finsert (ti_id d) (v_tool_calls v)\<rparr>
      | InvocationResult _ \<Rightarrow> v\<lparr>v_tool_calls := v_tool_calls v |-| {|ti_id d|}\<rparr>)"
| "validating_track (ToolAgent d) v =
     (case ta_state d of
        AgentCall \<Rightarrow> v\<lparr>v_agent_calls := finsert (ta_invocation_id d) (v_agent_calls v)\<rparr>
      | AgentResult \<Rightarrow> v\<lparr>v_agent_calls := v_agent_calls v |-| {|ta_invocation_id d|}\<rparr>)"
| "validating_track _ v = v"

definition validating_emit ::
  "('k, 'j, 'l) EventSink \<Rightarrow> 'k ValidatingEventSink \<Rightarrow> ('j, 'l) StreamPart \<Rightarrow>
   bool \<times> 'k ValidatingEventSink" where
  "validating_emit inner v p =
     (let v' = validating_track p v; (ok, k) = sink_emit inner (v_inner v') p
      in (ok, v'\<lparr>v_inner := k\<rparr>))"

definition validating_close :: "('k, 'j, 'l) EventSink \<Rightarrow> 'k ValidatingEventSink \<Rightarrow> 'k ValidatingEventSink" where
  "validating_close inner v = v\<lparr>v_inner := sink_close inner (v_inner v)\<rparr>"

definition validating_sink :: "('k, 'j, 'l) EventSink \<Rightarrow> ('k ValidatingEventSink, 'j, 'l) EventSink" where
  "validating_sink inner = \<lparr>sink_emit = validating_emit inner, sink_close = validating_close inner,
     sink_is_open = (\<lambda>v. sink_is_open inner (v_inner v))\<rparr>"

section \<open>Tee sink\<close>

record ('k, 'm) TeeEventSink =
  tee_primary :: 'k
  tee_parent :: 'm
  tee_agent_name :: string

text \<open>What an event becomes for the parent, if it is forwarded at all.\<close>

fun tee_forward :: "string \<Rightarrow> ('j, 'l) StreamPart \<Rightarrow> ('j, 'l) StreamPart option" where
  "tee_forward agent (ToolProgress d) =
     Some (ToolProgress (d\<lparr>tp_tool_name := agent @ ''/'' @ tp_tool_name d\<rparr>))"
| "tee_forward agent (DataFlowUI d) = Some (DataFlowUI d)"
| "tee_forward agent (ApprovalRequiredPart r) = Some (ApprovalRequiredPart r)"
| "tee_forward agent (ApprovalDecisionPart d) = Some (ApprovalDecisionPart d)"
| "tee_forward agent (PlanStatusChangePart c) = Some (PlanStatusChangePart c)"
| "tee_forward agent _ = None"

definition tee_emit ::
  "('k, 'j, 'l) EventSink \<Rightarrow> ('m, 'j, 'l) EventSink \<Rightarrow> ('k, 'm) TeeEventSink \<Rightarrow> ('j, 'l) StreamPart \<Rightarrow>
   bool \<times> ('k, 'm) TeeEventSink" where
  "tee_emit primary parent t p =
     (let (ok, k) = sink_emit primary (tee_primary t) p; t' = t\<lparr>tee_primary := k\<rparr>
      in case tee_forward (tee_agent_name t) p of
           None \<Rightarrow> (ok, t')
         | Some q \<Rightarrow> (ok, if sink_is_open parent (tee_parent t')
                         then t'\<lparr>tee_parent := snd (sink_emit parent (tee_parent t') q)\<rparr> else t'))"

definition tee_close :: "('k, 'j, 'l) EventSink \<Rightarrow> ('k, 'm) TeeEventSink \<Rightarrow> ('k, 'm) TeeEventSink" where
  "tee_close primary t = t\<lparr>tee_primary := sink_close primary (tee_primary t)\<rparr>"

definition tee_sink ::
  "('k, 'j, 'l) EventSink \<Rightarrow> ('m, 'j, 'l) EventSink \<Rightarrow> (('k, 'm) TeeEventSink, 'j, 'l) EventSink" where
  "tee_sink primary parent = \<lparr>sink_emit = tee_emit primary parent, sink_close = tee_close primary,
     sink_is_open = (\<lambda>t. sink_is_open primary (tee_primary t))\<rparr>"

lemma validating_track_inner [simp]: "v_inner (validating_track p v) = v_inner v"
  by (cases p) (auto split: ToolInvocationState.splits ToolAgentState.splits)

lemma validating_simps:
  "fst (sink_emit (validating_sink inner) v p) = fst (sink_emit inner (v_inner v) p)"
  "v_inner (snd (sink_emit (validating_sink inner) v p)) = snd (sink_emit inner (v_inner v) p)"
  "sink_is_open (validating_sink inner) v = sink_is_open inner (v_inner v)"
  "sink_close (validating_sink inner) v = v\<lparr>v_inner := sink_close inner (v_inner v)\<rparr>"
  by (simp_all add: validating_sink_def validating_emit_def validating_close_def Let_def case_prod_beta)

lemma tee_simps:
  "fst (sink_emit (tee_sink primary parent) t p) = fst (sink_emit primary (tee_primary t) p)"
  "tee_primary (snd (sink_emit (tee_sink primary parent) t p)) = snd (sink_emit primary (tee_primary t) p)"
  "sink_is_open (tee_sink primary parent) t = sink_is_open primary (tee_primary t)"
  "sink_close (tee_sink primary parent) t = t\<lparr>tee_primary := sink_close primary (tee_primary t)\<rparr>"
  by (simp_all add: tee_sink_def tee_emit_def tee_close_def Let_def case_prod_beta split: option.splits)

section \<open>Sink laws\<close>

text \<open>
  \<open>arrived\<close> is what the consumer of the sink has been given so far. The laws are order
  preservation (L2), closure (L4) and idempotent close (L5).
\<close>

locale EventSink_laws =
  fixes sink :: "('k, 'j, 'l) EventSink" and arrived :: "'k \<Rightarrow> ('j, 'l) StreamPart list"
  assumes emit_open: "sink_is_open sink k \<Longrightarrow> fst (sink_emit sink k p) \<and>
      sink_is_open sink (snd (sink_emit sink k p)) \<and> arrived (snd (sink_emit sink k p)) = arrived k @ [p]"
    and emit_closed: "\<not> sink_is_open sink k \<Longrightarrow> \<not> fst (sink_emit sink k p) \<and>
      \<not> sink_is_open sink (snd (sink_emit sink k p)) \<and> arrived (snd (sink_emit sink k p)) = arrived k"
    and close_closes: "\<not> sink_is_open sink (sink_close sink k) \<and> arrived (sink_close sink k) = arrived k"
    and close_idem: "sink_close sink (sink_close sink k) = sink_close sink k"
begin

lemma emit_all_open:
  "sink_is_open sink k \<Longrightarrow>
     sink_is_open sink (emit_all sink ps k) \<and> arrived (emit_all sink ps k) = arrived k @ ps"
proof (induction ps arbitrary: k)
  case (Cons p ps)
  with emit_open [of k p] show ?case by (simp add: emit_all_def)
qed (simp add: emit_all_def)

lemma emit_all_closed:
  "\<not> sink_is_open sink k \<Longrightarrow>
     \<not> sink_is_open sink (emit_all sink ps k) \<and> arrived (emit_all sink ps k) = arrived k"
proof (induction ps arbitrary: k)
  case (Cons p ps)
  with emit_closed [of k p] show ?case by (simp add: emit_all_def)
qed (simp add: emit_all_def)

lemma validating_laws: "EventSink_laws (validating_sink sink) (\<lambda>v. arrived (v_inner v))"
  using emit_open emit_closed close_closes close_idem
  by unfold_locales (simp_all add: validating_simps)

lemma tee_laws: "EventSink_laws (tee_sink sink parent) (\<lambda>t. arrived (tee_primary t))"
  using emit_open emit_closed close_closes close_idem
  by unfold_locales (simp_all add: tee_simps)

end

interpretation broadcast: EventSink_laws broadcast_sink bc_sent
  by unfold_locales (auto simp: broadcast_sink_def broadcast_emit_def broadcast_close_def split: if_splits)

interpretation validated: EventSink_laws "validating_sink broadcast_sink" "\<lambda>v. bc_sent (v_inner v)"
  by (rule broadcast.validating_laws)

interpretation tee: EventSink_laws "tee_sink broadcast_sink parent" "\<lambda>t. bc_sent (tee_primary t)" for parent
  by (rule broadcast.tee_laws)

section \<open>Properties\<close>

lemma tee_parent_emit:
  "bc_open (tee_parent t) \<Longrightarrow>
     bc_open (tee_parent (snd (sink_emit (tee_sink primary broadcast_sink) t p))) \<and>
     tee_agent_name (snd (sink_emit (tee_sink primary broadcast_sink) t p)) = tee_agent_name t \<and>
     bc_sent (tee_parent (snd (sink_emit (tee_sink primary broadcast_sink) t p))) =
       bc_sent (tee_parent t) @ List.map_filter (tee_forward (tee_agent_name t)) [p]"
  by (auto simp: tee_sink_def tee_emit_def Let_def case_prod_beta broadcast_sink_def broadcast_emit_def
      split: option.splits)

text \<open>
  The tee laws: every event reaches the primary sink in order whether or not the parent is
  open, a closed primary accepts nothing, and an open parent receives, in order, exactly the
  progress, card, approval and plan-status events, with progress events scoped by the agent name
  and the approval events unchanged.
\<close>

theorem tee_sink_forwards:
  "bc_sent (tee_primary (emit_all (tee_sink broadcast_sink broadcast_sink) ps t)) =
     bc_sent (tee_primary t) @ (if bc_open (tee_primary t) then ps else []) \<and>
   bc_sent (tee_parent (emit_all (tee_sink broadcast_sink broadcast_sink) ps t)) =
     bc_sent (tee_parent t) @
       (if bc_open (tee_parent t) then List.map_filter (tee_forward (tee_agent_name t)) ps else [])"
proof
  show "bc_sent (tee_primary (emit_all (tee_sink broadcast_sink broadcast_sink) ps t)) =
      bc_sent (tee_primary t) @ (if bc_open (tee_primary t) then ps else [])"
    using tee.emit_all_open [of broadcast_sink t ps] tee.emit_all_closed [of broadcast_sink t ps]
    by (simp add: tee_simps broadcast_sink_def)
  have closed: "\<not> bc_open (tee_parent t) \<Longrightarrow>
      tee_parent (emit_all (tee_sink broadcast_sink broadcast_sink) ps t) = tee_parent t"
  proof (induction ps arbitrary: t)
    case (Cons p ps)
    have "tee_parent (snd (sink_emit (tee_sink broadcast_sink broadcast_sink) t p)) = tee_parent t"
      using Cons.prems
      by (simp add: tee_sink_def tee_emit_def Let_def case_prod_beta broadcast_sink_def split: option.splits)
    with Cons show ?case by (simp add: emit_all_def)
  qed (simp add: emit_all_def)
  have "bc_open (tee_parent t) \<Longrightarrow>
      bc_sent (tee_parent (emit_all (tee_sink broadcast_sink broadcast_sink) ps t)) =
      bc_sent (tee_parent t) @ List.map_filter (tee_forward (tee_agent_name t)) ps"
  proof (induction ps arbitrary: t)
    case (Cons p ps)
    with tee_parent_emit [of t broadcast_sink p] show ?case
      by (simp add: emit_all_def split: option.splits)
  qed (simp add: emit_all_def)
  with closed show "bc_sent (tee_parent (emit_all (tee_sink broadcast_sink broadcast_sink) ps t)) =
      bc_sent (tee_parent t) @
        (if bc_open (tee_parent t) then List.map_filter (tee_forward (tee_agent_name t)) ps else [])"
    by simp
qed

text \<open>The call an id is waiting on: the last tool event of the id, if it was a call.\<close>

fun last_tool_state :: "string \<Rightarrow> ('j, 'l) StreamPart list \<Rightarrow> bool" where
  "last_tool_state i [] = False"
| "last_tool_state i (p # ps) =
     (if is_tool_call p \<and> tool_invocation_id p = Some i then True
      else if is_tool_result p \<and> tool_invocation_id p = Some i then False
      else last_tool_state i ps)"

text \<open>
  The validating sink is transparent and exact: the inner sink receives the events unchanged
  and in order, and the set of unresolved tool calls it keeps is exactly the ids whose most recent
  tool event was a call.
\<close>

theorem validating_sink_tracks_calls:
  "bc_sent (v_inner (emit_all (validating_sink broadcast_sink) ps (validating_wrap broadcast_new))) = ps \<and>
   (i |\<in>| v_tool_calls (emit_all (validating_sink broadcast_sink) ps (validating_wrap broadcast_new)) \<longleftrightarrow>
      last_tool_state i (rev ps))"
proof
  show "bc_sent (v_inner (emit_all (validating_sink broadcast_sink) ps (validating_wrap broadcast_new))) = ps"
    using validated.emit_all_open [of "validating_wrap broadcast_new" ps]
    by (simp add: validating_simps validating_wrap_def broadcast_new_def broadcast_sink_def)
  have calls: "v_tool_calls (snd (sink_emit (validating_sink broadcast_sink) v p)) =
      v_tool_calls (validating_track p v)" for v p
    by (simp add: validating_sink_def validating_emit_def Let_def case_prod_beta)
  show "i |\<in>| v_tool_calls (emit_all (validating_sink broadcast_sink) ps (validating_wrap broadcast_new)) \<longleftrightarrow>
      last_tool_state i (rev ps)"
  proof (induction ps rule: rev_induct)
    case Nil
    show ?case by (simp add: emit_all_def validating_wrap_def)
  next
    case (snoc p ps)
    let ?v = "emit_all (validating_sink broadcast_sink) ps (validating_wrap broadcast_new)"
    have "i |\<in>| v_tool_calls (validating_track p ?v) \<longleftrightarrow> last_tool_state i (p # rev ps)"
      using snoc by (cases p) (auto split: ToolInvocationState.splits ToolAgentState.splits)
    then show ?case by (simp add: emit_all_def calls)
  qed
qed

end
