(* ===== verification/Plan_Executor.thy ===== *)
theory Plan_Executor
  imports Plan_Persist Kv_Approval_Store Event_Sink
begin

text \<open>
  Plan execution, \<open>crates/agent-fw-plan/src/executor.rs\<close>: the plain executor (load, validate, start,
  dispatch, complete or fail) and the approval-gated one in front of it.

  The dispatcher is code of the application: it is a parameter that transforms the state of the
  target system. While the gate waits for the host, other tasks run: \<open>gated_execute\<close> takes what
  happens during the wait as a parameter that may change the whole world and tells which branch
  of the \<open>select!\<close> fired. A fresh UUID and the readings of the clock are arguments.
\<close>

section \<open>The plain executor\<close>

type_synonym ('d, 'a, 'c, 'e, 'j) dispatcher =
  "'d \<Rightarrow> 'a ActionSeq \<Rightarrow> 'c \<Rightarrow> ('e, 'j ExecutionResult) result \<times> 'd"

datatype 'e PlanExecutionError =
    ExecNotFound PlanId
  | ExecInvalidState PlanStatus
  | ExecKv KVError
  | ExecDispatch 'e
  | ExecSerde string
  | ExecTransition TransitionError

record ('s, 'd, 'a, 'c, 'e, 'j) PlanExecutor =
  px_kv :: "('s, 'j) KVStore"
  px_serde :: "('a, 'j) plan_serde"
  px_tenant :: TenantId
  px_dispatch :: "('d, 'a, 'c, 'e, 'j) dispatcher"
  px_show_error :: "'e \<Rightarrow> string"
  px_prefix :: string

definition exec_put ::
  "('s, 'd, 'a, 'c, 'e, 'j) PlanExecutor \<Rightarrow> 's \<Rightarrow> string \<Rightarrow> ('a, 'j) Plan \<Rightarrow>
   (KVError, unit) result \<times> 's" where
  "exec_put px s key p = kv_put (px_kv px) (px_serde px) s (tenant_str (px_tenant px)) key p None"

text \<open>The last step of \<open>execute\<close>: record the outcome of the dispatch and store the plan.\<close>

definition exec_finish ::
  "('s, 'd, 'a, 'c, 'e, 'j) PlanExecutor \<Rightarrow> datetime \<Rightarrow> string \<Rightarrow> ('a, 'j) Plan \<Rightarrow>
   ('e, 'j ExecutionResult) result \<Rightarrow> 's \<Rightarrow>
   ('e PlanExecutionError, 'j ExecutionResult) result \<times> 's" where
  "exec_finish px now key p outcome_of s =
     (case outcome_of of
        Ok res \<Rightarrow>
          (case complete now res p of
             Err rej \<Rightarrow> (Err (ExecTransition (rejected_error rej)), s)
           | Ok p' \<Rightarrow>
               (case exec_put px s key p' of
                  (Err e, s') \<Rightarrow> (Err (ExecKv e), s')
                | (Ok _, s') \<Rightarrow> (Ok res, s')))
      | Err e \<Rightarrow>
          (case fail now (plan_error_new (px_show_error px e)) p of
             Err rej \<Rightarrow> (Err (ExecTransition (rejected_error rej)), s)
           | Ok p' \<Rightarrow>
               (case exec_put px s key p' of
                  (Err e', s') \<Rightarrow> (Err (ExecKv e'), s')
                | (Ok _, s') \<Rightarrow> (Err (ExecDispatch e), s'))))"

definition exec_plan ::
  "('s, 'd, 'a, 'c, 'e, 'j) PlanExecutor \<Rightarrow> datetime \<Rightarrow> datetime \<Rightarrow> PlanId \<Rightarrow> 'c \<Rightarrow> 's \<Rightarrow> 'd \<Rightarrow>
   ('e PlanExecutionError, 'j ExecutionResult) result \<times> 's \<times> 'd" where
  "exec_plan px now now' pid ctx s d =
     (let key = plan_key (px_prefix px) pid
      in case kv_get (px_kv px) (px_serde px) s (tenant_str (px_tenant px)) key of
           (Err e, s1) \<Rightarrow> (Err (ExecKv e), s1, d)
         | (Ok None, s1) \<Rightarrow> (Err (ExecNotFound pid), s1, d)
         | (Ok (Some p), s1) \<Rightarrow>
             if status p \<noteq> Approved then (Err (ExecInvalidState (status p)), s1, d)
             else
               (case start now p of
                  Err rej \<Rightarrow> (Err (ExecTransition (rejected_error rej)), s1, d)
                | Ok p1 \<Rightarrow>
                    (case exec_put px s1 key p1 of
                       (Err e, s2) \<Rightarrow> (Err (ExecKv e), s2, d)
                     | (Ok _, s2) \<Rightarrow>
                         (case px_dispatch px d (actions p1) ctx of
                            (out, d') \<Rightarrow>
                              (case exec_finish px now' key p1 out s2 of (r, s3) \<Rightarrow> (r, s3, d'))))))"

section \<open>The gated executor\<close>

datatype ('e, 'j) GatedExecutionError =
    GateRejected PlanId string
  | GateRevise PlanId 'j "string option"
  | GateCancelled PlanId
  | GateEventSinkClosed PlanId
  | GateApproval ApprovalError
  | GateExecution "'e PlanExecutionError"

text \<open>The two methods of the approval store the gate calls.\<close>

record ('p, 'j) PendingApprovalStore =
  store_register :: "'p \<Rightarrow> 'j ApprovalRequest \<Rightarrow> (ApprovalError, chan) result \<times> 'p"
  store_expire :: "'p \<Rightarrow> ApprovalId \<Rightarrow> ExpireReason \<Rightarrow> (ApprovalError, unit) result \<times> 'p"

record ('s, 'd, 'a, 'c, 'e, 'j, 'k, 'l, 'p) GatedPlanExecutor =
  gx_inner :: "('s, 'd, 'a, 'c, 'e, 'j) PlanExecutor"
  gx_sink :: "('k, 'j, 'l) EventSink"
  gx_store :: "('p, 'j) PendingApprovalStore"
  gx_approver :: UserId
  gx_thread :: ThreadId

text \<open>The shared state the gate and the other tasks act on.\<close>

record ('s, 'd, 'k, 'p) gate_world =
  gw_kv :: 's
  gw_sys :: 'd
  gw_sink :: 'k
  gw_store :: 'p

datatype 'j select_outcome = Decided "'j settlement" | CancelFired

definition gate_request ::
  "('s, 'd, 'a, 'c, 'e, 'j, 'k, 'l, 'p) GatedPlanExecutor \<Rightarrow> ApprovalId \<Rightarrow> PlanId \<Rightarrow> 'j \<Rightarrow> 'j ApprovalRequest" where
  "gate_request gx approval_id pid payload =
     \<lparr>req_id = approval_id, req_kind = PlanKind, req_target = plan_id_str pid, req_payload = payload,
      req_glimpse = None, req_resource_id = px_tenant (gx_inner gx), req_thread_id = gx_thread gx,
      req_correlation_id = Some (plan_id_str pid)\<rparr>"

definition gate_expire ::
  "('s, 'd, 'a, 'c, 'e, 'j, 'k, 'l, 'p) GatedPlanExecutor \<Rightarrow> ApprovalId \<Rightarrow> ExpireReason \<Rightarrow>
   ('s, 'd, 'k, 'p) gate_world \<Rightarrow> ('s, 'd, 'k, 'p) gate_world" where
  "gate_expire gx i reason w = w\<lparr>gw_store := snd (store_expire (gx_store gx) (gw_store w) i reason)\<rparr>"

text \<open>An emission: whether it was accepted, and the world after it.\<close>

definition gate_emit ::
  "('s, 'd, 'a, 'c, 'e, 'j, 'k, 'l, 'p) GatedPlanExecutor \<Rightarrow> ('j, 'l) StreamPart \<Rightarrow>
   ('s, 'd, 'k, 'p) gate_world \<Rightarrow> bool \<times> ('s, 'd, 'k, 'p) gate_world" where
  "gate_emit gx part w =
     (let (ok, k) = sink_emit (gx_sink gx) (gw_sink w) part in (ok, w\<lparr>gw_sink := k\<rparr>))"

text \<open>Delegation to the inner executor.\<close>

definition gate_delegate ::
  "('s, 'd, 'a, 'c, 'e, 'j, 'k, 'l, 'p) GatedPlanExecutor \<Rightarrow> datetime \<Rightarrow> datetime \<Rightarrow> PlanId \<Rightarrow> 'c \<Rightarrow>
   ('s, 'd, 'k, 'p) gate_world \<Rightarrow>
   (('e, 'j) GatedExecutionError, 'j ExecutionResult) result \<times> ('s, 'd, 'k, 'p) gate_world" where
  "gate_delegate gx now now' pid ctx w =
     (case exec_plan (gx_inner gx) now now' pid ctx (gw_kv w) (gw_sys w) of
        (r, s, d) \<Rightarrow> (map_err GateExecution r, w\<lparr>gw_kv := s, gw_sys := d\<rparr>))"

text \<open>Steps 1 to 3: everything before the wait. \<open>Inr\<close> is a gate that is now open, with its plan.\<close>

definition gate_open ::
  "('s, 'd, 'a, 'c, 'e, 'j, 'k, 'l, 'p) GatedPlanExecutor \<Rightarrow> ApprovalId \<Rightarrow> datetime \<Rightarrow> datetime \<Rightarrow> PlanId \<Rightarrow>
   'c \<Rightarrow> ('s, 'd, 'k, 'p) gate_world \<Rightarrow>
   ((('e, 'j) GatedExecutionError, 'j ExecutionResult) result + ('a, 'j) Plan) \<times>
   ('s, 'd, 'k, 'p) gate_world" where
  "gate_open gx approval_id now now' pid ctx w =
     (let px = gx_inner gx; key = plan_key (px_prefix px) pid
      in case kv_get (px_kv px) (px_serde px) (gw_kv w) (tenant_str (px_tenant px)) key of
           (Err e, s) \<Rightarrow> (Inl (Err (GateExecution (ExecKv e))), w\<lparr>gw_kv := s\<rparr>)
         | (Ok None, s) \<Rightarrow> (Inl (Err (GateExecution (ExecNotFound pid))), w\<lparr>gw_kv := s\<rparr>)
         | (Ok (Some p), s) \<Rightarrow>
             let w = w\<lparr>gw_kv := s\<rparr> in
             if status p \<noteq> Draft then
               (case gate_delegate gx now now' pid ctx w of (r, w') \<Rightarrow> (Inl r, w'))
             else
               (case to_value (px_serde px) p of
                  Err e \<Rightarrow> (Inl (Err (GateExecution (ExecSerde e))), w)
                | Ok payload \<Rightarrow>
                    let request = gate_request gx approval_id pid payload in
                    (case store_register (gx_store gx) (gw_store w) request of
                       (Err e, st) \<Rightarrow> (Inl (Err (GateApproval e)), w\<lparr>gw_store := st\<rparr>)
                     | (Ok _, st) \<Rightarrow>
                         (case gate_emit gx (ApprovalRequiredPart request) (w\<lparr>gw_store := st\<rparr>) of
                            (False, w1) \<Rightarrow> (Inl (Err (GateEventSinkClosed pid)),
                              gate_expire gx approval_id HostShutdown w1)
                          | (True, w1) \<Rightarrow>
                              (case gate_emit gx (plan_status_change (plan_id_str pid) ''draft'' ''pending_approval'') w1 of
                                 (False, w2) \<Rightarrow> (Inl (Err (GateEventSinkClosed pid)),
                                   gate_expire gx approval_id HostShutdown w2)
                               | (True, w2) \<Rightarrow> (Inr p, w2))))))"

text \<open>Step 5: the decision is dispatched; emissions are best effort now.\<close>

definition gate_decide ::
  "('s, 'd, 'a, 'c, 'e, 'j, 'k, 'l, 'p) GatedPlanExecutor \<Rightarrow> datetime \<Rightarrow> datetime \<Rightarrow> datetime \<Rightarrow> PlanId \<Rightarrow>
   'c \<Rightarrow> ('a, 'j) Plan \<Rightarrow> 'j ApprovalDecision \<Rightarrow> ('s, 'd, 'k, 'p) gate_world \<Rightarrow>
   (('e, 'j) GatedExecutionError, 'j ExecutionResult) result \<times> ('s, 'd, 'k, 'p) gate_world" where
  "gate_decide gx t_approve now now' pid ctx p d w =
     (let px = gx_inner gx; key = plan_key (px_prefix px) pid;
          announce = (\<lambda>to_st w. snd (gate_emit gx (plan_status_change (plan_id_str pid) ''pending_approval'' to_st)
            (snd (gate_emit gx (ApprovalDecisionPart d) w))))
      in case dec_outcome d of
           OutcomeApprove \<Rightarrow>
             (let w1 = announce ''approved'' w in
              case approve t_approve (gx_approver gx) p of
                Err rej \<Rightarrow> (Err (GateExecution (ExecTransition (rejected_error rej))), w1)
              | Ok approved \<Rightarrow>
                  (case exec_put px (gw_kv w1) key approved of
                     (Err e, s) \<Rightarrow> (Err (GateExecution (ExecKv e)), w1\<lparr>gw_kv := s\<rparr>)
                   | (Ok _, s) \<Rightarrow> gate_delegate gx now now' pid ctx (w1\<lparr>gw_kv := s\<rparr>)))
         | OutcomeReject \<Rightarrow>
             (Err (GateRejected pid (unwrap_or ''Plan rejected'' (dec_feedback d))), announce ''draft'' w)
         | OutcomeRevise partial \<Rightarrow>
             (Err (GateRevise pid partial (dec_feedback d)), announce ''draft'' w))"

definition gated_execute ::
  "('s, 'd, 'a, 'c, 'e, 'j, 'k, 'l, 'p) GatedPlanExecutor \<Rightarrow> ApprovalId \<Rightarrow>
   datetime \<Rightarrow> datetime \<Rightarrow> datetime \<Rightarrow> PlanId \<Rightarrow> 'c \<Rightarrow>
   (('s, 'd, 'k, 'p) gate_world \<Rightarrow> 'j select_outcome \<times> ('s, 'd, 'k, 'p) gate_world) \<Rightarrow>
   ('s, 'd, 'k, 'p) gate_world \<Rightarrow>
   (('e, 'j) GatedExecutionError, 'j ExecutionResult) result \<times> ('s, 'd, 'k, 'p) gate_world" where
  "gated_execute gx approval_id t_approve now now' pid ctx wait w =
     (case gate_open gx approval_id now now' pid ctx w of
        (Inl r, w1) \<Rightarrow> (r, w1)
      | (Inr p, w1) \<Rightarrow>
          (case wait w1 of
             (CancelFired, w2) \<Rightarrow> (Err (GateCancelled pid), gate_expire gx approval_id Cancelled w2)
           | (Decided (Err e), w2) \<Rightarrow> (Err (GateApproval e), w2)
           | (Decided (Ok d), w2) \<Rightarrow> gate_decide gx t_approve now now' pid ctx p d w2))"

section \<open>Executor laws\<close>

text \<open>What the executor finds under a plan id.\<close>

definition stored_plan ::
  "('s, 'd, 'a, 'c, 'e, 'j) PlanExecutor \<Rightarrow> 's \<Rightarrow> PlanId \<Rightarrow> (KVError, ('a, 'j) Plan option) result" where
  "stored_plan px s pid =
     fst (kv_get (px_kv px) (px_serde px) s (tenant_str (px_tenant px)) (plan_key (px_prefix px) pid))"

definition dispatch_cmd :: "('e \<Rightarrow> string) \<Rightarrow> ('e, 'j ExecutionResult) result \<Rightarrow> 'j plan_cmd" where
  "dispatch_cmd show_err out = (case out of Ok res \<Rightarrow> Complete res | Err e \<Rightarrow> Fail (plan_error_new (show_err e)))"

lemma dashmap_exec_put:
  assumes "px_kv px = dashmap_kv" "serde_total (px_serde px)" "serde_roundtrip (px_serde px)"
  obtains s' where "exec_put px s (plan_key (px_prefix px) pid) p = (Ok (), s')"
    "stored_plan px s' pid = Ok (Some p)"
proof -
  obtain r s' where put: "kv_put dashmap_kv (px_serde px) s (tenant_str (px_tenant px))
      (plan_key (px_prefix px) pid) p None = (r, s')" by fastforce
  have "r = Ok ()" using dashmap.typed_put [OF put assms(2)] by metis
  with put assms dashmap.get_after_put [OF put assms(2,3) refl] that show ?thesis
    by (simp add: exec_put_def stored_plan_def)
qed

lemma dashmap_stored_get:
  assumes "px_kv px = dashmap_kv" "stored_plan px s pid = r"
  obtains s1 where "kv_get (px_kv px) (px_serde px) s (tenant_str (px_tenant px))
      (plan_key (px_prefix px) pid) = (r, s1)" "stored_plan px s1 pid = r"
proof -
  let ?get = "\<lambda>s. kv_get dashmap_kv (px_serde px) s (tenant_str (px_tenant px)) (plan_key (px_prefix px) pid)"
  obtain r1 s1 where get: "?get s = (r1, s1)" by fastforce
  obtain r2 s2 where get1: "?get s1 = (r2, s2)" by fastforce
  from dashmap.typed_get [OF get] dashmap.typed_get(2) [OF get1] have "r2 = r1" by simp
  with get get1 assms that show ?thesis by (simp add: stored_plan_def)
qed

lemma start_approved:
  assumes "status p = Approved"
  obtains q where "start now p = Ok q" "status q = Executing" "actions q = actions p"
  using assms by (simp add: start_def)

lemma exec_finish_dispatch:
  assumes "status q = Executing"
    and "exec_put px s key (held_plan (transition t (dispatch_cmd (px_show_error px) out) q)) = (Ok (), s')"
  shows "exec_finish px t key q out s = (map_err ExecDispatch out, s')"
proof (cases out)
  case (Inl e)
  with assms have "exec_put px s key (held_plan (fail t (plan_error_new (px_show_error px e)) q)) = (Ok (), s')"
    by (simp add: dispatch_cmd_def)
  with assms(1) Inl show ?thesis by (simp add: exec_finish_def fail_def held_plan_def)
next
  case (Inr res)
  with assms have "exec_put px s key (held_plan (complete t res q)) = (Ok (), s')"
    by (simp add: dispatch_cmd_def)
  with assms(1) Inr show ?thesis by (simp add: exec_finish_def complete_def held_plan_def)
qed

lemma exec_plan_approved:
  assumes "px_kv px = dashmap_kv" "serde_total (px_serde px)" "serde_roundtrip (px_serde px)"
    and "stored_plan px s pid = Ok (Some p)" "status p = Approved"
    and "px_dispatch px d (actions p) ctx = (out, d1)"
  obtains s' where "exec_plan px now now' pid ctx s d = (map_err ExecDispatch out, s', d1)"
    "stored_plan px s' pid = Ok (Some (run_plan [(now, Start), (now', dispatch_cmd (px_show_error px) out)] p))"
proof -
  let ?key = "plan_key (px_prefix px) pid"
  obtain s1 where get: "kv_get (px_kv px) (px_serde px) s (tenant_str (px_tenant px)) ?key = (Ok (Some p), s1)"
    using dashmap_stored_get [OF assms(1,4)] by metis
  obtain q where q: "start now p = Ok q" "status q = Executing" "actions q = actions p"
    using start_approved [OF assms(5)] .
  let ?q = "held_plan (transition now' (dispatch_cmd (px_show_error px) out) q)"
  obtain s2 where s2: "exec_put px s1 ?key q = (Ok (), s2)"
    using dashmap_exec_put [OF assms(1-3)] by metis
  obtain s3 where s3: "exec_put px s2 ?key ?q = (Ok (), s3)" "stored_plan px s3 pid = Ok (Some ?q)"
    using dashmap_exec_put [OF assms(1-3)] by metis
  have "exec_finish px now' ?key q out s2 = (map_err ExecDispatch out, s3)"
    by (rule exec_finish_dispatch [OF q(2) s3(1)])
  then have "exec_plan px now now' pid ctx s d = (map_err ExecDispatch out, s3, d1)"
    using get assms(5,6) q s2 by (simp add: exec_plan_def Let_def)
  moreover have "run_plan [(now, Start), (now', dispatch_cmd (px_show_error px) out)] p = ?q"
    using q(1) by (simp add: held_plan_def [of "Ok q"])
  ultimately show ?thesis using that s3(2) by simp
qed

text \<open>
  C16. The execution lifecycle over the in-memory store: a stored plan that is not approved is
  refused with its status and nothing is dispatched or changed; an approved plan is dispatched
  exactly once with its full action sequence, the caller gets the dispatcher's result, and the
  stored plan is the one after starting and then completing, or failing with the printed error.
\<close>

theorem exec_plan_lifecycle:
  assumes "px_kv px = dashmap_kv" "serde_total (px_serde px)" "serde_roundtrip (px_serde px)"
    and "stored_plan px s pid = Ok (Some p)"
  shows "let (r, s', d') = exec_plan px now now' pid ctx s d; (out, d1) = px_dispatch px d (actions p) ctx
    in if status p = Approved
       then d' = d1 \<and> r = map_err ExecDispatch out \<and>
         stored_plan px s' pid =
           Ok (Some (run_plan [(now, Start), (now', dispatch_cmd (px_show_error px) out)] p))
       else d' = d \<and> r = Err (ExecInvalidState (status p)) \<and> stored_plan px s' pid = Ok (Some p)"
proof -
  obtain s1 where get: "kv_get (px_kv px) (px_serde px) s (tenant_str (px_tenant px))
      (plan_key (px_prefix px) pid) = (Ok (Some p), s1)" "stored_plan px s1 pid = Ok (Some p)"
    using dashmap_stored_get [OF assms(1,4)] by metis
  obtain out d1 where out: "px_dispatch px d (actions p) ctx = (out, d1)" by fastforce
  show ?thesis
  proof (cases "status p = Approved")
    case False
    with get out show ?thesis by (simp add: exec_plan_def Let_def)
  next
    case True
    obtain s' where "exec_plan px now now' pid ctx s d = (map_err ExecDispatch out, s', d1)"
      "stored_plan px s' pid = Ok (Some (run_plan [(now, Start), (now', dispatch_cmd (px_show_error px) out)] p))"
      using exec_plan_approved [OF assms True out] .
    with True out show ?thesis by (simp del: run_plan.simps)
  qed
qed

definition counting_px :: "(nat DashMapKVStore, nat, nat, unit, string, nat) PlanExecutor" where
  "counting_px = \<lparr>px_kv = dashmap_kv, px_serde = plan_nat_serde, px_tenant = TenantId ''t'',
     px_dispatch = (\<lambda>d acts ctx. (Ok \<lparr>entities_affected = action_seq_len acts, result_summary = None,
       result_details = None\<rparr>, Suc d)), px_show_error = id, px_prefix = ''plan''\<rparr>"

definition sample_plan :: "(nat, nat) Plan" where
  "sample_plan = create_plan 0 (PlanId ''p'') (TenantId ''t'') (single_action 7)"

definition sample_kv :: "(nat, nat) Plan \<Rightarrow> nat DashMapKVStore" where
  "sample_kv p = snd (exec_put counting_px (dashmap_new 0) (plan_key ''plan'' (PlanId ''p'')) p)"

lemma counting_px_simps [simp]:
  "px_kv counting_px = dashmap_kv" "px_serde counting_px = plan_nat_serde" "px_prefix counting_px = ''plan''"
  "px_tenant counting_px = TenantId ''t''" "snd (px_dispatch counting_px d acts ctx) = Suc d"
  by (simp_all add: counting_px_def)

lemma sample_kv_stored [simp]: "stored_plan counting_px (sample_kv p) (PlanId ''p'') = Ok (Some p)"
proof -
  obtain s' where "exec_put counting_px (dashmap_new 0) (plan_key (px_prefix counting_px) (PlanId ''p'')) p = (Ok (), s')"
    "stored_plan counting_px s' (PlanId ''p'') = Ok (Some p)"
    by (rule dashmap_exec_put [of counting_px "dashmap_new 0" "PlanId ''p''" p]) simp_all
  then show ?thesis by (simp add: sample_kv_def)
qed

theorem exec_plan_lifecycle_witness:
  "snd (snd (exec_plan counting_px 2 3 (PlanId ''p'') ()
     (sample_kv (run_plan [(1, Approve (UserId ''u''))] sample_plan)) 0)) = 1 \<and>
   snd (snd (exec_plan counting_px 2 3 (PlanId ''p'') () (sample_kv sample_plan) 0)) = 0"
proof
  have "status (run_plan [(1, Approve (UserId ''u''))] sample_plan) = Approved"
    by (simp add: sample_plan_def create_plan_def approve_def held_plan_def)
  with exec_plan_lifecycle [of counting_px "sample_kv (run_plan [(1, Approve (UserId ''u''))] sample_plan)"
      "PlanId ''p''" "run_plan [(1, Approve (UserId ''u''))] sample_plan" 2 3 "()" 0]
  show "snd (snd (exec_plan counting_px 2 3 (PlanId ''p'') ()
      (sample_kv (run_plan [(1, Approve (UserId ''u''))] sample_plan)) 0)) = 1"
    by (auto simp: Let_def case_prod_beta simp del: run_plan.simps)
  have "status sample_plan \<noteq> Approved" by (simp add: sample_plan_def create_plan_def)
  with exec_plan_lifecycle [of counting_px "sample_kv sample_plan" "PlanId ''p''" sample_plan 2 3 "()" 0]
  show "snd (snd (exec_plan counting_px 2 3 (PlanId ''p'') () (sample_kv sample_plan) 0)) = 0"
    by (auto simp: Let_def case_prod_beta)
qed

section \<open>Gate laws\<close>

lemma gate_emit_frame [simp]:
  "gw_sys (snd (gate_emit gx part w)) = gw_sys w" "gw_kv (snd (gate_emit gx part w)) = gw_kv w"
  "gw_store (snd (gate_emit gx part w)) = gw_store w"
  by (simp_all add: gate_emit_def Let_def case_prod_beta)

lemma gate_expire_frame [simp]:
  "gw_sys (gate_expire gx i r w) = gw_sys w" "gw_kv (gate_expire gx i r w) = gw_kv w"
  "gw_sink (gate_expire gx i r w) = gw_sink w"
  by (simp_all add: gate_expire_def)

lemma gate_emit_cases:
  obtains ok w' where "gate_emit gx part w = (ok, w')" "gw_sys w' = gw_sys w" "gw_kv w' = gw_kv w"
    "gw_store w' = gw_store w"
  using gate_emit_frame [of gx part w] by (cases "gate_emit gx part w") auto

lemma gate_open_draft:
  assumes "kv_get (px_kv (gx_inner gx)) (px_serde (gx_inner gx)) (gw_kv w) (tenant_str (px_tenant (gx_inner gx)))
      (plan_key (px_prefix (gx_inner gx)) pid) = (Ok (Some p), s)" and "status p = Draft"
  shows "case gate_open gx i now now' pid ctx w of
      (Inl r, w1) \<Rightarrow> \<not> is_ok r \<and> gw_sys w1 = gw_sys w \<and> gw_kv w1 = s
    | (Inr q, w1) \<Rightarrow> q = p \<and> gw_sys w1 = gw_sys w \<and> gw_kv w1 = s"
proof (cases "to_value (px_serde (gx_inner gx)) p")
  case (Inl e)
  with assms show ?thesis by (simp add: gate_open_def Let_def)
next
  case (Inr payload)
  let ?req = "gate_request gx i pid payload"
  obtain rr st where reg: "store_register (gx_store gx) (gw_store w) ?req = (rr, st)" by fastforce
  show ?thesis
  proof (cases rr)
    case (Inl e)
    with assms Inr reg show ?thesis by (simp add: gate_open_def Let_def)
  next
    case (Inr ch)
    obtain ok1 w1 where e1: "gate_emit gx (ApprovalRequiredPart ?req) (w\<lparr>gw_kv := s, gw_store := st\<rparr>) = (ok1, w1)"
      "gw_sys w1 = gw_sys w" "gw_kv w1 = s"
      by (rule gate_emit_cases [of gx "ApprovalRequiredPart ?req" "w\<lparr>gw_kv := s, gw_store := st\<rparr>"]) auto
    obtain ok2 w2 where e2: "gate_emit gx (plan_status_change (plan_id_str pid) ''draft'' ''pending_approval'') w1 =
        (ok2, w2)" "gw_sys w2 = gw_sys w1" "gw_kv w2 = gw_kv w1"
      by (rule gate_emit_cases [of gx "plan_status_change (plan_id_str pid) ''draft'' ''pending_approval''" w1]) auto
    from assms \<open>to_value (px_serde (gx_inner gx)) p = Ok payload\<close> reg Inr e1 e2 show ?thesis
      by (cases ok1; cases ok2) (simp_all add: gate_open_def Let_def)
  qed
qed

definition approves :: "'j select_outcome \<Rightarrow> bool" where
  "approves x = (case x of Decided (Ok d) \<Rightarrow> is_approve (dec_outcome d) | _ \<Rightarrow> False)"

lemma gate_decide_refuses:
  assumes "\<not> is_approve (dec_outcome d)"
  shows "case gate_decide gx t now now' pid ctx p d w of
      (r, w') \<Rightarrow> \<not> is_ok r \<and> gw_sys w' = gw_sys w \<and> gw_kv w' = gw_kv w"
  using assms by (cases "dec_outcome d") (simp_all add: gate_decide_def Let_def)

text \<open>
  C1. No dispatch without approval, for every key-value store, event sink, approval store and
  dispatcher, and whatever other tasks do during the wait: when the stored plan is a draft, the
  gate neither touches the target system nor writes the plan before the wait, and after it,
  unless the host's decision is an approval, it returns an error and again leaves both as the
  wait left them.
\<close>

theorem gate_no_dispatch_without_approval:
  assumes "kv_get (px_kv (gx_inner gx)) (px_serde (gx_inner gx)) (gw_kv w) (tenant_str (px_tenant (gx_inner gx)))
      (plan_key (px_prefix (gx_inner gx)) pid) = (Ok (Some p), s)" and "status p = Draft"
  shows "let (r, w') = gated_execute gx i t now now' pid ctx wait w
    in case gate_open gx i now now' pid ctx w of
         (Inl _, w1) \<Rightarrow> \<not> is_ok r \<and> gw_sys w' = gw_sys w \<and> gw_kv w' = s
       | (Inr _, w1) \<Rightarrow> gw_sys w1 = gw_sys w \<and> gw_kv w1 = s \<and>
           (case wait w1 of (out, w2) \<Rightarrow>
              if approves out then True
              else \<not> is_ok r \<and> gw_sys w' = gw_sys w2 \<and> gw_kv w' = gw_kv w2)"
proof -
  obtain o1 w1 where op: "gate_open gx i now now' pid ctx w = (o1, w1)" by fastforce
  note frame = gate_open_draft [OF assms, of i now now' ctx, unfolded op]
  show ?thesis
  proof (cases o1)
    case (Inl r)
    with op frame show ?thesis by (simp add: gated_execute_def)
  next
    case (Inr q)
    obtain out w2 where wait: "wait w1 = (out, w2)" by fastforce
    have "\<not> is_ok (fst (gated_execute gx i t now now' pid ctx wait w)) \<and>
        gw_sys (snd (gated_execute gx i t now now' pid ctx wait w)) = gw_sys w2 \<and>
        gw_kv (snd (gated_execute gx i t now now' pid ctx wait w)) = gw_kv w2" if "\<not> approves out"
    proof (cases out)
      case CancelFired
      with op Inr wait show ?thesis by (simp add: gated_execute_def)
    next
      case (Decided x)
      show ?thesis
      proof (cases x)
        case (Inl e)
        with op Inr wait Decided \<open>o1 = Inr q\<close> show ?thesis by (simp add: gated_execute_def)
      next
        case (Inr d)
        with that Decided have "\<not> is_approve (dec_outcome d)" by (simp add: approves_def)
        from gate_decide_refuses [OF this, where gx = gx and t = t and now = now and now' = now' and
            pid = pid and ctx = ctx and p = q and w = w2] op \<open>o1 = Inr q\<close> wait Decided Inr
        show ?thesis by (simp add: gated_execute_def case_prod_beta)
      qed
    qed
    with op Inr wait frame show ?thesis by (simp add: Let_def case_prod_beta)
  qed
qed

definition counting_gx ::
  "(nat DashMapKVStore, nat, nat, unit, string, nat, (nat, unit) BroadcastEventChannel, unit,
    nat InMemoryStore) GatedPlanExecutor" where
  "counting_gx = \<lparr>gx_inner = counting_px, gx_sink = broadcast_sink,
     gx_store = \<lparr>store_register = im_register, store_expire = im_expire\<rparr>,
     gx_approver = UserId ''host'', gx_thread = ThreadId ''th''\<rparr>"

definition sample_world ::
  "(nat DashMapKVStore, nat, (nat, unit) BroadcastEventChannel, nat InMemoryStore) gate_world" where
  "sample_world = \<lparr>gw_kv = sample_kv sample_plan, gw_sys = 0, gw_sink = broadcast_new,
     gw_store = in_memory_new\<rparr>"

lemma counting_gx_simps [simp]:
  "gx_inner counting_gx = counting_px" "gx_sink counting_gx = broadcast_sink"
  "store_register (gx_store counting_gx) = im_register" "store_expire (gx_store counting_gx) = im_expire"
  by (simp_all add: counting_gx_def)

lemma sample_world_simps [simp]:
  "gw_kv sample_world = sample_kv sample_plan" "gw_sys sample_world = 0"
  "gw_sink sample_world = broadcast_new" "gw_store sample_world = in_memory_new"
  by (simp_all add: sample_world_def)

theorem gate_no_dispatch_without_approval_witness:
  "gw_sys (snd (gated_execute counting_gx (ApprovalId ''a'') 1 2 3 (PlanId ''p'') ()
     (\<lambda>w. (Decided (Ok (decision_reject (ApprovalId ''a'') ''no'')), w)) sample_world)) = 0"
proof -
  let ?wait = "\<lambda>w. (Decided (Ok (decision_reject (ApprovalId ''a'') ''no'')) :: nat select_outcome, w)"
  obtain s where get: "kv_get (px_kv (gx_inner counting_gx)) (px_serde (gx_inner counting_gx))
      (gw_kv sample_world) (tenant_str (px_tenant (gx_inner counting_gx)))
      (plan_key (px_prefix (gx_inner counting_gx)) (PlanId ''p'')) = (Ok (Some sample_plan), s)"
    using dashmap_stored_get [of counting_px "sample_kv sample_plan" "PlanId ''p''" "Ok (Some sample_plan)"]
    by (metis counting_gx_simps(1) sample_kv_stored sample_world_simps(1) counting_px_simps(1))
  have "status sample_plan = Draft" by (simp add: sample_plan_def create_plan_def)
  from gate_no_dispatch_without_approval [OF get this, where i = "ApprovalId ''a''" and t = 1 and now = 2 and
      now' = 3 and ctx = "()" and wait = ?wait]
  show ?thesis
    by (auto simp: case_prod_beta approves_def decision_reject_def split: sum.splits prod.splits)
qed

lemma broadcast_gate_emit:
  assumes "gx_sink gx = broadcast_sink" "bc_open (gw_sink w)"
  shows "gate_emit gx part w = (True, w\<lparr>gw_sink := (gw_sink w)\<lparr>bc_sent := bc_sent (gw_sink w) @ [part]\<rparr>\<rparr>)"
  using assms by (simp add: gate_emit_def broadcast_sink_def broadcast_emit_def)

lemma gate_open_registers:
  assumes get: "kv_get (px_kv (gx_inner gx)) (px_serde (gx_inner gx)) (gw_kv w)
      (tenant_str (px_tenant (gx_inner gx))) (plan_key (px_prefix (gx_inner gx)) pid) = (Ok (Some p), s)"
    and draft: "status p = Draft"
    and payload: "to_value (px_serde (gx_inner gx)) p = Ok payload"
    and sink: "gx_sink gx = broadcast_sink" "bc_open (gw_sink w)"
    and reg: "store_register (gx_store gx) (gw_store w) (gate_request gx i pid payload) = (Ok ch, st)"
  shows "gate_open gx i now now' pid ctx w =
    (Inr p, w\<lparr>gw_kv := s, gw_store := st, gw_sink := (gw_sink w)\<lparr>bc_sent := bc_sent (gw_sink w) @
       [ApprovalRequiredPart (gate_request gx i pid payload),
        plan_status_change (plan_id_str pid) ''draft'' ''pending_approval'']\<rparr>\<rparr>)"
proof -
  let ?w = "w\<lparr>gw_kv := s, gw_store := st\<rparr>"
  let ?req = "ApprovalRequiredPart (gate_request gx i pid payload)"
  let ?w1 = "?w\<lparr>gw_sink := (gw_sink ?w)\<lparr>bc_sent := bc_sent (gw_sink ?w) @ [?req]\<rparr>\<rparr>"
  have "gate_emit gx ?req ?w = (True, ?w1)"
    by (rule broadcast_gate_emit) (use sink in simp_all)
  moreover have "gate_emit gx (plan_status_change (plan_id_str pid) ''draft'' ''pending_approval'') ?w1 =
      (True, ?w1\<lparr>gw_sink := (gw_sink ?w1)\<lparr>bc_sent := bc_sent (gw_sink ?w1) @
        [plan_status_change (plan_id_str pid) ''draft'' ''pending_approval'']\<rparr>\<rparr>)"
    by (rule broadcast_gate_emit) (use sink in simp_all)
  ultimately show ?thesis
    using get draft payload reg by (simp add: gate_open_def Let_def)
qed

lemma gate_decide_approve:
  fixes gx :: "('j DashMapKVStore, 'd, 'a, 'c, 'e, 'j, 'k, 'l, 'p) GatedPlanExecutor"
  assumes kv: "px_kv (gx_inner gx) = dashmap_kv" "serde_total (px_serde (gx_inner gx))"
      "serde_roundtrip (px_serde (gx_inner gx))"
    and draft: "status p = Draft" and approved: "dec_outcome d = OutcomeApprove"
    and out: "px_dispatch (gx_inner gx) (gw_sys w) (actions p) ctx = (out, sys)"
  obtains s' where "gate_decide gx t now now' pid ctx p d w =
      (map_err (GateExecution \<circ> ExecDispatch) out,
       (snd (gate_emit gx (plan_status_change (plan_id_str pid) ''pending_approval'' ''approved'')
          (snd (gate_emit gx (ApprovalDecisionPart d) w))))\<lparr>gw_kv := s', gw_sys := sys\<rparr>)"
    "stored_plan (gx_inner gx) s' pid = Ok (Some (run_plan [(t, Approve (gx_approver gx)), (now, Start),
       (now', dispatch_cmd (px_show_error (gx_inner gx)) out)] p))"
proof -
  let ?px = "gx_inner gx" and ?key = "plan_key (px_prefix (gx_inner gx)) pid"
  let ?w = "snd (gate_emit gx (plan_status_change (plan_id_str pid) ''pending_approval'' ''approved'')
            (snd (gate_emit gx (ApprovalDecisionPart d) w)))"
  obtain q where q: "approve t (gx_approver gx) p = Ok q" "status q = Approved" "actions q = actions p"
    using draft by (simp add: approve_def)
  obtain s3 where s3: "exec_put ?px (gw_kv w) ?key q = (Ok (), s3)" "stored_plan ?px s3 pid = Ok (Some q)"
    using dashmap_exec_put [OF kv] by metis
  obtain s4 where ex: "exec_plan ?px now now' pid ctx s3 (gw_sys w) = (map_err ExecDispatch out, s4, sys)"
    "stored_plan ?px s4 pid =
      Ok (Some (run_plan [(now, Start), (now', dispatch_cmd (px_show_error ?px) out)] q))"
    using exec_plan_approved [OF kv s3(2) q(2)] out q(3) by metis
  have "gate_decide gx t now now' pid ctx p d w = gate_delegate gx now now' pid ctx (?w\<lparr>gw_kv := s3\<rparr>)"
    using approved q(1) s3(1) by (simp add: gate_decide_def Let_def)
  also have "\<dots> = (map_err (GateExecution \<circ> ExecDispatch) out, ?w\<lparr>gw_kv := s4, gw_sys := sys\<rparr>)"
    using ex(1) by (cases out) (simp_all add: gate_delegate_def)
  finally have "gate_decide gx t now now' pid ctx p d w =
      (map_err (GateExecution \<circ> ExecDispatch) out, ?w\<lparr>gw_kv := s4, gw_sys := sys\<rparr>)" .
  moreover have "run_plan ((t, Approve (gx_approver gx)) # cs) p = run_plan cs q" for cs
    using q(1) by (simp add: held_plan_def)
  ultimately show ?thesis using that ex(2) by (metis (no_types, lifting))
qed

text \<open>
  C8. The approved path, over the in-memory key-value store and an open broadcast sink, when the
  wait only involves the approval store: the host sees the request, the pending alias, its decision
  and the approval in this order; the target system sees exactly one dispatch of the full action
  sequence; the result is the dispatcher's; and the stored plan is the approved, started and
  finished one.
\<close>

theorem gated_execute_approved:
  fixes gx :: "('j DashMapKVStore, 'd, 'a, 'c, 'e, 'j, ('j, 'l) BroadcastEventChannel, 'l, 'p) GatedPlanExecutor"
  assumes kv: "px_kv (gx_inner gx) = dashmap_kv" "serde_total (px_serde (gx_inner gx))"
      "serde_roundtrip (px_serde (gx_inner gx))"
    and stored: "stored_plan (gx_inner gx) (gw_kv w) pid = Ok (Some p)" "status p = Draft"
    and sink: "gx_sink gx = broadcast_sink" "bc_open (gw_sink w)"
    and payload: "to_value (px_serde (gx_inner gx)) p = Ok payload"
    and reg: "store_register (gx_store gx) (gw_store w) (gate_request gx i pid payload) = (Ok ch, st)"
    and wait: "\<And>w1. wait w1 = (Decided (Ok d), w1\<lparr>gw_store := host (gw_store w1)\<rparr>)"
    and approved: "dec_outcome d = OutcomeApprove"
  shows "let (r, w') = gated_execute gx i t now now' pid ctx wait w;
             (out, sys) = px_dispatch (gx_inner gx) (gw_sys w) (actions p) ctx
    in r = map_err (GateExecution \<circ> ExecDispatch) out \<and> gw_sys w' = sys \<and>
       stored_plan (gx_inner gx) (gw_kv w') pid = Ok (Some (run_plan
         [(t, Approve (gx_approver gx)), (now, Start), (now', dispatch_cmd (px_show_error (gx_inner gx)) out)] p)) \<and>
       bc_sent (gw_sink w') = bc_sent (gw_sink w) @
         [ApprovalRequiredPart (gate_request gx i pid payload),
          plan_status_change (plan_id_str pid) ''draft'' ''pending_approval'',
          ApprovalDecisionPart d, plan_status_change (plan_id_str pid) ''pending_approval'' ''approved'']"
proof -
  let ?px = "gx_inner gx" and ?key = "plan_key (px_prefix (gx_inner gx)) pid"
  obtain s1 where get: "kv_get (px_kv ?px) (px_serde ?px) (gw_kv w) (tenant_str (px_tenant ?px)) ?key =
      (Ok (Some p), s1)" using dashmap_stored_get [OF kv(1) stored(1)] by metis
  define w1 where "w1 = w\<lparr>gw_kv := s1, gw_store := st, gw_sink := (gw_sink w)\<lparr>bc_sent := bc_sent (gw_sink w) @
       [ApprovalRequiredPart (gate_request gx i pid payload),
        plan_status_change (plan_id_str pid) ''draft'' ''pending_approval'']\<rparr>\<rparr>"
  have op: "gate_open gx i now now' pid ctx w = (Inr p, w1)"
    unfolding w1_def by (rule gate_open_registers [OF get stored(2) payload sink reg])
  let ?w2 = "w1\<lparr>gw_store := host (gw_store w1)\<rparr>"
  have run: "gated_execute gx i t now now' pid ctx wait w = gate_decide gx t now now' pid ctx p d ?w2"
    using op wait [of w1] by (simp add: gated_execute_def)
  obtain out sys where out: "px_dispatch ?px (gw_sys w) (actions p) ctx = (out, sys)" by fastforce
  then have "px_dispatch ?px (gw_sys ?w2) (actions p) ctx = (out, sys)" by (simp add: w1_def)
  from gate_decide_approve [OF kv stored(2) approved this, of t now now' pid]
  obtain s' where s': "gate_decide gx t now now' pid ctx p d ?w2 =
      (map_err (GateExecution \<circ> ExecDispatch) out,
       (snd (gate_emit gx (plan_status_change (plan_id_str pid) ''pending_approval'' ''approved'')
          (snd (gate_emit gx (ApprovalDecisionPart d) ?w2))))\<lparr>gw_kv := s', gw_sys := sys\<rparr>)"
    "stored_plan ?px s' pid = Ok (Some (run_plan [(t, Approve (gx_approver gx)), (now, Start),
       (now', dispatch_cmd (px_show_error ?px) out)] p))" .
  with run out sink show ?thesis
    by (simp add: w1_def broadcast_gate_emit del: run_plan.simps)
qed

theorem gated_execute_approved_witness:
  "gw_sys (snd (gated_execute counting_gx (ApprovalId ''a'') 1 2 3 (PlanId ''p'') ()
     (\<lambda>w. (Decided (Ok (decision_approve (ApprovalId ''a''))),
        w\<lparr>gw_store := snd (im_resolve (gw_store w) (decision_approve (ApprovalId ''a'')))\<rparr>)) sample_world)) = 1"
proof -
  let ?d = "decision_approve (ApprovalId ''a'') :: nat ApprovalDecision"
  let ?req = "gate_request counting_gx (ApprovalId ''a'') (PlanId ''p'') (to_nat sample_plan)"
  have reg: "store_register (gx_store counting_gx) (gw_store sample_world) ?req =
      (Ok 0, snd (im_register in_memory_new ?req))"
    by (simp add: im_register_def in_memory_new_def)
  have draft: "status sample_plan = Draft" by (simp add: sample_plan_def create_plan_def)
  have payload: "to_value (px_serde (gx_inner counting_gx)) sample_plan = Ok (to_nat sample_plan)"
    by (simp add: plan_nat_serde_def)
  have outcome: "dec_outcome ?d = OutcomeApprove" by (simp add: decision_approve_def)
  have "let (r, w') = gated_execute counting_gx (ApprovalId ''a'') 1 2 3 (PlanId ''p'') ()
      (\<lambda>w. (Decided (Ok ?d), w\<lparr>gw_store := snd (im_resolve (gw_store w) ?d)\<rparr>)) sample_world;
      (out, sys) = px_dispatch (gx_inner counting_gx) (gw_sys sample_world) (actions sample_plan) ()
    in gw_sys w' = sys"
    using gated_execute_approved [of counting_gx sample_world "PlanId ''p''" sample_plan "to_nat sample_plan"
        "ApprovalId ''a''" 0 _ _ ?d "\<lambda>st. snd (im_resolve st ?d)" 1 2 3 "()", OF _ _ _ _ draft _ _ payload reg _ outcome]
    by (simp add: broadcast_new_def case_prod_beta)
  then show ?thesis by (simp add: case_prod_beta)
qed

text \<open>
  The plan approved in the last step is the copy loaded before the wait, so the decision does not
  see what happened meanwhile: a plan that another task already executed during the wait is put
  back to approved and its actions are dispatched a second time.
\<close>

lemma stale_copy_dispatched_again:
  fixes gx :: "('j DashMapKVStore, 'd, 'a, 'c, 'e, 'j, 'k, 'l, 'p) GatedPlanExecutor"
  assumes "px_kv (gx_inner gx) = dashmap_kv" "serde_total (px_serde (gx_inner gx))"
      "serde_roundtrip (px_serde (gx_inner gx))"
    and "status p = Draft" "dec_outcome d = OutcomeApprove"
    and "stored_plan (gx_inner gx) (gw_kv w) pid = Ok (Some q)" "status q = Executed"
  shows "gw_sys (snd (gate_decide gx t now now' pid ctx p d w)) =
    snd (px_dispatch (gx_inner gx) (gw_sys w) (actions p) ctx)"
proof -
  obtain out sys where out: "px_dispatch (gx_inner gx) (gw_sys w) (actions p) ctx = (out, sys)" by fastforce
  show ?thesis
    by (rule gate_decide_approve [OF assms(1-5) out, of t now now' pid]) (simp add: out)
qed

end
