(* ===== verification/Event_Log.thy ===== *)
theory Event_Log
  imports KV_Store Event_Sink "HOL-Library.Finite_Map"
begin

text \<open>
  The durable event stream: the \<open>EventLog\<close> interface of \<open>crates/agent-fw-algebra/src/event_log.rs\<close>,
  its in-memory implementation \<open>crates/agent-fw-interpreter/src/memory_event_log.rs\<close> and the sink
  that writes to a log from a background task,
  \<open>crates/agent-fw-interpreter/src/durable_event_sink.rs\<close>.

  A \<open>SystemTime\<close> is an integer of nanoseconds since the epoch; the reading of the clock is an
  argument. The bounded tokio channel is its buffer, its capacity and whether the receiver is alive;
  one iteration of the background task is one step, so every interleaving of emissions, iterations
  and closing is a sequence of steps.
\<close>

section \<open>The interface\<close>

record 'j EventEntry =
  ee_offset :: nat
  ee_event :: 'j
  ee_timestamp :: datetime

datatype EventLogError =
    LogStorage string
  | LogSerialization string
  | LogDeserialization string
  | LogClosed

record ('s, 'j) EventLog =
  log_append :: "datetime \<Rightarrow> string \<Rightarrow> 'j \<Rightarrow> 's \<Rightarrow> (EventLogError, nat) result \<times> 's"
  log_replay :: "datetime \<Rightarrow> string \<Rightarrow> nat \<Rightarrow> 's \<Rightarrow> (EventLogError, 'j EventEntry list) result"
  log_close :: "'s \<Rightarrow> 's"
  log_is_open :: "'s \<Rightarrow> bool"
  log_ttl :: "'s \<Rightarrow> duration"

definition append_typed ::
  "('s, 'j) EventLog \<Rightarrow> ('e, 'j) serde \<Rightarrow> datetime \<Rightarrow> string \<Rightarrow> 'e \<Rightarrow> 's \<Rightarrow>
   (EventLogError, nat) result \<times> 's" where
  "append_typed el sd now channel event s =
     (case to_value sd event of
        Err e \<Rightarrow> (Err (LogSerialization e), s)
      | Ok json \<Rightarrow> log_append el now channel json s)"

text \<open>The collected \<open>map\<close> of \<open>replay_typed\<close> stops at the first entry that does not decode.\<close>

fun decode_entries ::
  "('e, 'j) serde \<Rightarrow> 'j EventEntry list \<Rightarrow> (EventLogError, 'e EventEntry list) result" where
  "decode_entries sd [] = Ok []"
| "decode_entries sd (entry # entries) =
     (case from_value sd (ee_event entry) of
        Err e \<Rightarrow> Err (LogDeserialization e)
      | Ok event \<Rightarrow>
          (case decode_entries sd entries of
             Err e \<Rightarrow> Err e
           | Ok es \<Rightarrow>
               Ok (\<lparr>ee_offset = ee_offset entry, ee_event = event, ee_timestamp = ee_timestamp entry\<rparr> # es)))"

definition replay_typed ::
  "('s, 'j) EventLog \<Rightarrow> ('e, 'j) serde \<Rightarrow> datetime \<Rightarrow> string \<Rightarrow> nat \<Rightarrow> 's \<Rightarrow>
   (EventLogError, 'e EventEntry list) result" where
  "replay_typed el sd now channel from_offset s =
     (case log_replay el now channel from_offset s of
        Err e \<Rightarrow> Err e
      | Ok entries \<Rightarrow> decode_entries sd entries)"

section \<open>The in-memory log\<close>

record 'j MemoryEventLog =
  ml_channels :: "(string, 'j EventEntry list) fmap"
  ml_open :: bool
  ml_ttl :: duration

definition memory_log_new :: "duration \<Rightarrow> 'j MemoryEventLog" where
  "memory_log_new ttl = \<lparr>ml_channels = fmempty, ml_open = True, ml_ttl = ttl\<rparr>"

definition memory_log_default_ttl :: "'j MemoryEventLog" where
  "memory_log_default_ttl = memory_log_new (from_secs 3600)"

text \<open>\<open>channels.entry(channel).or_default()\<close>\<close>

definition channel_entries :: "string \<Rightarrow> 'j MemoryEventLog \<Rightarrow> 'j EventEntry list" where
  "channel_entries channel l = unwrap_or [] (fmlookup (ml_channels l) channel)"

definition memory_append ::
  "datetime \<Rightarrow> string \<Rightarrow> 'j \<Rightarrow> 'j MemoryEventLog \<Rightarrow> (EventLogError, nat) result \<times> 'j MemoryEventLog" where
  "memory_append now channel event l =
     (if \<not> ml_open l then (Err LogClosed, l)
      else let entries = channel_entries channel l; offset = length entries
           in (Ok offset,
               l\<lparr>ml_channels := fmupd channel
                   (entries @ [\<lparr>ee_offset = offset, ee_event = event, ee_timestamp = now\<rparr>])
                   (ml_channels l)\<rparr>))"

text \<open>
  \<open>SystemTime::checked_sub\<close>: the seconds of a time are a signed 64-bit integer.
\<close>

definition checked_sub_time :: "datetime \<Rightarrow> duration \<Rightarrow> datetime option" where
  "checked_sub_time t d =
     (if (t - int d) div int nanos_per_sec \<ge> - (2 ^ 63) then Some (t - int d) else None)"

definition replay_cutoff :: "datetime \<Rightarrow> duration \<Rightarrow> datetime" where
  "replay_cutoff now ttl = unwrap_or 0 (checked_sub_time now ttl)"

definition memory_replay ::
  "datetime \<Rightarrow> string \<Rightarrow> nat \<Rightarrow> 'j MemoryEventLog \<Rightarrow> (EventLogError, 'j EventEntry list) result" where
  "memory_replay now channel from_offset l =
     (case fmlookup (ml_channels l) channel of
        None \<Rightarrow> Ok []
      | Some entries \<Rightarrow>
          Ok (filter (\<lambda>e. ee_offset e \<ge> from_offset \<and> ee_timestamp e \<ge> replay_cutoff now (ml_ttl l)) entries))"

definition memory_close :: "'j MemoryEventLog \<Rightarrow> 'j MemoryEventLog" where
  "memory_close l = l\<lparr>ml_open := False\<rparr>"

definition memory_log :: "('j MemoryEventLog, 'j) EventLog" where
  "memory_log = \<lparr>log_append = memory_append, log_replay = memory_replay, log_close = memory_close,
     log_is_open = ml_open, log_ttl = ml_ttl\<rparr>"

section \<open>The durable sink\<close>

record ('s, 'j, 'l) DurableEventSink =
  ds_queue :: "('j, 'l) StreamPart list"
  ds_capacity :: nat
  ds_receiver :: bool
  ds_log :: 's
  ds_channel :: string
  ds_open :: bool

text \<open>\<open>mpsc::channel\<close> panics on a capacity of zero.\<close>

definition durable_new :: "'s \<Rightarrow> string \<Rightarrow> nat \<Rightarrow> ('s, 'j, 'l) DurableEventSink option" where
  "durable_new log channel buffer_size =
     (if buffer_size = 0 then None
      else Some \<lparr>ds_queue = [], ds_capacity = buffer_size, ds_receiver = True, ds_log = log,
             ds_channel = channel, ds_open = True\<rparr>)"

definition durable_with_defaults :: "'s \<Rightarrow> string \<Rightarrow> ('s, 'j, 'l) DurableEventSink option" where
  "durable_with_defaults log channel = durable_new log channel 1024"

definition durable_emit ::
  "('s, 'j, 'l) DurableEventSink \<Rightarrow> ('j, 'l) StreamPart \<Rightarrow> bool \<times> ('s, 'j, 'l) DurableEventSink" where
  "durable_emit k part =
     (if \<not> ds_open k then (False, k)
      else if \<not> ds_receiver k then (False, k)
      else if length (ds_queue k) < ds_capacity k then (True, k\<lparr>ds_queue := ds_queue k @ [part]\<rparr>)
      else (False, k))"

definition durable_close :: "('s, 'v) EventLog \<Rightarrow> ('s, 'j, 'l) DurableEventSink \<Rightarrow> ('s, 'j, 'l) DurableEventSink" where
  "durable_close el k = k\<lparr>ds_open := False, ds_log := log_close el (ds_log k)\<rparr>"

definition durable_sink :: "('s, 'v) EventLog \<Rightarrow> (('s, 'j, 'l) DurableEventSink, 'j, 'l) EventSink" where
  "durable_sink el = \<lparr>sink_emit = durable_emit, sink_close = durable_close el, sink_is_open = ds_open\<rparr>"

definition durable_replay ::
  "('s, 'v) EventLog \<Rightarrow> (('j, 'l) StreamPart, 'v) serde \<Rightarrow> datetime \<Rightarrow> nat \<Rightarrow>
   ('s, 'j, 'l) DurableEventSink \<Rightarrow> (EventLogError, ('j, 'l) StreamPart EventEntry list) result" where
  "durable_replay el sd now from_offset k = replay_typed el sd now (ds_channel k) from_offset (ds_log k)"

text \<open>
  One iteration of the appender. Receiving a part and appending it is one step here: a part that is between
  the two counts as queued. Leaving the loop drops the receiver, and with it what the channel still holds.
\<close>

definition background_appender ::
  "('s, 'v) EventLog \<Rightarrow> (('j, 'l) StreamPart, 'v) serde \<Rightarrow> datetime \<Rightarrow>
   ('s, 'j, 'l) DurableEventSink \<Rightarrow> ('s, 'j, 'l) DurableEventSink" where
  "background_appender el sd now k =
     (if \<not> ds_receiver k then k
      else case ds_queue k of
             [] \<Rightarrow> k
           | part # rest \<Rightarrow>
               (case to_value sd part of
                  Err e \<Rightarrow> k\<lparr>ds_queue := rest\<rparr>
                | Ok json \<Rightarrow>
                    (case log_append el now (ds_channel k) json (ds_log k) of
                       (Err LogClosed, s) \<Rightarrow> k\<lparr>ds_queue := [], ds_receiver := False, ds_log := s\<rparr>
                     | (Err _, s) \<Rightarrow> k\<lparr>ds_queue := rest, ds_log := s\<rparr>
                     | (Ok _, s) \<Rightarrow> k\<lparr>ds_queue := rest, ds_log := s\<rparr>)))"

section \<open>Log laws\<close>

text \<open>
  The laws of the interface. \<open>history\<close> is what was appended to a channel, in order, with its time.
  A replay returns the entries of the history from the offset on (L1 to L3) that are not older than
  the time to live (L5); a closed log refuses appends and keeps its history (L4).
\<close>

definition entry_at :: "nat \<Rightarrow> 'j \<times> datetime \<Rightarrow> 'j EventEntry" where
  "entry_at i x = \<lparr>ee_offset = i, ee_event = fst x, ee_timestamp = snd x\<rparr>"

definition numbered :: "('j \<times> datetime) list \<Rightarrow> 'j EventEntry list" where
  "numbered h = map2 entry_at [0..<length h] h"

text \<open>Any use of a log, and of a durable sink whose log others use for their own channels.\<close>

datatype 'j log_op = Append datetime string 'j | Close

fun log_step :: "('s, 'j) EventLog \<Rightarrow> 'j log_op \<Rightarrow> 's \<Rightarrow> 's" where
  "log_step el (Append now c e) s = snd (log_append el now c e s)"
| "log_step el Close s = log_close el s"

fun appended :: "string \<Rightarrow> 'j log_op \<Rightarrow> ('j \<times> datetime) option" where
  "appended c (Append now c' e) = (if c' = c then Some (e, now) else None)"
| "appended c Close = None"

datatype ('j, 'l, 'v) sink_op = Emit "('j, 'l) StreamPart" | Drain datetime | Foreign datetime string 'v

text \<open>The parts the sink accepted, and the sink afterwards.\<close>

fun sink_run ::
  "('s, 'v) EventLog \<Rightarrow> (('j, 'l) StreamPart, 'v) serde \<Rightarrow> ('j, 'l, 'v) sink_op list \<Rightarrow>
   ('s, 'j, 'l) DurableEventSink \<Rightarrow> ('j, 'l) StreamPart list \<times> ('s, 'j, 'l) DurableEventSink" where
  "sink_run el sd [] k = ([], k)"
| "sink_run el sd (Emit p # ops) k =
     (let (ok, k1) = durable_emit k p; (acc, k2) = sink_run el sd ops k1
      in (if ok then p # acc else acc, k2))"
| "sink_run el sd (Drain now # ops) k = sink_run el sd ops (background_appender el sd now k)"
| "sink_run el sd (Foreign now c j # ops) k =
     sink_run el sd ops (k\<lparr>ds_log := snd (log_append el now c j (ds_log k))\<rparr>)"

fun own_channel :: "string \<Rightarrow> ('j, 'l, 'v) sink_op \<Rightarrow> bool" where
  "own_channel c (Foreign now c' j) \<longleftrightarrow> c' \<noteq> c"
| "own_channel c _ \<longleftrightarrow> True"

definition encode :: "('e, 'j) serde \<Rightarrow> 'e \<Rightarrow> 'j" where
  "encode sd e = projr (to_value sd e)"

lemma to_value_encode: "serde_total sd \<Longrightarrow> to_value sd e = Ok (encode sd e)"
  by (erule serde_totalE [of _ e]) (simp add: encode_def)

lemma numbered_snoc: "numbered (h @ [x]) = numbered h @ [entry_at (length h) x]"
  by (simp add: numbered_def)

lemma numbered_offsets: "i < length h \<Longrightarrow> numbered h ! i = entry_at i (h ! i)"
  by (simp add: numbered_def)

lemma numbered_length [simp]: "length (numbered h) = length h"
  by (simp add: numbered_def)

lemma numbered_Nil [simp]: "numbered [] = []"
  by (simp add: numbered_def)

lemma filter_numbered: "filter (\<lambda>e. n \<le> ee_offset e \<and> P e) (numbered h) = filter P (drop n (numbered h))"
proof (induction h rule: rev_induct)
  case (snoc x h)
  then show ?case
    by (cases "n \<le> length h") (simp_all add: numbered_snoc entry_at_def)
qed simp

definition map_entry :: "('e \<Rightarrow> 'f) \<Rightarrow> 'e EventEntry \<Rightarrow> 'f EventEntry" where
  "map_entry f x = \<lparr>ee_offset = ee_offset x, ee_event = f (ee_event x), ee_timestamp = ee_timestamp x\<rparr>"

lemma map_entry_simps [simp]:
  "ee_offset (map_entry f x) = ee_offset x" "ee_event (map_entry f x) = f (ee_event x)"
  "ee_timestamp (map_entry f x) = ee_timestamp x"
  by (simp_all add: map_entry_def)

lemma numbered_map: "numbered (map (map_prod f id) h) = map (map_entry f) (numbered h)"
  by (rule nth_equalityI) (simp_all add: numbered_offsets entry_at_def map_entry_def)

lemma decode_encoded:
  "serde_total sd \<Longrightarrow> serde_roundtrip sd \<Longrightarrow> decode_entries sd (map (map_entry (encode sd)) es) = Ok es"
  by (induction es) (simp_all add: serde_roundtripD [OF _ to_value_encode])

locale EventLog_laws =
  fixes el :: "('s, 'j) EventLog" and inv :: "'s \<Rightarrow> bool" and history :: "'s \<Rightarrow> string \<Rightarrow> ('j \<times> datetime) list"
  assumes append_open: "inv s \<Longrightarrow> log_is_open el s \<Longrightarrow> log_append el now c e s = (r, s') \<Longrightarrow>
      r = Ok (length (history s c)) \<and> inv s' \<and> log_is_open el s' \<and> log_ttl el s' = log_ttl el s \<and>
      history s' = (history s)(c := history s c @ [(e, now)])"
    and append_closed: "\<not> log_is_open el s \<Longrightarrow> log_append el now c e s = (Err LogClosed, s)"
    and replay_history: "inv s \<Longrightarrow> log_replay el now c n s =
      Ok (filter (\<lambda>x. ee_timestamp x \<ge> replay_cutoff now (log_ttl el s)) (drop n (numbered (history s c))))"
    and close_keeps: "inv s \<Longrightarrow> inv (log_close el s) \<and> \<not> log_is_open el (log_close el s) \<and>
      history (log_close el s) = history s \<and> log_ttl el (log_close el s) = log_ttl el s"

begin

text \<open>The history of a channel is what was appended before the first close.\<close>

lemma log_run_closed:
  "inv s \<Longrightarrow> \<not> log_is_open el s \<Longrightarrow>
     inv (fold (log_step el) ops s) \<and> history (fold (log_step el) ops s) = history s \<and>
     log_ttl el (fold (log_step el) ops s) = log_ttl el s"
proof (induction ops arbitrary: s)
  case (Cons op ops)
  then show ?case
    by (cases op) (simp_all add: append_closed close_keeps)
qed simp

lemma log_run_history:
  "inv s \<Longrightarrow> log_is_open el s \<Longrightarrow>
     inv (fold (log_step el) ops s) \<and> log_ttl el (fold (log_step el) ops s) = log_ttl el s \<and>
     history (fold (log_step el) ops s) c =
       history s c @ List.map_filter (appended c) (takeWhile (\<lambda>op. op \<noteq> Close) ops)"
proof (induction ops arbitrary: s)
  case (Cons op ops)
  show ?case
  proof (cases op)
    case (Append now c' e)
    obtain r s' where app: "log_append el now c' e s = (r, s')" by fastforce
    from append_open [OF Cons.prems app] Cons.IH [of s'] show ?thesis
      by (simp add: Append app)
  next
    case Close
    with Cons.prems close_keeps [of s] log_run_closed [of "log_close el s" ops] show ?thesis
      by simp
  qed
qed (simp add: map_filter_simps)

text \<open>While the log is open, what the sink has accepted is the stored part and the queue.\<close>

lemma drain_stores:
  assumes "serde_total sd" "inv (ds_log k)" "log_is_open el (ds_log k)" "ds_receiver k"
    "ds_queue k = p # rest"
  obtains s where "background_appender el sd now k = k\<lparr>ds_queue := rest, ds_log := s\<rparr>"
    "inv s" "log_is_open el s" "log_ttl el s = log_ttl el (ds_log k)"
    "history s (ds_channel k) = history (ds_log k) (ds_channel k) @ [(encode sd p, now)]"
proof -
  obtain r s where app: "log_append el now (ds_channel k) (encode sd p) (ds_log k) = (r, s)" by fastforce
  from append_open [OF assms(2,3) app] assms(4,5) that [of s] show ?thesis
    by (simp add: background_appender_def to_value_encode [OF assms(1)] app)
qed

lemma sink_run_stores:
  assumes "serde_total sd"
  shows "inv (ds_log k) \<Longrightarrow> log_is_open el (ds_log k) \<Longrightarrow> ds_receiver k \<Longrightarrow>
     length (ds_queue k) \<le> ds_capacity k \<Longrightarrow> list_all (own_channel (ds_channel k)) ops \<Longrightarrow>
     sink_run el sd ops k = (acc, k') \<Longrightarrow>
     (\<exists>stored. ds_queue k @ acc = map fst stored @ ds_queue k' \<and>
        history (ds_log k') (ds_channel k) = history (ds_log k) (ds_channel k) @ map (map_prod (encode sd) id) stored) \<and>
     inv (ds_log k') \<and> log_is_open el (ds_log k') \<and> ds_receiver k' \<and> ds_channel k' = ds_channel k \<and>
     log_ttl el (ds_log k') = log_ttl el (ds_log k) \<and> ds_capacity k' = ds_capacity k \<and>
     length (ds_queue k') \<le> ds_capacity k"
proof (induction ops arbitrary: k acc)
  case (Cons op ops)
  show ?case
  proof (cases op)
    case (Emit p)
    with Cons.prems Cons.IH [of "snd (durable_emit k p)"] show ?thesis
      by (fastforce simp: durable_emit_def split: if_splits prod.splits)
  next
    case (Foreign now c j)
    obtain r s where "log_append el now c j (ds_log k) = (r, s)" by fastforce
    with append_open [OF Cons.prems(1,2) this] Cons.prems Cons.IH [of "k\<lparr>ds_log := s\<rparr>" acc] Foreign
    show ?thesis by auto
  next
    case (Drain now)
    show ?thesis
    proof (cases "ds_queue k")
      case Nil
      with Cons.prems Drain Cons.IH [of k acc] show ?thesis by (simp add: background_appender_def)
    next
      case q: (Cons p rest)
      obtain s where s: "background_appender el sd now k = k\<lparr>ds_queue := rest, ds_log := s\<rparr>"
        "inv s" "log_is_open el s" "log_ttl el s = log_ttl el (ds_log k)"
        "history s (ds_channel k) = history (ds_log k) (ds_channel k) @ [(encode sd p, now)]"
        using drain_stores [OF assms Cons.prems(1,2,3) q] by blast
      let ?k = "k\<lparr>ds_queue := rest, ds_log := s\<rparr>"
      from s q Drain Cons.prems have IH: "(\<exists>stored. rest @ acc = map fst stored @ ds_queue k' \<and>
          history (ds_log k') (ds_channel k) = history s (ds_channel k) @ map (map_prod (encode sd) id) stored) \<and>
        inv (ds_log k') \<and> log_is_open el (ds_log k') \<and> ds_receiver k' \<and> ds_channel k' = ds_channel k \<and>
        log_ttl el (ds_log k') = log_ttl el (ds_log k) \<and> ds_capacity k' = ds_capacity k \<and>
        length (ds_queue k') \<le> ds_capacity k"
        using Cons.IH [of ?k acc] by (auto simp: id_def)
      then obtain stored where "rest @ acc = map fst stored @ ds_queue k'"
        "history (ds_log k') (ds_channel k) = history s (ds_channel k) @ map (map_prod (encode sd) id) stored"
        by blast
      then have "ds_queue k @ acc = map fst ((p, now) # stored) @ ds_queue k' \<and>
          history (ds_log k') (ds_channel k) =
            history (ds_log k) (ds_channel k) @ map (map_prod (encode sd) id) ((p, now) # stored)"
        using s(5) q by simp
      with IH show ?thesis by blast
    qed
  qed
qed (auto intro: exI [of _ "[]"])

lemma sink_drains:
  assumes "serde_total sd"
  shows "inv (ds_log k) \<Longrightarrow> log_is_open el (ds_log k) \<Longrightarrow> ds_receiver k \<Longrightarrow>
     length (ds_queue k) \<le> length ts \<Longrightarrow> ds_queue (snd (sink_run el sd (map Drain ts) k)) = []"
proof (induction ts arbitrary: k)
  case (Cons t ts)
  show ?case
  proof (cases "ds_queue k")
    case Nil
    with Cons show ?thesis by (simp add: background_appender_def)
  next
    case q: (Cons p rest)
    obtain s where "background_appender el sd t k = k\<lparr>ds_queue := rest, ds_log := s\<rparr>"
      "inv s" "log_is_open el s"
      using drain_stores [OF assms Cons.prems(1,2,3) q] by blast
    with Cons q show ?thesis by simp
  qed
qed simp

lemma replay_stored:
  assumes "inv s" "serde_total sd" "serde_roundtrip sd"
    "history s c = map (map_prod (encode sd) id) stored"
  shows "replay_typed el sd now c n s =
    Ok (filter (\<lambda>x. ee_timestamp x \<ge> replay_cutoff now (log_ttl el s)) (drop n (numbered stored)))"
  by (simp add: replay_typed_def replay_history [OF assms(1)] assms(4) numbered_map drop_map filter_map
      comp_def decode_encoded [OF assms(2,3)])

end

text \<open>The representation invariant of the in-memory log, and its history.\<close>

definition memory_history :: "'j MemoryEventLog \<Rightarrow> string \<Rightarrow> ('j \<times> datetime) list" where
  "memory_history l c = map (\<lambda>e. (ee_event e, ee_timestamp e)) (channel_entries c l)"

definition memory_inv :: "'j MemoryEventLog \<Rightarrow> bool" where
  "memory_inv l \<longleftrightarrow> (\<forall>c. channel_entries c l = numbered (memory_history l c))"

lemma channel_entries_upd:
  "channel_entries c' (l\<lparr>ml_channels := fmupd c es (ml_channels l)\<rparr>) = (if c' = c then es else channel_entries c' l)"
  by (simp add: channel_entries_def)

interpretation memory: EventLog_laws memory_log memory_inv memory_history
proof
  fix l l' :: "'j MemoryEventLog" and now c e r
  assume "memory_inv l" and "log_is_open memory_log l" and "log_append memory_log now c e l = (r, l')"
  then show "r = Ok (length (memory_history l c)) \<and> memory_inv l' \<and> log_is_open memory_log l' \<and>
      log_ttl memory_log l' = log_ttl memory_log l \<and>
      memory_history l' = (memory_history l)(c := memory_history l c @ [(e, now)])"
    by (auto simp: memory_log_def memory_append_def memory_inv_def memory_history_def Let_def
        channel_entries_upd numbered_snoc entry_at_def fun_eq_iff)
next
  fix l :: "'j MemoryEventLog" and now c n
  assume "memory_inv l"
  then show "log_replay memory_log now c n l =
      Ok (filter (\<lambda>x. ee_timestamp x \<ge> replay_cutoff now (log_ttl memory_log l)) (drop n (numbered (memory_history l c))))"
    by (cases "fmlookup (ml_channels l) c")
      (auto simp: memory_log_def memory_replay_def memory_inv_def filter_numbered [symmetric]
        dest!: spec [of _ c] simp: channel_entries_def)
qed (auto simp: memory_log_def memory_append_def memory_close_def memory_inv_def memory_history_def
    channel_entries_def)

section \<open>Properties\<close>

lemma memory_new [simp]:
  "memory_inv (memory_log_new ttl)" "ml_open (memory_log_new ttl)" "ml_ttl (memory_log_new ttl) = ttl"
  "memory_history (memory_log_new ttl) c = []"
  by (simp_all add: memory_inv_def memory_history_def memory_log_new_def channel_entries_def)

lemma memory_log_sel [simp]:
  "log_is_open memory_log = ml_open" "log_ttl memory_log = ml_ttl" "log_replay memory_log = memory_replay"
  "log_append memory_log = memory_append" "log_close memory_log = memory_close"
  by (simp_all add: memory_log_def)

text \<open>
  C19. Replay is exact: after any sequence of appends to any channels, with the log closed at any
  point, a replay returns exactly the events appended to the channel before the log was closed, in
  their order and numbered from zero, without those before the offset and those older than the time
  to live.
\<close>

theorem event_log_replay_exact:
  "memory_replay now c n (fold (log_step memory_log) ops (memory_log_new ttl)) =
     Ok (filter (\<lambda>x. ee_timestamp x \<ge> replay_cutoff now ttl)
       (drop n (numbered (List.map_filter (appended c) (takeWhile (\<lambda>op. op \<noteq> Close) ops)))))"
  using memory.log_run_history [of "memory_log_new ttl" ops c]
    memory.replay_history [of "fold (log_step memory_log) ops (memory_log_new ttl)" now c n]
  by simp

text \<open>
  C22. The durable sink loses nothing while its log is open: in every interleaving of emissions,
  iterations of the background task and appends of others to their own channels, the accepted parts
  are those stored followed by those still queued, in the order of emission; a replay decodes exactly
  the stored ones that are from the offset on and not expired; the queue never exceeds its capacity;
  and as many iterations as the capacity store everything. The codec of the parts has to be total and
  to read back what it writes.
\<close>

theorem durable_sink_persists:
  assumes "serde_total sd" "serde_roundtrip sd"
    and "durable_new (memory_log_new ttl) c cap = Some k0"
    and "list_all (own_channel c) ops" and "sink_run memory_log sd ops k0 = (acc, k)"
  shows "\<exists>stored. acc = map fst stored @ ds_queue k \<and> length (ds_queue k) \<le> cap \<and>
     (\<forall>now n. durable_replay memory_log sd now n k =
        Ok (filter (\<lambda>x. ee_timestamp x \<ge> replay_cutoff now ttl) (drop n (numbered stored)))) \<and>
     (\<forall>ts. cap \<le> length ts \<longrightarrow> ds_queue (snd (sink_run memory_log sd (map Drain ts) k)) = [])"
proof -
  have k0: "ds_queue k0 = []" "ds_capacity k0 = cap" "ds_receiver k0" "ds_log k0 = memory_log_new ttl"
    "ds_channel k0 = c"
    using assms(3) by (auto simp: durable_new_def split: if_splits)
  obtain stored where st: "acc = map fst stored @ ds_queue k"
    "memory_history (ds_log k) c = map (map_prod (encode sd) id) stored"
    and k: "memory_inv (ds_log k)" "ml_open (ds_log k)" "ds_receiver k" "ds_channel k = c"
    "ml_ttl (ds_log k) = ttl" "length (ds_queue k) \<le> cap"
    using memory.sink_run_stores [OF assms(1) _ _ _ _ _ assms(5)] assms(4) k0 by auto
  from k have "durable_replay memory_log sd now n k =
      Ok (filter (\<lambda>x. ee_timestamp x \<ge> replay_cutoff now ttl) (drop n (numbered stored)))" for now n
    using memory.replay_stored [OF k(1) assms(1,2) st(2), of now n] by (simp add: durable_replay_def)
  moreover from k have "ds_queue (snd (sink_run memory_log sd (map Drain ts) k)) = []"
    if "cap \<le> length ts" for ts
    using memory.sink_drains [OF assms(1), of k ts] that by simp
  ultimately show ?thesis using st(1) k(6) by blast
qed

definition sample_sink :: "((nat, unit) StreamPart MemoryEventLog, nat, unit) DurableEventSink" where
  "sample_sink = \<lparr>ds_queue = [], ds_capacity = 1, ds_receiver = True, ds_log = memory_log_new 10,
     ds_channel = ''ch'', ds_open = True\<rparr>"

definition sample_ops :: "(nat, unit, (nat, unit) StreamPart) sink_op list" where
  "sample_ops = [Emit (Text ''a''), Emit (Text ''b''), Foreign 1 ''x'' StepStart, Drain 2, Emit (Text ''c'')]"

theorem durable_sink_persists_witness:
  "let (acc, k) = sink_run memory_log serde_id sample_ops sample_sink
   in acc = [Text ''a'', Text ''c''] \<and> ds_queue k = [Text ''c''] \<and>
      (\<exists>stored. acc = map fst stored @ ds_queue k \<and>
         durable_replay memory_log serde_id 5 0 k =
           Ok (filter (\<lambda>x. ee_timestamp x \<ge> replay_cutoff 5 10) (numbered stored)))"
proof -
  obtain acc k where run: "sink_run memory_log serde_id sample_ops sample_sink = (acc, k)" by fastforce
  have "acc = [Text ''a'', Text ''c''] \<and> ds_queue k = [Text ''c'']"
    using run by (auto simp: sample_ops_def sample_sink_def durable_emit_def background_appender_def
        serde_id_def memory_append_def Let_def memory_log_new_def channel_entries_def)
  moreover have new: "durable_new (memory_log_new 10) ''ch'' 1 = Some sample_sink"
    by (simp add: durable_new_def sample_sink_def)
  have own: "list_all (own_channel ''ch'') sample_ops" by (simp add: sample_ops_def)
  from durable_sink_persists [OF serde_id_ok(2,1) new own run] obtain stored where
    "acc = map fst stored @ ds_queue k"
    "\<forall>now n. durable_replay memory_log serde_id now n k =
       Ok (filter (\<lambda>x. ee_timestamp x \<ge> replay_cutoff now 10) (drop n (numbered stored)))" by blast
  then have "\<exists>stored. acc = map fst stored @ ds_queue k \<and> durable_replay memory_log serde_id 5 0 k =
      Ok (filter (\<lambda>x. ee_timestamp x \<ge> replay_cutoff 5 10) (numbered stored))"
    by (intro exI [of _ stored]) simp
  ultimately show ?thesis by (simp add: run)
qed

text \<open>
  Closing the sink closes the log before the queue is drained: a part that was accepted is then
  refused by the log and lost, and the background task ends.
\<close>

lemma close_loses_accepted_parts:
  "let k = the (durable_new (memory_log_new 10) ''ch'' 4);
       (ok, k1) = durable_emit k (Text ''a'' :: (nat, unit) StreamPart);
       k2 = background_appender memory_log serde_id 1 (durable_close memory_log k1)
   in ok \<and> ds_queue k2 = [] \<and> \<not> ds_receiver k2 \<and> durable_replay memory_log serde_id 2 0 k2 = Ok []"
  by (simp add: durable_new_def durable_emit_def durable_close_def background_appender_def serde_id_def
      memory_append_def memory_close_def memory_log_new_def durable_replay_def replay_typed_def memory_replay_def)

end
