(* ===== verification/Job_Registry.thy ===== *)
theory Job_Registry
  imports Prelude
begin

text \<open>
  The job state algebra of \<open>crates/agent-fw-algebra/src/job_registry.rs\<close>: the phase as a
  join-semilattice, the pause flag as a two-element Boolean algebra, and their product. The
  derived and hand-written \<open>Ord\<close> implementations are instances of the class \<open>linorder\<close>.
\<close>

section \<open>Pause state\<close>

datatype PauseState = Unpaused | Paused

fun pause_is_paused :: "PauseState \<Rightarrow> bool" where
  "pause_is_paused Paused = True"
| "pause_is_paused Unpaused = False"

definition pause_join :: "PauseState \<Rightarrow> PauseState \<Rightarrow> PauseState" where
  "pause_join a b = (if a = Paused \<or> b = Paused then Paused else Unpaused)"

definition pause_meet :: "PauseState \<Rightarrow> PauseState \<Rightarrow> PauseState" where
  "pause_meet a b = (if a = Unpaused \<or> b = Unpaused then Unpaused else Paused)"

fun toggle :: "PauseState \<Rightarrow> PauseState" where
  "toggle Unpaused = Paused"
| "toggle Paused = Unpaused"

text \<open>The discriminants the order compares.\<close>

fun pause_discriminant :: "PauseState \<Rightarrow> nat" where
  "pause_discriminant Unpaused = 0"
| "pause_discriminant Paused = 1"

instantiation PauseState :: linorder
begin

definition less_eq_PauseState :: "PauseState \<Rightarrow> PauseState \<Rightarrow> bool" where
  "less_eq_PauseState a b \<longleftrightarrow> pause_discriminant a \<le> pause_discriminant b"

definition less_PauseState :: "PauseState \<Rightarrow> PauseState \<Rightarrow> bool" where
  "less_PauseState a b \<longleftrightarrow> pause_discriminant a < pause_discriminant b"

instance
proof
  fix a b :: PauseState
  show "a \<le> b \<Longrightarrow> b \<le> a \<Longrightarrow> a = b"
    by (cases a; cases b) (simp_all add: less_eq_PauseState_def)
qed (auto simp: less_eq_PauseState_def less_PauseState_def)

end

section \<open>Job phase\<close>

datatype JobPhase = PhaseQueued | PhaseRunning | PhaseCompleted | PhaseFailed | PhaseCancelled

fun phase_is_terminal :: "JobPhase \<Rightarrow> bool" where
  "phase_is_terminal PhaseCompleted = True"
| "phase_is_terminal PhaseFailed = True"
| "phase_is_terminal PhaseCancelled = True"
| "phase_is_terminal _ = False"

fun phase_discriminant :: "JobPhase \<Rightarrow> nat" where
  "phase_discriminant PhaseQueued = 0"
| "phase_discriminant PhaseRunning = 1"
| "phase_discriminant PhaseCompleted = 2"
| "phase_discriminant PhaseFailed = 3"
| "phase_discriminant PhaseCancelled = 4"

instantiation JobPhase :: linorder
begin

definition less_eq_JobPhase :: "JobPhase \<Rightarrow> JobPhase \<Rightarrow> bool" where
  "less_eq_JobPhase a b \<longleftrightarrow> phase_discriminant a \<le> phase_discriminant b"

definition less_JobPhase :: "JobPhase \<Rightarrow> JobPhase \<Rightarrow> bool" where
  "less_JobPhase a b \<longleftrightarrow> phase_discriminant a < phase_discriminant b"

instance
proof
  fix a b :: JobPhase
  show "a \<le> b \<Longrightarrow> b \<le> a \<Longrightarrow> a = b"
    by (cases a; cases b) (simp_all add: less_eq_JobPhase_def)
qed (auto simp: less_eq_JobPhase_def less_JobPhase_def)

end

text \<open>\<open>std::cmp::max\<close>.\<close>

definition phase_join :: "JobPhase \<Rightarrow> JobPhase \<Rightarrow> JobPhase" where
  "phase_join a b = (if b < a then a else b)"

section \<open>Job state\<close>

record JobState =
  js_phase :: JobPhase
  js_pause :: PauseState

definition js_queued :: JobState where
  "js_queued = \<lparr>js_phase = PhaseQueued, js_pause = Unpaused\<rparr>"

definition js_running :: JobState where
  "js_running = \<lparr>js_phase = PhaseRunning, js_pause = Unpaused\<rparr>"

definition advance_phase :: "JobPhase \<Rightarrow> JobState \<Rightarrow> JobState" where
  "advance_phase new_phase s = \<lparr>js_phase = phase_join (js_phase s) new_phase, js_pause = js_pause s\<rparr>"

definition toggle_pause :: "JobState \<Rightarrow> JobState" where
  "toggle_pause s =
     (if phase_is_terminal (js_phase s) then s
      else \<lparr>js_phase = js_phase s, js_pause = toggle (js_pause s)\<rparr>)"

definition set_paused :: "bool \<Rightarrow> JobState \<Rightarrow> JobState" where
  "set_paused b s =
     (if phase_is_terminal (js_phase s) then s
      else \<lparr>js_phase = js_phase s, js_pause = (if b then Paused else Unpaused)\<rparr>)"

definition js_is_terminal :: "JobState \<Rightarrow> bool" where
  "js_is_terminal s \<longleftrightarrow> phase_is_terminal (js_phase s)"

definition js_is_paused :: "JobState \<Rightarrow> bool" where
  "js_is_paused s \<longleftrightarrow> \<not> phase_is_terminal (js_phase s) \<and> pause_is_paused (js_pause s)"

definition is_effectively_paused :: "JobState \<Rightarrow> bool" where
  "is_effectively_paused s \<longleftrightarrow> js_phase s = PhaseRunning \<and> pause_is_paused (js_pause s)"

definition js_le :: "JobState \<Rightarrow> JobState \<Rightarrow> bool" where
  "js_le a b \<longleftrightarrow> js_phase a < js_phase b \<or> (js_phase a = js_phase b \<and> js_pause a \<le> js_pause b)"

fun display_JobPhase :: "JobPhase \<Rightarrow> string" where
  "display_JobPhase PhaseQueued = ''queued''"
| "display_JobPhase PhaseRunning = ''running''"
| "display_JobPhase PhaseCompleted = ''completed''"
| "display_JobPhase PhaseFailed = ''failed''"
| "display_JobPhase PhaseCancelled = ''cancelled''"

definition display_JobState :: "JobState \<Rightarrow> string" where
  "display_JobState s =
     (if is_effectively_paused s then ''running (paused)'' else display_JobPhase (js_phase s))"

datatype JobKind = Eval | Ingestion | Profiling

fun display_JobKind :: "JobKind \<Rightarrow> string" where
  "display_JobKind Eval = ''eval''"
| "display_JobKind Ingestion = ''ingestion''"
| "display_JobKind Profiling = ''profiling''"

section \<open>Laws\<close>

lemma phase_join_max: "phase_join a b = max a b"
  by (auto simp: phase_join_def max_def)

lemma pause_join_max: "pause_join a b = max a b" and pause_meet_min: "pause_meet a b = min a b"
  by (cases a; cases b; simp add: pause_join_def pause_meet_def max_def min_def less_eq_PauseState_def)+

interpretation phase: semilattice phase_join
  by unfold_locales (simp_all add: phase_join_max max.assoc max.commute max.left_commute)

interpretation pause_or: semilattice pause_join
  by unfold_locales (simp_all add: pause_join_max max.assoc max.commute max.left_commute)

interpretation pause_and: semilattice pause_meet
  by unfold_locales (simp_all add: pause_meet_min min.assoc min.commute min.left_commute)

lemma terminal_iff: "phase_is_terminal p \<longleftrightarrow> PhaseCompleted \<le> p"
  by (cases p) (simp_all add: less_eq_JobPhase_def)

lemma toggle_toggle [simp]: "toggle (toggle a) = a"
  by (cases a) simp_all

text \<open>Any sequence of updates of one job.\<close>

datatype job_op = Advance JobPhase | Toggle | SetPaused bool

fun job_step :: "job_op \<Rightarrow> JobState \<Rightarrow> JobState" where
  "job_step (Advance p) s = advance_phase p s"
| "job_step Toggle s = toggle_pause s"
| "job_step (SetPaused b) s = set_paused b s"

fun advances :: "job_op \<Rightarrow> JobPhase set" where
  "advances (Advance p) = {p}"
| "advances _ = {}"

lemma job_step_phase: "js_phase (job_step op s) = Max (insert (js_phase s) (advances op))"
  by (cases op) (simp_all add: advance_phase_def toggle_pause_def set_paused_def phase_join_max)

lemma advances_finite [simp]: "finite (advances op)"
  by (cases op) simp_all

text \<open>
  The job laws under any interleaving of updates: the phase is the greatest of the initial one
  and all the requested ones, so the order and repetition of the requests do not matter and a
  terminal job stays terminal; a terminal job is never reported as paused and further pause
  requests leave it as it is; pausing twice is the identity on a live job and never moves the phase.
\<close>

theorem job_state_laws:
  "js_phase (fold job_step ops s) = Max (insert (js_phase s) (\<Union> (advances ` set ops))) \<and>
   (if js_is_terminal s
    then js_is_terminal (fold job_step ops s) \<and> \<not> js_is_paused (fold job_step ops s) \<and>
         toggle_pause s = s \<and> set_paused b s = s
    else toggle_pause (toggle_pause s) = s \<and> js_phase (toggle_pause s) = js_phase s \<and>
         js_is_paused (set_paused b s) = b)"
proof -
  have phase: "js_phase (fold job_step ops s) = Max (insert (js_phase s) (\<Union> (advances ` set ops)))" for s
  proof (induction ops arbitrary: s)
    case (Cons op ops)
    have "Max (insert (Max (insert (js_phase s) (advances op))) U) = Max (insert (js_phase s) (advances op \<union> U))"
      if "finite U" for U
      using that by (cases op; cases "U = {}") (simp_all add: Max_insert max.assoc)
    with Cons show ?case by (simp add: job_step_phase)
  qed simp
  have "PhaseCompleted \<le> js_phase (fold job_step ops s)" if "PhaseCompleted \<le> js_phase s"
    using that by (auto simp: phase intro: order_trans [OF _ Max_ge])
  with phase show ?thesis
    by (cases "js_pause s")
      (auto simp: js_is_terminal_def js_is_paused_def toggle_pause_def set_paused_def terminal_iff)
qed

end
