(* ===== verification/Schedule.thy ===== *)
theory Schedule
  imports Prelude
begin

text \<open>
  Recurrence schedules and the loops they drive, \<open>crates/agent-fw-algebra/src/schedule.rs\<close>.

  \<^item> The operations on \<open>f64\<close> that exponential back-off uses are a record of functions, a parameter of
    the step function; no theorem assumes anything about them.
  \<^item> The step function returns \<open>None\<close> where adding durations overflows, which panics in Rust.
  \<^item> A loop may run for ever, so it is a \<^theory_text>\<open>partial_function\<close> into \<open>option\<close>; \<open>None\<close> is a loop that does
    not return, because it runs for ever or because a step panicked.
  \<^item> The clock, the operation, the sleep and the cancellation token are a record of functions on a
    world state, so they may behave in any way at each call.
\<close>

section \<open>Schedules\<close>

unbundle bit_operations_syntax

datatype Decision = Continue duration | Done

fun decision_delay :: "Decision \<Rightarrow> duration option" where
  "decision_delay (Continue d) = Some d"
| "decision_delay Done = None"

fun is_continue :: "Decision \<Rightarrow> bool" where
  "is_continue (Continue d) = True"
| "is_continue Done = False"

datatype 'f DelayPattern =
    Fixed duration
  | Exponential duration 'f duration
  | Fibonacci duration duration duration
  | Immediate

datatype 'f Schedule =
    Never
  | Once
  | Recurs u32 "'f DelayPattern"
  | Forever "'f DelayPattern"
  | Union "'f Schedule" "'f Schedule"
  | Intersect "'f Schedule" "'f Schedule"
  | UpTo "'f Schedule" duration
  | Capped "'f Schedule" duration
  | Jittered "'f Schedule" u64
  | Delayed "'f Schedule" duration

text \<open>The floating-point operations: conversion of a millisecond count, product, \<open>powi\<close>, \<open>min\<close>,
  \<open>is_finite\<close>, comparison with zero and the saturating conversion to \<open>u64\<close>.\<close>

record 'f f64_ops =
  f64_of :: "nat \<Rightarrow> 'f"
  f64_mult :: "'f \<Rightarrow> 'f \<Rightarrow> 'f"
  f64_powi :: "'f \<Rightarrow> int \<Rightarrow> 'f"
  f64_min :: "'f \<Rightarrow> 'f \<Rightarrow> 'f"
  f64_is_finite :: "'f \<Rightarrow> bool"
  f64_nonneg :: "'f \<Rightarrow> bool"
  f64_to_u64 :: "'f \<Rightarrow> u64"

text \<open>\<open>as_millis() as u64\<close> keeps the low 64 bits.\<close>

definition millis_u64 :: "duration \<Rightarrow> u64" where
  "millis_u64 d = of_nat (as_millis d)"

fun fib_loop :: "nat \<Rightarrow> u64 \<Rightarrow> u64 \<Rightarrow> u64" where
  "fib_loop 0 a b = b"
| "fib_loop (Suc n) a b = fib_loop n b (sat_add a b)"

fun delay_for :: "'f f64_ops \<Rightarrow> 'f DelayPattern \<Rightarrow> u32 \<Rightarrow> duration" where
  "delay_for F (Fixed d) attempt = d"
| "delay_for F Immediate attempt = 0"
| "delay_for F (Exponential base factor max_d) attempt =
     (let base_ms = f64_of F (as_millis base);
          exponent = (if unat attempt < 2 ^ 31 then unat attempt else 2 ^ 31 - 1);
          uncapped_ms = f64_mult F base_ms (f64_powi F factor (int exponent));
          max_ms = f64_of F (as_millis max_d);
          capped_ms = f64_min F uncapped_ms max_ms
      in if f64_is_finite F capped_ms \<and> f64_nonneg F capped_ms
         then from_millis (unat (f64_to_u64 F capped_ms)) else 0)"
| "delay_for F (Fibonacci one two max_d) attempt =
     (if attempt = 0 then min one max_d
      else if attempt = 1 then min two max_d
      else from_millis (unat (min (fib_loop (unat attempt - 1) (millis_u64 one) (millis_u64 two)) (millis_u64 max_d))))"

definition never :: "'f Schedule" where "never = Never"

definition once :: "'f Schedule" where "once = Once"

definition recurs :: "u32 \<Rightarrow> 'f Schedule" where "recurs n = Recurs n Immediate"

definition forever :: "'f Schedule" where "forever = Forever Immediate"

definition spaced :: "duration \<Rightarrow> 'f Schedule" where "spaced interval = Forever (Fixed interval)"

definition DEFAULT_MAX_DELAY :: duration where "DEFAULT_MAX_DELAY = from_secs 3600"

definition exponential_with_max :: "duration \<Rightarrow> 'f \<Rightarrow> duration \<Rightarrow> 'f Schedule" where
  "exponential_with_max base factor max_delay = Forever (Exponential base factor max_delay)"

definition exponential :: "duration \<Rightarrow> 'f \<Rightarrow> 'f Schedule" where
  "exponential base factor = exponential_with_max base factor DEFAULT_MAX_DELAY"

definition fibonacci_with_max :: "duration \<Rightarrow> duration \<Rightarrow> duration \<Rightarrow> 'f Schedule" where
  "fibonacci_with_max one two max_delay = Forever (Fibonacci one two max_delay)"

definition fibonacci :: "duration \<Rightarrow> duration \<Rightarrow> 'f Schedule" where
  "fibonacci one two = fibonacci_with_max one two DEFAULT_MAX_DELAY"

definition union_sched :: "'f Schedule \<Rightarrow> 'f Schedule \<Rightarrow> 'f Schedule" where "union_sched a b = Union a b"

definition intersect :: "'f Schedule \<Rightarrow> 'f Schedule \<Rightarrow> 'f Schedule" where "intersect a b = Intersect a b"

definition take_sched :: "'f Schedule \<Rightarrow> u32 \<Rightarrow> 'f Schedule" where
  "take_sched s n = intersect s (recurs n)"

definition up_to :: "'f Schedule \<Rightarrow> duration \<Rightarrow> 'f Schedule" where "up_to s d = UpTo s d"

definition capped :: "'f Schedule \<Rightarrow> duration \<Rightarrow> 'f Schedule" where "capped s m = Capped s m"

text \<open>The seed is drawn from the hasher's random state once, when the schedule is built.\<close>

definition jittered :: "u64 \<Rightarrow> 'f Schedule \<Rightarrow> 'f Schedule" where "jittered seed s = Jittered s seed"

definition delayed :: "'f Schedule \<Rightarrow> duration \<Rightarrow> 'f Schedule" where "delayed s d = Delayed s d"

section \<open>The step function\<close>

definition jitter_hash :: "u64 \<Rightarrow> u64 \<Rightarrow> u32 \<Rightarrow> u64" where
  "jitter_hash seed delay_ms attempt =
     (let z = seed + delay_ms * 0x9E3779B97F4A7C15 + ucast attempt;
          z = (z XOR drop_bit 30 z) * 0xBF58476D1CE4E5B9;
          z = (z XOR drop_bit 27 z) * 0x94D049BB133111EB
      in z XOR drop_bit 31 z)"

definition jitter :: "u64 \<Rightarrow> u32 \<Rightarrow> duration \<Rightarrow> duration" where
  "jitter seed attempt d =
     (let ms = millis_u64 d
      in if ms = 0 then 0
         else let half = ms div 2;
                  range = ms - half + 1;
                  hash = jitter_hash seed ms attempt;
                  jittered = half + hash mod range
              in from_millis (unat (max jittered 1)))"

fun union_decision :: "Decision \<Rightarrow> Decision \<Rightarrow> Decision" where
  "union_decision (Continue a) (Continue b) = Continue (min a b)"
| "union_decision (Continue d) Done = Continue d"
| "union_decision Done (Continue d) = Continue d"
| "union_decision Done Done = Done"

fun intersect_decision :: "Decision \<Rightarrow> Decision \<Rightarrow> Decision" where
  "intersect_decision (Continue a) (Continue b) = Continue (max a b)"
| "intersect_decision _ _ = Done"

text \<open>The largest \<open>Duration\<close>; a sum above it panics.\<close>

definition duration_max :: duration where
  "duration_max = from_secs (2 ^ 64 - 1) + 999999999"

fun map_continue :: "(duration \<Rightarrow> duration) \<Rightarrow> Decision \<Rightarrow> Decision" where
  "map_continue f (Continue d) = Continue (f d)"
| "map_continue f Done = Done"

text \<open>Both operands are evaluated; a panic of either is a panic.\<close>

definition both :: "('a \<Rightarrow> 'a \<Rightarrow> 'a) \<Rightarrow> 'a option \<Rightarrow> 'a option \<Rightarrow> 'a option" where
  "both f x y = (case (x, y) of (Some a, Some b) \<Rightarrow> Some (f a b) | _ \<Rightarrow> None)"

fun sched_step :: "'f f64_ops \<Rightarrow> 'f Schedule \<Rightarrow> u32 \<Rightarrow> duration \<Rightarrow> Decision option" where
  "sched_step F Never attempt elapsed = Some Done"
| "sched_step F Once attempt elapsed = Some (if attempt = 0 then Continue 0 else Done)"
| "sched_step F (Recurs m delays) attempt elapsed =
     Some (if attempt > m then Done else Continue (delay_for F delays attempt))"
| "sched_step F (Forever delays) attempt elapsed = Some (Continue (delay_for F delays attempt))"
| "sched_step F (Union a b) attempt elapsed =
     both union_decision (sched_step F a attempt elapsed) (sched_step F b attempt elapsed)"
| "sched_step F (Intersect a b) attempt elapsed =
     both intersect_decision (sched_step F a attempt elapsed) (sched_step F b attempt elapsed)"
| "sched_step F (UpTo inner max_elapsed) attempt elapsed =
     (if elapsed \<ge> max_elapsed then Some Done else sched_step F inner attempt elapsed)"
| "sched_step F (Capped inner max_delay) attempt elapsed =
     map_option (map_continue (\<lambda>d. min d max_delay)) (sched_step F inner attempt elapsed)"
| "sched_step F (Jittered inner seed) attempt elapsed =
     map_option (map_continue (jitter seed attempt)) (sched_step F inner attempt elapsed)"
| "sched_step F (Delayed inner initial_delay) attempt elapsed =
     (case sched_step F inner attempt elapsed of
        None \<Rightarrow> None
      | Some (Continue d) \<Rightarrow>
          if attempt = 0
          then (if d + initial_delay \<le> duration_max then Some (Continue (d + initial_delay)) else None)
          else Some (Continue d)
      | Some Done \<Rightarrow> Some Done)"

section \<open>Schedule-driven loops\<close>

record PausableSleepOutcome =
  sleep_completed :: bool
  sleep_paused :: duration

record 'v ScheduleOutcome =
  so_value :: 'v
  so_attempts :: u32
  so_total_elapsed :: duration
  so_paused_time :: duration
  so_cancelled :: bool

text \<open>What a loop calls: \<open>start.elapsed()\<close>, the operation, \<open>pausable_sleep\<close> and \<open>is_cancelled\<close>.\<close>

record ('w, 'v) sched_env =
  elapsed_now :: "'w \<Rightarrow> duration \<times> 'w"
  run_op :: "'w \<Rightarrow> 'v \<times> 'w"
  run_sleep :: "duration \<Rightarrow> 'w \<Rightarrow> PausableSleepOutcome \<times> 'w"
  is_cancelled :: "'w \<Rightarrow> bool \<times> 'w"

definition loop_return ::
  "('w, 'v) sched_env \<Rightarrow> 'v \<Rightarrow> u32 \<Rightarrow> duration \<Rightarrow> bool \<Rightarrow> 'w \<Rightarrow> 'v ScheduleOutcome option \<times> 'w" where
  "loop_return E v attempt paused cancelled w =
     (let (t, w) = elapsed_now E w
      in (Some \<lparr>so_value = v, so_attempts = attempt, so_total_elapsed = t, so_paused_time = paused,
            so_cancelled = cancelled\<rparr>, w))"

text \<open>
  One iteration. The left result is the value the loop returns, the right one the state it goes on
  with. \<open>stop\<close> is the test after the operation; the three loops differ only in it.
\<close>

definition sched_iter ::
  "'f f64_ops \<Rightarrow> 'f Schedule \<Rightarrow> ('w, 'v) sched_env \<Rightarrow> ('v \<Rightarrow> 'w \<Rightarrow> bool \<times> 'w) \<Rightarrow>
   u32 \<Rightarrow> duration \<Rightarrow> 'v option \<Rightarrow> 'w \<Rightarrow>
   (('v ScheduleOutcome option \<times> 'w) + (u32 \<times> duration \<times> 'v \<times> 'w)) option" where
  "sched_iter F s E stop attempt paused_total last_value w =
     (let (step_elapsed, w) = elapsed_now E w
      in case sched_step F s attempt step_elapsed of
           None \<Rightarrow> None
         | Some Done \<Rightarrow>
             Some (Inl (case last_value of
                          None \<Rightarrow> (None, w)
                        | Some v \<Rightarrow> loop_return E v attempt paused_total False w))
         | Some (Continue delay) \<Rightarrow>
             (let (v, w) = run_op E w; (stopped, w) = stop v w; attempt = attempt + 1
              in if stopped then Some (Inl (loop_return E v attempt paused_total False w))
                 else let (e, w) = elapsed_now E w
                      in case sched_step F s attempt e of
                           None \<Rightarrow> None
                         | Some Done \<Rightarrow> Some (Inl (loop_return E v attempt paused_total False w))
                         | Some (Continue _) \<Rightarrow>
                             (let (slept, w) =
                                (if delay = 0 then (\<lparr>sleep_completed = True, sleep_paused = 0\<rparr>, w)
                                 else run_sleep E delay w);
                                paused_total = paused_total + sleep_paused slept
                              in if \<not> sleep_completed slept
                                 then Some (Inl (loop_return E v attempt paused_total True w))
                                 else let (c, w) = is_cancelled E w
                                      in if c then Some (Inl (loop_return E v attempt paused_total True w))
                                         else Some (Inr (attempt, paused_total, v, w)))))"

partial_function (option) sched_loop ::
  "'f f64_ops \<Rightarrow> 'f Schedule \<Rightarrow> ('w, 'v) sched_env \<Rightarrow> ('v \<Rightarrow> 'w \<Rightarrow> bool \<times> 'w) \<Rightarrow>
   u32 \<Rightarrow> duration \<Rightarrow> 'v option \<Rightarrow> 'w \<Rightarrow> ('v ScheduleOutcome option \<times> 'w) option" where
  "sched_loop F s E stop attempt paused_total last_value w =
     (case sched_iter F s E stop attempt paused_total last_value w of
        None \<Rightarrow> None
      | Some x \<Rightarrow>
          (case x of
             Inl r \<Rightarrow> Some r
           | Inr y \<Rightarrow> sched_loop F s E stop (fst y) (fst (snd y)) (Some (fst (snd (snd y)))) (snd (snd (snd y)))))"

definition repeat_on_schedule ::
  "'f f64_ops \<Rightarrow> 'f Schedule \<Rightarrow> ('w, 'v) sched_env \<Rightarrow> 'w \<Rightarrow> ('v ScheduleOutcome option \<times> 'w) option" where
  "repeat_on_schedule F s E w = sched_loop F s E (\<lambda>_ w. (False, w)) 0 0 None w"

definition retry_on_schedule ::
  "'f f64_ops \<Rightarrow> 'f Schedule \<Rightarrow> ('w, ('e, 'a) result) sched_env \<Rightarrow> 'w \<Rightarrow>
   (('e, 'a) result ScheduleOutcome option \<times> 'w) option" where
  "retry_on_schedule F s E w = sched_loop F s E (\<lambda>v w. (is_ok v, w)) 0 0 None w"

definition stop_when :: "('e \<Rightarrow> 'w \<Rightarrow> bool \<times> 'w) \<Rightarrow> ('e, 'a) result \<Rightarrow> 'w \<Rightarrow> bool \<times> 'w" where
  "stop_when should_retry v w =
     (case v of
        Ok _ \<Rightarrow> (True, w)
      | Err e \<Rightarrow> (let (again, w) = should_retry e w in (\<not> again, w)))"

definition retry_on_schedule_when ::
  "'f f64_ops \<Rightarrow> 'f Schedule \<Rightarrow> ('w, ('e, 'a) result) sched_env \<Rightarrow> ('e \<Rightarrow> 'w \<Rightarrow> bool \<times> 'w) \<Rightarrow> 'w \<Rightarrow>
   (('e, 'a) result ScheduleOutcome option \<times> 'w) option" where
  "retry_on_schedule_when F s E should_retry w = sched_loop F s E (stop_when should_retry) 0 0 None w"

section \<open>The lattice of decisions\<close>

text \<open>
  Decisions are ordered by their delay with \<open>Done\<close> above all of them; then \<open>union\<close> takes the
  smaller and \<open>intersect\<close> the greater decision.
\<close>

instantiation Decision :: linorder
begin

fun less_eq_Decision :: "Decision \<Rightarrow> Decision \<Rightarrow> bool" where
  "less_eq_Decision _ Done \<longleftrightarrow> True"
| "less_eq_Decision Done (Continue b) \<longleftrightarrow> False"
| "less_eq_Decision (Continue a) (Continue b) \<longleftrightarrow> a \<le> b"

definition less_Decision :: "Decision \<Rightarrow> Decision \<Rightarrow> bool" where
  "less_Decision a b \<longleftrightarrow> a \<le> b \<and> \<not> b \<le> a"

instance
proof
  fix a b c :: Decision
  show "a < b \<longleftrightarrow> a \<le> b \<and> \<not> b \<le> a" by (rule less_Decision_def)
  show "a \<le> a" by (cases a) simp_all
  show "a \<le> b \<Longrightarrow> b \<le> c \<Longrightarrow> a \<le> c" by (cases a; cases b; cases c) simp_all
  show "a \<le> b \<Longrightarrow> b \<le> a \<Longrightarrow> a = b" by (cases a; cases b) simp_all
  show "a \<le> b \<or> b \<le> a" by (cases a; cases b) auto
qed

end

lemma union_decision_min: "union_decision a b = min a b"
  by (cases a; cases b) (simp_all add: min_def)

lemma intersect_decision_max: "intersect_decision a b = max a b"
  by (cases a; cases b) (simp_all add: max_def)

interpretation union_dec: semilattice_neutr union_decision Done
proof
  fix a :: Decision
  show "union_decision a Done = a" by (cases a) simp_all
qed (simp_all add: union_decision_min min.assoc min.commute min.left_commute)

interpretation intersect_dec: semilattice_neutr intersect_decision "Continue 0"
proof
  fix a :: Decision
  show "intersect_decision a (Continue 0) = a" by (cases a) simp_all
qed (simp_all add: intersect_decision_max max.assoc max.commute max.left_commute)

lemma both_simps [simp]:
  "both f (Some a) (Some b) = Some (f a b)" "both f None y = None" "both f x None = None"
  by (simp_all add: both_def split: option.splits)

lemma both_eq_Some [simp]: "both f x y = Some c \<longleftrightarrow> (\<exists>a b. x = Some a \<and> y = Some b \<and> f a b = c)"
  by (cases x; cases y) auto

section \<open>Jitter\<close>

lemma unat_millis_u64: "unat (millis_u64 d) = as_millis d mod 2 ^ 64"
  by (simp add: millis_u64_def unat_of_nat)

lemma unat_jitter_sum:
  fixes ms h :: u64
  shows "unat (ms div 2 + h mod (ms - ms div 2 + 1)) =
    unat ms div 2 + unat h mod (unat ms - unat ms div 2 + 1)"
proof -
  have half: "unat (ms div 2) = unat ms div 2" by (simp add: unat_div_distrib)
  have ms: "unat ms < 2 ^ 64" using unsigned_less [of ms] by simp
  have "unat (ms - ms div 2) = unat ms - unat ms div 2"
    using half by (simp add: unat_sub word_le_nat_alt)
  moreover have small: "Suc (unat ms - unat ms div 2) < 2 ^ 64" using ms by simp
  ultimately have range: "unat (ms - ms div 2 + 1) = Suc (unat ms - unat ms div 2)"
    by (simp add: unat_word_ariths)
  have "unat h mod Suc (unat ms - unat ms div 2) \<le> unat ms - unat ms div 2"
    using mod_less_divisor [of "Suc (unat ms - unat ms div 2)" "unat h"] by linarith
  then have "unat ms div 2 + unat h mod Suc (unat ms - unat ms div 2) < 2 ^ 64"
    using ms div_le_dividend [of "unat ms" 2] by linarith
  then show ?thesis by (subst unat_word_ariths(1)) (simp add: half range unat_mod_distrib)
qed

lemma jitter_eq:
  "jitter seed k d = (let ms = as_millis d mod 2 ^ 64 in if ms = 0 then 0
     else from_millis (max (ms div 2 + unat (jitter_hash seed (millis_u64 d) k) mod (ms - ms div 2 + 1)) 1))"
proof -
  have zero: "millis_u64 d = 0 \<longleftrightarrow> as_millis d mod 2 ^ 64 = 0"
    by (simp add: unat_eq_0 [symmetric] unat_millis_u64)
  have "unat (max j 1) = max (unat j) 1" for j :: u64
    by (simp add: max_def word_le_nat_alt)
  then show ?thesis
    by (simp add: jitter_def Let_def zero unat_jitter_sum unat_millis_u64)
qed

lemma jitter_range:
  fixes d seed k
  defines "ms \<equiv> as_millis d mod 2 ^ 64"
  shows "jitter seed k d \<le> from_millis ms \<and> from_millis (ms div 2) \<le> jitter seed k d \<and>
    (0 < jitter seed k d \<longleftrightarrow> 0 < ms)"
proof (cases "ms = 0")
  case True
  then show ?thesis by (simp add: jitter_eq ms_def)
next
  case False
  have "unat h mod (ms - ms div 2 + 1) \<le> ms - ms div 2" for h :: u64
    using mod_less_divisor [of "ms - ms div 2 + 1" "unat h"] by linarith
  then have "ms div 2 + unat h mod (ms - ms div 2 + 1) \<le> ms" for h :: u64
    by (metis add.commute add_le_cancel_left div_le_dividend le_add_diff_inverse)
  moreover obtain h :: u64 where "jitter seed k d =
      from_millis (max (ms div 2 + unat h mod (ms - ms div 2 + 1)) 1)"
    using False by (simp add: jitter_eq ms_def Let_def)
  ultimately show ?thesis using False by (auto simp: from_millis_def nanos_per_milli_def)
qed

lemma jitter_le: "jitter seed k d \<le> d"
proof -
  have "jitter seed k d \<le> from_millis (as_millis d mod 2 ^ 64)" using jitter_range by blast
  also have "\<dots> \<le> d" by (simp add: from_millis_le_of_as_millis)
  finally show ?thesis .
qed

section \<open>Static bounds\<close>

text \<open>
  An upper bound of the delays of a schedule, a bound of the number of its steps (\<open>None\<close> for a
  schedule without one), and the absence of overflow in initial delays.
\<close>

fun pattern_bound :: "'f DelayPattern \<Rightarrow> duration" where
  "pattern_bound (Fixed d) = d"
| "pattern_bound Immediate = 0"
| "pattern_bound (Exponential _ _ _) = from_millis (2 ^ 64 - 1)"
| "pattern_bound (Fibonacci _ _ m) = m"

fun delay_bound :: "'f Schedule \<Rightarrow> duration" where
  "delay_bound Never = 0"
| "delay_bound Once = 0"
| "delay_bound (Recurs _ p) = pattern_bound p"
| "delay_bound (Forever p) = pattern_bound p"
| "delay_bound (Union a b) = max (delay_bound a) (delay_bound b)"
| "delay_bound (Intersect a b) = max (delay_bound a) (delay_bound b)"
| "delay_bound (UpTo s _) = delay_bound s"
| "delay_bound (Capped s d) = min (delay_bound s) d"
| "delay_bound (Jittered s _) = delay_bound s"
| "delay_bound (Delayed s d) = delay_bound s + d"

fun attempts_bound :: "'f Schedule \<Rightarrow> nat option" where
  "attempts_bound Never = Some 0"
| "attempts_bound Once = Some 1"
| "attempts_bound (Recurs m _) = Some (Suc (unat m))"
| "attempts_bound (Forever _) = None"
| "attempts_bound (Union a b) = both max (attempts_bound a) (attempts_bound b)"
| "attempts_bound (Intersect a b) = combine_options min (attempts_bound a) (attempts_bound b)"
| "attempts_bound (UpTo s _) = attempts_bound s"
| "attempts_bound (Capped s _) = attempts_bound s"
| "attempts_bound (Jittered s _) = attempts_bound s"
| "attempts_bound (Delayed s _) = attempts_bound s"

fun panic_free :: "'f Schedule \<Rightarrow> bool" where
  "panic_free (Union a b) \<longleftrightarrow> panic_free a \<and> panic_free b"
| "panic_free (Intersect a b) \<longleftrightarrow> panic_free a \<and> panic_free b"
| "panic_free (UpTo s _) \<longleftrightarrow> panic_free s"
| "panic_free (Capped s _) \<longleftrightarrow> panic_free s"
| "panic_free (Jittered s _) \<longleftrightarrow> panic_free s"
| "panic_free (Delayed s d) \<longleftrightarrow> panic_free s \<and> delay_bound s + d \<le> duration_max"
| "panic_free _ \<longleftrightarrow> True"

lemma delay_for_le: "delay_for F p k \<le> pattern_bound p"
proof (cases p)
  case (Exponential base factor m)
  have "unat w < 2 ^ 64" for w :: u64 using unsigned_less [of w] by simp
  then have "unat w \<le> 2 ^ 64 - 1" for w :: u64 by (simp add: less_eq_Suc_le [symmetric] less_Suc_eq_le [symmetric])
  then show ?thesis by (simp add: Exponential Let_def)
next
  case (Fibonacci one two m)
  have "unat (min x (millis_u64 m)) \<le> as_millis m" for x
    using unat_millis_u64 [of m] by (simp add: min_def word_le_nat_alt) (metis mod_less_eq_dividend order_trans)
  then show ?thesis by (simp add: Fibonacci from_millis_le_of_as_millis)
qed simp_all

lemma map_continue_eq [simp]: "map_continue f x = Continue d \<longleftrightarrow> (\<exists>d'. x = Continue d' \<and> d = f d')"
  by (cases x) auto

lemma union_decision_eq [simp]:
  "union_decision x y = Continue d \<longleftrightarrow> (x = Continue d \<and> y \<ge> x) \<or> (y = Continue d \<and> x \<ge> y)"
  by (cases x; cases y) (auto simp: min_def)

lemma intersect_decision_eq [simp]:
  "intersect_decision x y = Continue d \<longleftrightarrow> (\<exists>a b. x = Continue a \<and> y = Continue b \<and> d = max a b)"
  by (cases x; cases y) auto

lemma step_bounds:
  "panic_free s \<Longrightarrow> \<exists>dec. sched_step F s k el = Some dec \<and> (\<forall>d. dec = Continue d \<longrightarrow> d \<le> delay_bound s)"
proof (induction s)
  case (Delayed s i)
  then show ?case by (auto split: Decision.splits)
qed (force simp: delay_for_le intro: order_trans [OF jitter_le])+

lemma step_attempts:
  "sched_step F s k el = Some (Continue d) \<Longrightarrow> attempts_bound s = Some n \<Longrightarrow> unat k < n"
proof (induction s arbitrary: d n)
  case (Intersect a b)
  then show ?case
    by (cases "attempts_bound a"; cases "attempts_bound b") auto
next
  case (Union a b)
  then show ?case by (auto simp: less_max_iff_disj)
next
  case (Recurs m p)
  then show ?case by (simp add: word_less_nat_alt split: if_splits)
next
  case (Delayed s i)
  then show ?case by (auto split: option.splits Decision.splits if_splits)
qed (auto split: if_splits)

section \<open>The loop\<close>

text \<open>Only the operation counts as a call.\<close>

definition counts_ops :: "('w \<Rightarrow> nat) \<Rightarrow> ('w, 'v) sched_env \<Rightarrow> ('v \<Rightarrow> 'w \<Rightarrow> bool \<times> 'w) \<Rightarrow> bool" where
  "counts_ops calls E stop \<longleftrightarrow>
     (\<forall>w. calls (snd (elapsed_now E w)) = calls w) \<and> (\<forall>w. calls (snd (run_op E w)) = Suc (calls w)) \<and>
     (\<forall>d w. calls (snd (run_sleep E d w)) = calls w) \<and> (\<forall>w. calls (snd (is_cancelled E w)) = calls w) \<and>
     (\<forall>v w. calls (snd (stop v w)) = calls w)"

text \<open>The reason why a loop returned a value.\<close>

definition returned_for ::
  "'f f64_ops \<Rightarrow> 'f Schedule \<Rightarrow> ('v \<Rightarrow> 'w \<Rightarrow> bool \<times> 'w) \<Rightarrow> 'v ScheduleOutcome \<Rightarrow> bool" where
  "returned_for F s stop out \<longleftrightarrow> so_cancelled out \<or> (\<exists>w. fst (stop (so_value out) w)) \<or>
     (\<exists>el. sched_step F s (so_attempts out) el = Some Done)"

definition loop_post ::
  "'f f64_ops \<Rightarrow> 'f Schedule \<Rightarrow> ('v \<Rightarrow> 'w \<Rightarrow> bool \<times> 'w) \<Rightarrow> ('w \<Rightarrow> nat) \<Rightarrow> nat \<Rightarrow> nat \<Rightarrow>
   'v ScheduleOutcome option \<times> 'w \<Rightarrow> bool" where
  "loop_post F s stop calls c n x \<longleftrightarrow>
     (case x of
        (None, w) \<Rightarrow> calls w = c
      | (Some out, w) \<Rightarrow> calls w = c + unat (so_attempts out) \<and> 0 < unat (so_attempts out) \<and>
          unat (so_attempts out) \<le> n \<and> returned_for F s stop out)"

lemma loop_return_post:
  assumes "counts_ops calls E stop" "calls w = c + unat k" "0 < unat k" "unat k \<le> n"
    "b \<or> (\<exists>w. fst (stop v w)) \<or> (\<exists>el. sched_step F s k el = Some Done)"
  shows "loop_post F s stop calls c n (loop_return E v k p b w)"
  using assms by (cases "elapsed_now E w")
    (auto simp: loop_post_def loop_return_def returned_for_def counts_ops_def dest: spec [of _ w])

lemma sched_iter_spec:
  assumes "attempts_bound s = Some n" "n < 2 ^ 32" "panic_free s" "counts_ops calls E stop"
    and "calls w = c + unat k" "lv = None \<longleftrightarrow> k = 0" "unat k \<le> n"
  shows "\<exists>x. sched_iter F s E stop k p lv w = Some x \<and>
    (case x of Inl r \<Rightarrow> loop_post F s stop calls c n r
     | Inr (k', p', v, w') \<Rightarrow> unat k' = Suc (unat k) \<and> unat k' \<le> n \<and> calls w' = c + unat k')"
proof -
  note count = assms(4) [unfolded counts_ops_def]
  obtain el w0 where w0: "elapsed_now E w = (el, w0)" by fastforce
  then have c0: "calls w0 = c + unat k" using count assms(5) by (metis snd_conv)
  obtain dec where dec: "sched_step F s k el = Some dec" using step_bounds [OF assms(3)] by blast
  show ?thesis
  proof (cases dec)
    case Done
    have "loop_post F s stop calls c n (case lv of None \<Rightarrow> (None, w0) | Some v \<Rightarrow> loop_return E v k p False w0)"
    proof (cases lv)
      case None
      with c0 assms(6) show ?thesis by (simp add: loop_post_def)
    next
      case (Some v)
      with assms(6) have "0 < unat k" by (simp add: unat_gt_0)
      from loop_return_post [OF assms(4) c0 this assms(7)] dec Done Some show ?thesis by simp blast
    qed
    with w0 dec Done show ?thesis by (simp add: sched_iter_def)
  next
    case (Continue delay)
    then have kn: "unat k < n" using step_attempts [of F s k el] dec assms(1) by simp
    obtain v w1 where w1: "run_op E w0 = (v, w1)" by fastforce
    obtain b w2 where w2: "stop v w1 = (b, w2)" by fastforce
    obtain el3 w3 where w3: "elapsed_now E w2 = (el3, w3)" by fastforce
    obtain dec' where dec': "sched_step F s (k + 1) el3 = Some dec'" using step_bounds [OF assms(3)] by blast
    define slept where "slept = (if delay = 0 then (\<lparr>sleep_completed = True, sleep_paused = 0\<rparr>, w3) else run_sleep E delay w3)"
    obtain so w4 where w4: "slept = (so, w4)" by fastforce
    obtain cn w5 where w5: "is_cancelled E w4 = (cn, w5)" by fastforce
    have k1: "unat (k + 1) = Suc (unat k)"
      using kn assms(2) by (simp add: unat_word_ariths)
    have c2: "calls w2 = c + unat (k + 1)"
      using w1 w2 count c0 k1 by (metis add_Suc_right snd_conv)
    then have c3: "calls w3 = c + unat (k + 1)" using w3 count by (metis snd_conv)
    then have c4: "calls w4 = c + unat (k + 1)" using w4 count by (metis slept_def snd_conv)
    then have c5: "calls w5 = c + unat (k + 1)" using w5 count by (metis snd_conv)
    have ret: "loop_post F s stop calls c n (loop_return E v (k + 1) q cancelled w')"
      if "calls w' = c + unat (k + 1)" "cancelled \<or> b \<or> dec' = Done" for q cancelled w'
    proof (rule loop_return_post [OF assms(4) that(1)])
      show "cancelled \<or> (\<exists>w. fst (stop v w)) \<or> (\<exists>el. sched_step F s (k + 1) el = Some Done)"
        using that(2) w2 dec' by (metis fst_conv)
    qed (use k1 kn in simp_all)
    have "sched_iter F s E stop k p lv w = Some (
      if b then Inl (loop_return E v (k + 1) p False w2)
      else if dec' = Done then Inl (loop_return E v (k + 1) p False w3)
      else if \<not> sleep_completed so then Inl (loop_return E v (k + 1) (p + sleep_paused so) True w4)
      else if cn then Inl (loop_return E v (k + 1) (p + sleep_paused so) True w5)
      else Inr (k + 1, p + sleep_paused so, v, w5))"
      by (cases dec') (simp_all add: sched_iter_def w0 w1 w2 w3 dec dec' Continue slept_def [symmetric] w4 w5)
    with ret [OF c2] ret [OF c3] ret [OF c4] ret [OF c5] c5 k1 kn show ?thesis by auto
  qed
qed

lemma sched_loop_returns:
  assumes "attempts_bound s = Some n" "n < 2 ^ 32" "panic_free s" "counts_ops calls E stop"
  shows "calls w = c + unat k \<Longrightarrow> lv = None \<longleftrightarrow> k = 0 \<Longrightarrow> unat k \<le> n \<Longrightarrow>
    \<exists>r. sched_loop F s E stop k p lv w = Some r \<and> loop_post F s stop calls c n r"
proof (induction "n - unat k" arbitrary: k p lv w rule: less_induct)
  case less
  obtain x where x: "sched_iter F s E stop k p lv w = Some x"
    "case x of Inl r \<Rightarrow> loop_post F s stop calls c n r
     | Inr (k', p', v, w') \<Rightarrow> unat k' = Suc (unat k) \<and> unat k' \<le> n \<and> calls w' = c + unat k'"
    using sched_iter_spec [OF assms less.prems] by blast
  show ?case
  proof (cases x)
    case (Inl r)
    with x show ?thesis by (simp add: sched_loop.simps)
  next
    case (Inr y)
    obtain k' p' v w' where y: "y = (k', p', v, w')" by (metis prod_cases4)
    with Inr x have k': "unat k' = Suc (unat k)" "unat k' \<le> n" "calls w' = c + unat k'" by simp_all
    then have "n - unat k' < n - unat k" "k' \<noteq> 0" by auto
    with less.hyps [of k' w' "Some v" p'] k' have
      "\<exists>r. sched_loop F s E stop k' p' (Some v) w' = Some r \<and> loop_post F s stop calls c n r" by simp
    with x(1) Inr y show ?thesis by (subst sched_loop.simps) simp
  qed
qed

text \<open>The three loops return on a bounded schedule; a repetition is never stopped by its values.\<close>

lemma bounded_loops_return:
  assumes "attempts_bound s = Some n" "n < 2 ^ 32" "panic_free s"
  shows "counts_ops calls E (\<lambda>_ w. (False, w)) \<Longrightarrow>
      \<exists>r. repeat_on_schedule F s E w = Some r \<and> loop_post F s (\<lambda>_ w. (False, w)) calls (calls w) n r"
    and "counts_ops calls E' (\<lambda>v w. (is_ok v, w)) \<Longrightarrow>
      \<exists>r. retry_on_schedule F s E' w = Some r \<and> loop_post F s (\<lambda>v w. (is_ok v, w)) calls (calls w) n r"
  using sched_loop_returns [OF assms, of calls _ _ w "calls w" 0 None]
  by (simp_all add: repeat_on_schedule_def retry_on_schedule_def)

section \<open>Properties\<close>

text \<open>
  The algebraic laws of the combinators, at every attempt and elapsed time and for any
  floating-point operations: union and intersection are commutative, associative and distribute over
  each other, \<open>never\<close> is the identity of union and stops every intersection, and \<open>take n\<close> stops
  after attempt \<open>n\<close> and is invisible before. Where a schedule panics so does every composition of it.
\<close>

theorem schedule_lattice_laws:
  "sched_step F (union_sched a b) k t = sched_step F (union_sched b a) k t \<and>
   sched_step F (intersect a b) k t = sched_step F (intersect b a) k t \<and>
   sched_step F (union_sched (union_sched a b) c) k t = sched_step F (union_sched a (union_sched b c)) k t \<and>
   sched_step F (intersect (intersect a b) c) k t = sched_step F (intersect a (intersect b c)) k t \<and>
   sched_step F (union_sched a (intersect b c)) k t =
     sched_step F (intersect (union_sched a b) (union_sched a c)) k t \<and>
   sched_step F (intersect a (union_sched b c)) k t =
     sched_step F (union_sched (intersect a b) (intersect a c)) k t \<and>
   sched_step F (union_sched a never) k t = sched_step F a k t \<and>
   sched_step F (intersect a never) k t = map_option (\<lambda>_. Done) (sched_step F a k t) \<and>
   sched_step F (take_sched a n) k t = map_option (\<lambda>d. if k > n then Done else d) (sched_step F a k t)"
proof -
  let ?a = "sched_step F a k t" and ?b = "sched_step F b k t" and ?c = "sched_step F c k t"
  note defs = union_sched_def intersect_def never_def take_sched_def recurs_def
  have comm: "both union_decision ?a ?b = both union_decision ?b ?a"
    "both intersect_decision ?a ?b = both intersect_decision ?b ?a"
    by (cases ?a; cases ?b; simp add: union_dec.commute intersect_dec.commute)+
  have assoc: "both union_decision (both union_decision ?a ?b) ?c = both union_decision ?a (both union_decision ?b ?c)"
    "both intersect_decision (both intersect_decision ?a ?b) ?c = both intersect_decision ?a (both intersect_decision ?b ?c)"
    by (cases ?a; cases ?b; cases ?c; simp add: union_dec.assoc intersect_dec.assoc)+
  have distrib: "both union_decision ?a (both intersect_decision ?b ?c) =
      both intersect_decision (both union_decision ?a ?b) (both union_decision ?a ?c)"
    by (cases ?a; cases ?b; cases ?c; simp add: union_decision_min intersect_decision_max min_max_distrib2)
  have distrib': "both intersect_decision ?a (both union_decision ?b ?c) =
      both union_decision (both intersect_decision ?a ?b) (both intersect_decision ?a ?c)"
    by (cases ?a; cases ?b; cases ?c; simp add: union_decision_min intersect_decision_max max_min_distrib2)
  have top: "intersect_decision x Done = Done" for x by (cases x) simp_all
  have never: "both union_decision ?a (Some Done) = ?a"
    "both intersect_decision ?a (Some Done) = map_option (\<lambda>_. Done) ?a"
    "both intersect_decision ?a (Some (if k > n then Done else Continue 0)) =
      map_option (\<lambda>d. if k > n then Done else d) ?a"
    by (cases ?a; simp add: top)+
  from comm assoc distrib distrib' never show ?thesis by (simp only: defs sched_step.simps delay_for.simps simp_thms)
qed

text \<open>
  Static bounds: a schedule whose initial delays cannot overflow steps without a panic, every
  delay it asks for is at most its delay bound, in particular at most any cap put on it, and it is
  done at every attempt beyond its attempt bound.
\<close>

theorem step_respects_bounds:
  assumes "panic_free s"
  shows "\<exists>dec. sched_step F s k t = Some dec \<and>
    (\<forall>d. dec = Continue d \<longrightarrow> d \<le> delay_bound s \<and> (\<forall>n. attempts_bound s = Some n \<longrightarrow> unat k < n))"
  using step_bounds [OF assms, of F k t] step_attempts [of F s k t] by auto

text \<open>Whole numbers in place of the floating-point ones.\<close>

definition nat_f64 :: "nat f64_ops" where
  "nat_f64 = \<lparr>f64_of = id, f64_mult = (*), f64_powi = (\<lambda>x k. x ^ nat k), f64_min = min, f64_is_finite = (\<lambda>_. True),
     f64_nonneg = (\<lambda>_. True), f64_to_u64 = of_nat\<rparr>"

theorem step_respects_bounds_witness:
  "\<exists>dec. sched_step nat_f64 (delayed (capped (take_sched (fibonacci 5000000 8000000) 3) 20000000) 1000000) 3 7 =
       Some dec \<and> (\<forall>d. dec = Continue d \<longrightarrow> d \<le> 21000000 \<and> (3 :: nat) < 4)"
  using step_respects_bounds [of "delayed (capped (take_sched (fibonacci 5000000 8000000) 3) 20000000) 1000000" nat_f64 3 7]
  by (auto simp: delayed_def capped_def take_sched_def intersect_def recurs_def fibonacci_def fibonacci_with_max_def
      DEFAULT_MAX_DELAY_def duration_max_def from_secs_def nanos_per_sec_def)

text \<open>
  Jitter keeps a delay between its half and its whole, in whole milliseconds, and keeps it
  positive exactly when it is at least a millisecond, for every seed.
\<close>

theorem jitter_within_half:
  assumes "sched_step F s k t = Some (Continue d)" "as_millis d < 2 ^ 64"
  shows "\<exists>j. sched_step F (jittered seed s) k t = Some (Continue j) \<and>
    from_millis (as_millis d div 2) \<le> j \<and> j \<le> from_millis (as_millis d) \<and> (0 < j \<longleftrightarrow> 0 < as_millis d)"
  using jitter_range [of seed k d] assms by (auto simp: jittered_def)

theorem jitter_within_half_witness:
  "\<exists>j. sched_step nat_f64 (jittered 42 (spaced 3000000)) 5 0 = Some (Continue j) \<and>
    1000000 \<le> j \<and> j \<le> 3000000 \<and> 0 < j"
  using jitter_within_half [of nat_f64 "spaced 3000000" 5 0 3000000 42]
  by (simp add: spaced_def as_millis_def from_millis_def nanos_per_milli_def)

text \<open>
  C23. Retrying returns, and says truly why: on a schedule with a bound below the counter's width, the
  loop returns whatever the operation, the clock, the sleeps and the cancellation do; it calls the
  operation as often as it reports, at most the bound; with no value only if it never called it; and
  an error value is returned only when the loop was cancelled, the predicate refused the error, or the
  schedule was done at that attempt.
\<close>

theorem retry_attempts_exact:
  assumes "attempts_bound s = Some n" "n < 2 ^ 32" "panic_free s"
    and "counts_ops calls E (stop_when should_retry)"
  shows "\<exists>r w'. retry_on_schedule_when F s E should_retry w = Some (r, w') \<and>
    (case r of
       None \<Rightarrow> calls w' = calls w
     | Some out \<Rightarrow> calls w' = calls w + unat (so_attempts out) \<and> 0 < unat (so_attempts out) \<and>
         unat (so_attempts out) \<le> n \<and>
         (case so_value out of
            Ok _ \<Rightarrow> True
          | Err e \<Rightarrow> so_cancelled out \<or> (\<exists>w. \<not> fst (should_retry e w)) \<or>
              (\<exists>t. sched_step F s (so_attempts out) t = Some Done)))"
proof -
  obtain r w' where "sched_loop F s E (stop_when should_retry) 0 0 None w = Some (r, w')"
    and post: "loop_post F s (stop_when should_retry) calls (calls w) n (r, w')"
    using sched_loop_returns [OF assms, of w "calls w" 0 None] by fastforce
  moreover from post have "case r of
       None \<Rightarrow> calls w' = calls w
     | Some out \<Rightarrow> calls w' = calls w + unat (so_attempts out) \<and> 0 < unat (so_attempts out) \<and>
         unat (so_attempts out) \<le> n \<and>
         (case so_value out of
            Ok _ \<Rightarrow> True
          | Err e \<Rightarrow> so_cancelled out \<or> (\<exists>w. \<not> fst (should_retry e w)) \<or>
              (\<exists>t. sched_step F s (so_attempts out) t = Some Done))"
    by (fastforce simp: loop_post_def returned_for_def stop_when_def case_prod_beta split: option.splits sum.splits)
  ultimately show ?thesis by (auto simp: retry_on_schedule_when_def)
qed

text \<open>An operation that succeeds at its third call, with no pauses and no cancellation.\<close>

definition sample_env :: "(nat, (string, nat) result) sched_env" where
  "sample_env = \<lparr>elapsed_now = (\<lambda>w. (w, w)),
     run_op = (\<lambda>w. (if w = 2 then Ok w else Err ''busy'', Suc w)),
     run_sleep = (\<lambda>d w. (\<lparr>sleep_completed = True, sleep_paused = 0\<rparr>, w)), is_cancelled = (\<lambda>w. (False, w))\<rparr>"

theorem retry_attempts_exact_witness:
  "\<exists>r w'. retry_on_schedule_when nat_f64 (take_sched (spaced 7) 5) sample_env (\<lambda>e w. (True, w)) 0 = Some (r, w') \<and>
    (case r of None \<Rightarrow> w' = 0 | Some out \<Rightarrow> w' = unat (so_attempts out) \<and> 0 < w' \<and> w' \<le> 6)"
proof -
  have "counts_ops id sample_env (stop_when (\<lambda>e w. (True, w)))"
    by (simp add: counts_ops_def sample_env_def stop_when_def split: sum.splits)
  from retry_attempts_exact [OF _ _ _ this, of "take_sched (spaced 7) 5" 6 nat_f64 0] show ?thesis
    by (fastforce simp: take_sched_def intersect_def spaced_def recurs_def split: option.splits)
qed

text \<open>
  A positive delay below a millisecond does not stay positive under jitter.
\<close>

lemma jitter_drops_submillisecond:
  "sched_step F (jittered seed (spaced 999999)) k t = Some (Continue 0)"
  by (simp add: spaced_def jittered_def jitter_def millis_u64_def as_millis_def nanos_per_milli_def)

end
