(* ===== verification/Retry.thy ===== *)
theory Retry
  imports Schedule
begin

text \<open>
  Retry policies and the retry combinators, \<open>crates/agent-fw-algebra/src/retry.rs\<close>, with the two
  places of \<open>schedule.rs\<close> they touch: the schedule of a policy and the pausable sleep.

  \<^item> The floating-point operations are the record of functions of the schedules; the hasher with fresh
    random keys that jitter uses is a function drawn from the environment at each delay.
  \<^item> \<open>unwrap()\<close> of an empty option and \<open>unreachable!()\<close> are the result \<open>None\<close>. Counters are 32-bit words
    that wrap, as in a release build; the \<open>debug_assert!\<close> of a debug build is left out.
  \<^item> A loop \<open>for attempt in 0..=max_retries\<close> is a recursion over the list of attempts.
  \<^item> The environment extends that of the schedule loops with the plain sleep of the timer and the
    hasher, so both kinds of loop run in the same environment.
\<close>

section \<open>Retry policies\<close>

record 'f RetryPolicy =
  rp_max_retries :: u32
  rp_initial_delay :: duration
  rp_max_delay :: duration
  rp_multiplier :: 'f
  rp_jitter :: bool

definition policy_new :: "'f f64_ops \<Rightarrow> u32 \<Rightarrow> duration \<Rightarrow> 'f RetryPolicy" where
  "policy_new F retries d =
     \<lparr>rp_max_retries = retries, rp_initial_delay = d, rp_max_delay = from_secs 60,
      rp_multiplier = f64_of F 2, rp_jitter = False\<rparr>"

definition policy_never :: "'f f64_ops \<Rightarrow> 'f RetryPolicy" where
  "policy_never F = policy_new F 0 0"

definition policy_fixed :: "'f f64_ops \<Rightarrow> u32 \<Rightarrow> duration \<Rightarrow> 'f RetryPolicy" where
  "policy_fixed F retries d =
     \<lparr>rp_max_retries = retries, rp_initial_delay = d, rp_max_delay = d, rp_multiplier = f64_of F 1,
      rp_jitter = False\<rparr>"

definition exponential_backoff :: "'f f64_ops \<Rightarrow> u32 \<Rightarrow> duration \<Rightarrow> 'f RetryPolicy" where
  "exponential_backoff F retries d = policy_new F retries d"

definition exponential_backoff_jitter :: "'f f64_ops \<Rightarrow> u32 \<Rightarrow> duration \<Rightarrow> 'f RetryPolicy" where
  "exponential_backoff_jitter F retries d = (policy_new F retries d)\<lparr>rp_jitter := True\<rparr>"

definition with_max_delay :: "'f RetryPolicy \<Rightarrow> duration \<Rightarrow> 'f RetryPolicy" where
  "with_max_delay p d = p\<lparr>rp_max_delay := d\<rparr>"

definition with_max_retries :: "'f RetryPolicy \<Rightarrow> u32 \<Rightarrow> 'f RetryPolicy" where
  "with_max_retries p n = p\<lparr>rp_max_retries := n\<rparr>"

definition with_initial_delay :: "'f RetryPolicy \<Rightarrow> duration \<Rightarrow> 'f RetryPolicy" where
  "with_initial_delay p d = p\<lparr>rp_initial_delay := d\<rparr>"

text \<open>The assertion that the multiplier is finite and not negative panics otherwise.\<close>

definition with_multiplier :: "'f f64_ops \<Rightarrow> 'f RetryPolicy \<Rightarrow> 'f \<Rightarrow> 'f RetryPolicy option" where
  "with_multiplier F p m =
     (if f64_is_finite F m \<and> f64_nonneg F m then Some (p\<lparr>rp_multiplier := m\<rparr>) else None)"

definition with_jitter :: "'f RetryPolicy \<Rightarrow> bool \<Rightarrow> 'f RetryPolicy" where
  "with_jitter p b = p\<lparr>rp_jitter := b\<rparr>"

text \<open>\<open>attempt as i32\<close> reads the 32 bits as a signed number.\<close>

definition delay_for_attempt :: "'f f64_ops \<Rightarrow> (u64 \<Rightarrow> u32 \<Rightarrow> u64) \<Rightarrow> 'f RetryPolicy \<Rightarrow> u32 \<Rightarrow> duration" where
  "delay_for_attempt F hash p attempt =
     (let base_ms = f64_of F (as_millis (rp_initial_delay p));
          uncapped_ms = f64_mult F base_ms (f64_powi F (rp_multiplier p) (sint attempt));
          max_ms = f64_of F (as_millis (rp_max_delay p));
          capped_ms = f64_min F uncapped_ms max_ms;
          capped = (if f64_is_finite F capped_ms \<and> f64_nonneg F capped_ms then f64_to_u64 F capped_ms else 0)
      in if rp_jitter p
         then let h = hash capped attempt;
                  half = capped div 2;
                  range = capped - half + 1;
                  jittered = half + h mod range;
                  floored = (if capped > 0 then max jittered 1 else 0)
              in from_millis (unat floored)
         else from_millis (unat capped))"

record 'e RetryContext =
  rc_attempt :: u32
  rc_max_retries :: u32
  rc_delay :: duration
  rc_elapsed :: duration
  rc_last_error :: 'e

definition remaining :: "'e RetryContext \<Rightarrow> u32" where
  "remaining c = (if rc_attempt c + 1 \<le> rc_max_retries c then rc_max_retries c - (rc_attempt c + 1) else 0)"

section \<open>The loops\<close>

record ('w, 'v) retry_env = "('w, 'v) sched_env" +
  plain_sleep :: "duration \<Rightarrow> 'w \<Rightarrow> 'w"
  new_hasher :: "'w \<Rightarrow> (u64 \<Rightarrow> u32 \<Rightarrow> u64) \<times> 'w"

text \<open>The call \<open>policy.delay_for_attempt(attempt)\<close>; only jitter draws a hasher.\<close>

definition next_delay :: "'f f64_ops \<Rightarrow> 'f RetryPolicy \<Rightarrow> ('w, 'v) retry_env \<Rightarrow> u32 \<Rightarrow> 'w \<Rightarrow> duration \<times> 'w" where
  "next_delay F p E attempt w =
     (if rp_jitter p then let (h, w) = new_hasher E w in (delay_for_attempt F h p attempt, w)
      else (delay_for_attempt F (\<lambda>_ _. 0) p attempt, w))"

definition attempts_of :: "'f RetryPolicy \<Rightarrow> u32 list" where
  "attempts_of p = map of_nat [0..<Suc (unat (rp_max_retries p))]"

fun with_retry_from ::
  "'f f64_ops \<Rightarrow> 'f RetryPolicy \<Rightarrow> ('w, ('e, 'a) result) retry_env \<Rightarrow> 'e option \<Rightarrow> u32 list \<Rightarrow> 'w \<Rightarrow>
   ('e, 'a) result option \<times> 'w" where
  "with_retry_from F p E last_error [] w = (map_option Err last_error, w)"
| "with_retry_from F p E last_error (attempt # rest) w =
     (let (r, w) = run_op E w
      in case r of
           Ok result \<Rightarrow> (Some (Ok result), w)
         | Err e \<Rightarrow>
             let w = (if attempt < rp_max_retries p
                      then let (d, w) = next_delay F p E attempt w in plain_sleep E d w else w)
             in with_retry_from F p E (Some e) rest w)"

definition with_retry ::
  "'f f64_ops \<Rightarrow> 'f RetryPolicy \<Rightarrow> ('w, ('e, 'a) result) retry_env \<Rightarrow> 'w \<Rightarrow> ('e, 'a) result option \<times> 'w" where
  "with_retry F p E w = with_retry_from F p E None (attempts_of p) w"

text \<open>\<open>attempt < max && should_retry(&e)\<close>: the predicate is called only before the last attempt.\<close>

definition wants_retry ::
  "'f RetryPolicy \<Rightarrow> ('x \<Rightarrow> 'w \<Rightarrow> bool \<times> 'w) \<Rightarrow> u32 \<Rightarrow> 'x \<Rightarrow> 'w \<Rightarrow> bool \<times> 'w" where
  "wants_retry p should_retry attempt x w = (if attempt < rp_max_retries p then should_retry x w else (False, w))"

fun retry_when_from ::
  "'f f64_ops \<Rightarrow> 'f RetryPolicy \<Rightarrow> ('w, ('e, 'a) result) retry_env \<Rightarrow> ('e \<Rightarrow> 'w \<Rightarrow> bool \<times> 'w) \<Rightarrow>
   'e option \<Rightarrow> u32 list \<Rightarrow> 'w \<Rightarrow> ('e, 'a) result option \<times> 'w" where
  "retry_when_from F p E should_retry last_error [] w = (map_option Err last_error, w)"
| "retry_when_from F p E should_retry last_error (attempt # rest) w =
     (let (r, w) = run_op E w
      in case r of
           Ok result \<Rightarrow> (Some (Ok result), w)
         | Err e \<Rightarrow>
             let (again, w) = wants_retry p should_retry attempt e w
             in if again
                then let (d, w) = next_delay F p E attempt w
                     in retry_when_from F p E should_retry (Some e) rest (plain_sleep E d w)
                else (Some (Err e), w))"

definition retry_when ::
  "'f f64_ops \<Rightarrow> 'f RetryPolicy \<Rightarrow> ('w, ('e, 'a) result) retry_env \<Rightarrow> ('e \<Rightarrow> 'w \<Rightarrow> bool \<times> 'w) \<Rightarrow> 'w \<Rightarrow>
   ('e, 'a) result option \<times> 'w" where
  "retry_when F p E should_retry w = retry_when_from F p E should_retry None (attempts_of p) w"

fun retry_with_observer_from ::
  "'f f64_ops \<Rightarrow> 'f RetryPolicy \<Rightarrow> ('w, ('e, 'a) result) retry_env \<Rightarrow> ('e RetryContext \<Rightarrow> 'w \<Rightarrow> 'w) \<Rightarrow>
   u32 list \<Rightarrow> 'w \<Rightarrow> ('e, 'a) result option \<times> 'w" where
  "retry_with_observer_from F p E observer [] w = (None, w)"
| "retry_with_observer_from F p E observer (attempt # rest) w =
     (let (r, w) = run_op E w
      in case r of
           Ok result \<Rightarrow> (Some (Ok result), w)
         | Err e \<Rightarrow>
             if attempt < rp_max_retries p
             then let (d, w) = next_delay F p E attempt w; (t, w) = elapsed_now E w;
                      w = observer \<lparr>rc_attempt = attempt, rc_max_retries = rp_max_retries p, rc_delay = d,
                            rc_elapsed = t, rc_last_error = e\<rparr> w
                  in retry_with_observer_from F p E observer rest (plain_sleep E d w)
             else (Some (Err e), w))"

definition retry_with_observer ::
  "'f f64_ops \<Rightarrow> 'f RetryPolicy \<Rightarrow> ('w, ('e, 'a) result) retry_env \<Rightarrow> ('e RetryContext \<Rightarrow> 'w \<Rightarrow> 'w) \<Rightarrow> 'w \<Rightarrow>
   ('e, 'a) result option \<times> 'w" where
  "retry_with_observer F p E observer w = retry_with_observer_from F p E observer (attempts_of p) w"

fun retry_when_observed_from ::
  "'f f64_ops \<Rightarrow> 'f RetryPolicy \<Rightarrow> ('w, ('e, 'a) result) retry_env \<Rightarrow> ('e \<Rightarrow> 'w \<Rightarrow> bool \<times> 'w) \<Rightarrow>
   ('e RetryContext \<Rightarrow> 'w \<Rightarrow> 'w) \<Rightarrow> u32 list \<Rightarrow> 'w \<Rightarrow> ('e, 'a) result option \<times> 'w" where
  "retry_when_observed_from F p E should_retry observer [] w = (None, w)"
| "retry_when_observed_from F p E should_retry observer (attempt # rest) w =
     (let (r, w) = run_op E w
      in case r of
           Ok result \<Rightarrow> (Some (Ok result), w)
         | Err e \<Rightarrow>
             let (again, w) = wants_retry p should_retry attempt e w
             in if again
                then let (d, w) = next_delay F p E attempt w; (t, w) = elapsed_now E w;
                         w = observer \<lparr>rc_attempt = attempt, rc_max_retries = rp_max_retries p, rc_delay = d,
                               rc_elapsed = t, rc_last_error = e\<rparr> w
                     in retry_when_observed_from F p E should_retry observer rest (plain_sleep E d w)
                else (Some (Err e), w))"

definition retry_when_observed ::
  "'f f64_ops \<Rightarrow> 'f RetryPolicy \<Rightarrow> ('w, ('e, 'a) result) retry_env \<Rightarrow> ('e \<Rightarrow> 'w \<Rightarrow> bool \<times> 'w) \<Rightarrow>
   ('e RetryContext \<Rightarrow> 'w \<Rightarrow> 'w) \<Rightarrow> 'w \<Rightarrow> ('e, 'a) result option \<times> 'w" where
  "retry_when_observed F p E should_retry observer w =
     retry_when_observed_from F p E should_retry observer (attempts_of p) w"

text \<open>Here the delay is computed and the clock read before the predicate is asked, even at the last attempt.\<close>

fun retry_when_observed_hinted_from ::
  "'f f64_ops \<Rightarrow> 'f RetryPolicy \<Rightarrow> ('w, ('e, 'a) result) retry_env \<Rightarrow> ('e RetryContext \<Rightarrow> 'w \<Rightarrow> bool \<times> 'w) \<Rightarrow>
   ('e RetryContext \<Rightarrow> 'w \<Rightarrow> 'w) \<Rightarrow> u32 list \<Rightarrow> 'w \<Rightarrow> ('e, 'a) result option \<times> 'w" where
  "retry_when_observed_hinted_from F p E should_retry observer [] w = (None, w)"
| "retry_when_observed_hinted_from F p E should_retry observer (attempt # rest) w =
     (let (r, w) = run_op E w
      in case r of
           Ok result \<Rightarrow> (Some (Ok result), w)
         | Err e \<Rightarrow>
             let (d, w) = next_delay F p E attempt w; (t, w) = elapsed_now E w;
                 ctx = \<lparr>rc_attempt = attempt, rc_max_retries = rp_max_retries p, rc_delay = d,
                        rc_elapsed = t, rc_last_error = e\<rparr>;
                 (again, w) = wants_retry p should_retry attempt ctx w
             in if again
                then retry_when_observed_hinted_from F p E should_retry observer rest
                       (plain_sleep E d (observer ctx w))
                else (Some (Err e), w))"

definition retry_when_observed_hinted ::
  "'f f64_ops \<Rightarrow> 'f RetryPolicy \<Rightarrow> ('w, ('e, 'a) result) retry_env \<Rightarrow> ('e RetryContext \<Rightarrow> 'w \<Rightarrow> bool \<times> 'w) \<Rightarrow>
   ('e RetryContext \<Rightarrow> 'w \<Rightarrow> 'w) \<Rightarrow> 'w \<Rightarrow> ('e, 'a) result option \<times> 'w" where
  "retry_when_observed_hinted F p E should_retry observer w =
     retry_when_observed_hinted_from F p E should_retry observer (attempts_of p) w"

record 'v RetryOutcome =
  ro_value :: 'v
  ro_retry_count :: u32

fun retry_until_from ::
  "'f f64_ops \<Rightarrow> 'f RetryPolicy \<Rightarrow> ('w, 'v) retry_env \<Rightarrow> ('v \<Rightarrow> 'w \<Rightarrow> bool \<times> 'w) \<Rightarrow> u32 list \<Rightarrow> 'w \<Rightarrow>
   'v RetryOutcome option \<times> 'w" where
  "retry_until_from F p E is_acceptable [] w = (None, w)"
| "retry_until_from F p E is_acceptable (attempt # rest) w =
     (let (v, w) = run_op E w; (accepted, w) = is_acceptable v w
      in if accepted \<or> attempt = rp_max_retries p
         then (Some \<lparr>ro_value = v, ro_retry_count = attempt\<rparr>, w)
         else let (d, w) = next_delay F p E attempt w
              in retry_until_from F p E is_acceptable rest (plain_sleep E d w))"

definition retry_until ::
  "'f f64_ops \<Rightarrow> 'f RetryPolicy \<Rightarrow> ('w, 'v) retry_env \<Rightarrow> ('v \<Rightarrow> 'w \<Rightarrow> bool \<times> 'w) \<Rightarrow> 'w \<Rightarrow>
   'v RetryOutcome option \<times> 'w" where
  "retry_until F p E is_acceptable w = retry_until_from F p E is_acceptable (attempts_of p) w"

section \<open>The loops with pause and cancellation\<close>

record 'v RetryPausableOutcome =
  rpo_value :: 'v
  rpo_attempts :: u32
  rpo_cancelled :: bool
  rpo_paused_time :: duration

fun retry_pausable_from ::
  "'f f64_ops \<Rightarrow> 'f RetryPolicy \<Rightarrow> ('w, ('e, 'a) result) retry_env \<Rightarrow> 'e option \<Rightarrow> duration \<Rightarrow> u32 list \<Rightarrow> 'w \<Rightarrow>
   ('e, 'a) result RetryPausableOutcome option \<times> 'w" where
  "retry_pausable_from F p E last_error paused_total [] w =
     (map_option (\<lambda>e. \<lparr>rpo_value = Err e, rpo_attempts = rp_max_retries p + 1, rpo_cancelled = False,
        rpo_paused_time = paused_total\<rparr>) last_error, w)"
| "retry_pausable_from F p E last_error paused_total (attempt # rest) w =
     (let (r, w) = run_op E w
      in case r of
           Ok result \<Rightarrow>
             (Some \<lparr>rpo_value = Ok result, rpo_attempts = attempt + 1, rpo_cancelled = False,
                rpo_paused_time = paused_total\<rparr>, w)
         | Err e \<Rightarrow>
             if attempt < rp_max_retries p
             then let (d, w) = next_delay F p E attempt w; (slept, w) = run_sleep E d w;
                      paused_total = paused_total + sleep_paused slept
                  in if \<not> sleep_completed slept
                     then (Some \<lparr>rpo_value = Err e, rpo_attempts = attempt + 1, rpo_cancelled = True,
                             rpo_paused_time = paused_total\<rparr>, w)
                     else retry_pausable_from F p E (Some e) paused_total rest w
             else retry_pausable_from F p E (Some e) paused_total rest w)"

definition retry_pausable ::
  "'f f64_ops \<Rightarrow> 'f RetryPolicy \<Rightarrow> ('w, ('e, 'a) result) retry_env \<Rightarrow> 'w \<Rightarrow>
   ('e, 'a) result RetryPausableOutcome option \<times> 'w" where
  "retry_pausable F p E w = retry_pausable_from F p E None 0 (attempts_of p) w"

fun retry_when_pausable_from ::
  "'f f64_ops \<Rightarrow> 'f RetryPolicy \<Rightarrow> ('w, ('e, 'a) result) retry_env \<Rightarrow> ('e \<Rightarrow> 'w \<Rightarrow> bool \<times> 'w) \<Rightarrow>
   'e option \<Rightarrow> duration \<Rightarrow> u32 list \<Rightarrow> 'w \<Rightarrow> ('e, 'a) result RetryPausableOutcome option \<times> 'w" where
  "retry_when_pausable_from F p E should_retry last_error paused_total [] w =
     (map_option (\<lambda>e. \<lparr>rpo_value = Err e, rpo_attempts = rp_max_retries p + 1, rpo_cancelled = False,
        rpo_paused_time = paused_total\<rparr>) last_error, w)"
| "retry_when_pausable_from F p E should_retry last_error paused_total (attempt # rest) w =
     (let (r, w) = run_op E w
      in case r of
           Ok result \<Rightarrow>
             (Some \<lparr>rpo_value = Ok result, rpo_attempts = attempt + 1, rpo_cancelled = False,
                rpo_paused_time = paused_total\<rparr>, w)
         | Err e \<Rightarrow>
             let (again, w) = wants_retry p should_retry attempt e w
             in if again
                then let (d, w) = next_delay F p E attempt w; (slept, w) = run_sleep E d w;
                         paused_total = paused_total + sleep_paused slept
                     in if \<not> sleep_completed slept
                        then (Some \<lparr>rpo_value = Err e, rpo_attempts = attempt + 1, rpo_cancelled = True,
                                rpo_paused_time = paused_total\<rparr>, w)
                        else retry_when_pausable_from F p E should_retry (Some e) paused_total rest w
                else (Some \<lparr>rpo_value = Err e, rpo_attempts = attempt + 1, rpo_cancelled = False,
                        rpo_paused_time = paused_total\<rparr>, w))"

definition retry_when_pausable ::
  "'f f64_ops \<Rightarrow> 'f RetryPolicy \<Rightarrow> ('w, ('e, 'a) result) retry_env \<Rightarrow> ('e \<Rightarrow> 'w \<Rightarrow> bool \<times> 'w) \<Rightarrow> 'w \<Rightarrow>
   ('e, 'a) result RetryPausableOutcome option \<times> 'w" where
  "retry_when_pausable F p E should_retry w = retry_when_pausable_from F p E should_retry None 0 (attempts_of p) w"

fun retry_until_pausable_from ::
  "'f f64_ops \<Rightarrow> 'f RetryPolicy \<Rightarrow> ('w, 'v) retry_env \<Rightarrow> ('v \<Rightarrow> 'w \<Rightarrow> bool \<times> 'w) \<Rightarrow> duration \<Rightarrow> u32 list \<Rightarrow> 'w \<Rightarrow>
   (unit, 'v) result RetryPausableOutcome option \<times> 'w" where
  "retry_until_pausable_from F p E is_acceptable paused_total [] w = (None, w)"
| "retry_until_pausable_from F p E is_acceptable paused_total (attempt # rest) w =
     (let (v, w) = run_op E w; (accepted, w) = is_acceptable v w
      in if accepted \<or> attempt = rp_max_retries p
         then (Some \<lparr>rpo_value = Ok v, rpo_attempts = attempt + 1, rpo_cancelled = False,
                 rpo_paused_time = paused_total\<rparr>, w)
         else let (d, w) = next_delay F p E attempt w; (slept, w) = run_sleep E d w;
                  paused_total = paused_total + sleep_paused slept
              in if \<not> sleep_completed slept
                 then (Some \<lparr>rpo_value = Ok v, rpo_attempts = attempt + 1, rpo_cancelled = True,
                         rpo_paused_time = paused_total\<rparr>, w)
                 else retry_until_pausable_from F p E is_acceptable paused_total rest w)"

definition retry_until_pausable ::
  "'f f64_ops \<Rightarrow> 'f RetryPolicy \<Rightarrow> ('w, 'v) retry_env \<Rightarrow> ('v \<Rightarrow> 'w \<Rightarrow> bool \<times> 'w) \<Rightarrow> 'w \<Rightarrow>
   (unit, 'v) result RetryPausableOutcome option \<times> 'w" where
  "retry_until_pausable F p E is_acceptable w = retry_until_pausable_from F p E is_acceptable 0 (attempts_of p) w"

section \<open>The schedule of a policy and the pausable sleep\<close>

definition from_retry_policy :: "u64 \<Rightarrow> 'f RetryPolicy \<Rightarrow> 'f Schedule" where
  "from_retry_policy seed p =
     (let delays = Exponential (rp_initial_delay p) (rp_multiplier p) (rp_max_delay p);
          base = Recurs (rp_max_retries p) delays
      in if rp_jitter p then jittered seed base else base)"

text \<open>
  One round of the pausable sleep ends in one of three ways: the timer fires, the token is cancelled,
  or the token is paused after some active time; a pause in turn ends by a resume or a cancellation,
  after some waiting time. The rounds are a list, which is what the timer and the two tokens do.
\<close>

datatype sleep_round =
    Timer_fired
  | Round_cancelled
  | Round_paused duration duration bool

fun pausable_sleep_from :: "duration \<Rightarrow> duration \<Rightarrow> sleep_round list \<Rightarrow> PausableSleepOutcome option" where
  "pausable_sleep_from rem paused_time rounds =
     (if rem = 0 then Some \<lparr>sleep_completed = True, sleep_paused = paused_time\<rparr>
      else case rounds of
             [] \<Rightarrow> None
           | Timer_fired # _ \<Rightarrow> Some \<lparr>sleep_completed = True, sleep_paused = paused_time\<rparr>
           | Round_cancelled # _ \<Rightarrow> Some \<lparr>sleep_completed = False, sleep_paused = paused_time\<rparr>
           | Round_paused active waited resumed # rest \<Rightarrow>
               (if resumed then pausable_sleep_from (rem - active) (paused_time + waited) rest
                else Some \<lparr>sleep_completed = False, sleep_paused = paused_time + waited\<rparr>))"

declare pausable_sleep_from.simps [simp del]

definition pausable_sleep :: "duration \<Rightarrow> sleep_round list \<Rightarrow> PausableSleepOutcome option" where
  "pausable_sleep d rounds = pausable_sleep_from d 0 rounds"

section \<open>The list of attempts\<close>

text \<open>The attempts from number \<open>k\<close> on.\<close>

definition tries :: "'f RetryPolicy \<Rightarrow> nat \<Rightarrow> u32 list" where
  "tries p k = map of_nat [k..<Suc (unat (rp_max_retries p))]"

lemma attempts_of_tries: "attempts_of p = tries p 0"
  by (simp only: attempts_of_def tries_def)

lemma tries_Cons: "k \<le> unat (rp_max_retries p) \<Longrightarrow> tries p k = of_nat k # tries p (Suc k)"
  by (simp only: tries_def upt_conv_Cons list.simps less_Suc_eq_le if_True)

lemma tries_Nil: "unat (rp_max_retries p) < k \<Longrightarrow> tries p k = []"
  by (simp add: tries_def)

lemma of_nat_attempt:
  assumes "k \<le> unat m"
  shows "unat (of_nat k :: u32) = k" "(of_nat k :: u32) < m \<longleftrightarrow> k < unat m" "of_nat k = (m :: u32) \<longleftrightarrow> k = unat m"
proof -
  have "unat m < 2 ^ 32" using unsigned_less [of m] by simp
  with assms show k: "unat (of_nat k :: u32) = k" by (simp add: unat_of_nat)
  then show "(of_nat k :: u32) < m \<longleftrightarrow> k < unat m" by (simp add: word_less_nat_alt)
  from k show "of_nat k = m \<longleftrightarrow> k = unat m" by (metis word_unat_eq_iff)
qed

lemma tries_induct [consumes 1, case_names attempt]:
  assumes "k \<le> unat (rp_max_retries p)"
    and "\<And>k. k \<le> unat (rp_max_retries p) \<Longrightarrow> (k < unat (rp_max_retries p) \<Longrightarrow> P (Suc k)) \<Longrightarrow> P k"
  shows "P k"
  using assms(1)
proof (induction "unat (rp_max_retries p) - k" arbitrary: k rule: less_induct)
  case less
  show ?case
  proof (rule assms(2))
    show "P (Suc k)" if "k < unat (rp_max_retries p)"
      by (rule less.hyps) (use that in simp_all)
  qed (rule less.prems)
qed

lemma tries_more:
  assumes "k < unat (rp_max_retries p)"
  shows "tries p k = of_nat k # tries p (Suc k)" "of_nat k < rp_max_retries p" "of_nat k \<noteq> rp_max_retries p"
  using assms of_nat_attempt [of k "rp_max_retries p"] by (simp_all add: tries_Cons)

lemma tries_last: "k \<le> unat (rp_max_retries p) \<Longrightarrow> \<not> k < unat (rp_max_retries p) \<Longrightarrow> tries p k = [rp_max_retries p]"
  by (simp add: tries_Cons tries_Nil)

lemmas try_simps = Let_def case_prod_beta wants_retry_def

section \<open>All loops are one loop\<close>

text \<open>
  The environment in which a pausable sleep is the timer's plain sleep, the operation judged by a
  predicate on its value, and the value behind a verdict.
\<close>

definition unpaused :: "('w, 'v) retry_env \<Rightarrow> ('w, 'v) retry_env" where
  "unpaused E = E\<lparr>run_sleep := \<lambda>d w. (\<lparr>sleep_completed = True, sleep_paused = 0\<rparr>, plain_sleep E d w)\<rparr>"

definition judged :: "('v \<Rightarrow> 'w \<Rightarrow> bool \<times> 'w) \<Rightarrow> ('w, 'v) retry_env \<Rightarrow> ('w, ('v, 'v) result) retry_env" where
  "judged acc E =
     \<lparr>elapsed_now = elapsed_now E,
      run_op = (\<lambda>w. let (v, w) = run_op E w; (ok, w) = acc v w in (if ok then Ok v else Err v, w)),
      run_sleep = run_sleep E, is_cancelled = is_cancelled E, plain_sleep = plain_sleep E, new_hasher = new_hasher E\<rparr>"

fun verdict_value :: "('v, 'v) result \<Rightarrow> 'v" where
  "verdict_value (Ok v) = v"
| "verdict_value (Err v) = v"

definition until_outcome :: "('v, 'v) result RetryPausableOutcome \<Rightarrow> 'v RetryOutcome" where
  "until_outcome r = \<lparr>ro_value = verdict_value (rpo_value r), ro_retry_count = rpo_attempts r - 1\<rparr>"

definition until_pausable_outcome ::
  "('v, 'v) result RetryPausableOutcome \<Rightarrow> (unit, 'v) result RetryPausableOutcome" where
  "until_pausable_outcome r =
     \<lparr>rpo_value = Ok (verdict_value (rpo_value r)), rpo_attempts = rpo_attempts r, rpo_cancelled = rpo_cancelled r,
      rpo_paused_time = rpo_paused_time r\<rparr>"

lemma until_outcome_simps [simp]:
  "until_outcome \<lparr>rpo_value = v, rpo_attempts = n + 1, rpo_cancelled = c, rpo_paused_time = q\<rparr> =
     \<lparr>ro_value = verdict_value v, ro_retry_count = n\<rparr>"
  "until_pausable_outcome \<lparr>rpo_value = v, rpo_attempts = n, rpo_cancelled = c, rpo_paused_time = q\<rparr> =
     \<lparr>rpo_value = Ok (verdict_value v), rpo_attempts = n, rpo_cancelled = c, rpo_paused_time = q\<rparr>"
  by (simp_all add: until_outcome_def until_pausable_outcome_def)

lemma next_delay_unpaused [simp]: "next_delay F p (unpaused E) = next_delay F p E"
  by (simp add: fun_eq_iff next_delay_def unpaused_def)

lemma next_delay_judged [simp]: "next_delay F p (judged acc E) = next_delay F p E"
  by (simp add: fun_eq_iff next_delay_def judged_def)

lemma unpaused_simps [simp]:
  "run_op (unpaused E) = run_op E" "plain_sleep (unpaused E) = plain_sleep E"
  "run_sleep (unpaused E) d w = (\<lparr>sleep_completed = True, sleep_paused = 0\<rparr>, plain_sleep E d w)"
  by (simp_all add: unpaused_def)

lemma judged_simps [simp]:
  "run_sleep (judged acc E) = run_sleep E" "plain_sleep (judged acc E) = plain_sleep E"
  "run_op (judged acc E) w =
     (if fst (acc (fst (run_op E w)) (snd (run_op E w))) then Ok (fst (run_op E w)) else Err (fst (run_op E w)),
      snd (acc (fst (run_op E w)) (snd (run_op E w))))"
  by (simp_all add: judged_def case_prod_beta Let_def)

lemma with_retry_from_eq:
  assumes "k \<le> unat (rp_max_retries p)"
  shows "with_retry_from F p E l (tries p k) w = retry_when_from F p E (\<lambda>_ w. (True, w)) l (tries p k) w"
  using assms
proof (induction k arbitrary: l w rule: tries_induct)
  case (attempt k)
  show ?case
  proof (cases "k < unat (rp_max_retries p)")
    case True
    show ?thesis by (simp add: tries_more [OF True] attempt(2) [OF True] try_simps split: sum.split)
  next
    case False
    show ?thesis by (simp add: tries_last [OF attempt(1) False] try_simps split: sum.split)
  qed
qed

lemma retry_pausable_from_eq:
  assumes "k \<le> unat (rp_max_retries p)"
  shows "retry_pausable_from F p E l q (tries p k) w =
    retry_when_pausable_from F p E (\<lambda>_ w. (True, w)) l q (tries p k) w"
  using assms
proof (induction k arbitrary: l q w rule: tries_induct)
  case (attempt k)
  show ?case
  proof (cases "k < unat (rp_max_retries p)")
    case True
    show ?thesis by (simp add: tries_more [OF True] attempt(2) [OF True] try_simps split: sum.split)
  next
    case False
    show ?thesis by (simp add: tries_last [OF attempt(1) False] try_simps split: sum.split)
  qed
qed

lemma retry_when_from_eq:
  assumes "k \<le> unat (rp_max_retries p)"
  shows "apfst (map_option rpo_value) (retry_when_pausable_from F p (unpaused E) sr l q (tries p k) w) =
    retry_when_from F p E sr l (tries p k) w"
  using assms
proof (induction k arbitrary: l q w rule: tries_induct)
  case (attempt k)
  show ?case
  proof (cases "k < unat (rp_max_retries p)")
    case True
    show ?thesis by (simp add: tries_more [OF True] attempt(2) [OF True] try_simps split: sum.split)
  next
    case False
    show ?thesis by (simp add: tries_last [OF attempt(1) False] try_simps split: sum.split)
  qed
qed

lemma retry_until_from_eq:
  assumes "k \<le> unat (rp_max_retries p)"
  shows "apfst (map_option until_outcome) (retry_pausable_from F p (judged acc (unpaused E)) l q (tries p k) w) =
    retry_until_from F p E acc (tries p k) w"
  using assms
proof (induction k arbitrary: l q w rule: tries_induct)
  case (attempt k)
  show ?case
  proof (cases "k < unat (rp_max_retries p)")
    case True
    show ?thesis by (simp add: tries_more [OF True] attempt(2) [OF True] try_simps split: sum.split)
  next
    case False
    show ?thesis by (simp add: tries_last [OF attempt(1) False] try_simps split: sum.split)
  qed
qed

lemma retry_until_pausable_from_eq:
  assumes "k \<le> unat (rp_max_retries p)"
  shows "apfst (map_option until_pausable_outcome) (retry_pausable_from F p (judged acc E) l q (tries p k) w) =
    retry_until_pausable_from F p E acc q (tries p k) w"
  using assms
proof (induction k arbitrary: l q w rule: tries_induct)
  case (attempt k)
  show ?case
  proof (cases "k < unat (rp_max_retries p)")
    case True
    show ?thesis by (simp add: tries_more [OF True] attempt(2) [OF True] try_simps split: sum.split)
  next
    case False
    show ?thesis by (simp add: tries_last [OF attempt(1) False] try_simps split: sum.split)
  qed
qed

lemma retry_with_observer_from_eq:
  assumes "k \<le> unat (rp_max_retries p)"
  shows "retry_with_observer_from F p E obs (tries p k) w =
    retry_when_observed_from F p E (\<lambda>_ w. (True, w)) obs (tries p k) w"
  using assms
proof (induction k arbitrary: w rule: tries_induct)
  case (attempt k)
  show ?case
  proof (cases "k < unat (rp_max_retries p)")
    case True
    show ?thesis by (simp add: tries_more [OF True] attempt(2) [OF True] try_simps split: sum.split)
  next
    case False
    show ?thesis by (simp add: tries_last [OF attempt(1) False] try_simps split: sum.split)
  qed
qed

text \<open>
  The seven loops without a context-dependent predicate are one loop. The pausable loop with a predicate
  is the general one: the other fallible loops fix its predicate to true or its sleeps to the timer's,
  and the two loops over plain values are the fallible loop over the operation judged by the predicate.
\<close>

theorem retry_loops_agree:
  "with_retry F p E w = retry_when F p E (\<lambda>_ w. (True, w)) w \<and>
   retry_when F p E again w = apfst (map_option rpo_value) (retry_when_pausable F p (unpaused E) again w) \<and>
   retry_pausable F p E w = retry_when_pausable F p E (\<lambda>_ w. (True, w)) w \<and>
   retry_with_observer F p E obs w = retry_when_observed F p E (\<lambda>_ w. (True, w)) obs w \<and>
   retry_until F p E' acc w = apfst (map_option until_outcome) (retry_pausable F p (judged acc (unpaused E')) w) \<and>
   retry_until_pausable F p E' acc w =
     apfst (map_option until_pausable_outcome) (retry_pausable F p (judged acc E') w)"
  unfolding with_retry_def retry_when_def retry_pausable_def retry_when_pausable_def retry_with_observer_def
    retry_when_observed_def retry_until_def retry_until_pausable_def attempts_of_tries
  by (simp add: with_retry_from_eq retry_when_from_eq retry_pausable_from_eq [symmetric] retry_with_observer_from_eq
      retry_until_from_eq retry_until_pausable_from_eq)

section \<open>What a loop does, attempt by attempt\<close>

text \<open>
  An environment given by what the world answers: the results of the operation, the outcomes of the
  sleeps and the hashers of the delays. Its state counts the calls of the operation and logs the sleeps.
\<close>

definition scripted ::
  "(nat \<Rightarrow> u64 \<Rightarrow> u32 \<Rightarrow> u64) \<Rightarrow> (nat \<Rightarrow> 'v) \<Rightarrow> (nat \<Rightarrow> PausableSleepOutcome) \<Rightarrow> (nat \<times> duration list, 'v) retry_env" where
  "scripted hash ops nap =
     \<lparr>elapsed_now = (\<lambda>w. (sum_list (snd w), w)),
      run_op = (\<lambda>w. (ops (fst w), (Suc (fst w), snd w))),
      run_sleep = (\<lambda>d w. (nap (length (snd w)), (fst w, snd w @ [d]))),
      is_cancelled = (\<lambda>w. (False, w)),
      plain_sleep = (\<lambda>d w. (fst w, snd w @ [d])),
      new_hasher = (\<lambda>w. (hash (length (snd w)), w))\<rparr>"

text \<open>An attempt after which the loop does not sleep: a success, the last attempt, a refused error.\<close>

definition gives_up :: "'f RetryPolicy \<Rightarrow> ('e \<Rightarrow> bool) \<Rightarrow> (nat \<Rightarrow> ('e, 'a) result) \<Rightarrow> nat \<Rightarrow> bool" where
  "gives_up p again ops k =
     (case ops k of Ok _ \<Rightarrow> True | Err e \<Rightarrow> k = unat (rp_max_retries p) \<or> \<not> again e)"

lemma delay_without_jitter: "\<not> rp_jitter p \<Longrightarrow> delay_for_attempt F h p k = delay_for_attempt F h' p k"
  by (simp add: delay_for_attempt_def)

lemma next_delay_scripted:
  "next_delay F p (scripted hash ops nap) k (n, ds) = (delay_for_attempt F (hash (length ds)) p k, (n, ds))"
  using delay_without_jitter [of p F "\<lambda>_ _. 0" k "hash (length ds)"] by (simp add: next_delay_def scripted_def)

lemma scripted_simps [simp]:
  "run_op (scripted hash ops nap) (n, ds) = (ops n, (Suc n, ds))"
  "run_sleep (scripted hash ops nap) d (n, ds) = (nap (length ds), (n, ds @ [d]))"
  by (simp_all add: scripted_def)

text \<open>The outcome of a loop that ended at attempt \<open>k\<close>, and the world it left.\<close>

definition ended_at ::
  "'f f64_ops \<Rightarrow> 'f RetryPolicy \<Rightarrow> (nat \<Rightarrow> u64 \<Rightarrow> u32 \<Rightarrow> u64) \<Rightarrow> (nat \<Rightarrow> 'v) \<Rightarrow> (nat \<Rightarrow> PausableSleepOutcome) \<Rightarrow>
   nat \<Rightarrow> bool \<Rightarrow> 'v RetryPausableOutcome option \<times> (nat \<times> duration list)" where
  "ended_at F p hash ops nap k cancelled =
     (let n = (if cancelled then Suc k else k)
      in (Some \<lparr>rpo_value = ops k, rpo_attempts = of_nat (Suc k), rpo_cancelled = cancelled,
            rpo_paused_time = (\<Sum>i<n. sleep_paused (nap i))\<rparr>,
          (Suc k, map (\<lambda>i. delay_for_attempt F (hash i) p (of_nat i)) [0..<n])))"

lemma retry_when_pausable_from_scripted:
  assumes "k \<le> unat (rp_max_retries p)"
    and "\<And>i. i < k \<Longrightarrow> \<not> gives_up p again ops i \<and> sleep_completed (nap i)"
  shows "retry_when_pausable_from F p (scripted hash ops nap) (\<lambda>e w. (again e, w)) l (\<Sum>i<k. sleep_paused (nap i))
      (tries p k) (k, map (\<lambda>i. delay_for_attempt F (hash i) p (of_nat i)) [0..<k]) =
    (let m = (LEAST i. gives_up p again ops i \<or> \<not> sleep_completed (nap i))
     in ended_at F p hash ops nap m (\<not> gives_up p again ops m))"
  using assms
proof (induction k arbitrary: l rule: tries_induct)
  case (attempt k)
  let ?stop = "\<lambda>i. gives_up p again ops i \<or> \<not> sleep_completed (nap i)"
  have least: "(LEAST i. ?stop i) = k" if "?stop k"
    using that attempt(3) by (intro Least_equality) (auto simp: not_less [symmetric])
  have next_unfold: "tries p k = of_nat k # tries p (Suc k)" by (rule tries_Cons [OF attempt(1)])
  note now = of_nat_attempt(2) [OF attempt(1)]
  show ?case
  proof (cases "ops k")
    case (Inr v)
    then have "gives_up p again ops k" by (simp add: gives_up_def)
    with Inr show ?thesis by (simp add: next_unfold least ended_at_def)
  next
    case (Inl e)
    show ?thesis
    proof (cases "gives_up p again ops k")
      case True
      with Inl have "\<not> (k < unat (rp_max_retries p) \<and> again e)" by (auto simp: gives_up_def)
      then have "wants_retry p (\<lambda>e w. (again e, w)) (of_nat k) e w = (False, w)" for w :: "nat \<times> duration list"
        by (simp add: wants_retry_def now)
      with Inl True show ?thesis by (simp add: next_unfold least ended_at_def)
    next
      case False
      with Inl attempt(1) have more: "k < unat (rp_max_retries p)" "again e" by (auto simp: gives_up_def)
      show ?thesis
      proof (cases "sleep_completed (nap k)")
        case True
        with False attempt(3) have "\<not> gives_up p again ops i \<and> sleep_completed (nap i)" if "i < Suc k" for i
          using that by (auto simp: less_Suc_eq)
        from attempt(2) [OF more(1) this] show ?thesis
          using Inl more True by (simp add: next_unfold wants_retry_def now next_delay_scripted)
      next
        case stopped: False
        with False Inl more show ?thesis
          by (simp add: next_unfold least ended_at_def wants_retry_def now next_delay_scripted)
      qed
    qed
  qed
qed

text \<open>
  C25. A retry loop is decided by its first stop. Whatever the operation returns, the sleeps do and the
  hashers draw, the pausable loop runs attempts \<open>0..m\<close> and no more, where \<open>m\<close> is the first attempt that
  succeeds, is the last one allowed, fails with an error the predicate refuses, or is followed by a
  cancelled sleep. It returns the result of attempt \<open>m\<close>, never an earlier one; it reports \<open>m + 1\<close>
  attempts, cancellation exactly when the sleep after \<open>m\<close> was cancelled, and the total of the pauses of
  its sleeps; and between the attempts it slept exactly the delays of the policy, in order.
\<close>

theorem retry_first_stop:
  "retry_when_pausable F p (scripted hash ops nap) (\<lambda>e w. (again e, w)) (0, []) =
     (let m = (LEAST i. gives_up p again ops i \<or> \<not> sleep_completed (nap i));
          cancelled = (\<not> gives_up p again ops m);
          n = (if cancelled then Suc m else m)
      in (Some \<lparr>rpo_value = ops m, rpo_attempts = of_nat (Suc m), rpo_cancelled = cancelled,
            rpo_paused_time = (\<Sum>i<n. sleep_paused (nap i))\<rparr>,
          (Suc m, map (\<lambda>i. delay_for_attempt F (hash i) p (of_nat i)) [0..<n])))"
  using retry_when_pausable_from_scripted [of 0 p again ops nap F hash None]
  by (simp add: retry_when_pausable_def attempts_of_tries ended_at_def Let_def)

section \<open>Delays\<close>

text \<open>Jitter aside, the delay is the capped back-off in whole milliseconds.\<close>

lemma jitter_floor:
  "j = (if 0 < c then max (c div 2 + x) 1 else 0) \<Longrightarrow> c div 2 + x \<le> c \<Longrightarrow>
    c div 2 \<le> j \<and> j \<le> c \<and> (0 < j \<longleftrightarrow> 0 < c)" for c j x :: nat
  by (cases "c = 0") (auto simp: max_def)

lemma from_millis_pos [simp]: "0 < from_millis n \<longleftrightarrow> 0 < n"
  by (simp add: from_millis_def nanos_per_milli_def)

lemma delay_with_jitter:
  assumes "rp_jitter p"
  shows "\<exists>ms. delay_for_attempt F h (with_jitter p False) k = from_millis ms \<and>
    (\<exists>j. delay_for_attempt F h p k = from_millis j \<and> ms div 2 \<le> j \<and> j \<le> ms \<and> (0 < j \<longleftrightarrow> 0 < ms))"
proof -
  define capped where "capped =
    (let c = f64_min F (f64_mult F (f64_of F (as_millis (rp_initial_delay p))) (f64_powi F (rp_multiplier p) (sint k)))
       (f64_of F (as_millis (rp_max_delay p)))
     in if f64_is_finite F c \<and> f64_nonneg F c then f64_to_u64 F c else 0)"
  define j where "j = (if capped > 0 then max (capped div 2 + h capped k mod (capped - capped div 2 + 1)) 1 else 0)"
  have plain: "delay_for_attempt F h (with_jitter p False) k = from_millis (unat capped)"
    by (simp add: delay_for_attempt_def with_jitter_def capped_def Let_def)
  have jit: "delay_for_attempt F h p k = from_millis (unat j)"
    using assms by (simp add: delay_for_attempt_def capped_def j_def Let_def)
  have less: "unat x mod (unat capped - unat capped div 2 + 1) \<le> unat capped - unat capped div 2" for x :: u64
    using mod_less_divisor [of "unat capped - unat capped div 2 + 1" "unat x"] by linarith
  have "unat (max x 1) = max (unat x) 1" for x :: u64 by (simp add: max_def word_le_nat_alt)
  then have "unat j = (if 0 < unat capped
      then max (unat capped div 2 + unat (h capped k) mod (unat capped - unat capped div 2 + 1)) 1 else 0)"
    by (simp add: j_def unat_jitter_sum unat_gt_0 word_gt_0)
  moreover have "unat capped div 2 + unat (h capped k) mod (unat capped - unat capped div 2 + 1) \<le> unat capped"
    using less [of "h capped k"] div_le_dividend [of "unat capped" 2] by linarith
  ultimately have "unat capped div 2 \<le> unat j \<and> unat j \<le> unat capped \<and> (0 < unat j \<longleftrightarrow> 0 < unat capped)"
    by (rule jitter_floor)
  with plain jit show ?thesis
    by (intro exI [of _ "unat capped"] exI [of _ "unat j"] conjI) simp_all
qed

text \<open>
  The delay laws of a policy. The delay is at most the cap, for every attempt, multiplier and hasher, if
  the minimum with the cap converts to at most the cap, which holds for doubles of up to 53 bits. Jitter
  keeps at least half of the delay it varies, never lengthens it, and never erases or invents one.
\<close>

theorem retry_delay_bounds:
  assumes "\<forall>x. unat (f64_to_u64 F (f64_min F x (f64_of F (as_millis (rp_max_delay p))))) \<le> as_millis (rp_max_delay p)"
  shows "delay_for_attempt F h p k \<le> rp_max_delay p \<and>
    (let d = delay_for_attempt F h (with_jitter p False) k; j = delay_for_attempt F h p k
     in from_millis (as_millis d div 2) \<le> j \<and> j \<le> d \<and> (0 < j \<longleftrightarrow> 0 < d))"
proof -
  have plain: "delay_for_attempt F h (with_jitter p False) k \<le> rp_max_delay p"
    using assms by (simp add: delay_for_attempt_def with_jitter_def Let_def from_millis_le_of_as_millis)
  show ?thesis
  proof (cases "rp_jitter p")
    case True
    obtain ms j where d: "delay_for_attempt F h (with_jitter p False) k = from_millis ms"
      "delay_for_attempt F h p k = from_millis j" and j: "ms div 2 \<le> j" "j \<le> ms" "0 < j \<longleftrightarrow> 0 < ms"
      using delay_with_jitter [OF True, of F h k] by blast
    have "from_millis j \<le> from_millis ms" using j(2) by simp
    also have "\<dots> \<le> rp_max_delay p" using plain d(1) by simp
    finally have "from_millis j \<le> rp_max_delay p" .
    with j show ?thesis by (simp add: d)
  next
    case False
    then have "with_jitter p False = p" by (simp add: with_jitter_def)
    moreover have "from_millis (as_millis d div 2) \<le> d" for d
      by (rule from_millis_le_of_as_millis) simp
    ultimately show ?thesis using plain by simp
  qed
qed

theorem retry_delay_bounds_witness:
  "delay_for_attempt nat_f64 (\<lambda>_ _. 77) (with_jitter (with_max_delay (policy_new nat_f64 9 1000000) 5000000) True) 4 \<le> 5000000"
  using retry_delay_bounds [of nat_f64 "with_jitter (with_max_delay (policy_new nat_f64 9 1000000) 5000000) True" "\<lambda>_ _. 77" 4]
  by (simp add: nat_f64_def with_jitter_def with_max_delay_def policy_new_def as_millis_def nanos_per_milli_def unat_of_nat)

text \<open>
  A zero initial delay with a power that overflows: the product of zero and infinity is not a number, the
  minimum with it is the cap, so the delay jumps from zero to the whole cap.
\<close>

theorem zero_delay_jumps_to_cap:
  assumes "rp_initial_delay p = 0" "\<not> rp_jitter p"
    and "f64_min F (f64_mult F (f64_of F 0) (f64_powi F (rp_multiplier p) (sint k))) (f64_of F (as_millis (rp_max_delay p))) =
      f64_of F (as_millis (rp_max_delay p))"
    and "f64_is_finite F (f64_of F (as_millis (rp_max_delay p)))" "f64_nonneg F (f64_of F (as_millis (rp_max_delay p)))"
    and "unat (f64_to_u64 F (f64_of F (as_millis (rp_max_delay p)))) = as_millis (rp_max_delay p)"
  shows "delay_for_attempt F h p k = from_millis (as_millis (rp_max_delay p))"
  using assms by (simp add: delay_for_attempt_def Let_def as_millis_def)

text \<open>An initial delay below a millisecond is rounded to none, with jitter and without.\<close>

theorem submillisecond_delay_vanishes:
  assumes "rp_initial_delay p < nanos_per_milli"
    and "f64_min F (f64_mult F (f64_of F 0) (f64_powi F (rp_multiplier p) (sint k))) (f64_of F (as_millis (rp_max_delay p))) = f64_of F 0"
    and "f64_to_u64 F (f64_of F 0) = 0"
  shows "delay_for_attempt F h p k = 0"
  using assms by (simp add: delay_for_attempt_def Let_def as_millis_def)

section \<open>Observers\<close>

text \<open>A call that answers alike in related worlds and leaves them related.\<close>

definition alike :: "('w \<Rightarrow> 'w \<Rightarrow> bool) \<Rightarrow> ('w \<Rightarrow> 'x \<times> 'w) \<Rightarrow> bool" where
  "alike R f \<longleftrightarrow> (\<forall>w v. R w v \<longrightarrow> fst (f w) = fst (f v) \<and> R (snd (f w)) (snd (f v)))"

lemma alikeD: "alike R f \<Longrightarrow> R w v \<Longrightarrow> fst (f w) = fst (f v) \<and> R (snd (f w)) (snd (f v))"
  by (simp add: alike_def)

lemma alike_next_delay: "alike R (new_hasher E) \<Longrightarrow> alike R (next_delay F p E k)"
  by (simp add: alike_def next_delay_def case_prod_beta Let_def)

lemma observed_from_transparent:
  assumes "k \<le> unat (rp_max_retries p)" "alike R (run_op E)" "\<And>e. alike R (again e)" "alike R (new_hasher E)"
    and "\<And>d. alike R (\<lambda>w. ((), plain_sleep E d w))"
    and "\<And>c w v. R w v \<Longrightarrow> R (obs c w) v" "\<And>w v. R w v \<Longrightarrow> R (snd (elapsed_now E w)) v"
    and "R w v"
  shows "fst (retry_when_observed_from F p E again obs (tries p k) w) = fst (retry_when_from F p E again l (tries p k) v) \<and>
    R (snd (retry_when_observed_from F p E again obs (tries p k) w)) (snd (retry_when_from F p E again l (tries p k) v))"
  using assms(1, 8)
proof (induction k arbitrary: l w v rule: tries_induct)
  case (attempt k)
  note unfold = tries_Cons [OF attempt(1)] of_nat_attempt(2) [OF attempt(1)]
  obtain r w1 v1 where op: "run_op E w = (r, w1)" "run_op E v = (r, v1)" and R1: "R w1 v1"
    using alikeD [OF assms(2) attempt(3)] by (metis prod.collapse)
  show ?case
  proof (cases r)
    case (Inr x)
    with op R1 show ?thesis by (simp add: unfold)
  next
    case (Inl e)
    obtain b w2 v2 where ask: "again e w1 = (b, w2)" "again e v1 = (b, v2)" and R2: "R w2 v2"
      using alikeD [OF assms(3) [of e] R1] by (cases "again e w1"; cases "again e v1") auto
    show ?thesis
    proof (cases "k < unat (rp_max_retries p) \<and> b")
      case True
      obtain d w3 v3 where delay: "next_delay F p E (of_nat k) w2 = (d, w3)" "next_delay F p E (of_nat k) v2 = (d, v3)"
        and R3: "R w3 v3"
        using alikeD [OF alike_next_delay [OF assms(4)] R2] by (metis prod.collapse)
      have sleep: "R (plain_sleep E d x) (plain_sleep E d y)" if "R x y" for x y
        using alikeD [OF assms(5) that] by simp
      have "R (plain_sleep E d (obs c (snd (elapsed_now E w3)))) (plain_sleep E d v3)" for c
        by (intro sleep assms(6, 7) R3)
      note attempt(2) [OF True [THEN conjunct1] this]
      then show ?thesis using True op Inl ask delay by (simp add: unfold wants_retry_def case_prod_beta Let_def)
    next
      case False
      with op Inl ask R1 R2 show ?thesis by (auto simp: unfold wants_retry_def)
    qed
  qed
qed

text \<open>
  Law L8, observer transparency. If the observer and the clock leave every part of the world alone that
  the operation, the predicate, the hasher and the timer can see, the observed loop returns what the
  loop without observer returns, and leaves those parts as it leaves them.
\<close>

theorem observer_is_transparent:
  assumes "alike R (run_op E)" "\<forall>e. alike R (again e)" "alike R (new_hasher E)"
    and "\<forall>d. alike R (\<lambda>w. ((), plain_sleep E d w))"
    and "\<forall>c w v. R w v \<longrightarrow> R (obs c w) v" "\<forall>w v. R w v \<longrightarrow> R (snd (elapsed_now E w)) v" and "R w v"
  shows "fst (retry_when_observed F p E again obs w) = fst (retry_when F p E again v) \<and>
    R (snd (retry_when_observed F p E again obs w)) (snd (retry_when F p E again v))"
  using observed_from_transparent [of 0 p R E again obs w v F None] assms
  by (simp add: retry_when_observed_def retry_when_def attempts_of_tries)

text \<open>The observer writes into a log of its own.\<close>

definition logged_env :: "(nat \<times> nat RetryContext list, (nat, string) result) retry_env" where
  "logged_env =
     \<lparr>elapsed_now = (\<lambda>w. (0, w)), run_op = (\<lambda>w. (if fst w = 2 then Ok ''done'' else Err (fst w), (Suc (fst w), snd w))),
      run_sleep = (\<lambda>d w. (\<lparr>sleep_completed = True, sleep_paused = 0\<rparr>, w)), is_cancelled = (\<lambda>w. (False, w)),
      plain_sleep = (\<lambda>d w. w), new_hasher = (\<lambda>w. (\<lambda>_ _. 0, w))\<rparr>"

theorem observer_is_transparent_witness:
  "fst (retry_when_observed nat_f64 (policy_fixed nat_f64 5 1000000) logged_env (\<lambda>e w. (True, w))
     (\<lambda>c w. (fst w, snd w @ [c])) (0, [])) =
   fst (retry_when nat_f64 (policy_fixed nat_f64 5 1000000) logged_env (\<lambda>e w. (True, w)) (0, []))"
  using observer_is_transparent [of "\<lambda>w v. fst w = fst v" logged_env "\<lambda>e w. (True, w)" "\<lambda>c w. (fst w, snd w @ [c])"
      "(0, [])" "(0, [])" nat_f64 "policy_fixed nat_f64 5 1000000"]
  by (simp add: alike_def logged_env_def)

section \<open>A policy and its schedule\<close>

lemma sint_small: "unat k < 2 ^ 31 \<Longrightarrow> sint (k :: u32) = int (unat k)"
proof -
  assume "unat k < 2 ^ 31"
  then have "int (unat k) < int (2 ^ 31)" by (simp only: of_nat_less_iff)
  then have "signed_take_bit 31 (uint k) = uint k" by (intro signed_take_bit_int_eq_self) (auto intro: order_trans [of _ 0])
  then show ?thesis by (simp add: sint_uint)
qed

lemma policy_schedule_steps:
  assumes "\<not> rp_jitter p" "rp_max_retries p < 2 ^ 31"
  shows "k \<le> rp_max_retries p \<Longrightarrow> sched_step F (from_retry_policy seed p) k t = Some (Continue (delay_for_attempt F h p k))"
    and "rp_max_retries p < k \<Longrightarrow> sched_step F (from_retry_policy seed p) k t = Some Done"
proof -
  assume "k \<le> rp_max_retries p"
  with assms(2) have "unat k < 2 ^ 31" by (simp add: word_less_nat_alt word_le_nat_alt)
  with \<open>k \<le> rp_max_retries p\<close> assms(1)
  show "sched_step F (from_retry_policy seed p) k t = Some (Continue (delay_for_attempt F h p k))"
    by (simp add: from_retry_policy_def delay_for_attempt_def sint_small Let_def not_less [symmetric])
qed (use assms(1) in \<open>simp add: from_retry_policy_def\<close>)

definition schedule_outcome :: "duration \<Rightarrow> 'v RetryPausableOutcome \<Rightarrow> 'v ScheduleOutcome" where
  "schedule_outcome t r =
     \<lparr>so_value = rpo_value r, so_attempts = rpo_attempts r, so_total_elapsed = t, so_paused_time = rpo_paused_time r,
      so_cancelled = rpo_cancelled r\<rparr>"

definition as_scheduled ::
  "('w, 'v) retry_env \<Rightarrow> 'v RetryPausableOutcome option \<times> 'w \<Rightarrow> 'v ScheduleOutcome option \<times> 'w" where
  "as_scheduled E x = (map_option (schedule_outcome (fst (elapsed_now E (snd x)))) (fst x), snd x)"

lemma truncate_simps [simp]:
  "elapsed_now (sched_env.truncate E) = elapsed_now E" "run_op (sched_env.truncate E) = run_op E"
  "run_sleep (sched_env.truncate E) = run_sleep E" "is_cancelled (sched_env.truncate E) = is_cancelled E"
  by (simp_all add: sched_env.defs)

lemma stop_when_simps:
  "stop_when should_retry (Ok v) w = (True, w)"
  "stop_when (\<lambda>e w. (again e, w)) (Err e) w = (\<not> again e, w)"
  by (simp_all add: stop_when_def)

lemma sched_loop_policy:
  assumes "k \<le> unat (rp_max_retries p)" "\<not> rp_jitter p" "rp_max_retries p < 2 ^ 31"
    and "\<And>w. snd (elapsed_now E w) = w" "\<And>w. run_sleep E 0 w = (\<lparr>sleep_completed = True, sleep_paused = 0\<rparr>, w)"
    and "\<And>w. is_cancelled E w = (False, w)"
  shows "sched_loop F (from_retry_policy seed p) (sched_env.truncate E) (stop_when (\<lambda>e w. (again e, w))) (of_nat k) q lv w =
    Some (as_scheduled E (retry_when_pausable_from F p E (\<lambda>e w. (again e, w)) l q (tries p k) w))"
  using assms(1)
proof (induction k arbitrary: q lv l w rule: tries_induct)
  case (attempt k)
  let ?s = "from_retry_policy seed p" and ?k = "of_nat k :: u32"
  note k = of_nat_attempt [OF attempt(1)]
  have now: "sched_step F ?s ?k t = Some (Continue (delay_for_attempt F (\<lambda>_ _. 0) p ?k))" for t
    by (rule policy_schedule_steps(1) [OF assms(2, 3)]) (use attempt(1) k(1) in \<open>simp add: word_le_nat_alt\<close>)
  have "unat (?k + 1) = Suc k"
    using attempt(1) assms(3) k(1) by (simp add: unat_word_ariths word_less_nat_alt)
  then have later: "sched_step F ?s (?k + 1) t = Some (if k < unat (rp_max_retries p)
      then Continue (delay_for_attempt F (\<lambda>_ _. 0) p (?k + 1)) else Done)" for t
    using policy_schedule_steps(1) [OF assms(2, 3), of "?k + 1" F seed t "\<lambda>_ _. 0"]
      policy_schedule_steps(2) [OF assms(2, 3), of "?k + 1" F seed t]
    by (simp add: word_le_nat_alt word_less_nat_alt)
  have clock: "elapsed_now E w = (fst (elapsed_now E w), w)" for w
    using assms(4) by (metis prod.collapse)
  have delay: "next_delay F p E ?k w = (delay_for_attempt F (\<lambda>_ _. 0) p ?k, w)" for w
    using assms(2) by (simp add: next_delay_def)
  have ret: "loop_return (sched_env.truncate E) v n q c w = as_scheduled E (Some \<lparr>rpo_value = v, rpo_attempts = n,
      rpo_cancelled = c, rpo_paused_time = q\<rparr>, w)" for v n q c w
    by (simp add: loop_return_def as_scheduled_def schedule_outcome_def assms(4) case_prod_beta Let_def)
  obtain r w1 where op: "run_op E w = (r, w1)" by fastforce
  note unfolds = sched_loop.simps [of F ?s _ _ ?k] sched_iter_def now later tries_Cons [OF attempt(1)] op delay
  show ?case
  proof (cases r)
    case (Inr v)
    then show ?thesis by (simp add: unfolds ret stop_when_simps assms(4) case_prod_beta Let_def)
  next
    case (Inl e)
    show ?thesis
    proof (cases "k < unat (rp_max_retries p) \<and> again e")
      case True
      let ?d = "delay_for_attempt F (\<lambda>_ _. 0) p ?k"
      have sleep: "(if ?d = 0 then (\<lparr>sleep_completed = True, sleep_paused = 0\<rparr>, x) else run_sleep E ?d x) = run_sleep E ?d x" for x
        using assms(5) by simp
      have IH: "sched_loop F ?s (sched_env.truncate E) (stop_when (\<lambda>e w. (again e, w))) (?k + 1) q lv w =
          Some (as_scheduled E (retry_when_pausable_from F p E (\<lambda>e w. (again e, w)) (Some e) q (tries p (Suc k)) w))" for q lv w
        using attempt(2) [OF True [THEN conjunct1], of q lv w "Some e"] by (simp add: add.commute)
      show ?thesis using Inl True
        by (simp add: unfolds ret stop_when_simps assms(4, 5, 6) sleep wants_retry_def k case_prod_beta Let_def IH
            del: if_split)
    next
      case False
      then show ?thesis using Inl
        by (auto simp: unfolds ret stop_when_simps assms(4) wants_retry_def k case_prod_beta Let_def)
    qed
  qed
qed

text \<open>
  C26. A policy and its schedule retry alike. For a policy without jitter and fewer than \<open>2 ^ 31\<close> retries,
  the retry loop on the schedule made from the policy returns, and it does what the pausable retry loop of
  the policy does: the same calls in the same order on the world, the same value, number of attempts,
  paused time and cancellation. The clock is only read, a sleep of zero returns at once, and cancellation
  is noticed in sleeps.
\<close>

theorem schedule_runs_policy:
  assumes "\<not> rp_jitter p" "rp_max_retries p < 2 ^ 31"
    and "\<forall>w. snd (elapsed_now E w) = w" "\<forall>w. run_sleep E 0 w = (\<lparr>sleep_completed = True, sleep_paused = 0\<rparr>, w)"
    and "\<forall>w. is_cancelled E w = (False, w)"
  shows "retry_on_schedule_when F (from_retry_policy seed p) (sched_env.truncate E) (\<lambda>e w. (again e, w)) w =
    Some (as_scheduled E (retry_when_pausable F p E (\<lambda>e w. (again e, w)) w))"
  using sched_loop_policy [of 0 p E F seed again 0 None w None] assms
  by (simp add: retry_on_schedule_when_def retry_when_pausable_def attempts_of_tries)

theorem schedule_runs_policy_witness:
  "retry_on_schedule_when nat_f64 (from_retry_policy 7 (policy_fixed nat_f64 5 1000000)) (sched_env.truncate logged_env)
     (\<lambda>e w. (e \<noteq> 1, w)) (0, []) =
   Some (as_scheduled logged_env (retry_when_pausable nat_f64 (policy_fixed nat_f64 5 1000000) logged_env (\<lambda>e w. (e \<noteq> 1, w)) (0, [])))"
  using schedule_runs_policy [of "policy_fixed nat_f64 5 1000000" logged_env nat_f64 7 "\<lambda>e. e \<noteq> 1" "(0, [])"]
  by (simp add: policy_fixed_def logged_env_def)

text \<open>
  The first stop at work: two errors, pauses of three in the sleeps between, and a success at the third attempt.
\<close>

theorem retry_first_stop_witness:
  "retry_when_pausable nat_f64 (policy_fixed nat_f64 5 1000000)
     (scripted (\<lambda>_ _ _. 0) (\<lambda>i. if i < 2 then Err i else Ok ''done'') (\<lambda>i. \<lparr>sleep_completed = True, sleep_paused = 3\<rparr>))
     (\<lambda>e w. (e < 4, w)) (0, []) =
   (Some \<lparr>rpo_value = Ok ''done'', rpo_attempts = 3, rpo_cancelled = False, rpo_paused_time = 6\<rparr>,
    (3, map (\<lambda>i. delay_for_attempt nat_f64 (\<lambda>_ _. 0) (policy_fixed nat_f64 5 1000000) (of_nat i)) [0..<2]))"
proof -
  let ?p = "policy_fixed nat_f64 5 1000000" and ?ops = "\<lambda>i::nat. if i < 2 then Err i else Ok ''done''"
  have stop: "gives_up ?p (\<lambda>e. e < 4) ?ops i \<longleftrightarrow> 2 \<le> i" for i
    by (simp add: gives_up_def policy_fixed_def)
  have "(LEAST i::nat. 2 \<le> i) = 2" by (rule Least_equality) simp_all
  then show ?thesis
    using retry_first_stop [of nat_f64 ?p "\<lambda>_ _ _. 0" ?ops "\<lambda>i. \<lparr>sleep_completed = True, sleep_paused = 3\<rparr>" "\<lambda>e. e < 4"]
    by (simp add: stop)
qed

section \<open>The pausable sleep\<close>

lemma pausable_sleep_from_pauses:
  assumes "sum_list (map fst ps) < rem"
  shows "pausable_sleep_from rem q (map (\<lambda>(a, x). Round_paused a x True) ps @ rest) =
    pausable_sleep_from (rem - sum_list (map fst ps)) (q + sum_list (map snd ps)) rest"
  using assms
proof (induction ps arbitrary: rem q)
  case (Cons p ps)
  obtain a x where p: "p = (a, x)" by fastforce
  with Cons.prems have "sum_list (map fst ps) < rem - a" "rem \<noteq> 0" by simp_all
  then show ?case
    by (subst pausable_sleep_from.simps) (simp add: p Cons.IH add.assoc)
qed simp

text \<open>
  The pausable sleep freezes its timer. After any number of pauses that take less active time than the
  duration, the timer still has the rest of the duration to run; when it fires the sleep is complete and
  reports the time spent in the pauses; a cancellation then, or in a further pause, makes it incomplete;
  and a pause that comes when the duration is used up completes it on resume. A sleep of zero completes
  at once, even if cancelled.
\<close>

theorem pausable_sleep_freezes:
  assumes "sum_list (map fst ps) < d"
  shows "pausable_sleep d (map (\<lambda>(a, x). Round_paused a x True) ps @ last_round # rest) =
    (let paused = sum_list (map snd ps)
     in case last_round of
          Timer_fired \<Rightarrow> Some \<lparr>sleep_completed = True, sleep_paused = paused\<rparr>
        | Round_cancelled \<Rightarrow> Some \<lparr>sleep_completed = False, sleep_paused = paused\<rparr>
        | Round_paused a x resumed \<Rightarrow>
            (if \<not> resumed then Some \<lparr>sleep_completed = False, sleep_paused = paused + x\<rparr>
             else pausable_sleep_from (d - (sum_list (map fst ps) + a)) (paused + x) rest))"
  using assms
  by (simp add: pausable_sleep_def pausable_sleep_from_pauses pausable_sleep_from.simps [of _ _ "last_round # rest"]
      Let_def split: sleep_round.split)

theorem pausable_sleep_freezes_witness:
  "pausable_sleep 100 [Round_paused 30 5 True, Round_paused 60 8 True, Timer_fired] =
     Some \<lparr>sleep_completed = True, sleep_paused = 13\<rparr>"
  using pausable_sleep_freezes [of "[(30, 5), (60, 8)]" 100 Timer_fired "[]"] by simp

lemma pausable_sleep_zero [simp]: "pausable_sleep 0 rounds = Some \<lparr>sleep_completed = True, sleep_paused = 0\<rparr>"
  by (simp add: pausable_sleep_def pausable_sleep_from.simps)

end
