(* ===== verification/Json.thy ===== *)
theory Json
  imports Prelude "HOL-Library.Finite_Map"
begin

text \<open>
  JSON values as \<open>serde_json\<close> has them, for the components that look inside a value. Numbers are a type
  parameter. An object is a finite map: two objects are equal when they have the same members, whatever
  their order in the text.
\<close>

datatype 'n json =
    JNull
  | JBool bool
  | JNumber 'n
  | JString string
  | JArray "'n json list"
  | JObject "(string, 'n json) fmap"

text \<open>A \<open>json!\<close> literal with the given members.\<close>

definition json_object :: "(string \<times> 'n json) list \<Rightarrow> 'n json" where
  "json_object kvs = JObject (fmap_of_list kvs)"

fun json_str :: "'n json \<Rightarrow> string option" where
  "json_str (JString s) = Some s"
| "json_str _ = None"

definition json_member :: "string \<Rightarrow> 'n json \<Rightarrow> 'n json option" where
  "json_member k v = (case v of JObject m \<Rightarrow> fmlookup m k | _ \<Rightarrow> None)"

lemma json_member_object [simp]: "json_member k (json_object kvs) = map_of kvs k"
  by (simp add: json_member_def json_object_def fmlookup_of_list)

lemma json_member_simps [simp]:
  "json_member k (JObject m) = fmlookup m k" "json_member k JNull = None" "json_member k (JBool b) = None"
  "json_member k (JNumber n) = None" "json_member k (JString s) = None" "json_member k (JArray xs) = None"
  by (simp_all add: json_member_def)

end
