(* ===== verification/Sql_Ast.thy ===== *)
theory Sql_Ast
  imports Prelude
begin

text \<open>
  The syntax trees that the statement checks of \<open>crates/agent-fw-algebra/src/target_db.rs\<close> and
  \<open>writable_db.rs\<close> inspect. The trees are produced by the \<open>sqlparser\<close> crate; the constructors and
  fields here are those the checks name in their patterns. A field they do not look at is left out unless it
  can hold an expression or a name that is called: the rows of \<open>VALUES\<close> and the name of a table function
  are kept as such, and the skipped expressions of a query, a select, a table, a unary expression and a
  function (DISTINCT ON, named windows, the arguments of a table, the time zone of AT TIME ZONE, OVER,
  WITHIN GROUP) are one list in each. Constructors that a check treats alike share one constructor with
  the kind as an argument.
\<close>

section \<open>Parts of nodes\<close>

datatype join_kind = Inner | LeftOuter | RightOuter | FullOuter | Semi | LeftSemi | RightSemi | Anti | LeftAnti | RightAnti

datatype cross_kind = CrossJoin | CrossApply | OuterApply

datatype 'e JoinConstraint = On 'e | OtherConstraint

datatype 'e JoinOperator = KindJoin join_kind "'e JoinConstraint" | AsOf 'e "'e JoinConstraint" | Cross cross_kind

datatype 'e SelectItem = UnnamedExpr 'e | ExprWithAlias 'e | OtherItem

datatype 'e GroupByExpr = Expressions "'e list" | OtherGroupBy

datatype ('e, 'q) PivotValueSource = PivotSubquery 'q | PivotList "'e list" | PivotAny "'e list"

datatype 'e FunctionArgExpr = ArgExpr 'e | OtherArgExpr

datatype 'e FunctionArg = Unnamed "'e FunctionArgExpr" | Named "'e FunctionArgExpr" | OtherArg

datatype ('e, 'q) FunctionArguments = ArgList "'e FunctionArg list" | ArgSubquery 'q | NoArgs

datatype 'e SubscriptSpec = Index 'e | Slice "'e option" "'e option" "'e option"

datatype 'e JsonPathElem = Bracket 'e | OtherElem

datatype binary_kind = BinaryOp | Like | ILike | SimilarTo | RLike | AnyOp | AllOp | IsDistinctFrom | IsNotDistinctFrom

datatype unary_kind = UnaryOp | Nested | Cast | Collate | NamedExpr | AtTimeZone | Extract | Ceil | Floor | Prior | OuterJoin
  | IsNull | IsNotNull | IsTrue | IsFalse | IsNotTrue | IsNotFalse | IsUnknown | IsNotUnknown | CompositeAccess | Interval | Lambda

datatype leaf_kind = Identifier | CompoundIdentifier | ValueLit | IntroducedString | TypedString | Wildcard | QualifiedWildcard | MatchAgainst

datatype list_kind = Tuple | Struct | ArrayLit

datatype groups_kind = GroupingSets | Cube | Rollup

section \<open>Queries and expressions\<close>

datatype query =
  Query (q_with: "query list option") (q_locks: "string list") (q_body: "set_expr") (q_order_by: "expr list option")
    (q_limit: "expr option") (q_limit_by: "expr list") (q_offset: "expr option") (q_fetch: "expr option option") (q_skipped: "expr list")
and set_expr = SelectBody "select" | QueryBody "query" | SetOperation "set_expr" "set_expr" | Values "expr list list" | TableBody | InsertBody | UpdateBody
and select =
  Select (sel_into: bool) (sel_from: "table_with_joins list") (sel_selection: "expr option") (sel_having: "expr option")
    (sel_projection: "expr SelectItem list") (sel_group_by: "expr GroupByExpr") (sel_cluster_by: "expr list")
    (sel_distribute_by: "expr list") (sel_sort_by: "expr list") (sel_prewhere: "expr option")
    (sel_qualify: "expr option") (sel_lateral_views: "expr list") (sel_connect_by: "(expr \<times> expr list) option")
    (sel_skipped: "expr list")
and table_with_joins = TableWithJoins "table_factor" "(table_factor \<times> expr JoinOperator) list"
and table_factor =
    Derived "query"
  | NestedJoin "table_with_joins"
  | Pivot "table_factor" "(expr, query) PivotValueSource" "expr option" "expr list"
  | Unpivot "table_factor"
  | MatchRecognize "table_factor" "expr list" "expr list" "expr list" "expr list"
  | TableFunction "expr"
  | FunctionTable "string list" "expr FunctionArg list"
  | UNNEST "expr list"
  | JsonTable "expr"
  | OpenJsonTable "expr"
  | Table string "expr list" "expr JsonPathElem list option" "expr list"
and expr =
    Subquery "query" | Exists "query" | InSubquery "expr" "query"
  | Binary binary_kind "expr" "expr" | Unary unary_kind "expr" "expr list"
  | Between "expr" "expr" "expr" | Position "expr" "expr"
  | Overlay "expr" "expr" "expr" "expr option"
  | Substring "expr" "expr option" "expr option"
  | Trim "expr" "expr option" "expr list option"
  | Convert "expr" "expr list"
  | Case "expr option" "expr list" "expr list" "expr option"
  | InList "expr" "expr list" | InUnnest "expr" "expr"
  | FunctionCall "function_node" | Method "expr" "function_node list"
  | JsonAccess "expr" "expr JsonPathElem list" | MapAccess "expr" "expr list"
  | Subscript "expr" "expr SubscriptSpec"
  | ListExpr list_kind "expr list" | Groups groups_kind "expr list list"
  | Dictionary "expr list" | MapExpr "(expr \<times> expr) list" | Leaf leaf_kind
and function_node =
  Function (fn_name: "string list") (fn_args: "(expr, query) FunctionArguments")
    (fn_parameters: "(expr, query) FunctionArguments") (fn_filter: "expr option") (fn_skipped: "expr list")

section \<open>Statements\<close>

datatype statement =
    QueryStmt query
  | Explain statement
  | ExplainTable
  | ShowVariable
  | ShowTables
  | ShowColumns
  | ShowCollation
  | Insert string
  | Update table_with_joins
  | Delete "table_with_joins list"
  | Drop
  | CreateTable string "string list"
  | CreateView string
  | CreateIndex string
  | AlterTable string
  | AlterIndex string
  | Truncate
  | Copy
  | Grant
  | Revoke
  | Call
  | SetVariable
  | StartTransaction
  | Commit
  | Rollback
  | Savepoint
  | OtherStmt

datatype DatabaseType = PostgreSQL | MySQL | SQLite

text \<open>\<open>Parser::parse_sql\<close> with the dialect of a database type; the error is already printed.\<close>

type_synonym sql_parser = "DatabaseType \<Rightarrow> string \<Rightarrow> (string, statement list) result"

end
