(* ===== verification/Target_Db.thy ===== *)
theory Target_Db
  imports Sql_Ast KV_Store "HOL-Library.Finite_Map"
begin

text \<open>
  Read-only access to a customer database, \<open>crates/agent-fw-algebra/src/target_db.rs\<close>: the validation
  that a statement is a query without side effects, the validated query type, rows and SQL escaping.

  The checks are recursive over the syntax tree; every \<open>?\<close> is a \<open>and_check\<close> and every loop with \<open>?\<close>
  the first error of its iterations. The SQL parser is a parameter.
\<close>

section \<open>Errors and rows\<close>

datatype DbError =
    InvalidQuery string
  | Execution string
  | DbTimeout duration
  | Connection string
  | DbDeserialization string

definition DEFAULT_TIMEOUT :: duration where "DEFAULT_TIMEOUT = from_secs 30"

record 'j DbRow =
  row_columns :: "string list"
  row_values :: "(string, 'j) fmap"

definition db_row_new :: "string list \<Rightarrow> 'j list \<Rightarrow> 'j DbRow" where
  "db_row_new columns vs =
     \<lparr>row_columns = columns, row_values = foldl (\<lambda>m (k, v). fmupd k v m) fmempty (zip columns vs)\<rparr>"

definition db_row_get :: "'j DbRow \<Rightarrow> string \<Rightarrow> 'j option" where
  "db_row_get r column = fmlookup (row_values r) column"

definition db_row_get_as ::
  "('v, 'j) serde \<Rightarrow> 'j DbRow \<Rightarrow> string \<Rightarrow> (DbError, 'v option) result" where
  "db_row_get_as sd r column =
     (case fmlookup (row_values r) column of
        None \<Rightarrow> Ok None
      | Some v \<Rightarrow>
          (case from_value sd v of
             Ok x \<Rightarrow> Ok (Some x)
           | Err e \<Rightarrow> Err (DbDeserialization (column @ '': '' @ e))))"

definition has_column :: "'j DbRow \<Rightarrow> string \<Rightarrow> bool" where
  "has_column r name = (fmlookup (row_values r) name \<noteq> None)"

section \<open>Dangerous functions\<close>

definition DANGEROUS_PREFIXES :: "string list" where
  "DANGEROUS_PREFIXES = [''pg_read_'', ''pg_ls_'', ''lo_'', ''dblink'']"

definition DANGEROUS_EXACT :: "string list" where
  "DANGEROUS_EXACT =
     [''pg_execute_server_program'', ''pg_stat_file'', ''pg_sleep'', ''pg_terminate_backend'',
      ''pg_reload_conf'', ''query_to_xml'', ''query_to_xml_and_xmlschema'', ''database_to_xml'',
      ''database_to_xml_and_xmlschema'', ''table_to_xml'', ''table_to_xml_and_xmlschema'',
      ''cursor_to_xml'', ''xml_is_well_formed'']"

definition is_dangerous_function :: "string \<Rightarrow> bool" where
  "is_dangerous_function name \<longleftrightarrow>
     list_ex (\<lambda>p. prefix p name) DANGEROUS_PREFIXES \<or> list_ex (\<lambda>exact. exact = name) DANGEROUS_EXACT"

definition unqualified_function_name :: "string list \<Rightarrow> string option" where
  "unqualified_function_name name =
     (if name = [] then None else Some (to_ascii_lowercase (last name)))"

section \<open>Read-only checks\<close>

type_synonym check = "(DbError, unit) result"

definition and_check :: "check \<Rightarrow> check \<Rightarrow> check" where
  "and_check a b = (case a of Err e \<Rightarrow> Err e | Ok _ \<Rightarrow> b)"

primrec first_err :: "check list \<Rightarrow> check" where
  "first_err [] = Ok ()"
| "first_err (c # cs) = and_check c (first_err cs)"

primrec opt_check :: "check option \<Rightarrow> check" where
  "opt_check None = Ok ()"
| "opt_check (Some c) = c"

definition locks_check :: "string list \<Rightarrow> check" where
  "locks_check locks =
     (if locks \<noteq> []
      then Err (InvalidQuery (''Locking clauses not allowed in read-only queries: FOR '' @ join_with '', FOR '' locks))
      else Ok ())"

primrec join_constraint :: "'e JoinOperator \<Rightarrow> 'e JoinConstraint option" where
  "join_constraint (KindJoin kind c) = Some c"
| "join_constraint (AsOf m c) = Some c"
| "join_constraint (Cross kind) = None"

text \<open>
  The following take the results of the checks on the children of a part, in the part's shape.
\<close>

definition join_check :: "check \<times> check JoinOperator \<Rightarrow> check" where
  "join_check j =
     (case j of (relation, op) \<Rightarrow>
        and_check relation
          (and_check (case join_constraint op of Some (On e) \<Rightarrow> e | _ \<Rightarrow> Ok ())
            (case op of AsOf match_condition _ \<Rightarrow> match_condition | _ \<Rightarrow> Ok ())))"

primrec item_check :: "check SelectItem \<Rightarrow> check" where
  "item_check (UnnamedExpr e) = e"
| "item_check (ExprWithAlias e) = e"
| "item_check OtherItem = Ok ()"

primrec group_by_check :: "check GroupByExpr \<Rightarrow> check" where
  "group_by_check (Expressions es) = first_err es"
| "group_by_check OtherGroupBy = Ok ()"

definition connect_by_check :: "check \<times> check list \<Rightarrow> check" where
  "connect_by_check cb = (case cb of (condition, relationships) \<Rightarrow> and_check condition (first_err relationships))"

primrec pivot_source_check :: "(check, check) PivotValueSource \<Rightarrow> check" where
  "pivot_source_check (PivotSubquery q) = q"
| "pivot_source_check (PivotList es) = first_err es"
| "pivot_source_check (PivotAny es) = first_err es"

primrec arg_expr_check :: "check FunctionArgExpr \<Rightarrow> check" where
  "arg_expr_check (ArgExpr e) = e"
| "arg_expr_check OtherArgExpr = Ok ()"

primrec check_function_arg_safety :: "check FunctionArg \<Rightarrow> check" where
  "check_function_arg_safety (Unnamed a) = arg_expr_check a"
| "check_function_arg_safety (Named a) = arg_expr_check a"
| "check_function_arg_safety OtherArg = Ok ()"

primrec check_function_arguments_safety :: "(check, check) FunctionArguments \<Rightarrow> check" where
  "check_function_arguments_safety (ArgList args) = first_err (map check_function_arg_safety args)"
| "check_function_arguments_safety (ArgSubquery q) = q"
| "check_function_arguments_safety NoArgs = Ok ()"

primrec check_subscript_safety :: "check SubscriptSpec \<Rightarrow> check" where
  "check_subscript_safety (Index i) = i"
| "check_subscript_safety (Slice lower upper stride) =
     first_err [opt_check lower, opt_check upper, opt_check stride]"

primrec path_elem_check :: "check JsonPathElem \<Rightarrow> check" where
  "path_elem_check (Bracket key) = key"
| "path_elem_check OtherElem = Ok ()"

definition check_json_path_safety :: "check JsonPathElem list \<Rightarrow> check" where
  "check_json_path_safety path = first_err (map path_elem_check path)"

definition name_check :: "string list \<Rightarrow> check" where
  "name_check name =
     (case unqualified_function_name name of
        Some n \<Rightarrow>
          if is_dangerous_function n
          then Err (InvalidQuery (''Function '' @ [CHR 0x27] @ n @ [CHR 0x27] @ '' is not permitted in read-only queries'')) else Ok ()
      | None \<Rightarrow> Ok ())"

primrec check_query_safety :: "query \<Rightarrow> check"
  and check_set_expr_safety :: "set_expr \<Rightarrow> check"
  and check_select_safety :: "select \<Rightarrow> check"
  and check_table_with_joins_safety :: "table_with_joins \<Rightarrow> check"
  and check_table_factor_safety :: "table_factor \<Rightarrow> check"
  and check_expr_safety :: "expr \<Rightarrow> check"
  and check_function_safety :: "function_node \<Rightarrow> check" where
  "check_query_safety (Query ctes locks body order_by limit limit_by offset fetch skipped) =
     first_err
      [opt_check (map_option first_err (map_option (map check_query_safety) ctes)),
       locks_check locks,
       check_set_expr_safety body,
       opt_check (map_option first_err (map_option (map check_expr_safety) order_by)),
       opt_check (map_option check_expr_safety limit),
       first_err (map check_expr_safety limit_by),
       opt_check (map_option check_expr_safety offset),
       opt_check (map_option opt_check (map_option (map_option check_expr_safety) fetch))]"
| "check_set_expr_safety (SelectBody select) = check_select_safety select"
| "check_set_expr_safety (QueryBody q) = check_query_safety q"
| "check_set_expr_safety (SetOperation left right) =
     and_check (check_set_expr_safety left) (check_set_expr_safety right)"
| "check_set_expr_safety (Values rows) = Ok ()"
| "check_set_expr_safety TableBody = Ok ()"
| "check_set_expr_safety InsertBody =
     Err (InvalidQuery ''Mutation statements not allowed in read-only queries'')"
| "check_set_expr_safety UpdateBody =
     Err (InvalidQuery ''Mutation statements not allowed in read-only queries'')"
| "check_select_safety (Select into from selection having projection group_by cluster_by distribute_by
       sort_by prewhere qualify lateral_views connect_by skipped) =
     (if into then Err (InvalidQuery ''SELECT INTO not allowed in read-only queries'')
      else first_err
       [first_err (map check_table_with_joins_safety from),
        opt_check (map_option check_expr_safety selection),
        opt_check (map_option check_expr_safety having),
        first_err (map item_check (map (map_SelectItem check_expr_safety) projection)),
        group_by_check (map_GroupByExpr check_expr_safety group_by),
        first_err (map check_expr_safety cluster_by),
        first_err (map check_expr_safety distribute_by),
        first_err (map check_expr_safety sort_by),
        opt_check (map_option check_expr_safety prewhere),
        opt_check (map_option check_expr_safety qualify),
        first_err (map check_expr_safety lateral_views),
        opt_check (map_option connect_by_check
          (map_option (map_prod check_expr_safety (map check_expr_safety)) connect_by))])"
| "check_table_with_joins_safety (TableWithJoins relation joins) =
     and_check (check_table_factor_safety relation)
       (first_err (map join_check
         (map (map_prod check_table_factor_safety (map_JoinOperator check_expr_safety)) joins)))"
| "check_table_factor_safety (Derived subquery) = check_query_safety subquery"
| "check_table_factor_safety (NestedJoin twj) = check_table_with_joins_safety twj"
| "check_table_factor_safety (Pivot table value_source default_on_null aggregate_functions) =
     first_err
      [check_table_factor_safety table,
       pivot_source_check (map_PivotValueSource check_expr_safety check_query_safety value_source),
       opt_check (map_option check_expr_safety default_on_null),
       first_err (map check_expr_safety aggregate_functions)]"
| "check_table_factor_safety (Unpivot table) = check_table_factor_safety table"
| "check_table_factor_safety (MatchRecognize table partition_by order_by measure_exprs symbols) =
     first_err
      [check_table_factor_safety table, first_err (map check_expr_safety partition_by),
       first_err (map check_expr_safety order_by), first_err (map check_expr_safety measure_exprs),
       first_err (map check_expr_safety symbols)]"
| "check_table_factor_safety (TableFunction e) = check_expr_safety e"
| "check_table_factor_safety (FunctionTable name args) =
     first_err (map check_function_arg_safety (map (map_FunctionArg check_expr_safety) args))"
| "check_table_factor_safety (UNNEST array_exprs) = first_err (map check_expr_safety array_exprs)"
| "check_table_factor_safety (JsonTable json_expr) = check_expr_safety json_expr"
| "check_table_factor_safety (OpenJsonTable json_expr) = check_expr_safety json_expr"
| "check_table_factor_safety (Table name with_hints json_path skipped) =
     and_check (first_err (map check_expr_safety with_hints))
       (opt_check (map_option check_json_path_safety
         (map_option (map (map_JsonPathElem check_expr_safety)) json_path)))"
| "check_expr_safety (Subquery q) = check_query_safety q"
| "check_expr_safety (Exists subquery) = check_query_safety subquery"
| "check_expr_safety (InSubquery e subquery) = and_check (check_expr_safety e) (check_query_safety subquery)"
| "check_expr_safety (Binary kind left right) = and_check (check_expr_safety left) (check_expr_safety right)"
| "check_expr_safety (Unary kind e skipped) = check_expr_safety e"
| "check_expr_safety (Between e low high) =
     first_err [check_expr_safety e, check_expr_safety low, check_expr_safety high]"
| "check_expr_safety (Position e in_expr) = and_check (check_expr_safety e) (check_expr_safety in_expr)"
| "check_expr_safety (Overlay e what from_expr for_expr) =
     first_err [check_expr_safety e, check_expr_safety what, check_expr_safety from_expr,
       opt_check (map_option check_expr_safety for_expr)]"
| "check_expr_safety (Substring e from_expr for_expr) =
     first_err [check_expr_safety e, opt_check (map_option check_expr_safety from_expr),
       opt_check (map_option check_expr_safety for_expr)]"
| "check_expr_safety (Trim e what characters) =
     first_err [check_expr_safety e, opt_check (map_option check_expr_safety what),
       opt_check (map_option first_err (map_option (map check_expr_safety) characters))]"
| "check_expr_safety (Convert e styles) = and_check (check_expr_safety e) (first_err (map check_expr_safety styles))"
| "check_expr_safety (Case operand conditions results else_result) =
     first_err [opt_check (map_option check_expr_safety operand), first_err (map check_expr_safety conditions),
       first_err (map check_expr_safety results), opt_check (map_option check_expr_safety else_result)]"
| "check_expr_safety (InList e es) = and_check (check_expr_safety e) (first_err (map check_expr_safety es))"
| "check_expr_safety (InUnnest e array_expr) = and_check (check_expr_safety e) (check_expr_safety array_expr)"
| "check_expr_safety (FunctionCall f) = check_function_safety f"
| "check_expr_safety (Method e method_chain) =
     and_check (check_expr_safety e) (first_err (map check_function_safety method_chain))"
| "check_expr_safety (JsonAccess v path) =
     and_check (check_expr_safety v) (check_json_path_safety (map (map_JsonPathElem check_expr_safety) path))"
| "check_expr_safety (MapAccess column keys) =
     and_check (check_expr_safety column) (first_err (map check_expr_safety keys))"
| "check_expr_safety (Subscript e sub) =
     and_check (check_expr_safety e) (check_subscript_safety (map_SubscriptSpec check_expr_safety sub))"
| "check_expr_safety (ListExpr kind es) = first_err (map check_expr_safety es)"
| "check_expr_safety (Groups kind groups) = first_err (map first_err (map (map check_expr_safety) groups))"
| "check_expr_safety (Dictionary es) = first_err (map check_expr_safety es)"
| "check_expr_safety (MapExpr entries) =
     first_err (map (\<lambda>(k, v). and_check k v) (map (map_prod check_expr_safety check_expr_safety) entries))"
| "check_expr_safety (Leaf kind) = Ok ()"
| "check_function_safety (Function name args parameters filter_expr skipped) =
     first_err
      [name_check name,
       check_function_arguments_safety (map_FunctionArguments check_expr_safety check_query_safety args),
       check_function_arguments_safety (map_FunctionArguments check_expr_safety check_query_safety parameters),
       opt_check (map_option check_expr_safety filter_expr)]"

primrec statement_kind :: "statement \<Rightarrow> string" where
  "statement_kind (QueryStmt _) = ''SELECT''"
| "statement_kind (Explain _) = ''EXPLAIN''"
| "statement_kind ExplainTable = ''disallowed statement''"
| "statement_kind ShowVariable = ''disallowed statement''"
| "statement_kind ShowTables = ''disallowed statement''"
| "statement_kind ShowColumns = ''disallowed statement''"
| "statement_kind ShowCollation = ''disallowed statement''"
| "statement_kind (Insert _) = ''INSERT''"
| "statement_kind (Update _) = ''UPDATE''"
| "statement_kind (Delete _) = ''DELETE''"
| "statement_kind Drop = ''DROP''"
| "statement_kind (CreateTable _ _) = ''CREATE TABLE''"
| "statement_kind (CreateView _) = ''CREATE VIEW''"
| "statement_kind (CreateIndex _) = ''CREATE INDEX''"
| "statement_kind (AlterTable _) = ''ALTER TABLE''"
| "statement_kind (AlterIndex _) = ''disallowed statement''"
| "statement_kind Truncate = ''TRUNCATE''"
| "statement_kind Copy = ''COPY''"
| "statement_kind Grant = ''GRANT''"
| "statement_kind Revoke = ''REVOKE''"
| "statement_kind Call = ''CALL''"
| "statement_kind SetVariable = ''SET''"
| "statement_kind StartTransaction = ''BEGIN''"
| "statement_kind Commit = ''COMMIT''"
| "statement_kind Rollback = ''ROLLBACK''"
| "statement_kind Savepoint = ''SAVEPOINT''"
| "statement_kind OtherStmt = ''disallowed statement''"

definition check_statement :: "statement \<Rightarrow> check" where
  "check_statement st =
     (case st of
        QueryStmt q \<Rightarrow> check_query_safety q
      | Explain _ \<Rightarrow> Ok () | ExplainTable \<Rightarrow> Ok ()
      | ShowVariable \<Rightarrow> Ok () | ShowTables \<Rightarrow> Ok () | ShowColumns \<Rightarrow> Ok () | ShowCollation \<Rightarrow> Ok ()
      | other \<Rightarrow> Err (InvalidQuery (''Only SELECT/WITH/EXPLAIN/SHOW queries allowed, got: '' @ statement_kind other)))"

definition validate_read_only_for :: "sql_parser \<Rightarrow> string \<Rightarrow> DatabaseType \<Rightarrow> check" where
  "validate_read_only_for parse_sql sql database_type =
     (case parse_sql database_type sql of
        Err e \<Rightarrow> Err (InvalidQuery (''SQL parse error: '' @ e))
      | Ok statements \<Rightarrow>
          (case statements of
             [] \<Rightarrow> Err (InvalidQuery ''Empty SQL statement'')
           | [st] \<Rightarrow> check_statement st
           | _ # _ # _ \<Rightarrow> Err (InvalidQuery ''Multiple statements not allowed'')))"

definition validate_read_only :: "sql_parser \<Rightarrow> string \<Rightarrow> check" where
  "validate_read_only parse_sql sql = validate_read_only_for parse_sql sql PostgreSQL"

datatype ReadOnlyQuery = ReadOnlyQuery (roq_sql: string)

definition read_only_parse_for :: "sql_parser \<Rightarrow> string \<Rightarrow> DatabaseType \<Rightarrow> (DbError, ReadOnlyQuery) result" where
  "read_only_parse_for parse_sql sql database_type =
     (case validate_read_only_for parse_sql sql database_type of
        Err e \<Rightarrow> Err e
      | Ok _ \<Rightarrow> Ok (ReadOnlyQuery sql))"

definition read_only_parse :: "sql_parser \<Rightarrow> string \<Rightarrow> (DbError, ReadOnlyQuery) result" where
  "read_only_parse parse_sql sql = read_only_parse_for parse_sql sql PostgreSQL"

section \<open>Escaping\<close>

text \<open>\<open>str::replace\<close> of one character by two of it.\<close>

definition double_char :: "char \<Rightarrow> string \<Rightarrow> string" where
  "double_char q s = concat (map (\<lambda>c. if c = q then [q, q] else [c]) s)"

definition escape_identifier :: "string \<Rightarrow> string" where
  "escape_identifier name = double_char (CHR 0x22) name"

definition escape_literal :: "string \<Rightarrow> string" where
  "escape_literal v = double_char (CHR 0x27) v"

section \<open>Specification of the checks\<close>

text \<open>
  The tree behind a query: \<open>children\<close> lists what a node contains in the fields the checks look into,
  \<open>skipped_children\<close> the expressions in the others, and \<open>harmless\<close> is the condition on the node alone.
\<close>

datatype node =
    NQuery query
  | NBody set_expr
  | NSelect select
  | NFrom table_with_joins
  | NTable table_factor
  | NExpr expr
  | NFunction function_node

definition exprs :: "expr set \<Rightarrow> node set" where "exprs A = NExpr ` A"

primrec query_children :: "query \<Rightarrow> node set" where
  "query_children (Query ctes locks body order_by limit limit_by offset fetch sk) =
     NQuery ` (\<Union> (set ` set_option ctes)) \<union> {NBody body} \<union>
     exprs (\<Union> (set ` set_option order_by) \<union> set_option limit \<union> set limit_by \<union> set_option offset \<union>
       \<Union> (set_option ` set_option fetch))"

primrec select_children :: "select \<Rightarrow> node set" where
  "select_children (Select into from selection having projection group_by cluster_by distribute_by
       sort_by prewhere qualify lateral_views connect_by sk) =
     NFrom ` set from \<union>
     exprs (set_option selection \<union> set_option having \<union> \<Union> (set_SelectItem ` set projection) \<union>
       set_GroupByExpr group_by \<union> set cluster_by \<union> set distribute_by \<union> set sort_by \<union>
       set_option prewhere \<union> set_option qualify \<union> set lateral_views \<union>
       \<Union> ((\<lambda>(c, rs). insert c (set rs)) ` set_option connect_by))"

primrec body_children :: "set_expr \<Rightarrow> node set" where
  "body_children (SelectBody s) = {NSelect s}"
| "body_children (QueryBody q) = {NQuery q}"
| "body_children (SetOperation l r) = {NBody l, NBody r}"
| "body_children (Values v) = {}"
| "body_children TableBody = {}"
| "body_children InsertBody = {}"
| "body_children UpdateBody = {}"

primrec from_children :: "table_with_joins \<Rightarrow> node set" where
  "from_children (TableWithJoins relation joins) =
     insert (NTable relation) (NTable ` fst ` set joins \<union> exprs (\<Union> (set_JoinOperator ` snd ` set joins)))"

primrec table_children :: "table_factor \<Rightarrow> node set" where
  "table_children (Derived q) = {NQuery q}"
| "table_children (NestedJoin t) = {NFrom t}"
| "table_children (Pivot t src d aggs) =
     {NTable t} \<union> NQuery ` set2_PivotValueSource src \<union>
     exprs (set1_PivotValueSource src \<union> set_option d \<union> set aggs)"
| "table_children (Unpivot t) = {NTable t}"
| "table_children (MatchRecognize t ps os ms ss) = {NTable t} \<union> exprs (set ps \<union> set os \<union> set ms \<union> set ss)"
| "table_children (TableFunction e) = {NExpr e}"
| "table_children (FunctionTable name args) = exprs (\<Union> (set_FunctionArg ` set args))"
| "table_children (UNNEST es) = exprs (set es)"
| "table_children (JsonTable e) = {NExpr e}"
| "table_children (OpenJsonTable e) = {NExpr e}"
| "table_children (Table name hints path sk) =
     exprs (set hints \<union> \<Union> ((\<lambda>p. \<Union> (set_JsonPathElem ` set p)) ` set_option path))"

primrec expr_children :: "expr \<Rightarrow> node set" where
  "expr_children (Subquery q) = {NQuery q}"
| "expr_children (Exists q) = {NQuery q}"
| "expr_children (InSubquery e q) = {NExpr e, NQuery q}"
| "expr_children (Binary k l r) = {NExpr l, NExpr r}"
| "expr_children (Unary k e sk) = {NExpr e}"
| "expr_children (Between e l h) = {NExpr e, NExpr l, NExpr h}"
| "expr_children (Position e i) = {NExpr e, NExpr i}"
| "expr_children (Overlay e w f o') = {NExpr e, NExpr w, NExpr f} \<union> exprs (set_option o')"
| "expr_children (Substring e f o') = {NExpr e} \<union> exprs (set_option f \<union> set_option o')"
| "expr_children (Trim e w cs) = {NExpr e} \<union> exprs (set_option w \<union> \<Union> (set ` set_option cs))"
| "expr_children (Convert e ss) = {NExpr e} \<union> exprs (set ss)"
| "expr_children (Case op cs rs el) = exprs (set_option op \<union> set cs \<union> set rs \<union> set_option el)"
| "expr_children (InList e es) = {NExpr e} \<union> exprs (set es)"
| "expr_children (InUnnest e a) = {NExpr e, NExpr a}"
| "expr_children (FunctionCall f) = {NFunction f}"
| "expr_children (Method e fs) = {NExpr e} \<union> NFunction ` set fs"
| "expr_children (JsonAccess v path) = {NExpr v} \<union> exprs (\<Union> (set_JsonPathElem ` set path))"
| "expr_children (MapAccess c ks) = {NExpr c} \<union> exprs (set ks)"
| "expr_children (Subscript e sub) = {NExpr e} \<union> exprs (set_SubscriptSpec sub)"
| "expr_children (ListExpr k es) = exprs (set es)"
| "expr_children (Groups k gs) = exprs (\<Union> (set ` set gs))"
| "expr_children (Dictionary es) = exprs (set es)"
| "expr_children (MapExpr es) = exprs (fst ` set es \<union> snd ` set es)"
| "expr_children (Leaf k) = {}"

primrec function_children :: "function_node \<Rightarrow> node set" where
  "function_children (Function name args params filter_expr sk) =
     NQuery ` (set2_FunctionArguments args \<union> set2_FunctionArguments params) \<union>
     exprs (set1_FunctionArguments args \<union> set1_FunctionArguments params \<union> set_option filter_expr)"

primrec children :: "node \<Rightarrow> node set" where
  "children (NQuery q) = query_children q"
| "children (NBody b) = body_children b"
| "children (NSelect s) = select_children s"
| "children (NFrom t) = from_children t"
| "children (NTable t) = table_children t"
| "children (NExpr e) = expr_children e"
| "children (NFunction f) = function_children f"

fun harmless :: "node \<Rightarrow> bool" where
  "harmless (NQuery q) \<longleftrightarrow> q_locks q = []"
| "harmless (NBody b) \<longleftrightarrow> b \<noteq> InsertBody \<and> b \<noteq> UpdateBody"
| "harmless (NSelect s) \<longleftrightarrow> \<not> sel_into s"
| "harmless (NFunction f) \<longleftrightarrow>
     fn_name f = [] \<or> \<not> is_dangerous_function (to_ascii_lowercase (last (fn_name f)))"
| "harmless _ \<longleftrightarrow> True"

fun skipped_children :: "node \<Rightarrow> node set" where
  "skipped_children (NQuery q) = exprs (set (q_skipped q))"
| "skipped_children (NBody (Values rows)) = exprs (\<Union> (set ` set rows))"
| "skipped_children (NSelect s) = exprs (set (sel_skipped s))"
| "skipped_children (NTable (Table name hints path sk)) = exprs (set sk)"
| "skipped_children (NExpr (Unary k e sk)) = exprs (set sk)"
| "skipped_children (NFunction f) = exprs (set (fn_skipped f))"
| "skipped_children _ = {}"

text \<open>The name a table function is called by, which the checks do not look at.\<close>

fun called_table :: "node \<Rightarrow> string list option" where
  "called_table (NTable (FunctionTable name args)) = Some name"
| "called_table _ = None"

text \<open>The nodes reached from a node through the given children.\<close>

inductive inside :: "(node \<Rightarrow> node set) \<Rightarrow> node \<Rightarrow> node \<Rightarrow> bool" for C where
  here: "inside C n n"
| below: "m \<in> C n \<Longrightarrow> inside C m k \<Longrightarrow> inside C n k"

section \<open>The checks visit every node\<close>

primrec node_check :: "node \<Rightarrow> check" where
  "node_check (NQuery q) = check_query_safety q"
| "node_check (NBody b) = check_set_expr_safety b"
| "node_check (NSelect s) = check_select_safety s"
| "node_check (NFrom t) = check_table_with_joins_safety t"
| "node_check (NTable t) = check_table_factor_safety t"
| "node_check (NExpr e) = check_expr_safety e"
| "node_check (NFunction f) = check_function_safety f"

definition passes :: "check \<Rightarrow> bool" where "passes c \<longleftrightarrow> c = Ok ()"

lemma passes_and [simp]: "passes (and_check a b) \<longleftrightarrow> passes a \<and> passes b"
  by (cases a) (simp_all add: passes_def and_check_def)

lemma passes_basic [simp]: "passes (Ok ())" "\<not> passes (Err e)"
  by (simp_all add: passes_def)

lemma passes_first_err [simp]: "passes (first_err cs) \<longleftrightarrow> (\<forall>c \<in> set cs. passes c)"
  by (induction cs) simp_all

lemma passes_opt [simp]: "passes (opt_check x) \<longleftrightarrow> (\<forall>c \<in> set_option x. passes c)"
  by (cases x) simp_all

lemma passes_locks [simp]: "passes (locks_check ls) \<longleftrightarrow> ls = []"
  by (simp add: locks_check_def)

lemma passes_name [simp]:
  "passes (name_check name) \<longleftrightarrow> name = [] \<or> \<not> is_dangerous_function (to_ascii_lowercase (last name))"
  by (simp add: name_check_def unqualified_function_name_def)

lemma passes_item [simp]: "passes (item_check i) \<longleftrightarrow> (\<forall>c \<in> set_SelectItem i. passes c)"
  by (cases i) simp_all

lemma passes_group_by [simp]: "passes (group_by_check g) \<longleftrightarrow> (\<forall>c \<in> set_GroupByExpr g. passes c)"
  by (cases g) simp_all

lemma passes_pivot [simp]:
  "passes (pivot_source_check p) \<longleftrightarrow>
     (\<forall>c \<in> set1_PivotValueSource p. passes c) \<and> (\<forall>c \<in> set2_PivotValueSource p. passes c)"
  by (cases p) simp_all

lemma passes_arg_expr [simp]: "passes (arg_expr_check a) \<longleftrightarrow> (\<forall>c \<in> set_FunctionArgExpr a. passes c)"
  by (cases a) simp_all

lemma passes_arg [simp]: "passes (check_function_arg_safety a) \<longleftrightarrow> (\<forall>c \<in> set_FunctionArg a. passes c)"
  by (cases a) simp_all

lemma passes_arguments [simp]:
  "passes (check_function_arguments_safety a) \<longleftrightarrow>
     (\<forall>c \<in> set1_FunctionArguments a. passes c) \<and> (\<forall>c \<in> set2_FunctionArguments a. passes c)"
  by (cases a) simp_all

lemma passes_subscript [simp]: "passes (check_subscript_safety s) \<longleftrightarrow> (\<forall>c \<in> set_SubscriptSpec s. passes c)"
  by (cases s) (auto split: option.splits)

lemma passes_path_elem [simp]: "passes (path_elem_check e) \<longleftrightarrow> (\<forall>c \<in> set_JsonPathElem e. passes c)"
  by (cases e) simp_all

lemma passes_path [simp]:
  "passes (check_json_path_safety p) \<longleftrightarrow> (\<forall>e \<in> set p. \<forall>c \<in> set_JsonPathElem e. passes c)"
  by (simp add: check_json_path_safety_def)

lemma passes_connect_by [simp]:
  "passes (connect_by_check cb) \<longleftrightarrow> passes (fst cb) \<and> (\<forall>c \<in> set (snd cb). passes c)"
  by (simp add: connect_by_check_def case_prod_beta)

lemma passes_join [simp]:
  "passes (join_check j) \<longleftrightarrow> passes (fst j) \<and> (\<forall>c \<in> set_JoinOperator (snd j). passes c)"
proof (cases j)
  case (Pair r op)
  have "passes (case c of On e \<Rightarrow> e | _ \<Rightarrow> Ok ()) \<longleftrightarrow> (\<forall>x \<in> set_JoinConstraint c. passes x)" for c
    by (cases c) simp_all
  then show ?thesis by (cases op) (auto simp: Pair join_check_def)
qed

lemmas part_set_maps = option.set_map SelectItem.set_map GroupByExpr.set_map PivotValueSource.set_map
  FunctionArg.set_map FunctionArguments.set_map SubscriptSpec.set_map JsonPathElem.set_map
  JoinOperator.set_map

text \<open>A node passes iff it is harmless and its children pass.\<close>

lemma node_check_step: "passes (node_check n) \<longleftrightarrow> harmless n \<and> (\<forall>m \<in> children n. passes (node_check m))"
proof (cases n)
  case (NQuery q)
  then show ?thesis by (cases q) (simp add: exprs_def part_set_maps ball_Un conj_ac)
next
  case (NBody b)
  then show ?thesis by (cases b) simp_all
next
  case (NSelect s)
  then show ?thesis by (cases s) (simp add: exprs_def part_set_maps ball_Un case_prod_beta)
next
  case (NFrom t)
  then show ?thesis by (cases t) (simp add: exprs_def part_set_maps ball_Un ball_conj_distrib)
next
  case (NTable t)
  then show ?thesis by (cases t) (simp_all add: exprs_def part_set_maps ball_Un conj_ac)
next
  case (NExpr e)
  then show ?thesis by (cases e) (simp_all add: exprs_def part_set_maps ball_Un case_prod_beta ball_conj_distrib)
next
  case (NFunction f)
  then show ?thesis by (cases f) (simp add: exprs_def part_set_maps ball_Un conj_ac)
qed

definition clean :: "node \<Rightarrow> bool" where
  "clean n \<longleftrightarrow> (\<forall>k. inside children n k \<longrightarrow> harmless k)"

text \<open>The same in every position of the syntax, the names of table functions included.\<close>

definition clean_everywhere :: "node \<Rightarrow> bool" where
  "clean_everywhere n \<longleftrightarrow>
     (\<forall>k. inside (\<lambda>n. children n \<union> skipped_children n) n k \<longrightarrow> harmless k \<and>
        (case called_table k of
           Some name \<Rightarrow> name = [] \<or> \<not> is_dangerous_function (to_ascii_lowercase (last name))
         | None \<Rightarrow> True))"

text \<open>Nothing is out of the checks' sight.\<close>

definition fully_inspected :: "node \<Rightarrow> bool" where
  "fully_inspected n \<longleftrightarrow> (\<forall>k. inside children n k \<longrightarrow> skipped_children k = {} \<and> called_table k = None)"

lemma passes_clean: "passes (node_check n) \<Longrightarrow> clean n"
proof -
  have "harmless k" if "inside children n k" "passes (node_check n)" for n k
    using that
  proof (induction rule: inside.induct)
    case (here n)
    then show ?case using node_check_step [of n] by blast
  next
    case (below m n k)
    then show ?case using node_check_step [of n] by blast
  qed
  then show "passes (node_check n) \<Longrightarrow> clean n" by (auto simp: clean_def)
qed

lemma clean_step:
  assumes "\<And>m. m \<in> children n \<Longrightarrow> clean m \<longrightarrow> passes (node_check m)"
  shows "clean n \<longrightarrow> passes (node_check n)"
  using assms by (auto simp: node_check_step [of n] clean_def intro: inside.intros)

lemma clean_passes_all:
  "clean (NQuery q) \<longrightarrow> passes (node_check (NQuery q))"
  "clean (NBody b) \<longrightarrow> passes (node_check (NBody b))"
  "clean (NSelect s) \<longrightarrow> passes (node_check (NSelect s))"
  "clean (NFrom t) \<longrightarrow> passes (node_check (NFrom t))"
  "clean (NTable tf) \<longrightarrow> passes (node_check (NTable tf))"
  "clean (NExpr e) \<longrightarrow> passes (node_check (NExpr e))"
  "clean (NFunction f) \<longrightarrow> passes (node_check (NFunction f))"
proof (induction q and b and s and t and tf and e and f)
qed (rule clean_step, force simp: exprs_def prod_set_defs)+

lemma node_check_iff: "passes (node_check n) \<longleftrightarrow> clean n"
  using passes_clean clean_passes_all by (cases n) auto

lemma inside_more: "inside C n k \<Longrightarrow> (\<And>n. C n \<subseteq> D n) \<Longrightarrow> inside D n k"
  by (induction rule: inside.induct) (auto intro: inside.intros)

lemma clean_everywhere_clean: "clean_everywhere n \<Longrightarrow> clean n"
  using inside_more [of children n _ "\<lambda>n. children n \<union> skipped_children n"] by (auto simp: clean_everywhere_def clean_def)

lemma fully_inspected_inside:
  assumes "inside (\<lambda>n. children n \<union> skipped_children n) n k" "fully_inspected n"
  shows "inside children n k"
  using assms
proof (induction rule: inside.induct)
  case (below m n k)
  have "skipped_children n = {}" using below.prems inside.here [of children n] unfolding fully_inspected_def by blast
  with below.hyps(1) have m: "m \<in> children n" by simp
  then have "fully_inspected m" using below.prems inside.below unfolding fully_inspected_def by blast
  with below.IH m show ?case by (blast intro: inside.below)
qed (rule inside.here)

lemma fully_inspected_clean:
  assumes "fully_inspected n"
  shows "clean n \<longleftrightarrow> clean_everywhere n"
proof
  assume clean: "clean n"
  show "clean_everywhere n"
    unfolding clean_everywhere_def
  proof (intro allI impI)
    fix k assume "inside (\<lambda>n. children n \<union> skipped_children n) n k"
    then have "inside children n k" using assms by (rule fully_inspected_inside)
    then have "harmless k" "called_table k = None" using clean assms by (auto simp: clean_def fully_inspected_def)
    then show "harmless k \<and> (case called_table k of
        Some name \<Rightarrow> name = [] \<or> \<not> is_dangerous_function (to_ascii_lowercase (last name)) | None \<Rightarrow> True)" by simp
  qed
qed (rule clean_everywhere_clean)

section \<open>Properties\<close>

fun introspection :: "statement \<Rightarrow> bool" where
  "introspection (Explain _) = True"
| "introspection st \<longleftrightarrow> st \<in> {ExplainTable, ShowVariable, ShowTables, ShowColumns, ShowCollation}"

fun read_only_statement :: "statement \<Rightarrow> bool" where
  "read_only_statement (QueryStmt q) = clean (NQuery q)"
| "read_only_statement st = introspection st"

text \<open>
  C5. The validation accepts exactly the statements whose inspected part is read-only, for every parser: the
  text is one statement, and it is an EXPLAIN or SHOW statement or a query in whose tree, at any depth and in
  every position the checks look into, there is no locking clause, no SELECT INTO, no data-modifying body and
  no function expression on the deny list. A validated query carries the text that was validated. The
  checks do not look at what is under an EXPLAIN, at the rows of VALUES, at the name of a table function and at
  some fields (such as DISTINCT ON, named windows, OVER, WITHIN GROUP, the time zone of AT TIME ZONE). A query that
  is clean in every position, these included, is accepted, and for a query without these positions the
  accepted ones are exactly the ones clean in every position.
\<close>

theorem read_only_validation_exact:
  "(case read_only_parse_for parse_sql sql db of
      Ok q \<Rightarrow> roq_sql q = sql \<and> (\<exists>st. parse_sql db sql = Ok [st] \<and> read_only_statement st)
    | Err e \<Rightarrow> \<not> (\<exists>st. parse_sql db sql = Ok [st] \<and> read_only_statement st)) \<and>
   (clean_everywhere (NQuery q) \<longrightarrow> clean (NQuery q)) \<and>
   (fully_inspected (NQuery q) \<longrightarrow> clean (NQuery q) \<longrightarrow> clean_everywhere (NQuery q))"
proof (intro conjI impI)
  have "check_statement st = Ok () \<longleftrightarrow> read_only_statement st" for st
    using node_check_iff [of "NQuery q" for q, unfolded passes_def]
    by (cases st) (simp_all add: check_statement_def)
  then show "case read_only_parse_for parse_sql sql db of
      Ok q \<Rightarrow> roq_sql q = sql \<and> (\<exists>st. parse_sql db sql = Ok [st] \<and> read_only_statement st)
    | Err e \<Rightarrow> \<not> (\<exists>st. parse_sql db sql = Ok [st] \<and> read_only_statement st)"
    by (auto simp: read_only_parse_for_def validate_read_only_for_def split: sum.splits list.splits)
      (metis Inl_Inr_False)
qed (auto simp: clean_everywhere_clean fully_inspected_clean)

text \<open>A query that selects one expression, for the witness.\<close>

definition select_one :: "expr \<Rightarrow> query" where
  "select_one e = Query None [] (SelectBody (Select False [] None None [UnnamedExpr e] (Expressions []) [] [] []
     None None [] None [])) None None [] None None []"

lemma inside_unfold: "inside C n k \<longleftrightarrow> k = n \<or> (\<exists>m \<in> C n. inside C m k)"
  by (subst inside.simps) auto

lemma select_one_inside:
  "inside children (NQuery (select_one (Leaf kind))) k \<Longrightarrow>
   k \<in> {NQuery (select_one (Leaf kind)), NBody (q_body (select_one (Leaf kind))),
     NSelect (Select False [] None None [UnnamedExpr (Leaf kind)] (Expressions []) [] [] [] None None [] None []), NExpr (Leaf kind)}"
  by (subst (asm) inside_unfold, simp add: select_one_def exprs_def, subst (asm) inside_unfold, simp,
      subst (asm) inside_unfold, simp add: exprs_def, subst (asm) inside_unfold, auto)

theorem read_only_validation_exact_witness:
  "clean_everywhere (NQuery (select_one (Leaf ValueLit))) \<and>
   (\<exists>e. read_only_parse_for (\<lambda>_ _. Ok [QueryStmt (select_one (FunctionCall (Function [''pg_catalog'', ''PG_Read_File''] NoArgs NoArgs None [])))])
      ''select'' PostgreSQL = Err e) \<and>
   \<not> clean (NQuery (select_one (FunctionCall (Function [''pg_catalog'', ''PG_Read_File''] NoArgs NoArgs None []))))"
proof (intro conjI)
  let ?ok = "select_one (Leaf ValueLit)"
    and ?bad = "select_one (FunctionCall (Function [''pg_catalog'', ''PG_Read_File''] NoArgs NoArgs None []))"
  have "read_only_parse_for (\<lambda>_ _. Ok [QueryStmt ?ok]) ''q'' PostgreSQL = Ok (ReadOnlyQuery ''q'')" by code_simp
  then have "clean (NQuery ?ok)"
    using read_only_validation_exact [of "\<lambda>_ _. Ok [QueryStmt ?ok]" PostgreSQL "''q''"] by simp
  moreover have "fully_inspected (NQuery ?ok)"
    unfolding fully_inspected_def by (intro allI impI, drule select_one_inside) (auto simp: select_one_def exprs_def)
  ultimately show "clean_everywhere (NQuery ?ok)"
    using read_only_validation_exact [of "\<lambda>_ _. Ok []" PostgreSQL "''q''" ?ok] by simp
  have "is_ok (read_only_parse_for (\<lambda>_ _. Ok [QueryStmt ?bad]) ''select'' PostgreSQL) = False" by code_simp
  then show bad: "\<exists>e. read_only_parse_for (\<lambda>_ _. Ok [QueryStmt ?bad]) ''select'' PostgreSQL = Err e"
    by (cases "read_only_parse_for (\<lambda>_ _. Ok [QueryStmt ?bad]) ''select'' PostgreSQL") (simp_all add: is_ok_def)
  then show "\<not> clean (NQuery ?bad)"
    using read_only_validation_exact [of "\<lambda>_ _. Ok [QueryStmt ?bad]" PostgreSQL "''select''"] by auto
qed

text \<open>
  The reader of a quoted token: a quote ends the token unless it is doubled.
\<close>

fun read_quoted :: "char \<Rightarrow> string \<Rightarrow> (string \<times> string) option" where
  "read_quoted q [] = None"
| "read_quoted q (c # s) =
     (if c = q
      then (case s of
              c' # s' \<Rightarrow> if c' = q then map_option (apfst (Cons q)) (read_quoted q s') else Some ([], s)
            | [] \<Rightarrow> Some ([], []))
      else map_option (apfst (Cons c)) (read_quoted q s))"

lemma read_double_char:
  "rest = [] \<or> hd rest \<noteq> q \<Longrightarrow> read_quoted q (double_char q v @ q # rest) = Some (v, rest)"
proof (induction v)
  case Nil
  then show ?case by (cases rest) (simp_all add: double_char_def)
next
  case (Cons c v)
  then show ?case by (simp add: double_char_def)
qed

text \<open>
  C40. Escaping cannot be broken out of: a value placed between quotes after escaping is read back as
  exactly that value, and the text after the closing quote is left as it was, whatever characters the
  value contains. The text after the closing quote must not itself begin with a quote.
\<close>

theorem escaped_text_stays_quoted:
  assumes "rest = [] \<or> hd rest \<notin> {CHR 0x22, CHR 0x27}"
  shows "read_quoted (CHR 0x27) (escape_literal v @ CHR 0x27 # rest) = Some (v, rest) \<and>
    read_quoted (CHR 0x22) (escape_identifier v @ CHR 0x22 # rest) = Some (v, rest)"
  using assms by (auto simp: escape_literal_def escape_identifier_def intro: read_double_char)

theorem escaped_text_stays_quoted_witness:
  "read_quoted (CHR 0x27) (escape_literal (''x'' @ [CHR 0x27] @ ''; DROP TABLE t'') @ CHR 0x27 # '' LIMIT 1'') =
     Some (''x'' @ [CHR 0x27] @ ''; DROP TABLE t'', '' LIMIT 1'')"
  using escaped_text_stays_quoted [of "'' LIMIT 1''" "''x'' @ [CHR 0x27] @ ''; DROP TABLE t''"] by simp

text \<open>
  What the validation does not look at: the statement under an EXPLAIN, the rows of a VALUES body, the name
  of a table function, and the skipped fields. Each lets a denied function or a write through.
\<close>

definition denied_call :: expr where
  "denied_call = FunctionCall (Function [''dblink''] NoArgs NoArgs None [])"

lemma explain_not_inspected: "validate_read_only_for (\<lambda>_ _. Ok [Explain (Delete [])]) sql db = Ok ()"
  by (simp add: validate_read_only_for_def check_statement_def)

lemma values_not_inspected:
  "validate_read_only_for (\<lambda>_ _. Ok [QueryStmt (Query None [] (Values [[denied_call]]) None None [] None None [])]) sql db = Ok ()"
  by (simp add: validate_read_only_for_def check_statement_def locks_check_def and_check_def)

lemma table_function_name_not_inspected:
  "validate_read_only_for (\<lambda>_ _. Ok [QueryStmt (Query None [] (SelectBody (Select False
     [TableWithJoins (FunctionTable [''dblink''] []) []] None None [] (Expressions []) [] [] [] None None [] None [denied_call]))
     None None [] None None [])]) sql db = Ok ()"
  by (simp add: validate_read_only_for_def check_statement_def locks_check_def and_check_def)

lemma foldl_fmupd_lookup:
  "fmlookup (foldl (\<lambda>m (k, v). fmupd k v m) m ps) = fmlookup m ++ map_of (rev ps)"
  by (induction ps arbitrary: m) (auto simp: map_add_def fun_eq_iff split: option.splits)

lemma db_row_fidelity:
  assumes "distinct cols" "length cols = length vs" "i < length cols"
  shows "row_columns (db_row_new cols vs) = cols" "db_row_get (db_row_new cols vs) (cols ! i) = Some (vs ! i)"
proof -
  have "map_of (rev (zip cols vs)) (cols ! i) = Some (vs ! i)"
    using assms by (auto simp: rev_map [symmetric] in_set_zip intro!: map_of_is_SomeI)
  then show "db_row_get (db_row_new cols vs) (cols ! i) = Some (vs ! i)"
    by (simp add: db_row_get_def db_row_new_def foldl_fmupd_lookup)
qed (simp add: db_row_new_def)

end
