(* ===== verification/Writable_Db.thy ===== *)
theory Writable_Db
  imports Json Target_Db
begin

text \<open>
  Writable database access, \<open>crates/agent-fw-algebra/src/writable_db.rs\<close>: the validated statement,
  table-name and batch types, and the default methods of the trait. The SQL parser, the printing of
  JSON values, and the parsing of numbers from strings are parameters; a number is an abstract value
  with its finiteness.
\<close>

section \<open>Statements\<close>

datatype WriteDbError =
    Ddl string
  | Dml string
  | Transaction string
  | WriteConnection string
  | WriteTimeout duration
  | InvalidSql string

datatype DdlKind = DdlCreateTable | DdlCreateIndex | DdlCreateView | DdlAlterTable | DdlAlterIndex

record DdlStatement =
  ddl_sql :: string
  ddl_kind :: DdlKind
  ddl_table_name :: string
  ddl_columns :: "string list"

definition single_statement :: "string \<Rightarrow> sql_parser \<Rightarrow> string \<Rightarrow> DatabaseType \<Rightarrow> (WriteDbError, statement) result" where
  "single_statement what parse_sql sql database_type =
     (case parse_sql database_type sql of
        Err e \<Rightarrow> Err (InvalidSql (''SQL parse error: '' @ e))
      | Ok statements \<Rightarrow>
          (case statements of
             [] \<Rightarrow> Err (InvalidSql ''Empty SQL statement'')
           | [st] \<Rightarrow> Ok st
           | _ # _ # _ \<Rightarrow> Err (InvalidSql (''Multiple statements not allowed in '' @ what))))"

definition ddl_parse_for :: "sql_parser \<Rightarrow> string \<Rightarrow> DatabaseType \<Rightarrow> (WriteDbError, DdlStatement) result" where
  "ddl_parse_for parse_sql sql database_type =
     (case single_statement ''DDL'' parse_sql sql database_type of
        Err e \<Rightarrow> Err e
      | Ok st \<Rightarrow>
          (case st of
             CreateTable name columns \<Rightarrow>
               Ok \<lparr>ddl_sql = sql, ddl_kind = DdlCreateTable, ddl_table_name = name, ddl_columns = columns\<rparr>
           | CreateView name \<Rightarrow>
               Ok \<lparr>ddl_sql = sql, ddl_kind = DdlCreateView, ddl_table_name = name, ddl_columns = []\<rparr>
           | CreateIndex table \<Rightarrow>
               Ok \<lparr>ddl_sql = sql, ddl_kind = DdlCreateIndex, ddl_table_name = table, ddl_columns = []\<rparr>
           | AlterTable name \<Rightarrow>
               Ok \<lparr>ddl_sql = sql, ddl_kind = DdlAlterTable, ddl_table_name = name, ddl_columns = []\<rparr>
           | AlterIndex name \<Rightarrow>
               Ok \<lparr>ddl_sql = sql, ddl_kind = DdlAlterIndex, ddl_table_name = name, ddl_columns = []\<rparr>
           | other \<Rightarrow> Err (InvalidSql (''Expected DDL (CREATE/ALTER), got: '' @ statement_kind other))))"

datatype DmlKind = DmlInsert | DmlUpdate | DmlDelete

record DmlStatement =
  dml_sql :: string
  dml_kind :: DmlKind
  dml_table_name :: "string option"

definition relation_name :: "table_with_joins \<Rightarrow> string option" where
  "relation_name t = (case t of TableWithJoins relation joins \<Rightarrow>
     (case relation of Table name _ _ _ \<Rightarrow> Some name | _ \<Rightarrow> None))"

definition extract_delete_table :: "table_with_joins list \<Rightarrow> string option" where
  "extract_delete_table tables = (case tables of [] \<Rightarrow> None | first # _ \<Rightarrow> relation_name first)"

definition dml_parse_for :: "sql_parser \<Rightarrow> string \<Rightarrow> DatabaseType \<Rightarrow> (WriteDbError, DmlStatement) result" where
  "dml_parse_for parse_sql sql database_type =
     (case single_statement ''DML'' parse_sql sql database_type of
        Err e \<Rightarrow> Err e
      | Ok st \<Rightarrow>
          (case st of
             Insert table \<Rightarrow> Ok \<lparr>dml_sql = sql, dml_kind = DmlInsert, dml_table_name = Some table\<rparr>
           | Update table \<Rightarrow> Ok \<lparr>dml_sql = sql, dml_kind = DmlUpdate, dml_table_name = relation_name table\<rparr>
           | Delete from \<Rightarrow> Ok \<lparr>dml_sql = sql, dml_kind = DmlDelete, dml_table_name = extract_delete_table from\<rparr>
           | other \<Rightarrow> Err (InvalidSql (''Expected DML (INSERT/UPDATE/DELETE), got: '' @ statement_kind other))))"

section \<open>Table names\<close>

text \<open>
  \<open>char::is_alphanumeric\<close> on the Latin-1 range of \<^typ>\<open>char\<close>: letters and numeric characters, which
  include superscripts and fractions.
\<close>

definition is_alphanumeric :: "char \<Rightarrow> bool" where
  "is_alphanumeric c =
     (let n = (of_char c :: nat)
      in (48 \<le> n \<and> n \<le> 57) \<or> (65 \<le> n \<and> n \<le> 90) \<or> (97 \<le> n \<and> n \<le> 122) \<or>
         n \<in> {170, 178, 179, 181, 185, 186, 188, 189, 190} \<or> (192 \<le> n \<and> n \<noteq> 215 \<and> n \<noteq> 247))"

definition identifier_char :: "char \<Rightarrow> bool" where
  "identifier_char c \<longleftrightarrow> is_alphanumeric c \<or> c = CHR ''_''"

datatype TableName = TableName (table_name_str: string)

definition table_name_parse :: "string \<Rightarrow> (WriteDbError, TableName) result" where
  "table_name_parse name =
     (if name = [] then Err (InvalidSql ''Table name must not be empty'')
      else if \<not> list_all (\<lambda>c. identifier_char c \<or> c = CHR ''.'') name
      then Err (InvalidSql (''Table name contains invalid characters (only alphanumeric, underscore, dot allowed): '' @ name))
      else if prefix ''.'' name \<or> suffix ''.'' name \<or> sublist ''..'' name
      then Err (InvalidSql (''Table name has invalid dot placement: '' @ name))
      else Ok (TableName name))"

section \<open>Insert batches\<close>

record 'n InsertBatch =
  ib_table :: string
  ib_columns :: "string list"
  ib_rows :: "'n json list list"
  ib_returning_column :: "string option"

definition column_check :: "string \<Rightarrow> (WriteDbError, unit) result" where
  "column_check col =
     (if col = [] then Err (InvalidSql ''Column name must not be empty'')
      else if \<not> list_all identifier_char col
      then Err (InvalidSql (''Column name contains invalid characters (only alphanumeric + underscore allowed): '' @ col))
      else Ok ())"

fun columns_check :: "string list \<Rightarrow> (WriteDbError, unit) result" where
  "columns_check [] = Ok ()"
| "columns_check (c # cs) = (case column_check c of Err e \<Rightarrow> Err e | Ok _ \<Rightarrow> columns_check cs)"

text \<open>The printed error of a database write, given by the \<open>thiserror\<close> attributes; durations print by
  \<open>show_duration\<close>.\<close>

fun display_WriteDbError :: "(duration \<Rightarrow> string) \<Rightarrow> WriteDbError \<Rightarrow> string" where
  "display_WriteDbError sd (Ddl e) = ''DDL execution failed: '' @ e"
| "display_WriteDbError sd (Dml e) = ''DML execution failed: '' @ e"
| "display_WriteDbError sd (Transaction e) = ''Transaction failed: '' @ e"
| "display_WriteDbError sd (WriteConnection e) = ''Connection error: '' @ e"
| "display_WriteDbError sd (WriteTimeout d) = ''Write operation timed out after '' @ sd d"
| "display_WriteDbError sd (InvalidSql e) = ''Invalid SQL: '' @ e"

text \<open>\<open>show_row i n\<close> prints the message of a row \<open>i\<close> with \<open>n\<close> values.\<close>

fun rows_check :: "(nat \<Rightarrow> nat \<Rightarrow> string) \<Rightarrow> nat \<Rightarrow> nat \<Rightarrow> 'n json list list \<Rightarrow> (WriteDbError, unit) result" where
  "rows_check show_row width i [] = Ok ()"
| "rows_check show_row width i (row # rows) =
     (if length row \<noteq> width then Err (InvalidSql (show_row i (length row)))
      else rows_check show_row width (Suc i) rows)"

definition insert_batch_new ::
  "(duration \<Rightarrow> string) \<Rightarrow> (nat \<Rightarrow> nat \<Rightarrow> string) \<Rightarrow> string \<Rightarrow> string list \<Rightarrow> 'n json list list \<Rightarrow>
   (WriteDbError, 'n InsertBatch) result" where
  "insert_batch_new sd show_row table columns rows =
     (case table_name_parse table of
        Err e \<Rightarrow> Err (InvalidSql (''InsertBatch table: '' @ display_WriteDbError sd e))
      | Ok _ \<Rightarrow>
          if columns = [] then Err (InvalidSql ''At least one column required'')
          else (case columns_check columns of
                  Err e \<Rightarrow> Err e
                | Ok _ \<Rightarrow>
                    if rows = [] then Err (InvalidSql ''At least one row required'')
                    else (case rows_check show_row (length columns) 0 rows of
                            Err e \<Rightarrow> Err e
                          | Ok _ \<Rightarrow> Ok \<lparr>ib_table = table, ib_columns = columns, ib_rows = rows,
                                      ib_returning_column = None\<rparr>)))"

datatype CoercionPolicy = Strict | Coerce bool

datatype CoercionKind = StringToNull | NonFiniteToNull

record CoercionEvent =
  ce_row :: nat
  ce_column :: nat
  ce_column_name :: string
  ce_original_value :: string
  ce_kind :: CoercionKind

record 'n InsertBatchResult =
  ibr_batch :: "'n InsertBatch"
  ibr_coercions :: "CoercionEvent list"

text \<open>What the construction uses of numbers and of printing.\<close>

record 'n value_ops =
  is_finite :: "'n \<Rightarrow> bool option"
  parses_f64 :: "string \<Rightarrow> bool"
  parses_i64 :: "string \<Rightarrow> bool"
  value_str :: "'n json \<Rightarrow> string"
  nat_str :: "nat \<Rightarrow> string"

fun coercion :: "'n value_ops \<Rightarrow> 'n json \<Rightarrow> CoercionKind option" where
  "coercion V (JNumber n) =
     (case is_finite V n of Some fin \<Rightarrow> (if \<not> fin then Some NonFiniteToNull else None) | None \<Rightarrow> None)"
| "coercion V (JString s) = (if \<not> parses_f64 V s \<and> \<not> parses_i64 V s then Some StringToNull else None)"
| "coercion V _ = None"

definition column_name_at :: "'n value_ops \<Rightarrow> string list \<Rightarrow> nat \<Rightarrow> string" where
  "column_name_at V columns i = (if i < length columns then columns ! i else ''col_'' @ nat_str V i)"

fun coerce_row ::
  "'n value_ops \<Rightarrow> bool \<Rightarrow> string list \<Rightarrow> nat \<Rightarrow> nat \<Rightarrow> 'n json list \<Rightarrow> CoercionEvent list \<Rightarrow>
   'n json list \<times> CoercionEvent list" where
  "coerce_row V log columns r c [] evs = ([], evs)"
| "coerce_row V log columns r c (v # vs) evs =
     (case coercion V v of
        None \<Rightarrow> (let (row, evs) = coerce_row V log columns r (Suc c) vs evs in (v # row, evs))
      | Some kind \<Rightarrow>
          (let evs = (if log
             then evs @ [\<lparr>ce_row = r, ce_column = c, ce_column_name = column_name_at V columns c,
                          ce_original_value = value_str V v, ce_kind = kind\<rparr>] else evs);
               (row, evs) = coerce_row V log columns r (Suc c) vs evs
           in (JNull # row, evs)))"

fun coerce_rows ::
  "'n value_ops \<Rightarrow> bool \<Rightarrow> string list \<Rightarrow> nat \<Rightarrow> 'n json list list \<Rightarrow> CoercionEvent list \<Rightarrow>
   'n json list list \<times> CoercionEvent list" where
  "coerce_rows V log columns r [] evs = ([], evs)"
| "coerce_rows V log columns r (row # rows) evs =
     (let (row, evs) = coerce_row V log columns r 0 row evs;
          (rows, evs) = coerce_rows V log columns (Suc r) rows evs
      in (row # rows, evs))"

definition new_with_policy ::
  "'n value_ops \<Rightarrow> (duration \<Rightarrow> string) \<Rightarrow> (nat \<Rightarrow> nat \<Rightarrow> string) \<Rightarrow> string \<Rightarrow> string list \<Rightarrow> 'n json list list \<Rightarrow>
   CoercionPolicy \<Rightarrow> (WriteDbError, 'n InsertBatchResult) result" where
  "new_with_policy V sd show_row table columns rows policy =
     (let (rows, coercions) =
            (case policy of Strict \<Rightarrow> (rows, []) | Coerce log \<Rightarrow> coerce_rows V log columns 0 rows [])
      in case insert_batch_new sd show_row table columns rows of
           Err e \<Rightarrow> Err e
         | Ok batch \<Rightarrow> Ok \<lparr>ibr_batch = batch, ibr_coercions = coercions\<rparr>)"

definition with_returning_column :: "string \<Rightarrow> 'n InsertBatch \<Rightarrow> (WriteDbError, 'n InsertBatch) result" where
  "with_returning_column column b =
     (if column = [] then Err (InvalidSql ''Returning column name must not be empty'')
      else if \<not> list_all identifier_char column
      then Err (InvalidSql (''Returning column contains invalid characters: '' @ column))
      else Ok (b\<lparr>ib_returning_column := Some column\<rparr>))"

definition returning_column :: "'n InsertBatch \<Rightarrow> string" where
  "returning_column b = unwrap_or ''id'' (ib_returning_column b)"

section \<open>The writable trait\<close>

record ('s, 'n) WritableDatabase =
  db_execute_ddl :: "DdlStatement \<Rightarrow> 's \<Rightarrow> (WriteDbError, unit) result \<times> 's"
  db_insert_batch :: "'n InsertBatch \<Rightarrow> 's \<Rightarrow> (WriteDbError, u64) result \<times> 's"
  db_drop_table_if_exists :: "TableName \<Rightarrow> 's \<Rightarrow> (WriteDbError, unit) result \<times> 's"

text \<open>The default methods. \<open>1..=count as i64\<close> is empty when the count does not fit \<open>i64\<close>.\<close>

definition insert_batch_returning ::
  "('s, 'n) WritableDatabase \<Rightarrow> 'n InsertBatch \<Rightarrow> 's \<Rightarrow> (WriteDbError, int list) result \<times> 's" where
  "insert_batch_returning db batch s =
     (case db_insert_batch db batch s of
        (Err e, s) \<Rightarrow> (Err e, s)
      | (Ok count, s) \<Rightarrow> (Ok [1..sint count], s))"

text \<open>the running total is a \<open>u64\<close>; the addition wraps as in a release build.\<close>

fun insert_batches_atomically ::
  "('s, 'n) WritableDatabase \<Rightarrow> u64 \<Rightarrow> 'n InsertBatch list \<Rightarrow> 's \<Rightarrow> (WriteDbError, u64) result \<times> 's" where
  "insert_batches_atomically db inserted [] s = (Ok inserted, s)"
| "insert_batches_atomically db inserted (batch # batches) s =
     (case db_insert_batch db batch s of
        (Err e, s) \<Rightarrow> (Err e, s)
      | (Ok n, s) \<Rightarrow> insert_batches_atomically db (inserted + n) batches s)"

definition recreate_table ::
  "('s, 'n) WritableDatabase \<Rightarrow> TableName \<Rightarrow> DdlStatement \<Rightarrow> 's \<Rightarrow> (WriteDbError, unit) result \<times> 's" where
  "recreate_table db table create_ddl s =
     (case db_drop_table_if_exists db table s of
        (Err e, s) \<Rightarrow> (Err e, s)
      | (Ok _, s) \<Rightarrow> db_execute_ddl db create_ddl s)"

section \<open>Properties\<close>

lemma columns_check_Ok: "columns_check cs = Ok () \<longleftrightarrow> (\<forall>c \<in> set cs. c \<noteq> [] \<and> list_all identifier_char c)"
  by (induction cs) (auto simp: column_check_def split: if_splits)

lemma rows_check_Ok: "rows_check sr w i rows = Ok () \<longleftrightarrow> (\<forall>row \<in> set rows. length row = w)"
  by (induction rows arbitrary: i) auto

definition insertable :: "string \<Rightarrow> string list \<Rightarrow> 'n json list list \<Rightarrow> bool" where
  "insertable table columns rows \<longleftrightarrow>
     is_ok (table_name_parse table) \<and> columns \<noteq> [] \<and> list_all (\<lambda>c. c \<noteq> [] \<and> list_all identifier_char c) columns \<and>
     rows \<noteq> [] \<and> list_all (\<lambda>row. length row = length columns) rows"

lemma insert_batch_new_eq:
  "insert_batch_new sd sr table columns rows = Ok b \<longleftrightarrow>
     insertable table columns rows \<and>
     b = \<lparr>ib_table = table, ib_columns = columns, ib_rows = rows, ib_returning_column = None\<rparr>"
  using columns_check_Ok [of columns] rows_check_Ok [of sr "length columns" 0 rows]
  by (auto simp: insert_batch_new_def insertable_def list_all_iff split: sum.splits)

definition nulled :: "'n value_ops \<Rightarrow> 'n json \<Rightarrow> 'n json" where
  "nulled V v = (if coercion V v = None then v else JNull)"

definition cell_event :: "'n value_ops \<Rightarrow> string list \<Rightarrow> nat \<Rightarrow> nat \<times> 'n json \<Rightarrow> CoercionEvent option" where
  "cell_event V columns r x =
     map_option (\<lambda>kind. \<lparr>ce_row = r, ce_column = fst x, ce_column_name = column_name_at V columns (fst x),
        ce_original_value = value_str V (snd x), ce_kind = kind\<rparr>) (coercion V (snd x))"

lemma coerce_row_eq:
  "coerce_row V log cols r c vs evs =
     (map (nulled V) vs, evs @ (if log then List.map_filter (cell_event V cols r) (enumerate c vs) else []))"
  by (induction vs arbitrary: c evs)
    (auto simp: nulled_def cell_event_def map_filter_simps split: option.splits)

lemma coerce_rows_eq:
  "coerce_rows V log cols r rows evs =
     (map (map (nulled V)) rows,
      evs @ (if log then concat (map (\<lambda>(i, row). List.map_filter (cell_event V cols i) (enumerate 0 row)) (enumerate r rows))
             else []))"
  by (induction rows arbitrary: r evs) (auto simp: coerce_row_eq)

text \<open>
  Batches are validated exactly: a batch is built iff the table name is valid, there are columns,
  all of them identifiers, there are rows, and every row has a value for each column. Under the coercing
  policy exactly the non-finite numbers and non-numeric strings are replaced by null, the other values
  are kept, and the log, when asked for, lists exactly the replaced cells in row-major order with their
  original value.
\<close>

theorem insert_batch_policy_exact:
  "case new_with_policy V sd sr table columns rows policy of
     Err e \<Rightarrow> \<not> insertable table columns rows
   | Ok res \<Rightarrow> insertable table columns rows \<and>
       ibr_batch res = \<lparr>ib_table = table, ib_columns = columns,
         ib_rows = (case policy of Strict \<Rightarrow> rows | Coerce _ \<Rightarrow> map (map (nulled V)) rows),
         ib_returning_column = None\<rparr> \<and>
       ibr_coercions res =
         (if policy = Coerce True
          then concat (map (\<lambda>(i, row). List.map_filter (cell_event V columns i) (enumerate 0 row)) (enumerate 0 rows))
          else [])"
proof -
  have shape: "insertable table columns (map (map f) rows) \<longleftrightarrow> insertable table columns rows" for f
    by (simp add: insertable_def list_all_iff)
  show ?thesis
  proof (cases policy)
    case Strict
    then show ?thesis using insert_batch_new_eq [of sd sr table columns rows]
      by (cases "insert_batch_new sd sr table columns rows") (auto simp: new_with_policy_def)
  next
    case (Coerce log)
    then show ?thesis
      using insert_batch_new_eq [of sd sr table columns "map (map (nulled V)) rows"]
      by (cases "insert_batch_new sd sr table columns (map (map (nulled V)) rows)")
        (auto simp: new_with_policy_def coerce_rows_eq shape)
  qed
qed

text \<open>Identifiers separated by single dots.\<close>

definition segment :: "string \<Rightarrow> bool" where
  "segment s \<longleftrightarrow> s \<noteq> [] \<and> list_all identifier_char s"

inductive dotted :: "string \<Rightarrow> bool" where
  one: "segment s \<Longrightarrow> dotted s"
| more: "segment s \<Longrightarrow> dotted t \<Longrightarrow> dotted (s @ CHR ''.'' # t)"

definition dots_placed :: "string \<Rightarrow> bool" where
  "dots_placed name \<longleftrightarrow> name \<noteq> [] \<and> list_all (\<lambda>c. identifier_char c \<or> c = CHR ''.'') name \<and>
     \<not> prefix ''.'' name \<and> \<not> suffix ''.'' name \<and> \<not> sublist ''..'' name"

lemma dot_not_identifier [simp]: "\<not> identifier_char (CHR ''.'')"
  by (simp add: identifier_char_def is_alphanumeric_def)

lemma segment_no_dot: "segment s \<Longrightarrow> CHR ''.'' \<notin> set s"
  by (auto simp: segment_def list_all_iff)

lemma segment_dots_placed: "segment s \<Longrightarrow> dots_placed s"
  using segment_no_dot [of s]
  by (auto simp: segment_def dots_placed_def list_all_iff dest: set_mono_prefix set_mono_suffix set_mono_sublist)

lemma dotted_dots_placed: "dotted name \<Longrightarrow> dots_placed name"
proof (induction rule: dotted.induct)
  case (more s t)
  note s = segment_dots_placed [OF more(1)] segment_no_dot [OF more(1)]
  have "\<not> sublist ''..'' (s @ CHR ''.'' # t)"
  proof
    assume "sublist ''..'' (s @ CHR ''.'' # t)"
    then obtain a b where ab: "s @ CHR ''.'' # t = a @ ''..'' @ b" by (auto simp: sublist_def)
    show False
    proof (cases "length a < length s")
      case True
      then have "(s @ CHR ''.'' # t) ! length a \<in> set s" by (simp add: nth_append)
      with ab s(2) show False by (simp add: nth_append)
    next
      case False
      then have "CHR ''.'' # t = drop (length s) a @ ''..'' @ b"
        using ab by (simp add: append_eq_append_conv_if split: if_splits)
      then show False
        using more.IH by (cases "drop (length s) a") (auto simp: dots_placed_def sublist_def prefix_def)
    qed
  qed
  with s more.IH show ?case
    by (cases s) (auto simp: dots_placed_def suffix_def append_eq_Cons_conv Cons_eq_append_conv append_eq_append_conv2)
qed (rule segment_dots_placed)

lemma dots_placed_dotted: "dots_placed name \<Longrightarrow> dotted name"
proof (induction "length name" arbitrary: name rule: less_induct)
  case less
  let ?s = "takeWhile (\<lambda>c. c \<noteq> CHR ''.'') name" and ?r = "dropWhile (\<lambda>c. c \<noteq> CHR ''.'') name"
  have "?s \<noteq> []" using less.prems by (cases name) (auto simp: dots_placed_def)
  then have seg: "segment ?s"
    using less.prems by (auto simp: segment_def dots_placed_def list_all_iff dest: set_takeWhileD)
  show ?case
  proof (cases ?r)
    case Nil
    then have "name = ?s" by (metis append_Nil2 takeWhile_dropWhile_id)
    with seg show ?thesis by (metis dotted.one)
  next
    case (Cons c t)
    then have c: "c = CHR ''.''" using hd_dropWhile [of "\<lambda>c. c \<noteq> CHR ''.''" name] by simp
    then have name: "name = ?s @ CHR ''.'' # t" using Cons by (metis takeWhile_dropWhile_id)
    have "dots_placed t"
    proof -
      have "suffix t name" by (subst name) (simp add: suffix_def)
      then have "sublist t name" by blast
      then have "\<not> sublist ''..'' t" using less.prems sublist_order.order_trans by (auto simp: dots_placed_def)
      moreover have "t \<noteq> []" using less.prems name by (auto simp: dots_placed_def suffix_def)
      moreover have "\<not> suffix ''.'' t" using less.prems \<open>suffix t name\<close> suffix_order.order_trans by (auto simp: dots_placed_def)
      moreover have "\<not> prefix ''.'' t"
      proof
        assume "prefix ''.'' t"
        then obtain u where "name = ?s @ ''..'' @ u" using name by (auto simp: prefix_def)
        then have "sublist ''..'' name" unfolding sublist_def by blast
        with less.prems show False by (simp add: dots_placed_def)
      qed
      moreover have "list_all (\<lambda>c. identifier_char c \<or> c = CHR ''.'') t"
        using less.prems by (subst (asm) name) (simp add: dots_placed_def)
      ultimately show ?thesis by (simp add: dots_placed_def)
    qed
    moreover have "length t < length name" by (subst name) simp
    ultimately have "dotted t" using less.hyps by blast
    with seg have "dotted (?s @ CHR ''.'' # t)" by (rule dotted.more)
    with name show ?thesis by simp
  qed
qed

text \<open>
  Table names are exactly the dotted identifiers: the parser accepts a name iff it is a sequence of
  non-empty identifiers separated by single dots, and keeps it unchanged; so no accepted name contains
  a quote, a blank, a semicolon, a parenthesis or a dash.
\<close>

theorem table_name_exact:
  "(table_name_parse name = Ok t \<longleftrightarrow> t = TableName name \<and> dotted name) \<and>
   \<not> (is_ok (table_name_parse name) \<and> c \<in> set name \<and>
      c \<in> {CHR 0x22, CHR 0x27, CHR 0x20, CHR 0x3B, CHR 0x28, CHR 0x29, CHR 0x2D})"
proof -
  have "table_name_parse name = Ok t \<longleftrightarrow> t = TableName name \<and> dots_placed name"
    "is_ok (table_name_parse name) \<longleftrightarrow> dots_placed name"
    by (auto simp: table_name_parse_def dots_placed_def)
  moreover have "dotted name \<longleftrightarrow> dots_placed name"
    using dotted_dots_placed dots_placed_dotted by blast
  moreover have "\<not> identifier_char c \<and> c \<noteq> CHR ''.''"
    if "c \<in> {CHR 0x22, CHR 0x27, CHR 0x20, CHR 0x3B, CHR 0x28, CHR 0x29, CHR 0x2D}"
    using that by (auto simp: identifier_char_def is_alphanumeric_def)
  ultimately show ?thesis unfolding dots_placed_def list_all_iff by blast
qed

text \<open>The allowed letters are not only the ASCII ones: a name with an accented letter is accepted.\<close>

lemma table_name_accepts_latin1: "table_name_parse [CHR 0xE9] = Ok (TableName [CHR 0xE9])"
  by (auto simp: table_name_parse_def identifier_char_def is_alphanumeric_def sublist_def suffix_def Cons_eq_append_conv)

end
