(* ===== verification/Tool_Layer.thy ===== *)
theory Tool_Layer
  imports Json Plan_Executor
begin

text \<open>
  Tools and the layers around them: the approval rules and policy of
  \<open>crates/agent-fw-agent/src/approval.rs\<close>, the handler interface and tracing of \<open>tool_handler.rs\<close>, the
  results of \<open>tool_dispatch.rs\<close>, the layers of \<open>layer.rs\<close>, and the manifests and errors of
  \<open>crates/agent-fw-tool/src/manifest.rs\<close> and \<open>error.rs\<close>.

  A handler is a record of its methods; it may change the whole world. What the host does while the
  approval layer waits is an arbitrary function (\<open>rt_wait\<close>), as for the plan gate, and so is the source
  of fresh identifiers.
\<close>

section \<open>Approval rules and policy\<close>

record 'n ApprovalContext =
  ctx_kind :: ApprovalKind
  ctx_target :: string
  ctx_input :: "'n json"
  ctx_tenant :: TenantId

datatype 'n ApprovalRule = Never | Always | Dynamic "'n ApprovalContext \<Rightarrow> bool"

fun is_required :: "'n ApprovalRule \<Rightarrow> 'n ApprovalContext \<Rightarrow> bool" where
  "is_required Never ctx = False"
| "is_required Always ctx = True"
| "is_required (Dynamic p) ctx = p ctx"

record 'n ApprovalPolicy =
  default_tool_rule :: "'n ApprovalRule"
  default_plan_rule :: "'n ApprovalRule"
  policy_tools :: "(string, 'n ApprovalRule) fmap"
  policy_plans :: "(string, 'n ApprovalRule) fmap"

definition policy_new :: "'n ApprovalPolicy" where
  "policy_new = \<lparr>default_tool_rule = Never, default_plan_rule = Never, policy_tools = fmempty, policy_plans = fmempty\<rparr>"

definition with_default_tool_rule :: "'n ApprovalRule \<Rightarrow> 'n ApprovalPolicy \<Rightarrow> 'n ApprovalPolicy" where
  "with_default_tool_rule rule pol = pol\<lparr>default_tool_rule := rule\<rparr>"

definition with_default_plan_rule :: "'n ApprovalRule \<Rightarrow> 'n ApprovalPolicy \<Rightarrow> 'n ApprovalPolicy" where
  "with_default_plan_rule rule pol = pol\<lparr>default_plan_rule := rule\<rparr>"

definition with_tool :: "string \<Rightarrow> 'n ApprovalRule \<Rightarrow> 'n ApprovalPolicy \<Rightarrow> 'n ApprovalPolicy" where
  "with_tool name rule pol = pol\<lparr>policy_tools := fmupd name rule (policy_tools pol)\<rparr>"

definition with_plan :: "string \<Rightarrow> 'n ApprovalRule \<Rightarrow> 'n ApprovalPolicy \<Rightarrow> 'n ApprovalPolicy" where
  "with_plan name rule pol = pol\<lparr>policy_plans := fmupd name rule (policy_plans pol)\<rparr>"

definition resolve_tool :: "'n ApprovalPolicy \<Rightarrow> string \<Rightarrow> 'n ApprovalRule" where
  "resolve_tool pol name = unwrap_or (default_tool_rule pol) (fmlookup (policy_tools pol) name)"

definition resolve_plan :: "'n ApprovalPolicy \<Rightarrow> string \<Rightarrow> 'n ApprovalRule" where
  "resolve_plan pol kind = unwrap_or (default_plan_rule pol) (fmlookup (policy_plans pol) kind)"

section \<open>Definitions, results and errors of tools\<close>

record 'n ToolDefinition =
  td_name :: string
  td_description :: string
  td_input_schema :: "'n json"

record 'n ToolCallResult =
  tcr_tool_use_id :: string
  tcr_content :: "'n json"
  tcr_is_error :: bool
  tcr_approval_dsl :: "string option"
  tcr_display_summary :: "string option"

definition tool_success :: "string \<Rightarrow> 'n json \<Rightarrow> 'n ToolCallResult" where
  "tool_success i content =
     \<lparr>tcr_tool_use_id = i, tcr_content = content, tcr_is_error = False, tcr_approval_dsl = None,
      tcr_display_summary = None\<rparr>"

definition tool_error :: "string \<Rightarrow> string \<Rightarrow> 'n ToolCallResult" where
  "tool_error i message =
     \<lparr>tcr_tool_use_id = i, tcr_content = json_object [(''error'', JString message)], tcr_is_error = True,
      tcr_approval_dsl = None, tcr_display_summary = None\<rparr>"

definition with_approval_dsl :: "string \<Rightarrow> 'n ToolCallResult \<Rightarrow> 'n ToolCallResult" where
  "with_approval_dsl dsl r = r\<lparr>tcr_approval_dsl := Some dsl\<rparr>"

definition with_display_summary :: "string \<Rightarrow> 'n ToolCallResult \<Rightarrow> 'n ToolCallResult" where
  "with_display_summary summary r = r\<lparr>tcr_display_summary := Some summary\<rparr>"

datatype ErrorKind =
    KindDomain | KindInvalidInput | KindNotFound | KindStorage | KindSerialization | KindCancelled
  | KindMissingDependency | KindDatabase

record ToolError =
  te_message :: string
  te_kind :: ErrorKind
  te_hints :: "string list"

definition tool_error_msg :: "string \<Rightarrow> ToolError" where
  "tool_error_msg m = \<lparr>te_message = m, te_kind = KindDomain, te_hints = []\<rparr>"

definition tool_error_cancelled :: ToolError where
  "tool_error_cancelled = \<lparr>te_message = ''Operation cancelled'', te_kind = KindCancelled, te_hints = []\<rparr>"

definition tool_error_invalid_input :: "string \<Rightarrow> ToolError" where
  "tool_error_invalid_input m = \<lparr>te_message = ''Invalid input: '' @ m, te_kind = KindInvalidInput, te_hints = []\<rparr>"

definition with_hint :: "string \<Rightarrow> ToolError \<Rightarrow> ToolError" where
  "with_hint h e = e\<lparr>te_hints := te_hints e @ [h]\<rparr>"

definition display_ToolError :: "ToolError \<Rightarrow> string" where
  "display_ToolError e =
     te_message e @
     (if te_hints e = [] then []
      else [CHR 0x0A, CHR 0x0A] @ ''Suggestions:'' @ concat (map (\<lambda>h. [CHR 0x0A] @ ''  - '' @ h) (te_hints e)))"

fun debug_ExpireReason :: "ExpireReason \<Rightarrow> string" where
  "debug_ExpireReason Cancelled = ''Cancelled''"
| "debug_ExpireReason Timeout = ''Timeout''"
| "debug_ExpireReason Restart = ''Restart''"
| "debug_ExpireReason HostShutdown = ''HostShutdown''"

fun display_ApprovalError :: "ApprovalError \<Rightarrow> string" where
  "display_ApprovalError (ApprovalNotFound i) = ''approval not found: '' @ approval_id_str i"
| "display_ApprovalError (AlreadyRegistered i) = ''approval already registered: '' @ approval_id_str i"
| "display_ApprovalError (AlreadyResolved i) = ''approval already resolved: '' @ approval_id_str i"
| "display_ApprovalError (Expired i reason) =
     ''approval expired: id='' @ approval_id_str i @ '' reason='' @ debug_ExpireReason reason"
| "display_ApprovalError SenderDropped = ''approval sender dropped before resolution''"
| "display_ApprovalError (ApprovalStorage m) = ''storage error: '' @ m"

section \<open>Manifests and the environment\<close>

text \<open>A type id is named by a string.\<close>

record ExtensionRequirement =
  er_description :: string
  er_type_id :: string
  er_type_name :: string

record MissingExtension =
  me_tool_name :: string
  me_requirement :: ExtensionRequirement

record ToolExtensionManifest =
  tm_required :: "ExtensionRequirement list"
  tm_optional :: "ExtensionRequirement list"

definition manifest_new :: ToolExtensionManifest where
  "manifest_new = \<lparr>tm_required = [], tm_optional = []\<rparr>"

definition manifest_requires :: "ExtensionRequirement \<Rightarrow> ToolExtensionManifest \<Rightarrow> ToolExtensionManifest" where
  "manifest_requires r m = m\<lparr>tm_required := tm_required m @ [r]\<rparr>"

definition manifest_optional :: "ExtensionRequirement \<Rightarrow> ToolExtensionManifest \<Rightarrow> ToolExtensionManifest" where
  "manifest_optional r m = m\<lparr>tm_optional := tm_optional m @ [r]\<rparr>"

definition manifest_merge :: "ToolExtensionManifest \<Rightarrow> ToolExtensionManifest \<Rightarrow> ToolExtensionManifest" where
  "manifest_merge a b = \<lparr>tm_required = tm_required a @ tm_required b, tm_optional = tm_optional a @ tm_optional b\<rparr>"

record TenantContext =
  tc_resource_id :: TenantId
  tc_thread_id :: "ThreadId option"

text \<open>What the layers use of the environment; the cancellation token is part of the world below.\<close>

record ('k, 'n, 'l) ToolEnvironment =
  env_event_sink :: "('k, 'n json, 'l) EventSink"
  env_tenant :: TenantContext
  env_extensions :: "string fset"
  env_tool_call_id :: "string option"

definition with_sink :: "('k, 'n json, 'l) EventSink \<Rightarrow> ('k, 'n, 'l) ToolEnvironment \<Rightarrow> ('k, 'n, 'l) ToolEnvironment" where
  "with_sink sink env = env\<lparr>env_event_sink := sink\<rparr>"

definition with_tool_call_id :: "string \<Rightarrow> ('k, 'n, 'l) ToolEnvironment \<Rightarrow> ('k, 'n, 'l) ToolEnvironment" where
  "with_tool_call_id i env = env\<lparr>env_tool_call_id := Some i\<rparr>"

definition manifest_validate ::
  "string \<Rightarrow> ('k, 'n, 'l) ToolEnvironment \<Rightarrow> ToolExtensionManifest \<Rightarrow> (MissingExtension list, unit) result" where
  "manifest_validate tool env m =
     (let missing = map (\<lambda>req. \<lparr>me_tool_name = tool, me_requirement = req\<rparr>)
            (filter (\<lambda>req. er_type_id req |\<notin>| env_extensions env) (tm_required m))
      in if missing = [] then Ok () else Err missing)"

section \<open>Handlers and layers\<close>

record ('d, 'k, 'p) tool_world =
  tw_sys :: 'd
  tw_sink :: 'k
  tw_store :: 'p
  tw_cancelled :: bool

record ('d, 'k, 'p, 'n, 'l) ToolHandler =
  th_definition :: "'n ToolDefinition"
  th_handle :: "string \<Rightarrow> 'n json \<Rightarrow> ('k, 'n, 'l) ToolEnvironment \<Rightarrow> ('d, 'k, 'p) tool_world \<Rightarrow>
    'n ToolCallResult \<times> ('d, 'k, 'p) tool_world"
  th_manifest :: ToolExtensionManifest

definition env_emit ::
  "('k, 'n, 'l) ToolEnvironment \<Rightarrow> ('n json, 'l) StreamPart \<Rightarrow> ('d, 'k, 'p) tool_world \<Rightarrow>
   bool \<times> ('d, 'k, 'p) tool_world" where
  "env_emit env part w =
     (let (ok, k) = sink_emit (env_event_sink env) (tw_sink w) part in (ok, w\<lparr>tw_sink := k\<rparr>))"

type_synonym ('d, 'k, 'p, 'n, 'l) ToolLayer =
  "('d, 'k, 'p, 'n, 'l) ToolHandler \<Rightarrow> ('d, 'k, 'p, 'n, 'l) ToolHandler"

definition layer_then ::
  "('d, 'k, 'p, 'n, 'l) ToolLayer \<Rightarrow> ('d, 'k, 'p, 'n, 'l) ToolLayer \<Rightarrow> ('d, 'k, 'p, 'n, 'l) ToolLayer" where
  "layer_then inner outer h = (let wrapped_inner = inner h in outer wrapped_inner)"

definition guarded_layer :: "('d, 'k, 'p, 'n, 'l) ToolLayer" where
  "guarded_layer inner =
     \<lparr>th_definition = th_definition inner,
      th_handle = (\<lambda>i input env w.
        if tw_cancelled w then (tool_error i ''Cancelled'', w) else th_handle inner i input env w),
      th_manifest = manifest_new\<rparr>"

text \<open>The frontend channels of a result, emitted between the call and its result.\<close>

definition emit_channels ::
  "('k, 'n, 'l) ToolEnvironment \<Rightarrow> 'n ToolCallResult \<Rightarrow> ('d, 'k, 'p) tool_world \<Rightarrow> ('d, 'k, 'p) tool_world" where
  "emit_channels env r w =
     (let w1 = (case tcr_approval_dsl r of
                  None \<Rightarrow> w
                | Some dsl \<Rightarrow> snd (env_emit env (DataFlowUI \<lparr>card_dsl = dsl\<rparr>) w))
      in case tcr_display_summary r of
           None \<Rightarrow> w1
         | Some summary \<Rightarrow> snd (env_emit env (Text summary) w1))"

definition traced_layer :: "('d, 'k, 'p, 'n, 'l) ToolLayer" where
  "traced_layer inner =
     \<lparr>th_definition = th_definition inner,
      th_handle = (\<lambda>i input env w.
        let name = td_name (th_definition inner);
            w1 = snd (env_emit env (tool_call_part i name input) w);
            (r, w2) = th_handle inner i input env w1;
            w3 = emit_channels env r w2
        in (r, snd (env_emit env (tool_result_part i name input (tcr_content r)) w3))),
      th_manifest = manifest_new\<rparr>"

text \<open>The runtime: a fresh identifier, and the race between the awaiter and the cancellation.\<close>

record ('d, 'k, 'p, 'n) tool_runtime =
  rt_uuid :: "('d, 'k, 'p) tool_world \<Rightarrow> string \<times> ('d, 'k, 'p) tool_world"
  rt_wait :: "chan \<Rightarrow> ('d, 'k, 'p) tool_world \<Rightarrow> 'n json select_outcome \<times> ('d, 'k, 'p) tool_world"

definition tool_request ::
  "ApprovalId \<Rightarrow> string \<Rightarrow> string \<Rightarrow> 'n json \<Rightarrow> TenantContext \<Rightarrow> 'n json ApprovalRequest" where
  "tool_request approval_id name tool_use_id input tenant =
     \<lparr>req_id = approval_id, req_kind = ToolKind, req_target = name, req_payload = input, req_glimpse = None,
      req_resource_id = tc_resource_id tenant,
      req_thread_id = unwrap_or (ThreadId ''default'') (tc_thread_id tenant),
      req_correlation_id = Some tool_use_id\<rparr>"

definition tool_expire ::
  "('p, 'n json) PendingApprovalStore \<Rightarrow> ApprovalId \<Rightarrow> ExpireReason \<Rightarrow> ('d, 'k, 'p) tool_world \<Rightarrow>
   ('d, 'k, 'p) tool_world" where
  "tool_expire store i reason w = w\<lparr>tw_store := snd (store_expire store (tw_store w) i reason)\<rparr>"

definition rejected_result :: "string \<Rightarrow> 'n json ApprovalDecision \<Rightarrow> 'n ToolCallResult" where
  "rejected_result i d =
     \<lparr>tcr_tool_use_id = i,
      tcr_content = json_object [(''error'', JString ''approval_rejected''), (''rejected'', JBool True),
        (''reason'', JString (unwrap_or ''Approval rejected'' (dec_feedback d))), (''do_not_retry'', JBool True)],
      tcr_is_error = True, tcr_approval_dsl = None, tcr_display_summary = None\<rparr>"

definition approval_handle ::
  "('d, 'k, 'p, 'n) tool_runtime \<Rightarrow> 'n ApprovalPolicy \<Rightarrow> ('p, 'n json) PendingApprovalStore \<Rightarrow>
   ('d, 'k, 'p, 'n, 'l) ToolHandler \<Rightarrow> string \<Rightarrow> 'n json \<Rightarrow> ('k, 'n, 'l) ToolEnvironment \<Rightarrow>
   ('d, 'k, 'p) tool_world \<Rightarrow> 'n ToolCallResult \<times> ('d, 'k, 'p) tool_world" where
  "approval_handle rt policy store inner i input env w =
     (let name = td_name (th_definition inner);
          required = is_required (resolve_tool policy name)
            \<lparr>ctx_kind = ToolKind, ctx_target = name, ctx_input = input, ctx_tenant = tc_resource_id (env_tenant env)\<rparr>
      in if \<not> required then th_handle inner i input env w
         else
           let (uuid, w0) = rt_uuid rt w;
               approval_id = ApprovalId uuid;
               request = tool_request approval_id name i input (env_tenant env)
           in case store_register store (tw_store w0) request of
                (Err e, st) \<Rightarrow>
                  (tool_error i (''Approval registration failed: '' @ display_ApprovalError e), w0\<lparr>tw_store := st\<rparr>)
              | (Ok ch, st) \<Rightarrow>
                  (case env_emit env (ApprovalRequiredPart request) (w0\<lparr>tw_store := st\<rparr>) of
                     (False, w1) \<Rightarrow>
                       (tool_error i ''Approval event sink closed before request was emitted'',
                        tool_expire store approval_id HostShutdown w1)
                   | (True, w1) \<Rightarrow>
                       (case rt_wait rt ch w1 of
                          (CancelFired, w2) \<Rightarrow>
                            (tool_error i ''Cancelled while awaiting approval'', tool_expire store approval_id Cancelled w2)
                        | (Decided (Err e), w2) \<Rightarrow> (tool_error i (''Approval error: '' @ display_ApprovalError e), w2)
                        | (Decided (Ok d), w2) \<Rightarrow>
                            let w3 = snd (env_emit env (ApprovalDecisionPart d) w2)
                            in if is_approve (dec_outcome d) then th_handle inner i input env w3
                               else (rejected_result i d, w3))))"

definition approval_layer ::
  "('d, 'k, 'p, 'n) tool_runtime \<Rightarrow> 'n ApprovalPolicy \<Rightarrow> ('p, 'n json) PendingApprovalStore \<Rightarrow>
   ('d, 'k, 'p, 'n, 'l) ToolLayer" where
  "approval_layer rt policy store inner =
     \<lparr>th_definition = th_definition inner, th_handle = approval_handle rt policy store inner,
      th_manifest = th_manifest inner\<rparr>"

section \<open>Handlers made from functions\<close>

text \<open>The frontend channels are taken out of an object result; \<open>to_str\<close> is \<open>serde_json::to_string\<close>.\<close>

definition split_channels ::
  "('n json \<Rightarrow> string option) \<Rightarrow> 'n json \<Rightarrow> 'n json \<times> string option \<times> string option" where
  "split_channels to_str content =
     (case content of
        JObject m \<Rightarrow>
          (JObject (fmdrop ''_cardEmitted'' (fmdrop ''displaySummary'' (fmdrop ''approvalDsl'' m))),
           (case fmlookup m ''approvalDsl'' of
              None \<Rightarrow> None
            | Some v \<Rightarrow> (case json_str v of Some s \<Rightarrow> Some s | None \<Rightarrow> to_str v)),
           (case fmlookup m ''displaySummary'' of None \<Rightarrow> None | Some v \<Rightarrow> json_str v))
      | _ \<Rightarrow> (content, None, None))"

definition fn_handle ::
  "('n json \<Rightarrow> (string, 'i) result) \<Rightarrow> ('n json \<Rightarrow> string option) \<Rightarrow>
   (('k, 'n, 'l) ToolEnvironment \<Rightarrow> 'i \<Rightarrow> ('d, 'k, 'p) tool_world \<Rightarrow>
     (ToolError, 'n json) result \<times> ('d, 'k, 'p) tool_world) \<Rightarrow>
   string \<Rightarrow> 'n json \<Rightarrow> ('k, 'n, 'l) ToolEnvironment \<Rightarrow> ('d, 'k, 'p) tool_world \<Rightarrow>
   'n ToolCallResult \<times> ('d, 'k, 'p) tool_world" where
  "fn_handle parse to_str f i input env w =
     (case parse input of
        Err e \<Rightarrow> (tool_error i (''Invalid input: '' @ e), w)
      | Ok parsed \<Rightarrow>
          (case f env parsed w of
             (Ok content, w') \<Rightarrow>
               (case split_channels to_str content of
                  (content', dsl, summary) \<Rightarrow>
                    ((tool_success i content')\<lparr>tcr_approval_dsl := dsl, tcr_display_summary := summary\<rparr>, w'))
           | (Err e, w') \<Rightarrow> (tool_error i (display_ToolError e), w')))"

definition fn_handler ::
  "'n ToolDefinition \<Rightarrow> ('n json \<Rightarrow> (string, 'i) result) \<Rightarrow> ('n json \<Rightarrow> string option) \<Rightarrow>
   (('k, 'n, 'l) ToolEnvironment \<Rightarrow> 'i \<Rightarrow> ('d, 'k, 'p) tool_world \<Rightarrow>
     (ToolError, 'n json) result \<times> ('d, 'k, 'p) tool_world) \<Rightarrow> ('d, 'k, 'p, 'n, 'l) ToolHandler" where
  "fn_handler d parse to_str f =
     \<lparr>th_definition = d, th_handle = fn_handle parse to_str f, th_manifest = manifest_new\<rparr>"

text \<open>The value a provider bridge sends to the model (\<open>dispatcher_rig.rs\<close>).\<close>

definition tool_result_payload :: "'n ToolCallResult \<Rightarrow> 'n json" where
  "tool_result_payload r =
     (let needs_object = (tcr_is_error r \<or> tcr_approval_dsl r \<noteq> None \<or> tcr_display_summary r \<noteq> None \<or>
            \<not> (case tcr_content r of JObject _ \<Rightarrow> True | _ \<Rightarrow> False))
      in if needs_object
         then let obj = (case tcr_content r of JObject m \<Rightarrow> m | other \<Rightarrow> fmupd ''value'' other fmempty);
                  obj1 = (if tcr_is_error r \<and> fmlookup obj ''isError'' = None
                          then fmupd ''isError'' (JBool True) obj else obj);
                  obj2 = (case tcr_approval_dsl r of None \<Rightarrow> obj1 | Some dsl \<Rightarrow> fmupd ''approvalDsl'' (JString dsl) obj1);
                  obj3 = (case tcr_display_summary r of None \<Rightarrow> obj2
                          | Some s \<Rightarrow> fmupd ''displaySummary'' (JString s) obj2)
              in JObject obj3
         else tcr_content r)"

section \<open>Layer laws\<close>

text \<open>The contract of a layer: the wrapped handler keeps its definition (law L1).\<close>

locale ToolLayer_laws =
  fixes wrap :: "('d, 'k, 'p, 'n, 'l) ToolLayer"
  assumes transparent: "th_definition (wrap h) = th_definition h"
begin

lemma keeps_name: "td_name (th_definition (wrap h)) = td_name (th_definition h)"
  by (simp add: transparent)

end

locale stacked_layers =
  inner: ToolLayer_laws wrap_inner + outer: ToolLayer_laws wrap_outer
  for wrap_inner wrap_outer :: "('d, 'k, 'p, 'n, 'l) ToolLayer"

sublocale stacked_layers \<subseteq> composed: ToolLayer_laws "layer_then wrap_inner wrap_outer"
  by unfold_locales (simp add: layer_then_def inner.transparent outer.transparent)

interpretation guarded: ToolLayer_laws guarded_layer
  by unfold_locales (simp add: guarded_layer_def)

interpretation traced: ToolLayer_laws traced_layer
  by unfold_locales (simp add: traced_layer_def)

interpretation approval: ToolLayer_laws "approval_layer rt policy store"
  by unfold_locales (simp add: approval_layer_def)

interpretation gated: stacked_layers guarded_layer "approval_layer rt policy store" ..

interpretation full_stack: stacked_layers "layer_then guarded_layer (approval_layer rt policy store)" traced_layer ..

text \<open>The stack the runtime applies to every agent: \<open>guarded().approval(policy, store).traced()\<close>.\<close>

definition tool_stack ::
  "('d, 'k, 'p, 'n) tool_runtime \<Rightarrow> 'n ApprovalPolicy \<Rightarrow> ('p, 'n json) PendingApprovalStore \<Rightarrow>
   ('d, 'k, 'p, 'n, 'l) ToolLayer" where
  "tool_stack rt policy store = layer_then (layer_then guarded_layer (approval_layer rt policy store)) traced_layer"

lemma tool_stack_definition [simp]: "th_definition (tool_stack rt policy store h) = th_definition h"
  unfolding tool_stack_def by (rule full_stack.composed.transparent)

lemma env_emit_frame [simp]:
  "tw_sys (snd (env_emit env part w)) = tw_sys w" "tw_store (snd (env_emit env part w)) = tw_store w"
  "tw_cancelled (snd (env_emit env part w)) = tw_cancelled w"
  by (simp_all add: env_emit_def Let_def case_prod_beta)

text \<open>Several emissions in order.\<close>

definition env_emits ::
  "('k, 'n, 'l) ToolEnvironment \<Rightarrow> ('n json, 'l) StreamPart list \<Rightarrow> ('d, 'k, 'p) tool_world \<Rightarrow>
   ('d, 'k, 'p) tool_world" where
  "env_emits env ps w = w\<lparr>tw_sink := emit_all (env_event_sink env) ps (tw_sink w)\<rparr>"

lemma env_emits_Nil [simp]: "env_emits env [] w = w"
  by (simp add: env_emits_def emit_all_def)

lemma env_emits_Cons: "env_emits env (p # ps) w = env_emits env ps (snd (env_emit env p w))"
  by (simp add: env_emits_def emit_all_def env_emit_def Let_def case_prod_beta)

lemma env_emits_append: "env_emits env (ps @ qs) w = env_emits env qs (env_emits env ps w)"
  by (induction ps arbitrary: w) (simp_all add: env_emits_Cons)

lemma emit_as_emits: "snd (env_emit env p w) = env_emits env [p] w"
  by (simp add: env_emits_Cons)

lemma env_emits_frame [simp]:
  "tw_sys (env_emits env ps w) = tw_sys w" "tw_store (env_emits env ps w) = tw_store w"
  "tw_cancelled (env_emits env ps w) = tw_cancelled w"
  by (simp_all add: env_emits_def)

definition channel_parts :: "'n ToolCallResult \<Rightarrow> ('n json, 'l) StreamPart list" where
  "channel_parts r =
     (case tcr_approval_dsl r of None \<Rightarrow> [] | Some dsl \<Rightarrow> [DataFlowUI \<lparr>card_dsl = dsl\<rparr>]) @
     (case tcr_display_summary r of None \<Rightarrow> [] | Some s \<Rightarrow> [Text s])"

lemma channel_parts_error [simp]: "channel_parts (tool_error i m) = []"
  by (simp add: channel_parts_def tool_error_def)

lemma emit_channels_eq: "emit_channels env r w = env_emits env (channel_parts r) w"
  by (auto simp: emit_channels_def channel_parts_def env_emits_Cons split: option.splits)

lemma traced_handle:
  "th_handle (traced_layer inner) i input env w =
     (let name = td_name (th_definition inner);
          (r, w') = th_handle inner i input env (env_emits env [tool_call_part i name input] w)
      in (r, env_emits env (channel_parts r @ [tool_result_part i name input (tcr_content r)]) w'))"
  by (simp add: traced_layer_def Let_def case_prod_beta emit_channels_eq env_emits_append emit_as_emits)

text \<open>Whether the policy asks for an approval of a call.\<close>

definition approval_needed ::
  "'n ApprovalPolicy \<Rightarrow> ('d, 'k, 'p, 'n, 'l) ToolHandler \<Rightarrow> 'n json \<Rightarrow> ('k, 'n, 'l) ToolEnvironment \<Rightarrow> bool" where
  "approval_needed policy h input env \<longleftrightarrow>
     is_required (resolve_tool policy (td_name (th_definition h)))
       \<lparr>ctx_kind = ToolKind, ctx_target = td_name (th_definition h), ctx_input = input,
        ctx_tenant = tc_resource_id (env_tenant env)\<rparr>"

text \<open>A host that never approves, whatever else happens while the layer waits.\<close>

definition never_approves :: "('d, 'k, 'p, 'n) tool_runtime \<Rightarrow> bool" where
  "never_approves rt \<longleftrightarrow> (\<forall>ch w d w'. rt_wait rt ch w = (Decided (Ok d), w') \<longrightarrow> \<not> is_approve (dec_outcome d))"

lemma never_approvesD: "never_approves rt \<Longrightarrow> rt_wait rt ch w = (Decided (Ok d), w') \<Longrightarrow> \<not> is_approve (dec_outcome d)"
  by (auto simp: never_approves_def)

lemma approval_handle_blocked:
  assumes "approval_needed policy h input env" "never_approves rt" "th_definition h' = th_definition h"
  shows "approval_handle rt policy store h i input env w = approval_handle rt policy store h' i input env w"
    and "tcr_is_error (fst (approval_handle rt policy store h i input env w))"
proof -
  obtain u w0 where u: "rt_uuid rt w = (u, w0)" by fastforce
  let ?req = "tool_request (ApprovalId u) (td_name (th_definition h)) i input (env_tenant env)"
  obtain rr st where reg: "store_register store (tw_store w0) ?req = (rr, st)" by fastforce
  obtain ok w1 where em: "env_emit env (ApprovalRequiredPart ?req) (w0\<lparr>tw_store := st\<rparr>) = (ok, w1)" by fastforce
  note step = approval_handle_def Let_def u reg em assms(3) approval_needed_def tool_error_def rejected_result_def
  have "approval_handle rt policy store h i input env w = approval_handle rt policy store h' i input env w \<and>
    tcr_is_error (fst (approval_handle rt policy store h i input env w))"
  proof (cases rr)
    case (Inl e)
    with assms(1) show ?thesis by (simp add: step)
  next
    case (Inr ch)
    obtain out w2 where wt: "rt_wait rt ch w1 = (out, w2)" by fastforce
    then have "\<not> is_approve (dec_outcome d)" if "out = Decided (Ok d)" for d
      using never_approvesD [OF assms(2)] that by simp
    with assms(1) Inr show ?thesis
      by (cases ok; cases out) (auto simp: step wt split: sum.splits)
  qed
  then show "approval_handle rt policy store h i input env w = approval_handle rt policy store h' i input env w"
    "tcr_is_error (fst (approval_handle rt policy store h i input env w))" by auto
qed

text \<open>
  C2. A tool call that needs an approval and does not get one never reaches the tool: through the stack
  the runtime applies, whatever the host does while the call waits short of approving it, the outcome
  (result, events, store and target system) is the same for every implementation of the tool, and the
  model gets an error.
\<close>

theorem tool_gate_requires_approval:
  assumes "approval_needed policy h input env" "never_approves rt" "th_definition h' = th_definition h"
  shows "th_handle (tool_stack rt policy store h) i input env w = th_handle (tool_stack rt policy store h') i input env w
    \<and> tcr_is_error (fst (th_handle (tool_stack rt policy store h) i input env w))"
proof -
  have "approval_needed policy (guarded_layer h) input env"
    using assms(1) by (simp add: approval_needed_def guarded.transparent)
  note blocked = approval_handle_blocked [OF this assms(2), of "guarded_layer h'"]
  have "th_definition (guarded_layer h') = th_definition (guarded_layer h)"
    using assms(3) by (simp add: guarded.transparent)
  with blocked show ?thesis
    by (simp add: tool_stack_def layer_then_def traced_handle Let_def case_prod_beta)
      (simp add: approval_layer_def)
qed

text \<open>Witnesses: a tool that counts its calls, a store and a host that decide at once.\<close>

definition counting_tool :: "(nat, (nat json, unit) BroadcastEventChannel, nat json InMemoryStore, nat, unit) ToolHandler" where
  "counting_tool =
     \<lparr>th_definition = \<lparr>td_name = ''pay'', td_description = ''Pay'', td_input_schema = JNull\<rparr>,
      th_handle = (\<lambda>i input env w. (tool_success i input, w\<lparr>tw_sys := Suc (tw_sys w)\<rparr>)),
      th_manifest = manifest_new\<rparr>"

definition im_pending_store :: "('j InMemoryStore, 'j) PendingApprovalStore" where
  "im_pending_store = \<lparr>store_register = im_register, store_expire = im_expire\<rparr>"

definition host_deciding ::
  "nat json ApprovalOutcome \<Rightarrow>
   (nat, (nat json, unit) BroadcastEventChannel, nat json InMemoryStore, nat) tool_runtime" where
  "host_deciding out =
     \<lparr>rt_uuid = (\<lambda>w. (''u'', w)),
      rt_wait = (\<lambda>ch w. (Decided (Ok \<lparr>dec_id = ApprovalId ''u'', dec_outcome = out, dec_feedback = None\<rparr>), w))\<rparr>"

definition host_cancelling ::
  "(nat, (nat json, unit) BroadcastEventChannel, nat json InMemoryStore, nat) tool_runtime" where
  "host_cancelling = \<lparr>rt_uuid = (\<lambda>w. (''u'', w)), rt_wait = (\<lambda>ch w. (CancelFired, w))\<rparr>"

definition sample_env :: "((nat json, unit) BroadcastEventChannel, nat, unit) ToolEnvironment" where
  "sample_env = \<lparr>env_event_sink = broadcast_sink, env_tenant = \<lparr>tc_resource_id = TenantId ''t'', tc_thread_id = None\<rparr>,
     env_extensions = {||}, env_tool_call_id = None\<rparr>"

definition sample_world :: "(nat, (nat json, unit) BroadcastEventChannel, nat json InMemoryStore) tool_world" where
  "sample_world = \<lparr>tw_sys = 0, tw_sink = broadcast_new, tw_store = in_memory_new, tw_cancelled = False\<rparr>"

definition always_ask :: "nat ApprovalPolicy" where
  "always_ask = with_default_tool_rule Always policy_new"

lemma always_ask_rule [simp]: "resolve_tool always_ask name = Always"
  by (simp add: always_ask_def with_default_tool_rule_def policy_new_def resolve_tool_def)

lemma always_ask_needed [simp]: "approval_needed always_ask h input env"
  by (simp add: approval_needed_def)

theorem tool_gate_requires_approval_witness:
  "tcr_is_error (fst (th_handle (tool_stack (host_deciding OutcomeReject) always_ask im_pending_store counting_tool)
     ''c1'' JNull sample_env sample_world))"
proof -
  have "never_approves (host_deciding OutcomeReject)"
    by (simp add: never_approves_def host_deciding_def)
  then show ?thesis
    using tool_gate_requires_approval [of always_ask counting_tool JNull sample_env "host_deciding OutcomeReject" counting_tool]
    by simp
qed

text \<open>
  C7. An approved call runs the tool once, on the original input, between its events: \<open>tool_call\<close> and
  \<open>approval_required\<close> are emitted before the wait, \<open>approval_decision\<close> before the tool runs, then the
  frontend channels of its result and \<open>tool_result\<close>; the caller gets the tool's own result. If the call was
  cancelled by the time the wait ended, the same events are emitted but the tool does not run, and the caller
  gets the error \<open>Cancelled\<close>. This is for a call whose policy asks, whose request the store accepts and the sink takes.
\<close>

theorem approved_call_runs_once:
  assumes "approval_needed policy h input env"
    and "rt_uuid rt (env_emits env [tool_call_part i (td_name (th_definition h)) input] w) = (u, w0)"
    and "store_register store (tw_store w0)
      (tool_request (ApprovalId u) (td_name (th_definition h)) i input (env_tenant env)) = (Ok ch, st)"
    and "env_emit env (ApprovalRequiredPart (tool_request (ApprovalId u) (td_name (th_definition h)) i input (env_tenant env)))
      (w0\<lparr>tw_store := st\<rparr>) = (True, w1)"
    and "rt_wait rt ch w1 = (Decided (Ok d), w2)" "is_approve (dec_outcome d)"
  shows "th_handle (tool_stack rt policy store h) i input env w =
    (let name = td_name (th_definition h);
         decided = env_emits env [ApprovalDecisionPart d] w2;
         (r, w3) = (if tw_cancelled w2 then (tool_error i ''Cancelled'', decided) else th_handle h i input env decided)
     in (r, env_emits env (channel_parts r @ [tool_result_part i name input (tcr_content r)]) w3))"
proof -
  let ?g = "guarded_layer h" and ?w = "env_emits env [ApprovalDecisionPart d] w2"
  have needed: "approval_needed policy ?g input env"
    using assms(1) by (simp add: approval_needed_def guarded.transparent)
  have "approval_handle rt policy store ?g i input env (env_emits env [tool_call_part i (td_name (th_definition h)) input] w)
      = th_handle ?g i input env ?w"
    using needed assms(2-6) by (simp add: approval_handle_def approval_needed_def guarded.transparent emit_as_emits)
  also have "\<dots> = (if tw_cancelled w2 then (tool_error i ''Cancelled'', ?w) else th_handle h i input env ?w)"
    by (simp add: guarded_layer_def)
  finally show ?thesis
    by (simp add: tool_stack_def layer_then_def traced_handle approval.transparent guarded.transparent Let_def)
      (simp add: approval_layer_def)
qed

theorem approved_call_runs_once_witness:
  "tw_sys (snd (th_handle (tool_stack (host_deciding OutcomeApprove) always_ask im_pending_store counting_tool)
     ''c1'' JNull sample_env sample_world)) = 1"
proof -
  let ?req = "tool_request (ApprovalId ''u'') ''pay'' ''c1'' JNull (env_tenant sample_env)"
  let ?w = "env_emits sample_env [tool_call_part ''c1'' ''pay'' JNull] sample_world"
  let ?d = "\<lparr>dec_id = ApprovalId ''u'', dec_outcome = OutcomeApprove, dec_feedback = None\<rparr> :: nat json ApprovalDecision"
  let ?st = "snd (im_register in_memory_new ?req)"
  let ?w1 = "snd (env_emit sample_env (ApprovalRequiredPart ?req) (?w\<lparr>tw_store := ?st\<rparr>))"
  have name: "td_name (th_definition counting_tool) = ''pay''" by (simp add: counting_tool_def)
  have reg: "store_register im_pending_store (tw_store ?w) ?req = (Ok 0, ?st)"
    by (simp add: im_pending_store_def im_register_def sample_world_def in_memory_new_def)
  have emit: "env_emit sample_env (ApprovalRequiredPart ?req) (?w\<lparr>tw_store := ?st\<rparr>) = (True, ?w1)"
    by (simp add: env_emit_def env_emits_def emit_all_def sample_env_def sample_world_def broadcast_sink_def
        broadcast_emit_def broadcast_new_def)
  have quiet: "\<not> tw_cancelled ?w1" "tw_sys ?w1 = 0" by (simp_all add: sample_world_def)
  have "th_handle (tool_stack (host_deciding OutcomeApprove) always_ask im_pending_store counting_tool)
      ''c1'' JNull sample_env sample_world =
    (let (r, w3) = th_handle counting_tool ''c1'' JNull sample_env (env_emits sample_env [ApprovalDecisionPart ?d] ?w1)
     in (r, env_emits sample_env (channel_parts r @ [tool_result_part ''c1'' ''pay'' JNull (tcr_content r)]) w3))"
    using approved_call_runs_once [of always_ask counting_tool JNull sample_env "host_deciding OutcomeApprove" "''c1''"
        sample_world "''u''" ?w im_pending_store 0 ?st ?w1 ?d ?w1] reg emit quiet
    by (simp add: name host_deciding_def)
  then show ?thesis using quiet by (simp add: counting_tool_def)
qed

section \<open>No request is left behind\<close>

lemma im_expire_releases:
  assumes "im_inv st"
  shows "i |\<notin>| fmdom (ap_pending (snd (im_expire st i reason)))"
proof (cases "fmlookup (ap_pending st) i")
  case None
  then show ?thesis by (auto simp: im_expire_def im_settle_def fmlookup_dom_iff)
next
  case (Some e)
  with im_invD(1) [OF assms Some] show ?thesis by (simp add: im_expire_def im_settle_def)
qed

lemma im_register_inv:
  assumes "im_inv st"
  shows "im_inv (snd (im_register st req))"
  using in_memory.reg_fresh [OF assms, of req] in_memory.reg_known [OF assms, of req] assms
  by (cases "im_phase st (req_id req) = Unknown") auto

lemma tool_expire_releases:
  assumes "im_inv (tw_store w)"
  shows "i |\<notin>| fmdom (ap_pending (tw_store (tool_expire im_pending_store i reason w)))"
  using im_expire_releases [OF assms] by (simp add: tool_expire_def im_pending_store_def)

text \<open>
  What the wait does to the in-memory store: others may use the store through its operations meanwhile, and an
  outcome that is not the cancellation is what the awaiter of the channel delivers.
\<close>

definition awaits_store :: "('d, 'k, 'n json InMemoryStore, 'n) tool_runtime \<Rightarrow> bool" where
  "awaits_store rt \<longleftrightarrow> (\<forall>ch w out w'. rt_wait rt ch w = (out, w') \<longrightarrow>
     (\<exists>ops. tw_store w' = im_run ops (tw_store w)) \<and> (\<forall>x. out = Decided x \<longrightarrow> await_poll (tw_store w') ch = Ready x))"

text \<open>So a delivered outcome, whatever it is, finds the request gone.\<close>

lemma delivered_releases:
  assumes "im_inv st" "im_phase st i = Waiting req ch" "await_poll (im_run ops st) ch = Ready x"
  shows "i |\<notin>| fmdom (ap_pending (im_run ops st))"
proof
  let ?st = "im_run ops st"
  assume "i |\<in>| fmdom (ap_pending ?st)"
  then obtain e where e: "fmlookup (ap_pending ?st) i = Some e" by (auto simp: fmlookup_dom_iff)
  have "im_inv ?st" by (rule in_memory.run_ops_inv [OF assms(1)])
  with e have "im_phase ?st i \<noteq> Settled" using im_invD(1) by (auto simp: im_phase_def)
  with in_memory.woken_is_settled [OF assms] show False by simp
qed

text \<open>
  C17. A call that waits for an approval and is not approved leaves no open request in the in-memory
  store, whichever way it ends: refused registration, closed sink, cancellation, expiry or rejection. The
  store has been used through its operations only, before and, by anyone, during the wait; an outcome other than the
  cancellation is what the awaiter of the registered request delivers; the identifier has no open request yet.
\<close>

theorem refused_call_leaves_no_request:
  assumes "approval_needed policy h input env" "never_approves rt" "awaits_store rt" "rt_uuid rt w = (u, w0)"
    and "tw_store w0 = im_run before in_memory_new" "ApprovalId u |\<notin>| fmdom (ap_pending (tw_store w0))"
  shows "ApprovalId u |\<notin>| fmdom (ap_pending (tw_store (snd (approval_handle rt policy im_pending_store h i input env w))))"
proof -
  let ?req = "tool_request (ApprovalId u) (td_name (th_definition h)) i input (env_tenant env)"
  have rid: "req_id ?req = ApprovalId u" by (simp add: tool_request_def)
  have w0: "im_inv (tw_store w0)" unfolding assms(5) by (rule in_memory.run_ops_inv) simp
  obtain rr st where reg: "im_register (tw_store w0) ?req = (rr, st)" by fastforce
  have st: "im_inv st" using im_register_inv [OF w0, of ?req] reg by simp
  obtain ok w1 where em: "env_emit env (ApprovalRequiredPart ?req) (w0\<lparr>tw_store := st\<rparr>) = (ok, w1)" by fastforce
  have w1: "tw_store w1 = st" using env_emit_frame(2) [of env "ApprovalRequiredPart ?req" "w0\<lparr>tw_store := st\<rparr>"] em by simp
  have reg': "store_register im_pending_store (tw_store w0) ?req = (rr, st)"
    using reg by (simp add: im_pending_store_def)
  note step = approval_handle_def Let_def assms(4) reg' em
  show ?thesis
  proof (cases rr)
    case (Inl e)
    with reg have "st = tw_store w0" by (auto simp: im_register_def Let_def split: if_splits)
    with assms(1,6) Inl show ?thesis by (simp add: step approval_needed_def)
  next
    case (Inr ch)
    have phase: "im_phase st (ApprovalId u) = Waiting ?req ch"
      using im_register_fresh [OF w0, of ?req] in_memory.reg_known [OF w0, of ?req] reg Inr rid by fastforce
    obtain out w2 where wt: "rt_wait rt ch w1 = (out, w2)" by fastforce
    obtain ops where ops: "tw_store w2 = im_run ops st" and out: "\<And>x. out = Decided x \<Longrightarrow> await_poll (tw_store w2) ch = Ready x"
      using assms(3) wt w1 unfolding awaits_store_def by metis
    have w2: "im_inv (tw_store w2)" unfolding ops by (rule in_memory.run_ops_inv [OF st])
    have gone: "ApprovalId u |\<notin>| fmdom (ap_pending (tw_store w2))" if "out = Decided x" for x
      unfolding ops by (rule delivered_releases [OF st phase]) (use out [OF that] ops in simp)
    have na: "\<not> is_approve (dec_outcome d)" if "out = Decided (Ok d)" for d
      using never_approvesD [OF assms(2)] wt that by simp
    show ?thesis
    proof (cases ok)
      case False
      with assms(1) Inr st w1 show ?thesis by (simp add: step approval_needed_def tool_expire_releases)
    next
      case True
      with assms(1) Inr w2 gone na show ?thesis
        by (cases out) (auto simp: step wt approval_needed_def tool_expire_releases split: sum.splits)
    qed
  qed
qed

text \<open>A host that rejects through the store, and whose answer reaches the call through its channel.\<close>

definition host_rejecting ::
  "(nat, (nat json, unit) BroadcastEventChannel, nat json InMemoryStore, nat) tool_runtime" where
  "host_rejecting =
     \<lparr>rt_uuid = (\<lambda>w. (''u'', w)),
      rt_wait = (\<lambda>ch w.
        let d = decision_reject (ApprovalId ''u'') ''no''; w' = w\<lparr>tw_store := snd (im_resolve (tw_store w) d)\<rparr>
        in (if await_poll (tw_store w') ch = Ready (Ok d) then Decided (Ok d) else CancelFired, w'))\<rparr>"

lemma hosts_await:
  "awaits_store host_cancelling" "never_approves host_cancelling" "awaits_store host_rejecting" "never_approves host_rejecting"
proof -
  show "awaits_store host_cancelling" "never_approves host_cancelling"
    by (auto simp: awaits_store_def never_approves_def host_cancelling_def intro: exI [of _ "[]"])
  have "\<exists>ops. snd (im_resolve st d) = im_run ops st" for st :: "nat json InMemoryStore" and d
    by (rule exI [of _ "[ResolveOp d]"]) simp
  then show "awaits_store host_rejecting"
    by (auto simp: awaits_store_def host_rejecting_def Let_def split: if_splits)
  show "never_approves host_rejecting"
    by (auto simp: never_approves_def host_rejecting_def Let_def decision_reject_def split: if_splits)
qed

theorem refused_call_leaves_no_request_witness:
  "\<exists>reason. tcr_content (fst (approval_handle host_rejecting always_ask im_pending_store counting_tool ''c1'' JNull sample_env sample_world))
     = json_object [(''error'', JString ''approval_rejected''), (''rejected'', JBool True), (''reason'', JString reason), (''do_not_retry'', JBool True)] \<and>
   ApprovalId ''u'' |\<notin>| fmdom (ap_pending (tw_store (snd (approval_handle
     host_rejecting always_ask im_pending_store counting_tool ''c1'' JNull sample_env sample_world)))) \<and>
   ApprovalId ''u'' |\<notin>| fmdom (ap_pending (tw_store (snd (approval_handle
     host_cancelling always_ask im_pending_store counting_tool ''c1'' JNull sample_env sample_world))))"
proof -
  have start: "tw_store sample_world = im_run [] in_memory_new" "ApprovalId ''u'' |\<notin>| fmdom (ap_pending (tw_store sample_world))"
    by (simp_all add: sample_world_def in_memory_new_def)
  have uuid: "rt_uuid host_rejecting sample_world = (''u'', sample_world)" "rt_uuid host_cancelling sample_world = (''u'', sample_world)"
    by (simp_all add: host_rejecting_def host_cancelling_def)
  note gone = refused_call_leaves_no_request [OF always_ask_needed hosts_await(4,3) uuid(1) start, of counting_tool "''c1''" JNull sample_env]
    refused_call_leaves_no_request [OF always_ask_needed hosts_await(2,1) uuid(2) start, of counting_tool "''c1''" JNull sample_env]
  have "tcr_content (fst (approval_handle host_rejecting always_ask im_pending_store counting_tool ''c1'' JNull sample_env sample_world))
     = json_object [(''error'', JString ''approval_rejected''), (''rejected'', JBool True), (''reason'', JString ''no''), (''do_not_retry'', JBool True)]"
    by (simp add: approval_handle_def host_rejecting_def im_pending_store_def im_register_def im_resolve_def im_settle_def
        await_poll_def tool_request_def env_emit_def sample_env_def sample_world_def in_memory_new_def broadcast_sink_def
        broadcast_emit_def broadcast_new_def decision_reject_def rejected_result_def unwrap_or_def Let_def)
  with gone show ?thesis by blast
qed

section \<open>Cancellation and the order of the layers\<close>

text \<open>
  The layers are documented to check the cancellation before tracing and before asking; the guard is
  the innermost layer, so a cancelled call is still announced, and still asks for an approval.
\<close>

lemma cancelled_call_still_traced:
  assumes "tw_cancelled w"
  shows "th_handle (layer_then guarded_layer traced_layer h) i input env w =
    (let name = td_name (th_definition h); r = tool_error i ''Cancelled''
     in (r, env_emits env [tool_call_part i name input, tool_result_part i name input (tcr_content r)] w))"
  using assms by (simp add: layer_then_def traced_handle guarded.transparent)
    (simp add: guarded_layer_def env_emits_Cons Let_def)

lemma cancelled_call_still_asks:
  "\<exists>req. ApprovalRequiredPart req \<in> set (bc_sent (tw_sink (snd (th_handle
     (tool_stack host_cancelling always_ask im_pending_store counting_tool)
     ''c1'' JNull sample_env (sample_world\<lparr>tw_cancelled := True\<rparr>)))))"
  by (simp add: tool_stack_def layer_then_def traced_handle approval.transparent guarded.transparent)
    (auto simp: approval_layer_def approval_handle_def guarded.transparent
      host_cancelling_def im_pending_store_def im_register_def tool_expire_def env_emits_def emit_all_def env_emit_def
      sample_env_def sample_world_def in_memory_new_def broadcast_sink_def broadcast_emit_def broadcast_new_def
      channel_parts_def tool_error_def Let_def)

section \<open>Function handlers\<close>

definition object_with_channels :: "(string, 'n json) fmap \<Rightarrow> bool" where
  "object_with_channels m \<longleftrightarrow> fmlookup m ''_cardEmitted'' = None \<and>
     (\<forall>k \<in> {''approvalDsl'', ''displaySummary''}. \<forall>v. fmlookup m k = Some v \<longrightarrow> json_str v \<noteq> None)"

lemma json_str_Some [simp]: "json_str v = Some s \<longleftrightarrow> v = JString s"
  by (cases v) auto

lemma fmdrop_absent: "fmlookup m k = None \<Longrightarrow> fmdrop k m = m"
  by (rule fmap_ext) auto

lemma fmupd_fmdrop: "fmlookup m k = Some v \<Longrightarrow> fmupd k v (fmdrop k m) = m"
  by (rule fmap_ext) auto

lemma fmupd_fmdrop_other: "k \<noteq> k' \<Longrightarrow> fmupd k v (fmdrop k' m) = fmdrop k' (fmupd k v m)"
  by (rule fmap_ext) auto

text \<open>
  The frontend channels a tool function returns inside its object are moved out of the content (the
  content keeps none of them), and the provider bridge puts them back: the payload it sends is the object
  the function returned.
\<close>

theorem channels_roundtrip:
  assumes "parse input = Ok v" "f env v w = (Ok (JObject m), w')" "object_with_channels m"
  shows "let (r, w1) = fn_handle parse to_str f i input env w
    in w1 = w' \<and> \<not> tcr_is_error r \<and> tcr_tool_use_id r = i \<and> tool_result_payload r = JObject m \<and>
       json_member ''approvalDsl'' (tcr_content r) = None \<and> json_member ''displaySummary'' (tcr_content r) = None \<and>
       json_member ''_cardEmitted'' (tcr_content r) = None"
proof -
  have card: "fmlookup m ''_cardEmitted'' = None" using assms(3) by (simp add: object_with_channels_def)
  note call = fn_handle_def split_channels_def tool_success_def tool_result_payload_def fmdrop_absent fmupd_fmdrop
    fmupd_fmdrop_other card
  show ?thesis
  proof (cases "fmlookup m ''approvalDsl''"; cases "fmlookup m ''displaySummary''")
    assume "fmlookup m ''approvalDsl'' = None" "fmlookup m ''displaySummary'' = None"
    with assms(1,2) show ?thesis by (simp add: call)
  next
    fix b assume "fmlookup m ''approvalDsl'' = None" "fmlookup m ''displaySummary'' = Some b"
    with assms show ?thesis by (auto simp: call object_with_channels_def)
  next
    fix a assume "fmlookup m ''approvalDsl'' = Some a" "fmlookup m ''displaySummary'' = None"
    with assms show ?thesis by (auto simp: call object_with_channels_def)
  next
    fix a b assume "fmlookup m ''approvalDsl'' = Some a" "fmlookup m ''displaySummary'' = Some b"
    with assms show ?thesis by (auto simp: call object_with_channels_def)
  qed
qed

theorem channels_roundtrip_witness:
  "tool_result_payload (fst (fn_handle (\<lambda>_. Ok ()) (\<lambda>_. None)
     (\<lambda>env v w. (Ok (json_object [(''approvalDsl'', JString ''card''), (''rows'', JNull)]), w))
     ''c1'' JNull sample_env sample_world)) = json_object [(''approvalDsl'', JString ''card''), (''rows'', JNull :: nat json)]"
  using channels_roundtrip [of "\<lambda>_. Ok ()" JNull "()"
      "\<lambda>env v w. (Ok (json_object [(''approvalDsl'', JString ''card''), (''rows'', JNull)]), w)" sample_env sample_world
      "fmap_of_list [(''approvalDsl'', JString ''card''), (''rows'', JNull)]" sample_world "\<lambda>_. None" "''c1''"]
  by (simp add: json_object_def object_with_channels_def fmlookup_of_list Let_def case_prod_beta)

end
