(* ===== verification/Map_Order.thy ===== *)
theory Map_Order
  imports Prelude "HOL-Library.Finite_Map" "HOL-Library.List_Lexorder" "HOL-Library.Char_ord"
begin

text \<open>
  Iterating over maps. Rust reads a \<open>HashMap\<close> in an unspecified order, given here by a function \<open>ord\<close>
  from the set of keys to a list of them; a \<open>BTreeMap\<close> is read in the order of its keys, which is
  \<^const>\<open>sorted_list_of_fset\<close>.
\<close>

text \<open>The entries of a map in iteration order.\<close>

definition entries :: "('k fset \<Rightarrow> 'k list) \<Rightarrow> ('k, 'h) fmap \<Rightarrow> ('k \<times> 'h) list" where
  "entries ord m = List.map_filter (\<lambda>name. map_option (Pair name) (fmlookup m name)) (ord (fmdom m))"

text \<open>What an iteration order has to be.\<close>

definition enumerates :: "('a fset \<Rightarrow> 'a list) \<Rightarrow> bool" where
  "enumerates ord \<longleftrightarrow> (\<forall>A. distinct (ord A) \<and> set (ord A) = fset A)"

lemma enumeratesD:
  assumes "enumerates ord"
  shows "distinct (ord A)" "set (ord A) = fset A"
  using assms by (simp_all add: enumerates_def)

lemma entries_keys:
  assumes "enumerates ord"
  shows "map fst (entries ord m) = ord (fmdom m)"
proof -
  have "map fst (List.map_filter (\<lambda>name. map_option (Pair name) (fmlookup m name)) ks) = ks" if "set ks \<subseteq> fset (fmdom m)" for ks
    using that by (induction ks) (auto simp: map_filter_simps fmlookup_dom_iff)
  then show ?thesis by (simp add: entries_def enumeratesD(2) [OF assms])
qed

lemma entries_map_of:
  assumes "enumerates ord"
  shows "map_of (entries ord m) = fmlookup m"
proof
  fix name
  have *: "map_of (List.map_filter (\<lambda>name. map_option (Pair name) (fmlookup m name)) ks) name =
      (if name \<in> set ks then fmlookup m name else None)" for ks
    by (induction ks) (auto simp: map_filter_simps split: option.splits)
  show "map_of (entries ord m) name = fmlookup m name"
    using * [of "ord (fmdom m)"] by (simp add: entries_def enumeratesD(2) [OF assms] fmlookup_dom_iff)
qed

lemma distinct_entries: "enumerates ord \<Longrightarrow> distinct (map fst (entries ord m))"
  by (simp add: entries_keys enumeratesD(1))

lemma entries_set: "enumerates ord \<Longrightarrow> (name, h) \<in> set (entries ord m) \<longleftrightarrow> fmlookup m name = Some h"
  using entries_map_of [of ord m] distinct_entries [of ord m] by (metis map_of_eq_Some_iff)

lemma sorted_enumerates: "enumerates (sorted_list_of_fset :: 'a::linorder fset \<Rightarrow> 'a list)"
  by (simp add: enumerates_def sorted_list_of_fset.rep_eq)

lemma fmadd_Cons: "m ++\<^sub>f fmap_of_list (rev ((k, v) # kvs)) = fmupd k v m ++\<^sub>f fmap_of_list (rev kvs)"
  by (rule fmap_ext) (auto simp: fmlookup_of_list map_add_def split: option.splits)

lemma entries_restore:
  assumes "enumerates ord"
  shows "fmap_of_list (rev (entries ord m)) = m"
proof -
  have "map_of (rev (entries ord m)) = map_of (entries ord m)"
    using distinct_entries [OF assms, of m] map_of_inject_set [of "rev (entries ord m)" "entries ord m"]
    by (simp add: rev_map [symmetric])
  then show ?thesis by (intro fmap_ext) (simp add: fmlookup_of_list entries_map_of [OF assms])
qed

lemma entries_ran:
  assumes "enumerates ord"
  shows "(\<forall>kv \<in> set (entries ord m). P (snd kv)) \<longleftrightarrow> (\<forall>h. h |\<in>| fmran m \<longrightarrow> P h)"
  using entries_set [OF assms, of _ _ m] by (fastforce simp: fmlookup_ran_iff)

end
