(* ===== verification/Tool_Dispatcher.thy ===== *)
theory Tool_Dispatcher
  imports Tool_Layer Map_Order
begin

text \<open>
  Routing of tool calls: the composed dispatcher of \<open>crates/agent-fw-agent/src/tool_handler.rs\<close>, with the
  layers applied in bulk and its validation.

  A handler map is a finite map. Rust iterates a \<open>HashMap\<close> in an unspecified order: the order of the
  keys is a parameter \<open>ord\<close> of the operations that iterate one.
\<close>

section \<open>The dispatcher\<close>

datatype CollisionKind = CollActive | CollLatent | CollActiveVsLatent

record ToolCollision =
  col_tool_name :: string
  col_kind :: CollisionKind

record ('d, 'k, 'p, 'n, 'l) ComposedDispatcher =
  cd_handlers :: "(string, ('d, 'k, 'p, 'n, 'l) ToolHandler) fmap"
  cd_latent_handlers :: "(string, ('d, 'k, 'p, 'n, 'l) ToolHandler) fmap"
  cd_env :: "('k, 'n, 'l) ToolEnvironment"
  cd_collisions :: "ToolCollision list"

datatype BuildError = Collisions "ToolCollision list" | MissingExtensions "MissingExtension list"

definition dispatcher_new :: "('k, 'n, 'l) ToolEnvironment \<Rightarrow> ('d, 'k, 'p, 'n, 'l) ComposedDispatcher" where
  "dispatcher_new env = \<lparr>cd_handlers = fmempty, cd_latent_handlers = fmempty, cd_env = env, cd_collisions = []\<rparr>"

definition push_collision ::
  "string \<Rightarrow> CollisionKind \<Rightarrow> ('d, 'k, 'p, 'n, 'l) ComposedDispatcher \<Rightarrow> ('d, 'k, 'p, 'n, 'l) ComposedDispatcher" where
  "push_collision name kind d = d\<lparr>cd_collisions := cd_collisions d @ [\<lparr>col_tool_name = name, col_kind = kind\<rparr>]\<rparr>"

definition record_active_collision ::
  "string \<Rightarrow> ('d, 'k, 'p, 'n, 'l) ComposedDispatcher \<Rightarrow> ('d, 'k, 'p, 'n, 'l) ComposedDispatcher" where
  "record_active_collision name d =
     (if name |\<in>| fmdom (cd_handlers d) then push_collision name CollActive d
      else if name |\<in>| fmdom (cd_latent_handlers d) then push_collision name CollActiveVsLatent d
      else d)"

definition record_latent_collision ::
  "string \<Rightarrow> ('d, 'k, 'p, 'n, 'l) ComposedDispatcher \<Rightarrow> ('d, 'k, 'p, 'n, 'l) ComposedDispatcher" where
  "record_latent_collision name d =
     (if name |\<in>| fmdom (cd_latent_handlers d) then push_collision name CollLatent d
      else if name |\<in>| fmdom (cd_handlers d) then push_collision name CollActiveVsLatent d
      else d)"

definition insert_active ::
  "string \<Rightarrow> ('d, 'k, 'p, 'n, 'l) ToolHandler \<Rightarrow> ('d, 'k, 'p, 'n, 'l) ComposedDispatcher \<Rightarrow>
   ('d, 'k, 'p, 'n, 'l) ComposedDispatcher" where
  "insert_active name h d =
     (let d1 = record_active_collision name d in d1\<lparr>cd_handlers := fmupd name h (cd_handlers d1)\<rparr>)"

definition insert_latent ::
  "string \<Rightarrow> ('d, 'k, 'p, 'n, 'l) ToolHandler \<Rightarrow> ('d, 'k, 'p, 'n, 'l) ComposedDispatcher \<Rightarrow>
   ('d, 'k, 'p, 'n, 'l) ComposedDispatcher" where
  "insert_latent name h d =
     (let d1 = record_latent_collision name d in d1\<lparr>cd_latent_handlers := fmupd name h (cd_latent_handlers d1)\<rparr>)"

definition add_handler ::
  "('d, 'k, 'p, 'n, 'l) ToolHandler \<Rightarrow> ('d, 'k, 'p, 'n, 'l) ComposedDispatcher \<Rightarrow>
   ('d, 'k, 'p, 'n, 'l) ComposedDispatcher" where
  "add_handler h d = insert_active (td_name (th_definition h)) h d"

definition add_latent_handler ::
  "('d, 'k, 'p, 'n, 'l) ToolHandler \<Rightarrow> ('d, 'k, 'p, 'n, 'l) ComposedDispatcher \<Rightarrow>
   ('d, 'k, 'p, 'n, 'l) ComposedDispatcher" where
  "add_latent_handler h d = insert_latent (td_name (th_definition h)) h d"

definition with_handlers ::
  "('d, 'k, 'p, 'n, 'l) ToolHandler list \<Rightarrow> ('d, 'k, 'p, 'n, 'l) ComposedDispatcher \<Rightarrow>
   ('d, 'k, 'p, 'n, 'l) ComposedDispatcher" where
  "with_handlers hs d = fold add_handler hs d"

definition merge ::
  "(string fset \<Rightarrow> string list) \<Rightarrow> ('d, 'k, 'p, 'n, 'l) ComposedDispatcher \<Rightarrow>
   ('d, 'k, 'p, 'n, 'l) ComposedDispatcher \<Rightarrow> ('d, 'k, 'p, 'n, 'l) ComposedDispatcher" where
  "merge ord self other =
     (let d1 = fold (\<lambda>(name, h). insert_active name h) (entries ord (cd_handlers other)) self;
          d2 = fold (\<lambda>(name, h). insert_latent name h) (entries ord (cd_latent_handlers other)) d1
      in d2\<lparr>cd_collisions := cd_collisions d2 @ cd_collisions other\<rparr>)"

definition try_merge ::
  "(string fset \<Rightarrow> string list) \<Rightarrow> ('d, 'k, 'p, 'n, 'l) ComposedDispatcher \<Rightarrow>
   ('d, 'k, 'p, 'n, 'l) ComposedDispatcher \<Rightarrow> (ToolCollision list, ('d, 'k, 'p, 'n, 'l) ComposedDispatcher) result" where
  "try_merge ord self other =
     (let merged = merge ord self other
      in if cd_collisions merged = [] then Ok merged else Err (cd_collisions merged))"

definition layer ::
  "('d, 'k, 'p, 'n, 'l) ToolLayer \<Rightarrow> ('d, 'k, 'p, 'n, 'l) ComposedDispatcher \<Rightarrow>
   ('d, 'k, 'p, 'n, 'l) ComposedDispatcher" where
  "layer wrap d = d\<lparr>cd_handlers := fmmap wrap (cd_handlers d)\<rparr>"

definition guarded :: "('d, 'k, 'p, 'n, 'l) ComposedDispatcher \<Rightarrow> ('d, 'k, 'p, 'n, 'l) ComposedDispatcher" where
  "guarded d = layer guarded_layer d"

definition approval ::
  "('d, 'k, 'p, 'n) tool_runtime \<Rightarrow> 'n ApprovalPolicy \<Rightarrow> ('p, 'n json) PendingApprovalStore \<Rightarrow>
   ('d, 'k, 'p, 'n, 'l) ComposedDispatcher \<Rightarrow> ('d, 'k, 'p, 'n, 'l) ComposedDispatcher" where
  "approval rt policy store d = layer (approval_layer rt policy store) d"

definition traced :: "('d, 'k, 'p, 'n, 'l) ComposedDispatcher \<Rightarrow> ('d, 'k, 'p, 'n, 'l) ComposedDispatcher" where
  "traced d = layer traced_layer d"

definition validate_no_collisions ::
  "('d, 'k, 'p, 'n, 'l) ComposedDispatcher \<Rightarrow> (ToolCollision list, unit) result" where
  "validate_no_collisions d = (if cd_collisions d = [] then Ok () else Err (cd_collisions d))"

definition missing_extensions ::
  "('k, 'n, 'l) ToolEnvironment \<Rightarrow> ('d, 'k, 'p, 'n, 'l) ToolHandler \<Rightarrow> MissingExtension list" where
  "missing_extensions env h =
     (case manifest_validate (td_name (th_definition h)) env (th_manifest h) of Err missing \<Rightarrow> missing | Ok _ \<Rightarrow> [])"

definition validate_extensions ::
  "(string fset \<Rightarrow> string list) \<Rightarrow> ('d, 'k, 'p, 'n, 'l) ComposedDispatcher \<Rightarrow> (MissingExtension list, unit) result" where
  "validate_extensions ord d =
     (let all_missing =
            concat (map (\<lambda>(_, h). missing_extensions (cd_env d) h) (entries ord (cd_handlers d))) @
            concat (map (\<lambda>(_, h). missing_extensions (cd_env d) h) (entries ord (cd_latent_handlers d)))
      in if all_missing = [] then Ok () else Err all_missing)"

definition try_build ::
  "(string fset \<Rightarrow> string list) \<Rightarrow> ('d, 'k, 'p, 'n, 'l) ComposedDispatcher \<Rightarrow>
   (BuildError, ('d, 'k, 'p, 'n, 'l) ComposedDispatcher) result" where
  "try_build ord d =
     (if cd_collisions d \<noteq> [] then Err (Collisions (cd_collisions d))
      else case validate_extensions ord d of
             Err missing \<Rightarrow> Err (MissingExtensions missing)
           | Ok _ \<Rightarrow> Ok d)"

definition dispatcher_with_sink ::
  "('k, 'n json, 'l) EventSink \<Rightarrow> ('d, 'k, 'p, 'n, 'l) ComposedDispatcher \<Rightarrow> ('d, 'k, 'p, 'n, 'l) ComposedDispatcher" where
  "dispatcher_with_sink sink d = d\<lparr>cd_env := with_sink sink (cd_env d)\<rparr>"

definition tool_definitions ::
  "(string fset \<Rightarrow> string list) \<Rightarrow> ('d, 'k, 'p, 'n, 'l) ComposedDispatcher \<Rightarrow> 'n ToolDefinition list" where
  "tool_definitions ord d = map (\<lambda>(_, h). th_definition h) (entries ord (cd_handlers d))"

definition latent_tool_definitions ::
  "(string fset \<Rightarrow> string list) \<Rightarrow> ('d, 'k, 'p, 'n, 'l) ComposedDispatcher \<Rightarrow> 'n ToolDefinition list" where
  "latent_tool_definitions ord d = map (\<lambda>(_, h). th_definition h) (entries ord (cd_latent_handlers d))"

definition dispatch ::
  "('d, 'k, 'p, 'n, 'l) ComposedDispatcher \<Rightarrow> string \<Rightarrow> string \<Rightarrow> 'n json \<Rightarrow> ('d, 'k, 'p) tool_world \<Rightarrow>
   'n ToolCallResult \<times> ('d, 'k, 'p) tool_world" where
  "dispatch d name i input w =
     (let scoped_env = with_tool_call_id i (cd_env d)
      in case fmlookup (cd_handlers d) name of
           Some h \<Rightarrow> th_handle h i input scoped_env w
         | None \<Rightarrow>
             (case fmlookup (cd_latent_handlers d) name of
                Some h \<Rightarrow> th_handle h i input scoped_env w
              | None \<Rightarrow> (tool_error i (''Unknown tool: '' @ name), w)))"

section \<open>Merging\<close>

lemma push_collision_simps [simp]:
  "cd_handlers (push_collision n k d) = cd_handlers d" "cd_latent_handlers (push_collision n k d) = cd_latent_handlers d"
  "cd_env (push_collision n k d) = cd_env d"
  "cd_collisions (push_collision n k d) = cd_collisions d @ [\<lparr>col_tool_name = n, col_kind = k\<rparr>]"
  by (simp_all add: push_collision_def)

definition active_clash :: "('d, 'k, 'p, 'n, 'l) ComposedDispatcher \<Rightarrow> string \<Rightarrow> ToolCollision list" where
  "active_clash d name =
     (if name |\<in>| fmdom (cd_handlers d) then [\<lparr>col_tool_name = name, col_kind = CollActive\<rparr>]
      else if name |\<in>| fmdom (cd_latent_handlers d) then [\<lparr>col_tool_name = name, col_kind = CollActiveVsLatent\<rparr>] else [])"

definition latent_clash :: "('d, 'k, 'p, 'n, 'l) ComposedDispatcher \<Rightarrow> string \<Rightarrow> ToolCollision list" where
  "latent_clash d name =
     (if name |\<in>| fmdom (cd_latent_handlers d) then [\<lparr>col_tool_name = name, col_kind = CollLatent\<rparr>]
      else if name |\<in>| fmdom (cd_handlers d) then [\<lparr>col_tool_name = name, col_kind = CollActiveVsLatent\<rparr>] else [])"

lemma insert_active_eq:
  "insert_active name h d = d\<lparr>cd_handlers := fmupd name h (cd_handlers d), cd_collisions := cd_collisions d @ active_clash d name\<rparr>"
  by (simp add: insert_active_def record_active_collision_def active_clash_def push_collision_def)

lemma insert_latent_eq:
  "insert_latent name h d =
     d\<lparr>cd_latent_handlers := fmupd name h (cd_latent_handlers d), cd_collisions := cd_collisions d @ latent_clash d name\<rparr>"
  by (simp add: insert_latent_def record_latent_collision_def latent_clash_def push_collision_def)

lemma fold_insert_active:
  "distinct (map fst kvs) \<Longrightarrow> fold (\<lambda>(name, h). insert_active name h) kvs d =
     d\<lparr>cd_handlers := cd_handlers d ++\<^sub>f fmap_of_list (rev kvs),
       cd_collisions := cd_collisions d @ concat (map (active_clash d \<circ> fst) kvs)\<rparr>"
proof (induction kvs arbitrary: d)
  case Nil
  then show ?case by simp
next
  case (Cons kv kvs)
  obtain k h where kv: "kv = (k, h)" by fastforce
  have "active_clash (insert_active k h d) n = active_clash d n" if "n \<in> fst ` set kvs" for n
    using Cons.prems that by (auto simp: kv active_clash_def insert_active_eq)
  then have *: "map (active_clash (insert_active k h d) \<circ> fst) kvs = map (active_clash d \<circ> fst) kvs" by simp
  have "fold (\<lambda>(name, h). insert_active name h) kvs (insert_active k h d) = (insert_active k h d)\<lparr>
      cd_handlers := cd_handlers (insert_active k h d) ++\<^sub>f fmap_of_list (rev kvs),
      cd_collisions := cd_collisions (insert_active k h d) @ concat (map (active_clash d \<circ> fst) kvs)\<rparr>"
    using Cons.IH [of "insert_active k h d"] Cons.prems unfolding * by simp
  then show ?case by (simp add: kv fmadd_Cons [simplified] insert_active_eq [of k h d] comp_def)
qed

lemma fold_insert_latent:
  "distinct (map fst kvs) \<Longrightarrow> fold (\<lambda>(name, h). insert_latent name h) kvs d =
     d\<lparr>cd_latent_handlers := cd_latent_handlers d ++\<^sub>f fmap_of_list (rev kvs),
       cd_collisions := cd_collisions d @ concat (map (latent_clash d \<circ> fst) kvs)\<rparr>"
proof (induction kvs arbitrary: d)
  case Nil
  then show ?case by simp
next
  case (Cons kv kvs)
  obtain k h where kv: "kv = (k, h)" by fastforce
  have "latent_clash (insert_latent k h d) n = latent_clash d n" if "n \<in> fst ` set kvs" for n
    using Cons.prems that by (auto simp: kv latent_clash_def insert_latent_eq)
  then have *: "map (latent_clash (insert_latent k h d) \<circ> fst) kvs = map (latent_clash d \<circ> fst) kvs" by simp
  have "fold (\<lambda>(name, h). insert_latent name h) kvs (insert_latent k h d) = (insert_latent k h d)\<lparr>
      cd_latent_handlers := cd_latent_handlers (insert_latent k h d) ++\<^sub>f fmap_of_list (rev kvs),
      cd_collisions := cd_collisions (insert_latent k h d) @ concat (map (latent_clash d \<circ> fst) kvs)\<rparr>"
    using Cons.IH [of "insert_latent k h d"] Cons.prems unfolding * by simp
  then show ?case by (simp add: kv fmadd_Cons [simplified] insert_latent_eq [of k h d] comp_def)
qed

lemma merge_simps:
  assumes "enumerates ord"
  shows "cd_handlers (merge ord a b) = cd_handlers a ++\<^sub>f cd_handlers b"
    and "cd_latent_handlers (merge ord a b) = cd_latent_handlers a ++\<^sub>f cd_latent_handlers b"
    and "cd_env (merge ord a b) = cd_env a"
    and "cd_collisions (merge ord a b) = cd_collisions a @ concat (map (active_clash a) (ord (fmdom (cd_handlers b)))) @
      concat (map (latent_clash (a\<lparr>cd_handlers := cd_handlers a ++\<^sub>f cd_handlers b\<rparr>)) (ord (fmdom (cd_latent_handlers b)))) @
      cd_collisions b"
proof -
  note folds = fold_insert_active [OF distinct_entries [OF assms]] fold_insert_latent [OF distinct_entries [OF assms]]
  have latent: "latent_clash (a\<lparr>cd_handlers := hs, cd_collisions := cs\<rparr>) = latent_clash (a\<lparr>cd_handlers := hs\<rparr>)" for hs cs
    by (rule ext) (simp add: latent_clash_def)
  show "cd_handlers (merge ord a b) = cd_handlers a ++\<^sub>f cd_handlers b"
    "cd_latent_handlers (merge ord a b) = cd_latent_handlers a ++\<^sub>f cd_latent_handlers b"
    "cd_env (merge ord a b) = cd_env a"
    by (simp_all add: merge_def folds entries_restore [OF assms])
  show "cd_collisions (merge ord a b) = cd_collisions a @ concat (map (active_clash a) (ord (fmdom (cd_handlers b)))) @
      concat (map (latent_clash (a\<lparr>cd_handlers := cd_handlers a ++\<^sub>f cd_handlers b\<rparr>)) (ord (fmdom (cd_latent_handlers b)))) @
      cd_collisions b"
    using map_map [of "active_clash a" fst "entries ord (cd_handlers b)"]
      map_map [of "latent_clash (a\<lparr>cd_handlers := cd_handlers a ++\<^sub>f cd_handlers b\<rparr>)" fst "entries ord (cd_latent_handlers b)"]
    by (simp add: merge_def folds entries_restore [OF assms] entries_keys [OF assms] latent)
qed

lemma dispatch_cong:
  assumes "cd_handlers d = cd_handlers d'" "cd_latent_handlers d = cd_latent_handlers d'" "cd_env d = cd_env d'"
  shows "dispatch d = dispatch d'"
  using assms by (intro ext) (simp add: dispatch_def Let_def split: option.split)

text \<open>
  Dispatchers form a monoid under merging as far as routing goes: the empty dispatcher is neutral,
  merging is associative, and of two tools with one name the right one answers; calls run in the
  environment of the left dispatcher.
\<close>

theorem dispatcher_monoid:
  assumes "enumerates ord"
  shows "dispatch (merge ord (merge ord a b) c) = dispatch (merge ord a (merge ord b c)) \<and>
    dispatch (merge ord a (dispatcher_new env)) = dispatch a \<and>
    dispatch (merge ord (dispatcher_new (cd_env a)) a) = dispatch a \<and>
    (\<forall>name h. fmlookup (cd_handlers b) name = Some h \<longrightarrow>
       (\<forall>i input. dispatch (merge ord a b) name i input = th_handle h i input (with_tool_call_id i (cd_env a))))"
proof (intro conjI allI impI)
  show "dispatch (merge ord (merge ord a b) c) = dispatch (merge ord a (merge ord b c))"
    "dispatch (merge ord a (dispatcher_new env)) = dispatch a"
    "dispatch (merge ord (dispatcher_new (cd_env a)) a) = dispatch a"
    by (rule dispatch_cong; simp add: merge_simps [OF assms] dispatcher_new_def)+
next
  fix name h i input
  assume "fmlookup (cd_handlers b) name = Some h"
  then show "dispatch (merge ord a b) name i input = th_handle h i input (with_tool_call_id i (cd_env a))"
    by (intro ext) (auto simp: merge_simps [OF assms] dispatch_def dest: fmdomI)
qed

definition named_tool ::
  "string \<Rightarrow> nat \<Rightarrow> (nat, (nat json, unit) BroadcastEventChannel, nat json InMemoryStore, nat, unit) ToolHandler" where
  "named_tool name n = counting_tool\<lparr>th_definition := \<lparr>td_name = name, td_description = [], td_input_schema = JNull\<rparr>,
     th_handle := (\<lambda>i input env w. (tool_success i (JNumber n), w))\<rparr>"

theorem dispatcher_monoid_witness:
  "fst (dispatch (merge sorted_list_of_fset (add_handler (named_tool ''x'' 1) (dispatcher_new sample_env))
     (add_handler (named_tool ''x'' 2) (dispatcher_new sample_env))) ''x'' ''c'' JNull sample_world) =
   tool_success ''c'' (JNumber 2)"
proof -
  let ?b = "add_handler (named_tool ''x'' 2) (dispatcher_new sample_env)"
  have "fmlookup (cd_handlers ?b) ''x'' = Some (named_tool ''x'' 2)"
    by (simp add: add_handler_def insert_active_eq named_tool_def)
  with dispatcher_monoid [OF sorted_enumerates, of "add_handler (named_tool ''x'' 1) (dispatcher_new sample_env)" ?b ?b sample_env]
  have "dispatch (merge sorted_list_of_fset (add_handler (named_tool ''x'' 1) (dispatcher_new sample_env)) ?b) ''x'' ''c'' JNull =
    th_handle (named_tool ''x'' 2) ''c'' JNull
      (with_tool_call_id ''c'' (cd_env (add_handler (named_tool ''x'' 1) (dispatcher_new sample_env))))"
    by blast
  then show ?thesis by (simp add: named_tool_def)
qed

section \<open>No silent shadowing\<close>

text \<open>How a dispatcher is put together.\<close>

datatype ('d, 'k, 'p, 'n, 'l) assembly =
    Start "('k, 'n, 'l) ToolEnvironment"
  | Register "('d, 'k, 'p, 'n, 'l) assembly" "('d, 'k, 'p, 'n, 'l) ToolHandler"
  | RegisterLatent "('d, 'k, 'p, 'n, 'l) assembly" "('d, 'k, 'p, 'n, 'l) ToolHandler"
  | Merge "('d, 'k, 'p, 'n, 'l) assembly" "('d, 'k, 'p, 'n, 'l) assembly"

primrec assemble :: "(string fset \<Rightarrow> string list) \<Rightarrow> ('d, 'k, 'p, 'n, 'l) assembly \<Rightarrow> ('d, 'k, 'p, 'n, 'l) ComposedDispatcher" where
  "assemble ord (Start env) = dispatcher_new env"
| "assemble ord (Register a h) = add_handler h (assemble ord a)"
| "assemble ord (RegisterLatent a h) = add_latent_handler h (assemble ord a)"
| "assemble ord (Merge a b) = merge ord (assemble ord a) (assemble ord b)"

primrec registered :: "('d, 'k, 'p, 'n, 'l) assembly \<Rightarrow> ('d, 'k, 'p, 'n, 'l) ToolHandler list" where
  "registered (Start env) = []"
| "registered (Register a h) = registered a @ [h]"
| "registered (RegisterLatent a h) = registered a @ [h]"
| "registered (Merge a b) = registered a @ registered b"

definition tool_name :: "('d, 'k, 'p, 'n, 'l) ToolHandler \<Rightarrow> string" where
  "tool_name h = td_name (th_definition h)"

definition known :: "('d, 'k, 'p, 'n, 'l) ComposedDispatcher \<Rightarrow> string set" where
  "known d = fset (fmdom (cd_handlers d)) \<union> fset (fmdom (cd_latent_handlers d))"

definition disjoint_maps :: "('d, 'k, 'p, 'n, 'l) ComposedDispatcher \<Rightarrow> bool" where
  "disjoint_maps d \<longleftrightarrow> fset (fmdom (cd_handlers d)) \<inter> fset (fmdom (cd_latent_handlers d)) = {}"

lemma clash_empty:
  "active_clash d name = [] \<longleftrightarrow> name \<notin> known d" "latent_clash d name = [] \<longleftrightarrow> name \<notin> known d"
  by (simp_all add: active_clash_def latent_clash_def known_def)

lemma merge_clean:
  assumes "enumerates ord"
  shows "cd_collisions (merge ord a b) = [] \<longleftrightarrow> cd_collisions a = [] \<and> cd_collisions b = [] \<and>
    known a \<inter> known b = {} \<and> disjoint_maps b"
proof -
  have "known (a\<lparr>cd_handlers := cd_handlers a ++\<^sub>f cd_handlers b\<rparr>) = known a \<union> fset (fmdom (cd_handlers b))"
    by (auto simp: known_def)
  then show ?thesis
    by (auto simp: merge_simps [OF assms] clash_empty enumeratesD(2) [OF assms] known_def disjoint_maps_def)
qed

lemma assemble_known:
  assumes "enumerates ord"
  shows "known (assemble ord a) = tool_name ` set (registered a)"
  by (induction a)
    (auto simp: known_def dispatcher_new_def add_handler_def add_latent_handler_def insert_active_eq insert_latent_eq
      merge_simps [OF assms] tool_name_def)

lemma assemble_clean:
  assumes "enumerates ord"
  shows "cd_collisions (assemble ord a) = [] \<longleftrightarrow> distinct (map tool_name (registered a))"
    and "cd_collisions (assemble ord a) = [] \<Longrightarrow> disjoint_maps (assemble ord a)"
proof (induction a)
  case (Start env)
  { case 1 show ?case by (simp add: dispatcher_new_def) }
  { case 2 show ?case by (simp add: dispatcher_new_def disjoint_maps_def) }
next
  case (Register a h)
  { case 1 show ?case
      using Register assemble_known [OF assms, of a]
      by (simp add: add_handler_def insert_active_eq clash_empty tool_name_def) }
  { case 2 then show ?case
      using Register
      by (auto simp: add_handler_def insert_active_eq clash_empty disjoint_maps_def known_def) }
next
  case (RegisterLatent a h)
  { case 1 show ?case
      using RegisterLatent assemble_known [OF assms, of a]
      by (simp add: add_latent_handler_def insert_latent_eq clash_empty tool_name_def) }
  { case 2 then show ?case
      using RegisterLatent
      by (auto simp: add_latent_handler_def insert_latent_eq clash_empty disjoint_maps_def known_def) }
next
  case (Merge a b)
  { case 1 show ?case
      using Merge by (auto simp: merge_clean [OF assms] assemble_known [OF assms]) }
  { case 2
    then have "known (assemble ord a) \<inter> known (assemble ord b) = {}" "disjoint_maps (assemble ord a)"
      "disjoint_maps (assemble ord b)"
      using Merge by (simp_all add: merge_clean [OF assms])
    then show ?case by (auto simp: merge_simps [OF assms] disjoint_maps_def known_def) }
qed

lemma assemble_routes:
  assumes "enumerates ord" "distinct (map tool_name (registered a))" "h \<in> set (registered a)"
  shows "fmlookup (cd_handlers (assemble ord a)) (tool_name h) = Some h \<or>
    fmlookup (cd_handlers (assemble ord a)) (tool_name h) = None \<and>
    fmlookup (cd_latent_handlers (assemble ord a)) (tool_name h) = Some h"
  using assms(2,3)
proof (induction a)
  case (Start env)
  then show ?case by simp
next
  case (Register a g)
  then show ?case
    by (auto simp: add_handler_def insert_active_eq tool_name_def)
next
  case (RegisterLatent a g)
  then have "tool_name g \<notin> known (assemble ord a)" by (simp add: assemble_known [OF assms(1)])
  with RegisterLatent show ?case
    by (auto simp: add_latent_handler_def insert_latent_eq tool_name_def known_def fmlookup_dom_iff)
next
  case (Merge a b)
  have disj: "tool_name h \<notin> known (assemble ord b)" if "h \<in> set (registered a)"
    using Merge.prems(1) that by (auto simp: assemble_known [OF assms(1)])
  have disj': "tool_name h \<notin> known (assemble ord a)" if "h \<in> set (registered b)"
    using Merge.prems(1) that by (auto simp: assemble_known [OF assms(1)])
  from Merge.prems(2) show ?case
  proof (cases "h \<in> set (registered a)")
    case True
    with Merge disj show ?thesis by (auto simp: merge_simps [OF assms(1)] known_def)
  next
    case False
    with Merge disj' show ?thesis
      by (auto simp: merge_simps [OF assms(1)] known_def map_add_def fmlookup_dom_iff split: option.splits)
  qed
qed

text \<open>
  C6. No tool is shadowed silently: however a dispatcher is put together from registrations and merges,
  it has no recorded collision exactly when the names of all registered tools, active and latent, are
  different, and then every registered tool is the one its name is dispatched to.
\<close>

theorem no_silent_shadowing:
  assumes "enumerates ord"
  shows "(validate_no_collisions (assemble ord a) = Ok () \<longleftrightarrow> distinct (map tool_name (registered a))) \<and>
    (validate_no_collisions (assemble ord a) = Ok () \<longrightarrow> (\<forall>h \<in> set (registered a). \<forall>i input.
       dispatch (assemble ord a) (tool_name h) i input =
         th_handle h i input (with_tool_call_id i (cd_env (assemble ord a)))))"
proof -
  have iff: "validate_no_collisions (assemble ord a) = Ok () \<longleftrightarrow> distinct (map tool_name (registered a))"
    using assemble_clean(1) [OF assms, of a] by (simp add: validate_no_collisions_def)
  have "dispatch (assemble ord a) (tool_name h) i input =
      th_handle h i input (with_tool_call_id i (cd_env (assemble ord a)))"
    if "distinct (map tool_name (registered a))" "h \<in> set (registered a)" for h i input
    using assemble_routes [OF assms that] by (intro ext) (auto simp: dispatch_def)
  with iff show ?thesis by blast
qed

theorem no_silent_shadowing_witness:
  "\<not> is_ok (validate_no_collisions (assemble sorted_list_of_fset
     (Merge (Register (Start sample_env) (named_tool ''x'' 1)) (RegisterLatent (Start sample_env) (named_tool ''x'' 2)))))"
proof -
  let ?a = "Merge (Register (Start sample_env) (named_tool ''x'' 1)) (RegisterLatent (Start sample_env) (named_tool ''x'' 2))"
  have "\<not> distinct (map tool_name (registered ?a))" by (simp add: tool_name_def named_tool_def)
  then have "validate_no_collisions (assemble sorted_list_of_fset ?a) \<noteq> Ok ()"
    using no_silent_shadowing [OF sorted_enumerates, of ?a] by blast
  then show ?thesis
    by (cases "validate_no_collisions (assemble sorted_list_of_fset ?a)") (simp_all del: assemble.simps)
qed

section \<open>Layers and validation\<close>

text \<open>
  The stack the runtime puts around a composed dispatcher gates every active tool: a call to one is
  the call of its handler wrapped by the guard, the approval and the tracing layers; an unknown name is
  an error that changes nothing, and the advertised definitions stay the same. A latent tool is called
  without them.
\<close>

theorem runtime_stack_gates_active_tools:
  "let g = traced (approval rt policy store (guarded d)) in
   (\<forall>name i input w. dispatch g name i input w =
      (case fmlookup (cd_handlers d) name of
         Some h \<Rightarrow> th_handle (tool_stack rt policy store h) i input (with_tool_call_id i (cd_env d)) w
       | None \<Rightarrow>
           (case fmlookup (cd_latent_handlers d) name of
              Some h \<Rightarrow> th_handle h i input (with_tool_call_id i (cd_env d)) w
            | None \<Rightarrow> (tool_error i (''Unknown tool: '' @ name), w)))) \<and>
   tool_definitions ord g = tool_definitions ord d \<and> cd_collisions g = cd_collisions d"
proof -
  let ?g = "traced (approval rt policy store (guarded d))"
  have stack: "tool_stack rt policy store = (\<lambda>h. traced_layer (approval_layer rt policy store (guarded_layer h)))"
    by (rule ext) (simp add: tool_stack_def layer_then_def)
  have handlers: "cd_handlers ?g = fmmap (tool_stack rt policy store) (cd_handlers d)"
    unfolding stack
    by (rule fmap_ext) (simp add: traced_def approval_def guarded_def layer_def option.map_comp comp_def)
  have rest: "cd_latent_handlers ?g = cd_latent_handlers d" "cd_env ?g = cd_env d" "cd_collisions ?g = cd_collisions d"
    by (simp_all add: traced_def approval_def guarded_def layer_def)
  have "map (\<lambda>(_, h). th_definition h) (entries ord (fmmap (tool_stack rt policy store) m)) =
      map (\<lambda>(_, h). th_definition h) (entries ord m)" for m
  proof -
    have "map (\<lambda>(_, h). th_definition h) (List.map_filter (\<lambda>k. map_option (Pair k) (fmlookup (fmmap (tool_stack rt policy store) m) k)) ks) =
      map (\<lambda>(_, h). th_definition h) (List.map_filter (\<lambda>k. map_option (Pair k) (fmlookup m k)) ks)" for ks
      by (induction ks) (auto simp: map_filter_simps split: option.splits)
    then show ?thesis by (simp add: entries_def)
  qed
  then show ?thesis
    by (simp add: dispatch_def handlers rest tool_definitions_def Let_def split: option.splits)
qed

text \<open>
  Latent tools are dispatched too, and the layers leave them alone: an executable latent tool runs
  without the approval its policy asks for.
\<close>

lemma latent_tool_bypasses_approval:
  "let d = traced (approval (host_deciding OutcomeReject) always_ask im_pending_store
         (guarded (add_latent_handler counting_tool (dispatcher_new sample_env))));
       (r, w) = dispatch d ''pay'' ''c1'' JNull sample_world
   in \<not> tcr_is_error r \<and> tw_sys w = 1 \<and> bc_sent (tw_sink w) = []"
proof -
  have "fmlookup (cd_handlers (add_latent_handler counting_tool (dispatcher_new sample_env))) ''pay'' = None"
    "fmlookup (cd_latent_handlers (add_latent_handler counting_tool (dispatcher_new sample_env))) ''pay'' = Some counting_tool"
    by (simp_all add: add_latent_handler_def insert_latent_eq dispatcher_new_def counting_tool_def)
  then show ?thesis
    by (simp add: dispatch_def traced_def approval_def guarded_def layer_def)
      (simp add: counting_tool_def tool_success_def sample_world_def broadcast_new_def)
qed

definition requirements_met :: "('k, 'n, 'l) ToolEnvironment \<Rightarrow> ('d, 'k, 'p, 'n, 'l) ToolHandler \<Rightarrow> bool" where
  "requirements_met env h \<longleftrightarrow> (\<forall>r \<in> set (tm_required (th_manifest h)). er_type_id r |\<in>| env_extensions env)"

lemma missing_extensions_empty: "missing_extensions env h = [] \<longleftrightarrow> requirements_met env h"
  by (auto simp: missing_extensions_def manifest_validate_def requirements_met_def Let_def filter_empty_conv)

lemma validate_extensions_iff:
  assumes "enumerates ord"
  shows "validate_extensions ord d = Ok () \<longleftrightarrow>
    (\<forall>h. h |\<in>| fmran (cd_handlers d) |\<union>| fmran (cd_latent_handlers d) \<longrightarrow> requirements_met (cd_env d) h)"
proof -
  have "validate_extensions ord d = Ok () \<longleftrightarrow>
      (\<forall>kv \<in> set (entries ord (cd_handlers d)). requirements_met (cd_env d) (snd kv)) \<and>
      (\<forall>kv \<in> set (entries ord (cd_latent_handlers d)). requirements_met (cd_env d) (snd kv))"
    by (simp add: validate_extensions_def Let_def missing_extensions_empty case_prod_beta)
  then show ?thesis unfolding entries_ran [OF assms] by auto
qed

text \<open>
  Building is strict: a dispatcher is accepted exactly when no name was registered twice and every
  extension a tool, active or latent, declares as required is in the environment; it is then returned
  unchanged. Collisions are reported before missing extensions.
\<close>

theorem try_build_exact:
  assumes "enumerates ord"
  shows "(try_build ord d = Ok d' \<longleftrightarrow> d' = d \<and> cd_collisions d = [] \<and>
      (\<forall>h. h |\<in>| fmran (cd_handlers d) |\<union>| fmran (cd_latent_handlers d) \<longrightarrow> requirements_met (cd_env d) h)) \<and>
    (cd_collisions d \<noteq> [] \<longrightarrow> try_build ord d = Err (Collisions (cd_collisions d)))"
  unfolding validate_extensions_iff [OF assms, symmetric]
  by (cases "validate_extensions ord d") (auto simp: try_build_def)

theorem try_build_exact_witness:
  "try_build sorted_list_of_fset (add_handler
     (counting_tool\<lparr>th_manifest := manifest_requires \<lparr>er_description = [], er_type_id = ''db'', er_type_name = ''Db''\<rparr> manifest_new\<rparr>)
     (dispatcher_new sample_env)) \<noteq>
   Ok (dispatcher_new sample_env)"
proof -
  let ?h = "counting_tool\<lparr>th_manifest := manifest_requires \<lparr>er_description = [], er_type_id = ''db'', er_type_name = ''Db''\<rparr> manifest_new\<rparr>"
  have "fmlookup (cd_handlers (add_handler ?h (dispatcher_new sample_env))) (tool_name ?h) = Some ?h"
    by (simp add: add_handler_def insert_active_eq dispatcher_new_def tool_name_def)
  then have "?h |\<in>| fmran (cd_handlers (add_handler ?h (dispatcher_new sample_env)))" by (rule fmranI)
  moreover have "\<not> requirements_met (cd_env (add_handler ?h (dispatcher_new sample_env))) ?h"
    by (simp add: requirements_met_def manifest_requires_def manifest_new_def add_handler_def insert_active_eq
        dispatcher_new_def sample_env_def)
  ultimately show ?thesis
    using try_build_exact [OF sorted_enumerates, of "add_handler ?h (dispatcher_new sample_env)" "dispatcher_new sample_env"]
    by auto
qed

text \<open>
  The tracing and guard layers replace the manifest of the handler by the empty one, so validating after
  the layers are applied finds nothing missing.
\<close>

lemma layers_hide_requirements:
  assumes "enumerates ord" "cd_latent_handlers d = fmempty"
  shows "validate_extensions ord (traced d) = Ok ()" "validate_extensions ord (guarded d) = Ok ()"
  using assms(2)
  by (auto simp: validate_extensions_iff [OF assms(1)] fmlookup_ran_iff traced_def guarded_def layer_def
      requirements_met_def traced_layer_def guarded_layer_def manifest_new_def)

end
