(* ===== verification/Request_Tools.thy ===== *)
theory Request_Tools
  imports Tool_Dispatcher
begin

text \<open>
  Tool overrides of a single request: \<open>crates/agent-fw-core/src/tool_overrides.rs\<close> and
  \<open>tool_registry_overrides.rs\<close>, and the dispatcher that applies them,
  \<open>crates/agent-fw-agent/src/request_scoped_tools.rs\<close>.

  A \<open>BTreeSet\<close> of strings collected into a vector is the sorted list without duplicates; a \<open>BTreeMap\<close>
  is a finite map read in the order of its keys.
\<close>

section \<open>Overrides\<close>

definition non_empty_trimmed :: "string \<Rightarrow> string option" where
  "non_empty_trimmed s = (let t = trim_str s in if t = [] then None else Some t)"

definition normalize_tool_name_list :: "string list \<Rightarrow> string list" where
  "normalize_tool_name_list names = sort (remdups (List.map_filter non_empty_trimmed names))"

record ToolDispatchOverrides =
  do_description_overrides :: "(string, string) fmap"
  do_enabled_tools :: "string list"
  do_disabled_tools :: "string list"

definition trim_entry :: "string \<times> string \<Rightarrow> (string \<times> string) option" where
  "trim_entry e =
     (let tool = trim_str (fst e); description = trim_str (snd e)
      in if tool \<noteq> [] \<and> description \<noteq> [] then Some (tool, description) else None)"

definition dispatch_normalized :: "ToolDispatchOverrides \<Rightarrow> ToolDispatchOverrides" where
  "dispatch_normalized ov =
     \<lparr>do_description_overrides =
        fmap_of_list (rev (List.map_filter trim_entry (entries sorted_list_of_fset (do_description_overrides ov)))),
      do_enabled_tools = normalize_tool_name_list (do_enabled_tools ov),
      do_disabled_tools = normalize_tool_name_list (do_disabled_tools ov)\<rparr>"

definition dispatch_default :: ToolDispatchOverrides where
  "dispatch_default = \<lparr>do_description_overrides = fmempty, do_enabled_tools = [], do_disabled_tools = []\<rparr>"

definition dispatch_is_empty :: "ToolDispatchOverrides \<Rightarrow> bool" where
  "dispatch_is_empty ov \<longleftrightarrow>
     do_description_overrides ov = fmempty \<and> do_enabled_tools ov = [] \<and> do_disabled_tools ov = []"

definition sorted_inter :: "string list \<Rightarrow> string list \<Rightarrow> string list" where
  "sorted_inter xs ys = filter (\<lambda>x. x \<in> set ys) (sort (remdups xs))"

definition overlapping_tools :: "ToolDispatchOverrides \<Rightarrow> string list" where
  "overlapping_tools ov = sorted_inter (do_enabled_tools ov) (do_disabled_tools ov)"

definition allows_tool :: "ToolDispatchOverrides \<Rightarrow> string \<Rightarrow> bool" where
  "allows_tool ov name =
     (if name \<in> set (do_disabled_tools ov) then False
      else do_enabled_tools ov = [] \<or> name \<in> set (do_enabled_tools ov))"

datatype ToolRegistryAddSource = LatentRegistry (latent_tool_id: string)

definition source_normalized :: "ToolRegistryAddSource \<Rightarrow> ToolRegistryAddSource option" where
  "source_normalized src = map_option LatentRegistry (non_empty_trimmed (latent_tool_id src))"

record ToolRegistryAddSpec =
  add_tool_name :: string
  add_description :: "string option"
  add_source :: "ToolRegistryAddSource option"

record ToolRegistryRenameSpec =
  ren_from_name :: string
  ren_to_name :: string

record ToolRegistryOverride =
  ro_add_tools :: "ToolRegistryAddSpec list"
  ro_remove_tools :: "string list"
  ro_enable_tools :: "string list"
  ro_disable_tools :: "string list"
  ro_rename_tools :: "ToolRegistryRenameSpec list"

definition add_normalized :: "ToolRegistryAddSpec \<Rightarrow> ToolRegistryAddSpec option" where
  "add_normalized a =
     (let name = trim_str (add_tool_name a)
      in if name = [] then None
         else Some \<lparr>add_tool_name = name,
                    add_description = Option.bind (add_description a) non_empty_trimmed,
                    add_source = Option.bind (add_source a) source_normalized\<rparr>)"

definition rename_normalized :: "ToolRegistryRenameSpec \<Rightarrow> ToolRegistryRenameSpec option" where
  "rename_normalized r =
     (let from_name = trim_str (ren_from_name r); to_name = trim_str (ren_to_name r)
      in if from_name \<noteq> [] \<and> to_name \<noteq> [] \<and> from_name \<noteq> to_name
         then Some \<lparr>ren_from_name = from_name, ren_to_name = to_name\<rparr> else None)"

definition registry_normalized :: "ToolRegistryOverride \<Rightarrow> ToolRegistryOverride" where
  "registry_normalized ro =
     \<lparr>ro_add_tools = List.map_filter add_normalized (ro_add_tools ro),
      ro_remove_tools = normalize_tool_name_list (ro_remove_tools ro),
      ro_enable_tools = normalize_tool_name_list (ro_enable_tools ro),
      ro_disable_tools = normalize_tool_name_list (ro_disable_tools ro),
      ro_rename_tools = List.map_filter rename_normalized (ro_rename_tools ro)\<rparr>"

definition registry_default :: ToolRegistryOverride where
  "registry_default = \<lparr>ro_add_tools = [], ro_remove_tools = [], ro_enable_tools = [], ro_disable_tools = [],
     ro_rename_tools = []\<rparr>"

definition registry_is_empty :: "ToolRegistryOverride \<Rightarrow> bool" where
  "registry_is_empty ro \<longleftrightarrow> ro_add_tools ro = [] \<and> ro_remove_tools ro = [] \<and> ro_enable_tools ro = [] \<and>
     ro_disable_tools ro = [] \<and> ro_rename_tools ro = []"

definition conflicting_tools :: "ToolRegistryOverride \<Rightarrow> string list" where
  "conflicting_tools ro =
     sort (remdups (sorted_inter (map add_tool_name (ro_add_tools ro)) (ro_remove_tools ro) @
       sorted_inter (ro_enable_tools ro) (ro_disable_tools ro)))"

definition non_executable_add_tools :: "ToolRegistryOverride \<Rightarrow> string list" where
  "non_executable_add_tools ro = map add_tool_name (filter (\<lambda>a. add_source a = None) (ro_add_tools ro))"

section \<open>The request-scoped dispatcher\<close>

text \<open>The methods of the dispatcher trait the overrides are applied to.\<close>

record ('w, 'n) ToolDispatcher =
  dp_definitions :: "'n ToolDefinition list"
  dp_latent_definitions :: "'n ToolDefinition list"
  dp_dispatch :: "string \<Rightarrow> string \<Rightarrow> 'n json \<Rightarrow> 'w \<Rightarrow> 'n ToolCallResult \<times> 'w"

datatype RequestScopedToolOverrideError =
    UnsupportedToolRegistryAdd
  | UnknownLatentTool string
  | ConflictingToolRegistry string
  | DuplicateVisibleToolName string

fun override_error_code :: "RequestScopedToolOverrideError \<Rightarrow> string" where
  "override_error_code UnsupportedToolRegistryAdd = ''UNSUPPORTED_TOOL_REGISTRY_ADD''"
| "override_error_code (UnknownLatentTool _) = ''UNKNOWN_LATENT_TOOL''"
| "override_error_code (ConflictingToolRegistry _) = ''INVALID_TOOL_REGISTRY_OVERRIDE''"
| "override_error_code (DuplicateVisibleToolName _) = ''INVALID_TOOL_REGISTRY_OVERRIDE''"

definition registry_allows_tool :: "ToolRegistryOverride \<Rightarrow> string \<Rightarrow> bool" where
  "registry_allows_tool ro name =
     (if name \<in> set (ro_remove_tools ro) then False
      else if ro_enable_tools ro \<noteq> [] \<and> name \<notin> set (ro_enable_tools ro) then False
      else name \<notin> set (ro_disable_tools ro))"

definition registry_visible_name :: "ToolRegistryOverride \<Rightarrow> string \<Rightarrow> string option" where
  "registry_visible_name ro original =
     map_option ren_to_name (List.find (\<lambda>r. ren_from_name r = original) (ro_rename_tools ro))"

definition registry_original_name :: "ToolRegistryOverride \<Rightarrow> string \<Rightarrow> string option" where
  "registry_original_name ro visible =
     map_option ren_from_name (List.find (\<lambda>r. ren_to_name r = visible) (ro_rename_tools ro))"

definition registry_renamed_to :: "ToolRegistryOverride \<Rightarrow> string \<Rightarrow> string option" where
  "registry_renamed_to ro original =
     map_option ren_to_name (List.find (\<lambda>r. ren_from_name r = original) (ro_rename_tools ro))"

definition registry_added_source_name :: "ToolRegistryOverride \<Rightarrow> string \<Rightarrow> string option" where
  "registry_added_source_name ro visible =
     Option.bind (List.find (\<lambda>a. add_tool_name a = visible) (ro_add_tools ro))
       (\<lambda>a. map_option latent_tool_id (add_source a))"

fun check_visible_names ::
  "ToolRegistryOverride \<Rightarrow> string list \<Rightarrow> string set \<Rightarrow> (RequestScopedToolOverrideError, string set) result" where
  "check_visible_names ro [] visible = Ok visible"
| "check_visible_names ro (original # names) visible =
     (if \<not> registry_allows_tool ro original then check_visible_names ro names visible
      else let v = unwrap_or original (registry_visible_name ro original)
           in if v \<in> visible then Err (DuplicateVisibleToolName v)
              else check_visible_names ro names (insert v visible))"

fun check_added_tools ::
  "string list \<Rightarrow> ToolRegistryAddSpec list \<Rightarrow> string set \<Rightarrow> (RequestScopedToolOverrideError, unit) result" where
  "check_added_tools latent [] visible = Ok ()"
| "check_added_tools latent (a # as) visible =
     (case add_source a of
        None \<Rightarrow> Err UnsupportedToolRegistryAdd
      | Some src \<Rightarrow>
          if latent_tool_id src \<notin> set latent then Err (UnknownLatentTool (latent_tool_id src))
          else if add_tool_name a \<in> visible then Err (DuplicateVisibleToolName (add_tool_name a))
          else check_added_tools latent as (insert (add_tool_name a) visible))"

definition validate_tool_registry_runtime_override ::
  "('w, 'n) ToolDispatcher \<Rightarrow> ToolRegistryOverride \<Rightarrow> (RequestScopedToolOverrideError, unit) result" where
  "validate_tool_registry_runtime_override d ro =
     (if registry_is_empty ro then Ok ()
      else if conflicting_tools ro \<noteq> [] then Err (ConflictingToolRegistry (join_with '', '' (conflicting_tools ro)))
      else case check_visible_names ro (map td_name (dp_definitions d)) {} of
             Err e \<Rightarrow> Err e
           | Ok visible \<Rightarrow> check_added_tools (map td_name (dp_latent_definitions d)) (ro_add_tools ro) visible)"

definition apply_tool_override_to_definition ::
  "ToolDispatchOverrides \<Rightarrow> ToolRegistryOverride \<Rightarrow> 'n ToolDefinition \<Rightarrow> 'n ToolDefinition option" where
  "apply_tool_override_to_definition ov ro d =
     (let original = td_name d
      in if \<not> registry_allows_tool ro original then None
         else if \<not> allows_tool ov original then None
         else Some (d\<lparr>td_description := unwrap_or (td_description d) (fmlookup (do_description_overrides ov) original),
                      td_name := unwrap_or original (registry_visible_name ro original)\<rparr>))"

definition apply_added_tool_definition ::
  "ToolDispatchOverrides \<Rightarrow> ToolRegistryOverride \<Rightarrow> 'n ToolDefinition \<Rightarrow> 'n ToolDefinition option" where
  "apply_added_tool_definition ov ro d =
     (case List.find (\<lambda>a. map_option latent_tool_id (add_source a) = Some (td_name d)) (ro_add_tools ro) of
        None \<Rightarrow> None
      | Some a \<Rightarrow>
          Some (d\<lparr>td_description := unwrap_or
                    (unwrap_or (td_description d) (fmlookup (do_description_overrides ov) (td_name d))) (add_description a),
                  td_name := add_tool_name a\<rparr>))"

definition quoted :: "string \<Rightarrow> string" where
  "quoted s = [CHR 0x27] @ s @ [CHR 0x27]"

definition scoped_dispatch ::
  "('w, 'n) ToolDispatcher \<Rightarrow> ToolDispatchOverrides \<Rightarrow> ToolRegistryOverride \<Rightarrow> string \<Rightarrow> string \<Rightarrow> 'n json \<Rightarrow> 'w \<Rightarrow>
   'n ToolCallResult \<times> 'w" where
  "scoped_dispatch base ov ro name i input w =
     (case registry_added_source_name ro name of
        Some source_name \<Rightarrow> dp_dispatch base source_name i input w
      | None \<Rightarrow>
          (case registry_renamed_to ro name of
             Some renamed_to \<Rightarrow>
               (tool_error i (''tool '' @ quoted name @ '' is renamed to '' @ quoted renamed_to @ '' for this request''), w)
           | None \<Rightarrow>
               let resolved = unwrap_or name (registry_original_name ro name);
                   refused = (tool_error i (''tool '' @ quoted name @ '' is disabled for this request''), w)
               in if \<not> registry_allows_tool ro resolved then refused
                  else if \<not> allows_tool ov resolved then refused
                  else dp_dispatch base resolved i input w))"

definition request_scoped ::
  "('w, 'n) ToolDispatcher \<Rightarrow> ToolDispatchOverrides \<Rightarrow> ToolRegistryOverride \<Rightarrow> ('w, 'n) ToolDispatcher" where
  "request_scoped base ov ro =
     \<lparr>dp_definitions =
        List.map_filter (apply_tool_override_to_definition ov ro) (dp_definitions base) @
        List.map_filter (apply_added_tool_definition ov ro) (dp_latent_definitions base),
      dp_latent_definitions =
        (let activated = List.map_filter (\<lambda>a. map_option latent_tool_id (add_source a)) (ro_add_tools ro)
         in filter (\<lambda>d. td_name d \<notin> set activated) (dp_latent_definitions base)),
      dp_dispatch = scoped_dispatch base ov ro\<rparr>"

definition apply_request_scoped_tool_overrides ::
  "('w, 'n) ToolDispatcher \<Rightarrow> ToolDispatchOverrides option \<Rightarrow> ToolRegistryOverride option \<Rightarrow>
   (RequestScopedToolOverrideError, ('w, 'n) ToolDispatcher) result" where
  "apply_request_scoped_tool_overrides d ov ro =
     (let ov = unwrap_or dispatch_default (map_option dispatch_normalized ov);
          ro = unwrap_or registry_default (map_option registry_normalized ro)
      in if dispatch_is_empty ov \<and> registry_is_empty ro then Ok d
         else case validate_tool_registry_runtime_override d ro of
                Err e \<Rightarrow> Err e
              | Ok _ \<Rightarrow> Ok (request_scoped d ov ro))"

section \<open>Normalisation\<close>

lemma trim_str_idem [simp]: "trim_str (trim_str s) = trim_str s"
proof -
  let ?t = "dropWhile is_whitespace s"
  let ?u = "rev (dropWhile is_whitespace (rev ?t))"
  have "dropWhile is_whitespace ?u = ?u"
  proof (cases ?u)
    case (Cons c cs)
    have "rev (dropWhile is_whitespace (rev xs)) = c # cs \<Longrightarrow> \<exists>ys. xs = c # ys" for xs
      using arg_cong [where f = rev, OF takeWhile_dropWhile_id [of is_whitespace "rev xs"]]
      by (metis append_Cons rev_append rev_rev_ident)
    with Cons obtain ys where "?t = c # ys" by blast
    then have "\<not> is_whitespace c" using hd_dropWhile [of is_whitespace s] by simp
    with Cons show ?thesis by simp
  next
    case Nil
    then show ?thesis by (simp only: Nil) simp
  qed
  then show ?thesis by (simp add: trim_str_def dropWhile_idem)
qed

lemma map_filter_idem:
  assumes "\<And>x y. f x = Some y \<Longrightarrow> f y = Some y"
  shows "List.map_filter f (List.map_filter f xs) = List.map_filter f xs"
  by (induction xs) (auto simp: map_filter_simps assms split: option.splits)

lemma map_filter_fixed:
  assumes "\<And>x. x \<in> set xs \<Longrightarrow> f x = Some x"
  shows "List.map_filter f xs = xs"
  using assms by (induction xs) (auto simp: map_filter_simps)

lemma non_empty_trimmed_idem: "non_empty_trimmed s = Some t \<Longrightarrow> non_empty_trimmed t = Some t"
  by (auto simp: non_empty_trimmed_def Let_def split: if_splits)

lemma normalize_list_idem [simp]: "normalize_tool_name_list (normalize_tool_name_list xs) = normalize_tool_name_list xs"
proof -
  have "List.map_filter non_empty_trimmed (normalize_tool_name_list xs) = normalize_tool_name_list xs"
    by (rule map_filter_fixed)
      (auto simp: normalize_tool_name_list_def in_set_map_filter_iff dest: non_empty_trimmed_idem)
  moreover have "distinct (normalize_tool_name_list xs)" "sorted (normalize_tool_name_list xs)"
    by (simp_all add: normalize_tool_name_list_def)
  ultimately show ?thesis
    using sorted_sort_id [of "normalize_tool_name_list xs"]
    by (metis distinct_remdups_id normalize_tool_name_list_def)
qed

lemma bind_trimmed [simp]: "Option.bind (non_empty_trimmed s) non_empty_trimmed = non_empty_trimmed s"
  by (cases "non_empty_trimmed s") (auto dest: non_empty_trimmed_idem)

lemma bind_source [simp]: "Option.bind (source_normalized a) source_normalized = source_normalized a"
  by (cases "non_empty_trimmed (latent_tool_id a)") (auto simp: source_normalized_def dest: non_empty_trimmed_idem)

lemma add_normalized_idem: "add_normalized a = Some b \<Longrightarrow> add_normalized b = Some b"
  by (auto simp: add_normalized_def Let_def split: if_splits)

lemma rename_normalized_idem: "rename_normalized r = Some r' \<Longrightarrow> rename_normalized r' = Some r'"
  by (auto simp: rename_normalized_def Let_def split: if_splits)

lemma trim_entry_idem: "trim_entry e = Some e' \<Longrightarrow> trim_entry e' = Some e'"
  by (auto simp: trim_entry_def Let_def split: if_splits)

lemma descriptions_normalized_idem:
  fixes m :: "(string, string) fmap"
  defines "norm \<equiv> \<lambda>m. fmap_of_list (rev (List.map_filter trim_entry (entries sorted_list_of_fset m)))"
  shows "norm (norm m) = norm m"
proof -
  have "trim_entry e = Some e" if "e \<in> set (entries sorted_list_of_fset (norm m))" for e
  proof -
    have "fmlookup (norm m) (fst e) = Some (snd e)"
      using that entries_set [OF sorted_enumerates, of "fst e" "snd e" "norm m"] by simp
    then have "(fst e, snd e) \<in> set (List.map_filter trim_entry (entries sorted_list_of_fset m))"
      using map_of_SomeD by (fastforce simp: norm_def fmlookup_of_list)
    then show ?thesis by (auto simp: in_set_map_filter_iff dest: trim_entry_idem)
  qed
  then have "List.map_filter trim_entry (entries sorted_list_of_fset (norm m)) = entries sorted_list_of_fset (norm m)"
    by (rule map_filter_fixed)
  then show ?thesis
    using entries_restore [OF sorted_enumerates, of "norm m"] by (simp add: norm_def [THEN meta_eq_to_obj_eq, THEN fun_cong, of "norm m"])
qed

text \<open>
  Normalising overrides is idempotent: every list is then sorted and without duplicates, every name
  is trimmed and not empty, so that an override that was normalised once is read the same way again.
\<close>

theorem overrides_normalized_idem:
  "registry_normalized (registry_normalized ro) = registry_normalized ro \<and>
   dispatch_normalized (dispatch_normalized ov) = dispatch_normalized ov \<and>
   sorted (ro_disable_tools (registry_normalized ro)) \<and> distinct (ro_disable_tools (registry_normalized ro)) \<and>
   (\<forall>name. name \<in> set (ro_disable_tools (registry_normalized ro)) \<longleftrightarrow>
      name \<noteq> [] \<and> name \<in> trim_str ` set (ro_disable_tools ro))"
proof -
  have "registry_normalized (registry_normalized ro) = registry_normalized ro"
    using map_filter_idem [of add_normalized] map_filter_idem [of rename_normalized] add_normalized_idem rename_normalized_idem
    by (simp add: registry_normalized_def)
  moreover have "dispatch_normalized (dispatch_normalized ov) = dispatch_normalized ov"
    using descriptions_normalized_idem by (simp add: dispatch_normalized_def)
  ultimately show ?thesis
    by (auto simp: registry_normalized_def normalize_tool_name_list_def in_set_map_filter_iff non_empty_trimmed_def Let_def
        split: if_splits)
qed

section \<open>Routing\<close>

text \<open>
  Renames that cannot be confused: different targets, and no target that is the source of a rename or
  the name of a tool of the base dispatcher.
\<close>

definition clean_renames :: "('w, 'n) ToolDispatcher \<Rightarrow> ToolRegistryOverride \<Rightarrow> bool" where
  "clean_renames base ro \<longleftrightarrow>
     distinct (map ren_to_name (ro_rename_tools ro)) \<and>
     set (map ren_to_name (ro_rename_tools ro)) \<inter> set (map ren_from_name (ro_rename_tools ro)) = {} \<and>
     set (map ren_to_name (ro_rename_tools ro)) \<inter> set (map td_name (dp_definitions base)) = {}"

definition visible_of :: "ToolRegistryOverride \<Rightarrow> string \<Rightarrow> string" where
  "visible_of ro original = unwrap_or original (registry_visible_name ro original)"

lemma find_SomeD: "List.find P xs = Some x \<Longrightarrow> x \<in> set xs \<and> P x"
  by (auto simp: find_Some_iff)

lemma visible_of_cases:
  obtains "visible_of ro name = name" "\<And>r. r \<in> set (ro_rename_tools ro) \<Longrightarrow> ren_from_name r \<noteq> name"
  | r where "r \<in> set (ro_rename_tools ro)" "ren_from_name r = name" "visible_of ro name = ren_to_name r"
proof (cases "List.find (\<lambda>r. ren_from_name r = name) (ro_rename_tools ro)")
  case None
  then have "visible_of ro name = name" by (simp add: visible_of_def registry_visible_name_def)
  with None show ?thesis using that(1) by (auto simp: find_None_iff)
next
  case (Some r)
  then show ?thesis using that(2) find_SomeD [OF Some] by (auto simp: visible_of_def registry_visible_name_def)
qed

lemma original_name_visible:
  assumes "clean_renames base ro" "name \<in> td_name ` set (dp_definitions base)"
  shows "unwrap_or (visible_of ro name) (registry_original_name ro (visible_of ro name)) = name"
    and "registry_renamed_to ro (visible_of ro name) = None"
proof -
  note clean = assms [unfolded clean_renames_def]
  have "unwrap_or (visible_of ro name) (registry_original_name ro (visible_of ro name)) = name \<and>
    registry_renamed_to ro (visible_of ro name) = None"
  proof (cases rule: visible_of_cases [of ro name])
    case 1
    then have "ren_to_name r \<noteq> name" if "r \<in> set (ro_rename_tools ro)" for r
      using clean that by auto
    with 1 show ?thesis
      by (auto simp: registry_original_name_def registry_renamed_to_def find_None_iff [THEN iffD2])
  next
    case (2 r)
    then have "ren_from_name r' \<noteq> ren_to_name r" if "r' \<in> set (ro_rename_tools ro)" for r'
      using clean that by force
    moreover have "List.find (\<lambda>r'. ren_to_name r' = ren_to_name r) (ro_rename_tools ro) = Some r"
    proof -
      obtain r' where r': "List.find (\<lambda>r'. ren_to_name r' = ren_to_name r) (ro_rename_tools ro) = Some r'"
        using 2(1) by (cases "List.find (\<lambda>r'. ren_to_name r' = ren_to_name r) (ro_rename_tools ro)") (auto simp: find_None_iff)
      then have "r' = r"
        using find_SomeD [OF r'] 2(1) clean by (auto simp: distinct_map dest: inj_onD)
      with r' show ?thesis by simp
    qed
    ultimately show ?thesis using 2
      by (auto simp: registry_original_name_def registry_renamed_to_def find_None_iff [THEN iffD2])
  qed
  then show "unwrap_or (visible_of ro name) (registry_original_name ro (visible_of ro name)) = name"
    "registry_renamed_to ro (visible_of ro name) = None" by auto
qed

lemma check_visible_names_Ok:
  assumes "check_visible_names ro names visible = Ok visible'"
  shows "visible' = visible \<union> visible_of ro ` {n \<in> set names. registry_allows_tool ro n}"
  using assms
  by (induction ro names visible rule: check_visible_names.induct)
    (auto simp: visible_of_def Let_def split: if_splits)

lemma check_added_tools_Ok:
  assumes "check_added_tools latent as visible = Ok ()"
  shows "distinct (map add_tool_name as)" "set (map add_tool_name as) \<inter> visible = {}"
    "\<forall>a \<in> set as. \<exists>src. add_source a = Some src \<and> latent_tool_id src \<in> set latent"
  using assms
  by (induction latent as visible rule: check_added_tools.induct) (auto split: option.splits if_splits)

lemma find_by_name:
  assumes "distinct (map f xs)" "x \<in> set xs"
  shows "List.find (\<lambda>y. f y = f x) xs = Some x"
  using assms by (induction xs) auto

lemma validated:
  assumes "validate_tool_registry_runtime_override base ro = Ok ()"
  shows "distinct (map add_tool_name (ro_add_tools ro))"
    "\<And>name. name \<in> td_name ` set (dp_definitions base) \<Longrightarrow> registry_allows_tool ro name \<Longrightarrow>
       visible_of ro name \<notin> set (map add_tool_name (ro_add_tools ro))"
proof -
  show "distinct (map add_tool_name (ro_add_tools ro))"
    using assms check_added_tools_Ok(1)
    by (auto simp: validate_tool_registry_runtime_override_def registry_is_empty_def split: if_splits sum.splits)
  fix name assume name: "name \<in> td_name ` set (dp_definitions base)" "registry_allows_tool ro name"
  show "visible_of ro name \<notin> set (map add_tool_name (ro_add_tools ro))"
  proof (cases "registry_is_empty ro")
    case True
    then show ?thesis by (simp add: registry_is_empty_def)
  next
    case False
    with assms obtain vis where vis: "check_visible_names ro (map td_name (dp_definitions base)) {} = Ok vis"
      "check_added_tools (map td_name (dp_latent_definitions base)) (ro_add_tools ro) vis = Ok ()"
      by (auto simp: validate_tool_registry_runtime_override_def split: if_splits sum.splits)
    from name have "visible_of ro name \<in> vis" using check_visible_names_Ok [OF vis(1)] by auto
    with check_added_tools_Ok(2) [OF vis(2)] show ?thesis by blast
  qed
qed

lemma find_None_set: "List.find P xs = None \<longleftrightarrow> (\<forall>x \<in> set xs. \<not> P x)"
  by (auto simp: find_None_iff)

text \<open>
  C14. What a request advertises is what it runs: after a validated override with clean renames, every
  definition shown to the model belongs to a tool of the base dispatcher, and calling it by its visible
  name calls that tool, an allowed active one under its original name or an added latent one under its
  latent id.
\<close>

theorem visible_tools_route:
  assumes "validate_tool_registry_runtime_override base ro = Ok ()" "clean_renames base ro"
  shows "\<forall>v \<in> set (dp_definitions (request_scoped base ov ro)).
    \<exists>d. (d \<in> set (dp_definitions base) \<and> registry_allows_tool ro (td_name d) \<and> allows_tool ov (td_name d) \<or>
         d \<in> set (dp_latent_definitions base)) \<and> td_input_schema v = td_input_schema d \<and>
      dp_dispatch (request_scoped base ov ro) (td_name v) = dp_dispatch base (td_name d)"
proof
  fix v assume "v \<in> set (dp_definitions (request_scoped base ov ro))"
  then consider (active) d where "d \<in> set (dp_definitions base)" "apply_tool_override_to_definition ov ro d = Some v"
    | (latent) d where "d \<in> set (dp_latent_definitions base)" "apply_added_tool_definition ov ro d = Some v"
    by (auto simp: request_scoped_def in_set_map_filter_iff)
  then show "\<exists>d. (d \<in> set (dp_definitions base) \<and> registry_allows_tool ro (td_name d) \<and> allows_tool ov (td_name d) \<or>
         d \<in> set (dp_latent_definitions base)) \<and> td_input_schema v = td_input_schema d \<and>
      dp_dispatch (request_scoped base ov ro) (td_name v) = dp_dispatch base (td_name d)"
  proof cases
    case active
    then have d: "registry_allows_tool ro (td_name d)" "allows_tool ov (td_name d)" "td_name v = visible_of ro (td_name d)"
      "td_input_schema v = td_input_schema d"
      by (auto simp: apply_tool_override_to_definition_def visible_of_def Let_def split: if_splits)
    have name: "td_name d \<in> td_name ` set (dp_definitions base)" using active(1) by blast
    have "List.find (\<lambda>a. add_tool_name a = td_name v) (ro_add_tools ro) = None"
      using validated(2) [OF assms(1) name d(1)] by (force simp: d(3) find_None_set)
    then have "registry_added_source_name ro (td_name v) = None" by (simp add: registry_added_source_name_def)
    with original_name_visible [OF assms(2) name] d have
      "dp_dispatch (request_scoped base ov ro) (td_name v) = dp_dispatch base (td_name d)"
      by (intro ext) (simp add: request_scoped_def scoped_dispatch_def Let_def)
    with active d show ?thesis by blast
  next
    case latent
    then obtain a where a: "List.find (\<lambda>a. map_option latent_tool_id (add_source a) = Some (td_name d)) (ro_add_tools ro) = Some a"
      and v: "td_name v = add_tool_name a" "td_input_schema v = td_input_schema d"
      by (auto simp: apply_added_tool_definition_def split: option.splits)
    from find_SomeD [OF a] have in_adds: "a \<in> set (ro_add_tools ro)"
      and src: "map_option latent_tool_id (add_source a) = Some (td_name d)" by auto
    have "registry_added_source_name ro (td_name v) = Some (td_name d)"
      using find_by_name [OF validated(1) [OF assms(1)] in_adds] src v by (simp add: registry_added_source_name_def)
    then have "dp_dispatch (request_scoped base ov ro) (td_name v) = dp_dispatch base (td_name d)"
      by (intro ext) (simp add: request_scoped_def scoped_dispatch_def)
    with latent v show ?thesis by blast
  qed
qed

definition echo_dispatcher :: "string list \<Rightarrow> string list \<Rightarrow> (nat, nat) ToolDispatcher" where
  "echo_dispatcher names latent =
     (let def = (\<lambda>n. \<lparr>td_name = n, td_description = [], td_input_schema = JNull\<rparr>)
      in \<lparr>dp_definitions = map def names, dp_latent_definitions = map def latent,
          dp_dispatch = (\<lambda>n i input w. (tool_success i (JString n), w))\<rparr>)"

definition rename_one :: "string \<Rightarrow> string \<Rightarrow> ToolRegistryOverride" where
  "rename_one a b = registry_default\<lparr>ro_rename_tools := [\<lparr>ren_from_name = a, ren_to_name = b\<rparr>]\<rparr>"

theorem visible_tools_route_witness:
  "\<exists>n. dp_dispatch (request_scoped (echo_dispatcher [''a'', ''b''] [''l'']) dispatch_default (rename_one ''a'' ''c''))
     ''c'' ''i'' JNull 0 = (tool_success ''i'' (JString n), 0)"
proof -
  let ?base = "echo_dispatcher [''a'', ''b''] [''l'']" and ?ro = "rename_one ''a'' ''c''"
  have "validate_tool_registry_runtime_override ?base ?ro = Ok ()" "clean_renames ?base ?ro"
    by (simp_all add: validate_tool_registry_runtime_override_def registry_is_empty_def rename_one_def registry_default_def
        echo_dispatcher_def conflicting_tools_def sorted_inter_def registry_allows_tool_def registry_visible_name_def
        clean_renames_def)
  note route = visible_tools_route [OF this, of dispatch_default]
  have "\<lparr>td_name = ''c'', td_description = [], td_input_schema = JNull\<rparr> \<in> set (dp_definitions (request_scoped ?base dispatch_default ?ro))"
    by (simp add: request_scoped_def echo_dispatcher_def map_filter_simps apply_tool_override_to_definition_def
        registry_allows_tool_def rename_one_def registry_default_def allows_tool_def dispatch_default_def
        registry_visible_name_def)
  from bspec [OF route this] show ?thesis by (auto simp: echo_dispatcher_def Let_def)
qed

text \<open>
  C15. A tool that the request disables, removes or does not enable cannot run, unless it was added from
  the latent registry: the whole behaviour of the request's dispatcher is the same whatever that tool
  would do.
\<close>

theorem disallowed_tool_is_confined:
  assumes "\<not> (registry_allows_tool ro t \<and> allows_tool ov t)"
    and "\<forall>a \<in> set (ro_add_tools ro). map_option latent_tool_id (add_source a) \<noteq> Some t"
  shows "request_scoped (base\<lparr>dp_dispatch := (dp_dispatch base)(t := any)\<rparr>) ov ro =
    (request_scoped base ov ro)"
proof -
  have added: "registry_added_source_name ro name \<noteq> Some t" for name
    using assms(2) by (auto simp: registry_added_source_name_def bind_eq_Some_conv dest: find_SomeD)
  have "scoped_dispatch (base\<lparr>dp_dispatch := (dp_dispatch base)(t := any)\<rparr>) ov ro = scoped_dispatch base ov ro"
    using assms(1) added by (intro ext) (auto simp: scoped_dispatch_def Let_def split: option.splits)
  then show ?thesis by (simp add: request_scoped_def)
qed

theorem disallowed_tool_is_confined_witness:
  "request_scoped ((echo_dispatcher [''a''] [])\<lparr>dp_dispatch := (dp_dispatch (echo_dispatcher [''a''] []))(''a'' := \<lambda>i input w. (tool_error i [], Suc w))\<rparr>)
     (dispatch_default\<lparr>do_disabled_tools := [''a'']\<rparr>) registry_default =
   request_scoped (echo_dispatcher [''a''] []) (dispatch_default\<lparr>do_disabled_tools := [''a'']\<rparr>) registry_default"
  by (rule disallowed_tool_is_confined) (simp_all add: allows_tool_def registry_default_def)

text \<open>
  The renames the validation lets through can be confused: a rename onto the name of another renamed
  tool hides the first, a rename of a tool that does not exist hijacks an existing name, and an added
  tool runs although the request disables it.
\<close>

lemma rename_chain_unroutable:
  "let base = echo_dispatcher [''a'', ''b''] [];
       ro = registry_default\<lparr>ro_rename_tools := [\<lparr>ren_from_name = ''a'', ren_to_name = ''b''\<rparr>, \<lparr>ren_from_name = ''b'', ren_to_name = ''c''\<rparr>]\<rparr>
   in validate_tool_registry_runtime_override base ro = Ok () \<and>
      ''b'' \<in> td_name ` set (dp_definitions (request_scoped base dispatch_default ro)) \<and>
      tcr_is_error (fst (dp_dispatch (request_scoped base dispatch_default ro) ''b'' ''i'' JNull 0))"
  by (simp add: validate_tool_registry_runtime_override_def registry_is_empty_def registry_default_def
      echo_dispatcher_def conflicting_tools_def sorted_inter_def registry_allows_tool_def registry_visible_name_def
      request_scoped_def scoped_dispatch_def registry_added_source_name_def registry_renamed_to_def map_filter_simps
      apply_tool_override_to_definition_def allows_tool_def dispatch_default_def tool_error_def)

lemma ghost_rename_hijacks:
  "let base = echo_dispatcher [''a''] []; ro = rename_one ''ghost'' ''a''
   in validate_tool_registry_runtime_override base ro = Ok () \<and>
      ''a'' \<in> td_name ` set (dp_definitions (request_scoped base dispatch_default ro)) \<and>
      dp_dispatch (request_scoped base dispatch_default ro) ''a'' = dp_dispatch base ''ghost''"
  by (simp add: validate_tool_registry_runtime_override_def registry_is_empty_def registry_default_def rename_one_def
      echo_dispatcher_def conflicting_tools_def sorted_inter_def registry_allows_tool_def registry_visible_name_def
      request_scoped_def scoped_dispatch_def registry_added_source_name_def registry_renamed_to_def map_filter_simps
      apply_tool_override_to_definition_def allows_tool_def dispatch_default_def registry_original_name_def fun_eq_iff)

lemma added_tool_ignores_disabled:
  "let ro = registry_default\<lparr>ro_add_tools := [\<lparr>add_tool_name = ''x'', add_description = None, add_source = Some (LatentRegistry ''l'')\<rparr>]\<rparr>;
       ov = dispatch_default\<lparr>do_disabled_tools := [''l'', ''x'']\<rparr>
   in dp_dispatch (request_scoped base ov ro) ''x'' = dp_dispatch base ''l''"
  by (simp add: request_scoped_def scoped_dispatch_def registry_added_source_name_def fun_eq_iff)

end
