(* ===== verification/Search_Filter.thy ===== *)
theory Search_Filter
  imports Map_Order
begin

text \<open>
  Entity filters, \<open>crates/agent-fw-search/src\<close>: the sorted set operations of \<open>set_ops.rs\<close>, the filters
  and filter sets of \<open>filter.rs\<close> and the accumulator of \<open>filter_collector.rs\<close>.

  Decimal numbers are a type parameter, and \<open>sd\<close> prints one. Its elements are read as representations, number and
  scale together, so that different ones print differently; \<open>rust_decimal\<close> counts some of them as equal (1.0 and 1.00).
  The SHA-256 digest is a parameter too.
\<close>

section \<open>Sorted set operations\<close>

datatype SetOperation = OpUnion | OpIntersect | OpDiff

text \<open>The two indices of each loop are the suffixes of the slices not read yet.\<close>

fun union_sorted :: "'a::linorder list \<Rightarrow> 'a list \<Rightarrow> 'a list" where
  "union_sorted [] ys = ys"
| "union_sorted (x # xs) [] = x # xs"
| "union_sorted (x # xs) (y # ys) =
     (if x < y then x # union_sorted xs (y # ys)
      else if y < x then y # union_sorted (x # xs) ys
      else x # union_sorted xs ys)"

fun intersect_sorted :: "'a::linorder list \<Rightarrow> 'a list \<Rightarrow> 'a list" where
  "intersect_sorted [] ys = []"
| "intersect_sorted (x # xs) [] = []"
| "intersect_sorted (x # xs) (y # ys) =
     (if x < y then intersect_sorted xs (y # ys)
      else if y < x then intersect_sorted (x # xs) ys
      else x # intersect_sorted xs ys)"

fun diff_sorted :: "'a::linorder list \<Rightarrow> 'a list \<Rightarrow> 'a list" where
  "diff_sorted [] ys = []"
| "diff_sorted (x # xs) [] = x # xs"
| "diff_sorted (x # xs) (y # ys) =
     (if x < y then x # diff_sorted xs (y # ys)
      else if y < x then diff_sorted (x # xs) ys
      else diff_sorted xs ys)"

section \<open>Filters\<close>

datatype NumericOp = NumEq | NumNe | NumLt | NumLe | NumGt | NumGe

datatype AggOp = AggAvg | AggMin | AggMax | AggSum | AggAny

fun agg_as_str :: "AggOp \<Rightarrow> string" where
  "agg_as_str AggAvg = ''avg''"
| "agg_as_str AggMin = ''min''"
| "agg_as_str AggMax = ''max''"
| "agg_as_str AggSum = ''sum''"
| "agg_as_str AggAny = ''any''"

fun agg_sql_fn :: "AggOp \<Rightarrow> string" where
  "agg_sql_fn AggAvg = ''AVG''"
| "agg_sql_fn AggMin = ''MIN''"
| "agg_sql_fn AggMax = ''MAX''"
| "agg_sql_fn AggSum = ''SUM''"
| "agg_sql_fn AggAny = ''ANY''"

datatype ComparisonOp = CmpLt | CmpLe | CmpGt | CmpGe | CmpEq | CmpBetween

fun comparison_as_str :: "ComparisonOp \<Rightarrow> string" where
  "comparison_as_str CmpLt = ''<''"
| "comparison_as_str CmpLe = ''<=''"
| "comparison_as_str CmpGt = ''>''"
| "comparison_as_str CmpGe = ''>=''"
| "comparison_as_str CmpEq = ''=''"
| "comparison_as_str CmpBetween = ''between''"

fun to_numeric_op :: "ComparisonOp \<Rightarrow> NumericOp option" where
  "to_numeric_op CmpLt = Some NumLt"
| "to_numeric_op CmpLe = Some NumLe"
| "to_numeric_op CmpGt = Some NumGt"
| "to_numeric_op CmpGe = Some NumGe"
| "to_numeric_op CmpEq = Some NumEq"
| "to_numeric_op CmpBetween = None"

fun debug_NumericOp :: "NumericOp \<Rightarrow> string" where
  "debug_NumericOp NumEq = ''Eq''"
| "debug_NumericOp NumNe = ''Ne''"
| "debug_NumericOp NumLt = ''Lt''"
| "debug_NumericOp NumLe = ''Le''"
| "debug_NumericOp NumGt = ''Gt''"
| "debug_NumericOp NumGe = ''Ge''"

fun debug_AggOp :: "AggOp \<Rightarrow> string" where
  "debug_AggOp AggAvg = ''Avg''"
| "debug_AggOp AggMin = ''Min''"
| "debug_AggOp AggMax = ''Max''"
| "debug_AggOp AggSum = ''Sum''"
| "debug_AggOp AggAny = ''Any''"

definition display_bool :: "bool \<Rightarrow> string" where
  "display_bool b = (if b then ''true'' else ''false'')"

datatype 'v Filter =
    Matched string "string list"
  | Numeric string NumericOp 'v
  | Boolean string bool
  | Measure string AggOp NumericOp 'v

definition filter_matched :: "string \<Rightarrow> string list \<Rightarrow> 'v Filter" where
  "filter_matched column values = Matched column (remdups_adj (sort values))"

text \<open>Deserialisation reads the same variants and restores the order of the values.\<close>

fun filter_from_raw :: "'v Filter \<Rightarrow> 'v Filter" where
  "filter_from_raw (Matched column values) = Matched column (remdups_adj (sort values))"
| "filter_from_raw f = f"

fun canonical_key :: "('v \<Rightarrow> string) \<Rightarrow> 'v Filter \<Rightarrow> string" where
  "canonical_key sd (Matched column values) = ''matched:'' @ column"
| "canonical_key sd (Numeric column op v) = ''numeric:'' @ column @ '':'' @ debug_NumericOp op @ '':'' @ sd v"
| "canonical_key sd (Boolean column v) = ''boolean:'' @ column @ '':'' @ display_bool v"
| "canonical_key sd (Measure column agg op v) =
     ''measure:'' @ column @ '':'' @ debug_AggOp agg @ '':'' @ debug_NumericOp op @ '':'' @ sd v"

fun content_key :: "('v \<Rightarrow> string) \<Rightarrow> 'v Filter \<Rightarrow> string" where
  "content_key sd (Matched column values) = ''matched:'' @ column @ '':'' @ join_with '','' values"
| "content_key sd (Numeric column op v) = ''numeric:'' @ column @ '':'' @ debug_NumericOp op @ '':'' @ sd v"
| "content_key sd (Boolean column v) = ''boolean:'' @ column @ '':'' @ display_bool v"
| "content_key sd (Measure column agg op v) =
     ''measure:'' @ column @ '':'' @ debug_AggOp agg @ '':'' @ debug_NumericOp op @ '':'' @ sd v"

section \<open>Filter sets\<close>

type_synonym 'v FilterSet = "(string, 'v Filter) fmap"

definition empty_filters :: "'v FilterSet" where
  "empty_filters = fmempty"

definition singleton_filter :: "('v \<Rightarrow> string) \<Rightarrow> 'v Filter \<Rightarrow> 'v FilterSet" where
  "singleton_filter sd f = fmupd (canonical_key sd f) f fmempty"

text \<open>Collecting pairs into a \<open>BTreeMap\<close>: a later pair replaces an earlier one with its key.\<close>

definition filters_from_vec :: "('v \<Rightarrow> string) \<Rightarrow> 'v Filter list \<Rightarrow> 'v FilterSet" where
  "filters_from_vec sd fs = fold (\<lambda>f m. fmupd (canonical_key sd f) f m) fs fmempty"

definition filter_set_to_vec :: "'v FilterSet \<Rightarrow> 'v Filter list" where
  "filter_set_to_vec fs = map snd (entries sorted_list_of_fset fs)"

fun meet_single_filter :: "'v Filter \<Rightarrow> 'v Filter \<Rightarrow> 'v Filter" where
  "meet_single_filter (Matched c1 v1) (Matched c2 v2) =
     (if c1 = c2 then Matched c1 (intersect_sorted v1 v2) else Matched c2 v2)"
| "meet_single_filter a b = b"

fun join_single_filter :: "'v Filter \<Rightarrow> 'v Filter \<Rightarrow> 'v Filter" where
  "join_single_filter (Matched c1 v1) (Matched c2 v2) =
     (if c1 = c2 then Matched c1 (union_sorted v1 v2) else Matched c2 v2)"
| "join_single_filter a b = b"

fun diff_single_filter :: "'v Filter \<Rightarrow> 'v Filter \<Rightarrow> 'v Filter option" where
  "diff_single_filter (Matched c1 v1) (Matched c2 v2) =
     (if c1 = c2 then Some (Matched c1 (diff_sorted v1 v2)) else None)"
| "diff_single_filter a b = None"

definition meet_filters :: "'v FilterSet \<Rightarrow> 'v FilterSet \<Rightarrow> 'v FilterSet" where
  "meet_filters a b =
     fold (\<lambda>(key, f) r.
         case fmlookup r key of
           Some existing \<Rightarrow> fmupd key (meet_single_filter existing f) r
         | None \<Rightarrow> fmupd key f r)
       (entries sorted_list_of_fset b) a"

definition join_filters :: "'v FilterSet \<Rightarrow> 'v FilterSet \<Rightarrow> 'v FilterSet" where
  "join_filters a b =
     fold (\<lambda>(key, filter_a) r.
         case fmlookup b key of
           Some filter_b \<Rightarrow> fmupd key (join_single_filter filter_a filter_b) r
         | None \<Rightarrow> r)
       (entries sorted_list_of_fset a) fmempty"

definition diff_filters :: "'v FilterSet \<Rightarrow> 'v FilterSet \<Rightarrow> 'v FilterSet" where
  "diff_filters a b =
     fold (\<lambda>(key, filter_a) r.
         case fmlookup b key of
           Some filter_b \<Rightarrow>
             (case diff_single_filter filter_a filter_b of Some d \<Rightarrow> fmupd key d r | None \<Rightarrow> r)
         | None \<Rightarrow> fmupd key filter_a r)
       (entries sorted_list_of_fset a) fmempty"

fun matches_nothing :: "'v Filter \<Rightarrow> bool" where
  "matches_nothing (Matched column values) = (values = [])"
| "matches_nothing f = False"

definition is_contradiction :: "'v FilterSet \<Rightarrow> bool" where
  "is_contradiction fs = list_ex matches_nothing (filter_set_to_vec fs)"

definition is_tautology :: "'v FilterSet \<Rightarrow> bool" where
  "is_tautology fs = (fmdom fs = {||})"

definition hash_filters :: "('v \<Rightarrow> string) \<Rightarrow> (string \<Rightarrow> 'h) \<Rightarrow> 'v FilterSet \<Rightarrow> 'h" where
  "hash_filters sd digest fs = digest (join_with ''|'' (sort (map (content_key sd) (filter_set_to_vec fs))))"

section \<open>The collector\<close>

record 'v FilterCollector =
  fc_filters :: "'v Filter list"

definition collector_new :: "'v FilterCollector" where
  "collector_new = \<lparr>fc_filters = []\<rparr>"

definition push_filter :: "'v Filter \<Rightarrow> 'v FilterCollector \<Rightarrow> 'v FilterCollector" where
  "push_filter f c = c\<lparr>fc_filters := fc_filters c @ [f]\<rparr>"

definition push_matched :: "string \<Rightarrow> string list \<Rightarrow> 'v FilterCollector \<Rightarrow> 'v FilterCollector" where
  "push_matched column values c = (if values = [] then c else push_filter (filter_matched column values) c)"

definition push_numeric :: "string \<Rightarrow> NumericOp \<Rightarrow> 'v \<Rightarrow> 'v FilterCollector \<Rightarrow> 'v FilterCollector" where
  "push_numeric column op v c = push_filter (Numeric column op v) c"

definition push_boolean :: "string \<Rightarrow> bool \<Rightarrow> 'v FilterCollector \<Rightarrow> 'v FilterCollector" where
  "push_boolean column v c = push_filter (Boolean column v) c"

definition push_measure :: "string \<Rightarrow> AggOp \<Rightarrow> NumericOp \<Rightarrow> 'v \<Rightarrow> 'v FilterCollector \<Rightarrow> 'v FilterCollector" where
  "push_measure column agg op v c = push_filter (Measure column agg op v) c"

definition collector_build :: "('v \<Rightarrow> string) \<Rightarrow> 'v FilterCollector \<Rightarrow> 'v FilterSet" where
  "collector_build sd c = filters_from_vec sd (fc_filters c)"

definition build_hashed :: "('v \<Rightarrow> string) \<Rightarrow> (string \<Rightarrow> 'h) \<Rightarrow> 'v FilterCollector \<Rightarrow> 'v FilterSet \<times> 'h" where
  "build_hashed sd digest c = (let fs = filters_from_vec sd (fc_filters c) in (fs, hash_filters sd digest fs))"

section \<open>Set operation laws\<close>

lemma sorted_wrt_Cons_less: "sorted_wrt (<) (x # xs) \<longleftrightarrow> sorted_wrt (<) xs \<and> (\<forall>y \<in> set xs. (x::'a::linorder) < y)"
  by auto

lemma union_sorted_set [simp]: "set (union_sorted xs ys) = set xs \<union> set ys"
  by (induction xs ys rule: union_sorted.induct) auto

lemma union_sorted_sorted [simp]:
  "sorted_wrt (<) xs \<Longrightarrow> sorted_wrt (<) ys \<Longrightarrow> sorted_wrt (<) (union_sorted xs ys)"
  by (induction xs ys rule: union_sorted.induct) auto

lemma intersect_sorted_set [simp]:
  "sorted_wrt (<) xs \<Longrightarrow> sorted_wrt (<) ys \<Longrightarrow> set (intersect_sorted xs ys) = set xs \<inter> set ys"
  by (induction xs ys rule: intersect_sorted.induct) auto

lemma intersect_sorted_sorted [simp]:
  "sorted_wrt (<) xs \<Longrightarrow> sorted_wrt (<) ys \<Longrightarrow> sorted_wrt (<) (intersect_sorted xs ys)"
  by (induction xs ys rule: intersect_sorted.induct) auto

lemma diff_sorted_set [simp]:
  "sorted_wrt (<) xs \<Longrightarrow> sorted_wrt (<) ys \<Longrightarrow> set (diff_sorted xs ys) = set xs - set ys"
proof (induction xs ys rule: diff_sorted.induct)
  case (3 x xs y ys)
  have out: "a \<notin> set bs" if "sorted_wrt (<) (b # bs)" "a \<le> b" for a b :: 'a and bs
    using that by auto
  consider "x < y" | "y < x" | "x = y" by fastforce
  then show ?case
  proof cases
    case 1
    with 3 have "x \<notin> set (y # ys)" using out [of y ys x] by simp
    with 1 3 show ?thesis by (simp add: insert_Diff_if)
  next
    case 2
    with 3 have "y \<notin> set (x # xs)" using out [of x xs y] by simp
    moreover have "\<not> x < y" using 2 by simp
    ultimately show ?thesis using 2 3 by (simp add: Diff_insert0)
  next
    case 3
    with "3.prems" have "x \<notin> set xs" "x \<notin> set ys" using out [of x xs x] out [of y ys y] by simp_all
    with 3 "3.prems" "3.IH" show ?thesis by (auto simp: insert_Diff_if)
  qed
qed auto

lemma diff_sorted_sorted [simp]:
  "sorted_wrt (<) xs \<Longrightarrow> sorted_wrt (<) ys \<Longrightarrow> sorted_wrt (<) (diff_sorted xs ys)"
  by (induction xs ys rule: diff_sorted.induct) auto

lemma sorted_eqI: "sorted_wrt (<) xs \<Longrightarrow> sorted_wrt (<) ys \<Longrightarrow> set xs = set ys \<Longrightarrow> xs = (ys :: 'a::linorder list)"
  using sorted_distinct_set_unique strict_sorted_iff by blast

text \<open>
  The sorted set operations compute the union, intersection and difference of the sets of their
  operands, and the results are again strictly increasing; there is only one such list for each set.
\<close>

theorem sorted_set_ops_exact:
  assumes "sorted_wrt (<) xs" "sorted_wrt (<) (ys :: 'a::linorder list)"
  shows "union_sorted xs ys = sorted_list_of_set (set xs \<union> set ys) \<and>
    intersect_sorted xs ys = sorted_list_of_set (set xs \<inter> set ys) \<and>
    diff_sorted xs ys = sorted_list_of_set (set xs - set ys)"
  using assms by (auto intro!: sorted_eqI simp: strict_sorted_list_of_set)

theorem sorted_set_ops_exact_witness:
  "diff_sorted [1, 2, 3, 4] [2, 4 :: nat] = sorted_list_of_set {1, 3}"
  using sorted_set_ops_exact [of "[1, 2, 3, 4 :: nat]" "[2, 4]"] by (simp add: insert_Diff_if)

section \<open>The lattice of filter sets\<close>

text \<open>What is used of the printing of decimals: numbers printed alike are equal, and no colon is printed.\<close>

definition decimal_display :: "('v \<Rightarrow> string) \<Rightarrow> bool" where
  "decimal_display sd \<longleftrightarrow> inj sd \<and> (\<forall>v. CHR '':'' \<notin> set (sd v))"

text \<open>The representation invariant: every filter is under its key, and matched values are in order.\<close>

fun filter_wf :: "'v Filter \<Rightarrow> bool" where
  "filter_wf (Matched column values) = sorted_wrt (<) values"
| "filter_wf f = True"

definition filter_set_wf :: "('v \<Rightarrow> string) \<Rightarrow> 'v FilterSet \<Rightarrow> bool" where
  "filter_set_wf sd fs \<longleftrightarrow> (\<forall>k f. fmlookup fs k = Some f \<longrightarrow> k = canonical_key sd f \<and> filter_wf f)"

lemma rsplit_colon:
  assumes "xs @ CHR '':'' # us = ys @ CHR '':'' # vs" "CHR '':'' \<notin> set us" "CHR '':'' \<notin> set vs"
  shows "xs = ys \<and> us = vs"
proof -
  have "rev us @ CHR '':'' # rev xs = rev vs @ CHR '':'' # rev ys"
    using arg_cong [OF assms(1), of rev] by simp
  then show ?thesis
    using split_at_first [of "CHR '':''" "rev us" "rev vs" "rev xs" "rev ys"] assms(2,3) by simp
qed

lemma debug_NumericOp_inj [simp]: "debug_NumericOp a = debug_NumericOp b \<longleftrightarrow> a = b"
  by (cases a; cases b) simp_all

lemma debug_AggOp_inj [simp]: "debug_AggOp a = debug_AggOp b \<longleftrightarrow> a = b"
  by (cases a; cases b) simp_all

lemma no_colon [simp]:
  "CHR '':'' \<notin> set (debug_NumericOp a)" "CHR '':'' \<notin> set (debug_AggOp g)" "CHR '':'' \<notin> set (display_bool b)"
  by (cases a; simp; fail) (cases g; simp; fail | simp add: display_bool_def)+

lemma same_key_cases:
  assumes "decimal_display sd" "canonical_key sd f = canonical_key sd g"
  obtains column u v where "f = Matched column u" "g = Matched column v"
  | "f = g" "\<nexists>column u. f = Matched column u"
proof -
  have sd: "sd x = sd y \<longleftrightarrow> x = y" "CHR '':'' \<notin> set (sd x)" for x y
    using assms(1) by (auto simp: decimal_display_def inj_eq)
  have "f = g" if "\<nexists>column u. f = Matched column u"
  proof (cases f; cases g)
    fix c op v c' op' v' assume *: "f = Numeric c op v" "g = Numeric c' op' v'"
    from assms(2) have "(c @ '':'' @ debug_NumericOp op) @ CHR '':'' # sd v = (c' @ '':'' @ debug_NumericOp op') @ CHR '':'' # sd v'"
      by (simp add: *)
    from rsplit_colon [OF this sd(2) sd(2)] have "c @ CHR '':'' # debug_NumericOp op = c' @ CHR '':'' # debug_NumericOp op'" "v = v'"
      by (simp_all add: sd)
    with rsplit_colon [OF this(1)] show ?thesis by (simp add: *)
  next
    fix c b c' b' assume *: "f = Boolean c b" "g = Boolean c' b'"
    from assms(2) have "c @ CHR '':'' # display_bool b = c' @ CHR '':'' # display_bool b'" by (simp add: *)
    from rsplit_colon [OF this] have "c = c'" "display_bool b = display_bool b'" by simp_all
    then show ?thesis by (cases b; cases b') (simp_all add: * display_bool_def)
  next
    fix c agg op v c' agg' op' v' assume *: "f = Measure c agg op v" "g = Measure c' agg' op' v'"
    from assms(2) have "(c @ '':'' @ debug_AggOp agg @ '':'' @ debug_NumericOp op) @ CHR '':'' # sd v =
        (c' @ '':'' @ debug_AggOp agg' @ '':'' @ debug_NumericOp op') @ CHR '':'' # sd v'" by (simp add: *)
    from rsplit_colon [OF this sd(2) sd(2)]
    have "(c @ '':'' @ debug_AggOp agg) @ CHR '':'' # debug_NumericOp op = (c' @ '':'' @ debug_AggOp agg') @ CHR '':'' # debug_NumericOp op'"
      "v = v'" by (simp_all add: sd)
    with rsplit_colon [OF this(1)] have "c @ CHR '':'' # debug_AggOp agg = c' @ CHR '':'' # debug_AggOp agg'" "op = op'" "v = v'"
      by simp_all
    with rsplit_colon [OF this(1)] show ?thesis by (simp add: *)
  qed (use assms(2) that in auto)
  moreover have "\<exists>v. g = Matched column v" if "f = Matched column u" for column u
    using assms(2) that by (cases g) auto
  ultimately show thesis using that by metis
qed

lemma fold_pointwise:
  assumes "distinct (map fst kvs)"
    and "\<And>k f r k'. k' \<noteq> k \<Longrightarrow> fmlookup (step (k, f) r) k' = fmlookup r k'"
    and "\<And>k f r. fmlookup (step (k, f) r) k = combine k f (fmlookup r k)"
  shows "fmlookup (fold step kvs r) k =
    (case map_of kvs k of None \<Rightarrow> fmlookup r k | Some f \<Rightarrow> combine k f (fmlookup r k))"
  using assms(1)
proof (induction kvs arbitrary: r)
  case (Cons kv kvs)
  obtain k0 f0 where kv: "kv = (k0, f0)" by fastforce
  show ?case
  proof (cases "k = k0")
    case True
    with Cons.prems kv have "map_of kvs k = None" by (simp add: map_of_eq_None_iff)
    with Cons kv True show ?thesis by (simp add: assms(3))
  next
    case False
    with Cons kv show ?thesis by (simp add: assms(2) split: option.split)
  qed
qed simp

lemma distinct_sorted_entries: "distinct (map fst (entries sorted_list_of_fset (m :: (string, 'h) fmap)))"
  by (rule distinct_entries [OF sorted_enumerates])

lemma map_of_sorted_entries [simp]: "map_of (entries sorted_list_of_fset m) = fmlookup (m :: (string, 'h) fmap)"
  by (rule entries_map_of [OF sorted_enumerates])

lemma meet_lookup:
  "fmlookup (meet_filters a b) k =
     (case fmlookup b k of
        None \<Rightarrow> fmlookup a k
      | Some g \<Rightarrow> Some (case fmlookup a k of None \<Rightarrow> g | Some f \<Rightarrow> meet_single_filter f g))"
  unfolding meet_filters_def
  by (subst fold_pointwise [where combine = "\<lambda>k g x. Some (case x of None \<Rightarrow> g | Some f \<Rightarrow> meet_single_filter f g)"])
    (auto simp: distinct_sorted_entries split: option.splits)

lemma join_lookup:
  "fmlookup (join_filters a b) k =
     (case (fmlookup a k, fmlookup b k) of (Some f, Some g) \<Rightarrow> Some (join_single_filter f g) | _ \<Rightarrow> None)"
  unfolding join_filters_def
  by (subst fold_pointwise [where combine = "\<lambda>k f x. case fmlookup b k of None \<Rightarrow> x | Some g \<Rightarrow> Some (join_single_filter f g)"])
    (auto simp: distinct_sorted_entries split: option.splits)

lemma diff_lookup:
  "fmlookup (diff_filters a b) k =
     (case fmlookup a k of
        None \<Rightarrow> None
      | Some f \<Rightarrow> (case fmlookup b k of None \<Rightarrow> Some f | Some g \<Rightarrow> diff_single_filter f g))"
  unfolding diff_filters_def
  by (subst fold_pointwise [where combine = "\<lambda>k f x. case fmlookup b k of None \<Rightarrow> Some f
        | Some g \<Rightarrow> (case diff_single_filter f g of None \<Rightarrow> x | Some d \<Rightarrow> Some d)"])
    (auto simp: distinct_sorted_entries split: option.splits)

text \<open>The laws of single filters with one key.\<close>

lemma wf_values_eqI: "sorted_wrt (<) xs \<Longrightarrow> sorted_wrt (<) ys \<Longrightarrow> (\<And>x. x \<in> set xs \<longleftrightarrow> x \<in> set ys) \<Longrightarrow> xs = (ys :: string list)"
  by (rule sorted_eqI) auto

definition twins :: "'v Filter \<Rightarrow> 'v Filter \<Rightarrow> bool" where
  "twins f g \<longleftrightarrow> filter_wf f \<and> filter_wf g \<and>
     (case (f, g) of (Matched c u, Matched c' v) \<Rightarrow> c = c' | _ \<Rightarrow> f = g)"

lemma twins_lookup:
  assumes "decimal_display sd" "filter_set_wf sd a" "filter_set_wf sd b" "fmlookup a k = Some f" "fmlookup b k = Some g"
  shows "twins f g"
proof -
  have "canonical_key sd f = canonical_key sd g" "filter_wf f" "filter_wf g"
    using assms(2-5) by (auto simp: filter_set_wf_def)
  from same_key_cases [OF assms(1) this(1)] this(2,3) show ?thesis
    by (auto simp: twins_def split: Filter.splits)
qed

lemma twins_cases:
  assumes "twins f g"
  obtains c u v where "f = Matched c u" "g = Matched c v" "sorted_wrt (<) u" "sorted_wrt (<) v"
  | "g = f" "\<And>c u. f \<noteq> Matched c u"
  using assms by (cases f; cases g) (auto simp: twins_def)

lemma twins_single:
  assumes "twins f g"
  shows "meet_single_filter f g = meet_single_filter g f" "join_single_filter f g = join_single_filter g f"
    "meet_single_filter f (join_single_filter f g) = f" "join_single_filter f (meet_single_filter f g) = f"
    "meet_single_filter f f = f" "join_single_filter f f = f"
    "twins f (meet_single_filter f g)" "twins f (join_single_filter f g)" "twins g f" "twins f f"
    "canonical_key sd (meet_single_filter f g) = canonical_key sd f" "canonical_key sd (join_single_filter f g) = canonical_key sd f"
  using assms
  by (cases rule: twins_cases; auto simp: twins_def intro!: sorted_eqI split: Filter.splits; cases f; simp)+

lemma twins_triple:
  assumes "twins f g" "twins f h"
  shows "twins g h"
    "meet_single_filter (meet_single_filter f g) h = meet_single_filter f (meet_single_filter g h)"
    "join_single_filter (join_single_filter f g) h = join_single_filter f (join_single_filter g h)"
    "meet_single_filter f (join_single_filter g h) = join_single_filter (meet_single_filter f g) (meet_single_filter f h)"
  using assms
  by (cases rule: twins_cases [OF assms(1)]; cases rule: twins_cases [OF assms(2)];
      auto simp: twins_def intro!: sorted_eqI split: Filter.splits; cases f; simp)+

lemma twins_two_sided:
  assumes "twins f g"
  shows "join_single_filter (meet_single_filter f g) f = f"
  using twins_single [OF assms] twins_single(2) [OF twins_single(7) [OF assms]] by simp

lemma wf_meet:
  assumes "decimal_display sd" "filter_set_wf sd a" "filter_set_wf sd b"
  shows "filter_set_wf sd (meet_filters a b)" "filter_set_wf sd (join_filters a b)" "filter_set_wf sd (diff_filters a b)"
proof -
  have single: "k = canonical_key sd f" "filter_wf f" if "fmlookup m k = Some f" "filter_set_wf sd m" for m k f
    using that by (auto simp: filter_set_wf_def)
  have both: "canonical_key sd (meet_single_filter f g) = k \<and> filter_wf (meet_single_filter f g) \<and>
      canonical_key sd (join_single_filter f g) = k \<and> filter_wf (join_single_filter f g) \<and>
      (\<forall>d. diff_single_filter f g = Some d \<longrightarrow> canonical_key sd d = k \<and> filter_wf d)"
    if "fmlookup a k = Some f" "fmlookup b k = Some g" for k f g
  proof -
    have t: "twins f g" by (rule twins_lookup [OF assms that])
    have "\<forall>d. diff_single_filter f g = Some d \<longrightarrow> canonical_key sd d = canonical_key sd f \<and> filter_wf d"
      using t by (cases rule: twins_cases; cases f; auto)
    with t twins_single(7,8) [OF t] twins_single(11,12) [OF t, of sd] single(1) [OF that(1) assms(2)] show ?thesis
      by (simp add: twins_def)
  qed
  show "filter_set_wf sd (meet_filters a b)" "filter_set_wf sd (join_filters a b)" "filter_set_wf sd (diff_filters a b)"
    using both single assms(2,3)
    by (auto simp: filter_set_wf_def meet_lookup join_lookup diff_lookup split: option.splits)
qed

text \<open>
  C24. Well-formed filter sets form a distributive lattice whose top is the empty set, as documented:
  meet and join are commutative, associative, idempotent and absorb each other, meet distributes over
  join, the empty set is neutral for meet and absorbing for join; the operations keep the invariant that
  every filter is stored under its key with sorted values.
\<close>

theorem filter_sets_lattice:
  assumes "decimal_display sd" "filter_set_wf sd a" "filter_set_wf sd b" "filter_set_wf sd c"
  shows "meet_filters a b = meet_filters b a \<and> join_filters a b = join_filters b a \<and>
    meet_filters (meet_filters a b) c = meet_filters a (meet_filters b c) \<and>
    join_filters (join_filters a b) c = join_filters a (join_filters b c) \<and>
    meet_filters a a = a \<and> join_filters a a = a \<and>
    meet_filters a (join_filters a b) = a \<and> join_filters a (meet_filters a b) = a \<and>
    meet_filters a (join_filters b c) = join_filters (meet_filters a b) (meet_filters a c) \<and>
    meet_filters empty_filters a = a \<and> meet_filters a empty_filters = a \<and> join_filters empty_filters a = empty_filters \<and>
    filter_set_wf sd (meet_filters a b) \<and> filter_set_wf sd (join_filters a b)"
proof -
  note look = meet_lookup join_lookup
  have ab: "twins f g" if "fmlookup a k = Some f" "fmlookup b k = Some g" for k f g
    using twins_lookup [OF assms(1,2,3) that] .
  have ac: "twins f h" if "fmlookup a k = Some f" "fmlookup c k = Some h" for k f h
    using twins_lookup [OF assms(1,2,4) that] .
  have bc: "twins g h" if "fmlookup b k = Some g" "fmlookup c k = Some h" for k g h
    using twins_lookup [OF assms(1,3,4) that] .
  have aa: "twins f f" if "fmlookup a k = Some f" for k f
    using twins_lookup [OF assms(1,2,2) that that] .
  show ?thesis
  proof (intro conjI)
    show "meet_filters a b = meet_filters b a" "join_filters a b = join_filters b a"
      by (rule fmap_ext; use ab twins_single(1,2) in \<open>fastforce simp: look split: option.splits\<close>)+
    show "meet_filters (meet_filters a b) c = meet_filters a (meet_filters b c)"
      "join_filters (join_filters a b) c = join_filters a (join_filters b c)"
      by (rule fmap_ext; use ab ac twins_triple in \<open>fastforce simp: look split: option.splits\<close>)+
    show "meet_filters a a = a" "join_filters a a = a"
      by (rule fmap_ext; use aa twins_single(5,6) in \<open>fastforce simp: look split: option.splits\<close>)+
    show "meet_filters a (join_filters a b) = a" "join_filters a (meet_filters a b) = a"
      by (rule fmap_ext; use ab aa twins_single(3,4,6) in \<open>fastforce simp: look split: option.splits\<close>)+
    show "meet_filters a (join_filters b c) = join_filters (meet_filters a b) (meet_filters a c)"
      by (rule fmap_ext; use ab ac aa twins_triple(4) twins_two_sided twins_single(4,6) in
          \<open>fastforce simp: look split: option.splits\<close>)
    show "meet_filters empty_filters a = a" "meet_filters a empty_filters = a" "join_filters empty_filters a = empty_filters"
      by (rule fmap_ext; simp add: look empty_filters_def split: option.splits)+
    show "filter_set_wf sd (meet_filters a b)" "filter_set_wf sd (join_filters a b)"
      using wf_meet [OF assms(1-3)] by simp_all
  qed
qed

lemma strict_remdups_adj: "sorted xs \<Longrightarrow> sorted_wrt (<) (remdups_adj (xs :: 'a::linorder list))"
  by (induction xs rule: remdups_adj.induct) (auto simp: less_le intro: order_trans)

lemma wf_matched [simp]: "filter_wf (filter_matched column values)" "filter_wf (filter_from_raw f)"
  by (simp add: filter_matched_def strict_remdups_adj) (cases f; simp add: strict_remdups_adj)

lemma wf_upd: "filter_set_wf sd m \<Longrightarrow> filter_wf f \<Longrightarrow> filter_set_wf sd (fmupd (canonical_key sd f) f m)"
  by (auto simp: filter_set_wf_def split: if_splits)

lemma wf_fold_upd:
  "filter_set_wf sd m \<Longrightarrow> list_all filter_wf fs \<Longrightarrow> filter_set_wf sd (fold (\<lambda>f m. fmupd (canonical_key sd f) f m) fs m)"
  by (induction fs arbitrary: m) (simp_all add: wf_upd)

lemma wf_from_vec: "list_all filter_wf fs \<Longrightarrow> filter_set_wf sd (filters_from_vec sd fs)"
  unfolding filters_from_vec_def by (rule wf_fold_upd) (simp_all add: filter_set_wf_def)

text \<open>A printing of numbers that meets the condition.\<close>

definition unary_display :: "nat \<Rightarrow> string" where
  "unary_display n = replicate n (CHR ''1'')"

lemma unary_display_ok [simp]: "decimal_display unary_display"
  by (auto simp: decimal_display_def unary_display_def inj_def replicate_eq_replicate)

theorem filter_sets_lattice_witness:
  "meet_filters (filters_from_vec unary_display [filter_matched ''brand'' [''b'', ''a''], Numeric ''price'' NumGt 3])
     (filters_from_vec unary_display [filter_matched ''brand'' [''c'', ''b'']]) =
   meet_filters (filters_from_vec unary_display [filter_matched ''brand'' [''c'', ''b'']])
     (filters_from_vec unary_display [filter_matched ''brand'' [''b'', ''a''], Numeric ''price'' NumGt 3])"
proof -
  have "filter_set_wf unary_display (filters_from_vec unary_display [filter_matched ''brand'' [''b'', ''a''], Numeric ''price'' NumGt 3])"
    "filter_set_wf unary_display (filters_from_vec unary_display [filter_matched ''brand'' [''c'', ''b'']])"
    by (rule wf_from_vec; simp)+
  from filter_sets_lattice [OF unary_display_ok this this(1)] show ?thesis by blast
qed

section \<open>What filter sets select\<close>

text \<open>
  The documented meaning: a row gives the value of a text column and whether a comparison holds.
\<close>

record 'v row =
  row_text :: "string \<Rightarrow> string"
  row_holds :: "'v Filter \<Rightarrow> bool"

fun selects :: "'v Filter \<Rightarrow> 'v row \<Rightarrow> bool" where
  "selects (Matched column values) r = (row_text r column \<in> set values)"
| "selects f r = row_holds r f"

definition selects_all :: "'v FilterSet \<Rightarrow> 'v row \<Rightarrow> bool" where
  "selects_all fs r \<longleftrightarrow> (\<forall>k f. fmlookup fs k = Some f \<longrightarrow> selects f r)"

lemma twins_selects:
  assumes "twins f g"
  shows "selects (meet_single_filter f g) r \<longleftrightarrow> selects f r \<and> selects g r"
    "selects f r \<or> selects g r \<Longrightarrow> selects (join_single_filter f g) r"
    "diff_single_filter f g = Some d \<Longrightarrow> selects d r \<longleftrightarrow> selects f r \<and> \<not> selects g r"
  using assms by (cases rule: twins_cases; cases f; auto)+

text \<open>
  The operations mean what they are documented to mean: the meet of two filter sets selects exactly
  the rows both select, their join every row one of them selects, a detected contradiction selects no
  row, and the empty set every row.
\<close>

theorem filter_sets_select:
  assumes "decimal_display sd" "filter_set_wf sd a" "filter_set_wf sd b"
  shows "(selects_all (meet_filters a b) r \<longleftrightarrow> selects_all a r \<and> selects_all b r) \<and>
    (selects_all a r \<or> selects_all b r \<longrightarrow> selects_all (join_filters a b) r) \<and>
    (is_contradiction a \<longrightarrow> \<not> selects_all a r) \<and> (is_tautology a \<longrightarrow> selects_all a r)"
proof (intro conjI impI)
  note twin = twins_lookup [OF assms]
  show "selects_all (meet_filters a b) r \<longleftrightarrow> selects_all a r \<and> selects_all b r"
  proof
    assume meet: "selects_all (meet_filters a b) r"
    show "selects_all a r \<and> selects_all b r"
      unfolding selects_all_def
    proof (intro conjI allI impI)
      fix k f assume f: "fmlookup a k = Some f"
      have "fmlookup (meet_filters a b) k = Some (case fmlookup b k of None \<Rightarrow> f | Some g \<Rightarrow> meet_single_filter f g)"
        by (simp add: meet_lookup f split: option.split)
      with meet have "selects (case fmlookup b k of None \<Rightarrow> f | Some g \<Rightarrow> meet_single_filter f g) r"
        unfolding selects_all_def by blast
      with twin [OF f] show "selects f r" by (auto simp: twins_selects(1) split: option.splits)
    next
      fix k g assume g: "fmlookup b k = Some g"
      have "fmlookup (meet_filters a b) k = Some (case fmlookup a k of None \<Rightarrow> g | Some f \<Rightarrow> meet_single_filter f g)"
        by (simp add: meet_lookup g split: option.split)
      with meet have "selects (case fmlookup a k of None \<Rightarrow> g | Some f \<Rightarrow> meet_single_filter f g) r"
        unfolding selects_all_def by blast
      with twin [OF _ g] show "selects g r" by (auto simp: twins_selects(1) split: option.splits)
    qed
  next
    assume "selects_all a r \<and> selects_all b r"
    then show "selects_all (meet_filters a b) r"
      by (auto simp: selects_all_def meet_lookup twins_selects(1) [OF twin] split: option.splits)
  qed
  show "selects_all (join_filters a b) r" if "selects_all a r \<or> selects_all b r"
    using that by (auto simp: selects_all_def join_lookup intro!: twins_selects(2) [OF twin] split: option.splits)
  show "\<not> selects_all a r" if contra: "is_contradiction a"
  proof -
    obtain k f where "fmlookup a k = Some f" "matches_nothing f"
      using contra entries_set [OF sorted_enumerates, of _ _ a]
      by (auto simp: is_contradiction_def filter_set_to_vec_def list_ex_iff)
    then have "fmlookup a k = Some f \<and> \<not> selects f r" by (cases f) auto
    then show ?thesis unfolding selects_all_def by blast
  qed
  show "selects_all a r" if "is_tautology a"
    using that by (auto simp: selects_all_def is_tautology_def dest: fmdomI)
qed

theorem filter_sets_select_witness:
  "\<not> selects_all (meet_filters (filters_from_vec unary_display [filter_matched ''c'' [''a'']])
       (filters_from_vec unary_display [filter_matched ''c'' [''b'']])) \<lparr>row_text = (\<lambda>_. ''a''), row_holds = (\<lambda>_. True)\<rparr>"
proof -
  let ?a = "filters_from_vec unary_display [filter_matched ''c'' [''a'']]"
    and ?b = "filters_from_vec unary_display [filter_matched ''c'' [''b'']]"
    and ?r = "\<lparr>row_text = (\<lambda>_. ''a''), row_holds = (\<lambda>_. True)\<rparr> :: nat row"
  have "filter_set_wf unary_display ?a" "filter_set_wf unary_display ?b" by (rule wf_from_vec; simp)+
  moreover have "\<not> selects_all ?b ?r"
    by (auto simp: selects_all_def filters_from_vec_def filter_matched_def)
  ultimately show ?thesis using filter_sets_select [OF unary_display_ok, of ?a ?b ?r] by blast
qed

text \<open>
  Two departures from the documentation: the collector keeps only the last filter of a column, so the
  order of pushes matters; and different filter sets can have the same content, hence the same hash.
\<close>

lemma collector_order_matters:
  "collector_build sd (push_matched ''brand'' [''b''] (push_matched ''brand'' [''a''] collector_new)) \<noteq>
   collector_build sd (push_matched ''brand'' [''a''] (push_matched ''brand'' [''b''] collector_new))"
proof -
  have "fmlookup (collector_build sd (push_matched ''brand'' [y] (push_matched ''brand'' [x] collector_new))) ''matched:brand'' =
      Some (Matched ''brand'' [y])" for x y
    by (simp add: collector_build_def push_matched_def push_filter_def collector_new_def filters_from_vec_def filter_matched_def)
  from this [of "''b''" "''a''"] this [of "''a''" "''b''"] show ?thesis by auto
qed

lemma filter_hash_collision:
  "filters_from_vec sd [filter_matched ''c'' [''a,b'']] \<noteq> filters_from_vec sd [filter_matched ''c'' [''a'', ''b'']] \<and>
   hash_filters sd digest (filters_from_vec sd [filter_matched ''c'' [''a,b'']]) =
   hash_filters sd digest (filters_from_vec sd [filter_matched ''c'' [''a'', ''b'']])"
proof -
  have lookup: "fmlookup (filters_from_vec sd [filter_matched ''c'' vs]) ''matched:c'' = Some (filter_matched ''c'' vs)" for vs
    by (simp add: filters_from_vec_def filter_matched_def)
  have "filter_set_to_vec (filters_from_vec sd [filter_matched ''c'' vs]) = [filter_matched ''c'' vs]" for vs
    by (simp add: filter_set_to_vec_def filters_from_vec_def filter_matched_def entries_def sorted_list_of_fset.rep_eq map_filter_simps)
  then have "hash_filters sd digest (filters_from_vec sd [filter_matched ''c'' [''a,b'']]) =
      hash_filters sd digest (filters_from_vec sd [filter_matched ''c'' [''a'', ''b'']])"
    by (simp add: hash_filters_def) (simp add: filter_matched_def less_char_def less_eq_char_def)
  moreover have "filters_from_vec sd [filter_matched ''c'' [''a,b'']] \<noteq> filters_from_vec sd [filter_matched ''c'' [''a'', ''b'']]"
    using lookup [of "[''a,b'']"] lookup [of "[''a'', ''b'']"]
    by (auto simp: filter_matched_def less_char_def less_eq_char_def)
  ultimately show ?thesis by blast
qed

end
