(* ===== verification/Text_Words.thy ===== *)
theory Text_Words
  imports Prelude
begin

text \<open>
  Words of a text: the runs between separators, with the lemmas on splitting and joining that the matching
  of search terms and the slugs of workspaces share. Lower case is that of the Latin-1 characters.
\<close>

definition to_lower :: "char \<Rightarrow> char" where
  "to_lower c =
     (let n = (of_char c :: nat)
      in if 65 \<le> n \<and> n \<le> 90 \<or> 192 \<le> n \<and> n \<le> 222 \<and> n \<noteq> 215 then char_of (n + 32) else c)"

text \<open>The maximal runs of characters that are no separators.\<close>

function words_between :: "(char \<Rightarrow> bool) \<Rightarrow> string \<Rightarrow> string list" where
  "words_between sep s =
     (case dropWhile sep s of
        [] \<Rightarrow> []
      | c # cs \<Rightarrow>
          takeWhile (\<lambda>c. \<not> sep c) (c # cs) #
          words_between sep (dropWhile (\<lambda>c. \<not> sep c) (c # cs)))"
  by pat_completeness auto

lemma words_between_shrinks:
  assumes "dropWhile sep s = c # cs"
  shows "length (dropWhile (\<lambda>c. \<not> sep c) (c # cs)) < length s"
proof -
  have "\<not> sep c" using assms hd_dropWhile [of sep s] by simp
  moreover have "length (c # cs) \<le> length s" using length_dropWhile_le [of sep s] assms by simp
  moreover have "length (dropWhile (\<lambda>c. \<not> sep c) cs) \<le> length cs" by (rule length_dropWhile_le)
  ultimately show ?thesis by simp
qed

termination words_between
  by (relation "measure (length \<circ> snd)") (simp_all only: wf_measure in_measure comp_def snd_conv words_between_shrinks)

declare words_between.simps [simp del]

lemma words_between_Nil: "words_between sep [] = []"
  by (subst words_between.simps) simp

lemma words_between_separator: "sep c \<Longrightarrow> words_between sep (c # s) = words_between sep s"
  by (subst (1 2) words_between.simps) simp

lemma words_between_word:
  assumes "\<not> sep c"
  shows "words_between sep (c # s) =
    takeWhile (\<lambda>c. \<not> sep c) (c # s) # words_between sep (dropWhile (\<lambda>c. \<not> sep c) s)"
  using assms by (subst words_between.simps) simp

lemma words_between_words:
  "w \<in> set (words_between sep s) \<Longrightarrow> w \<noteq> [] \<and> (\<forall>c \<in> set w. \<not> sep c)"
proof (induction sep s rule: words_between.induct)
  case (1 sep s)
  show ?case
  proof (cases "dropWhile sep s")
    case Nil
    then have "words_between sep s = []" by (subst words_between.simps) (simp only: list.case)
    then show ?thesis using 1(2) by simp
  next
    case (Cons c cs)
    then have "\<not> sep c" using hd_dropWhile [of sep s] by simp
    then have "takeWhile (\<lambda>c. \<not> sep c) (c # cs) \<noteq> []" by simp
    moreover have "\<forall>d \<in> set (takeWhile (\<lambda>c. \<not> sep c) (c # cs)). \<not> sep d" by (blast dest: set_takeWhileD)
    moreover have "w = takeWhile (\<lambda>c. \<not> sep c) (c # cs)
        \<or> w \<in> set (words_between sep (dropWhile (\<lambda>c. \<not> sep c) (c # cs)))"
      using 1(2) Cons by (subst (asm) words_between.simps) simp
    ultimately show ?thesis by (elim disjE) (simp only: simp_thms, rule 1(1) [OF Cons])
  qed
qed

lemma words_between_prefix:
  assumes "w \<noteq> []" "\<forall>c \<in> set w. \<not> sep c" "sep d"
  shows "words_between sep (w @ d # s) = w # words_between sep s"
proof -
  obtain c v where w: "w = c # v" using assms(1) by (cases w) auto
  have "takeWhile (\<lambda>c. \<not> sep c) (w @ d # s) = w" "dropWhile (\<lambda>c. \<not> sep c) (v @ d # s) = d # s"
    using assms w by (auto simp: takeWhile_append2 dropWhile_append2)
  then show ?thesis using assms w words_between_word [of sep c "v @ d # s"]
    by (simp add: words_between_separator)
qed

lemma words_between_join:
  assumes "sep d" "\<forall>w \<in> set ws. w \<noteq> [] \<and> (\<forall>c \<in> set w. \<not> sep c)"
  shows "words_between sep (join_with [d] ws) = ws"
  using assms(2)
proof (induction ws)
  case (Cons w ws)
  then obtain c v where w: "w = c # v" "\<not> sep c" "\<forall>c \<in> set v. \<not> sep c" by (cases w) auto
  show ?case
  proof (cases "ws = []")
    case True
    moreover have "takeWhile (\<lambda>c. \<not> sep c) v = v" "dropWhile (\<lambda>c. \<not> sep c) v = []" using w(3) by simp_all
    moreover have "words_between sep (c # v) = [c # v]"
      using w(2) calculation
        words_between_word [of sep c v] by (simp add: words_between_Nil del: dropWhile_eq_Nil_conv takeWhile_eq_all_conv)
    ultimately show ?thesis using w(1) by simp
  next
    case False
    then show ?thesis using Cons assms(1) by (simp add: words_between_prefix)
  qed
qed (simp add: words_between_Nil)

lemma to_lower_code:
  "(of_char (to_lower c) :: nat) =
     (let n = of_char c in if 65 \<le> n \<and> n \<le> 90 \<or> 192 \<le> n \<and> n \<le> 222 \<and> n \<noteq> 215 then n + 32 else n)"
  by (auto simp: to_lower_def Let_def)

lemma to_lower_idem: "to_lower (to_lower c) = to_lower c"
  by (auto simp: to_lower_def Let_def)

text \<open>\<open>str::split\<close> at a character.\<close>

fun split_char :: "char \<Rightarrow> string \<Rightarrow> string list" where
  "split_char d [] = [[]]"
| "split_char d (c # cs) =
     (if c = d then [] # split_char d cs
      else case split_char d cs of [] \<Rightarrow> [[c]] | w # ws \<Rightarrow> (c # w) # ws)"

lemma split_char_not_Nil: "split_char d s \<noteq> []"
  by (induction s) (auto split: list.split)

lemma split_char_prefix: "d \<notin> set w \<Longrightarrow> split_char d (w @ d # s) = w # split_char d s"
  by (induction w) auto

lemma split_char_whole: "d \<notin> set w \<Longrightarrow> split_char d w = [w]"
  by (induction w) auto

lemma split_char_join:
  "\<forall>w \<in> set ws. d \<notin> set w \<Longrightarrow> ws \<noteq> [] \<Longrightarrow> split_char d (join_with [d] ws) = ws"
  by (induction ws) (auto simp: split_char_prefix split_char_whole)

lemma split_char_words: "filter (\<lambda>w. w \<noteq> []) (split_char d s) = words_between (\<lambda>c. c = d) s"
proof (induction s rule: length_induct)
  case (1 s)
  show ?case
  proof (cases s)
    case Nil
    then show ?thesis by (simp add: words_between_Nil)
  next
    case (Cons c cs)
    show ?thesis
    proof (cases "c = d")
      case True
      then show ?thesis using 1 Cons by (simp add: words_between_separator)
    next
      case False
      let ?w = "takeWhile (\<lambda>c. c \<noteq> d) s" and ?r = "dropWhile (\<lambda>c. c \<noteq> d) s"
      have w: "d \<notin> set ?w" "?w \<noteq> []" using False Cons by (auto dest: set_takeWhileD)
      have words: "words_between (\<lambda>c. c = d) s = ?w # words_between (\<lambda>c. c = d) ?r"
        using False Cons words_between_word [of "\<lambda>c. c = d" c cs] by simp
      show ?thesis
      proof (cases ?r)
        case Nil
        then have "s = ?w" by (metis append_Nil2 takeWhile_dropWhile_id)
        then have "split_char d s = [?w]" using split_char_whole [OF w(1)] by metis
        then show ?thesis using words Nil w(2) by (simp only: words_between_Nil filter.simps simp_thms if_True)
      next
        case (Cons e r)
        then have "e = d" using hd_dropWhile [of "\<lambda>c. c \<noteq> d" s] by simp
        then have s: "s = ?w @ d # r" using Cons takeWhile_dropWhile_id [of "\<lambda>c. c \<noteq> d" s] by simp
        then have "length r < length s" by (metis length_append less_add_Suc2 list.size(4) add_Suc_right add.right_neutral)
        then have "filter (\<lambda>w. w \<noteq> []) (split_char d r) = words_between (\<lambda>c. c = d) r" using 1 by blast
        moreover have "split_char d s = ?w # split_char d r" using split_char_prefix [OF w(1), of r] s by metis
        moreover have "words_between (\<lambda>c. c = d) ?r = words_between (\<lambda>c. c = d) r"
          using Cons \<open>e = d\<close> by (simp add: words_between_separator)
        ultimately show ?thesis using words w(2) by simp
      qed
    qed
  qed
qed

end
