(* ===== verification/Fuzzy_Match.thy ===== *)
theory Fuzzy_Match
  imports Text_Words "HOL-Library.Multiset"
begin

text \<open>
  Fuzzy matching of search terms, \<open>crates/agent-fw-search/src/fuzzy.rs\<close>: normalisation and tokens, the
  phase-one signals with the edit distance test, the resolution pipeline and the value lookups on it.

  Characters are the Latin-1 ones, so that lower case is one character and a character has one or two
  bytes. Floating-point numbers are a type parameter with the operations the code uses of them (record
  \<open>f64_ops\<close>). Points are natural numbers: a sum of signals is far below the range of \<open>u32\<close>.
\<close>

section \<open>Normalisation and tokens\<close>

definition is_separator :: "char \<Rightarrow> bool" where
  "is_separator c \<longleftrightarrow> c = CHR ''_'' \<or> c = CHR ''-'' \<or> is_whitespace c"

definition normalize_step :: "char \<Rightarrow> string \<times> bool \<Rightarrow> string \<times> bool" where
  "normalize_step c st =
     (case st of (res, prev_was_space) \<Rightarrow>
        if is_separator c
        then (if \<not> prev_was_space then (res @ '' '', True) else (res, prev_was_space))
        else (res @ [to_lower c], False))"

definition normalize :: "string \<Rightarrow> string" where
  "normalize text =
     (let res = fst (fold normalize_step text ([], True))
      in if suffix '' '' res then butlast res else res)"

definition split_whitespace :: "string \<Rightarrow> string list" where
  "split_whitespace s = words_between is_whitespace s"

definition tokenize :: "string \<Rightarrow> string list" where
  "tokenize text = split_whitespace text"

definition is_ascii_digit :: "char \<Rightarrow> bool" where
  "is_ascii_digit c \<longleftrightarrow> (let n = (of_char c :: nat) in 48 \<le> n \<and> n \<le> 57)"

definition is_numeric :: "string \<Rightarrow> bool" where
  "is_numeric text \<longleftrightarrow> text \<noteq> [] \<and> list_all is_ascii_digit text"

text \<open>\<open>str::split\<close> at a pattern, the part read so far first.\<close>

fun split_at_pattern :: "string \<Rightarrow> string \<Rightarrow> string \<Rightarrow> string list" where
  "split_at_pattern pat acc [] = [acc]"
| "split_at_pattern pat acc (c # cs) =
     (if pat \<noteq> [] \<and> prefix pat (c # cs)
      then acc # split_at_pattern pat [] (drop (length pat - 1) cs)
      else split_at_pattern pat (acc @ [c]) cs)"

fun position :: "('a \<Rightarrow> bool) \<Rightarrow> 'a list \<Rightarrow> nat option" where
  "position P [] = None"
| "position P (x # xs) = (if P x then Some 0 else map_option Suc (position P xs))"

definition segment_exact_match :: "string \<Rightarrow> string \<Rightarrow> nat option" where
  "segment_exact_match search_norm candidate =
     (if \<not> sublist '' - '' candidate then None
      else position (\<lambda>seg. normalize seg = search_norm) (split_at_pattern '' - '' [] candidate))"

section \<open>Edit distance\<close>

definition diff_positions :: "'a list \<Rightarrow> 'a list \<Rightarrow> nat list" where
  "diff_positions a b = filter (\<lambda>i. a ! i \<noteq> b ! i) [0..<length a]"

text \<open>The loop of the case of different lengths, over what is left of the shorter and the longer word.\<close>

fun insertion_loop :: "'a list \<Rightarrow> 'a list \<Rightarrow> nat \<Rightarrow> bool" where
  "insertion_loop (s # short) (l # long) edits =
     (if s = l then insertion_loop short long edits
      else if edits + 1 > 1 then False
      else insertion_loop (s # short) long (edits + 1))"
| "insertion_loop _ _ edits = True"

definition edit_distance_at_most_one :: "string \<Rightarrow> string \<Rightarrow> bool" where
  "edit_distance_at_most_one a b =
     (if length a > length b + 1 \<or> length b > length a + 1 then False
      else if length a = length b
      then (case diff_positions a b of
              [] \<Rightarrow> True
            | [_] \<Rightarrow> True
            | [i, j] \<Rightarrow> j = i + 1 \<and> a ! i = b ! j \<and> a ! j = b ! i
            | _ \<Rightarrow> False)
      else if length a < length b then insertion_loop a b 0 else insertion_loop b a 0)"

section \<open>Signals\<close>

record 'f f64_ops =
  f64_ratio :: "nat \<Rightarrow> nat \<Rightarrow> 'f"
  f64_points :: "nat \<Rightarrow> 'f \<Rightarrow> nat"
  f64_at_least_30 :: "'f \<Rightarrow> bool"

datatype 'f MatchSignal =
    Exact
  | TokenContainment nat nat
  | EditDistance string string
  | JaccardNgram 'f
  | VectorSimilarity 'f
  | SegmentExact nat

text \<open>
  \<open>f64_points k x\<close> is \<open>(x.clamp(0.0, 1.0) * k) as u32\<close> and \<open>f64_ratio m n\<close> is \<open>m as f64 / n as f64\<close>; a ratio
  over zero is the code's \<open>0.0\<close>.
\<close>

fun signal_points :: "'f f64_ops \<Rightarrow> 'f MatchSignal \<Rightarrow> nat" where
  "signal_points F Exact = 100"
| "signal_points F (TokenContainment matched total_tokens) =
     80 + (if total_tokens > 0 then f64_points F 18 (f64_ratio F matched total_tokens) else 0)"
| "signal_points F (EditDistance original matched) = 60"
| "signal_points F (JaccardNgram similarity) = f64_points F 40 similarity"
| "signal_points F (VectorSimilarity cosine) = f64_points F 50 cosine"
| "signal_points F (SegmentExact segment_index) = 95"

record 'f MatchScore =
  ms_points :: nat
  ms_signals :: "'f MatchSignal list"
  ms_value :: string

definition match_score_new :: "'f f64_ops \<Rightarrow> string \<Rightarrow> 'f MatchSignal list \<Rightarrow> 'f MatchScore" where
  "match_score_new F v signals =
     \<lparr>ms_points = sum_list (map (signal_points F) signals), ms_signals = signals, ms_value = v\<rparr>"

datatype ResolveStrategy = Categorical | DisplayName

definition for_column :: "string \<Rightarrow> ResolveStrategy" where
  "for_column column = (if column = ''display_name'' then DisplayName else Categorical)"

fun threshold :: "ResolveStrategy \<Rightarrow> nat" where
  "threshold Categorical = 60"
| "threshold DisplayName = 40"

definition as_u32 :: "nat \<Rightarrow> nat" where
  "as_u32 n = n mod 2 ^ 32"

definition token_containment :: "string list \<Rightarrow> string list \<Rightarrow> 'f MatchSignal option" where
  "token_containment search_tokens candidate_tokens =
     (if search_tokens = [] \<or> candidate_tokens = [] then None
      else if list_all (\<lambda>st. st \<in> set candidate_tokens) search_tokens
      then Some (TokenContainment (as_u32 (length search_tokens)) (as_u32 (length candidate_tokens)))
      else None)"

text \<open>The length of a string in bytes.\<close>

definition utf8_len :: "string \<Rightarrow> nat" where
  "utf8_len s = sum_list (map (\<lambda>c. if (of_char c :: nat) < 128 then 1 else 2) s)"

text \<open>One search token against the candidate tokens: whether one was found, and the first edit so far.\<close>

fun find_token :: "string \<Rightarrow> string list \<Rightarrow> (string \<times> string) option \<Rightarrow> bool \<times> (string \<times> string) option" where
  "find_token st [] first_edit = (False, first_edit)"
| "find_token st (ct # cts) first_edit =
     (if is_numeric st \<or> is_numeric ct
      then (if st = ct then (True, first_edit) else find_token st cts first_edit)
      else if utf8_len st \<ge> 3 \<and> utf8_len ct \<ge> 3
      then (if st = ct then (True, first_edit)
            else if edit_distance_at_most_one st ct
            then (True, if first_edit = None then Some (st, ct) else first_edit)
            else find_token st cts first_edit)
      else if st = ct then (True, first_edit) else find_token st cts first_edit)"

fun find_tokens :: "string list \<Rightarrow> string list \<Rightarrow> (string \<times> string) option \<Rightarrow> (string \<times> string) option" where
  "find_tokens [] cts first_edit = first_edit"
| "find_tokens (st # sts) cts first_edit =
     (case find_token st cts first_edit of
        (False, _) \<Rightarrow> None
      | (True, first_edit') \<Rightarrow> find_tokens sts cts first_edit')"

definition token_edit_match :: "string list \<Rightarrow> string list \<Rightarrow> 'f MatchSignal option" where
  "token_edit_match search_tokens candidate_tokens =
     (if search_tokens = [] \<or> candidate_tokens = [] then None
      else map_option (\<lambda>(original, matched). EditDistance original matched)
             (find_tokens search_tokens candidate_tokens None))"

definition bigrams_with_boundaries :: "string \<Rightarrow> (char \<times> char) set" where
  "bigrams_with_boundaries text =
     (let chars = ''$'' @ text @ ''$'' in set (zip chars (tl chars)))"

definition jaccard_from_bigrams :: "'f f64_ops \<Rightarrow> (char \<times> char) set \<Rightarrow> (char \<times> char) set \<Rightarrow> 'f" where
  "jaccard_from_bigrams F query candidate =
     (if query = {} then f64_ratio F 0 1 else f64_ratio F (card (query \<inter> candidate)) (card query))"

section \<open>Resolution\<close>

record PreparedQuery =
  pq_normalized :: string
  pq_tokens :: "string list"
  pq_bigrams :: "(char \<times> char) set"

definition prepared_query_new :: "string \<Rightarrow> PreparedQuery" where
  "prepared_query_new search =
     (let n = normalize search
      in \<lparr>pq_normalized = n, pq_tokens = tokenize n, pq_bigrams = bigrams_with_boundaries n\<rparr>)"

text \<open>The four parallel vectors of the corpus, as one list of entries.\<close>

record CorpusEntry =
  ce_value :: string
  ce_normalized :: string
  ce_tokens :: "string list"
  ce_bigrams :: "(char \<times> char) set"

definition corpus_new :: "string list \<Rightarrow> CorpusEntry list" where
  "corpus_new vs =
     map (\<lambda>v. let n = normalize v in
       \<lparr>ce_value = v, ce_normalized = n, ce_tokens = tokenize n, ce_bigrams = bigrams_with_boundaries n\<rparr>) vs"

definition phase1_signals :: "string \<Rightarrow> string list \<Rightarrow> string \<Rightarrow> string \<Rightarrow> string list \<Rightarrow> 'f MatchSignal list" where
  "phase1_signals search_norm search_tokens candidate candidate_norm candidate_tokens =
     (if candidate_norm = search_norm then [Exact]
      else
        let segment = (if length search_tokens \<ge> 2
               then (case segment_exact_match search_norm candidate of Some idx \<Rightarrow> [SegmentExact (as_u32 idx)] | None \<Rightarrow> [])
               else [])
        in if segment \<noteq> [] then segment
           else case token_containment search_tokens candidate_tokens of
                  Some sig \<Rightarrow> [sig]
                | None \<Rightarrow> (case token_edit_match search_tokens candidate_tokens of Some sig \<Rightarrow> [sig] | None \<Rightarrow> []))"

definition score_candidate_phase1_prepared ::
  "'f f64_ops \<Rightarrow> string \<Rightarrow> string list \<Rightarrow> string \<Rightarrow> string \<Rightarrow> string list \<Rightarrow> 'f MatchScore option" where
  "score_candidate_phase1_prepared F search_norm search_tokens candidate candidate_norm candidate_tokens =
     (let signals = phase1_signals search_norm search_tokens candidate candidate_norm candidate_tokens
      in if signals = [] then None else Some (match_score_new F candidate signals))"

definition score_candidate_phase1 ::
  "'f f64_ops \<Rightarrow> string \<Rightarrow> string list \<Rightarrow> string \<Rightarrow> 'f MatchScore option" where
  "score_candidate_phase1 F search_norm search_tokens candidate =
     (let value_norm = normalize candidate
      in score_candidate_phase1_prepared F search_norm search_tokens candidate value_norm (tokenize value_norm))"

record 'f phase1_state =
  p1_candidates :: "'f MatchScore list"
  p1_best :: nat
  p1_matched :: "nat set"

text \<open>The first loop; \<open>Inl\<close> is the early return of a categorical exact match.\<close>

fun phase1_loop ::
  "'f f64_ops \<Rightarrow> PreparedQuery \<Rightarrow> ResolveStrategy \<Rightarrow> nat \<Rightarrow> CorpusEntry list \<Rightarrow> 'f phase1_state \<Rightarrow>
   'f MatchScore + 'f phase1_state" where
  "phase1_loop F q strategy i [] st = Inr st"
| "phase1_loop F q strategy i (e # es) st =
     (case score_candidate_phase1_prepared F (pq_normalized q) (pq_tokens q) (ce_value e) (ce_normalized e) (ce_tokens e) of
        None \<Rightarrow> phase1_loop F q strategy (Suc i) es st
      | Some score \<Rightarrow>
          let st1 = (if ms_points score > p1_best st then st\<lparr>p1_best := ms_points score\<rparr> else st)
          in if ms_points score \<ge> threshold strategy
             then (if strategy = Categorical \<and> ms_points score \<ge> 100 then Inl score
                   else phase1_loop F q strategy (Suc i) es
                          (st1\<lparr>p1_matched := insert i (p1_matched st1), p1_candidates := p1_candidates st1 @ [score]\<rparr>))
             else phase1_loop F q strategy (Suc i) es st1)"

fun jaccard_loop ::
  "'f f64_ops \<Rightarrow> PreparedQuery \<Rightarrow> ResolveStrategy \<Rightarrow> nat set \<Rightarrow> nat \<Rightarrow> CorpusEntry list \<Rightarrow> 'f MatchScore list \<Rightarrow>
   'f MatchScore list" where
  "jaccard_loop F q strategy matched i [] candidates = candidates"
| "jaccard_loop F q strategy matched i (e # es) candidates =
     (if i \<in> matched \<or> ce_bigrams e = {} then jaccard_loop F q strategy matched (Suc i) es candidates
      else
        let sim = jaccard_from_bigrams F (pq_bigrams q) (ce_bigrams e);
            score = match_score_new F (ce_value e) [JaccardNgram sim]
        in if f64_at_least_30 F sim \<and> ms_points score \<ge> threshold strategy
           then jaccard_loop F q strategy matched (Suc i) es (candidates @ [score])
           else jaccard_loop F q strategy matched (Suc i) es candidates)"

record 'f VectorMatch =
  vm_value :: string
  vm_cosine :: 'f

definition add_signal :: "'f f64_ops \<Rightarrow> 'f MatchSignal \<Rightarrow> 'f MatchScore \<Rightarrow> 'f MatchScore" where
  "add_signal F sig m =
     (let signals = ms_signals m @ [sig]
      in m\<lparr>ms_signals := signals, ms_points := sum_list (map (signal_points F) signals)\<rparr>)"

text \<open>The map from normalised values to positions: a later candidate replaces an earlier one.\<close>

definition norm_to_idx :: "'f MatchScore list \<Rightarrow> (string \<rightharpoonup> nat)" where
  "norm_to_idx candidates = map_of (rev (zip (map (normalize \<circ> ms_value) candidates) [0..<length candidates]))"

fun vector_loop ::
  "'f f64_ops \<Rightarrow> ResolveStrategy \<Rightarrow> 'f VectorMatch list \<Rightarrow> (string \<rightharpoonup> nat) \<Rightarrow> 'f MatchScore list \<Rightarrow> 'f MatchScore list" where
  "vector_loop F strategy [] index candidates = candidates"
| "vector_loop F strategy (hit # hits) index candidates =
     (let hit_norm = normalize (vm_value hit)
      in case index hit_norm of
           Some idx \<Rightarrow>
             vector_loop F strategy hits index
               (candidates[idx := add_signal F (VectorSimilarity (vm_cosine hit)) (candidates ! idx)])
         | None \<Rightarrow>
             (let score = match_score_new F (vm_value hit) [VectorSimilarity (vm_cosine hit)]
              in if ms_points score \<ge> threshold strategy
                 then vector_loop F strategy hits (index(hit_norm \<mapsto> length candidates)) (candidates @ [score])
                 else vector_loop F strategy hits index candidates))"

definition resolve_value_amortized ::
  "'f f64_ops \<Rightarrow> PreparedQuery \<Rightarrow> CorpusEntry list \<Rightarrow> ResolveStrategy \<Rightarrow> 'f VectorMatch list option \<Rightarrow> 'f MatchScore list" where
  "resolve_value_amortized F q corpus strategy vector_matches =
     (case phase1_loop F q strategy 0 corpus \<lparr>p1_candidates = [], p1_best = 0, p1_matched = {}\<rparr> of
        Inl score \<Rightarrow> [score]
      | Inr st \<Rightarrow>
          let candidates = (if p1_best st < 60 then jaccard_loop F q strategy (p1_matched st) 0 corpus (p1_candidates st)
                            else p1_candidates st);
              candidates' = (case vector_matches of
                               None \<Rightarrow> candidates
                             | Some vm \<Rightarrow> vector_loop F strategy vm (norm_to_idx candidates) candidates)
          in sort_key (\<lambda>m. - int (ms_points m)) candidates')"

definition resolve_value_prepared ::
  "'f f64_ops \<Rightarrow> PreparedQuery \<Rightarrow> string list \<Rightarrow> ResolveStrategy \<Rightarrow> 'f VectorMatch list option \<Rightarrow> 'f MatchScore list" where
  "resolve_value_prepared F q db_values strategy vm = resolve_value_amortized F q (corpus_new db_values) strategy vm"

definition resolve_value ::
  "'f f64_ops \<Rightarrow> string \<Rightarrow> string list \<Rightarrow> ResolveStrategy \<Rightarrow> 'f VectorMatch list option \<Rightarrow> 'f MatchScore list" where
  "resolve_value F search db_values strategy vm = resolve_value_prepared F (prepared_query_new search) db_values strategy vm"

text \<open>\<open>limit\<close> is \<open>(threshold * 100.0) as u32\<close>.\<close>

definition find_best_match :: "'f f64_ops \<Rightarrow> string \<Rightarrow> string list \<Rightarrow> nat \<Rightarrow> string option" where
  "find_best_match F input vs limit =
     map_option ms_value (List.find (\<lambda>m. ms_points m \<ge> limit) (resolve_value F input vs Categorical None))"

definition find_all_matches :: "'f f64_ops \<Rightarrow> string \<Rightarrow> string list \<Rightarrow> nat \<Rightarrow> string list" where
  "find_all_matches F input vs limit =
     map ms_value (filter (\<lambda>m. ms_points m \<ge> limit) (resolve_value F input vs DisplayName None))"

definition needs_vector_fallback :: "'f MatchScore list \<Rightarrow> bool" where
  "needs_vector_fallback matches = (case matches of [] \<Rightarrow> True | m # _ \<Rightarrow> ms_points m < 60)"

definition collect_matched_values :: "'f MatchScore list \<Rightarrow> ResolveStrategy \<Rightarrow> string list" where
  "collect_matched_values matches strategy =
     (case matches of
        [] \<Rightarrow> []
      | m # _ \<Rightarrow> (case strategy of Categorical \<Rightarrow> [ms_value m] | DisplayName \<Rightarrow> map ms_value matches))"

fun is_segment_signal :: "'f MatchSignal \<Rightarrow> bool" where
  "is_segment_signal (SegmentExact i) = True"
| "is_segment_signal _ = False"

definition has_segment_signal :: "'f MatchScore \<Rightarrow> bool" where
  "has_segment_signal score = list_ex is_segment_signal (ms_signals score)"

definition has_scattered_token_noise :: "PreparedQuery \<Rightarrow> 'f MatchScore list \<Rightarrow> bool" where
  "has_scattered_token_noise q matches \<longleftrightarrow> length (pq_tokens q) \<ge> 2 \<and> list_ex has_segment_signal matches"

definition filter_scattered_matches :: "'f MatchScore list \<Rightarrow> 'f MatchScore list" where
  "filter_scattered_matches matches = filter (\<lambda>m. ms_points m \<ge> 90) matches"

section \<open>Properties\<close>

subsection \<open>The edits the test accepts\<close>

inductive one_edit :: "'a list \<Rightarrow> 'a list \<Rightarrow> bool" where
  no_edit: "one_edit u u"
| substitution: "one_edit (x # u) (y # u)"
| insertion: "one_edit u (y # u)"
| deletion: "one_edit (x # u) u"
| transposition: "one_edit (x # y # u) (y # x # u)"
| later: "one_edit u v \<Longrightarrow> one_edit (x # u) (x # v)"

inductive_simps one_edit_Nil_left: "one_edit [] b"
inductive_simps one_edit_Nil_right: "one_edit a []"
inductive_simps one_edit_Cons: "one_edit (x # a) (y # b)"

lemma one_edit_sym: "one_edit a b \<Longrightarrow> one_edit b a"
  by (induction rule: one_edit.induct) (auto intro: one_edit.intros)

lemma one_edit_Cons_same: "one_edit (x # a) (x # b) \<longleftrightarrow> one_edit a b"
  by (subst one_edit_Cons) (auto intro: one_edit.intros)

lemma one_edit_length: "one_edit a b \<Longrightarrow> length a \<le> length b + 1 \<and> length b \<le> length a + 1"
  by (induction rule: one_edit.induct) auto

lemma diff_positions_Nil: "diff_positions [] b = []"
  by (simp add: diff_positions_def)

lemma diff_positions_Cons:
  "diff_positions (x # a) (y # b) = (if x = y then [] else [0]) @ map Suc (diff_positions a b)"
proof -
  have "[0..<Suc (length a)] = 0 # map Suc [0..<length a]"
    by (simp add: map_Suc_upt upt_conv_Cons del: upt_Suc)
  then show ?thesis by (simp add: diff_positions_def filter_map comp_def)
qed

lemma diff_positions_empty: "length a = length b \<Longrightarrow> diff_positions a b = [] \<longleftrightarrow> a = b"
  by (induction a b rule: list_induct2) (simp_all add: diff_positions_Nil diff_positions_Cons)

definition aligned_edit :: "'a list \<Rightarrow> 'a list \<Rightarrow> bool" where
  "aligned_edit a b =
     (case diff_positions a b of
        [] \<Rightarrow> True
      | [_] \<Rightarrow> True
      | [i, j] \<Rightarrow> j = i + 1 \<and> a ! i = b ! j \<and> a ! j = b ! i
      | _ \<Rightarrow> False)"

lemma aligned_edit_same: "aligned_edit (x # a) (x # b) = aligned_edit a b"
  by (simp add: aligned_edit_def diff_positions_Cons split: list.split)

lemma aligned_edit_differ:
  assumes "length a = length b" "x \<noteq> y"
  shows "aligned_edit (x # a) (y # b) \<longleftrightarrow> a = b \<or> (\<exists>u. a = y # u \<and> b = x # u)"
proof (cases a)
  case Nil
  then show ?thesis using assms by (simp add: aligned_edit_def diff_positions_Cons diff_positions_Nil)
next
  case (Cons p u)
  then obtain q v where b: "b = q # v" "length u = length v" using assms(1) by (cases b) auto
  have "diff_positions u v = [] \<longleftrightarrow> u = v" using b(2) by (rule diff_positions_empty)
  then show ?thesis using assms Cons b
    by (auto simp: aligned_edit_def diff_positions_Cons split: list.split)
qed

lemma aligned_edit_exact: "length a = length b \<Longrightarrow> aligned_edit a b \<longleftrightarrow> one_edit a b"
proof (induction a b rule: list_induct2)
  case Nil
  then show ?case by (simp add: aligned_edit_def diff_positions_Nil no_edit)
next
  case (Cons x a y b)
  show ?case
  proof (cases "x = y")
    case True
    then show ?thesis using Cons.IH by (simp add: aligned_edit_same one_edit_Cons_same)
  next
    case False
    have "one_edit (x # a) (y # b) \<longleftrightarrow> a = b \<or> (\<exists>u. a = y # u \<and> b = x # u)"
      using Cons.hyps False by (subst one_edit_Cons) auto
    then show ?thesis using aligned_edit_differ [OF Cons.hyps False] by simp
  qed
qed

lemma insertion_loop_spent: "length s = length l \<Longrightarrow> insertion_loop s l (Suc 0) \<longleftrightarrow> s = l"
  by (induction s l rule: list_induct2) simp_all

lemma insertion_loop_exact: "length l = Suc (length s) \<Longrightarrow> insertion_loop s l 0 \<longleftrightarrow> one_edit s l"
proof (induction s arbitrary: l)
  case Nil
  then obtain x where "l = [x]" by (cases l) auto
  then show ?case by (simp add: insertion)
next
  case (Cons x s)
  then obtain y l' where l: "l = y # l'" "length l' = Suc (length s)" by (cases l) auto
  show ?case
  proof (cases "x = y")
    case True
    then show ?thesis using Cons.IH [OF l(2)] l by (simp add: one_edit_Cons_same)
  next
    case False
    have "one_edit (x # s) (y # l') \<longleftrightarrow> x # s = l'"
      using l(2) False by (subst one_edit_Cons) auto
    then show ?thesis using False l insertion_loop_spent [of "x # s" l'] by simp
  qed
qed

lemma edit_distance_one_edit: "edit_distance_at_most_one a b \<longleftrightarrow> one_edit a b"
proof -
  consider "length a = length b" | "length b = Suc (length a)" | "length a = Suc (length b)"
    | "length a > length b + 1 \<or> length b > length a + 1" by linarith
  then show ?thesis
  proof cases
    case 1
    then show ?thesis using aligned_edit_exact [OF 1]
      by (simp add: edit_distance_at_most_one_def aligned_edit_def)
  next
    case 2
    then show ?thesis using insertion_loop_exact [OF 2] by (simp add: edit_distance_at_most_one_def)
  next
    case 3
    then show ?thesis using insertion_loop_exact [OF 3] one_edit_sym [of a b] one_edit_sym [of b a]
      by (auto simp: edit_distance_at_most_one_def)
  next
    case 4
    then show ?thesis using one_edit_length [of a b] by (auto simp: edit_distance_at_most_one_def)
  qed
qed

subsection \<open>Normal forms\<close>

lemma is_separator_code:
  "is_separator c \<longleftrightarrow>
     (let n = (of_char c :: nat) in n = 95 \<or> n = 45 \<or> (9 \<le> n \<and> n \<le> 13) \<or> n = 32 \<or> n = 133 \<or> n = 160)"
proof -
  have "c = CHR ''_'' \<longleftrightarrow> (of_char c :: nat) = 95" "c = CHR ''-'' \<longleftrightarrow> (of_char c :: nat) = 45"
    using of_char_eq_iff [of c "CHR ''_''", where 'a = nat] of_char_eq_iff [of c "CHR ''-''", where 'a = nat]
    by simp_all
  then show ?thesis by (simp add: is_separator_def is_whitespace_def Let_def)
qed

lemma is_separator_space: "is_separator (CHR '' '')" "is_whitespace (CHR '' '')"
  by (simp_all add: is_separator_def is_whitespace_def)

lemma to_lower_separator: "is_separator (to_lower c) = is_separator c"
  by (auto simp: is_separator_code to_lower_code Let_def)

text \<open>What the loop of \<open>normalize\<close> appends, and the space it may leave at the end.\<close>

fun spaced :: "bool \<Rightarrow> string \<Rightarrow> string" where
  "spaced b [] = []"
| "spaced b (c # cs) =
     (if is_separator c then (if b then [] else '' '') @ spaced True cs else to_lower c # spaced False cs)"

definition strip_end :: "string \<Rightarrow> string" where
  "strip_end res = (if suffix '' '' res then butlast res else res)"

lemma fold_normalize_step: "fst (fold normalize_step s (res, b)) = res @ spaced b s"
  by (induction s arbitrary: res b) (simp_all add: normalize_step_def)

lemma normalize_spaced: "normalize s = strip_end (spaced True s)"
  by (simp add: normalize_def fold_normalize_step strip_end_def Let_def)

lemma strip_end_snoc: "strip_end (u @ [c]) = (if c = CHR '' '' then u else u @ [c])"
  by (auto simp: strip_end_def suffix_def)

lemma strip_end_append: "v \<noteq> [] \<Longrightarrow> strip_end (u @ v) = u @ strip_end v"
  using strip_end_snoc [of "u @ butlast v" "last v"] strip_end_snoc [of "butlast v" "last v"]
  by (simp del: append_assoc) simp

lemma spaced_skip: "spaced True (dropWhile is_separator s) = spaced True s"
  by (induction s) simp_all

lemma spaced_word:
  "\<forall>c \<in> set w. \<not> is_separator c \<Longrightarrow> w \<noteq> [] \<Longrightarrow> spaced b (w @ s) = map to_lower w @ spaced False s"
proof (induction w arbitrary: b)
  case (Cons c w)
  then show ?case by (cases w) simp_all
qed simp

lemma spaced_rest:
  "s = [] \<or> is_separator (hd s) \<Longrightarrow> spaced False s = (if s = [] then [] else '' '' @ spaced True s)"
  by (cases s) simp_all

lemma strip_end_lower:
  assumes "\<forall>c \<in> set w. \<not> is_separator c"
  shows "strip_end (map to_lower w) = map to_lower w"
proof (cases w rule: rev_cases)
  case (snoc v c)
  then have "to_lower c \<noteq> CHR '' ''" using assms to_lower_separator [of c] is_separator_space by auto
  then show ?thesis using snoc by (simp add: strip_end_snoc)
qed (simp add: strip_end_def)

lemma spaced_empty: "spaced True s = [] \<longleftrightarrow> words_between is_separator s = []"
proof (induction s)
  case (Cons c s)
  then show ?case
    by (cases "is_separator c") (simp_all add: words_between_separator words_between_word)
qed (simp add: words_between_Nil)

lemma normalize_words:
  "normalize s = join_with '' '' (map (map to_lower) (words_between is_separator s))"
proof (induction "is_separator" s rule: words_between.induct)
  case (1 s)
  show ?case
  proof (cases "dropWhile is_separator s")
    case Nil
    then have "spaced True s = []" using spaced_skip [of s] by (simp only: spaced.simps)
    then show ?thesis using spaced_empty [of s] by (simp add: normalize_spaced strip_end_def)
  next
    case (Cons c cs)
    define w where "w = takeWhile (\<lambda>c. \<not> is_separator c) (c # cs)"
    define r where "r = dropWhile (\<lambda>c. \<not> is_separator c) (c # cs)"
    have "\<not> is_separator c" using Cons hd_dropWhile [of is_separator s] by simp
    then have w: "w \<noteq> []" "\<forall>c \<in> set w. \<not> is_separator c"
      by (auto simp: w_def dest: set_takeWhileD)
    have words: "words_between is_separator s = w # words_between is_separator r"
      using Cons by (subst words_between.simps) (simp add: w_def r_def)
    have "r = [] \<or> is_separator (hd r)" using hd_dropWhile [of "\<lambda>c. \<not> is_separator c" "c # cs"]
      unfolding r_def by blast
    moreover have "spaced True s = spaced True (w @ r)"
      using spaced_skip [of s] unfolding Cons w_def r_def takeWhile_dropWhile_id by (rule sym)
    then have "spaced True s = map to_lower w @ spaced False r"
      using spaced_word [OF w(2,1)] by simp
    ultimately have s: "spaced True s = map to_lower w @ (if r = [] then [] else '' '' @ spaced True r)"
      by (simp add: spaced_rest)
    have IH: "normalize r = join_with '' '' (map (map to_lower) (words_between is_separator r))"
      using 1 [OF Cons] by (simp add: r_def)
    show ?thesis
    proof (cases "words_between is_separator r = []")
      case True
      then have "spaced True r = []" by (simp add: spaced_empty)
      then show ?thesis using True s w words strip_end_lower [of w]
        by (auto simp: normalize_spaced strip_end_def)
    next
      case False
      then have "spaced True r \<noteq> []" "r \<noteq> []" by (auto simp: spaced_empty words_between_Nil)
      then have "normalize s = map to_lower w @ '' '' @ normalize r"
        using s strip_end_append [of "spaced True r" "map to_lower w @ '' ''"] by (simp add: normalize_spaced)
      then show ?thesis using False words IH by simp
    qed
  qed
qed

lemma lower_words:
  "\<forall>w \<in> set (map (map to_lower) (words_between is_separator s)). w \<noteq> [] \<and> (\<forall>c \<in> set w. \<not> is_separator c)"
  using words_between_words [of _ is_separator s] by (fastforce simp: to_lower_separator)

lemma normalize_idem: "normalize (normalize s) = normalize s"
proof -
  have "words_between is_separator (normalize s) = map (map to_lower) (words_between is_separator s)"
    unfolding normalize_words [of s] using lower_words is_separator_space by (intro words_between_join)
  then have "normalize (normalize s) =
      join_with '' '' (map (map to_lower) (map (map to_lower) (words_between is_separator s)))"
    using normalize_words [of "normalize s"] by (simp only:)
  also have "\<dots> = join_with '' '' (map (map to_lower) (words_between is_separator s))"
    by (simp add: to_lower_idem comp_def)
  finally show ?thesis by (simp only: normalize_words [of s])
qed

lemma tokenize_normalize: "tokenize (normalize s) = map (map to_lower) (words_between is_separator s)"
proof -
  have "\<forall>w \<in> set (map (map to_lower) (words_between is_separator s)). w \<noteq> [] \<and> (\<forall>c \<in> set w. \<not> is_whitespace c)"
    using lower_words [of s] unfolding is_separator_def by blast
  then show ?thesis
    unfolding tokenize_def split_whitespace_def normalize_words using is_separator_space by (intro words_between_join)
qed

text \<open>
  Normalisation is exact: the words between separators in lower case, one space between two of them.
  The tokens of a normalised text are these words, and normalising again changes nothing.
\<close>

theorem normalize_exact:
  "normalize s = join_with '' '' (map (map to_lower) (words_between is_separator s))
   \<and> tokenize (normalize s) = map (map to_lower) (words_between is_separator s)
   \<and> normalize (normalize s) = normalize s"
  using normalize_words tokenize_normalize normalize_idem by blast

subsection \<open>Phase one\<close>

text \<open>The match of two tokens: equality, or one edit between words of three bytes that are no numbers.\<close>

definition token_matches :: "string \<Rightarrow> string \<Rightarrow> bool" where
  "token_matches st ct \<longleftrightarrow>
     st = ct \<or>
     \<not> is_numeric st \<and> \<not> is_numeric ct \<and> 3 \<le> utf8_len st \<and> 3 \<le> utf8_len ct \<and> one_edit st ct"

definition tokens_match :: "string list \<Rightarrow> string list \<Rightarrow> bool" where
  "tokens_match sts cts \<longleftrightarrow> sts \<noteq> [] \<and> cts \<noteq> [] \<and> (\<forall>st \<in> set sts. \<exists>ct \<in> set cts. token_matches st ct)"

definition segment_hit :: "string \<Rightarrow> string \<Rightarrow> bool" where
  "segment_hit q v \<longleftrightarrow>
     2 \<le> length (tokenize (normalize q)) \<and> sublist '' - '' v
     \<and> (\<exists>seg \<in> set (split_at_pattern '' - '' [] v). normalize seg = normalize q)"

lemma find_token_found: "fst (find_token st cts fe) \<longleftrightarrow> (\<exists>ct \<in> set cts. token_matches st ct)"
  by (induction cts) (auto simp: token_matches_def edit_distance_one_edit)

lemma find_token_exact: "find_token st cts fe = (True, None) \<Longrightarrow> fe = None \<and> st \<in> set cts"
  by (induction cts) (auto split: if_splits)

lemma find_tokens_sound:
  "find_tokens sts cts fe = Some p \<Longrightarrow> \<forall>st \<in> set sts. \<exists>ct \<in> set cts. token_matches st ct"
proof (induction sts arbitrary: fe)
  case (Cons st sts)
  from Cons.prems obtain fe' where f: "find_token st cts fe = (True, fe')" "find_tokens sts cts fe' = Some p"
    by (auto split: prod.splits bool.splits)
  then show ?case using Cons.IH [OF f(2)] find_token_found [of st cts fe] by simp
qed simp

lemma find_tokens_complete:
  "\<forall>st \<in> set sts. \<exists>ct \<in> set cts. token_matches st ct \<Longrightarrow>
   find_tokens sts cts fe = None \<Longrightarrow> fe = None \<and> (\<forall>st \<in> set sts. st \<in> set cts)"
proof (induction sts arbitrary: fe)
  case (Cons st sts)
  obtain fe' where f: "find_token st cts fe = (True, fe')"
    using Cons.prems(1) find_token_found [of st cts fe] by (cases "find_token st cts fe") auto
  have fe': "fe' = None" "\<forall>st \<in> set sts. st \<in> set cts" using Cons.IH [of fe'] Cons.prems f by auto
  then show ?case using f find_token_exact [of st cts fe] by auto
qed simp

lemma token_tiers:
  assumes "token_containment sts cts = (None :: 'f MatchSignal option)"
  shows "(token_edit_match sts cts :: 'f MatchSignal option) \<noteq> None \<longleftrightarrow> tokens_match sts cts"
proof (cases "sts = [] \<or> cts = []")
  case False
  then have "\<not> (\<forall>st \<in> set sts. st \<in> set cts)"
    using assms by (auto simp: token_containment_def list_all_iff split: if_splits)
  then have "find_tokens sts cts None \<noteq> None \<longleftrightarrow> (\<forall>st \<in> set sts. \<exists>ct \<in> set cts. token_matches st ct)"
    using find_tokens_sound [of sts cts None] find_tokens_complete [of sts cts None] by blast
  then show ?thesis using False by (auto simp: token_edit_match_def tokens_match_def)
qed (auto simp: token_edit_match_def tokens_match_def)

lemma token_containment_matches: "token_containment sts cts = Some sig \<Longrightarrow> tokens_match sts cts"
  by (auto simp: token_containment_def tokens_match_def token_matches_def list_all_iff split: if_splits)

lemma position_None: "position P xs = None \<longleftrightarrow> (\<forall>x \<in> set xs. \<not> P x)"
  by (induction xs) auto

lemma segment_exact_match_hit:
  "2 \<le> length (tokenize (normalize q)) \<Longrightarrow> segment_exact_match (normalize q) v \<noteq> None \<longleftrightarrow> segment_hit q v"
  by (simp add: segment_exact_match_def segment_hit_def position_None del: not_None_eq)

abbreviation query_tokens :: "string \<Rightarrow> string list" where
  "query_tokens q \<equiv> tokenize (normalize q)"

abbreviation phase1_score :: "'f f64_ops \<Rightarrow> string \<Rightarrow> string \<Rightarrow> 'f MatchScore option" where
  "phase1_score F q v \<equiv> score_candidate_phase1 F (normalize q) (query_tokens q) v"

lemma phase1_score_eq:
  "phase1_score F q v =
     (if normalize v = normalize q then Some (match_score_new F v [Exact])
      else if segment_hit q v
      then Some (match_score_new F v [SegmentExact (as_u32 (the (segment_exact_match (normalize q) v)))])
      else case token_containment (query_tokens q) (query_tokens v) of
             Some sig \<Rightarrow> Some (match_score_new F v [sig])
           | None \<Rightarrow> map_option (\<lambda>sig. match_score_new F v [sig]) (token_edit_match (query_tokens q) (query_tokens v)))"
proof -
  have "segment_hit q v \<longleftrightarrow> 2 \<le> length (query_tokens q) \<and> segment_exact_match (normalize q) v \<noteq> None"
    using segment_exact_match_hit [of q v] by (auto simp: segment_hit_def)
  then show ?thesis
    by (auto simp: score_candidate_phase1_def score_candidate_phase1_prepared_def phase1_signals_def Let_def
        split: option.splits)
qed

lemma token_containment_form:
  "token_containment sts cts = Some sig \<Longrightarrow> set sts \<subseteq> set cts \<and> (\<exists>i j. sig = TokenContainment i j)"
  by (auto simp: token_containment_def list_all_iff split: if_splits)

lemma token_containment_None:
  "token_containment sts cts = None \<Longrightarrow> tokens_match sts cts \<Longrightarrow> \<not> set sts \<subseteq> set cts"
  by (auto simp: token_containment_def tokens_match_def list_all_iff split: if_splits)

lemma token_edit_match_form: "token_edit_match sts cts = Some sig \<Longrightarrow> \<exists>x y. sig = EditDistance x y"
  by (auto simp: token_edit_match_def split: if_splits)

lemma phase1_cases [case_names exact segment containment edit none]:
  obtains
    (exact) "normalize v = normalize q" "phase1_score F q v = Some (match_score_new F v [Exact])"
  | (segment) i where "normalize v \<noteq> normalize q" "segment_hit q v"
      "phase1_score F q v = Some (match_score_new F v [SegmentExact i])"
  | (containment) i j where "normalize v \<noteq> normalize q" "\<not> segment_hit q v"
      "tokens_match (query_tokens q) (query_tokens v)" "set (query_tokens q) \<subseteq> set (query_tokens v)"
      "phase1_score F q v = Some (match_score_new F v [TokenContainment i j])"
  | (edit) x y where "normalize v \<noteq> normalize q" "\<not> segment_hit q v"
      "tokens_match (query_tokens q) (query_tokens v)" "\<not> set (query_tokens q) \<subseteq> set (query_tokens v)"
      "phase1_score F q v = Some (match_score_new F v [EditDistance x y])"
  | (none) "normalize v \<noteq> normalize q" "\<not> segment_hit q v"
      "\<not> tokens_match (query_tokens q) (query_tokens v)" "phase1_score F q v = None"
proof -
  let ?c = "token_containment (query_tokens q) (query_tokens v) :: 'a MatchSignal option"
  let ?e = "token_edit_match (query_tokens q) (query_tokens v) :: 'a MatchSignal option"
  consider "normalize v = normalize q" | "normalize v \<noteq> normalize q" "segment_hit q v"
    | sig where "normalize v \<noteq> normalize q" "\<not> segment_hit q v" "?c = Some sig"
    | sig where "normalize v \<noteq> normalize q" "\<not> segment_hit q v" "?c = None" "?e = Some sig"
    | "normalize v \<noteq> normalize q" "\<not> segment_hit q v" "?c = None" "?e = None" by (cases ?c; cases ?e) auto
  then show thesis
  proof cases
    case 1
    then show thesis by (intro that(1)) (simp_all add: phase1_score_eq)
  next
    case 2
    then show thesis by (intro that(2)) (simp_all add: phase1_score_eq)
  next
    case 3
    with token_containment_form [OF 3(3)] token_containment_matches [OF 3(3)] show thesis
      by (auto simp: phase1_score_eq intro: that(3))
  next
    case 4
    moreover obtain x y where "sig = EditDistance x y" using token_edit_match_form [OF 4(4)] by blast
    ultimately show thesis using token_tiers [OF 4(3)] token_containment_None [OF 4(3)]
      by (intro that(4) [of x y]) (simp_all add: phase1_score_eq)
  next
    case 5
    then show thesis using token_tiers [OF 5(3)] by (intro that(5)) (simp_all add: phase1_score_eq)
  qed
qed

text \<open>What the pipeline relies on: points of a fraction of \<open>k\<close> are at most \<open>k\<close>.\<close>

definition points_bounded :: "'f f64_ops \<Rightarrow> bool" where
  "points_bounded F \<longleftrightarrow> (\<forall>k x. f64_points F k x \<le> k)"

lemma match_score_new_simps [simp]:
  "ms_value (match_score_new F v sigs) = v"
  "ms_signals (match_score_new F v sigs) = sigs"
  "ms_points (match_score_new F v sigs) = sum_list (map (signal_points F) sigs)"
  by (simp_all add: match_score_new_def)

lemma containment_points:
  "points_bounded F \<Longrightarrow> signal_points F (TokenContainment i j) \<in> {80..98}"
  by (simp add: points_bounded_def)

text \<open>
  The edit distance test accepts two words if and only if they are equal or one becomes the other by
  one substitution, insertion, deletion or transposition of neighbours.
\<close>

theorem edit_distance_exact: "edit_distance_at_most_one a b \<longleftrightarrow> one_edit a b"
  by (rule edit_distance_one_edit)

text \<open>
  The tiers of phase one: equal normal forms score 100, a segment of a compound name 95, tokens all
  contained in the candidate 80 to 98, tokens all matched up to one edit 60, anything else nothing; a
  token that is a number is only ever matched by itself.
\<close>

theorem phase1_tiers_exact:
  assumes "points_bounded F"
  shows "case phase1_score F q v of
      None \<Rightarrow> normalize v \<noteq> normalize q \<and> \<not> segment_hit q v \<and> \<not> tokens_match (query_tokens q) (query_tokens v)
    | Some m \<Rightarrow>
        ms_value m = v
        \<and> (if normalize v = normalize q then ms_points m = 100
           else if segment_hit q v then ms_points m = 95
           else tokens_match (query_tokens q) (query_tokens v)
             \<and> (if set (query_tokens q) \<subseteq> set (query_tokens v) then ms_points m \<in> {80..98} else ms_points m = 60))"
  by (cases rule: phase1_cases [of v q F]) (use containment_points [OF assms] in simp_all)

subsection \<open>The resolution pipeline\<close>

lemma phase1_points_60: "phase1_score F q v = Some m \<Longrightarrow> 60 \<le> ms_points m"
  by (cases rule: phase1_cases [of v q F]) auto

lemma phase1_points_100:
  assumes "points_bounded F" "phase1_score F q v = Some m"
  shows "100 \<le> ms_points m \<longleftrightarrow> normalize v = normalize q"
proof (cases rule: phase1_cases [of v q F])
  case (containment i j)
  then show ?thesis using assms(2) containment_points [OF assms(1), of i j] by (auto simp del: signal_points.simps)
qed (use assms(2) in auto)

lemma phase1_score_exact: "normalize v = normalize q \<Longrightarrow> phase1_score F q v = Some (match_score_new F v [Exact])"
  by (simp add: phase1_score_eq)

lemma score_prepared:
  "score_candidate_phase1_prepared F (normalize q) (query_tokens q) v (normalize v) (query_tokens v) = phase1_score F q v"
  by (simp add: score_candidate_phase1_def Let_def)

lemma corpus_new_simps [simp]:
  "corpus_new [] = []"
  "corpus_new (v # vs) =
     \<lparr>ce_value = v, ce_normalized = normalize v, ce_tokens = query_tokens v,
      ce_bigrams = bigrams_with_boundaries (normalize v)\<rparr> # corpus_new vs"
  by (simp_all add: corpus_new_def Let_def)

lemma prepared_query_simps [simp]:
  "pq_normalized (prepared_query_new q) = normalize q"
  "pq_tokens (prepared_query_new q) = query_tokens q"
  "pq_bigrams (prepared_query_new q) = bigrams_with_boundaries (normalize q)"
  by (simp_all add: prepared_query_new_def Let_def)

text \<open>What phase one contributes: the scores of all values, in their order.\<close>

definition phase1_matches :: "'f f64_ops \<Rightarrow> string \<Rightarrow> string list \<Rightarrow> 'f MatchScore list" where
  "phase1_matches F q vs = List.map_filter (phase1_score F q) vs"

lemma phase1_matches_simps:
  "phase1_matches F q [] = []"
  "phase1_matches F q (v # vs) =
     (case phase1_score F q v of None \<Rightarrow> phase1_matches F q vs | Some m \<Rightarrow> m # phase1_matches F q vs)"
  by (simp_all add: phase1_matches_def List.map_filter_simps split: option.split)

lemma threshold_60: "threshold strategy \<le> 60"
  by (cases strategy) simp_all

lemma phase1_loop_runs:
  assumes "points_bounded F" "strategy = DisplayName \<or> (\<forall>v \<in> set vs. normalize v \<noteq> normalize q)"
  shows "\<exists>st'. phase1_loop F (prepared_query_new q) strategy i (corpus_new vs) st = Inr st'
     \<and> p1_candidates st' = p1_candidates st @ phase1_matches F q vs
     \<and> p1_best st \<le> p1_best st'
     \<and> (if phase1_matches F q vs = [] then st' = st else 60 \<le> p1_best st')"
  using assms(2)
proof (induction vs arbitrary: i st)
  case (Cons v vs)
  show ?case
  proof (cases "phase1_score F q v")
    case None
    then have "phase1_loop F (prepared_query_new q) strategy i (corpus_new (v # vs)) st =
        phase1_loop F (prepared_query_new q) strategy (Suc i) (corpus_new vs) st"
      "phase1_matches F q (v # vs) = phase1_matches F q vs"
      by (simp_all add: score_prepared phase1_matches_simps)
    moreover have "strategy = DisplayName \<or> (\<forall>v \<in> set vs. normalize v \<noteq> normalize q)" using Cons.prems by auto
    ultimately show ?thesis using Cons.IH [of "Suc i" st] by (simp only:)
  next
    case (Some m)
    define st1 where "st1 = (if ms_points m > p1_best st then st\<lparr>p1_best := ms_points m\<rparr> else st)"
    define st2 where "st2 = st1\<lparr>p1_matched := insert i (p1_matched st1), p1_candidates := p1_candidates st1 @ [m]\<rparr>"
    have pts: "60 \<le> ms_points m" using Some by (rule phase1_points_60)
    have "threshold strategy \<le> ms_points m" using pts threshold_60 [of strategy] by simp
    moreover have "\<not> (strategy = Categorical \<and> 100 \<le> ms_points m)"
      using Cons.prems phase1_points_100 [OF assms(1) Some] by auto
    ultimately have step: "phase1_loop F (prepared_query_new q) strategy i (corpus_new (v # vs)) st =
        phase1_loop F (prepared_query_new q) strategy (Suc i) (corpus_new vs) st2"
      using Some by (auto simp: score_prepared st1_def st2_def Let_def)
    have "p1_candidates st2 = p1_candidates st @ [m]" "p1_best st \<le> p1_best st2" "60 \<le> p1_best st2"
      using pts by (auto simp: st1_def st2_def)
    moreover obtain st' where "phase1_loop F (prepared_query_new q) strategy (Suc i) (corpus_new vs) st2 = Inr st'"
      "p1_candidates st' = p1_candidates st2 @ phase1_matches F q vs" "p1_best st2 \<le> p1_best st'"
      using Cons.IH [of "Suc i" st2] Cons.prems by auto
    ultimately show ?thesis using step Some by (auto simp: phase1_matches_simps)
  qed
qed (simp add: phase1_matches_simps)

lemma phase1_loop_exits:
  assumes "points_bounded F" "List.find (\<lambda>v. normalize v = normalize q) vs = Some v"
  shows "phase1_loop F (prepared_query_new q) Categorical i (corpus_new vs) st = Inl (match_score_new F v [Exact])"
  using assms(2)
proof (induction vs arbitrary: i st)
  case (Cons w vs)
  show ?case
  proof (cases "normalize w = normalize q")
    case True
    then have "phase1_score F q w = Some (match_score_new F w [Exact])" "w = v"
      using Cons.prems by (simp_all add: phase1_score_exact)
    then show ?thesis by (simp add: score_prepared [of F q v] Let_def)
  next
    case False
    then have "List.find (\<lambda>v. normalize v = normalize q) vs = Some v" using Cons.prems by simp
    note IH = Cons.IH [OF this]
    show ?thesis
    proof (cases "phase1_score F q w")
      case (Some m)
      then have "\<not> 100 \<le> ms_points m" using False phase1_points_100 [OF assms(1)] by blast
      then show ?thesis using Some IH by (simp add: score_prepared Let_def)
    qed (simp add: score_prepared IH)
  qed
qed simp

lemma bigrams_nonempty: "bigrams_with_boundaries s \<noteq> {}"
  by (cases s) (simp_all add: bigrams_with_boundaries_def Let_def)

definition jaccard_match :: "'f f64_ops \<Rightarrow> ResolveStrategy \<Rightarrow> string \<Rightarrow> string \<Rightarrow> 'f MatchScore option" where
  "jaccard_match F strategy q v =
     (let sim = jaccard_from_bigrams F (bigrams_with_boundaries (normalize q)) (bigrams_with_boundaries (normalize v))
      in if f64_at_least_30 F sim \<and> threshold strategy \<le> f64_points F 40 sim
         then Some (match_score_new F v [JaccardNgram sim]) else None)"

lemma jaccard_loop_matches:
  "jaccard_loop F (prepared_query_new q) strategy {} i (corpus_new vs) cs = cs @ List.map_filter (jaccard_match F strategy q) vs"
  by (induction vs arbitrary: i cs)
    (simp_all add: List.map_filter_simps bigrams_nonempty jaccard_match_def Let_def)

lemma points_below_60: "points_bounded F \<Longrightarrow> k < 60 \<Longrightarrow> \<not> 60 \<le> f64_points F k x"
  unfolding points_bounded_def by (metis le_trans not_le)

lemma jaccard_match_Categorical: "points_bounded F \<Longrightarrow> jaccard_match F Categorical q v = None"
  by (simp add: jaccard_match_def Let_def points_below_60)

text \<open>The candidates before vector hits are looked at.\<close>

definition lexical_matches :: "'f f64_ops \<Rightarrow> string \<Rightarrow> string list \<Rightarrow> ResolveStrategy \<Rightarrow> 'f MatchScore list" where
  "lexical_matches F q vs strategy =
     (if phase1_matches F q vs \<noteq> [] then phase1_matches F q vs
      else List.map_filter (jaccard_match F strategy q) vs)"

definition by_points :: "'f MatchScore list \<Rightarrow> 'f MatchScore list" where
  "by_points ms = sort_key (\<lambda>m. - int (ms_points m)) ms"

definition with_vectors ::
  "'f f64_ops \<Rightarrow> ResolveStrategy \<Rightarrow> 'f VectorMatch list option \<Rightarrow> 'f MatchScore list \<Rightarrow> 'f MatchScore list" where
  "with_vectors F strategy vm ms =
     (case vm of None \<Rightarrow> ms | Some hits \<Rightarrow> vector_loop F strategy hits (norm_to_idx ms) ms)"

lemma resolve_value_runs:
  assumes "points_bounded F" "strategy = DisplayName \<or> (\<forall>v \<in> set vs. normalize v \<noteq> normalize q)"
  shows "resolve_value F q vs strategy vm = by_points (with_vectors F strategy vm (lexical_matches F q vs strategy))"
proof -
  let ?st = "\<lparr>p1_candidates = [], p1_best = 0, p1_matched = {}\<rparr> :: 'a phase1_state"
  obtain st where st: "phase1_loop F (prepared_query_new q) strategy 0 (corpus_new vs) ?st = Inr st"
    "p1_candidates st = phase1_matches F q vs"
    "if phase1_matches F q vs = [] then st = ?st else 60 \<le> p1_best st"
    using phase1_loop_runs [OF assms, of 0 ?st] by auto
  have "(if p1_best st < 60 then jaccard_loop F (prepared_query_new q) strategy (p1_matched st) 0 (corpus_new vs) (p1_candidates st)
        else p1_candidates st) = lexical_matches F q vs strategy"
    using st(2,3) by (auto simp: lexical_matches_def jaccard_loop_matches split: if_splits)
  then show ?thesis using st(1)
    by (simp add: resolve_value_def resolve_value_prepared_def resolve_value_amortized_def by_points_def
        with_vectors_def Let_def)
qed

lemma resolve_value_exits:
  assumes "points_bounded F" "List.find (\<lambda>v. normalize v = normalize q) vs = Some v"
  shows "resolve_value F q vs Categorical vm = [match_score_new F v [Exact]]"
  using phase1_loop_exits [OF assms]
  by (simp add: resolve_value_def resolve_value_prepared_def resolve_value_amortized_def)

text \<open>
  Resolution without vectors is exact. A categorical column with a value of the same normal form
  resolves to the first such value alone; otherwise the result is all phase-one matches, best first and
  in the order of the values among equals, and only when there are none, for a display name, the values
  that share enough bigrams.
\<close>

theorem resolve_value_exact:
  assumes "points_bounded F"
  shows "resolve_value F q vs strategy None =
    (if strategy = Categorical
     then (case List.find (\<lambda>v. normalize v = normalize q) vs of
             Some v \<Rightarrow> [match_score_new F v [Exact]]
           | None \<Rightarrow> by_points (phase1_matches F q vs))
     else if phase1_matches F q vs \<noteq> [] then by_points (phase1_matches F q vs)
     else by_points (List.map_filter (jaccard_match F DisplayName q) vs))"
proof (cases "strategy = Categorical \<and> (\<exists>v. List.find (\<lambda>v. normalize v = normalize q) vs = Some v)")
  case True
  then show ?thesis using resolve_value_exits [OF assms] by auto
next
  case False
  have "List.map_filter (jaccard_match F Categorical q) vs = []"
    by (induction vs) (simp_all add: List.map_filter_simps jaccard_match_Categorical [OF assms])
  moreover have "strategy = DisplayName \<or> (\<forall>v \<in> set vs. normalize v \<noteq> normalize q)"
    using False find_None_iff [of "\<lambda>v. normalize v = normalize q" vs] by (cases strategy) auto
  ultimately show ?thesis using False resolve_value_runs [OF assms, of strategy vs q None]
    by (cases strategy) (auto simp: with_vectors_def lexical_matches_def split: option.split)
qed

subsection \<open>Vector hits\<close>

text \<open>A score with the signals of some hits on values of its normal form added.\<close>

definition boosted :: "'f VectorMatch list \<Rightarrow> 'f MatchScore \<Rightarrow> 'f MatchScore \<Rightarrow> bool" where
  "boosted hits m m' \<longleftrightarrow>
     ms_value m' = ms_value m \<and>
     (\<exists>sigs. ms_signals m' = ms_signals m @ sigs \<and>
        (\<forall>s \<in> set sigs. \<exists>h \<in> set hits.
           normalize (vm_value h) = normalize (ms_value m) \<and> s = VectorSimilarity (vm_cosine h)))"

definition well_scored :: "'f f64_ops \<Rightarrow> 'f MatchScore \<Rightarrow> bool" where
  "well_scored F m \<longleftrightarrow> ms_points m = sum_list (map (signal_points F) (ms_signals m))"

definition vector_score :: "'f f64_ops \<Rightarrow> 'f VectorMatch \<Rightarrow> 'f MatchScore" where
  "vector_score F h = match_score_new F (vm_value h) [VectorSimilarity (vm_cosine h)]"

definition index_ok :: "(string \<rightharpoonup> nat) \<Rightarrow> 'f MatchScore list \<Rightarrow> bool" where
  "index_ok index ms \<longleftrightarrow> (\<forall>n i. index n = Some i \<longrightarrow> i < length ms \<and> normalize (ms_value (ms ! i)) = n)"

lemma boosted_refl [simp]: "boosted hits m m"
  by (simp add: boosted_def)

lemma boosted_trans:
  assumes "boosted hits m m1" "boosted hits m1 m2"
  shows "boosted hits m m2"
proof -
  obtain s1 s2 where "ms_signals m1 = ms_signals m @ s1" "ms_signals m2 = ms_signals m1 @ s2"
    "\<forall>s \<in> set (s1 @ s2). \<exists>h \<in> set hits.
       normalize (vm_value h) = normalize (ms_value m) \<and> s = VectorSimilarity (vm_cosine h)"
    using assms unfolding boosted_def by (metis Un_iff set_append)
  then show ?thesis using assms unfolding boosted_def by (metis append_assoc)
qed

lemma boosted_more: "boosted hits m m' \<Longrightarrow> boosted (h # hits) m m'"
  unfolding boosted_def by (metis list.set_intros(2))

lemma boosted_points: "boosted hits m m' \<Longrightarrow> well_scored F m \<Longrightarrow> well_scored F m' \<Longrightarrow> ms_points m \<le> ms_points m'"
  by (auto simp: boosted_def well_scored_def)

lemma boosted_add_signal:
  "normalize (vm_value h) = normalize (ms_value m) \<Longrightarrow>
   boosted (h # hits) m (add_signal F (VectorSimilarity (vm_cosine h)) m)"
  by (auto simp: boosted_def add_signal_def Let_def)

lemma well_scored_new [simp]: "well_scored F (match_score_new F v sigs)"
  by (simp add: well_scored_def)

lemma well_scored_add [simp]: "well_scored F (add_signal F sig m)"
  by (simp add: well_scored_def add_signal_def Let_def)

lemma norm_to_idx_ok: "index_ok (norm_to_idx ms) ms"
  unfolding index_ok_def norm_to_idx_def
  by (auto dest!: map_of_SomeD simp: set_zip)

lemma index_ok_boost: "index_ok index ms \<Longrightarrow> ms_value m = ms_value (ms ! i) \<Longrightarrow> index_ok index (ms[i := m])"
  unfolding index_ok_def by (metis length_list_update nth_list_update_eq nth_list_update_neq)

lemma index_ok_append:
  "index_ok index ms \<Longrightarrow> index_ok (index(normalize (ms_value m) \<mapsto> length ms)) (ms @ [m])"
  unfolding index_ok_def by (auto simp: nth_append intro: less_SucI)

lemma vector_loop_well_scored:
  "\<forall>m \<in> set ms. well_scored F m \<Longrightarrow> \<forall>m \<in> set (vector_loop F strategy hits index ms). well_scored F m"
proof (induction hits arbitrary: index ms)
  case (Cons h hits)
  then show ?case
    by (auto simp: Let_def split: option.split dest!: set_update_subset_insert [THEN subsetD] intro!: Cons.IH)
qed simp

definition vector_results ::
  "'f f64_ops \<Rightarrow> ResolveStrategy \<Rightarrow> 'f VectorMatch list \<Rightarrow> 'f MatchScore list \<Rightarrow> 'f MatchScore list \<Rightarrow> bool" where
  "vector_results F strategy hits ms rs \<longleftrightarrow>
     (\<exists>ms' new. rs = ms' @ new \<and> list_all2 (boosted hits) ms ms' \<and>
        (\<forall>m \<in> set new. \<exists>h \<in> set hits.
           threshold strategy \<le> ms_points (vector_score F h) \<and> boosted hits (vector_score F h) m))"

lemma vector_results_more: "vector_results F strategy hits ms rs \<Longrightarrow> vector_results F strategy (h # hits) ms rs"
  unfolding vector_results_def
  by (elim exE conjE, intro exI conjI, assumption)
    (auto elim: list_all2_mono intro: boosted_more)

lemma vector_results_boost:
  assumes "vector_results F strategy hits (ms[i := m]) rs" "boosted hits (ms ! i) m"
  shows "vector_results F strategy hits ms rs"
proof -
  have "list_all2 (boosted hits) ms (ms[i := m])"
    using assms(2) by (auto simp: list_all2_conv_all_nth) (metis boosted_refl nth_list_update_eq nth_list_update_neq)
  then show ?thesis
    using assms(1) list_all2_trans [of "boosted hits" "boosted hits" "boosted hits"] boosted_trans
    unfolding vector_results_def by (metis (no_types, lifting))
qed

lemma vector_results_new:
  assumes "vector_results F strategy hits (ms @ [vector_score F h]) rs"
    "h \<in> set hits" "threshold strategy \<le> ms_points (vector_score F h)"
  shows "vector_results F strategy hits ms rs"
proof -
  obtain ms' new where rs: "rs = ms' @ new" "list_all2 (boosted hits) (ms @ [vector_score F h]) ms'"
    "\<forall>m \<in> set new. \<exists>h \<in> set hits. threshold strategy \<le> ms_points (vector_score F h) \<and> boosted hits (vector_score F h) m"
    using assms(1) unfolding vector_results_def by blast
  obtain ms1 m where "ms' = ms1 @ [m]" "list_all2 (boosted hits) ms ms1" "boosted hits (vector_score F h) m"
    using rs(2) by (auto simp: list_all2_append1 list_all2_Cons1)
  then show ?thesis using rs(1,3) assms(2,3) unfolding vector_results_def
    by (intro exI [of _ ms1] exI [of _ "m # new"]) auto
qed

lemma vector_loop_results:
  "index_ok index ms \<Longrightarrow> vector_results F strategy hits ms (vector_loop F strategy hits index ms)"
proof (induction hits arbitrary: index ms)
  case Nil
  then show ?case by (simp add: vector_results_def list_all2_refl)
next
  case (Cons h hits)
  let ?n = "normalize (vm_value h)"
  consider i where "index ?n = Some i"
    | "index ?n = None" "threshold strategy \<le> ms_points (vector_score F h)"
    | "index ?n = None" "\<not> threshold strategy \<le> ms_points (vector_score F h)" by (cases "index ?n") auto
  then show ?case
  proof cases
    case 1
    let ?m = "add_signal F (VectorSimilarity (vm_cosine h)) (ms ! i)"
    have "?n = normalize (ms_value (ms ! i))" using Cons.prems 1 by (simp add: index_ok_def)
    then have b: "boosted (h # hits) (ms ! i) ?m" by (rule boosted_add_signal)
    then have "ms_value ?m = ms_value (ms ! i)" by (simp add: boosted_def)
    then have "vector_results F strategy hits (ms[i := ?m]) (vector_loop F strategy hits index (ms[i := ?m]))"
      using Cons by (intro Cons.IH index_ok_boost) auto
    from vector_results_boost [OF vector_results_more [OF this] b] show ?thesis using 1 by (simp add: Let_def)
  next
    case 2
    have "index_ok (index(?n \<mapsto> length ms)) (ms @ [vector_score F h])"
      using index_ok_append [OF Cons.prems, of "vector_score F h"] by (simp add: vector_score_def)
    from vector_results_more [OF Cons.IH [OF this], of h]
    have "vector_results F strategy (h # hits) ms
        (vector_loop F strategy hits (index(?n \<mapsto> length ms)) (ms @ [vector_score F h]))"
      by (rule vector_results_new) (use 2(2) in simp_all)
    then show ?thesis using 2 by (simp add: Let_def vector_score_def del: fun_upd_apply)
  next
    case 3
    then show ?thesis using vector_results_more [OF Cons.IH [OF Cons.prems]] by (simp add: Let_def vector_score_def)
  qed
qed

lemma vector_results_Categorical:
  assumes "points_bounded F" "vector_results F Categorical hits ms rs"
  shows "list_all2 (boosted hits) ms rs"
proof -
  have "\<not> threshold Categorical \<le> ms_points (vector_score F h)" for h
    using assms(1) by (simp add: vector_score_def points_below_60)
  then show ?thesis using assms(2) unfolding vector_results_def by (metis append_Nil2 list.set_sel(1))
qed

lemma boosted_values: "list_all2 (boosted hits) ms rs \<Longrightarrow> map ms_value rs = map ms_value ms"
  by (auto simp: list_all2_conv_all_nth boosted_def intro: nth_equalityI)

lemma with_vectors_results: "vector_results F strategy (case vm of None \<Rightarrow> [] | Some hits \<Rightarrow> hits) ms (with_vectors F strategy vm ms)"
  using vector_loop_results [OF norm_to_idx_ok]
  by (cases vm) (simp_all add: with_vectors_def vector_results_def list_all2_refl del: bex_simps)

lemma set_by_points [simp]: "set (by_points ms) = set ms" "mset (by_points ms) = mset ms"
  by (simp_all add: by_points_def)

lemma sorted_by_points: "sorted_wrt (\<lambda>m n. ms_points n \<le> ms_points m) (by_points ms)"
  using sorted_sort_key [of "\<lambda>m. - int (ms_points m)" ms]
  by (simp add: by_points_def sorted_map)

lemma lexical_matches_scored:
  "\<forall>m \<in> set (lexical_matches F q vs strategy). well_scored F m \<and> threshold strategy \<le> ms_points m"
proof -
  have "well_scored F m \<and> threshold strategy \<le> ms_points m" if "phase1_score F q v = Some m" for v m
    using phase1_points_60 [OF that] threshold_60 [of strategy] that
    by (cases rule: phase1_cases [of v q F]) auto
  moreover have "well_scored F m \<and> threshold strategy \<le> ms_points m" if "jaccard_match F strategy q v = Some m" for v m
    using that by (auto simp: jaccard_match_def Let_def split: if_splits)
  ultimately show ?thesis
    by (auto simp: lexical_matches_def phase1_matches_def List.map_filter_def)
qed

lemma vector_results_scored:
  assumes "vector_results F strategy hits ms rs" "\<forall>m \<in> set ms. well_scored F m \<and> threshold strategy \<le> ms_points m"
    "\<forall>m \<in> set rs. well_scored F m" "r \<in> set rs"
  shows "threshold strategy \<le> ms_points r
    \<and> (\<exists>m. boosted hits m r \<and> (m \<in> set ms \<or> m \<in> vector_score F ` set hits))"
proof -
  obtain m where m: "boosted hits m r" "m \<in> set ms \<or> m \<in> vector_score F ` set hits"
    "well_scored F m" "threshold strategy \<le> ms_points m"
  proof -
    obtain ms' new where rs: "rs = ms' @ new" "list_all2 (boosted hits) ms ms'"
      "\<forall>m \<in> set new. \<exists>h \<in> set hits. threshold strategy \<le> ms_points (vector_score F h) \<and> boosted hits (vector_score F h) m"
      using assms(1) unfolding vector_results_def by blast
    then consider "r \<in> set ms'" | "r \<in> set new" using assms(4) by auto
    then show thesis
    proof cases
      case 1
      then show thesis using rs(2) assms(2) that by (fastforce simp: list_all2_conv_all_nth in_set_conv_nth)
    next
      case 2
      then show thesis using rs(3) that by (fastforce simp: vector_score_def)
    qed
  qed
  then show ?thesis using boosted_points [OF m(1,3)] assms(3,4) le_trans by blast
qed

lemma categorical_exact_lexical:
  assumes "List.find (\<lambda>v. normalize v = normalize q) vs = Some v"
  shows "match_score_new F v [Exact] \<in> set (lexical_matches F q vs strategy)"
proof -
  have "v \<in> set vs" "normalize v = normalize q" using assms by (auto simp: find_Some_iff)
  then have "match_score_new F v [Exact] \<in> set (phase1_matches F q vs)"
    by (auto simp: phase1_matches_def List.map_filter_def phase1_score_exact intro!: image_eqI [of _ _ v])
  then show ?thesis by (auto simp: lexical_matches_def)
qed

lemma with_vectors_scored:
  "\<forall>m \<in> set ms. well_scored F m \<Longrightarrow> \<forall>m \<in> set (with_vectors F strategy vm ms). well_scored F m"
  using vector_loop_well_scored [of ms F strategy _ "norm_to_idx ms"] by (auto simp: with_vectors_def split: option.split)

lemma resolve_value_split [consumes 1, case_names exits runs]:
  assumes "points_bounded F"
  obtains
    (exits) v where "strategy = Categorical" "List.find (\<lambda>v. normalize v = normalize q) vs = Some v"
      "\<And>vm. resolve_value F q vs strategy vm = [match_score_new F v [Exact]]"
  | (runs) "\<And>vm. resolve_value F q vs strategy vm = by_points (with_vectors F strategy vm (lexical_matches F q vs strategy))"
proof (cases "strategy = Categorical \<and> (\<exists>v. List.find (\<lambda>v. normalize v = normalize q) vs = Some v)")
  case True
  then show thesis using resolve_value_exits [OF assms] exits by blast
next
  case False
  then have "strategy = DisplayName \<or> (\<forall>v \<in> set vs. normalize v \<noteq> normalize q)"
    using find_None_iff [of "\<lambda>v. normalize v = normalize q" vs] by (cases strategy) auto
  then show thesis using resolve_value_runs [OF assms] runs by blast
qed

text \<open>
  Every result of a resolution, with vector hits too, is sound: best first, at or above the
  threshold of the strategy, scored by the sum of its signals, and a match of the text or of a vector hit
  to which only hits on values with its own normal form were added.
\<close>

theorem resolve_results_sound:
  assumes "points_bounded F"
  shows "sorted_wrt (\<lambda>m n. ms_points n \<le> ms_points m) (resolve_value F q vs strategy (Some hits))
    \<and> (\<forall>r \<in> set (resolve_value F q vs strategy (Some hits)).
         threshold strategy \<le> ms_points r \<and> well_scored F r
         \<and> (\<exists>m. boosted hits m r \<and> (m \<in> set (lexical_matches F q vs strategy) \<or> m \<in> vector_score F ` set hits)))"
  using assms
proof (cases rule: resolve_value_split [where F = F and strategy = strategy and q = q and vs = vs])
  case (exits v)
  then show ?thesis using categorical_exact_lexical [of q vs v F strategy] by (auto intro!: exI [of _ "match_score_new F v [Exact]"])
next
  case runs
  let ?ms = "lexical_matches F q vs strategy"
  have "\<forall>m \<in> set (with_vectors F strategy (Some hits) ?ms). well_scored F m"
    using lexical_matches_scored [of F q vs strategy] by (intro with_vectors_scored) blast
  then show ?thesis
    using runs [of "Some hits"] sorted_by_points
      vector_results_scored [OF with_vectors_results [of F strategy "Some hits" ?ms, simplified] lexical_matches_scored]
    by auto
qed

text \<open>
  A vector hit never adds a value to a categorical resolution: its points stay below the threshold,
  so the values found are those found without vectors.
\<close>

theorem categorical_ignores_new_vectors:
  assumes "points_bounded F"
  shows "mset (map ms_value (resolve_value F q vs Categorical (Some hits))) =
    mset (map ms_value (resolve_value F q vs Categorical None))"
  using assms
proof (cases rule: resolve_value_split [where F = F and strategy = Categorical and q = q and vs = vs])
  case runs
  let ?ms = "lexical_matches F q vs Categorical"
  have "list_all2 (boosted hits) ?ms (with_vectors F Categorical (Some hits) ?ms)"
    using vector_results_Categorical [OF assms] with_vectors_results [of F Categorical "Some hits" ?ms] by simp
  then have "map ms_value (with_vectors F Categorical (Some hits) ?ms) = map ms_value ?ms" by (rule boosted_values)
  then have "mset (map ms_value (by_points (with_vectors F Categorical (Some hits) ?ms))) = mset (map ms_value (by_points ?ms))"
    by (metis mset_map set_by_points(2))
  then show ?thesis using runs by (simp add: with_vectors_def)
qed simp

section \<open>Examples\<close>

text \<open>Fractions as whole percentages, to evaluate the pipeline.\<close>

definition percent_ops :: "nat f64_ops" where
  "percent_ops =
     \<lparr>f64_ratio = (\<lambda>m n. 100 * m div n), f64_points = (\<lambda>k x. min 100 x * k div 100), f64_at_least_30 = (\<lambda>x. 30 \<le> x)\<rparr>"

lemma percent_bounded: "points_bounded percent_ops"
proof -
  have "min 100 x * k div 100 \<le> k" for x k :: nat
  proof -
    have "min 100 x * k \<le> 100 * k" by (rule mult_right_mono) simp_all
    then have "min 100 x * k div 100 \<le> 100 * k div 100" by (rule div_le_mono)
    then show ?thesis by simp
  qed
  then show ?thesis by (simp add: points_bounded_def percent_ops_def)
qed

theorem phase1_tiers_exact_witness:
  "phase1_score percent_ops ''Brand 2'' ''brand 20'' = None
   \<and> \<not> tokens_match (query_tokens ''Brand 2'') (query_tokens ''brand 20'')"
proof -
  have "phase1_score percent_ops ''Brand 2'' ''brand 20'' = None" by code_simp
  then show ?thesis using phase1_tiers_exact [OF percent_bounded, of "''brand 20''" "''Brand 2''"] by simp
qed

theorem resolve_value_exact_witness:
  "resolve_value percent_ops ''Brand 2'' [''brand 20'', ''brand_2''] Categorical None = [match_score_new percent_ops ''brand_2'' [Exact]]"
proof -
  have "List.find (\<lambda>v. normalize v = normalize ''Brand 2'') [''brand 20'', ''brand_2''] = Some ''brand_2''" by code_simp
  then show ?thesis
    using resolve_value_exact [OF percent_bounded, of "''Brand 2''" "[''brand 20'', ''brand_2'']" Categorical] by simp
qed

theorem resolve_results_sound_witness:
  "sorted_wrt (\<lambda>m n. ms_points n \<le> ms_points m)
     (resolve_value percent_ops ''brand 2'' [''brand 2'', ''2 brand''] DisplayName (Some [\<lparr>vm_value = ''2 brand'', vm_cosine = 100\<rparr>]))"
  using resolve_results_sound [OF percent_bounded] by blast

theorem categorical_ignores_new_vectors_witness:
  "mset (map ms_value (resolve_value percent_ops ''shoe'' [''boots''] Categorical (Some [\<lparr>vm_value = ''boots'', vm_cosine = 100\<rparr>]))) =
   mset (map ms_value (resolve_value percent_ops ''shoe'' [''boots''] Categorical None))"
  by (rule categorical_ignores_new_vectors [OF percent_bounded])

text \<open>
  Vector hits break the tiers: a token match with a hit on it overtakes an exact match, and its score is
  above the documented range of 0 to 100.
\<close>

lemma vector_boost_overtakes_exact:
  "map (\<lambda>m. (ms_value m, ms_points m))
     (resolve_value percent_ops ''brand 2'' [''brand 2'', ''2 brand''] DisplayName (Some [\<lparr>vm_value = ''2 brand'', vm_cosine = 100\<rparr>])) =
   [(''2 brand'', 148), (''brand 2'', 100)]"
proof -
  let ?ms = "[\<lparr>ms_points = 100, ms_signals = [Exact], ms_value = ''brand 2''\<rparr>,
    \<lparr>ms_points = 98, ms_signals = [TokenContainment (Suc (Suc 0)) (Suc (Suc 0))], ms_value = ''2 brand''\<rparr>]"
  have n: "normalize ''2 brand'' = ''2 brand''" "normalize ''brand 2'' = ''brand 2''" by code_simp+
  have t: "tokenize ''brand 2'' = [''brand'', ''2'']" "tokenize ''2 brand'' = [''2'', ''brand'']" by code_simp+
  have two: "(200 :: nat) div Suc (Suc 0) = 100" unfolding numeral_2_eq_2 [symmetric] by simp
  have "\<not> sublist '' - '' ''2 brand''" by code_simp
  then have "phase1_score percent_ops ''brand 2'' ''2 brand'' = Some (match_score_new percent_ops ''2 brand'' [TokenContainment (Suc (Suc 0)) (Suc (Suc 0))])"
    by (subst phase1_score_eq) (simp add: n t segment_hit_def token_containment_def as_u32_def)
  then have "phase1_matches percent_ops ''brand 2'' [''brand 2'', ''2 brand''] = ?ms"
    by (simp add: phase1_matches_simps phase1_score_exact match_score_new_def percent_ops_def two)
  then have "lexical_matches percent_ops ''brand 2'' [''brand 2'', ''2 brand''] DisplayName = ?ms"
    by (simp add: lexical_matches_def)
  then show ?thesis
    using resolve_value_runs [OF percent_bounded, of DisplayName "[''brand 2'', ''2 brand'']" "''brand 2''"]
    by (simp add: with_vectors_def norm_to_idx_def n add_signal_def by_points_def percent_ops_def upt_rec two)
qed

end
