(* ===== verification/Wave_Plan.thy ===== *)
theory Wave_Plan
  imports Prelude "HOL-Library.List_Lexorder" "HOL-Library.Char_ord"
begin

text \<open>
  Loading waves of the extraction pipeline, \<open>crates/agent-fw-ingest/src/etl/wave.rs\<close>: the layering of
  tables by their foreign keys (the edges are those of \<open>agent-fw-catalog/src/discovery.rs\<close>).

  The remaining tables are a list without duplicates, in place of a hash set whose order the code
  removes by sorting. The loop is a function with a termination proof.
\<close>

section \<open>Edges and plans\<close>

record ForeignKeyEdge =
  source_table :: string
  source_column :: string
  target_table :: string
  target_column :: string

record LoadingWave =
  wave_number :: nat
  wave_tables :: "string list"

record WavePlan =
  plan_waves :: "LoadingWave list"
  cyclic_tables :: "string list"
  wave_index :: "string \<rightharpoonup> nat"

definition wave_count :: "WavePlan \<Rightarrow> nat" where
  "wave_count p = length (plan_waves p)"

definition wave_of :: "WavePlan \<Rightarrow> string \<Rightarrow> nat option" where
  "wave_of p table = wave_index p table"

definition tables_in_order :: "WavePlan \<Rightarrow> string list" where
  "tables_in_order p = concat (map wave_tables (plan_waves p))"

section \<open>The layering\<close>

definition add_edge :: "string set \<Rightarrow> ForeignKeyEdge \<Rightarrow> (string \<Rightarrow> string set) \<Rightarrow> string \<Rightarrow> string set" where
  "add_edge table_set e deps =
     (if source_table e \<in> table_set \<and> target_table e \<in> table_set \<and> source_table e \<noteq> target_table e
      then deps(source_table e := insert (target_table e) (deps (source_table e)))
      else deps)"

definition dependencies :: "ForeignKeyEdge list \<Rightarrow> string set \<Rightarrow> string \<Rightarrow> string set" where
  "dependencies fk_edges table_set = fold (add_edge table_set) fk_edges (\<lambda>_. {})"

function wave_loop ::
  "(string \<Rightarrow> string set) \<Rightarrow> string list \<Rightarrow> string set \<Rightarrow> LoadingWave list \<Rightarrow> (string \<rightharpoonup> nat) \<Rightarrow>
   LoadingWave list \<times> (string \<rightharpoonup> nat) \<times> string list" where
  "wave_loop deps remaining assigned waves index =
     (let ready = filter (\<lambda>t. deps t \<subseteq> assigned) remaining
      in if ready = [] then (waves, index, remaining)
         else
           let sorted_ready = sort ready;
               wave_idx = length waves;
               index' = fold (\<lambda>t m. m(t \<mapsto> wave_idx)) sorted_ready index
           in wave_loop deps (filter (\<lambda>t. t \<notin> set sorted_ready) remaining) (assigned \<union> set sorted_ready)
                (waves @ [\<lparr>wave_number = wave_idx, wave_tables = sorted_ready\<rparr>]) index')"
  by pat_completeness auto

lemma wave_loop_shrinks:
  assumes "filter P xs \<noteq> []"
  shows "length (filter (\<lambda>t. t \<notin> set (sort (filter P xs))) xs) < length xs"
proof -
  obtain x where "x \<in> set xs" "P x" using assms by (auto simp: filter_empty_conv)
  then show ?thesis by (intro length_filter_less [of x]) simp_all
qed

termination wave_loop
  by (relation "measure (\<lambda>(deps, remaining, assigned, waves, index). length remaining)", simp,
      simp only: in_measure case_prod_conv, rule wave_loop_shrinks, assumption)

declare wave_loop.simps [simp del]

definition compute_loading_waves :: "ForeignKeyEdge list \<Rightarrow> string list \<Rightarrow> WavePlan" where
  "compute_loading_waves fk_edges all_tables =
     (case wave_loop (dependencies fk_edges (set all_tables)) (remdups all_tables) {} [] (\<lambda>_. None) of
        (waves, index, remaining) \<Rightarrow>
          \<lparr>plan_waves = waves, cyclic_tables = sort remaining, wave_index = index\<rparr>)"

section \<open>Layers of the dependency graph\<close>

text \<open>The tables that can be loaded in fewer than \<open>n\<close> waves.\<close>

fun loadable :: "(string \<Rightarrow> string set) \<Rightarrow> string set \<Rightarrow> nat \<Rightarrow> string set" where
  "loadable deps T 0 = {}"
| "loadable deps T (Suc n) = {t \<in> T. deps t \<subseteq> loadable deps T n}"

definition layer :: "(string \<Rightarrow> string set) \<Rightarrow> string set \<Rightarrow> nat \<Rightarrow> string set" where
  "layer deps T n = loadable deps T (Suc n) - loadable deps T n"

lemma loadable_Suc_mono: "loadable deps T n \<subseteq> loadable deps T (Suc n)"
  by (induction n) auto

declare loadable.simps(2) [simp del]

lemma loadable_mono: "m \<le> n \<Longrightarrow> loadable deps T m \<subseteq> loadable deps T n"
  by (rule lift_Suc_mono_le [of "loadable deps T"]) (rule loadable_Suc_mono)

lemma loadable_subset: "loadable deps T n \<subseteq> T"
  by (cases n) (auto simp: loadable.simps)

lemma loadable_layers: "t \<in> loadable deps T n \<longleftrightarrow> (\<exists>i < n. t \<in> layer deps T i)"
proof (induction n)
  case (Suc n)
  have "t \<in> loadable deps T (Suc n) \<longleftrightarrow> t \<in> loadable deps T n \<or> t \<in> layer deps T n"
    using loadable_Suc_mono [of deps T n] by (auto simp: layer_def)
  then show ?case using Suc by (auto simp: less_Suc_eq)
qed simp

lemma loadable_Suc_layers:
  "t \<in> loadable deps T (Suc n) \<longleftrightarrow> t \<in> T \<and> (\<forall>u \<in> deps t. \<exists>j < n. u \<in> layer deps T j)"
  by (auto simp: loadable.simps(2) loadable_layers subset_iff)

lemma layer_unique: "t \<in> layer deps T i \<Longrightarrow> t \<in> layer deps T j \<Longrightarrow> i = j"
proof (induction i j rule: linorder_wlog)
  case (le i j)
  then show ?case using loadable_mono [of "Suc i" j deps T] by (cases "i = j") (auto simp: layer_def)
qed simp

lemma layer_deps: "t \<in> layer deps T i \<Longrightarrow> u \<in> deps t \<Longrightarrow> \<exists>j < i. u \<in> layer deps T j"
  using loadable_Suc_layers [of t deps T i] by (auto simp: layer_def)

lemma layer_0: "layer deps T 0 = {t \<in> T. deps t = {}}"
  by (auto simp: layer_def loadable.simps)

lemma layer_Suc:
  "t \<in> layer deps T (Suc i) \<longleftrightarrow>
     t \<in> T \<and> (\<forall>u \<in> deps t. \<exists>j \<le> i. u \<in> layer deps T j) \<and> (\<exists>u \<in> deps t. u \<in> layer deps T i)"
  (is "?l \<longleftrightarrow> ?r")
proof
  assume l: ?l
  then have t: "t \<in> T" "\<forall>u \<in> deps t. \<exists>j < Suc i. u \<in> layer deps T j" "\<not> (\<forall>u \<in> deps t. \<exists>j < i. u \<in> layer deps T j)"
    using loadable_Suc_layers [of t deps T] by (auto simp: layer_def)
  then show ?r by (metis less_Suc_eq less_Suc_eq_le)
next
  assume r: ?r
  then obtain u where u: "u \<in> deps t" "u \<in> layer deps T i" by blast
  have "t \<in> loadable deps T (Suc (Suc i))" using r by (auto simp: loadable_Suc_layers less_Suc_eq_le)
  moreover have "t \<notin> loadable deps T (Suc i)"
    using u layer_unique by (fastforce simp: loadable_Suc_layers)
  ultimately show ?l by (simp add: layer_def)
qed

section \<open>The loop computes the layers\<close>

definition waves_upto :: "(string \<Rightarrow> string set) \<Rightarrow> string set \<Rightarrow> nat \<Rightarrow> LoadingWave list" where
  "waves_upto deps T n =
     map (\<lambda>i. \<lparr>wave_number = i, wave_tables = sorted_list_of_set (layer deps T i)\<rparr>) [0..<n]"

definition index_upto :: "(string \<Rightarrow> string set) \<Rightarrow> string set \<Rightarrow> nat \<Rightarrow> (string \<rightharpoonup> nat)" where
  "index_upto deps T n t = (if \<exists>i < n. t \<in> layer deps T i then Some (THE i. t \<in> layer deps T i) else None)"

lemma index_upto_Some: "index_upto deps T n t = Some i \<longleftrightarrow> i < n \<and> t \<in> layer deps T i"
proof -
  have "(THE i. t \<in> layer deps T i) = j" if "t \<in> layer deps T j" for j
    using that layer_unique by (intro the_equality) auto
  then show ?thesis unfolding index_upto_def by auto
qed

lemma index_upto_Suc:
  "finite (layer deps T n) \<Longrightarrow>
   fold (\<lambda>t m. m(t \<mapsto> n)) (sorted_list_of_set (layer deps T n)) (index_upto deps T n) = index_upto deps T (Suc n)"
proof -
  have upd: "fold (\<lambda>t m. m(t \<mapsto> n)) ts m = (\<lambda>t. if t \<in> set ts then Some n else m t)" for ts m
    by (induction ts arbitrary: m) auto
  assume "finite (layer deps T n)"
  then show ?thesis
    using index_upto_Some [of deps T n] index_upto_Some [of deps T "Suc n"] layer_unique
    by (auto simp: upd fun_eq_iff) (metis less_Suc_eq not_None_eq option.inject)+
qed

lemma wave_loop_layers:
  assumes "set remaining = T - loadable deps T n" "distinct remaining" "finite T"
  shows "\<exists>m \<ge> n. wave_loop deps remaining (loadable deps T n) (waves_upto deps T n) (index_upto deps T n) =
      (waves_upto deps T m, index_upto deps T m, filter (\<lambda>t. t \<notin> loadable deps T m) remaining)
    \<and> layer deps T m = {} \<and> (\<forall>i. n \<le> i \<and> i < m \<longrightarrow> layer deps T i \<noteq> {})"
  using assms
proof (induction "length remaining" arbitrary: remaining n rule: less_induct)
  case less
  let ?ready = "filter (\<lambda>t. deps t \<subseteq> loadable deps T n) remaining"
  have ready: "set ?ready = layer deps T n"
    using less.prems(1) by (auto simp: layer_def loadable.simps(2))
  show ?case
  proof (cases "?ready = []")
    case True
    then have "wave_loop deps remaining (loadable deps T n) (waves_upto deps T n) (index_upto deps T n) =
        (waves_upto deps T n, index_upto deps T n, remaining)"
      by (subst wave_loop.simps) (simp only: Let_def simp_thms if_True)
    moreover have "filter (\<lambda>t. t \<notin> loadable deps T n) remaining = remaining"
      using less.prems(1) by (simp add: filter_id_conv)
    ultimately show ?thesis using True ready by (intro exI [of _ n]) auto
  next
    case False
    let ?rest = "filter (\<lambda>t. t \<notin> set (sort ?ready)) remaining"
    have sorted: "sort ?ready = sorted_list_of_set (layer deps T n)"
      using ready less.prems(2) by (metis distinct_filter sorted_list_of_set_sort_remdups distinct_remdups_id)
    have fin: "finite (layer deps T n)" using less.prems(3) loadable_subset [of deps T "Suc n"]
      by (auto simp: layer_def intro: finite_subset)
    have assigned: "loadable deps T n \<union> set (sort ?ready) = loadable deps T (Suc n)"
      using ready loadable_Suc_mono [of deps T n] unfolding set_sort layer_def by blast
    have rest: "set ?rest = T - loadable deps T (Suc n)" "distinct ?rest" "length ?rest < length remaining"
      using less.prems(1,2) assigned wave_loop_shrinks [OF False] by auto
    have "wave_loop deps remaining (loadable deps T n) (waves_upto deps T n) (index_upto deps T n) =
        wave_loop deps ?rest (loadable deps T (Suc n)) (waves_upto deps T (Suc n)) (index_upto deps T (Suc n))"
      using False sorted index_upto_Suc [OF fin] assigned
      by (subst wave_loop.simps) (simp add: Let_def waves_upto_def)
    moreover obtain m where m: "m \<ge> Suc n"
      "wave_loop deps ?rest (loadable deps T (Suc n)) (waves_upto deps T (Suc n)) (index_upto deps T (Suc n)) =
        (waves_upto deps T m, index_upto deps T m, filter (\<lambda>t. t \<notin> loadable deps T m) ?rest)"
      "layer deps T m = {}" "\<forall>i. Suc n \<le> i \<and> i < m \<longrightarrow> layer deps T i \<noteq> {}"
      using less.hyps [OF rest(3,1,2) less.prems(3)] by blast
    moreover have "filter (\<lambda>t. t \<notin> loadable deps T m) ?rest = filter (\<lambda>t. t \<notin> loadable deps T m) remaining"
      using assigned loadable_mono [OF m(1), of deps T] by (auto simp: filter_filter intro!: filter_cong)
    moreover have "layer deps T n \<noteq> {}" using False ready by auto
    ultimately show ?thesis by (intro exI [of _ m]) (auto simp: Suc_le_eq dest: le_neq_implies_less)
  qed
qed

section \<open>Loading waves\<close>

text \<open>The dependencies between the tables of a job; a table does not depend on itself.\<close>

definition depends :: "ForeignKeyEdge list \<Rightarrow> string list \<Rightarrow> (string \<times> string) set" where
  "depends fk_edges tables =
     {(t, u). \<exists>e \<in> set fk_edges. source_table e = t \<and> target_table e = u \<and> t \<in> set tables \<and> u \<in> set tables \<and> t \<noteq> u}"

lemma fold_add_edge:
  "u \<in> fold (add_edge T) es deps t \<longleftrightarrow>
     u \<in> deps t \<or> (\<exists>e \<in> set es. source_table e = t \<and> target_table e = u \<and> t \<in> T \<and> u \<in> T \<and> t \<noteq> u)"
  by (induction es arbitrary: deps) (auto simp: add_edge_def)

lemma dependencies_iff: "u \<in> dependencies es (set ts) t \<longleftrightarrow> (t, u) \<in> depends es ts"
  by (auto simp: dependencies_def depends_def fold_add_edge)

lemma layers_end: "layer deps T m = {} \<Longrightarrow> m \<le> i \<Longrightarrow> layer deps T i = {}"
proof (induction i)
  case (Suc i)
  then show ?case by (cases "m = Suc i") (auto simp: layer_Suc)
qed simp

lemma compute_loading_waves_layers:
  obtains m where
    "plan_waves (compute_loading_waves es ts) = waves_upto (dependencies es (set ts)) (set ts) m"
    "\<And>t i. wave_of (compute_loading_waves es ts) t = Some i \<longleftrightarrow> t \<in> layer (dependencies es (set ts)) (set ts) i"
    "cyclic_tables (compute_loading_waves es ts) =
       sort (filter (\<lambda>t. t \<notin> loadable (dependencies es (set ts)) (set ts) m) (remdups ts))"
    "\<And>i. layer (dependencies es (set ts)) (set ts) i \<noteq> {} \<longleftrightarrow> i < m"
proof -
  let ?d = "dependencies es (set ts)" and ?T = "set ts"
  have "waves_upto ?d ?T 0 = []" "index_upto ?d ?T 0 = (\<lambda>_. None)"
    by (auto simp: waves_upto_def index_upto_def)
  then obtain m where m: "wave_loop ?d (remdups ts) {} [] (\<lambda>_. None) =
      (waves_upto ?d ?T m, index_upto ?d ?T m, filter (\<lambda>t. t \<notin> loadable ?d ?T m) (remdups ts))"
    "layer ?d ?T m = {}" "\<forall>i < m. layer ?d ?T i \<noteq> {}"
    using wave_loop_layers [of "remdups ts" ?T ?d 0] by auto
  have ends: "layer ?d ?T i \<noteq> {} \<longleftrightarrow> i < m" for i
    using m(3) layers_end [OF m(2), of i] not_le by blast
  show thesis
    using that [of m] m(1) ends index_upto_Some [of ?d ?T m]
    by (auto simp: compute_loading_waves_def wave_of_def)
qed

lemma wave_exact_layers:
  assumes "\<And>t i. w t = Some i \<longleftrightarrow> t \<in> layer deps T i"
  shows "w t = Some 0 \<longleftrightarrow> t \<in> T \<and> deps t = {}"
    "w t = Some (Suc i) \<longleftrightarrow> t \<in> T \<and> (\<forall>u \<in> deps t. \<exists>j \<le> i. w u = Some j) \<and> (\<exists>u \<in> deps t. w u = Some i)"
  unfolding assms layer_0 by (simp_all add: layer_Suc)

text \<open>
  C13. The documented laws of the layering: a table without dependencies is in wave 0, any other one wave
  after the last of its dependencies; so every table is loaded after the tables it references.
\<close>

theorem loading_waves_exact:
  "(wave_of (compute_loading_waves es ts) t = Some 0 \<longleftrightarrow> t \<in> set ts \<and> depends es ts `` {t} = {})
   \<and> (wave_of (compute_loading_waves es ts) t = Some (Suc i) \<longleftrightarrow> t \<in> set ts
       \<and> (\<forall>u. (t, u) \<in> depends es ts \<longrightarrow> (\<exists>j \<le> i. wave_of (compute_loading_waves es ts) u = Some j))
       \<and> (\<exists>u. (t, u) \<in> depends es ts \<and> wave_of (compute_loading_waves es ts) u = Some i))"
proof -
  let ?w = "wave_of (compute_loading_waves es ts)" and ?d = "dependencies es (set ts)"
  obtain m where "\<And>t i. ?w t = Some i \<longleftrightarrow> t \<in> layer ?d (set ts) i"
    using compute_loading_waves_layers [of es ts] by metis
  note w = wave_exact_layers [OF this]
  have "?w t = Some 0 \<longleftrightarrow> t \<in> set ts \<and> depends es ts `` {t} = {}"
    using dependencies_iff [of _ es ts t] by (auto simp: w(1))
  moreover have "?w t = Some (Suc i) \<longleftrightarrow> t \<in> set ts
      \<and> (\<forall>u \<in> ?d t. \<exists>j \<le> i. ?w u = Some j) \<and> (\<exists>u \<in> ?d t. ?w u = Some i)" by (rule w(2))
  ultimately show ?thesis using dependencies_iff [of _ es ts t] by (simp add: Ball_def Bex_def)
qed

lemma loadable_no_cycle:
  "t \<in> loadable deps T n \<Longrightarrow> (t, u) \<in> {(t, u). u \<in> deps t}\<^sup>* \<Longrightarrow> (u, u) \<notin> {(t, u). u \<in> deps t}\<^sup>+"
proof (induction n arbitrary: t)
  case (Suc n)
  let ?D = "{(t, u). u \<in> deps t}"
  show ?case
  proof
    assume cyc: "(u, u) \<in> ?D\<^sup>+"
    then have "(t, u) \<in> ?D\<^sup>+" using Suc.prems(2) by (rule rtrancl_trancl_trancl [rotated])
    then obtain v where "(t, v) \<in> ?D" "(v, u) \<in> ?D\<^sup>*" by (metis tranclD)
    moreover have "v \<in> loadable deps T n" using Suc.prems(1) \<open>(t, v) \<in> ?D\<close> by (auto simp: loadable.simps(2))
    ultimately show False using Suc.IH cyc by blast
  qed
qed simp

lemma stuck_reaches_cycle:
  assumes "finite X" "\<And>t. t \<in> X \<Longrightarrow> \<exists>u \<in> X. (t, u) \<in> D" "t \<in> X"
  shows "\<exists>u. (t, u) \<in> D\<^sup>* \<and> (u, u) \<in> D\<^sup>+"
proof (rule ccontr)
  assume none: "\<not> ?thesis"
  define Y where "Y = {u \<in> X. (t, u) \<in> D\<^sup>*}"
  define R where "R = {(u, v). (v, u) \<in> D \<and> u \<in> Y \<and> v \<in> Y}"
  have "R \<subseteq> Y \<times> Y" by (auto simp: R_def)
  moreover have "finite (Y \<times> Y)" using assms(1) by (simp add: Y_def)
  ultimately have "finite R" by (rule finite_subset)
  moreover have "acyclic R"
  proof (rule acyclicI, intro allI notI)
    fix x assume "(x, x) \<in> R\<^sup>+"
    then have "x \<in> Y" by (auto simp: R_def dest: tranclD)
    have "R\<inverse> \<subseteq> D" by (auto simp: R_def)
    moreover have "(x, x) \<in> (R\<inverse>)\<^sup>+" using \<open>(x, x) \<in> R\<^sup>+\<close> by (simp add: trancl_converse)
    ultimately have "(x, x) \<in> D\<^sup>+" by (meson trancl_mono)
    then show False using none \<open>x \<in> Y\<close> by (auto simp: Y_def)
  qed
  ultimately have "wf R" by (rule finite_acyclic_wf)
  moreover have "t \<in> Y" using assms(3) by (simp add: Y_def)
  ultimately obtain z where z: "z \<in> Y" "\<And>y. (y, z) \<in> R \<Longrightarrow> y \<notin> Y" by (rule wfE_min) blast
  then obtain u where u: "u \<in> X" "(z, u) \<in> D" using assms(2) by (auto simp: Y_def)
  then have "u \<in> Y" using z(1) by (auto simp: Y_def intro: rtrancl_into_rtrancl)
  moreover from this have "(u, z) \<in> R" using z(1) u(2) by (simp add: R_def)
  ultimately show False using z(2) by blast
qed

lemma set_waves:
  "(\<And>i. i < m \<Longrightarrow> finite (layer deps T i)) \<Longrightarrow>
   set (concat (map wave_tables (waves_upto deps T m))) = loadable deps T m"
  by (fastforce simp: waves_upto_def loadable_layers)

lemma distinct_waves:
  assumes "\<And>i. finite (layer deps T i)"
  shows "distinct (concat (map wave_tables (waves_upto deps T m)))"
proof (induction m)
  case (Suc m)
  have "layer deps T m \<inter> loadable deps T m = {}" by (auto simp: layer_def)
  then show ?case using Suc set_waves [of m deps T] assms by (auto simp: waves_upto_def)
qed (simp add: waves_upto_def)

text \<open>
  The plan is complete: every table is in exactly one wave or among the cyclic ones, without
  duplicates, the waves are numbered from 0, none is empty, and each lists its tables sorted.
\<close>

theorem loading_waves_partition:
  "distinct (tables_in_order (compute_loading_waves es ts) @ cyclic_tables (compute_loading_waves es ts))
   \<and> set (tables_in_order (compute_loading_waves es ts) @ cyclic_tables (compute_loading_waves es ts)) = set ts
   \<and> plan_waves (compute_loading_waves es ts) =
       map (\<lambda>i. \<lparr>wave_number = i, wave_tables = sorted_list_of_set {t. wave_of (compute_loading_waves es ts) t = Some i}\<rparr>)
         [0..<wave_count (compute_loading_waves es ts)]
   \<and> [] \<notin> set (map wave_tables (plan_waves (compute_loading_waves es ts)))"
proof -
  let ?p = "compute_loading_waves es ts" and ?d = "dependencies es (set ts)" and ?T = "set ts"
  obtain m where m: "plan_waves ?p = waves_upto ?d ?T m"
    "\<And>t i. wave_of ?p t = Some i \<longleftrightarrow> t \<in> layer ?d ?T i"
    "cyclic_tables ?p = sort (filter (\<lambda>t. t \<notin> loadable ?d ?T m) (remdups ts))"
    "\<And>i. layer ?d ?T i \<noteq> {} \<longleftrightarrow> i < m"
    using compute_loading_waves_layers [of es ts] by blast
  have fin: "finite (layer ?d ?T i)" for i
    using loadable_subset [of ?d ?T "Suc i"] by (auto simp: layer_def intro: finite_subset)
  note tables = distinct_waves [OF fin, of m] set_waves [OF fin, of m]
  have "distinct (tables_in_order ?p @ cyclic_tables ?p)"
    "set (tables_in_order ?p @ cyclic_tables ?p) = set ts"
    using tables loadable_subset [of ?d ?T m] by (auto simp: tables_in_order_def m(1,3))
  moreover have "plan_waves ?p =
      map (\<lambda>i. \<lparr>wave_number = i, wave_tables = sorted_list_of_set {t. wave_of ?p t = Some i}\<rparr>) [0..<wave_count ?p]"
    by (simp add: m(1,2) wave_count_def waves_upto_def)
  moreover have "sorted_list_of_set (layer ?d ?T i) \<noteq> []" if "i < m" for i
    using that fin m(4) by (metis sorted_list_of_set_eq_Nil_iff)
  then have "[] \<notin> set (map wave_tables (plan_waves ?p))"
    by (force simp: m(1) waves_upto_def)
  ultimately show ?thesis by blast
qed

lemma cyclic_tables_reach:
  "set (cyclic_tables (compute_loading_waves es ts)) =
   {t \<in> set ts. \<exists>u. (t, u) \<in> (depends es ts)\<^sup>* \<and> (u, u) \<in> (depends es ts)\<^sup>+}"
proof -
  let ?p = "compute_loading_waves es ts" and ?d = "dependencies es (set ts)" and ?T = "set ts"
  obtain m where cyc: "cyclic_tables ?p = sort (filter (\<lambda>t. t \<notin> loadable ?d ?T m) (remdups ts))"
    and ends: "\<And>i. layer ?d ?T i \<noteq> {} \<longleftrightarrow> i < m"
    using compute_loading_waves_layers [of es ts] by metis
  let ?X = "?T - loadable ?d ?T m"
  have D: "{(t, u). u \<in> ?d t} = depends es ts" by (auto simp: dependencies_iff)
  have step: "\<exists>u \<in> ?X. (t, u) \<in> depends es ts" if t: "t \<in> ?X" for t
  proof -
    have "t \<notin> loadable ?d ?T (Suc m)" using t ends [of m] by (auto simp: layer_def)
    then obtain u where "u \<in> ?d t" "u \<notin> loadable ?d ?T m" using t by (auto simp: loadable.simps(2))
    then show ?thesis using dependencies_iff [of u es ts t] by (auto simp: depends_def)
  qed
  have "t \<in> ?X \<longleftrightarrow> t \<in> ?T \<and> (\<exists>u. (t, u) \<in> (depends es ts)\<^sup>* \<and> (u, u) \<in> (depends es ts)\<^sup>+)" for t
    using loadable_no_cycle [of t ?d ?T m] stuck_reaches_cycle [of ?X "depends es ts" t] step unfolding D by blast
  then show ?thesis using cyc by auto
qed

text \<open>
  The cyclic tables are exactly the tables from which a cycle of foreign keys can be reached.
\<close>

theorem cyclic_tables_exact:
  "set (cyclic_tables (compute_loading_waves es ts)) =
   {t \<in> set ts. \<exists>u. (t, u) \<in> (depends es ts)\<^sup>* \<and> (u, u) \<in> (depends es ts)\<^sup>+}"
  by (rule cyclic_tables_reach)

text \<open>
  The documentation of \<open>cyclic_tables\<close> speaks of tables that participate in a cycle; a table that only
  references one of them is listed too.
\<close>

lemma cyclic_lists_dependents:
  defines "edge a b \<equiv> \<lparr>source_table = a, source_column = ''x'', target_table = b, target_column = ''id''\<rparr>"
  shows "''c'' \<in> set (cyclic_tables (compute_loading_waves [edge ''a'' ''b'', edge ''b'' ''a'', edge ''c'' ''a''] [''a'', ''b'', ''c'']))"
    "(''c'', ''c'') \<notin> (depends [edge ''a'' ''b'', edge ''b'' ''a'', edge ''c'' ''a''] [''a'', ''b'', ''c''])\<^sup>+"
proof -
  let ?D = "depends [edge ''a'' ''b'', edge ''b'' ''a'', edge ''c'' ''a''] [''a'', ''b'', ''c'']"
  have D: "?D = {(''a'', ''b''), (''b'', ''a''), (''c'', ''a'')}" by (auto simp: depends_def edge_def)
  have "(''c'', ''a'') \<in> ?D\<^sup>*" "(''a'', ''a'') \<in> ?D\<^sup>+" unfolding D by (auto intro: trancl_into_trancl)
  then show "''c'' \<in> set (cyclic_tables (compute_loading_waves [edge ''a'' ''b'', edge ''b'' ''a'', edge ''c'' ''a''] [''a'', ''b'', ''c'']))"
    unfolding cyclic_tables_reach by auto
  show "(''c'', ''c'') \<notin> ?D\<^sup>+"
    unfolding D by (auto dest!: tranclD2)
qed

theorem loading_waves_exact_witness:
  "wave_of (compute_loading_waves
       [\<lparr>source_table = ''orders'', source_column = ''customer'', target_table = ''customers'', target_column = ''id''\<rparr>]
       [''orders'', ''customers'']) ''orders'' = Some 1"
proof -
  let ?es = "[\<lparr>source_table = ''orders'', source_column = ''customer'', target_table = ''customers'', target_column = ''id''\<rparr>]"
  let ?ts = "[''orders'', ''customers'']"
  have D: "depends ?es ?ts = {(''orders'', ''customers'')}" by (auto simp: depends_def)
  have "wave_of (compute_loading_waves ?es ?ts) ''customers'' = Some 0"
    using loading_waves_exact [of ?es ?ts "''customers''" 0] by (simp add: D Image_def)
  then have "wave_of (compute_loading_waves ?es ?ts) ''orders'' = Some (Suc 0)"
    using loading_waves_exact [of ?es ?ts "''orders''" 0] by (simp add: D)
  then show ?thesis by simp
qed

end
