(* ===== verification/Workspace_Types.thy ===== *)
theory Workspace_Types
  imports Text_Words Ids
begin

text \<open>
  The artifacts of a workspace: \<open>workspace.rs\<close>, \<open>thread.rs\<close>, \<open>file.rs\<close> and the key schema \<open>kv_keys.rs\<close> of
  \<open>crates/agent-fw-workspace/src\<close>, with the stored types of \<open>agent-fw-eval\<close> and \<open>agent-fw-catalog\<close> they
  use. Of the larger evaluation types only the fields the stores read or write are fields of their own;
  the others are one opaque field. The wall clock and fresh identifiers are arguments.
\<close>

section \<open>Threads, messages and files\<close>

record Thread =
  th_id :: string
  th_title :: "string option"
  th_resource_id :: string
  th_source_id :: "string option"
  th_created_at :: string
  th_updated_at :: string

definition thread_with_id :: "string \<Rightarrow> string \<Rightarrow> string option \<Rightarrow> Thread" where
  "thread_with_id now ident title =
     \<lparr>th_id = ident, th_title = title, th_resource_id = [], th_source_id = None, th_created_at = now, th_updated_at = now\<rparr>"

definition thread_new :: "string \<Rightarrow> string \<Rightarrow> string option \<Rightarrow> Thread" where
  "thread_new now uuid title =
     \<lparr>th_id = uuid, th_title = title, th_resource_id = [], th_source_id = None, th_created_at = now, th_updated_at = now\<rparr>"

definition with_resource_id :: "string \<Rightarrow> Thread \<Rightarrow> Thread" where
  "with_resource_id r th = th\<lparr>th_resource_id := r\<rparr>"

definition with_source_id :: "string \<Rightarrow> Thread \<Rightarrow> Thread" where
  "with_source_id i th = th\<lparr>th_source_id := Some i\<rparr>"

definition update_title :: "string \<Rightarrow> string option \<Rightarrow> Thread \<Rightarrow> Thread" where
  "update_title now title th = th\<lparr>th_title := title, th_updated_at := now\<rparr>"

definition update_source_id :: "string \<Rightarrow> string option \<Rightarrow> Thread \<Rightarrow> Thread" where
  "update_source_id now source th =
     th\<lparr>th_source_id := (case source of Some i \<Rightarrow> if i \<noteq> [] then Some i else None | None \<Rightarrow> None), th_updated_at := now\<rparr>"

definition touch :: "string \<Rightarrow> Thread \<Rightarrow> Thread" where
  "touch now th = th\<lparr>th_updated_at := now\<rparr>"

record 'j PersistedToolInteraction =
  ti_call_id :: string
  ti_tool_name :: string
  ti_arguments :: 'j
  ti_result :: 'j

record 'j Message =
  msg_id :: string
  msg_role :: string
  msg_content :: string
  msg_created_at :: string
  msg_tool_interactions :: "'j PersistedToolInteraction list option"
  msg_parts :: "'j list option"

definition message_new :: "string \<Rightarrow> string \<Rightarrow> string \<Rightarrow> string \<Rightarrow> 'j Message" where
  "message_new now uuid role content =
     \<lparr>msg_id = uuid, msg_role = role, msg_content = content, msg_created_at = now,
      msg_tool_interactions = None, msg_parts = None\<rparr>"

definition some_unless_empty :: "'a list \<Rightarrow> 'a list option" where
  "some_unless_empty xs = (if xs = [] then None else Some xs)"

definition message_with_tool_interactions ::
  "string \<Rightarrow> string \<Rightarrow> string \<Rightarrow> string \<Rightarrow> 'j PersistedToolInteraction list \<Rightarrow> 'j Message" where
  "message_with_tool_interactions now uuid role content interactions =
     \<lparr>msg_id = uuid, msg_role = role, msg_content = content, msg_created_at = now,
      msg_tool_interactions = some_unless_empty interactions, msg_parts = None\<rparr>"

definition message_with_parts ::
  "string \<Rightarrow> string \<Rightarrow> string \<Rightarrow> string \<Rightarrow> 'j PersistedToolInteraction list \<Rightarrow> 'j list \<Rightarrow> 'j Message" where
  "message_with_parts now uuid role content interactions parts =
     \<lparr>msg_id = uuid, msg_role = role, msg_content = content, msg_created_at = now,
      msg_tool_interactions = some_unless_empty interactions, msg_parts = some_unless_empty parts\<rparr>"

record ThreadFileEntry =
  tf_file_id :: string
  tf_filename :: string
  tf_thread_id :: string
  tf_created_at :: string

type_synonym ThreadFileIndex = "ThreadFileEntry list"

record StoredFile =
  sf_content :: string
  sf_filename :: string

section \<open>Evaluation artifacts\<close>

datatype TestCaseStatus = Draft | Active | Archived

record 'x AuthoredTestCase =
  tc_id :: TestCaseId
  tc_status :: TestCaseStatus
  tc_created_at :: string
  tc_updated_at :: string
  tc_rest :: 'x

record ('st, 'r, 'x) EvalRun =
  er_id :: EvalRunId
  er_status :: 'st
  er_results :: "'r list"
  er_created_at :: string
  er_updated_at :: string
  er_rest :: 'x

record 'tc TestCaseSet =
  ts_id :: string
  ts_name :: string
  ts_description :: string
  ts_test_cases :: "'tc list"
  ts_created_at :: string

record EvalThreadFork =
  fork_id :: string
  fork_thread_id :: string
  fork_parent_thread_id :: "string option"
  fork_at_message_index :: "u32 option"
  fork_edited_content :: "string option"
  fork_label :: "string option"
  fork_created_at :: string

section \<open>Data sources and workspaces\<close>

record 'dt DataSource =
  ds_id :: string
  ds_name :: string
  ds_database_type :: 'dt
  ds_host :: string
  ds_port :: "16 word"
  ds_database_name :: string
  ds_schema_name :: string
  ds_encrypted_credentials :: "string option"
  ds_is_active :: bool
  ds_created_at :: string
  ds_updated_at :: string

datatype DatabaseConfig =
    DbDefault
  | DbManaged (branch_id: string) (branch_name: string) (db_host: string) (db_target_url: string) (db_catalog_url: string) (db_embeddings_url: string)
  | DbExternal "string option" "string option" "string option"
  | DbSqlite string

record WorkspaceModelConfig =
  mc_provider :: "string option"
  mc_model_id :: "string option"
  mc_enrichment_model_id :: "string option"

definition model_config_default :: WorkspaceModelConfig where
  "model_config_default = \<lparr>mc_provider = None, mc_model_id = None, mc_enrichment_model_id = None\<rparr>"

record Workspace =
  ws_id :: WorkspaceId
  ws_name :: string
  ws_slug :: string
  ws_description :: "string option"
  ws_database_config :: DatabaseConfig
  ws_model_config :: WorkspaceModelConfig
  ws_created_at :: datetime
  ws_updated_at :: datetime

text \<open>The two readings of the clock.\<close>

definition workspace_default :: "datetime \<Rightarrow> datetime \<Rightarrow> Workspace" where
  "workspace_default now now' =
     \<lparr>ws_id = default_workspace, ws_name = ''Default'', ws_slug = ''default'',
      ws_description = Some ''Default workspace using environment-configured databases'',
      ws_database_config = DbDefault, ws_model_config = model_config_default,
      ws_created_at = now, ws_updated_at = now'\<rparr>"

definition workspace_target_database_id :: "WorkspaceId \<Rightarrow> string" where
  "workspace_target_database_id w = ''workspace:'' @ workspace_str w @ '':target''"

definition explicit_thread_source_id_for_database :: "WorkspaceId \<Rightarrow> string \<Rightarrow> string option" where
  "explicit_thread_source_id_for_database w database_id =
     (if database_id \<noteq> workspace_target_database_id w then Some database_id else None)"

section \<open>Slugs\<close>

definition is_ascii_alphanumeric :: "char \<Rightarrow> bool" where
  "is_ascii_alphanumeric c \<longleftrightarrow>
     (let n = (of_char c :: nat) in 48 \<le> n \<and> n \<le> 57 \<or> 65 \<le> n \<and> n \<le> 90 \<or> 97 \<le> n \<and> n \<le> 122)"

definition slugify :: "string \<Rightarrow> string" where
  "slugify name =
     (let res = join_with ''-'' (filter (\<lambda>s. s \<noteq> [])
         (split_char (CHR ''-'') (map (\<lambda>c. if is_ascii_alphanumeric c then c else CHR ''-'') (map to_lower name))))
      in if res = [] then ''unnamed'' else res)"

section \<open>Keys\<close>

definition key_thread :: "string \<Rightarrow> string" where "key_thread i = ''thread:'' @ i"

definition key_thread_messages :: "string \<Rightarrow> string" where "key_thread_messages i = ''thread:'' @ i @ '':messages''"

definition key_thread_cost :: "string \<Rightarrow> string" where "key_thread_cost i = ''thread:'' @ i @ '':cost''"

definition key_thread_latency :: "string \<Rightarrow> string" where "key_thread_latency i = ''thread:'' @ i @ '':latency''"

definition key_thread_files :: "string \<Rightarrow> string" where "key_thread_files i = ''files:'' @ i"

definition key_stored_file :: "string \<Rightarrow> string" where "key_stored_file i = ''file:'' @ i"

definition key_test_case :: "string \<Rightarrow> string" where "key_test_case i = ''test_case:'' @ i"

definition key_eval_run :: "string \<Rightarrow> string" where "key_eval_run i = ''eval_run:'' @ i"

definition key_eval_run_results :: "string \<Rightarrow> string" where "key_eval_run_results i = ''eval_run:'' @ i @ '':results''"

definition key_eval_test_case_set :: "string \<Rightarrow> string" where "key_eval_test_case_set i = ''eval:test-cases:'' @ i"

definition key_eval_forks :: "string \<Rightarrow> string \<Rightarrow> string" where
  "key_eval_forks run tc = ''eval:run:'' @ run @ '':forks:'' @ tc"

definition key_data_source :: "string \<Rightarrow> string" where "key_data_source i = ''data_source:'' @ i"

definition key_workspace :: "string \<Rightarrow> string" where "key_workspace i = ''workspace:'' @ i"

definition THREADS_INDEX :: string where "THREADS_INDEX = ''threads:index''"

definition TEST_CASES_INDEX :: string where "TEST_CASES_INDEX = ''test_cases:index''"

definition EVAL_RUNS_INDEX :: string where "EVAL_RUNS_INDEX = ''eval_runs:index''"

definition EVAL_TEST_CASE_SETS_INDEX :: string where "EVAL_TEST_CASE_SETS_INDEX = ''eval:test-cases:index''"

definition DATA_SOURCES_INDEX :: string where "DATA_SOURCES_INDEX = ''data_sources:index''"

definition WORKSPACES_INDEX :: string where "WORKSPACES_INDEX = ''workspaces:index''"

lemmas key_defs = key_thread_def key_thread_messages_def key_thread_cost_def key_thread_latency_def
  key_thread_files_def key_stored_file_def key_test_case_def key_eval_run_def key_eval_run_results_def
  key_eval_test_case_set_def key_eval_forks_def key_data_source_def key_workspace_def
  THREADS_INDEX_def TEST_CASES_INDEX_def EVAL_RUNS_INDEX_def EVAL_TEST_CASE_SETS_INDEX_def
  DATA_SOURCES_INDEX_def WORKSPACES_INDEX_def

section \<open>Properties of slugs\<close>

definition slug_char :: "char \<Rightarrow> bool" where
  "slug_char c \<longleftrightarrow> is_ascii_alphanumeric c \<and> to_lower c = c"

definition is_slug :: "string \<Rightarrow> bool" where
  "is_slug s \<longleftrightarrow> s \<noteq> [] \<and> slug_char (hd s) \<and> (\<forall>c \<in> set s. slug_char c \<or> c = CHR ''-'')"

definition slug_words :: "string \<Rightarrow> string list" where
  "slug_words name =
     words_between (\<lambda>c. c = CHR ''-'') (map (\<lambda>c. if is_ascii_alphanumeric c then c else CHR ''-'') (map to_lower name))"

lemma slugify_words: "slugify name = (if slug_words name = [] then ''unnamed'' else join_with ''-'' (slug_words name))"
proof -
  have "w \<noteq> []" if "w \<in> set (slug_words name)" for w
    using that words_between_words [of w "\<lambda>c. c = CHR ''-''"] by (auto simp: slug_words_def)
  then have "join_with ''-'' (slug_words name) = [] \<longleftrightarrow> slug_words name = []"
    by (cases "slug_words name") auto
  then show ?thesis by (simp add: slugify_def split_char_words slug_words_def Let_def)
qed

lemma words_between_chars: "w \<in> set (words_between sep s) \<Longrightarrow> set w \<subseteq> set s"
proof (induction sep s rule: words_between.induct)
  case (1 sep s)
  show ?case
  proof (cases "dropWhile sep s")
    case Nil
    then have "words_between sep s = []" by (subst words_between.simps) (simp only: list.case)
    then show ?thesis using 1(2) by simp
  next
    case (Cons c cs)
    have sub: "set (c # cs) \<subseteq> set s" using Cons by (metis set_dropWhileD subsetI)
    have "w = takeWhile (\<lambda>c. \<not> sep c) (c # cs)
        \<or> w \<in> set (words_between sep (dropWhile (\<lambda>c. \<not> sep c) (c # cs)))"
      using 1(2) Cons by (subst (asm) words_between.simps) simp
    moreover have "set (takeWhile (\<lambda>c. \<not> sep c) (c # cs)) \<subseteq> set (c # cs)"
      "set (dropWhile (\<lambda>c. \<not> sep c) (c # cs)) \<subseteq> set (c # cs)"
      by (meson set_takeWhileD set_dropWhileD subsetI)+
    ultimately show ?thesis using 1(1) [OF Cons] sub by (elim disjE) (meson order_trans)+
  qed
qed

lemma slug_words_chars: "w \<in> set (slug_words name) \<Longrightarrow> w \<noteq> [] \<and> (\<forall>c \<in> set w. slug_char c \<and> c \<noteq> CHR ''-'')"
  using words_between_words [of w "\<lambda>c. c = CHR ''-''"] words_between_chars [of w "\<lambda>c. c = CHR ''-''"]
  by (fastforce simp: slug_words_def slug_char_def to_lower_idem split: if_splits)

lemma set_join_with: "set (join_with d ws) \<subseteq> set d \<union> \<Union> (set ` set ws)"
  by (induction ws) auto

lemma slug_words_join:
  assumes "ws \<noteq> []" "\<forall>w \<in> set ws. w \<noteq> [] \<and> (\<forall>c \<in> set w. slug_char c \<and> c \<noteq> CHR ''-'')"
  shows "slug_words (join_with ''-'' ws) = ws"
proof -
  have "map to_lower (join_with ''-'' ws) = join_with ''-'' ws"
    using set_join_with [of "''-''" ws] assms(2) by (intro map_idI) (auto simp: slug_char_def to_lower_def)
  moreover have "map (\<lambda>c. if is_ascii_alphanumeric c then c else CHR ''-'') (join_with ''-'' ws) = join_with ''-'' ws"
    using set_join_with [of "''-''" ws] assms(2) by (intro map_idI) (auto simp: slug_char_def)
  moreover have "words_between (\<lambda>c. c = CHR ''-'') (join_with ''-'' ws) = ws"
    using assms(2) by (intro words_between_join) auto
  ultimately show ?thesis by (simp only: slug_words_def)
qed

lemma slug_unnamed: "is_slug ''unnamed''" "slugify ''unnamed'' = ''unnamed''"
  by code_simp+

text \<open>
  The documented laws of slugs: a slug is never empty, has only lower-case ASCII letters, digits and
  hyphens and starts with no hyphen, and making a slug of a slug changes nothing.
\<close>

theorem slugify_laws: "is_slug (slugify name) \<and> slugify (slugify name) = slugify name"
proof (cases "slug_words name = []")
  case True
  then show ?thesis using slug_unnamed by (simp add: slugify_words)
next
  case False
  let ?ws = "slug_words name"
  have ws: "\<forall>w \<in> set ?ws. w \<noteq> [] \<and> (\<forall>c \<in> set w. slug_char c \<and> c \<noteq> CHR ''-'')" using slug_words_chars by blast
  obtain c w ws' where first: "?ws = (c # w) # ws'" using False ws by (metis list.exhaust list.set_intros(1))
  then have "join_with ''-'' ?ws \<noteq> []" "hd (join_with ''-'' ?ws) = c" "slug_char c" using ws by auto
  moreover have "\<forall>c \<in> set (join_with ''-'' ?ws). slug_char c \<or> c = CHR ''-''"
    using set_join_with [of "''-''" ?ws] ws by auto
  ultimately have "is_slug (slugify name)" using False by (simp add: slugify_words is_slug_def)
  moreover have "slugify (slugify name) = slugify name"
    using slug_words_join [OF False ws] False by (simp add: slugify_words [of name]) (simp add: slugify_words)
  ultimately show ?thesis by blast
qed

section \<open>Artifacts have their own keys\<close>

datatype ws_key =
    KThread string | KMessages string | KFiles string | KFile string | KCase string | KRun string
  | KResults string | KSet string | KForks string string | KSource string | KWorkspace string
  | KThreadsIndex | KCasesIndex | KRunsIndex | KSetsIndex | KSourcesIndex | KWorkspacesIndex

fun key_fields :: "ws_key \<Rightarrow> string list" where
  "key_fields (KThread i) = [''thread'', i]"
| "key_fields (KMessages i) = [''thread'', i, ''messages'']"
| "key_fields (KFiles i) = [''files'', i]"
| "key_fields (KFile i) = [''file'', i]"
| "key_fields (KCase i) = [''test_case'', i]"
| "key_fields (KRun i) = [''eval_run'', i]"
| "key_fields (KResults i) = [''eval_run'', i, ''results'']"
| "key_fields (KSet i) = [''eval'', ''test-cases'', i]"
| "key_fields (KForks i j) = [''eval'', ''run'', i, ''forks'', j]"
| "key_fields (KSource i) = [''data_source'', i]"
| "key_fields (KWorkspace i) = [''workspace'', i]"
| "key_fields KThreadsIndex = [''threads'', ''index'']"
| "key_fields KCasesIndex = [''test_cases'', ''index'']"
| "key_fields KRunsIndex = [''eval_runs'', ''index'']"
| "key_fields KSetsIndex = [''eval'', ''test-cases'', ''index'']"
| "key_fields KSourcesIndex = [''data_sources'', ''index'']"
| "key_fields KWorkspacesIndex = [''workspaces'', ''index'']"

definition key_str :: "ws_key \<Rightarrow> string" where
  "key_str k = join_with '':'' (key_fields k)"

lemma key_str_simps:
  "key_thread i = key_str (KThread i)" "key_thread_messages i = key_str (KMessages i)"
  "key_thread_files i = key_str (KFiles i)" "key_stored_file i = key_str (KFile i)"
  "key_test_case i = key_str (KCase i)" "key_eval_run i = key_str (KRun i)"
  "key_eval_run_results i = key_str (KResults i)" "key_eval_test_case_set i = key_str (KSet i)"
  "key_eval_forks i j = key_str (KForks i j)" "key_data_source i = key_str (KSource i)"
  "key_workspace i = key_str (KWorkspace i)"
  "THREADS_INDEX = key_str KThreadsIndex" "TEST_CASES_INDEX = key_str KCasesIndex"
  "EVAL_RUNS_INDEX = key_str KRunsIndex" "EVAL_TEST_CASE_SETS_INDEX = key_str KSetsIndex"
  "DATA_SOURCES_INDEX = key_str KSourcesIndex" "WORKSPACES_INDEX = key_str KWorkspacesIndex"
  by (simp_all add: key_defs key_str_def)

text \<open>Ids without a colon; a set of test cases must not be called \<open>index\<close>.\<close>

definition plain_ids :: "string set" where
  "plain_ids = {i. CHR '':'' \<notin> set i}"

fun valid_key :: "ws_key \<Rightarrow> bool" where
  "valid_key (KSet i) \<longleftrightarrow> i \<in> plain_ids \<and> i \<noteq> ''index''"
| "valid_key (KForks i j) \<longleftrightarrow> i \<in> plain_ids \<and> j \<in> plain_ids"
| "valid_key k \<longleftrightarrow> (\<forall>i \<in> set (key_fields k). i \<in> plain_ids)"

lemma key_fields_plain: "valid_key k \<Longrightarrow> \<forall>w \<in> set (key_fields k). CHR '':'' \<notin> set w"
  by (cases k) (auto simp: plain_ids_def)

lemma key_fields_inj: "valid_key k \<Longrightarrow> valid_key k' \<Longrightarrow> key_fields k = key_fields k' \<Longrightarrow> k = k'"
  by (cases k; cases k'; simp)

lemma key_str_inj: "valid_key k \<Longrightarrow> valid_key k' \<Longrightarrow> key_str k = key_str k' \<longleftrightarrow> k = k'"
proof
  assume v: "valid_key k" "valid_key k'" and eq: "key_str k = key_str k'"
  have "key_fields k \<noteq> []" "key_fields k' \<noteq> []" by (cases k; simp) (cases k'; simp)
  then have "split_char (CHR '':'') (key_str k) = key_fields k" "split_char (CHR '':'') (key_str k') = key_fields k'"
    unfolding key_str_def using key_fields_plain v by (auto intro: split_char_join)
  then show "k = k'" using eq key_fields_inj [OF v] by simp
qed simp

text \<open>
  Outside these conditions keys collide: a thread called \<open>x:messages\<close> has the key of the messages of \<open>x\<close>,
  and a set of test cases called \<open>index\<close> the key of the index of sets.
\<close>

lemma thread_key_collision: "key_thread (''x'' @ '':messages'') = key_thread_messages ''x''"
  by (simp add: key_defs)

lemma set_key_collision: "key_eval_test_case_set ''index'' = EVAL_TEST_CASE_SETS_INDEX"
  by (simp add: key_defs)

end
