(* ===== verification/Entity_Index.thy ===== *)
theory Entity_Index
  imports DashMap_KV "HOL-Library.List_Lexorder" "HOL-Library.Char_ord"
begin

text \<open>
  Entities with an index of their ids in a key-value store: \<open>IndexedEntity\<close> of
  \<open>crates/agent-fw-workspace/src/indexed_entity.rs\<close> and the helpers of \<open>kv_store.rs\<close> that do the same with
  another error type (the two injections \<open>ke\<close> and \<open>se\<close> of store and serde errors are arguments).

  A method is a program: a function from the store state to a result and the new state. A program over a
  lawful store is simulated by the same program over a plain map, which is where the lemmas are proved.
\<close>

section \<open>Programs over a store\<close>

type_synonym ('s, 'e, 'a) prog = "'s \<Rightarrow> ('e, 'a) result \<times> 's"

definition prog_result :: "('e, 'a) result \<Rightarrow> ('s, 'e, 'a) prog" where
  "prog_result r s = (r, s)"

definition prog_ok :: "'a \<Rightarrow> ('s, 'e, 'a) prog" where
  "prog_ok a s = (Ok a, s)"

definition and_then :: "('s, 'e, 'a) prog \<Rightarrow> ('a \<Rightarrow> ('s, 'e, 'b) prog) \<Rightarrow> ('s, 'e, 'b) prog" where
  "and_then m f s = (case m s of (Err e, s') \<Rightarrow> (Err e, s') | (Ok a, s') \<Rightarrow> f a s')"

definition map_prog_err :: "('e \<Rightarrow> 'f) \<Rightarrow> ('s, 'e, 'a) prog \<Rightarrow> ('s, 'f, 'a) prog" where
  "map_prog_err f m s = (case m s of (r, s') \<Rightarrow> (map_err f r, s'))"

text \<open>\<open>let _ = ...\<close>: the result is dropped.\<close>

definition ignore_result :: "('s, 'e, 'a) prog \<Rightarrow> ('s, 'f, unit) prog" where
  "ignore_result m s = (Ok (), snd (m s))"

fun for_each :: "('a \<Rightarrow> ('s, 'e, 'b) prog) \<Rightarrow> 'a list \<Rightarrow> ('s, 'e, 'b list) prog" where
  "for_each f [] = prog_ok []"
| "for_each f (x # xs) = and_then (f x) (\<lambda>y. and_then (for_each f xs) (\<lambda>ys. prog_ok (y # ys)))"

section \<open>Helpers of the stores\<close>

type_synonym EntityIndex = "string list"

definition put_entity ::
  "(KVError \<Rightarrow> 'e) \<Rightarrow> (string \<Rightarrow> 'e) \<Rightarrow> ('s, 'j) KVStore \<Rightarrow> ('v, 'j) serde \<Rightarrow> string \<Rightarrow> string \<Rightarrow> 'v \<Rightarrow> ('s, 'e, unit) prog" where
  "put_entity ke se kv sd t key v =
     and_then (prog_result (map_err se (to_value sd v)))
       (\<lambda>j. map_prog_err ke (\<lambda>s. put_json kv s t key j None))"

definition get_entity ::
  "(KVError \<Rightarrow> 'e) \<Rightarrow> (string \<Rightarrow> 'e) \<Rightarrow> ('s, 'j) KVStore \<Rightarrow> ('v, 'j) serde \<Rightarrow> string \<Rightarrow> string \<Rightarrow> ('s, 'e, 'v option) prog" where
  "get_entity ke se kv sd t key =
     and_then (map_prog_err ke (\<lambda>s. get_json kv s t key))
       (\<lambda>val. case val of
           Some j \<Rightarrow> and_then (prog_result (map_err se (from_value sd j))) (\<lambda>v. prog_ok (Some v))
         | None \<Rightarrow> prog_ok None)"

definition load_index ::
  "(KVError \<Rightarrow> 'e) \<Rightarrow> (string \<Rightarrow> 'e) \<Rightarrow> ('s, 'j) KVStore \<Rightarrow> (EntityIndex, 'j) serde \<Rightarrow> string \<Rightarrow> string \<Rightarrow> ('s, 'e, EntityIndex) prog" where
  "load_index ke se kv isd t key =
     and_then (map_prog_err ke (\<lambda>s. get_json kv s t key))
       (\<lambda>val. case val of Some j \<Rightarrow> prog_result (map_err se (from_value isd j)) | None \<Rightarrow> prog_ok [])"

definition save_index ::
  "(KVError \<Rightarrow> 'e) \<Rightarrow> (string \<Rightarrow> 'e) \<Rightarrow> ('s, 'j) KVStore \<Rightarrow> (EntityIndex, 'j) serde \<Rightarrow> string \<Rightarrow> string \<Rightarrow> EntityIndex \<Rightarrow> ('s, 'e, unit) prog" where
  "save_index ke se kv isd t key ids = put_entity ke se kv isd t key ids"

definition delete_key :: "(KVError \<Rightarrow> 'e) \<Rightarrow> ('s, 'j) KVStore \<Rightarrow> string \<Rightarrow> string \<Rightarrow> ('s, 'e, bool) prog" where
  "delete_key ke kv t key = map_prog_err ke (\<lambda>s. kv_delete kv s t key)"

text \<open>The index update after an insert, and the one after a delete.\<close>

definition index_insert ::
  "(KVError \<Rightarrow> 'e) \<Rightarrow> (string \<Rightarrow> 'e) \<Rightarrow> ('s, 'j) KVStore \<Rightarrow> (EntityIndex, 'j) serde \<Rightarrow> string \<Rightarrow> string \<Rightarrow> string \<Rightarrow> ('s, 'e, unit) prog" where
  "index_insert ke se kv isd t index_key ident =
     and_then (load_index ke se kv isd t index_key)
       (\<lambda>ids. if ident \<notin> set ids then save_index ke se kv isd t index_key (ident # ids) else prog_ok ())"

definition index_retain ::
  "(KVError \<Rightarrow> 'e) \<Rightarrow> (string \<Rightarrow> 'e) \<Rightarrow> ('s, 'j) KVStore \<Rightarrow> (EntityIndex, 'j) serde \<Rightarrow> string \<Rightarrow> string \<Rightarrow> (string \<Rightarrow> bool) \<Rightarrow> ('s, 'e, unit) prog" where
  "index_retain ke se kv isd t index_key keep =
     and_then (load_index ke se kv isd t index_key) (\<lambda>ids. save_index ke se kv isd t index_key (filter keep ids))"

definition upsert_indexed ::
  "(KVError \<Rightarrow> 'e) \<Rightarrow> (string \<Rightarrow> 'e) \<Rightarrow> ('s, 'j) KVStore \<Rightarrow> ('v, 'j) serde \<Rightarrow> (EntityIndex, 'j) serde \<Rightarrow> string \<Rightarrow>
   string \<Rightarrow> string \<Rightarrow> string \<Rightarrow> 'v \<Rightarrow> ('s, 'e, unit) prog" where
  "upsert_indexed ke se kv sd isd t key index_key ident v =
     and_then (put_entity ke se kv sd t key v) (\<lambda>_. index_insert ke se kv isd t index_key ident)"

definition list_indexed ::
  "(KVError \<Rightarrow> 'e) \<Rightarrow> (string \<Rightarrow> 'e) \<Rightarrow> ('s, 'j) KVStore \<Rightarrow> ('v, 'j) serde \<Rightarrow> (EntityIndex, 'j) serde \<Rightarrow> string \<Rightarrow>
   (string \<Rightarrow> string) \<Rightarrow> string \<Rightarrow> ('s, 'e, 'v list) prog" where
  "list_indexed ke se kv sd isd t key_of index_key =
     and_then (load_index ke se kv isd t index_key)
       (\<lambda>ids. and_then (for_each (\<lambda>ident. get_entity ke se kv sd t (key_of ident)) ids)
                (\<lambda>vs. prog_ok (List.map_filter (\<lambda>v. v) vs)))"

definition delete_indexed ::
  "(KVError \<Rightarrow> 'e) \<Rightarrow> (string \<Rightarrow> 'e) \<Rightarrow> ('s, 'j) KVStore \<Rightarrow> (EntityIndex, 'j) serde \<Rightarrow> string \<Rightarrow>
   string \<Rightarrow> string \<Rightarrow> string \<Rightarrow> ('s, 'e, bool) prog" where
  "delete_indexed ke se kv isd t key index_key ident =
     and_then (delete_key ke kv t key)
       (\<lambda>existed. and_then (index_retain ke se kv isd t index_key (\<lambda>existing. existing \<noteq> ident)) (\<lambda>_. prog_ok existed))"

definition batch_delete_indexed ::
  "(KVError \<Rightarrow> 'e) \<Rightarrow> (string \<Rightarrow> 'e) \<Rightarrow> ('s, 'j) KVStore \<Rightarrow> (EntityIndex, 'j) serde \<Rightarrow> string \<Rightarrow>
   (string \<Rightarrow> string) \<Rightarrow> string \<Rightarrow> string list \<Rightarrow> ('s, 'e, nat) prog" where
  "batch_delete_indexed ke se kv isd t key_of index_key ids =
     and_then (for_each (\<lambda>ident. delete_key ke kv t (key_of ident)) ids)
       (\<lambda>existed. and_then (index_retain ke se kv isd t index_key (\<lambda>existing. existing \<notin> set ids))
          (\<lambda>_. prog_ok (length (filter (\<lambda>b. b) existed))))"

section \<open>Indexed entities\<close>

record EntityConfig =
  key_prefix :: string
  index_key :: string

definition entity_key :: "EntityConfig \<Rightarrow> string \<Rightarrow> string" where
  "entity_key cfg ident =
     (if suffix '':'' (key_prefix cfg) then key_prefix cfg @ ident else key_prefix cfg @ '':'' @ ident)"

datatype IndexedEntityError = EntityKV KVError | EntitySerde string

fun display_IndexedEntityError :: "IndexedEntityError \<Rightarrow> string" where
  "display_IndexedEntityError (EntityKV e) = ''KV error: '' @ display_KVError e"
| "display_IndexedEntityError (EntitySerde e) = ''Serialization error: '' @ e"

text \<open>The two configurations of \<open>agent-fw-ingest/src/knowledge_store.rs\<close>.\<close>

definition DOCUMENT_CONFIG :: EntityConfig where
  "DOCUMENT_CONFIG = \<lparr>key_prefix = ''data:document:'', index_key = ''data:documents:index''\<rparr>"

definition KNOWLEDGE_CONFIG :: EntityConfig where
  "KNOWLEDGE_CONFIG = \<lparr>key_prefix = ''data:knowledge:'', index_key = ''data:knowledge:index''\<rparr>"

definition ie_put ::
  "('s, 'j) KVStore \<Rightarrow> ('v, 'j) serde \<Rightarrow> (EntityIndex, 'j) serde \<Rightarrow> EntityConfig \<Rightarrow> string \<Rightarrow> string \<Rightarrow> 'v \<Rightarrow>
   ('s, IndexedEntityError, unit) prog" where
  "ie_put kv sd isd cfg t ident v = upsert_indexed EntityKV EntitySerde kv sd isd t (entity_key cfg ident) (index_key cfg) ident v"

definition ie_get ::
  "('s, 'j) KVStore \<Rightarrow> ('v, 'j) serde \<Rightarrow> EntityConfig \<Rightarrow> string \<Rightarrow> string \<Rightarrow> ('s, IndexedEntityError, 'v option) prog" where
  "ie_get kv sd cfg t ident = get_entity EntityKV EntitySerde kv sd t (entity_key cfg ident)"

definition ie_delete ::
  "('s, 'j) KVStore \<Rightarrow> (EntityIndex, 'j) serde \<Rightarrow> EntityConfig \<Rightarrow> string \<Rightarrow> string \<Rightarrow> ('s, IndexedEntityError, bool) prog" where
  "ie_delete kv isd cfg t ident = delete_indexed EntityKV EntitySerde kv isd t (entity_key cfg ident) (index_key cfg) ident"

definition ie_list_ids ::
  "('s, 'j) KVStore \<Rightarrow> (EntityIndex, 'j) serde \<Rightarrow> EntityConfig \<Rightarrow> string \<Rightarrow> ('s, IndexedEntityError, string list) prog" where
  "ie_list_ids kv isd cfg t = load_index EntityKV EntitySerde kv isd t (index_key cfg)"

definition ie_list ::
  "('s, 'j) KVStore \<Rightarrow> ('v, 'j) serde \<Rightarrow> (EntityIndex, 'j) serde \<Rightarrow> EntityConfig \<Rightarrow> string \<Rightarrow> ('s, IndexedEntityError, 'v list) prog" where
  "ie_list kv sd isd cfg t = list_indexed EntityKV EntitySerde kv sd isd t (entity_key cfg) (index_key cfg)"

definition ie_batch_delete ::
  "('s, 'j) KVStore \<Rightarrow> (EntityIndex, 'j) serde \<Rightarrow> EntityConfig \<Rightarrow> string \<Rightarrow> string list \<Rightarrow> ('s, IndexedEntityError, nat) prog" where
  "ie_batch_delete kv isd cfg t ids = batch_delete_indexed EntityKV EntitySerde kv isd t (entity_key cfg) (index_key cfg) ids"

section \<open>Simulation by a plain map\<close>

type_synonym 'j content = "string \<Rightarrow> string \<rightharpoonup> 'j"

definition map_put :: "string \<Rightarrow> string \<Rightarrow> 'j option \<Rightarrow> 'j content \<Rightarrow> 'j content" where
  "map_put t k v c = c(t := (c t)(k := v))"

definition map_kv :: "('j content, 'j) KVStore" where
  "map_kv = \<lparr>
     put_json = (\<lambda>c t k v ttl. (Ok (), map_put t k (Some v) c)),
     get_json = (\<lambda>c t k. (Ok (c t k), c)),
     kv_delete = (\<lambda>c t k. (Ok (c t k \<noteq> None), map_put t k None c)),
     kv_exists = (\<lambda>c t k. (Ok (c t k \<noteq> None), c)),
     list_keys = (\<lambda>c t p. (Ok (sorted_list_of_set {k. prefix p k \<and> c t k \<noteq> None}), c)),
     get_many_json = (\<lambda>c t ks. (Ok (\<lambda>k. if k \<in> set ks then c t k else None), c))\<rparr>"

definition simulates ::
  "('s \<Rightarrow> 'j content) \<Rightarrow> ('a \<Rightarrow> 'b \<Rightarrow> bool) \<Rightarrow> ('s, 'e, 'a) prog \<Rightarrow> ('j content, 'e, 'b) prog \<Rightarrow> bool" where
  "simulates content A m m0 \<longleftrightarrow>
     (\<forall>s. rel_sum (=) A (fst (m s)) (fst (m0 (content s))) \<and> content (snd (m s)) = snd (m0 (content s)))"

named_theorems sim_intros \<open>simulation of programs\<close>

lemma simulates_result [sim_intros]: "rel_sum (=) A r r0 \<Longrightarrow> simulates content A (prog_result r) (prog_result r0)"
  by (simp add: simulates_def prog_result_def)

lemma simulates_ok [sim_intros]: "A a b \<Longrightarrow> simulates content A (prog_ok a) (prog_ok b)"
  by (simp add: simulates_def prog_ok_def)

lemma simulates_and_then [sim_intros]:
  assumes "simulates content A m m0" "\<And>a b. A a b \<Longrightarrow> simulates content B (f a) (f0 b)"
  shows "simulates content B (and_then m f) (and_then m0 f0)"
  unfolding simulates_def
proof
  fix s
  obtain r s1 r0 c1 where r: "m s = (r, s1)" "m0 (content s) = (r0, c1)" by fastforce
  then have "rel_sum (=) A r r0" "content s1 = c1" using assms(1) by (auto simp: simulates_def dest: spec [of _ s])
  then show "rel_sum (=) B (fst (and_then m f s)) (fst (and_then m0 f0 (content s)))
      \<and> content (snd (and_then m f s)) = snd (and_then m0 f0 (content s))"
    using r assms(2) by (cases rule: rel_sum.cases) (auto simp: and_then_def simulates_def)
qed

lemma simulates_map_err [sim_intros]:
  assumes "simulates content A m m0"
  shows "simulates content A (map_prog_err f m) (map_prog_err f m0)"
  unfolding simulates_def
proof
  fix s
  obtain r s1 r0 c1 where r: "m s = (r, s1)" "m0 (content s) = (r0, c1)" by fastforce
  then have "rel_sum (=) A r r0" "content s1 = c1" using assms by (auto simp: simulates_def dest: spec [of _ s])
  then show "rel_sum (=) A (fst (map_prog_err f m s)) (fst (map_prog_err f m0 (content s)))
      \<and> content (snd (map_prog_err f m s)) = snd (map_prog_err f m0 (content s))"
    using r by (cases rule: rel_sum.cases) (auto simp: map_prog_err_def)
qed

lemma simulates_ignore [sim_intros]:
  "simulates content A m m0 \<Longrightarrow> simulates content (=) (ignore_result m) (ignore_result m0)"
  by (simp add: simulates_def ignore_result_def)

lemma simulates_for_each [sim_intros]:
  "(\<And>x. simulates content A (f x) (f0 x)) \<Longrightarrow> simulates content (list_all2 A) (for_each f xs) (for_each f0 xs)"
  by (induction xs) (auto intro!: sim_intros)

lemma simulates_if [sim_intros]:
  "(b \<Longrightarrow> simulates content A m m0) \<Longrightarrow> (\<not> b \<Longrightarrow> simulates content A n n0) \<Longrightarrow>
   simulates content A (if b then m else n) (if b then m0 else n0)"
  by simp

lemma simulates_option [sim_intros]:
  "(x = None \<Longrightarrow> simulates content A m m0) \<Longrightarrow> (\<And>y. x = Some y \<Longrightarrow> simulates content A (f y) (f0 y)) \<Longrightarrow>
   simulates content A (case x of None \<Rightarrow> m | Some y \<Rightarrow> f y) (case x of None \<Rightarrow> m0 | Some y \<Rightarrow> f0 y)"
  by (cases x) simp_all

lemma rel_sum_refl [simp, intro]: "rel_sum (=) (=) r r"
  by (simp add: sum.rel_eq)

definition store_content :: "('s \<Rightarrow> string \<Rightarrow> string \<Rightarrow> 'j option) \<Rightarrow> (string \<Rightarrow> bool) \<Rightarrow> 's \<Rightarrow> 'j content" where
  "store_content peek separable s = (\<lambda>t k. if separable t then peek s t k else None)"

lemma store_content_cong: "peek s' = peek s \<Longrightarrow> store_content peek separable s' = store_content peek separable s"
  by (simp only: store_content_def)

context KV_laws
begin

lemma sim_put_json [sim_intros]:
  assumes "separable t"
  shows "simulates (store_content peek separable) (=) (\<lambda>s. put_json kv s t k v ttl) (\<lambda>c. put_json map_kv c t k v ttl)"
  unfolding simulates_def
proof
  fix s
  obtain r s' where p: "put_json kv s t k v ttl = (r, s')" by fastforce
  have "store_content peek separable s' = map_put t k (Some v) (store_content peek separable s)"
    using put_content [OF p] put_frame [OF p assms] assms by (auto simp: store_content_def map_put_def fun_eq_iff)
  then show "rel_sum (=) (=) (fst (put_json kv s t k v ttl)) (fst (put_json map_kv (store_content peek separable s) t k v ttl))
      \<and> store_content peek separable (snd (put_json kv s t k v ttl)) =
        snd (put_json map_kv (store_content peek separable s) t k v ttl)"
    using p put_content [OF p] by (simp add: map_kv_def)
qed

lemma sim_get_json [sim_intros]:
  assumes "separable t"
  shows "simulates (store_content peek separable) (=) (\<lambda>s. get_json kv s t k) (\<lambda>c. get_json map_kv c t k)"
  unfolding simulates_def
proof
  fix s
  obtain r s' where g: "get_json kv s t k = (r, s')" by fastforce
  then show "rel_sum (=) (=) (fst (get_json kv s t k)) (fst (get_json map_kv (store_content peek separable s) t k))
      \<and> store_content peek separable (snd (get_json kv s t k)) = snd (get_json map_kv (store_content peek separable s) t k)"
    using get_content [OF g] store_content_cong [of peek s' s separable] assms
    by (auto simp: map_kv_def) (simp_all add: store_content_def)
qed

lemma sim_get_many [sim_intros]:
  assumes "separable t"
  shows "simulates (store_content peek separable) (=) (\<lambda>s. get_many_json kv s t ks) (\<lambda>c. get_many_json map_kv c t ks)"
  unfolding simulates_def
proof
  fix s
  obtain r s' where g: "get_many_json kv s t ks = (r, s')" by fastforce
  then show "rel_sum (=) (=) (fst (get_many_json kv s t ks)) (fst (get_many_json map_kv (store_content peek separable s) t ks))
      \<and> store_content peek separable (snd (get_many_json kv s t ks)) =
        snd (get_many_json map_kv (store_content peek separable s) t ks)"
    using get_many_content [OF g] store_content_cong [of peek s' s separable] assms
    by (auto simp: map_kv_def) (simp add: store_content_def fun_eq_iff)
qed

text \<open>A delete may also report an entry that was no longer visible.\<close>

lemma sim_delete [sim_intros]:
  assumes "separable t"
  shows "simulates (store_content peek separable) (\<lambda>b b0. b0 \<longrightarrow> b) (\<lambda>s. kv_delete kv s t k) (\<lambda>c. kv_delete map_kv c t k)"
  unfolding simulates_def
proof
  fix s
  obtain r s' where d: "kv_delete kv s t k = (r, s')" by fastforce
  have "store_content peek separable s' = map_put t k None (store_content peek separable s)"
    using delete_content [OF d] delete_frame [OF d assms] assms by (auto simp: store_content_def map_put_def fun_eq_iff)
  then show "rel_sum (=) (\<lambda>b b0. b0 \<longrightarrow> b) (fst (kv_delete kv s t k)) (fst (kv_delete map_kv (store_content peek separable s) t k))
      \<and> store_content peek separable (snd (kv_delete kv s t k)) = snd (kv_delete map_kv (store_content peek separable s) t k)"
    using d delete_content [OF d] assms by (auto simp: map_kv_def store_content_def)
qed

lemma sim_put_entity [sim_intros]:
  "separable t \<Longrightarrow>
   simulates (store_content peek separable) (=) (put_entity ke se kv sd t k v) (put_entity ke se map_kv sd t k v)"
  unfolding put_entity_def by (rule sim_intros rel_sum_refl | simp)+

lemma sim_get_entity [sim_intros]:
  "separable t \<Longrightarrow>
   simulates (store_content peek separable) (=) (get_entity ke se kv sd t k) (get_entity ke se map_kv sd t k)"
  unfolding get_entity_def by (rule sim_intros rel_sum_refl | simp)+

lemma sim_load_index [sim_intros]:
  "separable t \<Longrightarrow>
   simulates (store_content peek separable) (=) (load_index ke se kv isd t k) (load_index ke se map_kv isd t k)"
  unfolding load_index_def by (rule sim_intros rel_sum_refl | simp)+

lemma sim_save_index [sim_intros]:
  "separable t \<Longrightarrow>
   simulates (store_content peek separable) (=) (save_index ke se kv isd t k ids) (save_index ke se map_kv isd t k ids)"
  unfolding save_index_def by (rule sim_put_entity)

lemma sim_delete_key [sim_intros]:
  "separable t \<Longrightarrow>
   simulates (store_content peek separable) (\<lambda>b b0. b0 \<longrightarrow> b) (delete_key ke kv t k) (delete_key ke map_kv t k)"
  unfolding delete_key_def by (rule sim_intros | assumption)+

lemma sim_index_insert [sim_intros]:
  "separable t \<Longrightarrow>
   simulates (store_content peek separable) (=) (index_insert ke se kv isd t k ident) (index_insert ke se map_kv isd t k ident)"
  unfolding index_insert_def by (auto intro!: sim_intros)

lemma sim_index_retain [sim_intros]:
  "separable t \<Longrightarrow>
   simulates (store_content peek separable) (=) (index_retain ke se kv isd t k keep) (index_retain ke se map_kv isd t k keep)"
  unfolding index_retain_def by (rule sim_intros | simp)+

lemma sim_upsert_indexed [sim_intros]:
  "separable t \<Longrightarrow>
   simulates (store_content peek separable) (=) (upsert_indexed ke se kv sd isd t k ik ident v)
     (upsert_indexed ke se map_kv sd isd t k ik ident v)"
  unfolding upsert_indexed_def by (rule sim_intros | simp)+

lemma sim_list_indexed [sim_intros]:
  "separable t \<Longrightarrow>
   simulates (store_content peek separable) (=) (list_indexed ke se kv sd isd t key_of ik) (list_indexed ke se map_kv sd isd t key_of ik)"
  unfolding list_indexed_def by (rule sim_intros | simp add: list.rel_eq)+

lemma sim_delete_indexed [sim_intros]:
  "separable t \<Longrightarrow>
   simulates (store_content peek separable) (\<lambda>b b0. b0 \<longrightarrow> b) (delete_indexed ke se kv isd t k ik ident)
     (delete_indexed ke se map_kv isd t k ik ident)"
  unfolding delete_indexed_def by (rule sim_intros | simp)+

lemma sim_batch_delete_indexed [sim_intros]:
  assumes "separable t"
  shows "simulates (store_content peek separable) (\<lambda>n n0. n0 \<le> n) (batch_delete_indexed ke se kv isd t key_of ik ids)
     (batch_delete_indexed ke se map_kv isd t key_of ik ids)"
proof -
  have "length (filter (\<lambda>b. b) bs0) \<le> length (filter (\<lambda>b. b) bs)" if "list_all2 (\<lambda>b b0. b0 \<longrightarrow> b) bs bs0" for bs bs0
    using that by (induction rule: list_all2_induct) auto
  then show ?thesis
    unfolding batch_delete_indexed_def using assms by - (rule sim_intros | simp)+
qed

lemma simulates_run:
  assumes "simulates (store_content peek separable) (=) m m0" "m0 (store_content peek separable s) = (r, c)"
  obtains s' where "m s = (r, s')" "store_content peek separable s' = c"
  using assms by (cases "m s") (auto simp: simulates_def sum.rel_eq dest: spec [of _ s])

end

section \<open>Programs on the map\<close>

definition encode :: "('v, 'j) serde \<Rightarrow> 'v \<Rightarrow> 'j" where
  "encode sd v = projr (to_value sd v)"

definition readable :: "('v, 'j) serde \<Rightarrow> 'j option \<Rightarrow> bool" where
  "readable sd x = (case x of None \<Rightarrow> True | Some j \<Rightarrow> is_ok (from_value sd j))"

definition decode :: "('v, 'j) serde \<Rightarrow> 'j option \<Rightarrow> 'v option" where
  "decode sd x = (case x of None \<Rightarrow> None | Some j \<Rightarrow> (case from_value sd j of Err _ \<Rightarrow> None | Ok v \<Rightarrow> Some v))"

definition good_serde :: "('v, 'j) serde \<Rightarrow> bool" where
  "good_serde sd \<longleftrightarrow> serde_total sd \<and> serde_roundtrip sd"

lemma good_serde_id [simp]: "good_serde serde_id"
  by (simp add: good_serde_def)

lemma to_value_good: "good_serde sd \<Longrightarrow> to_value sd v = Ok (encode sd v)"
  unfolding good_serde_def encode_def by (metis serde_totalE sum.sel(2))

lemma from_value_good: "good_serde sd \<Longrightarrow> from_value sd (encode sd v) = Ok v"
  using to_value_good [of sd v] by (auto simp: good_serde_def dest: serde_roundtripD)

lemma decode_encode [simp]:
  "good_serde sd \<Longrightarrow> decode sd (Some (encode sd v)) = Some v" "good_serde sd \<Longrightarrow> readable sd (Some (encode sd v))"
  "decode sd None = None" "readable sd None"
  by (simp_all add: decode_def readable_def from_value_good)

lemmas prog_defs = prog_result_def prog_ok_def and_then_def map_prog_err_def

lemma run_put_entity: "good_serde sd \<Longrightarrow> put_entity ke se map_kv sd t k v c = (Ok (), map_put t k (Some (encode sd v)) c)"
  by (simp add: put_entity_def prog_defs to_value_good map_kv_def)

lemma run_get_entity: "readable sd (c t k) \<Longrightarrow> get_entity ke se map_kv sd t k c = (Ok (decode sd (c t k)), c)"
  by (cases "c t k"; cases "from_value sd (the (c t k))") (auto simp: get_entity_def prog_defs map_kv_def readable_def decode_def)

lemma run_load_index:
  "readable isd (c t k) \<Longrightarrow> load_index ke se map_kv isd t k c = (Ok (unwrap_or [] (decode isd (c t k))), c)"
  by (cases "c t k"; cases "from_value isd (the (c t k))") (auto simp: load_index_def prog_defs map_kv_def readable_def decode_def)

lemma run_delete_key: "delete_key ke map_kv t k c = (Ok (c t k \<noteq> None), map_put t k None c)"
  by (simp add: delete_key_def prog_defs map_kv_def)

lemma run_and_then: "m c = (Ok a, c') \<Longrightarrow> and_then m f c = f a c'"
  by (simp add: and_then_def)

lemma run_prog_ok: "prog_ok a c = (Ok a, c)"
  by (simp add: prog_ok_def)

lemma run_for_each_get:
  "\<forall>i \<in> set ids. readable sd (c t (key_of i)) \<Longrightarrow>
   for_each (\<lambda>i. get_entity ke se map_kv sd t (key_of i)) ids c = (Ok (map (\<lambda>i. decode sd (c t (key_of i))) ids), c)"
  by (induction ids) (simp_all add: run_and_then run_get_entity run_prog_ok)

lemma map_put_apply [simp]: "map_put t k v c t' k' = (if t' = t \<and> k' = k then v else c t' k')"
  by (simp add: map_put_def)


section \<open>What an indexed store promises\<close>

record 'v indexed =
  im_ids :: "string list"
  im_map :: "string \<rightharpoonup> 'v"

definition im_empty :: "'v indexed" where
  "im_empty = \<lparr>im_ids = [], im_map = (\<lambda>_. None)\<rparr>"

definition im_put :: "string \<Rightarrow> 'v \<Rightarrow> 'v indexed \<Rightarrow> 'v indexed" where
  "im_put i v a = \<lparr>im_ids = (if i \<in> set (im_ids a) then im_ids a else i # im_ids a), im_map = (im_map a)(i \<mapsto> v)\<rparr>"

definition im_remove :: "string set \<Rightarrow> 'v indexed \<Rightarrow> 'v indexed" where
  "im_remove X a = \<lparr>im_ids = filter (\<lambda>i. i \<notin> X) (im_ids a), im_map = (\<lambda>i. if i \<in> X then None else im_map a i)\<rparr>"

definition im_list :: "'v indexed \<Rightarrow> 'v list" where
  "im_list a = List.map_filter (im_map a) (im_ids a)"

text \<open>Every entity is listed once, and nothing else is.\<close>

definition im_consistent :: "'v indexed \<Rightarrow> bool" where
  "im_consistent a \<longleftrightarrow> distinct (im_ids a) \<and> set (im_ids a) = dom (im_map a)"

lemma im_consistent_empty [inv_intros]: "im_consistent im_empty"
  by (auto simp: im_consistent_def im_empty_def)

lemma im_consistent_put [inv_intros]: "im_consistent a \<Longrightarrow> im_consistent (im_put i v a)"
  by (auto simp: im_consistent_def im_put_def)

lemma im_consistent_remove [inv_intros]: "im_consistent a \<Longrightarrow> im_consistent (im_remove X a)"
  by (auto simp: im_consistent_def im_remove_def split: if_splits)

text \<open>A part of a map that holds an indexed store: its codec, its ids and keys, and the key of its index.\<close>

record ('v, 'j) family =
  fam_serde :: "('v, 'j) serde"
  fam_ids :: "string set"
  fam_key :: "string \<Rightarrow> string"
  fam_index :: string

definition family_ok :: "('v, 'j) family \<Rightarrow> bool" where
  "family_ok f \<longleftrightarrow>
     good_serde (fam_serde f) \<and> inj_on (fam_key f) (fam_ids f) \<and> fam_index f \<notin> fam_key f ` fam_ids f"

lemma family_okD:
  assumes "family_ok f"
  shows "good_serde (fam_serde f)"
    "i \<in> fam_ids f \<Longrightarrow> j \<in> fam_ids f \<Longrightarrow> fam_key f i = fam_key f j \<longleftrightarrow> i = j"
    "i \<in> fam_ids f \<Longrightarrow> fam_index f \<noteq> fam_key f i" "i \<in> fam_ids f \<Longrightarrow> fam_key f i \<noteq> fam_index f"
  using assms unfolding family_ok_def by (auto dest: inj_onD) (metis imageI)+

definition represents ::
  "(EntityIndex, 'j) serde \<Rightarrow> string \<Rightarrow> ('v, 'j) family \<Rightarrow> 'j content \<Rightarrow> 'v indexed \<Rightarrow> bool" where
  "represents isd t f c a \<longleftrightarrow>
     readable isd (c t (fam_index f)) \<and> unwrap_or [] (decode isd (c t (fam_index f))) = im_ids a
     \<and> set (im_ids a) \<subseteq> fam_ids f \<and> dom (im_map a) \<subseteq> fam_ids f
     \<and> (\<forall>i \<in> fam_ids f. readable (fam_serde f) (c t (fam_key f i)) \<and> decode (fam_serde f) (c t (fam_key f i)) = im_map a i)"

lemma represents_empty: "(\<And>k. c t k = None) \<Longrightarrow> represents isd t f c im_empty"
  by (simp add: represents_def im_empty_def)

lemma represents_cong:
  assumes "represents isd t f c a" "c' t (fam_index f) = c t (fam_index f)" "\<And>i. i \<in> fam_ids f \<Longrightarrow> c' t (fam_key f i) = c t (fam_key f i)"
  shows "represents isd t f c' a"
  using assms by (simp add: represents_def)

lemma represents_index:
  "represents isd t f c a \<Longrightarrow> load_index ke se map_kv isd t (fam_index f) c = (Ok (im_ids a), c)"
  by (simp add: represents_def run_load_index)

lemma represents_get:
  "represents isd t f c a \<Longrightarrow> i \<in> fam_ids f \<Longrightarrow> get_entity ke se map_kv (fam_serde f) t (fam_key f i) c = (Ok (im_map a i), c)"
  by (simp add: represents_def run_get_entity)

lemma represents_list:
  assumes "represents isd t f c a"
  shows "list_indexed ke se map_kv (fam_serde f) isd t (fam_key f) (fam_index f) c = (Ok (im_list a), c)"
proof -
  have "for_each (\<lambda>i. get_entity ke se map_kv (fam_serde f) t (fam_key f i)) (im_ids a) c = (Ok (map (im_map a) (im_ids a)), c)"
    using assms by (subst run_for_each_get) (auto simp: represents_def)
  moreover have "List.map_filter (\<lambda>v. v) (map (im_map a) is) = List.map_filter (im_map a) is" for "is"
    by (induction "is") (simp_all add: List.map_filter_simps split: option.split)
  ultimately show ?thesis
    by (simp add: list_indexed_def represents_index [OF assms] run_and_then run_prog_ok im_list_def)
qed

text \<open>The keys one operation may change.\<close>

definition same_except :: "string \<Rightarrow> string set \<Rightarrow> 'j content \<Rightarrow> 'j content \<Rightarrow> bool" where
  "same_except t K c c' \<longleftrightarrow> (\<forall>t' k. t' \<noteq> t \<or> k \<notin> K \<longrightarrow> c' t' k = c t' k)"

lemma upsert_represents:
  assumes "family_ok f" "good_serde isd" "represents isd t f c a" "i \<in> fam_ids f"
  obtains c' where "upsert_indexed ke se map_kv (fam_serde f) isd t (fam_key f i) (fam_index f) i v c = (Ok (), c')"
    "represents isd t f c' (im_put i v a)" "same_except t {fam_key f i, fam_index f} c c'"
proof -
  let ?c1 = "map_put t (fam_key f i) (Some (encode (fam_serde f) v)) c"
  note f = family_okD [OF assms(1)] assms(4)
  have put: "put_entity ke se map_kv (fam_serde f) t (fam_key f i) v c = (Ok (), ?c1)" using f by (simp add: run_put_entity)
  have load: "load_index ke se map_kv isd t (fam_index f) ?c1 = (Ok (im_ids a), ?c1)"
    using assms(3) f by (subst run_load_index) (simp_all add: represents_def)
  show thesis
  proof (cases "i \<in> set (im_ids a)")
    case True
    show thesis
    proof (rule that)
      show "upsert_indexed ke se map_kv (fam_serde f) isd t (fam_key f i) (fam_index f) i v c = (Ok (), ?c1)"
        using True by (simp add: upsert_indexed_def index_insert_def run_and_then put load run_prog_ok)
      show "represents isd t f ?c1 (im_put i v a)" using assms(3) True f by (auto simp: represents_def im_put_def)
    qed (simp add: same_except_def)
  next
    case False
    let ?c2 = "map_put t (fam_index f) (Some (encode isd (i # im_ids a))) ?c1"
    show thesis
    proof (rule that)
      show "upsert_indexed ke se map_kv (fam_serde f) isd t (fam_key f i) (fam_index f) i v c = (Ok (), ?c2)"
        using False assms(2)
        by (simp add: upsert_indexed_def index_insert_def run_and_then put load save_index_def run_put_entity)
      show "represents isd t f ?c2 (im_put i v a)" using assms(2,3) False f by (auto simp: represents_def im_put_def)
    qed (simp add: same_except_def)
  qed
qed

lemma retain_represents:
  assumes "family_ok f" "good_serde isd" "readable isd (c t (fam_index f))"
    "unwrap_or [] (decode isd (c t (fam_index f))) = im_ids a"
    "set (im_ids a) \<subseteq> fam_ids f" "dom (im_map a) \<subseteq> fam_ids f"
    "\<And>i. i \<in> fam_ids f \<Longrightarrow> readable (fam_serde f) (c t (fam_key f i))"
    "\<And>i. i \<in> fam_ids f \<Longrightarrow> decode (fam_serde f) (c t (fam_key f i)) = (if i \<in> X then None else im_map a i)"
  obtains c' where "index_retain ke se map_kv isd t (fam_index f) (\<lambda>i. i \<notin> X) c = (Ok (), c')"
    "represents isd t f c' (im_remove X a)" "same_except t {fam_index f} c c'"
proof
  let ?c = "map_put t (fam_index f) (Some (encode isd (filter (\<lambda>i. i \<notin> X) (im_ids a)))) c"
  show "index_retain ke se map_kv isd t (fam_index f) (\<lambda>i. i \<notin> X) c = (Ok (), ?c)"
    using assms(2-4) by (simp add: index_retain_def run_and_then run_load_index save_index_def run_put_entity)
  show "represents isd t f ?c (im_remove X a)"
    using assms family_okD [OF assms(1)] by (auto simp: represents_def im_remove_def split: if_splits)
qed (simp add: same_except_def)

lemma readable_decode: "readable sd x \<Longrightarrow> decode sd x = None \<longleftrightarrow> x = None"
  by (auto simp: readable_def decode_def is_ok_def split: option.splits sum.splits)

lemma represents_present: "represents isd t f c a \<Longrightarrow> i \<in> fam_ids f \<Longrightarrow> c t (fam_key f i) \<noteq> None \<longleftrightarrow> im_map a i \<noteq> None"
  by (metis readable_decode represents_def)

lemma delete_represents:
  assumes "family_ok f" "good_serde isd" "represents isd t f c a" "i \<in> fam_ids f"
  obtains c' where "delete_indexed ke se map_kv isd t (fam_key f i) (fam_index f) i c = (Ok (im_map a i \<noteq> None), c')"
    "represents isd t f c' (im_remove {i} a)" "same_except t {fam_key f i, fam_index f} c c'"
proof -
  let ?c1 = "map_put t (fam_key f i) None c"
  note f = family_okD [OF assms(1)] assms(4)
  obtain c' where c': "index_retain ke se map_kv isd t (fam_index f) (\<lambda>j. j \<notin> {i}) ?c1 = (Ok (), c')"
    "represents isd t f c' (im_remove {i} a)" "same_except t {fam_index f} ?c1 c'"
    by (rule retain_represents [OF assms(1,2), of ?c1 t a "{i}"])
      (use assms(3) f in \<open>auto simp: represents_def\<close>)
  show thesis
  proof (rule that)
    show "delete_indexed ke se map_kv isd t (fam_key f i) (fam_index f) i c = (Ok (im_map a i \<noteq> None), c')"
      using c'(1) represents_present [OF assms(3,4)]
      by (simp add: delete_indexed_def run_and_then run_delete_key run_prog_ok)
  qed (use c' in \<open>auto simp: same_except_def\<close>)
qed

lemma run_for_each_delete:
  assumes "inj_on key_of (set ids)"
  obtains bs where "for_each (\<lambda>i. delete_key ke map_kv t (key_of i)) ids c =
      (Ok bs, \<lambda>t' k. if t' = t \<and> k \<in> key_of ` set ids then None else c t' k)"
    "length (filter (\<lambda>b. b) bs) = card {i \<in> set ids. c t (key_of i) \<noteq> None}"
  using assms
proof (induction ids arbitrary: c thesis)
  case Nil
  then show ?case by (simp add: run_prog_ok)
next
  case (Cons i ids)
  let ?c1 = "map_put t (key_of i) None c"
  obtain bs where bs: "for_each (\<lambda>i. delete_key ke map_kv t (key_of i)) ids ?c1 =
      (Ok bs, \<lambda>t' k. if t' = t \<and> k \<in> key_of ` set ids then None else ?c1 t' k)"
    "length (filter (\<lambda>b. b) bs) = card {j \<in> set ids. ?c1 t (key_of j) \<noteq> None}"
    by (rule Cons.IH [of ?c1]) (use Cons.prems(2) in \<open>auto simp: inj_on_def\<close>)
  have "{j \<in> set (i # ids). c t (key_of j) \<noteq> None} =
      (if c t (key_of i) \<noteq> None then {i} else {}) \<union> {j \<in> set ids. ?c1 t (key_of j) \<noteq> None}"
    using Cons.prems(2) by (auto simp: inj_on_def)
  then have count: "card {j \<in> set (i # ids). c t (key_of j) \<noteq> None} =
      (if c t (key_of i) \<noteq> None then 1 else 0) + card {j \<in> set ids. ?c1 t (key_of j) \<noteq> None}"
    by (simp add: card_insert_if)
  have "for_each (\<lambda>i. delete_key ke map_kv t (key_of i)) (i # ids) c =
      (Ok ((c t (key_of i) \<noteq> None) # bs), \<lambda>t' k. if t' = t \<and> k \<in> key_of ` set (i # ids) then None else c t' k)"
    using run_delete_key [of ke t "key_of i" c] bs(1) by (simp add: and_then_def run_prog_ok fun_eq_iff)
  then show ?case by (rule Cons.prems(1)) (simp only: count bs(2) [symmetric] filter.simps, simp)
qed

lemma batch_delete_represents:
  assumes "family_ok f" "good_serde isd" "represents isd t f c a" "set ids \<subseteq> fam_ids f"
  obtains c' where "batch_delete_indexed ke se map_kv isd t (fam_key f) (fam_index f) ids c =
      (Ok (card (set ids \<inter> dom (im_map a))), c')"
    "represents isd t f c' (im_remove (set ids) a)" "same_except t (insert (fam_index f) (fam_key f ` set ids)) c c'"
proof -
  note f = family_okD [OF assms(1)]
  let ?c1 = "\<lambda>t' k. if t' = t \<and> k \<in> fam_key f ` set ids then None else c t' k"
  obtain bs where bs: "for_each (\<lambda>i. delete_key ke map_kv t (fam_key f i)) ids c = (Ok bs, ?c1)"
    "length (filter (\<lambda>b. b) bs) = card {i \<in> set ids. c t (fam_key f i) \<noteq> None}"
    by (rule run_for_each_delete [of "fam_key f" ids ke t c]) (use f(2) assms(4) in \<open>auto simp: inj_on_def subset_iff\<close>)
  obtain c' where c': "index_retain ke se map_kv isd t (fam_index f) (\<lambda>j. j \<notin> set ids) ?c1 = (Ok (), c')"
    "represents isd t f c' (im_remove (set ids) a)" "same_except t {fam_index f} ?c1 c'"
    by (rule retain_represents [OF assms(1,2), of ?c1 t a "set ids"])
      (use assms(3,4) f in \<open>auto simp: represents_def image_iff subset_iff\<close>)
  have "{i \<in> set ids. c t (fam_key f i) \<noteq> None} = set ids \<inter> dom (im_map a)"
    using represents_present [OF assms(3)] assms(4) by auto
  then show thesis
    using that [of c'] bs c' by (auto simp: batch_delete_indexed_def run_and_then run_prog_ok same_except_def)
qed

section \<open>Indexed entities on a lawful store\<close>

datatype 'v entity_cmd = PutEntity string 'v | DeleteEntity string | BatchDeleteEntities "string list"

fun run_entity_cmd ::
  "('s, 'j) KVStore \<Rightarrow> ('v, 'j) serde \<Rightarrow> (EntityIndex, 'j) serde \<Rightarrow> EntityConfig \<Rightarrow> string \<Rightarrow> 'v entity_cmd \<Rightarrow>
   ('s, IndexedEntityError, unit) prog" where
  "run_entity_cmd kv sd isd cfg t (PutEntity i v) = ie_put kv sd isd cfg t i v"
| "run_entity_cmd kv sd isd cfg t (DeleteEntity i) = and_then (ie_delete kv isd cfg t i) (\<lambda>_. prog_ok ())"
| "run_entity_cmd kv sd isd cfg t (BatchDeleteEntities ids) = and_then (ie_batch_delete kv isd cfg t ids) (\<lambda>_. prog_ok ())"

fun apply_entity_cmd :: "'v entity_cmd \<Rightarrow> 'v indexed \<Rightarrow> 'v indexed" where
  "apply_entity_cmd (PutEntity i v) a = im_put i v a"
| "apply_entity_cmd (DeleteEntity i) a = im_remove {i} a"
| "apply_entity_cmd (BatchDeleteEntities ids) a = im_remove (set ids) a"

lemma apply_entity_cmd_consistent [inv_intros]: "im_consistent a \<Longrightarrow> im_consistent (apply_entity_cmd cmd a)"
  by (cases cmd) (simp_all add: inv_intros)

lemma fold_entity_cmds_consistent: "im_consistent a \<Longrightarrow> im_consistent (fold apply_entity_cmd cmds a)"
  by (induction cmds arbitrary: a) (simp_all add: inv_intros)

text \<open>The ids an entity may have: those whose key is not the one of the index.\<close>

definition entity_ids :: "EntityConfig \<Rightarrow> string set" where
  "entity_ids cfg = {i. entity_key cfg i \<noteq> index_key cfg}"

fun entity_cmd_ids :: "'v entity_cmd \<Rightarrow> string set" where
  "entity_cmd_ids (PutEntity i v) = {i}"
| "entity_cmd_ids (DeleteEntity i) = {i}"
| "entity_cmd_ids (BatchDeleteEntities ids) = set ids"

definition config_family :: "('v, 'j) serde \<Rightarrow> EntityConfig \<Rightarrow> ('v, 'j) family" where
  "config_family sd cfg = \<lparr>fam_serde = sd, fam_ids = entity_ids cfg, fam_key = entity_key cfg, fam_index = index_key cfg\<rparr>"

lemma entity_key_append: "entity_key cfg i = entity_key cfg [] @ i"
  by (simp add: entity_key_def)

lemma config_family_ok: "good_serde sd \<Longrightarrow> family_ok (config_family sd cfg)"
  unfolding family_ok_def config_family_def entity_ids_def
  by (auto simp: inj_on_def) (metis entity_key_append same_append_eq)+

lemma run_entity_cmd_map:
  assumes "good_serde sd" "good_serde isd" "entity_cmd_ids cmd \<subseteq> entity_ids cfg" "represents isd t (config_family sd cfg) c a"
  shows "\<exists>c'. run_entity_cmd map_kv sd isd cfg t cmd c = (Ok (), c') \<and> represents isd t (config_family sd cfg) c' (apply_entity_cmd cmd a)"
proof -
  note fam = config_family_ok [OF assms(1), of cfg]
  have f: "fam_serde (config_family sd cfg) = sd" "fam_key (config_family sd cfg) = entity_key cfg"
    "fam_index (config_family sd cfg) = index_key cfg" "fam_ids (config_family sd cfg) = entity_ids cfg"
    by (simp_all add: config_family_def)
  show ?thesis
  proof (cases cmd)
    case (PutEntity i v)
    then have mem: "i \<in> fam_ids (config_family sd cfg)" using assms(3) f(4) by simp
    show ?thesis
      by (rule upsert_represents [OF fam assms(2,4) mem, where ke = EntityKV and se = EntitySerde and v = v, unfolded f]) (simp add: PutEntity ie_put_def)
  next
    case (DeleteEntity i)
    then have mem: "i \<in> fam_ids (config_family sd cfg)" using assms(3) f(4) by simp
    show ?thesis
      by (rule delete_represents [OF fam assms(2,4) mem, where ke = EntityKV and se = EntitySerde, unfolded f])
        (simp add: DeleteEntity ie_delete_def run_and_then run_prog_ok)
  next
    case (BatchDeleteEntities ids)
    then have mems: "set ids \<subseteq> fam_ids (config_family sd cfg)" using assms(3) f(4) by simp
    show ?thesis
      by (rule batch_delete_represents [OF fam assms(2,4) mems, where ke = EntityKV and se = EntitySerde, unfolded f])
        (simp add: BatchDeleteEntities ie_batch_delete_def run_and_then run_prog_ok)
  qed
qed

lemma run_entity_cmds_map:
  assumes "good_serde sd" "good_serde isd" "\<forall>cmd \<in> set cmds. entity_cmd_ids cmd \<subseteq> entity_ids cfg"
    "represents isd t (config_family sd cfg) c a"
  shows "\<exists>rs c'. for_each (run_entity_cmd map_kv sd isd cfg t) cmds c = (Ok rs, c')
    \<and> represents isd t (config_family sd cfg) c' (fold apply_entity_cmd cmds a)"
  using assms(3,4)
proof (induction cmds arbitrary: c a)
  case (Cons cmd cmds)
  then have ids: "entity_cmd_ids cmd \<subseteq> entity_ids cfg" "\<forall>cmd \<in> set cmds. entity_cmd_ids cmd \<subseteq> entity_ids cfg" by simp_all
  obtain c1 where c1: "run_entity_cmd map_kv sd isd cfg t cmd c = (Ok (), c1)"
    "represents isd t (config_family sd cfg) c1 (apply_entity_cmd cmd a)"
    using run_entity_cmd_map [OF assms(1,2) ids(1) Cons.prems(2)] by blast
  then show ?case using Cons.IH [OF ids(2) c1(2)] by (auto simp: and_then_def run_prog_ok)
qed (simp add: run_prog_ok)

context KV_laws
begin

lemma sim_entity_cmds [sim_intros]:
  "separable t \<Longrightarrow>
   simulates (store_content peek separable) (=) (run_entity_cmd kv sd isd cfg t cmd) (run_entity_cmd map_kv sd isd cfg t cmd)"
  by (cases cmd) (auto simp: ie_put_def ie_delete_def ie_batch_delete_def intro!: sim_intros)

lemma entity_cmds_run:
  assumes "separable t" "good_serde sd" "good_serde isd" "\<forall>cmd \<in> set cmds. entity_cmd_ids cmd \<subseteq> entity_ids cfg"
    "\<And>k. peek s t k = None"
  obtains rs s' where "for_each (run_entity_cmd kv sd isd cfg t) cmds s = (Ok rs, s')"
    "represents isd t (config_family sd cfg) (store_content peek separable s') (fold apply_entity_cmd cmds im_empty)"
proof -
  have "represents isd t (config_family sd cfg) (store_content peek separable s) im_empty"
    using assms(1,5) by (intro represents_empty) (simp add: store_content_def)
  from run_entity_cmds_map [OF assms(2-4) this]
  obtain rs c where c: "for_each (run_entity_cmd map_kv sd isd cfg t) cmds (store_content peek separable s) = (Ok rs, c)"
    "represents isd t (config_family sd cfg) c (fold apply_entity_cmd cmds im_empty)" by blast
  have "simulates (store_content peek separable) (=) (for_each (run_entity_cmd kv sd isd cfg t) cmds)
      (for_each (run_entity_cmd map_kv sd isd cfg t) cmds)"
    by (rule simulates_for_each [of _ "(=)", unfolded list.rel_eq]) (rule sim_entity_cmds [OF assms(1)])
  from simulates_run [OF this c(1)] show thesis using that c(2) by metis
qed

lemma entity_reads:
  assumes "separable t" "represents isd t (config_family sd cfg) (store_content peek separable s) a"
  shows "i \<in> entity_ids cfg \<Longrightarrow> fst (ie_get kv sd cfg t i s) = Ok (im_map a i)" "fst (ie_list_ids kv isd cfg t s) = Ok (im_ids a)"
    "fst (ie_list kv sd isd cfg t s) = Ok (im_list a)"
proof -
  have f: "fam_serde (config_family sd cfg) = sd" "fam_key (config_family sd cfg) = entity_key cfg"
    "fam_index (config_family sd cfg) = index_key cfg" "fam_ids (config_family sd cfg) = entity_ids cfg"
    by (simp_all add: config_family_def)
  note reads = represents_get [OF assms(2), unfolded f] represents_index [OF assms(2), unfolded f]
    represents_list [OF assms(2), unfolded f]
  show "fst (ie_get kv sd cfg t i s) = Ok (im_map a i)" if "i \<in> entity_ids cfg"
    using simulates_run [OF sim_get_entity [OF assms(1)] reads(1) [OF that]] by (metis fst_conv ie_get_def)
  show "fst (ie_list_ids kv isd cfg t s) = Ok (im_ids a)"
    using simulates_run [OF sim_load_index [OF assms(1)] reads(2)] by (metis fst_conv ie_list_ids_def)
  show "fst (ie_list kv sd isd cfg t s) = Ok (im_list a)"
    using simulates_run [OF sim_list_indexed [OF assms(1)] reads(3)] by (metis fst_conv ie_list_def)
qed

end

text \<open>
  C20. Indexed entities refine an ordered map, for every configuration and on every lawful store: a sequence of
  puts, deletes and batch deletes on an empty tenant succeeds, afterwards every read is the one of the
  abstract map, and its list of ids has each stored entity once and nothing else. The ids written and read
  do not have the key of the index (with the configuration of knowledge entries the id \<open>index\<close> has it); the
  codecs of the entities and of the index encode every value and read it back; and the tenant is one whose keys
  the store keeps apart from other tenants', for the in-memory store one without a colon.
\<close>

theorem indexed_entity_refines:
  assumes "KV_laws kv peek separable" "separable t" "good_serde sd" "good_serde isd"
    "\<forall>cmd \<in> set cmds. entity_cmd_ids cmd \<subseteq> entity_ids cfg" "\<And>k. peek s t k = None"
  shows "\<exists>rs s'. for_each (run_entity_cmd kv sd isd cfg t) cmds s = (Ok rs, s')
    \<and> (\<forall>i \<in> entity_ids cfg. fst (ie_get kv sd cfg t i s') = Ok (im_map (fold apply_entity_cmd cmds im_empty) i))
    \<and> fst (ie_list_ids kv isd cfg t s') = Ok (im_ids (fold apply_entity_cmd cmds im_empty))
    \<and> fst (ie_list kv sd isd cfg t s') = Ok (im_list (fold apply_entity_cmd cmds im_empty))
    \<and> im_consistent (fold apply_entity_cmd cmds im_empty)"
proof -
  obtain rs s' where s': "for_each (run_entity_cmd kv sd isd cfg t) cmds s = (Ok rs, s')"
    "represents isd t (config_family sd cfg) (store_content peek separable s') (fold apply_entity_cmd cmds im_empty)"
    using KV_laws.entity_cmds_run [OF assms] by blast
  then show ?thesis
    using KV_laws.entity_reads [OF assms(1,2) s'(2)] fold_entity_cmds_consistent [OF im_consistent_empty] by blast
qed

text \<open>Every id is free of the index key of documents, and every id but one of that of knowledge entries.\<close>

lemma shipped_entity_ids: "entity_ids DOCUMENT_CONFIG = UNIV" "entity_ids KNOWLEDGE_CONFIG = - {''index''}"
  by (auto simp: entity_ids_def entity_key_def DOCUMENT_CONFIG_def KNOWLEDGE_CONFIG_def suffix_def)

theorem indexed_entity_refines_witness:
  "\<exists>rs s'. for_each (run_entity_cmd dashmap_kv serde_id serde_id KNOWLEDGE_CONFIG ''t'') [PutEntity ''a'' [''x''], PutEntity ''b'' []] (dashmap_new 0) = (Ok rs, s')
     \<and> fst (ie_list dashmap_kv serde_id serde_id KNOWLEDGE_CONFIG ''t'' s') = Ok [[], [''x'']]
     \<and> fst (ie_get dashmap_kv serde_id KNOWLEDGE_CONFIG ''t'' ''a'' s') = Ok (Some [''x''])"
proof -
  have "dashmap_peek (dashmap_new 0 :: string list DashMapKVStore) ''t'' k = None" for k
    by (simp add: dashmap_new_def dashmap_peek_def)
  moreover have "''a'' \<in> entity_ids KNOWLEDGE_CONFIG" "''b'' \<in> entity_ids KNOWLEDGE_CONFIG" by (simp_all add: shipped_entity_ids)
  ultimately show ?thesis
    using indexed_entity_refines [OF dashmap.KV_laws_axioms, of "''t''" serde_id serde_id
        "[PutEntity ''a'' [''x''], PutEntity ''b'' []]" KNOWLEDGE_CONFIG "dashmap_new 0"]
    by (auto simp: im_list_def im_put_def im_empty_def List.map_filter_simps colon_free_def)
qed

text \<open>
  With the configuration of knowledge entries the condition excludes an id: the id \<open>index\<close> has the key of the
  index, and deleting it empties the index.
\<close>

lemma knowledge_index_erased:
  assumes "good_serde isd"
  shows "entity_key KNOWLEDGE_CONFIG ''index'' = index_key KNOWLEDGE_CONFIG"
    "snd (ie_delete map_kv isd KNOWLEDGE_CONFIG t ''index'' c) t (index_key KNOWLEDGE_CONFIG) = Some (encode isd [])"
proof -
  show key: "entity_key KNOWLEDGE_CONFIG ''index'' = index_key KNOWLEDGE_CONFIG"
    by (simp add: entity_key_def KNOWLEDGE_CONFIG_def suffix_def)
  show "snd (ie_delete map_kv isd KNOWLEDGE_CONFIG t ''index'' c) t (index_key KNOWLEDGE_CONFIG) = Some (encode isd [])"
    using assms unfolding ie_delete_def key
    by (simp add: delete_indexed_def index_retain_def run_and_then run_delete_key run_load_index save_index_def
        run_put_entity run_prog_ok)
qed

end
