(* ===== verification/Workspace_Store.thy ===== *)
theory Workspace_Store
  imports Workspace_Types Entity_Index
begin

text \<open>
  The workspace store over a key-value store: \<open>KVWorkspaceStore\<close> of \<open>crates/agent-fw-workspace/src/kv_store.rs\<close>
  with the file helpers of \<open>file_store.rs\<close>. Every method is a program over the store state; the codecs of
  the stored types and the reading of the creation date of a stored test case are fields of the store.
  The log output of the index rebuild is left out.
\<close>

section \<open>The store\<close>

datatype WorkspaceError = WsDb string | WsSerde string | WsNotFound string | WsKV string

fun display_WorkspaceError :: "WorkspaceError \<Rightarrow> string" where
  "display_WorkspaceError (WsDb e) = ''Database error: '' @ e"
| "display_WorkspaceError (WsSerde e) = ''Serialization error: '' @ e"
| "display_WorkspaceError (WsNotFound e) = ''Not found: '' @ e"
| "display_WorkspaceError (WsKV e) = ''KV error: '' @ e"

definition kv_err :: "KVError \<Rightarrow> WorkspaceError" where
  "kv_err e = WsKV (display_KVError e)"

definition serde_err :: "string \<Rightarrow> WorkspaceError" where
  "serde_err e = WsSerde e"

record WorkspaceKvKeyPolicy =
  kp_thread :: "string \<Rightarrow> string"
  kp_thread_messages :: "string \<Rightarrow> string"
  kp_thread_aux_keys :: "string \<Rightarrow> string list"
  kp_threads_index :: string
  kp_test_case :: "string \<Rightarrow> string"
  kp_test_cases_index :: string
  kp_eval_run :: "string \<Rightarrow> string"
  kp_eval_run_results :: "string \<Rightarrow> string"
  kp_eval_runs_index :: string
  kp_eval_test_case_set :: "string \<Rightarrow> string"
  kp_eval_test_case_sets_index :: string
  kp_eval_forks :: "string \<Rightarrow> string \<Rightarrow> string"
  kp_data_source :: "string \<Rightarrow> string"
  kp_data_sources_index :: string
  kp_workspace :: "string \<Rightarrow> string"
  kp_workspaces_index :: string

definition default_key_policy :: WorkspaceKvKeyPolicy where
  "default_key_policy = \<lparr>
     kp_thread = key_thread, kp_thread_messages = key_thread_messages, kp_thread_aux_keys = (\<lambda>_. []),
     kp_threads_index = THREADS_INDEX, kp_test_case = key_test_case, kp_test_cases_index = TEST_CASES_INDEX,
     kp_eval_run = key_eval_run, kp_eval_run_results = key_eval_run_results, kp_eval_runs_index = EVAL_RUNS_INDEX,
     kp_eval_test_case_set = key_eval_test_case_set, kp_eval_test_case_sets_index = EVAL_TEST_CASE_SETS_INDEX,
     kp_eval_forks = key_eval_forks, kp_data_source = key_data_source, kp_data_sources_index = DATA_SOURCES_INDEX,
     kp_workspace = key_workspace, kp_workspaces_index = WORKSPACES_INDEX\<rparr>"

definition thread_aux_keys_policy :: "(string \<Rightarrow> string list) \<Rightarrow> WorkspaceKvKeyPolicy" where
  "thread_aux_keys_policy aux = default_key_policy\<lparr>kp_thread_aux_keys := aux\<rparr>"

record ('j, 'st, 'r, 'x, 'dt) ws_codecs =
  c_index :: "(EntityIndex, 'j) serde"
  c_thread :: "(Thread, 'j) serde"
  c_messages :: "('j Message list, 'j) serde"
  c_files :: "(ThreadFileIndex, 'j) serde"
  c_file :: "(StoredFile, 'j) serde"
  c_case :: "('x AuthoredTestCase, 'j) serde"
  c_run :: "(('st, 'r, 'x) EvalRun, 'j) serde"
  c_results :: "('r list, 'j) serde"
  c_set :: "('x TestCaseSet, 'j) serde"
  c_forks :: "(EvalThreadFork list, 'j) serde"
  c_source :: "('dt DataSource, 'j) serde"
  c_workspace :: "(Workspace, 'j) serde"
  c_created_at :: "'j \<Rightarrow> string option"

record ('s, 'j, 'st, 'r, 'x, 'dt) KVWorkspaceStore =
  ws_kv :: "('s, 'j) KVStore"
  ws_policy :: WorkspaceKvKeyPolicy
  ws_codecs :: "('j, 'st, 'r, 'x, 'dt) ws_codecs"

definition ws_new_with_policy ::
  "('j, 'st, 'r, 'x, 'dt) ws_codecs \<Rightarrow> ('s, 'j) KVStore \<Rightarrow> WorkspaceKvKeyPolicy \<Rightarrow> ('s, 'j, 'st, 'r, 'x, 'dt) KVWorkspaceStore" where
  "ws_new_with_policy codecs kv policy = \<lparr>ws_kv = kv, ws_policy = policy, ws_codecs = codecs\<rparr>"

definition ws_new ::
  "('j, 'st, 'r, 'x, 'dt) ws_codecs \<Rightarrow> ('s, 'j) KVStore \<Rightarrow> ('s, 'j, 'st, 'r, 'x, 'dt) KVWorkspaceStore" where
  "ws_new codecs kv = ws_new_with_policy codecs kv default_key_policy"

definition ws_new_with_thread_aux_keys ::
  "('j, 'st, 'r, 'x, 'dt) ws_codecs \<Rightarrow> ('s, 'j) KVStore \<Rightarrow> (string \<Rightarrow> string list) \<Rightarrow> ('s, 'j, 'st, 'r, 'x, 'dt) KVWorkspaceStore" where
  "ws_new_with_thread_aux_keys codecs kv aux = ws_new_with_policy codecs kv (thread_aux_keys_policy aux)"

type_synonym ('s, 'a) ws_prog = "('s, WorkspaceError, 'a) prog"

text \<open>The helpers at the error type of the store.\<close>

abbreviation ws_put :: "('s, 'j) KVStore \<Rightarrow> ('v, 'j) serde \<Rightarrow> string \<Rightarrow> string \<Rightarrow> 'v \<Rightarrow> ('s, unit) ws_prog" where
  "ws_put \<equiv> put_entity kv_err serde_err"

abbreviation ws_get :: "('s, 'j) KVStore \<Rightarrow> ('v, 'j) serde \<Rightarrow> string \<Rightarrow> string \<Rightarrow> ('s, 'v option) ws_prog" where
  "ws_get \<equiv> get_entity kv_err serde_err"

text \<open>\<open>get_entity(..).await?.unwrap_or_default()\<close> for a list.\<close>

definition ws_get_list :: "('s, 'j) KVStore \<Rightarrow> ('v list, 'j) serde \<Rightarrow> string \<Rightarrow> string \<Rightarrow> ('s, 'v list) ws_prog" where
  "ws_get_list kv sd t key = and_then (ws_get kv sd t key) (\<lambda>x. prog_ok (unwrap_or [] x))"

text \<open>\<open>delete\<close> with its answer dropped after the error check.\<close>

definition ws_delete :: "('s, 'j) KVStore \<Rightarrow> string \<Rightarrow> string \<Rightarrow> ('s, unit) ws_prog" where
  "ws_delete kv t key = and_then (delete_key kv_err kv t key) (\<lambda>_. prog_ok ())"

section \<open>Files of a thread\<close>

definition load_thread_file_index ::
  "('s, 'j) KVStore \<Rightarrow> (ThreadFileIndex, 'j) serde \<Rightarrow> string \<Rightarrow> string \<Rightarrow> ('s, ThreadFileIndex) ws_prog" where
  "load_thread_file_index kv sd t thread_id = ws_get_list kv sd t (key_thread_files thread_id)"

definition save_thread_file_index ::
  "('s, 'j) KVStore \<Rightarrow> (ThreadFileIndex, 'j) serde \<Rightarrow> string \<Rightarrow> string \<Rightarrow> ThreadFileIndex \<Rightarrow> ('s, unit) ws_prog" where
  "save_thread_file_index kv sd t thread_id index = ws_put kv sd t (key_thread_files thread_id) index"

definition put_stored_file ::
  "('s, 'j) KVStore \<Rightarrow> (StoredFile, 'j) serde \<Rightarrow> string \<Rightarrow> string \<Rightarrow> StoredFile \<Rightarrow> ('s, unit) ws_prog" where
  "put_stored_file kv sd t file_id stored = ws_put kv sd t (key_stored_file file_id) stored"

definition get_stored_file ::
  "('s, 'j) KVStore \<Rightarrow> (StoredFile, 'j) serde \<Rightarrow> string \<Rightarrow> string \<Rightarrow> ('s, StoredFile option) ws_prog" where
  "get_stored_file kv sd t file_id = ws_get kv sd t (key_stored_file file_id)"

definition list_thread_files ::
  "('s, 'j) KVStore \<Rightarrow> (ThreadFileIndex, 'j) serde \<Rightarrow> string \<Rightarrow> string \<Rightarrow> ('s, ThreadFileEntry list) ws_prog" where
  "list_thread_files kv sd t thread_id = load_thread_file_index kv sd t thread_id"

definition register_thread_file_at ::
  "('s, 'j) KVStore \<Rightarrow> (ThreadFileIndex, 'j) serde \<Rightarrow> string \<Rightarrow> string \<Rightarrow> string \<Rightarrow> string \<Rightarrow> string \<Rightarrow> ('s, ThreadFileEntry) ws_prog" where
  "register_thread_file_at kv sd t file_id filename thread_id created_at =
     and_then (load_thread_file_index kv sd t thread_id)
       (\<lambda>index.
          let entry = \<lparr>tf_file_id = file_id, tf_filename = filename, tf_thread_id = thread_id, tf_created_at = created_at\<rparr>;
              index' = filter (\<lambda>existing. tf_file_id existing \<noteq> file_id) index @ [entry]
          in and_then (save_thread_file_index kv sd t thread_id index') (\<lambda>_. prog_ok entry))"

definition register_thread_file ::
  "('s, 'j) KVStore \<Rightarrow> (ThreadFileIndex, 'j) serde \<Rightarrow> string \<Rightarrow> string \<Rightarrow> string \<Rightarrow> string \<Rightarrow> string \<Rightarrow> ('s, ThreadFileEntry) ws_prog" where
  "register_thread_file kv sd now t file_id filename thread_id = register_thread_file_at kv sd t file_id filename thread_id now"

definition delete_thread_files ::
  "('s, 'j) KVStore \<Rightarrow> (ThreadFileIndex, 'j) serde \<Rightarrow> string \<Rightarrow> string \<Rightarrow> ('s, unit) ws_prog" where
  "delete_thread_files kv sd t thread_id =
     and_then (load_thread_file_index kv sd t thread_id)
       (\<lambda>index.
          and_then (for_each (\<lambda>entry. ignore_result (\<lambda>s. kv_delete kv s t (key_stored_file (tf_file_id entry)))) index)
            (\<lambda>_. ignore_result (\<lambda>s. kv_delete kv s t (key_thread_files thread_id))))"

section \<open>Threads\<close>

definition list_threads :: "('s, 'j, 'st, 'r, 'x, 'dt) KVWorkspaceStore \<Rightarrow> string \<Rightarrow> ('s, Thread list) ws_prog" where
  "list_threads w t =
     list_indexed kv_err serde_err (ws_kv w) (c_thread (ws_codecs w)) (c_index (ws_codecs w)) t
       (kp_thread (ws_policy w)) (kp_threads_index (ws_policy w))"

definition get_thread :: "('s, 'j, 'st, 'r, 'x, 'dt) KVWorkspaceStore \<Rightarrow> string \<Rightarrow> string \<Rightarrow> ('s, Thread option) ws_prog" where
  "get_thread w t i = ws_get (ws_kv w) (c_thread (ws_codecs w)) t (kp_thread (ws_policy w) i)"

definition upsert_thread :: "('s, 'j, 'st, 'r, 'x, 'dt) KVWorkspaceStore \<Rightarrow> string \<Rightarrow> Thread \<Rightarrow> ('s, unit) ws_prog" where
  "upsert_thread w t th =
     upsert_indexed kv_err serde_err (ws_kv w) (c_thread (ws_codecs w)) (c_index (ws_codecs w)) t
       (kp_thread (ws_policy w) (th_id th)) (kp_threads_index (ws_policy w)) (th_id th) th"

definition delete_thread :: "('s, 'j, 'st, 'r, 'x, 'dt) KVWorkspaceStore \<Rightarrow> string \<Rightarrow> string \<Rightarrow> ('s, unit) ws_prog" where
  "delete_thread w t i =
     and_then (ws_delete (ws_kv w) t (kp_thread (ws_policy w) i)) (\<lambda>_.
     and_then (ws_delete (ws_kv w) t (kp_thread_messages (ws_policy w) i)) (\<lambda>_.
     and_then (delete_thread_files (ws_kv w) (c_files (ws_codecs w)) t i) (\<lambda>_.
     and_then (for_each (\<lambda>key. ignore_result (\<lambda>s. kv_delete (ws_kv w) s t key)) (kp_thread_aux_keys (ws_policy w) i)) (\<lambda>_.
     index_retain kv_err serde_err (ws_kv w) (c_index (ws_codecs w)) t (kp_threads_index (ws_policy w)) (\<lambda>j. j \<noteq> i)))))"

section \<open>Messages\<close>

definition insert_message ::
  "('s, 'j, 'st, 'r, 'x, 'dt) KVWorkspaceStore \<Rightarrow> string \<Rightarrow> 'j Message \<Rightarrow> string \<Rightarrow> ('s, unit) ws_prog" where
  "insert_message w t m thread_id =
     (let key = kp_thread_messages (ws_policy w) thread_id
      in and_then (ws_get_list (ws_kv w) (c_messages (ws_codecs w)) t key)
           (\<lambda>messages. ws_put (ws_kv w) (c_messages (ws_codecs w)) t key (messages @ [m])))"

definition get_all_messages ::
  "('s, 'j, 'st, 'r, 'x, 'dt) KVWorkspaceStore \<Rightarrow> string \<Rightarrow> string \<Rightarrow> ('s, 'j Message list) ws_prog" where
  "get_all_messages w t thread_id =
     ws_get_list (ws_kv w) (c_messages (ws_codecs w)) t (kp_thread_messages (ws_policy w) thread_id)"

definition get_messages ::
  "('s, 'j, 'st, 'r, 'x, 'dt) KVWorkspaceStore \<Rightarrow> string \<Rightarrow> string \<Rightarrow> nat \<Rightarrow> nat \<Rightarrow> ('s, 'j Message list) ws_prog" where
  "get_messages w t thread_id limit offset =
     and_then (get_all_messages w t thread_id) (\<lambda>messages. prog_ok (take limit (drop offset messages)))"

definition get_recent_messages ::
  "('s, 'j, 'st, 'r, 'x, 'dt) KVWorkspaceStore \<Rightarrow> string \<Rightarrow> string \<Rightarrow> nat \<Rightarrow> ('s, 'j Message list) ws_prog" where
  "get_recent_messages w t thread_id limit =
     and_then (get_all_messages w t thread_id)
       (\<lambda>messages. if length messages \<le> limit then prog_ok messages else prog_ok (drop (length messages - limit) messages))"

definition get_all_messages_batch ::
  "('s, 'j, 'st, 'r, 'x, 'dt) KVWorkspaceStore \<Rightarrow> string \<Rightarrow> string list \<Rightarrow> ('s, 'j Message list list) ws_prog" where
  "get_all_messages_batch w t thread_ids =
     (let keys = map (kp_thread_messages (ws_policy w)) thread_ids
      in and_then (map_prog_err kv_err (\<lambda>s. get_many_json (ws_kv w) s t keys))
           (\<lambda>batch. for_each (\<lambda>key. case batch key of
                Some j \<Rightarrow> prog_result (map_err serde_err (from_value (c_messages (ws_codecs w)) j))
              | None \<Rightarrow> prog_ok []) keys))"

section \<open>Test cases\<close>

definition list_test_cases ::
  "('s, 'j, 'st, 'r, 'x, 'dt) KVWorkspaceStore \<Rightarrow> string \<Rightarrow> ('s, 'x AuthoredTestCase list) ws_prog" where
  "list_test_cases w t =
     list_indexed kv_err serde_err (ws_kv w) (c_case (ws_codecs w)) (c_index (ws_codecs w)) t
       (kp_test_case (ws_policy w)) (kp_test_cases_index (ws_policy w))"

definition get_test_case ::
  "('s, 'j, 'st, 'r, 'x, 'dt) KVWorkspaceStore \<Rightarrow> string \<Rightarrow> string \<Rightarrow> ('s, 'x AuthoredTestCase option) ws_prog" where
  "get_test_case w t i = ws_get (ws_kv w) (c_case (ws_codecs w)) t (kp_test_case (ws_policy w) i)"

definition get_test_cases_by_id ::
  "('s, 'j, 'st, 'r, 'x, 'dt) KVWorkspaceStore \<Rightarrow> string \<Rightarrow> string list \<Rightarrow> ('s, 'x AuthoredTestCase option list) ws_prog" where
  "get_test_cases_by_id w t ids =
     (let keys = map (kp_test_case (ws_policy w)) ids
      in and_then (map_prog_err kv_err (\<lambda>s. get_many_json (ws_kv w) s t keys))
           (\<lambda>batch. for_each (\<lambda>key. case batch key of
                Some j \<Rightarrow> and_then (prog_result (map_err serde_err (from_value (c_case (ws_codecs w)) j))) (\<lambda>v. prog_ok (Some v))
              | None \<Rightarrow> prog_ok None) keys))"

text \<open>The id and date of one key during a rebuild; \<open>None\<close> is a skipped key.\<close>

definition dated_id ::
  "('s, 'j, 'st, 'r, 'x, 'dt) KVWorkspaceStore \<Rightarrow> string \<Rightarrow> (string \<rightharpoonup> 'j) \<Rightarrow> string \<Rightarrow> (TestCaseId \<times> string) option" where
  "dated_id w key_prefix_str batch key =
     (case (case strip_prefix_str key_prefix_str key of Some r \<Rightarrow> test_case_new r | None \<Rightarrow> None) of
        None \<Rightarrow> None
      | Some i \<Rightarrow>
          map_option (\<lambda>created_at. (i, created_at))
            (case batch key of Some j \<Rightarrow> c_created_at (ws_codecs w) j | None \<Rightarrow> None))"

text \<open>A stable sort with the newest first.\<close>

definition newest_first :: "(TestCaseId \<times> string) list \<Rightarrow> (TestCaseId \<times> string) list" where
  "newest_first xs = rev (sort_key snd (rev xs))"

definition rebuild_test_case_index ::
  "('s, 'j, 'st, 'r, 'x, 'dt) KVWorkspaceStore \<Rightarrow> string \<Rightarrow> ('s, TestCaseId list) ws_prog" where
  "rebuild_test_case_index w t =
     (let key_prefix_str = kp_test_case (ws_policy w) []
      in and_then (map_prog_err kv_err (\<lambda>s. list_keys (ws_kv w) s t key_prefix_str)) (\<lambda>keys.
         and_then (map_prog_err kv_err (\<lambda>s. get_many_json (ws_kv w) s t keys)) (\<lambda>batch.
         let ids = map fst (newest_first (List.map_filter (dated_id w key_prefix_str batch) keys))
         in and_then (save_index kv_err serde_err (ws_kv w) (c_index (ws_codecs w)) t (kp_test_cases_index (ws_policy w))
               (map test_case_str ids)) (\<lambda>_. prog_ok ids))))"

definition insert_test_case ::
  "('s, 'j, 'st, 'r, 'x, 'dt) KVWorkspaceStore \<Rightarrow> string \<Rightarrow> 'x AuthoredTestCase \<Rightarrow> ('s, unit) ws_prog" where
  "insert_test_case w t tc =
     (let i = test_case_str (tc_id tc)
      in upsert_indexed kv_err serde_err (ws_kv w) (c_case (ws_codecs w)) (c_index (ws_codecs w)) t
           (kp_test_case (ws_policy w) i) (kp_test_cases_index (ws_policy w)) i tc)"

definition update_test_case ::
  "('s, 'j, 'st, 'r, 'x, 'dt) KVWorkspaceStore \<Rightarrow> string \<Rightarrow> 'x AuthoredTestCase \<Rightarrow> ('s, unit) ws_prog" where
  "update_test_case w t tc = ws_put (ws_kv w) (c_case (ws_codecs w)) t (kp_test_case (ws_policy w) (test_case_str (tc_id tc))) tc"

definition delete_test_case :: "('s, 'j, 'st, 'r, 'x, 'dt) KVWorkspaceStore \<Rightarrow> string \<Rightarrow> string \<Rightarrow> ('s, unit) ws_prog" where
  "delete_test_case w t i =
     and_then (delete_indexed kv_err serde_err (ws_kv w) (c_index (ws_codecs w)) t
       (kp_test_case (ws_policy w) i) (kp_test_cases_index (ws_policy w)) i) (\<lambda>_. prog_ok ())"

text \<open>One reading of the clock for each changed test case.\<close>

definition update_one_status ::
  "('s, 'j, 'st, 'r, 'x, 'dt) KVWorkspaceStore \<Rightarrow> string \<Rightarrow> TestCaseStatus \<Rightarrow> string \<times> string \<Rightarrow> ('s, bool) ws_prog" where
  "update_one_status w t status = (\<lambda>(i, now).
     and_then (get_test_case w t i)
       (\<lambda>x. case x of
           Some tc \<Rightarrow>
             and_then (ws_put (ws_kv w) (c_case (ws_codecs w)) t (kp_test_case (ws_policy w) i)
               (tc\<lparr>tc_status := status, tc_updated_at := now\<rparr>)) (\<lambda>_. prog_ok True)
         | None \<Rightarrow> prog_ok False))"

definition batch_update_status ::
  "('s, 'j, 'st, 'r, 'x, 'dt) KVWorkspaceStore \<Rightarrow> string \<Rightarrow> (string \<times> string) list \<Rightarrow> TestCaseStatus \<Rightarrow> ('s, nat) ws_prog" where
  "batch_update_status w t ids status =
     and_then (for_each (update_one_status w t status) ids) (\<lambda>bs. prog_ok (length (filter (\<lambda>b. b) bs)))"

definition batch_delete_test_cases ::
  "('s, 'j, 'st, 'r, 'x, 'dt) KVWorkspaceStore \<Rightarrow> string \<Rightarrow> string list \<Rightarrow> ('s, nat) ws_prog" where
  "batch_delete_test_cases w t ids =
     batch_delete_indexed kv_err serde_err (ws_kv w) (c_index (ws_codecs w)) t
       (kp_test_case (ws_policy w)) (kp_test_cases_index (ws_policy w)) ids"

section \<open>Evaluation runs, sets and forks\<close>

definition insert_eval_run ::
  "('s, 'j, 'st, 'r, 'x, 'dt) KVWorkspaceStore \<Rightarrow> string \<Rightarrow> ('st, 'r, 'x) EvalRun \<Rightarrow> ('s, unit) ws_prog" where
  "insert_eval_run w t v =
     (let i = eval_run_str (er_id v)
      in upsert_indexed kv_err serde_err (ws_kv w) (c_run (ws_codecs w)) (c_index (ws_codecs w)) t
           (kp_eval_run (ws_policy w) i) (kp_eval_runs_index (ws_policy w)) i v)"

text \<open>The results of a run are loaded from their own key.\<close>

definition get_eval_run ::
  "('s, 'j, 'st, 'r, 'x, 'dt) KVWorkspaceStore \<Rightarrow> string \<Rightarrow> string \<Rightarrow> ('s, ('st, 'r, 'x) EvalRun option) ws_prog" where
  "get_eval_run w t i =
     and_then (ws_get (ws_kv w) (c_run (ws_codecs w)) t (kp_eval_run (ws_policy w) i))
       (\<lambda>x. case x of
           Some run \<Rightarrow>
             and_then (ws_get_list (ws_kv w) (c_results (ws_codecs w)) t (kp_eval_run_results (ws_policy w) i))
               (\<lambda>results. prog_ok (Some (run\<lparr>er_results := results\<rparr>)))
         | None \<Rightarrow> prog_ok None)"

definition update_eval_status ::
  "('s, 'j, 'st, 'r, 'x, 'dt) KVWorkspaceStore \<Rightarrow> string \<Rightarrow> string \<Rightarrow> string \<Rightarrow> 'st \<Rightarrow> ('s, unit) ws_prog" where
  "update_eval_status w t i now status =
     and_then (ws_get (ws_kv w) (c_run (ws_codecs w)) t (kp_eval_run (ws_policy w) i))
       (\<lambda>x. case x of
           Some run \<Rightarrow>
             ws_put (ws_kv w) (c_run (ws_codecs w)) t (kp_eval_run (ws_policy w) i) (run\<lparr>er_status := status, er_updated_at := now\<rparr>)
         | None \<Rightarrow> prog_ok ())"

definition list_eval_runs ::
  "('s, 'j, 'st, 'r, 'x, 'dt) KVWorkspaceStore \<Rightarrow> string \<Rightarrow> ('s, ('st, 'r, 'x) EvalRun list) ws_prog" where
  "list_eval_runs w t =
     list_indexed kv_err serde_err (ws_kv w) (c_run (ws_codecs w)) (c_index (ws_codecs w)) t
       (kp_eval_run (ws_policy w)) (kp_eval_runs_index (ws_policy w))"

definition delete_eval_run :: "('s, 'j, 'st, 'r, 'x, 'dt) KVWorkspaceStore \<Rightarrow> string \<Rightarrow> string \<Rightarrow> ('s, unit) ws_prog" where
  "delete_eval_run w t i =
     and_then (ws_delete (ws_kv w) t (kp_eval_run (ws_policy w) i)) (\<lambda>_.
     and_then (ws_delete (ws_kv w) t (kp_eval_run_results (ws_policy w) i)) (\<lambda>_.
     index_retain kv_err serde_err (ws_kv w) (c_index (ws_codecs w)) t (kp_eval_runs_index (ws_policy w)) (\<lambda>j. j \<noteq> i)))"

definition insert_eval_result ::
  "('s, 'j, 'st, 'r, 'x, 'dt) KVWorkspaceStore \<Rightarrow> string \<Rightarrow> string \<Rightarrow> string \<Rightarrow> 'r \<Rightarrow> ('s, unit) ws_prog" where
  "insert_eval_result w t run_id test_case_id res =
     (let key = kp_eval_run_results (ws_policy w) run_id
      in and_then (ws_get_list (ws_kv w) (c_results (ws_codecs w)) t key)
           (\<lambda>results. ws_put (ws_kv w) (c_results (ws_codecs w)) t key (results @ [res])))"

definition get_eval_results ::
  "('s, 'j, 'st, 'r, 'x, 'dt) KVWorkspaceStore \<Rightarrow> string \<Rightarrow> string \<Rightarrow> ('s, 'r list) ws_prog" where
  "get_eval_results w t run_id = ws_get_list (ws_kv w) (c_results (ws_codecs w)) t (kp_eval_run_results (ws_policy w) run_id)"

definition upsert_eval_test_case_set ::
  "('s, 'j, 'st, 'r, 'x, 'dt) KVWorkspaceStore \<Rightarrow> string \<Rightarrow> 'x TestCaseSet \<Rightarrow> ('s, unit) ws_prog" where
  "upsert_eval_test_case_set w t v =
     (let i = ts_id v
      in upsert_indexed kv_err serde_err (ws_kv w) (c_set (ws_codecs w)) (c_index (ws_codecs w)) t
           (kp_eval_test_case_set (ws_policy w) i) (kp_eval_test_case_sets_index (ws_policy w)) i v)"

definition get_eval_test_case_set ::
  "('s, 'j, 'st, 'r, 'x, 'dt) KVWorkspaceStore \<Rightarrow> string \<Rightarrow> string \<Rightarrow> ('s, 'x TestCaseSet option) ws_prog" where
  "get_eval_test_case_set w t i = ws_get (ws_kv w) (c_set (ws_codecs w)) t (kp_eval_test_case_set (ws_policy w) i)"

definition list_eval_test_case_sets ::
  "('s, 'j, 'st, 'r, 'x, 'dt) KVWorkspaceStore \<Rightarrow> string \<Rightarrow> ('s, 'x TestCaseSet list) ws_prog" where
  "list_eval_test_case_sets w t =
     list_indexed kv_err serde_err (ws_kv w) (c_set (ws_codecs w)) (c_index (ws_codecs w)) t
       (kp_eval_test_case_set (ws_policy w)) (kp_eval_test_case_sets_index (ws_policy w))"

definition delete_eval_test_case_set :: "('s, 'j, 'st, 'r, 'x, 'dt) KVWorkspaceStore \<Rightarrow> string \<Rightarrow> string \<Rightarrow> ('s, unit) ws_prog" where
  "delete_eval_test_case_set w t i =
     and_then (delete_indexed kv_err serde_err (ws_kv w) (c_index (ws_codecs w)) t
       (kp_eval_test_case_set (ws_policy w) i) (kp_eval_test_case_sets_index (ws_policy w)) i) (\<lambda>_. prog_ok ())"

definition append_eval_thread_fork ::
  "('s, 'j, 'st, 'r, 'x, 'dt) KVWorkspaceStore \<Rightarrow> string \<Rightarrow> string \<Rightarrow> string \<Rightarrow> EvalThreadFork \<Rightarrow> ('s, unit) ws_prog" where
  "append_eval_thread_fork w t run_id test_case_id fork =
     (let key = kp_eval_forks (ws_policy w) run_id test_case_id
      in and_then (ws_get_list (ws_kv w) (c_forks (ws_codecs w)) t key)
           (\<lambda>forks. ws_put (ws_kv w) (c_forks (ws_codecs w)) t key (forks @ [fork])))"

definition list_eval_thread_forks ::
  "('s, 'j, 'st, 'r, 'x, 'dt) KVWorkspaceStore \<Rightarrow> string \<Rightarrow> string \<Rightarrow> string \<Rightarrow> ('s, EvalThreadFork list) ws_prog" where
  "list_eval_thread_forks w t run_id test_case_id =
     ws_get_list (ws_kv w) (c_forks (ws_codecs w)) t (kp_eval_forks (ws_policy w) run_id test_case_id)"

definition delete_eval_thread_fork ::
  "('s, 'j, 'st, 'r, 'x, 'dt) KVWorkspaceStore \<Rightarrow> string \<Rightarrow> string \<Rightarrow> string \<Rightarrow> string \<Rightarrow> ('s, bool) ws_prog" where
  "delete_eval_thread_fork w t run_id test_case_id i =
     (let key = kp_eval_forks (ws_policy w) run_id test_case_id
      in and_then (ws_get_list (ws_kv w) (c_forks (ws_codecs w)) t key)
           (\<lambda>forks.
              let kept = filter (\<lambda>fork. fork_id fork \<noteq> i) forks
              in if length kept = length forks then prog_ok False
                 else and_then (ws_put (ws_kv w) (c_forks (ws_codecs w)) t key kept) (\<lambda>_. prog_ok True)))"

section \<open>Data sources and workspaces\<close>

definition list_data_sources ::
  "('s, 'j, 'st, 'r, 'x, 'dt) KVWorkspaceStore \<Rightarrow> string \<Rightarrow> ('s, 'dt DataSource list) ws_prog" where
  "list_data_sources w t =
     list_indexed kv_err serde_err (ws_kv w) (c_source (ws_codecs w)) (c_index (ws_codecs w)) t
       (kp_data_source (ws_policy w)) (kp_data_sources_index (ws_policy w))"

definition get_data_source ::
  "('s, 'j, 'st, 'r, 'x, 'dt) KVWorkspaceStore \<Rightarrow> string \<Rightarrow> string \<Rightarrow> ('s, 'dt DataSource option) ws_prog" where
  "get_data_source w t i = ws_get (ws_kv w) (c_source (ws_codecs w)) t (kp_data_source (ws_policy w) i)"

definition upsert_data_source ::
  "('s, 'j, 'st, 'r, 'x, 'dt) KVWorkspaceStore \<Rightarrow> string \<Rightarrow> 'dt DataSource \<Rightarrow> ('s, unit) ws_prog" where
  "upsert_data_source w t v =
     (let i = ds_id v
      in upsert_indexed kv_err serde_err (ws_kv w) (c_source (ws_codecs w)) (c_index (ws_codecs w)) t
           (kp_data_source (ws_policy w) i) (kp_data_sources_index (ws_policy w)) i v)"

definition delete_data_source :: "('s, 'j, 'st, 'r, 'x, 'dt) KVWorkspaceStore \<Rightarrow> string \<Rightarrow> string \<Rightarrow> ('s, unit) ws_prog" where
  "delete_data_source w t i =
     and_then (delete_indexed kv_err serde_err (ws_kv w) (c_index (ws_codecs w)) t
       (kp_data_source (ws_policy w) i) (kp_data_sources_index (ws_policy w)) i) (\<lambda>_. prog_ok ())"

definition list_workspaces ::
  "('s, 'j, 'st, 'r, 'x, 'dt) KVWorkspaceStore \<Rightarrow> string \<Rightarrow> ('s, Workspace list) ws_prog" where
  "list_workspaces w t =
     list_indexed kv_err serde_err (ws_kv w) (c_workspace (ws_codecs w)) (c_index (ws_codecs w)) t
       (kp_workspace (ws_policy w)) (kp_workspaces_index (ws_policy w))"

definition get_workspace ::
  "('s, 'j, 'st, 'r, 'x, 'dt) KVWorkspaceStore \<Rightarrow> string \<Rightarrow> string \<Rightarrow> ('s, Workspace option) ws_prog" where
  "get_workspace w t i = ws_get (ws_kv w) (c_workspace (ws_codecs w)) t (kp_workspace (ws_policy w) i)"

definition store_create_workspace ::
  "('s, 'j, 'st, 'r, 'x, 'dt) KVWorkspaceStore \<Rightarrow> string \<Rightarrow> Workspace \<Rightarrow> ('s, unit) ws_prog" where
  "store_create_workspace w t v =
     (let i = workspace_str (ws_id v)
      in upsert_indexed kv_err serde_err (ws_kv w) (c_workspace (ws_codecs w)) (c_index (ws_codecs w)) t
           (kp_workspace (ws_policy w) i) (kp_workspaces_index (ws_policy w)) i v)"

definition store_update_workspace ::
  "('s, 'j, 'st, 'r, 'x, 'dt) KVWorkspaceStore \<Rightarrow> string \<Rightarrow> Workspace \<Rightarrow> ('s, unit) ws_prog" where
  "store_update_workspace w t v =
     ws_put (ws_kv w) (c_workspace (ws_codecs w)) t (kp_workspace (ws_policy w) (workspace_str (ws_id v))) v"

definition store_delete_workspace :: "('s, 'j, 'st, 'r, 'x, 'dt) KVWorkspaceStore \<Rightarrow> string \<Rightarrow> string \<Rightarrow> ('s, unit) ws_prog" where
  "store_delete_workspace w t i =
     and_then (delete_indexed kv_err serde_err (ws_kv w) (c_index (ws_codecs w)) t
       (kp_workspace (ws_policy w) i) (kp_workspaces_index (ws_policy w)) i) (\<lambda>_. prog_ok ())"

end
