(* ===== verification/Workspace_Refine.thy ===== *)
theory Workspace_Refine
  imports Workspace_Store "HOL-Library.Countable"
begin

text \<open>
  What the workspace store promises. The abstract state of a tenant has an indexed map for each kind of
  artifact and a list for each log (messages, results, forks, files of a thread); every method of the
  store is one operation of the abstract state, on every lawful key-value store. The keys of
  \<open>Workspace_Types\<close> keep the artifacts apart, under the condition on ids stated there.
\<close>

section \<open>The abstract state\<close>

record ('j, 'st, 'r, 'x, 'dt) ws_abs =
  a_threads :: "Thread indexed"
  a_messages :: "string \<Rightarrow> 'j Message list"
  a_files :: "string \<Rightarrow> ThreadFileEntry list"
  a_file :: "string \<rightharpoonup> StoredFile"
  a_cases :: "'x AuthoredTestCase indexed"
  a_runs :: "('st, 'r, 'x) EvalRun indexed"
  a_results :: "string \<Rightarrow> 'r list"
  a_sets :: "'x TestCaseSet indexed"
  a_forks :: "string \<Rightarrow> string \<Rightarrow> EvalThreadFork list"
  a_sources :: "'dt DataSource indexed"
  a_workspaces :: "Workspace indexed"

definition ws_empty :: "('j, 'st, 'r, 'x, 'dt) ws_abs" where
  "ws_empty = \<lparr>a_threads = im_empty, a_messages = (\<lambda>_. []), a_files = (\<lambda>_. []), a_file = (\<lambda>_. None),
     a_cases = im_empty, a_runs = im_empty, a_results = (\<lambda>_. []), a_sets = im_empty, a_forks = (\<lambda>_ _. []),
     a_sources = im_empty, a_workspaces = im_empty\<rparr>"

definition set_ids :: "string set" where
  "set_ids = plain_ids - {''index''}"

definition im_within :: "string set \<Rightarrow> 'v indexed \<Rightarrow> bool" where
  "im_within I a \<longleftrightarrow> set (im_ids a) \<subseteq> I \<and> dom (im_map a) \<subseteq> I"

definition ids_ok :: "('j, 'st, 'r, 'x, 'dt) ws_abs \<Rightarrow> bool" where
  "ids_ok A \<longleftrightarrow> im_within plain_ids (a_threads A) \<and> im_within plain_ids (a_cases A) \<and> im_within plain_ids (a_runs A)
     \<and> im_within set_ids (a_sets A) \<and> im_within plain_ids (a_sources A) \<and> im_within plain_ids (a_workspaces A)
     \<and> (\<forall>i. \<forall>e \<in> set (a_files A i). tf_file_id e \<in> plain_ids)"

definition stored :: "('v, 'j) serde \<Rightarrow> 'j option \<Rightarrow> 'v option \<Rightarrow> bool" where
  "stored sd x v \<longleftrightarrow> readable sd x \<and> decode sd x = v"

definition stored_list :: "('v list, 'j) serde \<Rightarrow> 'j option \<Rightarrow> 'v list \<Rightarrow> bool" where
  "stored_list sd x vs \<longleftrightarrow> readable sd x \<and> unwrap_or [] (decode sd x) = vs"

text \<open>The content of one key in the abstract state.\<close>

fun holds :: "('j, 'st, 'r, 'x, 'dt) ws_codecs \<Rightarrow> ('j, 'st, 'r, 'x, 'dt) ws_abs \<Rightarrow> ws_key \<Rightarrow> 'j option \<Rightarrow> bool" where
  "holds C A (KThread i) x = stored (c_thread C) x (im_map (a_threads A) i)"
| "holds C A (KMessages i) x = stored_list (c_messages C) x (a_messages A i)"
| "holds C A (KFiles i) x = stored_list (c_files C) x (a_files A i)"
| "holds C A (KFile i) x = stored (c_file C) x (a_file A i)"
| "holds C A (KCase i) x = stored (c_case C) x (im_map (a_cases A) i)"
| "holds C A (KRun i) x = stored (c_run C) x (im_map (a_runs A) i)"
| "holds C A (KResults i) x = stored_list (c_results C) x (a_results A i)"
| "holds C A (KSet i) x = stored (c_set C) x (im_map (a_sets A) i)"
| "holds C A (KForks i j) x = stored_list (c_forks C) x (a_forks A i j)"
| "holds C A (KSource i) x = stored (c_source C) x (im_map (a_sources A) i)"
| "holds C A (KWorkspace i) x = stored (c_workspace C) x (im_map (a_workspaces A) i)"
| "holds C A KThreadsIndex x = stored_list (c_index C) x (im_ids (a_threads A))"
| "holds C A KCasesIndex x = stored_list (c_index C) x (im_ids (a_cases A))"
| "holds C A KRunsIndex x = stored_list (c_index C) x (im_ids (a_runs A))"
| "holds C A KSetsIndex x = stored_list (c_index C) x (im_ids (a_sets A))"
| "holds C A KSourcesIndex x = stored_list (c_index C) x (im_ids (a_sources A))"
| "holds C A KWorkspacesIndex x = stored_list (c_index C) x (im_ids (a_workspaces A))"

definition ws_rep ::
  "('j, 'st, 'r, 'x, 'dt) ws_codecs \<Rightarrow> string \<Rightarrow> 'j content \<Rightarrow> ('j, 'st, 'r, 'x, 'dt) ws_abs \<Rightarrow> bool" where
  "ws_rep C t c A \<longleftrightarrow> ids_ok A \<and> (\<forall>k. valid_key k \<longrightarrow> holds C A k (c t (key_str k)))"

definition good_codecs :: "('j, 'st, 'r, 'x, 'dt) ws_codecs \<Rightarrow> bool" where
  "good_codecs C \<longleftrightarrow> good_serde (c_index C) \<and> good_serde (c_thread C) \<and> good_serde (c_messages C) \<and> good_serde (c_files C)
     \<and> good_serde (c_file C) \<and> good_serde (c_case C) \<and> good_serde (c_run C) \<and> good_serde (c_results C)
     \<and> good_serde (c_set C) \<and> good_serde (c_forks C) \<and> good_serde (c_source C) \<and> good_serde (c_workspace C)"

lemma ws_rep_empty: "(\<And>k. c t k = None) \<Longrightarrow> ws_rep C t c ws_empty"
  unfolding ws_rep_def
proof (intro conjI allI impI)
  fix k assume "\<And>k. c t k = None"
  then show "holds C ws_empty k (c t (key_str k))"
    by (cases k) (simp_all add: ws_empty_def im_empty_def stored_def stored_list_def)
qed (simp add: ids_ok_def ws_empty_def im_within_def im_empty_def)

lemma ws_repD: "ws_rep C t c A \<Longrightarrow> valid_key k \<Longrightarrow> holds C A k (c t (key_str k))"
  by (simp add: ws_rep_def)

lemma stored_encode [simp]:
  "good_serde sd \<Longrightarrow> stored sd (Some (encode sd v)) w \<longleftrightarrow> w = Some v" "stored sd None w \<longleftrightarrow> w = None"
  "good_serde lsd \<Longrightarrow> stored_list lsd (Some (encode lsd vs)) ws \<longleftrightarrow> ws = vs" "stored_list lsd None ws \<longleftrightarrow> ws = []"
  by (auto simp: stored_def stored_list_def)

text \<open>A change of one key.\<close>

lemma ws_rep_put:
  assumes "ws_rep C t c A" "valid_key k" "holds C A' k x" "ids_ok A'"
    "\<And>k' y. k' \<noteq> k \<Longrightarrow> holds C A k' y \<Longrightarrow> holds C A' k' y"
  shows "ws_rep C t (map_put t (key_str k) x c) A'"
  using assms key_str_inj [OF _ assms(2)] unfolding ws_rep_def by auto

lemma plain_literals:
  "''thread'' \<in> plain_ids" "''threads'' \<in> plain_ids" "''index'' \<in> plain_ids" "''messages'' \<in> plain_ids"
  "''files'' \<in> plain_ids" "''file'' \<in> plain_ids" "''test_case'' \<in> plain_ids" "''test_cases'' \<in> plain_ids"
  "''eval_run'' \<in> plain_ids" "''eval_runs'' \<in> plain_ids" "''results'' \<in> plain_ids" "''eval'' \<in> plain_ids"
  "''test-cases'' \<in> plain_ids" "''data_source'' \<in> plain_ids" "''data_sources'' \<in> plain_ids"
  "''workspace'' \<in> plain_ids" "''workspaces'' \<in> plain_ids"
  by (simp_all add: plain_ids_def)

section \<open>A kind of artifact with an index\<close>

locale artifact_family =
  fixes sd :: "('j, 'st, 'r, 'x, 'dt) ws_codecs \<Rightarrow> ('v, 'j) serde"
    and ids :: "string set"
    and mk :: "string \<Rightarrow> ws_key"
    and ix :: ws_key
    and get :: "('j, 'st, 'r, 'x, 'dt) ws_abs \<Rightarrow> 'v indexed"
    and upd :: "('v indexed \<Rightarrow> 'v indexed) \<Rightarrow> ('j, 'st, 'r, 'x, 'dt) ws_abs \<Rightarrow> ('j, 'st, 'r, 'x, 'dt) ws_abs"
  assumes good: "good_codecs C \<Longrightarrow> good_serde (sd C)"
    and valid_mk: "valid_key (mk i) \<longleftrightarrow> i \<in> ids"
    and valid_ix: "valid_key ix"
    and inj_mk: "mk i = mk j \<longleftrightarrow> i = j"
    and mk_ix: "mk i \<noteq> ix"
    and holds_mk: "holds C A (mk i) x \<longleftrightarrow> stored (sd C) x (im_map (get A) i)"
    and holds_ix: "holds C A ix x \<longleftrightarrow> stored_list (c_index C) x (im_ids (get A))"
    and holds_other: "k \<noteq> ix \<Longrightarrow> k \<notin> range mk \<Longrightarrow> holds C (upd f A) k x \<longleftrightarrow> holds C A k x"
    and get_upd: "get (upd f A) = f (get A)"
    and upd_get: "upd (\<lambda>_. f (get A)) A = upd f A"
    and ids_get: "ids_ok A \<Longrightarrow> im_within ids (get A)"
    and ids_upd: "ids_ok A \<Longrightarrow> im_within ids (f (get A)) \<Longrightarrow> ids_ok (upd f A)"
begin

definition fam :: "('j, 'st, 'r, 'x, 'dt) ws_codecs \<Rightarrow> ('v, 'j) family" where
  "fam C = \<lparr>fam_serde = sd C, fam_ids = ids, fam_key = (\<lambda>i. key_str (mk i)), fam_index = key_str ix\<rparr>"

lemma fam_simps [simp]:
  "fam_serde (fam C) = sd C" "fam_ids (fam C) = ids" "fam_key (fam C) i = key_str (mk i)" "fam_index (fam C) = key_str ix"
  by (simp_all add: fam_def)

lemma fam_key_fun: "fam_key (fam C) = (\<lambda>i. key_str (mk i))"
  by (simp add: fam_def)

lemma fam_ok: "good_codecs C \<Longrightarrow> family_ok (fam C)"
  unfolding family_ok_def fam_simps fam_key_fun
  by (auto simp: good inj_on_def key_str_inj valid_mk valid_ix inj_mk mk_ix [symmetric])

lemma rep_represents: "ws_rep C t c A \<Longrightarrow> represents (c_index C) t (fam C) c (get A)"
  using ids_get [of A] ws_repD [of C t c A ix] ws_repD [of C t c A "mk _"]
  unfolding represents_def ws_rep_def im_within_def
  by (auto simp: valid_ix valid_mk holds_ix holds_mk stored_def stored_list_def)

lemma represents_rep:
  assumes rep: "ws_rep C t c A" and a: "represents (c_index C) t (fam C) c' a"
    and same: "same_except t K c c'" and K: "\<And>k. k \<in> K \<Longrightarrow> k = key_str ix \<or> (\<exists>i \<in> ids. k = key_str (mk i))"
  shows "ws_rep C t c' (upd (\<lambda>_. a) A)"
  unfolding ws_rep_def
proof (intro conjI allI impI)
  show "ids_ok (upd (\<lambda>_. a) A)" using rep a by (auto simp: ws_rep_def represents_def im_within_def intro: ids_upd)
next
  fix k assume v: "valid_key k"
  show "holds C (upd (\<lambda>_. a) A) k (c' t (key_str k))"
  proof (cases "k = ix \<or> (\<exists>i. k = mk i)")
    case True
    then show ?thesis
      using a v by (auto simp: holds_ix holds_mk get_upd represents_def stored_def stored_list_def valid_mk)
  next
    case False
    have "key_str k \<notin> K"
    proof
      assume "key_str k \<in> K"
      from K [OF this] False v show False by (auto simp: key_str_inj valid_mk valid_ix)
    qed
    then have "c' t (key_str k) = c t (key_str k)" using same by (simp add: same_except_def)
    then show ?thesis using False ws_repD [OF rep v] by (subst holds_other) auto
  qed
qed

lemma upsert_run:
  assumes "good_codecs C" "ws_rep C t c A" "i \<in> ids"
  shows "\<exists>c'. upsert_indexed ke se map_kv (sd C) (c_index C) t (key_str (mk i)) (key_str ix) i v c = (Ok (), c')
    \<and> ws_rep C t c' (upd (im_put i v) A)"
proof -
  have isd: "good_serde (c_index C)" using assms(1) by (simp add: good_codecs_def)
  obtain c' where c': "upsert_indexed ke se map_kv (sd C) (c_index C) t (key_str (mk i)) (key_str ix) i v c = (Ok (), c')"
    "represents (c_index C) t (fam C) c' (im_put i v (get A))" "same_except t {key_str (mk i), key_str ix} c c'"
    using upsert_represents [OF fam_ok [OF assms(1)] isd rep_represents [OF assms(2)], of i ke se v] assms(3) by auto
  have "ws_rep C t c' (upd (\<lambda>_. im_put i v (get A)) A)"
    by (rule represents_rep [OF assms(2) c'(2,3)]) (use assms(3) in auto)
  then show ?thesis using c'(1) upd_get by metis
qed

lemma batch_delete_run:
  assumes "good_codecs C" "ws_rep C t c A" "set js \<subseteq> ids"
  shows "\<exists>n c'. batch_delete_indexed ke se map_kv (c_index C) t (\<lambda>i. key_str (mk i)) (key_str ix) js c = (Ok n, c')
    \<and> ws_rep C t c' (upd (im_remove (set js)) A)"
proof -
  have isd: "good_serde (c_index C)" using assms(1) by (simp add: good_codecs_def)
  obtain c' where c': "batch_delete_indexed ke se map_kv (c_index C) t (\<lambda>i. key_str (mk i)) (key_str ix) js c =
      (Ok (card (set js \<inter> dom (im_map (get A)))), c')"
    "represents (c_index C) t (fam C) c' (im_remove (set js) (get A))"
    "same_except t (insert (key_str ix) ((\<lambda>i. key_str (mk i)) ` set js)) c c'"
    using batch_delete_represents [OF fam_ok [OF assms(1)] isd rep_represents [OF assms(2)], of js ke se] assms(3)
    by (auto simp: fam_key_fun)
  have "ws_rep C t c' (upd (\<lambda>_. im_remove (set js) (get A)) A)"
    by (rule represents_rep [OF assms(2) c'(2,3)]) (use assms(3) in auto)
  then show ?thesis using c'(1) upd_get by metis
qed

lemma retain_run:
  assumes "good_codecs C" "ws_rep C t c A" "im_map (get A) i = None"
  shows "\<exists>c'. index_retain ke se map_kv (c_index C) t (key_str ix) (\<lambda>j. j \<noteq> i) c = (Ok (), c')
    \<and> ws_rep C t c' (upd (im_remove {i}) A)"
proof -
  have isd: "good_serde (c_index C)" using assms(1) by (simp add: good_codecs_def)
  have a: "represents (c_index C) t (fam C) c (get A)" by (rule rep_represents [OF assms(2)])
  obtain c' where c': "index_retain ke se map_kv (c_index C) t (key_str ix) (\<lambda>j. j \<notin> {i}) c = (Ok (), c')"
    "represents (c_index C) t (fam C) c' (im_remove {i} (get A))" "same_except t {key_str ix} c c'"
    by (rule retain_represents [OF fam_ok [OF assms(1)] isd, of c t "get A" "{i}" ke se])
      (use assms(3) a in \<open>auto simp: represents_def\<close>)
  have "ws_rep C t c' (upd (\<lambda>_. im_remove {i} (get A)) A)"
    by (rule represents_rep [OF assms(2) c'(2,3)]) simp
  then show ?thesis using c'(1) upd_get by auto
qed

lemma delete_run:
  assumes "good_codecs C" "ws_rep C t c A" "i \<in> ids"
  shows "\<exists>b c'. delete_indexed ke se map_kv (c_index C) t (key_str (mk i)) (key_str ix) i c = (Ok b, c')
    \<and> ws_rep C t c' (upd (im_remove {i}) A)"
proof -
  have isd: "good_serde (c_index C)" using assms(1) by (simp add: good_codecs_def)
  obtain c' where c': "delete_indexed ke se map_kv (c_index C) t (key_str (mk i)) (key_str ix) i c = (Ok (im_map (get A) i \<noteq> None), c')"
    "represents (c_index C) t (fam C) c' (im_remove {i} (get A))" "same_except t {key_str (mk i), key_str ix} c c'"
    using delete_represents [OF fam_ok [OF assms(1)] isd rep_represents [OF assms(2)], of i ke se] assms(3) by auto
  have "ws_rep C t c' (upd (\<lambda>_. im_remove {i} (get A)) A)"
    by (rule represents_rep [OF assms(2) c'(2,3)]) (use assms(3) in auto)
  then show ?thesis using c'(1) upd_get by metis
qed

text \<open>A write of the entity key alone.\<close>

lemma only_rep:
  assumes "ws_rep C t c A" "i \<in> ids" "stored (sd C) x v"
  shows "ws_rep C t (map_put t (key_str (mk i)) x c) (upd (\<lambda>a. a\<lparr>im_map := (im_map a)(i := v)\<rparr>) A)"
proof (rule ws_rep_put [OF assms(1)])
  show "valid_key (mk i)" using assms(2) by (simp add: valid_mk)
  show "holds C (upd (\<lambda>a. a\<lparr>im_map := (im_map a)(i := v)\<rparr>) A) (mk i) x" using assms(3) by (simp add: holds_mk get_upd)
  show "ids_ok (upd (\<lambda>a. a\<lparr>im_map := (im_map a)(i := v)\<rparr>) A)"
    using assms(1,2) ids_get [of A] by (intro ids_upd) (auto simp: ws_rep_def im_within_def split: if_splits)
  fix k y assume "k \<noteq> mk i" "holds C A k y"
  then show "holds C (upd (\<lambda>a. a\<lparr>im_map := (im_map a)(i := v)\<rparr>) A) k y"
    by (cases "k = ix \<or> k \<in> range mk") (auto simp: holds_mk holds_ix get_upd holds_other inj_mk)
qed

lemma get_run: "ws_rep C t c A \<Longrightarrow> i \<in> ids \<Longrightarrow> get_entity ke se map_kv (sd C) t (key_str (mk i)) c = (Ok (im_map (get A) i), c)"
  using represents_get [OF rep_represents, of C t c A i ke se] by simp

lemma list_run:
  "ws_rep C t c A \<Longrightarrow>
   list_indexed ke se map_kv (sd C) (c_index C) t (\<lambda>i. key_str (mk i)) (key_str ix) c = (Ok (im_list (get A)), c)"
  using represents_list [OF rep_represents, of C t c A ke se] by (simp add: fam_key_fun)

end

interpretation threads: artifact_family c_thread plain_ids KThread KThreadsIndex a_threads a_threads_update
proof (unfold_locales, goal_cases)
  case (8 k f C A x)
  then show ?case by (cases k) simp_all
qed (auto simp: good_codecs_def ids_ok_def set_ids_def plain_literals)

interpretation cases: artifact_family c_case plain_ids KCase KCasesIndex a_cases a_cases_update
proof (unfold_locales, goal_cases)
  case (8 k f C A x)
  then show ?case by (cases k) simp_all
qed (auto simp: good_codecs_def ids_ok_def set_ids_def plain_literals)

interpretation runs: artifact_family c_run plain_ids KRun KRunsIndex a_runs a_runs_update
proof (unfold_locales, goal_cases)
  case (8 k f C A x)
  then show ?case by (cases k) simp_all
qed (auto simp: good_codecs_def ids_ok_def set_ids_def plain_literals)

interpretation sets: artifact_family c_set set_ids KSet KSetsIndex a_sets a_sets_update
proof (unfold_locales, goal_cases)
  case (8 k f C A x)
  then show ?case by (cases k) simp_all
qed (auto simp: good_codecs_def ids_ok_def set_ids_def plain_literals)

interpretation sources: artifact_family c_source plain_ids KSource KSourcesIndex a_sources a_sources_update
proof (unfold_locales, goal_cases)
  case (8 k f C A x)
  then show ?case by (cases k) simp_all
qed (auto simp: good_codecs_def ids_ok_def set_ids_def plain_literals)

interpretation spaces: artifact_family c_workspace plain_ids KWorkspace KWorkspacesIndex a_workspaces a_workspaces_update
proof (unfold_locales, goal_cases)
  case (8 k f C A x)
  then show ?case by (cases k) simp_all
qed (auto simp: good_codecs_def ids_ok_def set_ids_def plain_literals)

section \<open>Commands\<close>

datatype ('j, 'st, 'r, 'x, 'dt) ws_cmd =
    UpsertThread Thread | DeleteThread string | InsertMessage "'j Message" string
  | RegisterFile string string string string | PutFile string StoredFile
  | InsertCase "'x AuthoredTestCase" | UpdateCase "'x AuthoredTestCase" | DeleteCase string
  | UpdateStatuses "(string \<times> string) list" TestCaseStatus | DeleteCases "string list"
  | InsertRun "('st, 'r, 'x) EvalRun" | UpdateRunStatus string string 'st | DeleteRun string | InsertResult string string 'r
  | UpsertSet "'x TestCaseSet" | DeleteSet string | AppendFork string string EvalThreadFork | DeleteFork string string string
  | UpsertSource "'dt DataSource" | DeleteSource string
  | CreateWorkspace Workspace | UpdateWorkspace Workspace | DeleteWorkspace string

fun run_ws_cmd ::
  "('s, 'j, 'st, 'r, 'x, 'dt) KVWorkspaceStore \<Rightarrow> string \<Rightarrow> ('j, 'st, 'r, 'x, 'dt) ws_cmd \<Rightarrow> ('s, unit) ws_prog" where
  "run_ws_cmd w t (UpsertThread th) = upsert_thread w t th"
| "run_ws_cmd w t (DeleteThread i) = delete_thread w t i"
| "run_ws_cmd w t (InsertMessage m i) = insert_message w t m i"
| "run_ws_cmd w t (RegisterFile f n i now) =
     and_then (register_thread_file_at (ws_kv w) (c_files (ws_codecs w)) t f n i now) (\<lambda>_. prog_ok ())"
| "run_ws_cmd w t (PutFile f v) = put_stored_file (ws_kv w) (c_file (ws_codecs w)) t f v"
| "run_ws_cmd w t (InsertCase tc) = insert_test_case w t tc"
| "run_ws_cmd w t (UpdateCase tc) = update_test_case w t tc"
| "run_ws_cmd w t (DeleteCase i) = delete_test_case w t i"
| "run_ws_cmd w t (UpdateStatuses is st) = and_then (batch_update_status w t is st) (\<lambda>_. prog_ok ())"
| "run_ws_cmd w t (DeleteCases is) = and_then (batch_delete_test_cases w t is) (\<lambda>_. prog_ok ())"
| "run_ws_cmd w t (InsertRun r) = insert_eval_run w t r"
| "run_ws_cmd w t (UpdateRunStatus i now st) = update_eval_status w t i now st"
| "run_ws_cmd w t (DeleteRun i) = delete_eval_run w t i"
| "run_ws_cmd w t (InsertResult i tc r) = insert_eval_result w t i tc r"
| "run_ws_cmd w t (UpsertSet v) = upsert_eval_test_case_set w t v"
| "run_ws_cmd w t (DeleteSet i) = delete_eval_test_case_set w t i"
| "run_ws_cmd w t (AppendFork i tc f) = append_eval_thread_fork w t i tc f"
| "run_ws_cmd w t (DeleteFork i tc f) = and_then (delete_eval_thread_fork w t i tc f) (\<lambda>_. prog_ok ())"
| "run_ws_cmd w t (UpsertSource v) = upsert_data_source w t v"
| "run_ws_cmd w t (DeleteSource i) = delete_data_source w t i"
| "run_ws_cmd w t (CreateWorkspace v) = store_create_workspace w t v"
| "run_ws_cmd w t (UpdateWorkspace v) = store_update_workspace w t v"
| "run_ws_cmd w t (DeleteWorkspace i) = store_delete_workspace w t i"

text \<open>A write that leaves the index alone.\<close>

definition im_only :: "string \<Rightarrow> 'v option \<Rightarrow> 'v indexed \<Rightarrow> 'v indexed" where
  "im_only i v a = a\<lparr>im_map := (im_map a)(i := v)\<rparr>"

definition im_change :: "string \<Rightarrow> ('v \<Rightarrow> 'v) \<Rightarrow> 'v indexed \<Rightarrow> 'v indexed" where
  "im_change i f a = im_only i (map_option f (im_map a i)) a"

definition at :: "'k \<Rightarrow> ('v \<Rightarrow> 'v) \<Rightarrow> ('k \<Rightarrow> 'v) \<Rightarrow> 'k \<Rightarrow> 'v" where
  "at k f m = m(k := f (m k))"

definition drop_files :: "string \<Rightarrow> ('j, 'st, 'r, 'x, 'dt) ws_abs \<Rightarrow> ('j, 'st, 'r, 'x, 'dt) ws_abs" where
  "drop_files i A = A\<lparr>a_file := (\<lambda>f. if f \<in> tf_file_id ` set (a_files A i) then None else a_file A f),
     a_files := (a_files A)(i := [])\<rparr>"

fun apply_ws_cmd :: "('j, 'st, 'r, 'x, 'dt) ws_cmd \<Rightarrow> ('j, 'st, 'r, 'x, 'dt) ws_abs \<Rightarrow> ('j, 'st, 'r, 'x, 'dt) ws_abs" where
  "apply_ws_cmd (UpsertThread th) A = a_threads_update (im_put (th_id th) th) A"
| "apply_ws_cmd (DeleteThread i) A = drop_files i (a_messages_update (at i (\<lambda>_. [])) (a_threads_update (im_remove {i}) A))"
| "apply_ws_cmd (InsertMessage m i) A = a_messages_update (at i (\<lambda>ms. ms @ [m])) A"
| "apply_ws_cmd (RegisterFile f n i now) A =
     a_files_update (at i (\<lambda>es. filter (\<lambda>e. tf_file_id e \<noteq> f) es @
       [\<lparr>tf_file_id = f, tf_filename = n, tf_thread_id = i, tf_created_at = now\<rparr>])) A"
| "apply_ws_cmd (PutFile f v) A = a_file_update (\<lambda>m. m(f \<mapsto> v)) A"
| "apply_ws_cmd (InsertCase tc) A = a_cases_update (im_put (test_case_str (tc_id tc)) tc) A"
| "apply_ws_cmd (UpdateCase tc) A = a_cases_update (im_only (test_case_str (tc_id tc)) (Some tc)) A"
| "apply_ws_cmd (DeleteCase i) A = a_cases_update (im_remove {i}) A"
| "apply_ws_cmd (UpdateStatuses is st) A =
     a_cases_update (fold (\<lambda>(i, now). im_change i (\<lambda>tc. tc\<lparr>tc_status := st, tc_updated_at := now\<rparr>)) is) A"
| "apply_ws_cmd (DeleteCases is) A = a_cases_update (im_remove (set is)) A"
| "apply_ws_cmd (InsertRun r) A = a_runs_update (im_put (eval_run_str (er_id r)) r) A"
| "apply_ws_cmd (UpdateRunStatus i now st) A = a_runs_update (im_change i (\<lambda>r. r\<lparr>er_status := st, er_updated_at := now\<rparr>)) A"
| "apply_ws_cmd (DeleteRun i) A = a_results_update (at i (\<lambda>_. [])) (a_runs_update (im_remove {i}) A)"
| "apply_ws_cmd (InsertResult i tc r) A = a_results_update (at i (\<lambda>rs. rs @ [r])) A"
| "apply_ws_cmd (UpsertSet v) A = a_sets_update (im_put (ts_id v) v) A"
| "apply_ws_cmd (DeleteSet i) A = a_sets_update (im_remove {i}) A"
| "apply_ws_cmd (AppendFork i tc f) A = a_forks_update (at i (at tc (\<lambda>fs. fs @ [f]))) A"
| "apply_ws_cmd (DeleteFork i tc f) A = a_forks_update (at i (at tc (filter (\<lambda>x. fork_id x \<noteq> f)))) A"
| "apply_ws_cmd (UpsertSource v) A = a_sources_update (im_put (ds_id v) v) A"
| "apply_ws_cmd (DeleteSource i) A = a_sources_update (im_remove {i}) A"
| "apply_ws_cmd (CreateWorkspace v) A = a_workspaces_update (im_put (workspace_str (ws_id v)) v) A"
| "apply_ws_cmd (UpdateWorkspace v) A = a_workspaces_update (im_only (workspace_str (ws_id v)) (Some v)) A"
| "apply_ws_cmd (DeleteWorkspace i) A = a_workspaces_update (im_remove {i}) A"

text \<open>The ids of a command.\<close>

fun cmd_ids :: "('j, 'st, 'r, 'x, 'dt) ws_cmd \<Rightarrow> string set" where
  "cmd_ids (UpsertThread th) = {th_id th}"
| "cmd_ids (DeleteThread i) = {i}"
| "cmd_ids (InsertMessage m i) = {i}"
| "cmd_ids (RegisterFile f n i now) = {f, i}"
| "cmd_ids (PutFile f v) = {f}"
| "cmd_ids (InsertCase tc) = {test_case_str (tc_id tc)}"
| "cmd_ids (UpdateCase tc) = {test_case_str (tc_id tc)}"
| "cmd_ids (DeleteCase i) = {i}"
| "cmd_ids (UpdateStatuses is st) = fst ` set is"
| "cmd_ids (DeleteCases is) = set is"
| "cmd_ids (InsertRun r) = {eval_run_str (er_id r)}"
| "cmd_ids (UpdateRunStatus i now st) = {i}"
| "cmd_ids (DeleteRun i) = {i}"
| "cmd_ids (InsertResult i tc r) = {i}"
| "cmd_ids (UpsertSet v) = {ts_id v}"
| "cmd_ids (DeleteSet i) = {i}"
| "cmd_ids (AppendFork i tc f) = {i, tc}"
| "cmd_ids (DeleteFork i tc f) = {i, tc}"
| "cmd_ids (UpsertSource v) = {ds_id v}"
| "cmd_ids (DeleteSource i) = {i}"
| "cmd_ids (CreateWorkspace v) = {workspace_str (ws_id v)}"
| "cmd_ids (UpdateWorkspace v) = {workspace_str (ws_id v)}"
| "cmd_ids (DeleteWorkspace i) = {i}"

fun cmd_ok :: "('j, 'st, 'r, 'x, 'dt) ws_cmd \<Rightarrow> bool" where
  "cmd_ok (UpsertSet v) \<longleftrightarrow> ts_id v \<in> set_ids"
| "cmd_ok (DeleteSet i) \<longleftrightarrow> i \<in> set_ids"
| "cmd_ok cmd \<longleftrightarrow> cmd_ids cmd \<subseteq> plain_ids"

section \<open>Every method on the plain map\<close>

definition map_store ::
  "('j, 'st, 'r, 'x, 'dt) ws_codecs \<Rightarrow> (string \<Rightarrow> string list) \<Rightarrow> ('j content, 'j, 'st, 'r, 'x, 'dt) KVWorkspaceStore" where
  "map_store C aux = ws_new_with_thread_aux_keys C map_kv aux"

text \<open>The extra keys of a thread hold no other artifact.\<close>

definition aux_ok :: "(string \<Rightarrow> string list) \<Rightarrow> bool" where
  "aux_ok aux \<longleftrightarrow> (\<forall>i \<in> plain_ids. \<forall>k \<in> set (aux i). \<forall>k'. valid_key k' \<longrightarrow> key_str k' \<noteq> k)"

lemma map_store_simps [simp]:
  "ws_kv (map_store C aux) = map_kv" "ws_codecs (map_store C aux) = C"
  "kp_thread (ws_policy (map_store C aux)) = (\<lambda>i. key_str (KThread i))"
  "kp_thread_messages (ws_policy (map_store C aux)) = (\<lambda>i. key_str (KMessages i))"
  "kp_thread_aux_keys (ws_policy (map_store C aux)) = aux"
  "kp_threads_index (ws_policy (map_store C aux)) = key_str KThreadsIndex"
  "kp_test_case (ws_policy (map_store C aux)) = (\<lambda>i. key_str (KCase i))"
  "kp_test_cases_index (ws_policy (map_store C aux)) = key_str KCasesIndex"
  "kp_eval_run (ws_policy (map_store C aux)) = (\<lambda>i. key_str (KRun i))"
  "kp_eval_run_results (ws_policy (map_store C aux)) = (\<lambda>i. key_str (KResults i))"
  "kp_eval_runs_index (ws_policy (map_store C aux)) = key_str KRunsIndex"
  "kp_eval_test_case_set (ws_policy (map_store C aux)) = (\<lambda>i. key_str (KSet i))"
  "kp_eval_test_case_sets_index (ws_policy (map_store C aux)) = key_str KSetsIndex"
  "kp_eval_forks (ws_policy (map_store C aux)) = (\<lambda>i j. key_str (KForks i j))"
  "kp_data_source (ws_policy (map_store C aux)) = (\<lambda>i. key_str (KSource i))"
  "kp_data_sources_index (ws_policy (map_store C aux)) = key_str KSourcesIndex"
  "kp_workspace (ws_policy (map_store C aux)) = (\<lambda>i. key_str (KWorkspace i))"
  "kp_workspaces_index (ws_policy (map_store C aux)) = key_str KWorkspacesIndex"
  by (simp_all add: map_store_def ws_new_with_thread_aux_keys_def ws_new_with_policy_def thread_aux_keys_policy_def default_key_policy_def
      fun_eq_iff key_str_simps)

lemma good_codecsD [simp]:
  assumes "good_codecs C"
  shows "good_serde (c_index C)" "good_serde (c_thread C)" "good_serde (c_messages C)" "good_serde (c_files C)"
    "good_serde (c_file C)" "good_serde (c_case C)" "good_serde (c_run C)" "good_serde (c_results C)"
    "good_serde (c_set C)" "good_serde (c_forks C)" "good_serde (c_source C)" "good_serde (c_workspace C)"
  using assms by (simp_all add: good_codecs_def)

lemma run_get_list: "stored_list sd (c t k) vs \<Longrightarrow> ws_get_list map_kv sd t k c = (Ok vs, c)"
  by (simp add: ws_get_list_def run_and_then run_get_entity run_prog_ok stored_list_def)

lemma run_get: "stored sd (c t k) v \<Longrightarrow> get_entity ke se map_kv sd t k c = (Ok v, c)"
  by (simp add: run_get_entity stored_def)

lemma run_ws_delete: "ws_delete map_kv t k c = (Ok (), map_put t k None c)"
  by (simp add: ws_delete_def run_and_then run_delete_key run_prog_ok)

lemma run_ignored_delete: "ignore_result (\<lambda>s. kv_delete map_kv s t k) c = (Ok (), map_put t k None c)"
  by (simp add: ignore_result_def map_kv_def)

lemma run_ignored_deletes:
  "for_each (\<lambda>x. ignore_result (\<lambda>s. kv_delete map_kv s t (key_of x))) xs c =
     (Ok (map (\<lambda>_. ()) xs), \<lambda>t' k. if t' = t \<and> k \<in> key_of ` set xs then None else c t' k)"
  by (induction xs arbitrary: c) (auto simp: and_then_def run_ignored_delete run_prog_ok fun_eq_iff)

text \<open>Changes of one key of the abstract state.\<close>

lemma rep_messages:
  assumes "ws_rep C t c A" "i \<in> plain_ids" "stored_list (c_messages C) x (f (a_messages A i))"
  shows "ws_rep C t (map_put t (key_str (KMessages i)) x c) (a_messages_update (at i f) A)"
proof (rule ws_rep_put [OF assms(1)])
  fix k y assume "k \<noteq> KMessages i" "holds C A k y"
  then show "holds C (a_messages_update (at i f) A) k y" by (cases k) (auto simp: at_def)
qed (use assms in \<open>simp_all add: at_def ws_rep_def ids_ok_def plain_literals\<close>)

lemma rep_results:
  assumes "ws_rep C t c A" "i \<in> plain_ids" "stored_list (c_results C) x (f (a_results A i))"
  shows "ws_rep C t (map_put t (key_str (KResults i)) x c) (a_results_update (at i f) A)"
proof (rule ws_rep_put [OF assms(1)])
  fix k y assume "k \<noteq> KResults i" "holds C A k y"
  then show "holds C (a_results_update (at i f) A) k y" by (cases k) (auto simp: at_def)
qed (use assms in \<open>simp_all add: at_def ws_rep_def ids_ok_def plain_literals\<close>)

lemma rep_forks:
  assumes "ws_rep C t c A" "i \<in> plain_ids" "j \<in> plain_ids" "stored_list (c_forks C) x (f (a_forks A i j))"
  shows "ws_rep C t (map_put t (key_str (KForks i j)) x c) (a_forks_update (at i (at j f)) A)"
proof (rule ws_rep_put [OF assms(1)])
  fix k y assume "k \<noteq> KForks i j" "holds C A k y"
  then show "holds C (a_forks_update (at i (at j f)) A) k y" by (cases k) (auto simp: at_def)
qed (use assms in \<open>simp_all add: at_def ws_rep_def ids_ok_def plain_literals\<close>)

lemma rep_files:
  assumes "ws_rep C t c A" "i \<in> plain_ids" "stored_list (c_files C) x (f (a_files A i))"
    "\<forall>e \<in> set (f (a_files A i)). tf_file_id e \<in> plain_ids"
  shows "ws_rep C t (map_put t (key_str (KFiles i)) x c) (a_files_update (at i f) A)"
proof (rule ws_rep_put [OF assms(1)])
  fix k y assume "k \<noteq> KFiles i" "holds C A k y"
  then show "holds C (a_files_update (at i f) A) k y" by (cases k) (auto simp: at_def)
qed (use assms in \<open>simp_all add: at_def ws_rep_def ids_ok_def plain_literals\<close>)

lemma rep_file:
  assumes "ws_rep C t c A" "i \<in> plain_ids" "stored (c_file C) x v"
  shows "ws_rep C t (map_put t (key_str (KFile i)) x c) (a_file_update (\<lambda>m. m(i := v)) A)"
proof (rule ws_rep_put [OF assms(1)])
  fix k y assume "k \<noteq> KFile i" "holds C A k y"
  then show "holds C (a_file_update (\<lambda>m. m(i := v)) A) k y" by (cases k) auto
qed (use assms in \<open>simp_all add: ws_rep_def ids_ok_def plain_literals\<close>)

text \<open>Logs that grow or shrink by one read and one write.\<close>

lemma run_log:
  assumes "good_serde sd" "stored_list sd (c t k) vs"
  shows "and_then (ws_get_list map_kv sd t k) (\<lambda>vs. ws_put map_kv sd t k (f vs)) c = (Ok (), map_put t k (Some (encode sd (f vs))) c)"
  using assms by (simp add: and_then_def run_get_list run_put_entity)

definition runs_to ::
  "('j, 'st, 'r, 'x, 'dt) ws_codecs \<Rightarrow> string \<Rightarrow> ('j content, unit) ws_prog \<Rightarrow> 'j content \<Rightarrow> ('j, 'st, 'r, 'x, 'dt) ws_abs \<Rightarrow> bool" where
  "runs_to C t m c A \<longleftrightarrow> (\<exists>c'. m c = (Ok (), c') \<and> ws_rep C t c' A)"

lemma runs_toI: "m c = (Ok (), c') \<Longrightarrow> ws_rep C t c' A \<Longrightarrow> runs_to C t m c A"
  by (auto simp: runs_to_def)

lemma runs_to_unit: "\<exists>b c'. m c = (Ok b, c') \<and> ws_rep C t c' A \<Longrightarrow> runs_to C t (and_then m (\<lambda>_. prog_ok ())) c A"
  by (auto simp: runs_to_def and_then_def run_prog_ok)

lemma runs_to_then:
  assumes "runs_to C t m c A" "\<And>c'. ws_rep C t c' A \<Longrightarrow> runs_to C t n c' A'"
  shows "runs_to C t (and_then m (\<lambda>_. n)) c A'"
  using assms by (fastforce simp: runs_to_def and_then_def)

lemma run_insert_message:
  assumes "good_codecs C" "ws_rep C t c A" "i \<in> plain_ids"
  shows "runs_to C t (insert_message (map_store C aux) t m i) c (a_messages_update (at i (\<lambda>ms. ms @ [m])) A)"
proof -
  have "stored_list (c_messages C) (c t (key_str (KMessages i))) (a_messages A i)"
    using ws_repD [OF assms(2), of "KMessages i"] assms(3) by (simp add: plain_literals)
  then show ?thesis
    unfolding insert_message_def Let_def map_store_simps
    by (intro runs_toI [OF run_log rep_messages]) (use assms in simp_all)
qed

lemma run_insert_result:
  assumes "good_codecs C" "ws_rep C t c A" "i \<in> plain_ids"
  shows "runs_to C t (insert_eval_result (map_store C aux) t i tc r) c (a_results_update (at i (\<lambda>rs. rs @ [r])) A)"
proof -
  have "stored_list (c_results C) (c t (key_str (KResults i))) (a_results A i)"
    using ws_repD [OF assms(2), of "KResults i"] assms(3) by (simp add: plain_literals)
  then show ?thesis
    unfolding insert_eval_result_def Let_def map_store_simps
    by (intro runs_toI [OF run_log rep_results]) (use assms in simp_all)
qed

lemma run_append_fork:
  assumes "good_codecs C" "ws_rep C t c A" "i \<in> plain_ids" "j \<in> plain_ids"
  shows "runs_to C t (append_eval_thread_fork (map_store C aux) t i j f) c (a_forks_update (at i (at j (\<lambda>fs. fs @ [f]))) A)"
proof -
  have "stored_list (c_forks C) (c t (key_str (KForks i j))) (a_forks A i j)"
    using ws_repD [OF assms(2), of "KForks i j"] assms(3,4) by (simp add: plain_literals)
  then show ?thesis
    unfolding append_eval_thread_fork_def Let_def map_store_simps
    by (intro runs_toI [OF run_log rep_forks]) (use assms in simp_all)
qed

lemma run_delete_fork:
  assumes "good_codecs C" "ws_rep C t c A" "i \<in> plain_ids" "j \<in> plain_ids"
  shows "\<exists>c'. delete_eval_thread_fork (map_store C aux) t i j f c = (Ok (\<exists>x \<in> set (a_forks A i j). fork_id x = f), c')
    \<and> ws_rep C t c' (a_forks_update (at i (at j (filter (\<lambda>x. fork_id x \<noteq> f)))) A)"
proof -
  have st: "stored_list (c_forks C) (c t (key_str (KForks i j))) (a_forks A i j)"
    using ws_repD [OF assms(2), of "KForks i j"] assms(3,4) by (simp add: plain_literals)
  let ?kept = "filter (\<lambda>x. fork_id x \<noteq> f) (a_forks A i j)"
  have len: "length ?kept = length (a_forks A i j) \<longleftrightarrow> \<not> (\<exists>x \<in> set (a_forks A i j). fork_id x = f)"
    by (metis (mono_tags, lifting) filter_True length_filter_less nat_neq_iff)
  show ?thesis
  proof (cases "\<exists>x \<in> set (a_forks A i j). fork_id x = f")
    case True
    let ?c' = "map_put t (key_str (KForks i j)) (Some (encode (c_forks C) ?kept)) c"
    have "delete_eval_thread_fork (map_store C aux) t i j f c = (Ok True, ?c')"
      using True len st assms(1) by (simp add: delete_eval_thread_fork_def Let_def and_then_def run_get_list run_put_entity run_prog_ok)
    moreover have "ws_rep C t ?c' (a_forks_update (at i (at j (filter (\<lambda>x. fork_id x \<noteq> f)))) A)"
      by (rule rep_forks) (use assms in simp_all)
    ultimately show ?thesis using True by auto
  next
    case False
    then have "?kept = a_forks A i j" by (simp add: filter_id_conv)
    then have same: "a_forks_update (at i (at j (filter (\<lambda>x. fork_id x \<noteq> f)))) A = A" by (simp add: at_def fun_upd_idem)
    have "delete_eval_thread_fork (map_store C aux) t i j f c = (Ok False, c)"
      using False len st by (simp add: delete_eval_thread_fork_def Let_def and_then_def run_get_list run_prog_ok)
    then show ?thesis unfolding same using False assms(2) by simp
  qed
qed

lemma run_register_file:
  assumes "good_codecs C" "ws_rep C t c A" "i \<in> plain_ids" "f \<in> plain_ids"
  shows "runs_to C t (run_ws_cmd (map_store C aux) t (RegisterFile f n i now)) c (apply_ws_cmd (RegisterFile f n i now) A)"
proof -
  have st: "stored_list (c_files C) (c t (key_str (KFiles i))) (a_files A i)"
    using ws_repD [OF assms(2), of "KFiles i"] assms(3) by (simp add: plain_literals)
  let ?g = "\<lambda>es. filter (\<lambda>e. tf_file_id e \<noteq> f) es @ [\<lparr>tf_file_id = f, tf_filename = n, tf_thread_id = i, tf_created_at = now\<rparr>]"
  have "run_ws_cmd (map_store C aux) t (RegisterFile f n i now) c =
      (Ok (), map_put t (key_str (KFiles i)) (Some (encode (c_files C) (?g (a_files A i)))) c)"
    using st assms(1)
    by (simp add: register_thread_file_at_def load_thread_file_index_def save_thread_file_index_def key_str_simps
        Let_def and_then_def run_get_list run_put_entity run_prog_ok)
  moreover have "ws_rep C t (map_put t (key_str (KFiles i)) (Some (encode (c_files C) (?g (a_files A i)))) c) (a_files_update (at i ?g) A)"
    by (rule rep_files) (use assms in \<open>auto simp: ws_rep_def ids_ok_def\<close>)
  ultimately show ?thesis by (simp add: runs_to_def)
qed

lemma run_put_file:
  assumes "good_codecs C" "ws_rep C t c A" "i \<in> plain_ids"
  shows "runs_to C t (put_stored_file map_kv (c_file C) t i v) c (a_file_update (\<lambda>m. m(i \<mapsto> v)) A)"
  unfolding put_stored_file_def key_str_simps
  by (rule runs_toI [OF run_put_entity rep_file]) (use assms in simp_all)

lemma run_update_one_status:
  assumes "good_codecs C" "ws_rep C t c A" "i \<in> plain_ids"
  shows "\<exists>b c'. update_one_status (map_store C aux) t st (i, now) c = (Ok b, c')
    \<and> ws_rep C t c' (a_cases_update (im_change i (\<lambda>tc. tc\<lparr>tc_status := st, tc_updated_at := now\<rparr>)) A)"
proof (cases "im_map (a_cases A) i")
  case None
  then have "im_change i (\<lambda>tc. tc\<lparr>tc_status := st, tc_updated_at := now\<rparr>) (a_cases A) = a_cases A"
    by (simp add: im_change_def im_only_def fun_upd_idem)
  then have same: "a_cases_update (im_change i (\<lambda>tc. tc\<lparr>tc_status := st, tc_updated_at := now\<rparr>)) A = A" by simp
  show ?thesis
    unfolding same using assms None cases.get_run [OF assms(2,3), of kv_err serde_err]
    by (auto simp: update_one_status_def get_test_case_def and_then_def run_prog_ok)
next
  case (Some tc)
  let ?v = "tc\<lparr>tc_status := st, tc_updated_at := now\<rparr>"
  let ?c' = "map_put t (key_str (KCase i)) (Some (encode (c_case C) ?v)) c"
  have upd: "a_cases_update (im_change i (\<lambda>tc. tc\<lparr>tc_status := st, tc_updated_at := now\<rparr>)) A =
      a_cases_update (\<lambda>a. a\<lparr>im_map := (im_map a)(i := Some ?v)\<rparr>) A"
    using Some by (simp add: im_change_def im_only_def)
  have "ws_rep C t ?c' (a_cases_update (\<lambda>a. a\<lparr>im_map := (im_map a)(i := Some ?v)\<rparr>) A)"
    by (rule cases.only_rep) (use assms in simp_all)
  moreover have "update_one_status (map_store C aux) t st (i, now) c = (Ok True, ?c')"
    using Some assms(1) cases.get_run [OF assms(2,3), of kv_err serde_err]
    by (simp add: update_one_status_def get_test_case_def and_then_def run_put_entity run_prog_ok)
  ultimately show ?thesis unfolding upd by blast
qed

lemma run_update_statuses:
  assumes "good_codecs C" "ws_rep C t c A" "fst ` set is \<subseteq> plain_ids"
  shows "\<exists>bs c'. for_each (update_one_status (map_store C aux) t st) is c = (Ok bs, c') \<and> ws_rep C t c' (apply_ws_cmd (UpdateStatuses is st) A)"
  using assms(2,3)
proof (induction "is" arbitrary: c A)
  case Nil
  then show ?case by (cases A) (simp add: run_prog_ok)
next
  case (Cons p "is")
  obtain i now where p: "p = (i, now)" by fastforce
  let ?A1 = "a_cases_update (im_change i (\<lambda>tc. tc\<lparr>tc_status := st, tc_updated_at := now\<rparr>)) A"
  obtain b c1 where c1: "update_one_status (map_store C aux) t st (i, now) c = (Ok b, c1)" "ws_rep C t c1 ?A1"
    using run_update_one_status [OF assms(1) Cons.prems(1), of i aux st now] Cons.prems(2) p by auto
  obtain bs c2 where c2: "for_each (update_one_status (map_store C aux) t st) is c1 = (Ok bs, c2)"
    "ws_rep C t c2 (apply_ws_cmd (UpdateStatuses is st) ?A1)"
    using Cons.IH [OF c1(2)] Cons.prems(2) by auto
  then show ?case using c1 p by (auto simp: and_then_def run_prog_ok comp_def)
qed

lemma run_update_run_status:
  assumes "good_codecs C" "ws_rep C t c A" "i \<in> plain_ids"
  shows "runs_to C t (update_eval_status (map_store C aux) t i now st) c
    (a_runs_update (im_change i (\<lambda>r. r\<lparr>er_status := st, er_updated_at := now\<rparr>)) A)"
proof (cases "im_map (a_runs A) i")
  case None
  then have "im_change i (\<lambda>r. r\<lparr>er_status := st, er_updated_at := now\<rparr>) (a_runs A) = a_runs A"
    by (simp add: im_change_def im_only_def fun_upd_idem)
  then have same: "a_runs_update (im_change i (\<lambda>r. r\<lparr>er_status := st, er_updated_at := now\<rparr>)) A = A" by simp
  show ?thesis
    unfolding same runs_to_def using assms None runs.get_run [OF assms(2,3), of kv_err serde_err]
    by (simp add: update_eval_status_def and_then_def run_prog_ok)
next
  case (Some r)
  let ?v = "r\<lparr>er_status := st, er_updated_at := now\<rparr>"
  let ?c' = "map_put t (key_str (KRun i)) (Some (encode (c_run C) ?v)) c"
  have upd: "a_runs_update (im_change i (\<lambda>r. r\<lparr>er_status := st, er_updated_at := now\<rparr>)) A =
      a_runs_update (\<lambda>a. a\<lparr>im_map := (im_map a)(i := Some ?v)\<rparr>) A"
    using Some by (simp add: im_change_def im_only_def)
  have "ws_rep C t ?c' (a_runs_update (\<lambda>a. a\<lparr>im_map := (im_map a)(i := Some ?v)\<rparr>) A)"
    by (rule runs.only_rep) (use assms in simp_all)
  moreover have "update_eval_status (map_store C aux) t i now st c = (Ok (), ?c')"
    using Some assms(1) runs.get_run [OF assms(2,3), of kv_err serde_err]
    by (simp add: update_eval_status_def and_then_def run_put_entity run_prog_ok)
  ultimately show ?thesis unfolding upd by (intro runs_toI)
qed

lemma im_remove_only: "im_remove {i} (im_only i None a) = im_remove {i} a"
  by (simp add: im_remove_def im_only_def fun_eq_iff)

lemma run_delete_run:
  assumes "good_codecs C" "ws_rep C t c A" "i \<in> plain_ids"
  shows "runs_to C t (delete_eval_run (map_store C aux) t i) c (apply_ws_cmd (DeleteRun i) A)"
proof -
  let ?A1 = "a_runs_update (im_only i None) A"
  let ?A2 = "a_results_update (at i (\<lambda>_. [])) ?A1"
  have 1: "runs_to C t (ws_delete map_kv t (key_str (KRun i))) c ?A1"
    using runs.only_rep [OF assms(2,3), of None None] by (simp add: runs_to_def run_ws_delete im_only_def [abs_def])
  have 2: "runs_to C t (ws_delete map_kv t (key_str (KResults i))) c' ?A2" if "ws_rep C t c' ?A1" for c'
    by (rule runs_toI [OF run_ws_delete rep_results]) (use that assms(3) in simp_all)
  have 3: "runs_to C t (index_retain kv_err serde_err map_kv (c_index C) t (key_str KRunsIndex) (\<lambda>j. j \<noteq> i)) c' (a_runs_update (im_remove {i}) ?A2)"
    if "ws_rep C t c' ?A2" for c'
    unfolding runs_to_def by (rule runs.retain_run) (use assms(1) that in \<open>simp_all add: im_only_def\<close>)
  have "a_runs_update (im_remove {i}) ?A2 = apply_ws_cmd (DeleteRun i) A"
    by (simp add: im_remove_only comp_def)
  then show ?thesis
    unfolding delete_eval_run_def map_store_simps
    using runs_to_then [OF 1 runs_to_then [OF 2 3]] by simp
qed

lemma rep_drop_keys:
  assumes "ws_rep C t c A" "\<And>k. valid_key k \<Longrightarrow> key_str k \<notin> K"
  shows "ws_rep C t (\<lambda>t' k. if t' = t \<and> k \<in> K then None else c t' k) A"
  using assms by (auto simp: ws_rep_def)

lemma rep_drop_files:
  assumes "ws_rep C t c A" "X \<subseteq> plain_ids"
  shows "ws_rep C t (\<lambda>t' k. if t' = t \<and> k \<in> (\<lambda>i. key_str (KFile i)) ` X then None else c t' k)
    (a_file_update (\<lambda>m f. if f \<in> X then None else m f) A)"
  unfolding ws_rep_def
proof (intro conjI allI impI)
  show "ids_ok (a_file_update (\<lambda>m f. if f \<in> X then None else m f) A)" using assms(1) by (simp add: ws_rep_def ids_ok_def)
  fix k assume v: "valid_key k"
  have vX: "valid_key (KFile i)" if "i \<in> X" for i using that assms(2) by (auto simp: plain_literals)
  have key: "key_str k \<in> (\<lambda>i. key_str (KFile i)) ` X \<longleftrightarrow> (\<exists>i \<in> X. k = KFile i)" using v vX by (auto simp: key_str_inj)
  show "holds C (a_file_update (\<lambda>m f. if f \<in> X then None else m f) A) k
      (if t = t \<and> key_str k \<in> (\<lambda>i. key_str (KFile i)) ` X then None else c t (key_str k))"
    unfolding key using ws_repD [OF assms(1) v] by (cases k) auto
qed

lemma run_delete_thread_files:
  assumes "good_codecs C" "ws_rep C t c A" "i \<in> plain_ids"
  shows "runs_to C t (delete_thread_files map_kv (c_files C) t i) c (drop_files i A)"
proof -
  let ?es = "a_files A i" and ?X = "tf_file_id ` set (a_files A i)"
  let ?c1 = "\<lambda>t' k. if t' = t \<and> k \<in> (\<lambda>i. key_str (KFile i)) ` ?X then None else c t' k"
  have st: "stored_list (c_files C) (c t (key_str (KFiles i))) ?es"
    using ws_repD [OF assms(2), of "KFiles i"] assms(3) by (simp add: plain_literals)
  have X: "?X \<subseteq> plain_ids" using assms(2) by (auto simp: ws_rep_def ids_ok_def)
  have "delete_thread_files map_kv (c_files C) t i c = (Ok (), map_put t (key_str (KFiles i)) None ?c1)"
    using st
    by (simp add: delete_thread_files_def load_thread_file_index_def key_str_simps and_then_def run_get_list
        run_ignored_deletes run_ignored_delete image_image)
  moreover have "ws_rep C t (map_put t (key_str (KFiles i)) None ?c1)
      (a_files_update (at i (\<lambda>_. [])) (a_file_update (\<lambda>m f. if f \<in> ?X then None else m f) A))"
    by (rule rep_files [OF rep_drop_files [OF assms(2) X]]) (use assms(3) in simp_all)
  moreover have "a_files_update (at i (\<lambda>_. [])) (a_file_update (\<lambda>m f. if f \<in> ?X then None else m f) A) = drop_files i A"
    by (simp add: drop_files_def at_def)
  ultimately show ?thesis by (simp add: runs_to_def)
qed

lemma run_delete_aux:
  assumes "ws_rep C t c A" "i \<in> plain_ids" "aux_ok aux"
  shows "\<exists>us c'. for_each (\<lambda>key. ignore_result (\<lambda>s. kv_delete map_kv s t key)) (aux i) c = (Ok us :: (WorkspaceError, unit list) result, c')
    \<and> ws_rep C t c' A"
proof -
  have "valid_key k \<Longrightarrow> key_str k \<notin> set (aux i)" for k using assms(2,3) unfolding aux_ok_def by blast
  then have "ws_rep C t (\<lambda>t' k. if t' = t \<and> k \<in> set (aux i) then None else c t' k) A" by (intro rep_drop_keys [OF assms(1)])
  then show ?thesis by (auto simp: run_ignored_deletes [of t "\<lambda>k. k"])
qed

lemma run_delete_thread:
  assumes "good_codecs C" "ws_rep C t c A" "i \<in> plain_ids" "aux_ok aux"
  shows "runs_to C t (delete_thread (map_store C aux) t i) c (apply_ws_cmd (DeleteThread i) A)"
proof -
  let ?A1 = "a_threads_update (im_only i None) A"
  let ?A2 = "a_messages_update (at i (\<lambda>_. [])) ?A1"
  let ?retain = "index_retain kv_err serde_err map_kv (c_index C) t (key_str KThreadsIndex) (\<lambda>j. j \<noteq> i)"
  have 1: "runs_to C t (ws_delete map_kv t (key_str (KThread i))) c ?A1"
    using threads.only_rep [OF assms(2,3), of None None] by (simp add: runs_to_def run_ws_delete im_only_def [abs_def])
  have 2: "runs_to C t (ws_delete map_kv t (key_str (KMessages i))) c' ?A2" if "ws_rep C t c' ?A1" for c'
    by (rule runs_toI [OF run_ws_delete rep_messages]) (use that assms(3) in simp_all)
  have 3: "runs_to C t (delete_thread_files map_kv (c_files C) t i) c' (drop_files i ?A2)" if "ws_rep C t c' ?A2" for c'
    by (rule run_delete_thread_files [OF assms(1) that assms(3)])
  have 4: "runs_to C t ?retain c' (a_threads_update (im_remove {i}) (drop_files i ?A2))" if "ws_rep C t c' (drop_files i ?A2)" for c'
    unfolding runs_to_def by (rule threads.retain_run) (use assms(1) that in \<open>simp_all add: drop_files_def im_only_def\<close>)
  have 5: "runs_to C t (and_then (for_each (\<lambda>key. ignore_result (\<lambda>s. kv_delete map_kv s t key)) (aux i)) (\<lambda>_. ?retain)) c'
      (a_threads_update (im_remove {i}) (drop_files i ?A2))" if rep: "ws_rep C t c' (drop_files i ?A2)" for c'
  proof -
    obtain us c2 where c2: "for_each (\<lambda>key. ignore_result (\<lambda>s. kv_delete map_kv s t key)) (aux i) c' = (Ok us :: (WorkspaceError, unit list) result, c2)"
      "ws_rep C t c2 (drop_files i ?A2)" using run_delete_aux [OF rep assms(3,4)] by blast
    then show ?thesis using 4 [OF c2(2)] by (simp add: runs_to_def and_then_def)
  qed
  have "a_threads_update (im_remove {i}) (drop_files i ?A2) = apply_ws_cmd (DeleteThread i) A"
    by (simp add: drop_files_def im_remove_only comp_def cong: if_cong)
  then show ?thesis
    unfolding delete_thread_def map_store_simps
    using runs_to_then [OF 1 runs_to_then [OF 2 runs_to_then [OF 3 5]]] by simp
qed

lemma im_only_fun: "im_only i v = (\<lambda>a. a\<lparr>im_map := (im_map a)(i := v)\<rparr>)"
  by (simp add: im_only_def fun_eq_iff)

lemma run_put_only:
  assumes "good_codecs C" "ws_rep C t c A"
  shows "test_case_str (tc_id tc) \<in> plain_ids \<Longrightarrow> runs_to C t (update_test_case (map_store C aux) t tc) c (apply_ws_cmd (UpdateCase tc) A)"
    "workspace_str (ws_id v) \<in> plain_ids \<Longrightarrow> runs_to C t (store_update_workspace (map_store C aux) t v) c (apply_ws_cmd (UpdateWorkspace v) A)"
  unfolding update_test_case_def store_update_workspace_def map_store_simps apply_ws_cmd.simps im_only_fun
  by (rule runs_toI [OF run_put_entity cases.only_rep] runs_toI [OF run_put_entity spaces.only_rep]; use assms in simp)+

lemma run_upserts:
  assumes "good_codecs C" "ws_rep C t c A"
  shows "th_id th \<in> plain_ids \<Longrightarrow> runs_to C t (upsert_thread (map_store C aux) t th) c (a_threads_update (im_put (th_id th) th) A)"
    "test_case_str (tc_id tc) \<in> plain_ids \<Longrightarrow>
      runs_to C t (insert_test_case (map_store C aux) t tc) c (a_cases_update (im_put (test_case_str (tc_id tc)) tc) A)"
    "eval_run_str (er_id r) \<in> plain_ids \<Longrightarrow>
      runs_to C t (insert_eval_run (map_store C aux) t r) c (a_runs_update (im_put (eval_run_str (er_id r)) r) A)"
    "ts_id ts \<in> set_ids \<Longrightarrow> runs_to C t (upsert_eval_test_case_set (map_store C aux) t ts) c (a_sets_update (im_put (ts_id ts) ts) A)"
    "ds_id ds \<in> plain_ids \<Longrightarrow> runs_to C t (upsert_data_source (map_store C aux) t ds) c (a_sources_update (im_put (ds_id ds) ds) A)"
    "workspace_str (ws_id v) \<in> plain_ids \<Longrightarrow>
      runs_to C t (store_create_workspace (map_store C aux) t v) c (a_workspaces_update (im_put (workspace_str (ws_id v)) v) A)"
  unfolding upsert_thread_def insert_test_case_def insert_eval_run_def upsert_eval_test_case_set_def upsert_data_source_def
    store_create_workspace_def Let_def map_store_simps runs_to_def
  by (rule threads.upsert_run [OF assms] cases.upsert_run [OF assms] runs.upsert_run [OF assms] sets.upsert_run [OF assms]
      sources.upsert_run [OF assms] spaces.upsert_run [OF assms]; assumption)+

lemma run_deletes:
  assumes "good_codecs C" "ws_rep C t c A"
  shows "i \<in> plain_ids \<Longrightarrow> runs_to C t (delete_test_case (map_store C aux) t i) c (a_cases_update (im_remove {i}) A)"
    "set is \<subseteq> plain_ids \<Longrightarrow>
      runs_to C t (and_then (batch_delete_test_cases (map_store C aux) t is) (\<lambda>_. prog_ok ())) c (a_cases_update (im_remove (set is)) A)"
    "i \<in> set_ids \<Longrightarrow> runs_to C t (delete_eval_test_case_set (map_store C aux) t i) c (a_sets_update (im_remove {i}) A)"
    "i \<in> plain_ids \<Longrightarrow> runs_to C t (delete_data_source (map_store C aux) t i) c (a_sources_update (im_remove {i}) A)"
    "i \<in> plain_ids \<Longrightarrow> runs_to C t (store_delete_workspace (map_store C aux) t i) c (a_workspaces_update (im_remove {i}) A)"
  unfolding delete_test_case_def batch_delete_test_cases_def delete_eval_test_case_set_def delete_data_source_def
    store_delete_workspace_def map_store_simps
  by (rule runs_to_unit, rule cases.delete_run [OF assms] cases.batch_delete_run [OF assms] sets.delete_run [OF assms]
      sources.delete_run [OF assms] spaces.delete_run [OF assms], assumption)+

lemma run_ws_cmd_map:
  assumes "good_codecs C" "ws_rep C t c A" "cmd_ok cmd" "aux_ok aux"
  shows "runs_to C t (run_ws_cmd (map_store C aux) t cmd) c (apply_ws_cmd cmd A)"
proof (cases cmd)
  case (UpdateStatuses "is" st)
  then have "fst ` set is \<subseteq> plain_ids" using assms(3) by simp
  from run_update_statuses [OF assms(1,2) this, of aux st]
  show ?thesis unfolding UpdateStatuses run_ws_cmd.simps batch_update_status_def
    by (intro runs_to_unit) (auto simp: and_then_def run_prog_ok)
next
  case (RegisterFile f n i now)
  then show ?thesis using run_register_file [OF assms(1,2), of i f aux n now] assms(3) by simp
next
  case (DeleteFork i tc f)
  then show ?thesis using run_delete_fork [OF assms(1,2), of i tc aux f] assms(3) by (auto intro: runs_to_unit)
next
  case (DeleteThread i)
  then show ?thesis using run_delete_thread [OF assms(1,2)] assms(3,4) by simp
next
  case (DeleteRun i)
  then show ?thesis using run_delete_run [OF assms(1,2)] assms(3) by simp
qed (use assms(3) run_upserts [OF assms(1,2)] run_deletes [OF assms(1,2)] run_put_only [OF assms(1,2)]
    run_insert_message [OF assms(1,2)] run_insert_result [OF assms(1,2)] run_append_fork [OF assms(1,2)]
    run_put_file [OF assms(1,2)] run_update_run_status [OF assms(1,2)] in simp_all)

section \<open>Every read\<close>

definition recent :: "nat \<Rightarrow> 'a list \<Rightarrow> 'a list" where
  "recent n xs = drop (length xs - n) xs"

lemma recent_laws:
  "suffix (recent n xs) xs" "length (recent n xs) = min n (length xs)" "length xs \<le> n \<Longrightarrow> recent n xs = xs"
  by (simp_all add: recent_def suffix_drop min_def)

text \<open>The answers of the store are the ones of the abstract state.\<close>

definition ws_answers ::
  "('s, 'j, 'st, 'r, 'x, 'dt) KVWorkspaceStore \<Rightarrow> string \<Rightarrow> 's \<Rightarrow> ('j, 'st, 'r, 'x, 'dt) ws_abs \<Rightarrow> bool" where
  "ws_answers w t s A \<longleftrightarrow>
     (\<forall>i \<in> plain_ids.
        fst (get_thread w t i s) = Ok (im_map (a_threads A) i)
      \<and> fst (get_all_messages w t i s) = Ok (a_messages A i)
      \<and> (\<forall>limit offset. fst (get_messages w t i limit offset s) = Ok (take limit (drop offset (a_messages A i))))
      \<and> (\<forall>limit. fst (get_recent_messages w t i limit s) = Ok (recent limit (a_messages A i)))
      \<and> fst (list_thread_files (ws_kv w) (c_files (ws_codecs w)) t i s) = Ok (a_files A i)
      \<and> fst (get_stored_file (ws_kv w) (c_file (ws_codecs w)) t i s) = Ok (a_file A i)
      \<and> fst (get_test_case w t i s) = Ok (im_map (a_cases A) i)
      \<and> fst (get_eval_run w t i s) = Ok (map_option (\<lambda>r. r\<lparr>er_results := a_results A i\<rparr>) (im_map (a_runs A) i))
      \<and> fst (get_eval_results w t i s) = Ok (a_results A i)
      \<and> (i \<noteq> ''index'' \<longrightarrow> fst (get_eval_test_case_set w t i s) = Ok (im_map (a_sets A) i))
      \<and> (\<forall>j \<in> plain_ids. fst (list_eval_thread_forks w t i j s) = Ok (a_forks A i j))
      \<and> fst (get_data_source w t i s) = Ok (im_map (a_sources A) i)
      \<and> fst (get_workspace w t i s) = Ok (im_map (a_workspaces A) i))
    \<and> (\<forall>is. set is \<subseteq> plain_ids \<longrightarrow>
          fst (get_all_messages_batch w t is s) = Ok (map (a_messages A) is)
        \<and> fst (get_test_cases_by_id w t is s) = Ok (map (im_map (a_cases A)) is))
    \<and> fst (list_threads w t s) = Ok (im_list (a_threads A))
    \<and> fst (list_test_cases w t s) = Ok (im_list (a_cases A))
    \<and> fst (list_eval_runs w t s) = Ok (im_list (a_runs A))
    \<and> fst (list_eval_test_case_sets w t s) = Ok (im_list (a_sets A))
    \<and> fst (list_data_sources w t s) = Ok (im_list (a_sources A))
    \<and> fst (list_workspaces w t s) = Ok (im_list (a_workspaces A))"

lemma run_get_many: "get_many_json map_kv c t ks = (Ok (\<lambda>k. if k \<in> set ks then c t k else None), c)"
  by (simp add: map_kv_def)

lemma run_batch_lists:
  assumes "\<And>k. k \<in> set ks \<Longrightarrow> stored_list sd (b k) (g k)"
  shows "for_each (\<lambda>k. case b k of Some j \<Rightarrow> prog_result (map_err se (from_value sd j)) | None \<Rightarrow> prog_ok []) ks c = (Ok (map g ks), c)"
  using assms
proof (induction ks)
  case (Cons k ks)
  have "(case b k of Some j \<Rightarrow> prog_result (map_err se (from_value sd j)) | None \<Rightarrow> prog_ok []) c = (Ok (g k), c)"
    using Cons.prems [of k]
    by (cases "b k"; cases "from_value sd (the (b k))")
      (auto simp: stored_list_def readable_def decode_def prog_result_def prog_ok_def)
  then show ?case using Cons by (simp add: and_then_def run_prog_ok)
qed (simp add: run_prog_ok)

lemma run_batch_options:
  assumes "\<And>k. k \<in> set ks \<Longrightarrow> stored sd (b k) (g k)"
  shows "for_each (\<lambda>k. case b k of Some j \<Rightarrow> and_then (prog_result (map_err se (from_value sd j))) (\<lambda>v. prog_ok (Some v)) | None \<Rightarrow> prog_ok None) ks c
    = (Ok (map g ks), c)"
  using assms
proof (induction ks)
  case (Cons k ks)
  have "(case b k of Some j \<Rightarrow> and_then (prog_result (map_err se (from_value sd j))) (\<lambda>v. prog_ok (Some v)) | None \<Rightarrow> prog_ok None) c = (Ok (g k), c)"
    using Cons.prems [of k]
    by (cases "b k"; cases "from_value sd (the (b k))")
      (auto simp: stored_def readable_def decode_def prog_result_def prog_ok_def and_then_def)
  then show ?case using Cons by (simp add: and_then_def run_prog_ok)
qed (simp add: run_prog_ok)

lemma run_log_reads:
  assumes "ws_rep C t c A" "i \<in> plain_ids"
  shows "ws_get_list map_kv (c_messages C) t (key_str (KMessages i)) c = (Ok (a_messages A i), c)"
    "ws_get_list map_kv (c_files C) t (key_str (KFiles i)) c = (Ok (a_files A i), c)"
    "ws_get_list map_kv (c_results C) t (key_str (KResults i)) c = (Ok (a_results A i), c)"
    "j \<in> plain_ids \<Longrightarrow> ws_get_list map_kv (c_forks C) t (key_str (KForks i j)) c = (Ok (a_forks A i j), c)"
    "ws_get map_kv (c_file C) t (key_str (KFile i)) c = (Ok (a_file A i), c)"
  using ws_repD [OF assms(1), of "KMessages i"] ws_repD [OF assms(1), of "KFiles i"] ws_repD [OF assms(1), of "KResults i"]
    ws_repD [OF assms(1), of "KForks i j"] ws_repD [OF assms(1), of "KFile i"] assms(2)
  by (simp_all add: plain_literals run_get_list run_get)

lemma run_batch_reads:
  assumes "ws_rep C t c A" "set is \<subseteq> plain_ids"
  shows "fst (get_all_messages_batch (map_store C aux) t is c) = Ok (map (a_messages A) is)"
    "fst (get_test_cases_by_id (map_store C aux) t is c) = Ok (map (im_map (a_cases A)) is)"
proof -
  have key: "the_inv_into plain_ids (\<lambda>i. key_str (KMessages i)) (key_str (KMessages i)) = i"
    "the_inv_into plain_ids (\<lambda>i. key_str (KCase i)) (key_str (KCase i)) = i" if "i \<in> set is" for i
    using that assms(2) by (auto intro!: the_inv_into_f_f inj_onI simp: key_str_inj plain_literals)
  let ?b = "\<lambda>ks k. if k \<in> set ks then c t k else None"
  let ?m = "map (\<lambda>i. key_str (KMessages i)) is" and ?k = "map (\<lambda>i. key_str (KCase i)) is"
  have m: "stored_list (c_messages C) (?b ?m k) (a_messages A (the_inv_into plain_ids (\<lambda>i. key_str (KMessages i)) k))" if "k \<in> set ?m" for k
    using that assms key ws_repD [OF assms(1), of "KMessages _"] by (auto simp: plain_literals)
  have k: "stored (c_case C) (?b ?k k) (im_map (a_cases A) (the_inv_into plain_ids (\<lambda>i. key_str (KCase i)) k))" if "k \<in> set ?k" for k
    using that assms key ws_repD [OF assms(1), of "KCase _"] by (auto simp: plain_literals)
  show "fst (get_all_messages_batch (map_store C aux) t is c) = Ok (map (a_messages A) is)"
    unfolding get_all_messages_batch_def map_store_simps
    using run_batch_lists [of ?m "c_messages C" "?b ?m" "\<lambda>k. a_messages A (the_inv_into plain_ids (\<lambda>i. key_str (KMessages i)) k)" serde_err c, OF m]
    by (simp add: Let_def map_prog_err_def and_then_def run_get_many key cong: map_cong)
  show "fst (get_test_cases_by_id (map_store C aux) t is c) = Ok (map (im_map (a_cases A)) is)"
    unfolding get_test_cases_by_id_def map_store_simps
    using run_batch_options [of ?k "c_case C" "?b ?k" "\<lambda>k. im_map (a_cases A) (the_inv_into plain_ids (\<lambda>i. key_str (KCase i)) k)" serde_err c, OF k]
    by (simp add: Let_def map_prog_err_def and_then_def run_get_many key cong: map_cong)
qed

lemma ws_answers_map:
  assumes "ws_rep C t c A"
  shows "ws_answers (map_store C aux) t c A"
  unfolding ws_answers_def
proof (intro conjI ballI allI impI)
  fix i limit offset assume i: "i \<in> plain_ids"
  note log_reads = run_log_reads [OF assms i]
  show "fst (get_thread (map_store C aux) t i c) = Ok (im_map (a_threads A) i)"
    by (simp add: get_thread_def threads.get_run [OF assms i])
  show "fst (get_all_messages (map_store C aux) t i c) = Ok (a_messages A i)"
    by (simp add: get_all_messages_def log_reads)
  show "fst (get_messages (map_store C aux) t i limit offset c) = Ok (take limit (drop offset (a_messages A i)))"
    by (simp add: get_messages_def get_all_messages_def log_reads and_then_def run_prog_ok)
  show "fst (get_recent_messages (map_store C aux) t i limit c) = Ok (recent limit (a_messages A i))"
    by (simp add: get_recent_messages_def get_all_messages_def log_reads and_then_def run_prog_ok recent_def)
  show "fst (list_thread_files (ws_kv (map_store C aux)) (c_files (ws_codecs (map_store C aux))) t i c) = Ok (a_files A i)"
    by (simp add: list_thread_files_def load_thread_file_index_def key_str_simps log_reads)
  show "fst (get_stored_file (ws_kv (map_store C aux)) (c_file (ws_codecs (map_store C aux))) t i c) = Ok (a_file A i)"
    by (simp add: get_stored_file_def key_str_simps log_reads)
  show "fst (get_test_case (map_store C aux) t i c) = Ok (im_map (a_cases A) i)"
    by (simp add: get_test_case_def cases.get_run [OF assms i])
  show "fst (get_eval_run (map_store C aux) t i c) = Ok (map_option (\<lambda>r. r\<lparr>er_results := a_results A i\<rparr>) (im_map (a_runs A) i))"
    by (simp add: get_eval_run_def runs.get_run [OF assms i] and_then_def run_prog_ok log_reads split: option.split)
  show "fst (get_eval_results (map_store C aux) t i c) = Ok (a_results A i)"
    by (simp add: get_eval_results_def log_reads)
  show "fst (get_data_source (map_store C aux) t i c) = Ok (im_map (a_sources A) i)"
    by (simp add: get_data_source_def sources.get_run [OF assms i])
  show "fst (get_workspace (map_store C aux) t i c) = Ok (im_map (a_workspaces A) i)"
    by (simp add: get_workspace_def spaces.get_run [OF assms i])
  show "fst (get_eval_test_case_set (map_store C aux) t i c) = Ok (im_map (a_sets A) i)" if "i \<noteq> ''index''"
    using i that by (simp add: get_eval_test_case_set_def sets.get_run [OF assms] set_ids_def)
  show "fst (list_eval_thread_forks (map_store C aux) t i j c) = Ok (a_forks A i j)" if "j \<in> plain_ids" for j
    using that by (simp add: list_eval_thread_forks_def log_reads)
next
  fix "is" assume "set is \<subseteq> plain_ids"
  from run_batch_reads [OF assms this]
  show "fst (get_all_messages_batch (map_store C aux) t is c) = Ok (map (a_messages A) is)"
    "fst (get_test_cases_by_id (map_store C aux) t is c) = Ok (map (im_map (a_cases A)) is)" .
qed (simp_all add: list_threads_def list_test_cases_def list_eval_runs_def list_eval_test_case_sets_def list_data_sources_def
    list_workspaces_def threads.list_run [OF assms] cases.list_run [OF assms] runs.list_run [OF assms] sets.list_run [OF assms]
    sources.list_run [OF assms] spaces.list_run [OF assms])

section \<open>On a lawful store\<close>

lemma store_fields:
  "ws_kv (ws_new_with_thread_aux_keys C kv aux) = kv" "ws_codecs (ws_new_with_thread_aux_keys C kv aux) = C"
  "ws_policy (ws_new_with_thread_aux_keys C kv aux) = thread_aux_keys_policy aux"
  by (simp_all add: ws_new_with_thread_aux_keys_def ws_new_with_policy_def)

lemmas ws_write_defs = upsert_thread_def delete_thread_def insert_message_def register_thread_file_at_def put_stored_file_def
  insert_test_case_def update_test_case_def delete_test_case_def batch_update_status_def update_one_status_def get_test_case_def
  batch_delete_test_cases_def insert_eval_run_def update_eval_status_def delete_eval_run_def insert_eval_result_def
  upsert_eval_test_case_set_def delete_eval_test_case_set_def append_eval_thread_fork_def delete_eval_thread_fork_def
  upsert_data_source_def delete_data_source_def store_create_workspace_def store_update_workspace_def store_delete_workspace_def
  load_thread_file_index_def save_thread_file_index_def delete_thread_files_def ws_delete_def

lemmas ws_read_defs = get_thread_def get_all_messages_def get_messages_def get_recent_messages_def list_thread_files_def
  load_thread_file_index_def get_stored_file_def get_test_case_def get_eval_run_def get_eval_results_def
  get_eval_test_case_set_def list_eval_thread_forks_def get_data_source_def get_workspace_def get_all_messages_batch_def
  get_test_cases_by_id_def list_threads_def list_test_cases_def list_eval_runs_def list_eval_test_case_sets_def
  list_data_sources_def list_workspaces_def

context KV_laws
begin

lemma sim_get_list [sim_intros]:
  "separable t \<Longrightarrow>
   simulates (store_content peek separable) (=) (ws_get_list kv sd t k) (ws_get_list map_kv sd t k)"
  unfolding ws_get_list_def by (rule sim_intros | simp)+

lemma sim_ws_delete [sim_intros]:
  "separable t \<Longrightarrow> simulates (store_content peek separable) (=) (ws_delete kv t k) (ws_delete map_kv t k)"
  unfolding ws_delete_def by (rule sim_intros | simp)+

lemma sim_ignored_delete [sim_intros]:
  "separable t \<Longrightarrow>
   simulates (store_content peek separable) (=) (ignore_result (\<lambda>s. kv_delete kv s t k)) (ignore_result (\<lambda>s. kv_delete map_kv s t k))"
  by (rule simulates_ignore [OF sim_delete])

lemma sim_for_each_eq:
  "(\<And>x. simulates (store_content peek separable) (=) (f x) (f0 x)) \<Longrightarrow>
   simulates (store_content peek separable) (=) (for_each f xs) (for_each f0 xs)"
  using simulates_for_each [of "store_content peek separable" "(=)" f f0 xs] by (simp add: list.rel_eq)

lemma sim_then_eq:
  "simulates (store_content peek separable) (=) m m0 \<Longrightarrow> (\<And>a. simulates (store_content peek separable) B (f a) (f0 a)) \<Longrightarrow>
   simulates (store_content peek separable) B (and_then m f) (and_then m0 f0)"
  by (rule simulates_and_then [where A = "(=)"]) auto

lemma sim_delete_thread_files [sim_intros]:
  assumes "separable t"
  shows "simulates (store_content peek separable) (=) (delete_thread_files kv sd t i) (delete_thread_files map_kv sd t i)"
  unfolding delete_thread_files_def load_thread_file_index_def
  by (rule sim_then_eq sim_get_list sim_for_each_eq sim_ignored_delete assms)+

lemma sim_delete_unit:
  "separable t \<Longrightarrow> simulates (store_content peek separable) (=) (and_then (delete_indexed ke se kv isd t k ik i) (\<lambda>_. prog_ok ()))
     (and_then (delete_indexed ke se map_kv isd t k ik i) (\<lambda>_. prog_ok ()))"
  by (rule simulates_and_then [OF sim_delete_indexed]) (simp_all add: simulates_ok)

lemma sim_ws_cmd:
  assumes "separable t"
  shows "simulates (store_content peek separable) (=) (run_ws_cmd (ws_new_with_thread_aux_keys C kv aux) t cmd) (run_ws_cmd (map_store C aux) t cmd)"
proof (cases cmd)
  case (DeleteThread i)
  show ?thesis unfolding DeleteThread run_ws_cmd.simps delete_thread_def map_store_def store_fields
    by (rule sim_then_eq sim_ws_delete sim_delete_thread_files sim_for_each_eq sim_ignored_delete sim_index_retain assms)+
next
  case (UpdateStatuses xs st)
  show ?thesis unfolding UpdateStatuses run_ws_cmd.simps ws_write_defs map_store_def store_fields Let_def split_def
    by (rule sim_then_eq sim_for_each_eq sim_get_entity sim_put_entity simulates_option simulates_ok refl assms)+
next
  case (DeleteFork i tc f)
  show ?thesis unfolding DeleteFork run_ws_cmd.simps ws_write_defs map_store_def store_fields Let_def
    by (rule sim_then_eq sim_get_list sim_put_entity simulates_if simulates_ok refl assms)+
next
  case (UpdateRunStatus i now st)
  show ?thesis unfolding UpdateRunStatus run_ws_cmd.simps ws_write_defs map_store_def store_fields Let_def
    by (rule sim_then_eq sim_get_entity sim_put_entity simulates_option simulates_ok refl assms)+
next
  case (DeleteCases js)
  show ?thesis unfolding DeleteCases run_ws_cmd.simps ws_write_defs map_store_def store_fields Let_def
    by (rule simulates_and_then sim_batch_delete_indexed simulates_ok refl assms)+
next
  case (DeleteRun i)
  show ?thesis unfolding DeleteRun run_ws_cmd.simps delete_eval_run_def map_store_def store_fields
    by (rule sim_then_eq sim_ws_delete sim_index_retain assms)+
qed (simp_all only: ws_write_defs map_store_def store_fields Let_def run_ws_cmd.simps,
    (rule sim_delete_unit sim_upsert_indexed sim_put_entity sim_then_eq sim_get_list simulates_ok refl assms)+)

lemma sim_reads:
  assumes "separable t" "w = ws_new_with_thread_aux_keys C kv aux" "w0 = map_store C aux"
  shows "simulates (store_content peek separable) (=) (get_thread w t i) (get_thread w0 t i)"
    "simulates (store_content peek separable) (=) (get_all_messages w t i) (get_all_messages w0 t i)"
    "simulates (store_content peek separable) (=) (get_messages w t i n m) (get_messages w0 t i n m)"
    "simulates (store_content peek separable) (=) (get_recent_messages w t i n) (get_recent_messages w0 t i n)"
    "simulates (store_content peek separable) (=) (list_thread_files kv (c_files C) t i) (list_thread_files map_kv (c_files C) t i)"
    "simulates (store_content peek separable) (=) (get_stored_file kv (c_file C) t i) (get_stored_file map_kv (c_file C) t i)"
    "simulates (store_content peek separable) (=) (get_test_case w t i) (get_test_case w0 t i)"
    "simulates (store_content peek separable) (=) (get_eval_run w t i) (get_eval_run w0 t i)"
    "simulates (store_content peek separable) (=) (get_eval_results w t i) (get_eval_results w0 t i)"
    "simulates (store_content peek separable) (=) (get_eval_test_case_set w t i) (get_eval_test_case_set w0 t i)"
    "simulates (store_content peek separable) (=) (list_eval_thread_forks w t i j) (list_eval_thread_forks w0 t i j)"
    "simulates (store_content peek separable) (=) (get_data_source w t i) (get_data_source w0 t i)"
    "simulates (store_content peek separable) (=) (get_workspace w t i) (get_workspace w0 t i)"
    "simulates (store_content peek separable) (=) (get_all_messages_batch w t js) (get_all_messages_batch w0 t js)"
    "simulates (store_content peek separable) (=) (get_test_cases_by_id w t js) (get_test_cases_by_id w0 t js)"
    "simulates (store_content peek separable) (=) (list_threads w t) (list_threads w0 t)"
    "simulates (store_content peek separable) (=) (list_test_cases w t) (list_test_cases w0 t)"
    "simulates (store_content peek separable) (=) (list_eval_runs w t) (list_eval_runs w0 t)"
    "simulates (store_content peek separable) (=) (list_eval_test_case_sets w t) (list_eval_test_case_sets w0 t)"
    "simulates (store_content peek separable) (=) (list_data_sources w t) (list_data_sources w0 t)"
    "simulates (store_content peek separable) (=) (list_workspaces w t) (list_workspaces w0 t)"
  unfolding assms(2,3) map_store_def ws_read_defs store_fields Let_def
  by (rule sim_then_eq sim_get_entity sim_get_list sim_list_indexed sim_for_each_eq simulates_option simulates_if simulates_ok
      simulates_result simulates_map_err sim_get_many rel_sum_refl refl assms(1))+

lemma simulates_fst:
  "simulates (store_content peek separable) (=) m m0 \<Longrightarrow> fst (m s) = fst (m0 (store_content peek separable s))"
  by (simp add: simulates_def sum.rel_eq)

lemmas reads_fst = sim_reads [OF _ refl refl, THEN simulates_fst]

lemma ws_answers_run:
  assumes "separable t" "ws_rep C t (store_content peek separable s) A"
  shows "ws_answers (ws_new_with_thread_aux_keys C kv aux) t s A"
  using ws_answers_map [OF assms(2), of aux]
  unfolding ws_answers_def map_store_simps store_fields reads_fst [OF assms(1)] .

end

section \<open>One tenant only\<close>

definition confined :: "string \<Rightarrow> ('j content, 'e, 'a) prog \<Rightarrow> bool" where
  "confined t m \<longleftrightarrow> (\<forall>c t'. t' \<noteq> t \<longrightarrow> snd (m c) t' = c t')"

named_theorems confined_intros \<open>programs that change one tenant\<close>

lemma confined_base [confined_intros]:
  "confined t (prog_ok a)" "confined t (prog_result r)" "confined t (\<lambda>c. put_json map_kv c t k v ttl)"
  "confined t (\<lambda>c. get_json map_kv c t k)" "confined t (\<lambda>c. kv_delete map_kv c t k)"
  by (simp_all add: confined_def prog_ok_def prog_result_def map_kv_def map_put_def)

lemma confined_then [confined_intros]:
  "confined t m \<Longrightarrow> (\<And>a. confined t (f a)) \<Longrightarrow> confined t (and_then m f)"
  unfolding confined_def and_then_def by (auto split: prod.split sum.split) (metis snd_conv)+

lemma confined_wrap [confined_intros]:
  "confined t m \<Longrightarrow> confined t (map_prog_err g m)" "confined t n \<Longrightarrow> confined t (ignore_result n)"
  by (auto simp: confined_def map_prog_err_def ignore_result_def split: prod.split) (metis snd_conv)

lemma confined_for_each [confined_intros]: "(\<And>x. confined t (f x)) \<Longrightarrow> confined t (for_each f xs)"
  by (induction xs) (auto intro: confined_intros)

lemma confined_branches [confined_intros]:
  "(b \<Longrightarrow> confined t m) \<Longrightarrow> (\<not> b \<Longrightarrow> confined t n) \<Longrightarrow> confined t (if b then m else n)"
  "confined t p \<Longrightarrow> (\<And>y. confined t (f y)) \<Longrightarrow> confined t (case x of None \<Rightarrow> p | Some y \<Rightarrow> f y)"
  by (auto split: option.split)

lemma confined_ws_cmd: "confined t (run_ws_cmd (map_store C aux) t cmd)"
  by (cases cmd; simp only: run_ws_cmd.simps ws_write_defs map_store_def store_fields Let_def split_def upsert_indexed_def
      index_insert_def index_retain_def put_entity_def get_entity_def load_index_def save_index_def delete_indexed_def
      batch_delete_indexed_def delete_key_def ws_get_list_def; (rule confined_intros)+)

section \<open>The store refines the abstract state\<close>

text \<open>
  Listings have no duplicates and only stored artifacts. The two kinds with an update that leaves the
  index alone may hold an unlisted artifact; the others list everything they hold.
\<close>

definition im_listed :: "'v indexed \<Rightarrow> bool" where
  "im_listed a \<longleftrightarrow> distinct (im_ids a) \<and> set (im_ids a) \<subseteq> dom (im_map a)"

definition ws_consistent :: "('j, 'st, 'r, 'x, 'dt) ws_abs \<Rightarrow> bool" where
  "ws_consistent A \<longleftrightarrow> im_consistent (a_threads A) \<and> im_consistent (a_runs A) \<and> im_consistent (a_sets A)
     \<and> im_consistent (a_sources A) \<and> im_listed (a_cases A) \<and> im_listed (a_workspaces A)"

lemma im_listed_ops [inv_intros]:
  "im_listed a \<Longrightarrow> im_listed (im_put i v a)" "im_listed a \<Longrightarrow> im_listed (im_remove X a)"
  "im_listed a \<Longrightarrow> im_listed (im_only i (Some v) a)" "im_listed a \<Longrightarrow> im_listed (im_change i f a)"
  by (auto simp: im_listed_def im_put_def im_remove_def im_only_def im_change_def split: if_splits)

lemma im_consistent_change [inv_intros]: "im_consistent a \<Longrightarrow> im_consistent (im_change i f a)"
  by (auto simp: im_consistent_def im_change_def im_only_def split: if_splits)

lemma fold_im_change_listed [inv_intros]: "im_listed a \<Longrightarrow> im_listed (fold (\<lambda>(i, now). im_change i (f now)) is a)"
  by (induction "is" arbitrary: a) (auto intro: inv_intros)

lemma ws_consistent_empty: "ws_consistent ws_empty"
  by (simp add: ws_consistent_def ws_empty_def im_listed_def im_consistent_empty) (simp add: im_empty_def)

lemma ws_consistent_cmd: "ws_consistent A \<Longrightarrow> ws_consistent (apply_ws_cmd cmd A)"
  by (cases cmd)
    (simp_all add: ws_consistent_def drop_files_def inv_intros fold_im_change_listed [of _ "\<lambda>now tc. tc\<lparr>tc_status := _, tc_updated_at := now\<rparr>"])

lemma ws_consistent_cmds: "ws_consistent A \<Longrightarrow> ws_consistent (fold apply_ws_cmd cmds A)"
  by (induction cmds arbitrary: A) (simp_all add: ws_consistent_cmd)

lemma run_ws_cmds_map:
  assumes "good_codecs C" "aux_ok aux" "\<forall>cmd \<in> set cmds. cmd_ok cmd" "ws_rep C t c A"
  shows "\<exists>rs c'. for_each (run_ws_cmd (map_store C aux) t) cmds c = (Ok rs, c') \<and> ws_rep C t c' (fold apply_ws_cmd cmds A)"
  using assms(3,4)
proof (induction cmds arbitrary: c A)
  case (Cons cmd cmds)
  obtain c1 where c1: "run_ws_cmd (map_store C aux) t cmd c = (Ok (), c1)" "ws_rep C t c1 (apply_ws_cmd cmd A)"
    using run_ws_cmd_map [OF assms(1) Cons.prems(2) _ assms(2), of cmd] Cons.prems(1) by (auto simp: runs_to_def)
  then show ?case using Cons.IH [OF _ c1(2)] Cons.prems(1) by (auto simp: and_then_def run_prog_ok)
qed (simp add: run_prog_ok)

context KV_laws
begin

lemma ws_cmds_run:
  assumes "separable t" "good_codecs C" "aux_ok aux" "\<forall>cmd \<in> set cmds. cmd_ok cmd" "\<And>k. peek s t k = None"
  obtains rs s' where "for_each (run_ws_cmd (ws_new_with_thread_aux_keys C kv aux) t) cmds s = (Ok rs, s')"
    "ws_rep C t (store_content peek separable s') (fold apply_ws_cmd cmds ws_empty)"
    "\<And>t' k. separable t' \<Longrightarrow> t' \<noteq> t \<Longrightarrow> peek s' t' k = peek s t' k"
proof -
  let ?w = "ws_new_with_thread_aux_keys C kv aux"
  let ?c = "store_content peek separable s"
  have "ws_rep C t ?c ws_empty" using assms(5) by (intro ws_rep_empty) (simp add: store_content_def)
  from run_ws_cmds_map [OF assms(2-4) this]
  obtain rs c where c: "for_each (run_ws_cmd (map_store C aux) t) cmds ?c = (Ok rs, c)"
    "ws_rep C t c (fold apply_ws_cmd cmds ws_empty)" by blast
  have sim: "simulates (store_content peek separable) (=) (for_each (run_ws_cmd ?w t) cmds) (for_each (run_ws_cmd (map_store C aux) t) cmds)"
    by (intro sim_for_each_eq sim_ws_cmd assms(1))
  obtain s' where s': "for_each (run_ws_cmd ?w t) cmds s = (Ok rs, s')" "store_content peek separable s' = c"
    by (rule simulates_run [OF sim c(1)])
  have "confined t (for_each (run_ws_cmd (map_store C aux) t) cmds)" by (intro confined_for_each confined_ws_cmd)
  then have "c t' = ?c t'" if "t' \<noteq> t" for t' using that c(1) unfolding confined_def by (metis snd_conv)
  then have "peek s' t' k = peek s t' k" if "separable t'" "t' \<noteq> t" for t' k
    using that s'(2) by (metis store_content_def)
  then show thesis using that s' c(2) by blast
qed

end

text \<open>
  C11. The workspace store refines its abstract state, on every lawful key-value store, within the ids that its
  keys can tell apart: any sequence of its write methods on an empty tenant, whose ids have no colon and whose
  test case sets are not called \<open>index\<close>, succeeds; afterwards every read method answers, for ids without a colon
  and sets not called \<open>index\<close>, from the abstract state the sequence leads to; listings have no duplicates and
  nothing unstored; and no other tenant changes. The codecs encode every value and read it back, the
  auxiliary keys configured for a thread are none of the store's own keys, and the tenants are ones whose keys the
  key-value store keeps apart, for the in-memory store those without a colon.
\<close>

theorem workspace_store_refines:
  assumes "KV_laws kv peek separable" "separable t" "good_codecs C" "aux_ok aux" "\<forall>cmd \<in> set cmds. cmd_ok cmd"
    "\<And>k. peek s t k = None"
  shows "\<exists>rs s'. for_each (run_ws_cmd (ws_new_with_thread_aux_keys C kv aux) t) cmds s = (Ok rs, s')
    \<and> ws_answers (ws_new_with_thread_aux_keys C kv aux) t s' (fold apply_ws_cmd cmds ws_empty)
    \<and> ws_consistent (fold apply_ws_cmd cmds ws_empty)
    \<and> (\<forall>t' k. separable t' \<longrightarrow> t' \<noteq> t \<longrightarrow> peek s' t' k = peek s t' k)"
proof -
  obtain rs s' where s': "for_each (run_ws_cmd (ws_new_with_thread_aux_keys C kv aux) t) cmds s = (Ok rs, s')"
    "ws_rep C t (store_content peek separable s') (fold apply_ws_cmd cmds ws_empty)"
    "\<And>t' k. separable t' \<Longrightarrow> t' \<noteq> t \<Longrightarrow> peek s' t' k = peek s t' k"
    using KV_laws.ws_cmds_run [OF assms] by blast
  then show ?thesis
    using KV_laws.ws_answers_run [OF assms(1,2) s'(2)] ws_consistent_cmds [OF ws_consistent_empty] by blast
qed

text \<open>Codecs into numbers, for the witness.\<close>

instance DatabaseConfig :: countable
  by countable_datatype

instance TestCaseStatus :: countable
  by countable_datatype

definition nat_serde :: "('v \<Rightarrow> 'k::countable) \<Rightarrow> ('k \<Rightarrow> 'v) \<Rightarrow> ('v, nat) serde" where
  "nat_serde f g = \<lparr>to_value = (\<lambda>v. Ok (to_nat (f v))), from_value = (\<lambda>n. Ok (g (from_nat n)))\<rparr>"

lemma good_nat_serde: "(\<And>v. g (f v) = v) \<Longrightarrow> good_serde (nat_serde f g)"
  by (auto simp: good_serde_def nat_serde_def serde_total_def serde_roundtrip_def)

lemma map_inverse: "(\<And>v. g (f v) = v) \<Longrightarrow> map g (map f xs) = xs"
  by (simp add: comp_def)

definition nat_codecs :: "(nat, nat, nat, nat, nat) ws_codecs" where
  "nat_codecs = \<lparr>
     c_index = nat_serde (\<lambda>x. x) (\<lambda>x. x),
     c_thread = nat_serde (\<lambda>v. (th_id v, th_title v, th_resource_id v, th_source_id v, th_created_at v, th_updated_at v))
       (\<lambda>(a, b, c, d, e, f). \<lparr>th_id = a, th_title = b, th_resource_id = c, th_source_id = d, th_created_at = e, th_updated_at = f\<rparr>),
     c_messages = nat_serde
       (map (\<lambda>v. (msg_id v, msg_role v, msg_content v, msg_created_at v,
          map_option (map (\<lambda>i. (ti_call_id i, ti_tool_name i, ti_arguments i, ti_result i))) (msg_tool_interactions v), msg_parts v)))
       (map (\<lambda>(a, b, c, d, e, f). \<lparr>msg_id = a, msg_role = b, msg_content = c, msg_created_at = d,
          msg_tool_interactions = map_option (map (\<lambda>(a, b, c, d). \<lparr>ti_call_id = a, ti_tool_name = b, ti_arguments = c, ti_result = d\<rparr>)) e,
          msg_parts = f\<rparr>)),
     c_files = nat_serde (map (\<lambda>v. (tf_file_id v, tf_filename v, tf_thread_id v, tf_created_at v)))
       (map (\<lambda>(a, b, c, d). \<lparr>tf_file_id = a, tf_filename = b, tf_thread_id = c, tf_created_at = d\<rparr>)),
     c_file = nat_serde (\<lambda>v. (sf_content v, sf_filename v)) (\<lambda>(a, b). \<lparr>sf_content = a, sf_filename = b\<rparr>),
     c_case = nat_serde (\<lambda>v. (test_case_str (tc_id v), tc_status v, tc_created_at v, tc_updated_at v, tc_rest v))
       (\<lambda>(a, b, c, d, e). \<lparr>tc_id = TestCaseId a, tc_status = b, tc_created_at = c, tc_updated_at = d, tc_rest = e\<rparr>),
     c_run = nat_serde (\<lambda>v. (eval_run_str (er_id v), er_status v, er_results v, er_created_at v, er_updated_at v, er_rest v))
       (\<lambda>(a, b, c, d, e, f). \<lparr>er_id = EvalRunId a, er_status = b, er_results = c, er_created_at = d, er_updated_at = e, er_rest = f\<rparr>),
     c_results = nat_serde (\<lambda>x. x) (\<lambda>x. x),
     c_set = nat_serde (\<lambda>v. (ts_id v, ts_name v, ts_description v, ts_test_cases v, ts_created_at v))
       (\<lambda>(a, b, c, d, e). \<lparr>ts_id = a, ts_name = b, ts_description = c, ts_test_cases = d, ts_created_at = e\<rparr>),
     c_forks = nat_serde
       (map (\<lambda>v. (fork_id v, fork_thread_id v, fork_parent_thread_id v, fork_at_message_index v, fork_edited_content v, fork_label v, fork_created_at v)))
       (map (\<lambda>(a, b, c, d, e, f, g). \<lparr>fork_id = a, fork_thread_id = b, fork_parent_thread_id = c, fork_at_message_index = d,
          fork_edited_content = e, fork_label = f, fork_created_at = g\<rparr>)),
     c_source = nat_serde
       (\<lambda>v. (ds_id v, ds_name v, ds_database_type v, ds_host v, ds_port v, ds_database_name v, ds_schema_name v,
          ds_encrypted_credentials v, ds_is_active v, ds_created_at v, ds_updated_at v))
       (\<lambda>(a, b, c, d, e, f, g, h, i, j, k). \<lparr>ds_id = a, ds_name = b, ds_database_type = c, ds_host = d, ds_port = e,
          ds_database_name = f, ds_schema_name = g, ds_encrypted_credentials = h, ds_is_active = i, ds_created_at = j, ds_updated_at = k\<rparr>),
     c_workspace = nat_serde
       (\<lambda>v. (workspace_str (ws_id v), ws_name v, ws_slug v, ws_description v, ws_database_config v,
          (mc_provider (ws_model_config v), mc_model_id (ws_model_config v), mc_enrichment_model_id (ws_model_config v)),
          ws_created_at v, ws_updated_at v))
       (\<lambda>(a, b, c, d, e, (p, m, n), f, g). \<lparr>ws_id = WorkspaceId a, ws_name = b, ws_slug = c, ws_description = d, ws_database_config = e,
          ws_model_config = \<lparr>mc_provider = p, mc_model_id = m, mc_enrichment_model_id = n\<rparr>, ws_created_at = f, ws_updated_at = g\<rparr>),
     c_created_at = (\<lambda>_. Some ''now'')\<rparr>"

lemma interaction_fields:
  "(\<lambda>x. \<lparr>ti_call_id = ti_call_id x, ti_tool_name = ti_tool_name x, ti_arguments = ti_arguments x, ti_result = ti_result x\<rparr>) = (\<lambda>x. x)"
  by (simp add: fun_eq_iff)

lemma good_nat_codecs: "good_codecs nat_codecs"
  unfolding good_codecs_def nat_codecs_def
  by (simp, intro conjI good_nat_serde map_inverse)
    (simp_all add: option.map_comp comp_def option.map_ident split_def interaction_fields)

theorem workspace_store_refines_witness:
  "\<exists>rs s'. for_each (run_ws_cmd (ws_new_with_thread_aux_keys nat_codecs dashmap_kv (\<lambda>_. [])) ''t'')
      [UpsertThread (thread_with_id ''now'' ''a'' None), UpsertThread (thread_with_id ''now'' ''b'' None),
       InsertMessage (message_new ''now'' ''m'' ''user'' ''hi'') ''a'', DeleteThread ''a''] (dashmap_new 0) = (Ok rs, s')
     \<and> fst (list_threads (ws_new_with_thread_aux_keys nat_codecs dashmap_kv (\<lambda>_. [])) ''t'' s') = Ok [thread_with_id ''now'' ''b'' None]
     \<and> fst (get_all_messages (ws_new_with_thread_aux_keys nat_codecs dashmap_kv (\<lambda>_. [])) ''t'' ''a'' s') = Ok []"
proof -
  have "dashmap_peek (dashmap_new 0 :: nat DashMapKVStore) ''t'' k = None" for k
    by (simp add: dashmap_new_def dashmap_peek_def)
  moreover have "''a'' \<in> plain_ids" "''b'' \<in> plain_ids" by (simp_all add: plain_ids_def)
  ultimately show ?thesis
    using workspace_store_refines [OF dashmap.KV_laws_axioms, of "''t''" nat_codecs "\<lambda>_. []"
        "[UpsertThread (thread_with_id ''now'' ''a'' None), UpsertThread (thread_with_id ''now'' ''b'' None),
          InsertMessage (message_new ''now'' ''m'' ''user'' ''hi'') ''a'', DeleteThread ''a'']" "dashmap_new 0"] good_nat_codecs
    by (auto simp: ws_answers_def ws_empty_def im_list_def im_put_def im_remove_def im_empty_def at_def drop_files_def aux_ok_def
        thread_with_id_def List.map_filter_simps colon_free_def)
qed

text \<open>
  The first law of \<open>EvalStore\<close> in \<open>store.rs\<close>, that an inserted run is read back, fails for a run with inline
  results: they are stored with the run and replaced on reading by the list of its own key.
\<close>

lemma inserted_run_loses_results:
  assumes "good_codecs C" "ws_rep C t c A" "eval_run_str (er_id r) \<in> plain_ids" "a_results A (eval_run_str (er_id r)) = []"
    "aux_ok aux"
  shows "\<exists>c'. insert_eval_run (map_store C aux) t r c = (Ok (), c')
    \<and> fst (get_eval_run (map_store C aux) t (eval_run_str (er_id r)) c') = Ok (Some (r\<lparr>er_results := []\<rparr>))"
proof -
  obtain c' where c': "insert_eval_run (map_store C aux) t r c = (Ok (), c')"
    "ws_rep C t c' (a_runs_update (im_put (eval_run_str (er_id r)) r) A)"
    using run_upserts(3) [OF assms(1,2,3), of aux] by (auto simp: runs_to_def)
  then show ?thesis using ws_answers_map [OF c'(2), of aux] assms(3,4) by (simp add: ws_answers_def im_put_def)
qed

section \<open>Repair of the test case index\<close>

text \<open>The test cases a rebuild finds: stored under a non-empty id, with a readable creation date.\<close>

definition dated_cases ::
  "('j, 'st, 'r, 'x, 'dt) ws_codecs \<Rightarrow> (string \<Rightarrow> 'j option) \<Rightarrow> (TestCaseId \<times> string) set" where
  "dated_cases C content =
     {(i, d). test_case_str i \<noteq> [] \<and> (\<exists>j. content (key_test_case (test_case_str i)) = Some j \<and> c_created_at C j = Some d)}"

lemma newest_first_laws: "set (newest_first xs) = set xs" "sorted_wrt (\<lambda>x y. snd y \<le> snd x) (newest_first xs)"
proof -
  have "sorted_wrt (\<lambda>x y. snd x \<le> snd y) (sort_key snd (rev xs))"
    by (metis sorted_map sorted_sort_key)
  then show "sorted_wrt (\<lambda>x y. snd y \<le> snd x) (newest_first xs)"
    by (simp add: newest_first_def sorted_wrt_rev)
qed (simp add: newest_first_def)

lemma dated_id_Some:
  "dated_id (ws_new_with_thread_aux_keys C kv aux) (key_test_case []) batch key = Some (i, d) \<longleftrightarrow>
     key = key_test_case (test_case_str i) \<and> test_case_str i \<noteq> [] \<and> (\<exists>j. batch key = Some j \<and> c_created_at C j = Some d)"
  by (cases i) (auto simp: dated_id_def store_fields key_test_case_def strip_prefix_str_def test_case_new_def prefix_def split: option.splits)

lemma set_map_filter: "set (List.map_filter f xs) = {y. \<exists>x \<in> set xs. f x = Some y}"
  by (induction xs) (auto simp: List.map_filter_simps split: option.splits)

context KV_laws
begin

lemma rebuild_run:
  assumes "separable t" "good_codecs C"
  obtains dated s' where "rebuild_test_case_index (ws_new_with_thread_aux_keys C kv aux) t s = (Ok (map fst dated), s')"
    "set dated = dated_cases C (peek s t)" "sorted_wrt (\<lambda>x y. snd y \<le> snd x) dated"
    "fst (load_index kv_err serde_err kv (c_index C) t TEST_CASES_INDEX s') = Ok (map (\<lambda>p. test_case_str (fst p)) dated)"
    "\<And>k. k \<noteq> TEST_CASES_INDEX \<Longrightarrow> peek s' t k = peek s t k"
proof -
  let ?w = "ws_new_with_thread_aux_keys C kv aux"
  have pol: "kp_test_case (thread_aux_keys_policy aux) = key_test_case" "kp_test_cases_index (thread_aux_keys_policy aux) = TEST_CASES_INDEX"
    by (simp_all add: thread_aux_keys_policy_def default_key_policy_def)
  obtain ks s1 where ks: "list_keys kv s t (key_test_case []) = (Ok ks, s1)" "peek s1 = peek s"
    "set ks = {k. prefix (key_test_case []) k \<and> peek s t k \<noteq> None}"
  proof -
    obtain r s1 where r: "list_keys kv s t (key_test_case []) = (r, s1)" by fastforce
    from list_content [OF this] show ?thesis using r by (auto intro: that)
  qed
  obtain s2 where s2: "get_many_json kv s1 t ks = (Ok (\<lambda>k. if k \<in> set ks then peek s t k else None), s2)" "peek s2 = peek s"
  proof -
    obtain r s2 where r: "get_many_json kv s1 t ks = (r, s2)" by fastforce
    from get_many_content [OF this, unfolded ks(2)] show ?thesis using r by (auto intro: that)
  qed
  define dated where "dated = newest_first (List.map_filter (dated_id ?w (key_test_case []) (\<lambda>k. if k \<in> set ks then peek s t k else None)) ks)"
  let ?ids = "map (\<lambda>p. test_case_str (fst p)) dated"
  obtain s3 where s3: "put_json kv s2 t TEST_CASES_INDEX (encode (c_index C) ?ids) None = (Ok (), s3)"
    using put_content [of s2 t TEST_CASES_INDEX "encode (c_index C) ?ids" None]
    by (cases "put_json kv s2 t TEST_CASES_INDEX (encode (c_index C) ?ids) None") auto
  have "rebuild_test_case_index ?w t s = (Ok (map fst dated), s3)"
    using ks(1) s2(1) s3 assms(2)
    by (simp add: rebuild_test_case_index_def pol store_fields Let_def prog_defs save_index_def put_entity_def to_value_good
        dated_def [symmetric] comp_def)
  moreover have "set dated = dated_cases C (peek s t)"
  proof -
    have "prefix (key_test_case []) (key_test_case i)" for i by (simp add: key_test_case_def)
    then show ?thesis
      unfolding dated_def newest_first_laws set_map_filter dated_cases_def
      by (auto simp: dated_id_Some ks(3) split: if_splits)
  qed
  moreover have "sorted_wrt (\<lambda>x y. snd y \<le> snd x) dated" by (simp add: dated_def newest_first_laws)
  moreover have "fst (load_index kv_err serde_err kv (c_index C) t TEST_CASES_INDEX s3) = Ok ?ids"
    using get_content [of s3 t TEST_CASES_INDEX] put_content [OF s3] assms(2)
    by (cases "get_json kv s3 t TEST_CASES_INDEX") (simp add: load_index_def prog_defs from_value_good)
  moreover have "peek s3 t k = peek s t k" if "k \<noteq> TEST_CASES_INDEX" for k
    using put_frame [OF s3 assms(1,1), of k] that s2(2) by simp
  ultimately show thesis by (rule that)
qed

end

text \<open>
  A rebuild of the test case index repairs it, whatever the index held before: the new index has exactly
  the stored test cases with a readable creation date, newest first, and nothing but the index changes.
\<close>

theorem rebuild_index_exact:
  assumes "KV_laws kv peek separable" "separable t" "good_codecs C"
  shows "\<exists>dated s'. rebuild_test_case_index (ws_new_with_thread_aux_keys C kv aux) t s = (Ok (map fst dated), s')
    \<and> set dated = dated_cases C (peek s t) \<and> sorted_wrt (\<lambda>x y. snd y \<le> snd x) dated
    \<and> fst (load_index kv_err serde_err kv (c_index C) t TEST_CASES_INDEX s') = Ok (map (\<lambda>p. test_case_str (fst p)) dated)
    \<and> (\<forall>k. k \<noteq> TEST_CASES_INDEX \<longrightarrow> peek s' t k = peek s t k)"
proof -
  obtain dated s' where "rebuild_test_case_index (ws_new_with_thread_aux_keys C kv aux) t s = (Ok (map fst dated), s')"
    "set dated = dated_cases C (peek s t)" "sorted_wrt (\<lambda>x y. snd y \<le> snd x) dated"
    "fst (load_index kv_err serde_err kv (c_index C) t TEST_CASES_INDEX s') = Ok (map (\<lambda>p. test_case_str (fst p)) dated)"
    "\<And>k. k \<noteq> TEST_CASES_INDEX \<Longrightarrow> peek s' t k = peek s t k"
    by (rule KV_laws.rebuild_run [OF assms, of aux s]) (rule that)
  then show ?thesis by (intro exI conjI allI impI)
qed

lemma nat_created_at: "c_created_at nat_codecs j = Some ''now''"
  by (simp add: nat_codecs_def)

theorem rebuild_index_exact_witness:
  "\<exists>ids s'. rebuild_test_case_index (ws_new_with_thread_aux_keys nat_codecs dashmap_kv (\<lambda>_. [])) ''t''
      (snd (put_json dashmap_kv (dashmap_new 0) ''t'' (key_test_case ''a'') 7 None)) = (Ok ids, s') \<and> set ids = {TestCaseId ''a''}"
proof -
  let ?s = "snd (put_json dashmap_kv (dashmap_new 0) ''t'' (key_test_case ''a'') (7::nat) None)"
  obtain r s where p: "put_json dashmap_kv (dashmap_new 0) ''t'' (key_test_case ''a'') (7::nat) None = (r, s)" by fastforce
  have "dashmap_peek (dashmap_new 0 :: nat DashMapKVStore) ''t'' k = None" for k
    by (simp add: dashmap_new_def dashmap_peek_def)
  then have peek: "dashmap_peek s ''t'' k = (if k = key_test_case ''a'' then Some 7 else None)" for k
    using dashmap.put_content [OF p] dashmap.put_frame [OF p, of "''t''" k] by (auto simp: colon_free_def)
  have "dated_cases nat_codecs (dashmap_peek ?s ''t'') = {(TestCaseId ''a'', ''now'')}"
    unfolding p snd_conv dated_cases_def peek by (auto simp: nat_created_at key_test_case_def split: if_splits intro: TestCaseId.expand)
  moreover obtain dated s' where "rebuild_test_case_index (ws_new_with_thread_aux_keys nat_codecs dashmap_kv (\<lambda>_. [])) ''t'' ?s = (Ok (map fst dated), s')"
    "set dated = dated_cases nat_codecs (dashmap_peek ?s ''t'')"
    using rebuild_index_exact [OF dashmap.KV_laws_axioms, of "''t''" nat_codecs "\<lambda>_. []" ?s] good_nat_codecs
    by (auto simp: colon_free_def)
  ultimately show ?thesis by auto
qed

end
