(* ===== verification/Provisioner.thy ===== *)
theory Provisioner
  imports Entity_Index Map_Order Writable_Db
begin

text \<open>
  Database environments: the interface \<open>DatabaseProvisioner\<close> of \<open>crates/agent-fw-catalog/src/provisioner.rs\<close>
  and its two in-process implementations, \<open>local_provisioner.rs\<close> and \<open>mock_provisioner.rs\<close> of
  \<open>crates/agent-fw-interpreter/src\<close>. The documented laws are the locale \<open>provisioner_laws\<close>, which both
  implementations meet as long as their counter of ids has not wrapped around. The database a statement
  runs on, the order of a hash map and the clock are arguments.
\<close>

section \<open>The interface\<close>

datatype EnvironmentId = EnvironmentId (environment_str: string)

datatype EnvironmentName = EnvironmentName (environment_name_str: string)

datatype ProvisioningError =
    ProvNotFound string | ProvConflict string | ProvApi "16 word" string | ProvNetwork string | ProvNotConfigured

record ProvisionRequest =
  req_name :: EnvironmentName
  req_parent_id :: "EnvironmentId option"
  req_expires_at :: "datetime option"

record ProvisionedEnvironment =
  env_id :: EnvironmentId
  env_name :: EnvironmentName
  env_parent_id :: "EnvironmentId option"
  env_host :: string
  env_state :: string
  env_created_at :: string

record EnvironmentSummary =
  sum_id :: EnvironmentId
  sum_name :: EnvironmentName
  sum_state :: string
  sum_created_at :: string

record ProvisionedConnection =
  pc_host :: string
  pc_connection_uri :: "string option"
  pc_role_name :: string
  pc_role_password :: string

record 'w DatabaseProvisioner =
  provision :: "ProvisionRequest \<Rightarrow> ('w, ProvisioningError, ProvisionedEnvironment) prog"
  deprovision :: "EnvironmentId \<Rightarrow> ('w, ProvisioningError, unit) prog"
  list_environments :: "('w, ProvisioningError, EnvironmentSummary list) prog"
  get_connection :: "EnvironmentId \<Rightarrow> string \<Rightarrow> string \<Rightarrow> ('w, ProvisioningError, ProvisionedConnection) prog"
  create_database :: "EnvironmentId \<Rightarrow> string \<Rightarrow> string \<Rightarrow> ('w, ProvisioningError, unit) prog"

definition summary_of :: "ProvisionedEnvironment \<Rightarrow> EnvironmentSummary" where
  "summary_of e = \<lparr>sum_id = env_id e, sum_name = env_name e, sum_state = env_state e, sum_created_at = env_created_at e\<rparr>"

section \<open>Numbers in identifiers\<close>

fun decimal_str :: "nat \<Rightarrow> string" where
  "decimal_str n = (if n < 10 then [char_of (48 + n)] else decimal_str (n div 10) @ [char_of (48 + n mod 10)])"

declare decimal_str.simps [simp del]

definition decimal_value :: "string \<Rightarrow> nat" where
  "decimal_value s = foldl (\<lambda>a c. a * 10 + (of_char c - 48)) 0 s"

lemma decimal_value_digit: "d < 10 \<Longrightarrow> (of_char (char_of (48 + d) :: char) :: nat) - 48 = d"
  by simp

lemma decimal_value_str: "decimal_value (decimal_str n) = n"
proof (induction n rule: decimal_str.induct)
  case (1 n)
  show ?case
  proof (cases "n < 10")
    case True
    then show ?thesis using decimal_value_digit [of n] by (subst decimal_str.simps) (simp add: decimal_value_def)
  next
    case False
    have "decimal_value (decimal_str n) = decimal_value (decimal_str (n div 10)) * 10 + (of_char (char_of (48 + n mod 10) :: char) - 48)"
      using False by (subst decimal_str.simps) (simp add: decimal_value_def)
    also have "\<dots> = n" using 1 [OF False] decimal_value_digit [of "n mod 10"] by simp
    finally show ?thesis .
  qed
qed

lemma decimal_str_inj: "decimal_str n = decimal_str m \<longleftrightarrow> n = m"
  by (metis decimal_value_str)

section \<open>The local provisioner\<close>

record TrackedEnvironment =
  te_env :: ProvisionedEnvironment
  te_databases :: "string list"

record 'q LocalPostgresProvisioner =
  lp_admin_pool :: 'q
  lp_host :: string
  lp_environments :: "(EnvironmentId, TrackedEnvironment) fmap"
  lp_next_id :: u64

definition db_prefix :: "string \<Rightarrow> string" where
  "db_prefix name = map (\<lambda>c. if is_alphanumeric c \<or> c = CHR ''_'' then c else CHR ''_'') name"

definition extract_host :: "string \<Rightarrow> string" where
  "extract_host url =
     (let after_scheme = (case strip_prefix_str ''postgresql://'' url of
            Some r \<Rightarrow> r
          | None \<Rightarrow> unwrap_or url (strip_prefix_str ''postgres://'' url));
          after_userinfo = (if CHR ''@'' \<in> set after_scheme then tl (dropWhile (\<lambda>c. c \<noteq> CHR ''@'') after_scheme) else after_scheme)
      in takeWhile (\<lambda>c. c \<noteq> CHR '':'' \<and> c \<noteq> CHR ''/'') after_userinfo)"

definition local_new :: "'q \<Rightarrow> string \<Rightarrow> 'q LocalPostgresProvisioner" where
  "local_new pool admin_url =
     \<lparr>lp_admin_pool = pool, lp_host = extract_host admin_url, lp_environments = fmempty, lp_next_id = 1\<rparr>"

definition local_provision ::
  "string \<Rightarrow> ProvisionRequest \<Rightarrow> ('q LocalPostgresProvisioner, ProvisioningError, ProvisionedEnvironment) prog" where
  "local_provision now req s =
     (if \<exists>e \<in> fset (fmran (lp_environments s)). env_name (te_env e) = req_name req
      then (Err (ProvConflict (environment_name_str (req_name req))), s)
      else
        let i = EnvironmentId (''local-env-'' @ decimal_str (unat (lp_next_id s)));
            env = \<lparr>env_id = i, env_name = req_name req, env_parent_id = req_parent_id req, env_host = lp_host s,
                   env_state = ''ready'', env_created_at = now\<rparr>
        in (Ok env, s\<lparr>lp_next_id := lp_next_id s + 1,
              lp_environments := fmupd i \<lparr>te_env = env, te_databases = []\<rparr> (lp_environments s)\<rparr>))"

definition drop_sql :: "string \<Rightarrow> string" where
  "drop_sql db_name = ''DROP DATABASE IF EXISTS '' @ [CHR 0x22] @ db_prefix db_name @ [CHR 0x22]"

definition local_deprovision ::
  "('q \<Rightarrow> string \<Rightarrow> (string, unit) result \<times> 'q) \<Rightarrow> EnvironmentId \<Rightarrow> ('q LocalPostgresProvisioner, ProvisioningError, unit) prog" where
  "local_deprovision exec i s =
     (case fmlookup (lp_environments s) i of
        Some tracked \<Rightarrow>
          (Ok (), s\<lparr>lp_environments := fmdrop i (lp_environments s),
             lp_admin_pool := fold (\<lambda>db_name q. snd (exec q (drop_sql db_name))) (te_databases tracked) (lp_admin_pool s)\<rparr>)
      | None \<Rightarrow> (Err (ProvNotFound (environment_str i)), s))"

definition local_list ::
  "(EnvironmentId fset \<Rightarrow> EnvironmentId list) \<Rightarrow> ('q LocalPostgresProvisioner, ProvisioningError, EnvironmentSummary list) prog" where
  "local_list ord s = (Ok (map (\<lambda>(_, t). summary_of (te_env t)) (entries ord (lp_environments s))), s)"

definition local_get_connection ::
  "EnvironmentId \<Rightarrow> string \<Rightarrow> string \<Rightarrow> ('q LocalPostgresProvisioner, ProvisioningError, ProvisionedConnection) prog" where
  "local_get_connection i database_name role_name s =
     (case fmlookup (lp_environments s) i of
        None \<Rightarrow> (Err (ProvNotFound (environment_str i)), s)
      | Some t \<Rightarrow>
          (Ok \<lparr>pc_host = env_host (te_env t),
               pc_connection_uri = Some (''postgresql://'' @ role_name @ ''@'' @ env_host (te_env t) @ ''/'' @ database_name),
               pc_role_name = role_name, pc_role_password = []\<rparr>, s))"

definition create_sql :: "string \<Rightarrow> string \<Rightarrow> string" where
  "create_sql database_name owner_name =
     ''CREATE DATABASE '' @ [CHR 0x22] @ db_prefix database_name @ [CHR 0x22] @ '' OWNER '' @ [CHR 0x22] @ db_prefix owner_name @ [CHR 0x22]"

definition local_create_database ::
  "('q \<Rightarrow> string \<Rightarrow> (string, unit) result \<times> 'q) \<Rightarrow> EnvironmentId \<Rightarrow> string \<Rightarrow> string \<Rightarrow>
   ('q LocalPostgresProvisioner, ProvisioningError, unit) prog" where
  "local_create_database exec i database_name owner_name s =
     (case fmlookup (lp_environments s) i of
        None \<Rightarrow> (Err (ProvNotFound (environment_str i)), s)
      | Some t \<Rightarrow>
          let s1 = s\<lparr>lp_environments := fmupd i (t\<lparr>te_databases := te_databases t @ [database_name]\<rparr>) (lp_environments s)\<rparr>;
              (r, q) = exec (lp_admin_pool s1) (create_sql database_name owner_name)
          in (map_err (ProvApi 500) r, s1\<lparr>lp_admin_pool := q\<rparr>))"

definition local_provisioner ::
  "('q \<Rightarrow> string \<Rightarrow> (string, unit) result \<times> 'q) \<Rightarrow> (EnvironmentId fset \<Rightarrow> EnvironmentId list) \<Rightarrow> string \<Rightarrow>
   'q LocalPostgresProvisioner DatabaseProvisioner" where
  "local_provisioner exec ord now =
     \<lparr>provision = local_provision now, deprovision = local_deprovision exec, list_environments = local_list ord,
      get_connection = local_get_connection, create_database = local_create_database exec\<rparr>"

section \<open>The mock provisioner\<close>

record MockProvisioner =
  mp_envs :: "ProvisionedEnvironment list"
  mp_next_id :: u64

definition mock_new :: MockProvisioner where
  "mock_new = \<lparr>mp_envs = [], mp_next_id = 1\<rparr>"

definition mock_provision :: "ProvisionRequest \<Rightarrow> (MockProvisioner, ProvisioningError, ProvisionedEnvironment) prog" where
  "mock_provision req s =
     (if \<exists>e \<in> set (mp_envs s). env_name e = req_name req
      then (Err (ProvConflict (environment_name_str (req_name req))), s)
      else
        let env = \<lparr>env_id = EnvironmentId (''mock-env-'' @ decimal_str (unat (mp_next_id s))), env_name = req_name req,
                   env_parent_id = req_parent_id req, env_host = ''localhost'', env_state = ''ready'',
                   env_created_at = ''2025-01-01T00:00:00Z''\<rparr>
        in (Ok env, s\<lparr>mp_next_id := mp_next_id s + 1, mp_envs := mp_envs s @ [env]\<rparr>))"

definition mock_deprovision :: "EnvironmentId \<Rightarrow> (MockProvisioner, ProvisioningError, unit) prog" where
  "mock_deprovision i s =
     (let kept = filter (\<lambda>e. env_id e \<noteq> i) (mp_envs s); s' = s\<lparr>mp_envs := kept\<rparr>
      in if length kept = length (mp_envs s) then (Err (ProvNotFound (environment_str i)), s') else (Ok (), s'))"

definition mock_list :: "(MockProvisioner, ProvisioningError, EnvironmentSummary list) prog" where
  "mock_list s = (Ok (map summary_of (mp_envs s)), s)"

definition mock_get_connection :: "EnvironmentId \<Rightarrow> string \<Rightarrow> string \<Rightarrow> (MockProvisioner, ProvisioningError, ProvisionedConnection) prog" where
  "mock_get_connection i database_name role_name s =
     (case find (\<lambda>e. env_id e = i) (mp_envs s) of
        None \<Rightarrow> (Err (ProvNotFound (environment_str i)), s)
      | Some e \<Rightarrow>
          (Ok \<lparr>pc_host = env_host e,
               pc_connection_uri = Some (''postgresql://'' @ role_name @ '':mock-pw@'' @ env_host e @ ''/'' @ database_name),
               pc_role_name = role_name, pc_role_password = ''mock-password''\<rparr>, s))"

definition mock_create_database :: "EnvironmentId \<Rightarrow> string \<Rightarrow> string \<Rightarrow> (MockProvisioner, ProvisioningError, unit) prog" where
  "mock_create_database i database_name owner_name s =
     (if \<not> (\<exists>e \<in> set (mp_envs s). env_id e = i) then (Err (ProvNotFound (environment_str i)), s) else (Ok (), s))"

definition mock_provisioner :: "MockProvisioner DatabaseProvisioner" where
  "mock_provisioner =
     \<lparr>provision = mock_provision, deprovision = mock_deprovision, list_environments = mock_list,
      get_connection = mock_get_connection, create_database = mock_create_database\<rparr>"

section \<open>The laws\<close>

text \<open>
  The environments of a provisioner are a map from ids to names; \<open>ok\<close> is its invariant and \<open>room\<close> says that
  one more id can be given out.
\<close>

locale provisioner_laws =
  fixes prov :: "'w DatabaseProvisioner"
    and envs :: "'w \<Rightarrow> EnvironmentId \<rightharpoonup> EnvironmentName"
    and ok :: "'w \<Rightarrow> bool"
    and room :: "'w \<Rightarrow> bool"
  assumes provision_ok: "ok w \<Longrightarrow> room w \<Longrightarrow> provision prov req w = (Ok e, w') \<Longrightarrow>
      envs w (env_id e) = None \<and> env_name e = req_name req \<and> req_name req \<notin> ran (envs w)
      \<and> envs w' = (envs w)(env_id e \<mapsto> req_name req) \<and> ok w'"
    and provision_err: "ok w \<Longrightarrow> provision prov req w = (Err x, w') \<Longrightarrow> envs w' = envs w \<and> ok w'"
    and provision_conflict: "ok w \<Longrightarrow> req_name req \<in> ran (envs w) \<Longrightarrow> \<exists>x w'. provision prov req w = (Err x, w')"
    and deprovision_ok: "ok w \<Longrightarrow> deprovision prov i w = (Ok u, w') \<Longrightarrow>
      envs w i \<noteq> None \<and> envs w' = (envs w)(i := None) \<and> ok w'"
    and deprovision_present: "ok w \<Longrightarrow> envs w i \<noteq> None \<Longrightarrow> \<exists>w'. deprovision prov i w = (Ok (), w')"
    and deprovision_err: "ok w \<Longrightarrow> deprovision prov i w = (Err x, w') \<Longrightarrow> envs w' = envs w \<and> ok w'"
    and deprovision_missing: "ok w \<Longrightarrow> envs w i = None \<Longrightarrow> \<exists>n w'. deprovision prov i w = (Err (ProvNotFound n), w')"
begin

text \<open>Undoing a provision.\<close>

lemma provision_deprovision:
  assumes "ok w" "room w" "provision prov req w = (Ok e, w1)" "deprovision prov (env_id e) w1 = (Ok u, w2)"
  shows "envs w2 = envs w" "ok w2"
  using provision_ok [OF assms(1-3)] deprovision_ok [OF _ assms(4)] by auto

definition names_unique :: "'w \<Rightarrow> bool" where
  "names_unique w \<longleftrightarrow> inj_on (envs w) (dom (envs w))"

lemma provision_names_unique:
  assumes "ok w" "room w" "names_unique w" "provision prov req w = (r, w')"
  shows "names_unique w'"
proof (cases r)
  case (Inl x)
  then show ?thesis using provision_err [OF assms(1), of req x w'] assms(3,4) by (simp add: names_unique_def)
next
  case (Inr e)
  have new: "envs w' = (envs w)(env_id e \<mapsto> req_name req)" "req_name req \<notin> ran (envs w)"
    using provision_ok [OF assms(1,2), of req e w'] assms(4) Inr by auto
  show ?thesis
    unfolding names_unique_def
  proof (rule inj_onI)
    fix i j assume "i \<in> dom (envs w')" "j \<in> dom (envs w')" "envs w' i = envs w' j"
    then show "i = j"
      using new assms(3) by (auto simp: names_unique_def inj_on_def ran_def dom_def split: if_splits)
  qed
qed

end

definition local_envs :: "'q LocalPostgresProvisioner \<Rightarrow> EnvironmentId \<rightharpoonup> EnvironmentName" where
  "local_envs s i = map_option (\<lambda>t. env_name (te_env t)) (fmlookup (lp_environments s) i)"

definition local_ok :: "'q LocalPostgresProvisioner \<Rightarrow> bool" where
  "local_ok s \<longleftrightarrow> (\<forall>i t. fmlookup (lp_environments s) i = Some t \<longrightarrow>
     env_id (te_env t) = i \<and> (\<exists>n < unat (lp_next_id s). i = EnvironmentId (''local-env-'' @ decimal_str n)))"

definition local_room :: "'q LocalPostgresProvisioner \<Rightarrow> bool" where
  "local_room s \<longleftrightarrow> unat (lp_next_id s) + 1 < 2 ^ 64"

lemma unat_succ: "unat n + 1 < 2 ^ 64 \<Longrightarrow> unat (n + 1) = unat n + 1" for n :: u64
  by (simp add: unat_word_ariths)

lemma local_ok_new: "local_ok (local_new pool url)"
  by (simp add: local_ok_def local_new_def)

lemma ran_local_envs: "n \<in> ran (local_envs s) \<longleftrightarrow> (\<exists>e \<in> fset (fmran (lp_environments s)). env_name (te_env e) = n)"
  by (auto simp: ran_def local_envs_def fmlookup_ran_iff fmranI) (metis fmranI)+

interpretation local: provisioner_laws "local_provisioner exec ord now" local_envs local_ok local_room
proof (unfold_locales, goal_cases)
  case (1 w req e w')
  let ?i = "EnvironmentId (''local-env-'' @ decimal_str (unat (lp_next_id w)))"
  have free: "\<not> (\<exists>e \<in> fset (fmran (lp_environments w)). env_name (te_env e) = req_name req)"
    using 1(3) by (auto simp: local_provisioner_def local_provision_def split: if_splits)
  have new: "e = \<lparr>env_id = ?i, env_name = req_name req, env_parent_id = req_parent_id req, env_host = lp_host w,
        env_state = ''ready'', env_created_at = now\<rparr>"
    "w' = w\<lparr>lp_next_id := lp_next_id w + 1, lp_environments := fmupd ?i \<lparr>te_env = e, te_databases = []\<rparr> (lp_environments w)\<rparr>"
    using 1(3) free by (auto simp: local_provisioner_def local_provision_def Let_def)
  have fresh: "fmlookup (lp_environments w) ?i = None"
  proof (rule ccontr)
    assume "fmlookup (lp_environments w) ?i \<noteq> None"
    then obtain t where "fmlookup (lp_environments w) ?i = Some t" by blast
    then obtain n where "n < unat (lp_next_id w)" "?i = EnvironmentId (''local-env-'' @ decimal_str n)"
      using 1(1) unfolding local_ok_def by blast
    then show False by (simp add: decimal_str_inj)
  qed
  have succ: "unat (lp_next_id w + 1) = unat (lp_next_id w) + 1" using 1(2) by (simp add: local_room_def unat_succ)
  have "local_ok w'" using 1(1) new succ by (auto simp: local_ok_def less_Suc_eq split: if_splits)
  moreover have "local_envs w' = (local_envs w)(?i \<mapsto> req_name req)" using new by (auto simp: local_envs_def fun_eq_iff)
  ultimately show ?case using free fresh new(1) by (simp add: ran_local_envs local_envs_def)
next
  case (2 w req x w')
  then show ?case by (auto simp: local_provisioner_def local_provision_def Let_def split: if_splits)
next
  case (3 w req)
  then show ?case by (simp add: local_provisioner_def local_provision_def ran_local_envs)
next
  case (4 w i u w')
  then show ?case
    by (auto simp: local_provisioner_def local_deprovision_def local_envs_def local_ok_def fun_eq_iff split: option.splits if_splits)
next
  case (5 w i)
  then show ?case by (auto simp: local_provisioner_def local_deprovision_def local_envs_def)
next
  case (6 w i x w')
  then show ?case by (auto simp: local_provisioner_def local_deprovision_def split: option.splits)
next
  case (7 w i)
  then show ?case by (simp add: local_provisioner_def local_deprovision_def local_envs_def)
qed

definition mock_envs :: "MockProvisioner \<Rightarrow> EnvironmentId \<rightharpoonup> EnvironmentName" where
  "mock_envs s i = map_option env_name (find (\<lambda>e. env_id e = i) (mp_envs s))"

definition mock_ok :: "MockProvisioner \<Rightarrow> bool" where
  "mock_ok s \<longleftrightarrow> distinct (map env_id (mp_envs s))
     \<and> (\<forall>e \<in> set (mp_envs s). \<exists>n < unat (mp_next_id s). env_id e = EnvironmentId (''mock-env-'' @ decimal_str n))"

definition mock_room :: "MockProvisioner \<Rightarrow> bool" where
  "mock_room s \<longleftrightarrow> unat (mp_next_id s) + 1 < 2 ^ 64"

lemma mock_envs_Some:
  assumes "mock_ok s"
  shows "mock_envs s i = Some n \<longleftrightarrow> (\<exists>e \<in> set (mp_envs s). env_id e = i \<and> env_name e = n)"
proof -
  have "map_option env_name (find (\<lambda>e. env_id e = i) es) = Some n \<longleftrightarrow> (\<exists>e \<in> set es. env_id e = i \<and> env_name e = n)"
    if "distinct (map env_id es)" for es
    using that by (induction es) (auto simp: image_iff)
  then show ?thesis using assms unfolding mock_envs_def mock_ok_def by blast
qed

lemma mock_envs_None: "mock_envs s i = None \<longleftrightarrow> (\<forall>e \<in> set (mp_envs s). env_id e \<noteq> i)"
  by (auto simp: mock_envs_def find_None_iff)

lemma length_filter_all: "length (filter P xs) = length xs \<longleftrightarrow> (\<forall>x \<in> set xs. P x)"
  by (metis filter_True length_filter_less less_irrefl)

lemma find_append: "find P (xs @ ys) = (case find P xs of None \<Rightarrow> find P ys | Some x \<Rightarrow> Some x)"
  by (induction xs) auto

lemma find_filter: "find P (filter Q xs) = find (\<lambda>x. Q x \<and> P x) xs"
  by (induction xs) auto

interpretation mock: provisioner_laws mock_provisioner mock_envs mock_ok mock_room
proof (unfold_locales, goal_cases)
  case (1 w req e w')
  let ?i = "EnvironmentId (''mock-env-'' @ decimal_str (unat (mp_next_id w)))"
  have free: "\<not> (\<exists>e \<in> set (mp_envs w). env_name e = req_name req)"
    using 1(3) by (auto simp: mock_provisioner_def mock_provision_def split: if_splits)
  have new: "env_id e = ?i" "env_name e = req_name req" "w' = w\<lparr>mp_next_id := mp_next_id w + 1, mp_envs := mp_envs w @ [e]\<rparr>"
    using 1(3) free by (auto simp: mock_provisioner_def mock_provision_def Let_def)
  have fresh: "\<forall>e \<in> set (mp_envs w). env_id e \<noteq> ?i" using 1(1) by (force simp: mock_ok_def decimal_str_inj)
  have succ: "unat (mp_next_id w + 1) = unat (mp_next_id w) + 1" using 1(2) by (simp add: mock_room_def unat_succ)
  have ok: "mock_ok w'" using 1(1) new succ fresh by (auto simp: mock_ok_def less_Suc_eq)
  have "mock_envs w' = (mock_envs w)(?i \<mapsto> req_name req)"
  proof
    fix i
    have "find (\<lambda>e. env_id e = ?i) (mp_envs w) = None" using fresh by (simp add: find_None_iff)
    then show "mock_envs w' i = ((mock_envs w)(?i \<mapsto> req_name req)) i"
      using new by (auto simp: mock_envs_def find_append split: option.split)
  qed
  then show ?case using ok new fresh free by (auto simp: mock_envs_None ran_def mock_envs_Some [OF 1(1)])
next
  case (2 w req x w')
  then show ?case by (auto simp: mock_provisioner_def mock_provision_def Let_def split: if_splits)
next
  case (3 w req)
  then show ?case by (auto simp: mock_provisioner_def mock_provision_def ran_def mock_envs_Some)
next
  case (4 w i u w')
  then have w': "w' = w\<lparr>mp_envs := filter (\<lambda>e. env_id e \<noteq> i) (mp_envs w)\<rparr>" "\<exists>e \<in> set (mp_envs w). env_id e = i"
    by (auto simp: mock_provisioner_def mock_deprovision_def Let_def length_filter_all split: if_splits)
  have "mock_envs w' = (mock_envs w)(i := None)"
  proof
    fix j
    show "mock_envs w' j = ((mock_envs w)(i := None)) j"
      using w'(1) by (cases "j = i") (auto simp: mock_envs_def find_filter find_None_iff intro!: arg_cong [where f = "map_option env_name"] find_cong)
  qed
  moreover have "mock_ok w'" using 4(1) w'(1) by (auto simp: mock_ok_def distinct_map_filter)
  ultimately show ?case using w'(2) by (auto simp: mock_envs_None)
next
  case (5 w i)
  then show ?case by (auto simp: mock_provisioner_def mock_deprovision_def Let_def length_filter_all mock_envs_None)
next
  case (6 w i x w')
  then have "w' = w\<lparr>mp_envs := filter (\<lambda>e. env_id e \<noteq> i) (mp_envs w)\<rparr>" "\<forall>e \<in> set (mp_envs w). env_id e \<noteq> i"
    by (auto simp: mock_provisioner_def mock_deprovision_def Let_def length_filter_all split: if_splits)
  then have "w' = w" by (simp add: filter_id_conv)
  then show ?case using 6 by simp
next
  case (7 w i)
  then show ?case by (auto simp: mock_provisioner_def mock_deprovision_def Let_def length_filter_all mock_envs_None)
qed

section \<open>Sequences of calls\<close>

datatype env_cmd = Provision ProvisionRequest | Deprovision EnvironmentId

fun run_env_cmd :: "'w DatabaseProvisioner \<Rightarrow> env_cmd \<Rightarrow> 'w \<Rightarrow> 'w" where
  "run_env_cmd prov (Provision req) w = snd (provision prov req w)"
| "run_env_cmd prov (Deprovision i) w = snd (deprovision prov i w)"

context provisioner_laws
begin

lemma run_env_cmd_invariant:
  assumes "ok w" "room w" "names_unique w"
  shows "ok (run_env_cmd prov cmd w)" "names_unique (run_env_cmd prov cmd w)"
proof -
  have "ok (run_env_cmd prov cmd w) \<and> names_unique (run_env_cmd prov cmd w)"
  proof (cases cmd)
    case (Provision req)
    obtain r w' where r: "provision prov req w = (r, w')" by fastforce
    then have "ok w'" using provision_ok [OF assms(1,2), of req] provision_err [OF assms(1), of req] by (cases r) auto
    then show ?thesis using Provision r provision_names_unique [OF assms r] by simp
  next
    case (Deprovision i)
    obtain r w' where r: "deprovision prov i w = (r, w')" by fastforce
    have "ok w' \<and> (envs w' = envs w \<or> envs w' = (envs w)(i := None))"
      using deprovision_ok [OF assms(1), of i] deprovision_err [OF assms(1), of i] r by (cases r) auto
    then show ?thesis using Deprovision r assms(3) by (auto simp: names_unique_def inj_on_def dom_def split: if_splits)
  qed
  then show "ok (run_env_cmd prov cmd w)" "names_unique (run_env_cmd prov cmd w)" by blast+
qed

end

lemma local_next_id: "unat (lp_next_id (run_env_cmd (local_provisioner exec ord now) cmd s)) \<le> Suc (unat (lp_next_id s))"
proof (cases cmd)
  case (Provision req)
  have "unat (lp_next_id s + 1) \<le> Suc (unat (lp_next_id s))" by (simp add: unat_word_ariths)
  then show ?thesis using Provision by (simp add: local_provisioner_def local_provision_def Let_def)
next
  case (Deprovision i)
  then show ?thesis by (simp add: local_provisioner_def local_deprovision_def split: option.split)
qed

lemma local_invariant:
  assumes "local_ok s" "local.names_unique s" "unat (lp_next_id s) + length cmds < 2 ^ 64"
  shows "local_ok (fold (run_env_cmd (local_provisioner exec ord now)) cmds s) \<and>
    local.names_unique (fold (run_env_cmd (local_provisioner exec ord now)) cmds s)"
  using assms
proof (induction cmds arbitrary: s)
  case (Cons cmd cmds)
  let ?s = "run_env_cmd (local_provisioner exec ord now) cmd s"
  have "local_room s" using Cons.prems(3) by (simp add: local_room_def)
  then have "local_ok ?s" "local.names_unique ?s" using local.run_env_cmd_invariant [OF Cons.prems(1) _ Cons.prems(2)] by blast+
  moreover have "unat (lp_next_id ?s) + length cmds < 2 ^ 64"
    using local_next_id [of exec ord now cmd s] Cons.prems(3) by simp
  ultimately show ?case using Cons.IH by simp
qed simp

text \<open>
  The local provisioner keeps its documented laws over any sequence of fewer than \<open>2\<^sup>6\<^sup>4 - 1\<close> calls:
  every environment is stored under the id it was given, and no two environments have the same name.
\<close>

theorem local_names_stay_unique:
  assumes "length cmds < 2 ^ 64 - 1" "s = fold (run_env_cmd (local_provisioner exec ord now)) cmds (local_new pool url)"
    "local_envs s i = Some n" "local_envs s j = Some n"
  shows "i = j \<and> (\<exists>t. fmlookup (lp_environments s) i = Some t \<and> env_id (te_env t) = i)"
proof -
  have "local.names_unique (local_new pool url)" by (simp add: local.names_unique_def local_envs_def local_new_def inj_on_def dom_def)
  moreover have "unat (lp_next_id (local_new pool url)) + length cmds < 2 ^ 64" using assms(1) by (simp add: local_new_def)
  ultimately have inv: "local_ok s" "local.names_unique s"
    using local_invariant [OF local_ok_new, of pool url cmds exec ord now] assms(2) by simp_all
  have "i = j" using inv(2) assms(3,4) by (auto simp: local.names_unique_def inj_on_def dom_def)
  then show ?thesis using inv(1) assms(3) by (auto simp: local_ok_def local_envs_def)
qed

lemma decimal_one: "decimal_str (Suc 0) = ''1''"
  by code_simp

theorem local_names_stay_unique_witness:
  "EnvironmentId ''local-env-1'' = EnvironmentId ''local-env-1'' \<and>
   local_envs (fold (run_env_cmd (local_provisioner (\<lambda>q _. (Ok (), q)) (\<lambda>_. []) ''0''))
      [Provision \<lparr>req_name = EnvironmentName ''ws-a'', req_parent_id = None, req_expires_at = None\<rparr>,
       Provision \<lparr>req_name = EnvironmentName ''ws-a'', req_parent_id = None, req_expires_at = None\<rparr>]
      (local_new () ''postgres://u@h:5432/db'')) (EnvironmentId ''local-env-1'') = Some (EnvironmentName ''ws-a'')"
proof -
  let ?cmds = "[Provision \<lparr>req_name = EnvironmentName ''ws-a'', req_parent_id = None, req_expires_at = None\<rparr>,
       Provision \<lparr>req_name = EnvironmentName ''ws-a'', req_parent_id = None, req_expires_at = None\<rparr>]"
  let ?s = "fold (run_env_cmd (local_provisioner (\<lambda>q _. (Ok (), q)) (\<lambda>_. []) ''0'')) ?cmds (local_new () ''postgres://u@h:5432/db'')"
  have "local_envs ?s (EnvironmentId ''local-env-1'') = Some (EnvironmentName ''ws-a'')"
    by (auto simp: local_envs_def local_provisioner_def local_provision_def local_new_def Let_def decimal_one fmlookup_ran_iff)
  then show ?thesis
    using local_names_stay_unique [of ?cmds ?s "\<lambda>q _. (Ok (), q)" "\<lambda>_. []" "''0''" "()" "''postgres://u@h:5432/db''"
        "EnvironmentId ''local-env-1''" "EnvironmentName ''ws-a''" "EnvironmentId ''local-env-1''"] by simp
qed

text \<open>A database name is quoted in the statements, and a sanitised name has no quote to close it.\<close>

lemma db_prefix_unquoted: "CHR 0x22 \<notin> set (db_prefix name)"
  by (auto simp: db_prefix_def is_alphanumeric_def)

text \<open>
  A database is recorded before it is created: when the creation fails, for instance because another
  environment has a database of this name, deprovisioning still drops it.
\<close>

lemma failed_create_is_dropped:
  assumes "fmlookup (lp_environments s) i = Some t" "te_databases t = []"
    "exec (lp_admin_pool s) (create_sql db owner) = (Err e, q)"
  shows "fst (local_create_database exec i db owner s) = Err (ProvApi 500 e)"
    "lp_admin_pool (snd (local_deprovision exec i (snd (local_create_database exec i db owner s)))) = snd (exec q (drop_sql db))"
  using assms by (simp_all add: local_create_database_def local_deprovision_def Let_def)

end
