(* ===== verification/Workspace_Lifecycle.thy ===== *)
theory Workspace_Lifecycle
  imports Workspace_Refine Provisioner
begin

text \<open>
  The lifecycle of workspaces: \<open>crates/agent-fw-workspace/src/lifecycle.rs\<close> with the resource combinators of
  \<open>crates/agent-fw-algebra/src/resource.rs\<close> it is built on. A store, a provisioner and a key-value store are
  records of programs over one world, so that they may or may not share state. The time limit of
  \<open>tokio\<close> is an argument: it runs a program and gives \<open>None\<close> when the program took too long. A fresh id and
  the reading of the clock are arguments, and the log output is left out.
\<close>

section \<open>Resource combinators\<close>

definition bracket ::
  "('w, 'e, 'r) prog \<Rightarrow> ('r \<Rightarrow> ('w, 'e, 'a) prog) \<Rightarrow> ('r \<Rightarrow> 'w \<Rightarrow> 'w) \<Rightarrow> ('w, 'e, 'a) prog" where
  "bracket acquire use_fn release =
     and_then acquire (\<lambda>resource w. case use_fn resource w of (r, w') \<Rightarrow> (r, release resource w'))"

definition bracket_simple :: "('w \<Rightarrow> 'r \<times> 'w) \<Rightarrow> ('r \<Rightarrow> 'w \<Rightarrow> 'a \<times> 'w) \<Rightarrow> ('r \<Rightarrow> 'w \<Rightarrow> 'w) \<Rightarrow> 'w \<Rightarrow> 'a \<times> 'w" where
  "bracket_simple acquire use_fn release w =
     (case acquire w of (resource, w1) \<Rightarrow> case use_fn resource w1 of (a, w2) \<Rightarrow> (a, release resource w2))"

definition bracket_result ::
  "('w, 'e, 'r) prog \<Rightarrow> ('r \<Rightarrow> ('w, 'e, 'a) prog) \<Rightarrow> ('r \<Rightarrow> ('w, 'e, unit) prog) \<Rightarrow> ('w, 'e, 'a) prog" where
  "bracket_result acquire use_fn release =
     and_then acquire (\<lambda>resource w.
       case use_fn resource w of (r, w1) \<Rightarrow>
         case release resource w1 of (rel, w2) \<Rightarrow>
           (case r of Ok v \<Rightarrow> (case rel of Ok _ \<Rightarrow> Ok v | Err e \<Rightarrow> Err e) | Err e \<Rightarrow> Err e, w2))"

definition with_resource :: "('w \<Rightarrow> 'r \<times> 'w) \<Rightarrow> ('r \<Rightarrow> 'w \<Rightarrow> 'a \<times> 'w) \<Rightarrow> 'w \<Rightarrow> 'a \<times> 'w" where
  "with_resource acquire use_fn w = (case acquire w of (resource, w1) \<Rightarrow> use_fn resource w1)"

definition with_finally :: "('w \<Rightarrow> 'a \<times> 'w) \<Rightarrow> ('w \<Rightarrow> 'w) \<Rightarrow> 'w \<Rightarrow> 'a \<times> 'w" where
  "with_finally f fin w = (case f w of (a, w') \<Rightarrow> (a, fin w'))"

definition try_finally :: "('w, 'e, 'a) prog \<Rightarrow> ('w \<Rightarrow> 'w) \<Rightarrow> ('w, 'e, 'a) prog" where
  "try_finally f fin w = (case f w of (r, w') \<Rightarrow> (r, fin w'))"

definition compensating :: "('w, 'e, 'a) prog \<Rightarrow> ('w \<Rightarrow> 'w) \<Rightarrow> ('w, 'e, 'a) prog" where
  "compensating action compensate w =
     (case action w of (Ok v, w') \<Rightarrow> (Ok v, w') | (Err e, w') \<Rightarrow> (Err e, compensate w'))"

section \<open>The lifecycle operations\<close>

record 'w WorkspaceEntityStore =
  wes_list_workspaces :: "string \<Rightarrow> ('w, Workspace list) ws_prog"
  wes_get_workspace :: "string \<Rightarrow> string \<Rightarrow> ('w, Workspace option) ws_prog"
  wes_create_workspace :: "string \<Rightarrow> Workspace \<Rightarrow> ('w, unit) ws_prog"
  wes_update_workspace :: "string \<Rightarrow> Workspace \<Rightarrow> ('w, unit) ws_prog"
  wes_delete_workspace :: "string \<Rightarrow> string \<Rightarrow> ('w, unit) ws_prog"

definition kv_entity_store :: "('s, 'j, 'st, 'r, 'x, 'dt) KVWorkspaceStore \<Rightarrow> 's WorkspaceEntityStore" where
  "kv_entity_store w =
     \<lparr>wes_list_workspaces = list_workspaces w, wes_get_workspace = get_workspace w, wes_create_workspace = store_create_workspace w,
      wes_update_workspace = store_update_workspace w, wes_delete_workspace = store_delete_workspace w\<rparr>"

record CreateWorkspaceInput =
  ci_name :: string
  ci_description :: "string option"

record UpdateWorkspaceInput =
  ui_name :: "string option"
  ui_description :: "string option"

datatype LifecycleError =
    LcValidation string | LcProvisioning ProvisioningError | LcStore WorkspaceError | LcNotFound string | LcKVStore string

definition validate_workspace_input :: "CreateWorkspaceInput \<Rightarrow> (LifecycleError, string) result" where
  "validate_workspace_input input =
     (let name = trim_str (ci_name input)
      in if name = [] then Err (LcValidation ''Workspace name must not be empty'')
         else let slug = slugify name
              in if slug = ''unnamed'' then Err (LcValidation ''Workspace name must produce a valid slug'') else Ok slug)"

definition assemble_workspace :: "datetime \<Rightarrow> WorkspaceId \<Rightarrow> string \<Rightarrow> string \<Rightarrow> string option \<Rightarrow> DatabaseConfig \<Rightarrow> Workspace" where
  "assemble_workspace now i name slug description db_config =
     \<lparr>ws_id = i, ws_name = trim_str name, ws_slug = slug, ws_description = description, ws_database_config = db_config,
      ws_model_config = model_config_default, ws_created_at = now, ws_updated_at = now\<rparr>"

definition managed_config :: "string \<Rightarrow> ProvisionedEnvironment \<Rightarrow> DatabaseConfig" where
  "managed_config role env =
     (let url = (\<lambda>db. ''postgresql://'' @ role @ ''@'' @ env_host env @ ''/'' @ db)
      in DbManaged (environment_str (env_id env)) (environment_name_str (env_name env)) (env_host env)
           (url ''target'') (url ''catalog'') (url ''embeddings''))"

type_synonym 'w time_limit =
  "('w \<Rightarrow> (ProvisioningError, unit) result \<times> 'w) \<Rightarrow> 'w \<Rightarrow> (ProvisioningError, unit) result option \<times> 'w"

text \<open>The provisioning phase of a creation, and what undoes it.\<close>

definition provision_phase ::
  "'w DatabaseProvisioner option \<Rightarrow> EnvironmentId option \<Rightarrow> string \<Rightarrow> string \<Rightarrow>
   ('w, LifecycleError, DatabaseConfig \<times> EnvironmentId option) prog" where
  "provision_phase provisioner parent_id role slug =
     (case provisioner of
        Some prov \<Rightarrow>
          and_then (map_prog_err LcProvisioning
              (provision prov \<lparr>req_name = EnvironmentName (''ws-'' @ slug), req_parent_id = parent_id, req_expires_at = None\<rparr>))
            (\<lambda>env. prog_ok (managed_config role env, Some (env_id env)))
      | None \<Rightarrow> prog_ok (DbDefault, None))"

definition undo_provision :: "'w time_limit \<Rightarrow> 'w DatabaseProvisioner option \<Rightarrow> EnvironmentId option \<Rightarrow> 'w \<Rightarrow> 'w" where
  "undo_provision limit provisioner eid w =
     (case eid of
        Some i \<Rightarrow> (case provisioner of Some prov \<Rightarrow> snd (limit (deprovision prov i) w) | None \<Rightarrow> w)
      | None \<Rightarrow> w)"

definition create_workspace ::
  "'w time_limit \<Rightarrow> string \<Rightarrow> datetime \<Rightarrow> CreateWorkspaceInput \<Rightarrow> string \<Rightarrow> 'w DatabaseProvisioner option \<Rightarrow> 'w WorkspaceEntityStore \<Rightarrow>
   EnvironmentId option \<Rightarrow> string \<Rightarrow> ('w, LifecycleError, Workspace) prog" where
  "create_workspace limit uuid now input t provisioner store parent_id role =
     and_then (prog_result (validate_workspace_input input)) (\<lambda>slug.
     and_then (map_prog_err LcStore (wes_list_workspaces store t)) (\<lambda>existing.
     if \<exists>ws \<in> set existing. ws_slug ws = slug
     then prog_result (Err (LcValidation (''Workspace with slug '' @ [CHR 0x27] @ slug @ [CHR 0x27] @ '' already exists'')))
     else
       and_then (provision_phase provisioner parent_id role slug) (\<lambda>(db_config, eid).
         let workspace = assemble_workspace now (WorkspaceId uuid) (ci_name input) slug (ci_description input) db_config
         in and_then (map_prog_err LcStore
                (compensating (wes_create_workspace store t workspace) (undo_provision limit provisioner eid)))
              (\<lambda>_. prog_ok workspace))))"

definition ws_prefix :: "string \<Rightarrow> string" where
  "ws_prefix i = ''ws:'' @ i @ '':''"

definition deprovision_phase :: "'w DatabaseProvisioner option \<Rightarrow> DatabaseConfig \<Rightarrow> ('w, LifecycleError, unit) prog" where
  "deprovision_phase provisioner db_config =
     (case db_config of
        DbManaged branch _ _ _ _ _ \<Rightarrow>
          (case provisioner of Some prov \<Rightarrow> ignore_result (deprovision prov (EnvironmentId branch)) | None \<Rightarrow> prog_ok ())
      | _ \<Rightarrow> prog_ok ())"

definition cleanup_phase :: "('w, 'j) KVStore option \<Rightarrow> string \<Rightarrow> string \<Rightarrow> ('w, LifecycleError, unit) prog" where
  "cleanup_phase kv t i =
     (case kv of
        None \<Rightarrow> prog_ok ()
      | Some kv \<Rightarrow>
          (\<lambda>w. case list_keys kv w t (ws_prefix i) of
             (Ok keys, w') \<Rightarrow>
               and_then (for_each (\<lambda>key. ignore_result (\<lambda>w. kv_delete kv w t key)) keys) (\<lambda>_. prog_ok ()) w'
           | (Err e, w') \<Rightarrow> (Ok (), w')))"

definition delete_workspace ::
  "string \<Rightarrow> string \<Rightarrow> 'w DatabaseProvisioner option \<Rightarrow> 'w WorkspaceEntityStore \<Rightarrow> ('w, 'j) KVStore option \<Rightarrow>
   ('w, LifecycleError, unit) prog" where
  "delete_workspace t i provisioner store kv =
     and_then (map_prog_err LcStore (wes_get_workspace store t i)) (\<lambda>found.
     and_then (prog_result (ok_or (LcNotFound i) found)) (\<lambda>workspace.
     and_then (map_prog_err LcStore (wes_delete_workspace store t i)) (\<lambda>_.
     and_then (deprovision_phase provisioner (ws_database_config workspace)) (\<lambda>_.
     cleanup_phase kv t i))))"

definition rename_workspace :: "string option \<Rightarrow> Workspace \<Rightarrow> (LifecycleError, Workspace) result" where
  "rename_workspace new_name ws =
     (case new_name of
        None \<Rightarrow> Ok ws
      | Some name \<Rightarrow>
          let trimmed = trim_str name
          in if trimmed = [] then Err (LcValidation ''Workspace name must not be empty'')
             else Ok (ws\<lparr>ws_name := trimmed, ws_slug := slugify trimmed\<rparr>))"

definition update_workspace ::
  "datetime \<Rightarrow> string \<Rightarrow> string \<Rightarrow> UpdateWorkspaceInput \<Rightarrow> 'w WorkspaceEntityStore \<Rightarrow> ('w, LifecycleError, Workspace) prog" where
  "update_workspace now t i input store =
     and_then (map_prog_err LcStore (wes_get_workspace store t i)) (\<lambda>found.
     and_then (prog_result (ok_or (LcNotFound i) found)) (\<lambda>workspace.
     and_then (prog_result (rename_workspace (ui_name input) workspace)) (\<lambda>renamed.
       let described = (case ui_description input of Some desc \<Rightarrow> renamed\<lparr>ws_description := Some desc\<rparr> | None \<Rightarrow> renamed);
           stamped = described\<lparr>ws_updated_at := now\<rparr>
       in and_then (map_prog_err LcStore (wes_update_workspace store t stamped)) (\<lambda>_. prog_ok stamped))))"

section \<open>Laws of the combinators\<close>

text \<open>The documented laws: a release and a finaliser always run, a compensation runs exactly on failure, and errors of the use win.\<close>

lemma resource_laws:
  "use_fn resource w1 = (r, w2) \<Longrightarrow> acquire w = (Ok resource, w1) \<Longrightarrow> bracket acquire use_fn release w = (r, release resource w2)"
  "use_fn resource w1 = (Err e, w2) \<Longrightarrow> acquire w = (Ok resource, w1) \<Longrightarrow>
     bracket_result acquire use_fn release' w = (Err e, snd (release' resource w2))"
  "action w = (Ok v, w') \<Longrightarrow> compensating action compensate w = (Ok v, w')"
  "action w = (Err e, w') \<Longrightarrow> compensating action compensate w = (Err e, compensate w')"
  "try_finally action fin w = (fst (action w), fin (snd (action w)))"
  by (simp_all add: bracket_def bracket_result_def compensating_def try_finally_def and_then_def split: prod.split)

text \<open>A creation step by step.\<close>

lemma create_workspace_run:
  "create_workspace limit uuid now input t provisioner store parent role w =
     (case validate_workspace_input input of
        Err e \<Rightarrow> (Err e, w)
      | Ok slug \<Rightarrow> (case wes_list_workspaces store t w of
          (Err e, w1) \<Rightarrow> (Err (LcStore e), w1)
        | (Ok existing, w1) \<Rightarrow>
            if \<exists>ws \<in> set existing. ws_slug ws = slug
            then (Err (LcValidation (''Workspace with slug '' @ [CHR 0x27] @ slug @ [CHR 0x27] @ '' already exists'')), w1)
            else (case provision_phase provisioner parent role slug w1 of
                (Err e, w2) \<Rightarrow> (Err e, w2)
              | (Ok (db_config, eid), w2) \<Rightarrow>
                  let ws = assemble_workspace now (WorkspaceId uuid) (ci_name input) slug (ci_description input) db_config
                  in (case wes_create_workspace store t ws w2 of
                      (Ok _, w3) \<Rightarrow> (Ok ws, w3)
                    | (Err e, w3) \<Rightarrow> (Err (LcStore e), undo_provision limit provisioner eid w3)))))"
  unfolding create_workspace_def prog_defs compensating_def
  by (simp add: Let_def prog_result_def prog_ok_def split: sum.split prod.split)

section \<open>Worlds\<close>

text \<open>A world of two parts: programs of one part leave the other alone.\<close>

definition on_fst :: "('s, 'e, 'a) prog \<Rightarrow> ('s \<times> 'p, 'e, 'a) prog" where
  "on_fst m w = (case m (fst w) of (r, s) \<Rightarrow> (r, (s, snd w)))"

definition on_snd :: "('p, 'e, 'a) prog \<Rightarrow> ('s \<times> 'p, 'e, 'a) prog" where
  "on_snd m w = (case m (snd w) of (r, p) \<Rightarrow> (r, (fst w, p)))"

definition store_on_fst :: "'s WorkspaceEntityStore \<Rightarrow> ('s \<times> 'p) WorkspaceEntityStore" where
  "store_on_fst S =
     \<lparr>wes_list_workspaces = (\<lambda>t. on_fst (wes_list_workspaces S t)),
      wes_get_workspace = (\<lambda>t i. on_fst (wes_get_workspace S t i)),
      wes_create_workspace = (\<lambda>t ws. on_fst (wes_create_workspace S t ws)),
      wes_update_workspace = (\<lambda>t ws. on_fst (wes_update_workspace S t ws)),
      wes_delete_workspace = (\<lambda>t i. on_fst (wes_delete_workspace S t i))\<rparr>"

definition provisioner_on_snd :: "'p DatabaseProvisioner \<Rightarrow> ('s \<times> 'p) DatabaseProvisioner" where
  "provisioner_on_snd P =
     \<lparr>provision = (\<lambda>req. on_snd (provision P req)), deprovision = (\<lambda>i. on_snd (deprovision P i)),
      list_environments = on_snd (list_environments P),
      get_connection = (\<lambda>i d r. on_snd (get_connection P i d r)), create_database = (\<lambda>i d r. on_snd (create_database P i d r))\<rparr>"

definition kv_on_fst :: "('s, 'j) KVStore \<Rightarrow> ('s \<times> 'p, 'j) KVStore" where
  "kv_on_fst kv =
     \<lparr>put_json = (\<lambda>w t k v ttl. on_fst (\<lambda>s. put_json kv s t k v ttl) w),
      get_json = (\<lambda>w t k. on_fst (\<lambda>s. get_json kv s t k) w),
      kv_delete = (\<lambda>w t k. on_fst (\<lambda>s. kv_delete kv s t k) w),
      kv_exists = (\<lambda>w t k. on_fst (\<lambda>s. kv_exists kv s t k) w),
      list_keys = (\<lambda>w t p. on_fst (\<lambda>s. list_keys kv s t p) w),
      get_many_json = (\<lambda>w t ks. on_fst (\<lambda>s. get_many_json kv s t ks) w)\<rparr>"

lemmas world_defs = on_fst_def on_snd_def store_on_fst_def provisioner_on_snd_def kv_on_fst_def

text \<open>The time limit is not reached.\<close>

definition in_time :: "'w time_limit \<Rightarrow> bool" where
  "in_time limit \<longleftrightarrow> (\<forall>m w. limit m w = (Some (fst (m w)), snd (m w)))"

section \<open>No environment is left behind\<close>

locale lifecycle_world = provisioner_laws prov envs ok room
  for prov :: "'w DatabaseProvisioner"
    and envs :: "'w \<Rightarrow> EnvironmentId \<rightharpoonup> EnvironmentName"
    and ok :: "'w \<Rightarrow> bool"
    and room :: "'w \<Rightarrow> bool" +
  fixes store :: "'w WorkspaceEntityStore"
  assumes list_frame: "wes_list_workspaces store t w = (rl, w') \<Longrightarrow> envs w' = envs w \<and> (ok w \<longrightarrow> ok w') \<and> (room w \<longrightarrow> room w')"
    and create_frame: "wes_create_workspace store t ws w = (ru, w') \<Longrightarrow> envs w' = envs w \<and> (ok w \<longrightarrow> ok w')"
begin

definition saga_result :: "'w \<Rightarrow> (LifecycleError, Workspace) result \<Rightarrow> 'w \<Rightarrow> bool" where
  "saga_result w r w' \<longleftrightarrow> ok w' \<and> (case r of
      Err _ \<Rightarrow> envs w' = envs w
    | Ok ws \<Rightarrow> (\<exists>i. envs w i = None \<and> envs w' = (envs w)(i \<mapsto> EnvironmentName (''ws-'' @ ws_slug ws))
        \<and> is_DbManaged (ws_database_config ws) \<and> branch_id (ws_database_config ws) = environment_str i))"

lemma create_saga:
  assumes "ok w" "room w" "in_time limit"
    "create_workspace limit uuid now input t (Some prov) store parent role w = (r, w')"
  shows "saga_result w r w'"
proof (cases "validate_workspace_input input")
  case (Inl e)
  then show ?thesis using assms by (auto simp: create_workspace_run saga_result_def)
next
  case (Inr slug)
  obtain l w1 where l: "wes_list_workspaces store t w = (l, w1)" by fastforce
  have w1: "envs w1 = envs w" "ok w1" "room w1" using list_frame [OF l] assms(1,2) by auto
  let ?req = "\<lparr>req_name = EnvironmentName (''ws-'' @ slug), req_parent_id = parent, req_expires_at = None\<rparr>"
  obtain p w2 where p: "provision prov ?req w1 = (p, w2)" by fastforce
  note run = assms(4) [unfolded create_workspace_run Inr l sum.case prod.case]
  show ?thesis
  proof (cases l)
    case (Inl e)
    then show ?thesis using run w1 by (auto simp: saga_result_def)
  next
    case (Inr existing)
    show ?thesis
    proof (cases "(\<exists>ws \<in> set existing. ws_slug ws = slug) \<or> (\<exists>x. p = Err x)")
      case True
      then show ?thesis
        using run Inr w1 provision_err [OF w1(2), of ?req _ w2] p
        by (auto simp: saga_result_def provision_phase_def prog_defs split: if_splits)
    next
      case False
      then obtain env where env_p: "p = Ok env" by (cases p) auto
      have env: "envs w1 (env_id env) = None" "envs w2 = (envs w1)(env_id env \<mapsto> EnvironmentName (''ws-'' @ slug))" "ok w2"
        using provision_ok [OF w1(2,3), of ?req env w2] p env_p by auto
      let ?ws = "assemble_workspace now (WorkspaceId uuid) (ci_name input) slug (ci_description input) (managed_config role env)"
      obtain c w3 where c: "wes_create_workspace store t ?ws w2 = (c, w3)" by fastforce
      have w3: "envs w3 = envs w2" "ok w3" using create_frame [OF c] env(3) by auto
      obtain w4 where w4: "deprovision prov (env_id env) w3 = (Ok (), w4)"
        using deprovision_present [OF w3(2), of "env_id env"] w3(1) env(2) by auto
      have "envs w4 = envs w" "ok w4" using deprovision_ok [OF w3(2) w4] w3(1) env w1(1) by auto
      moreover have "(r, w') = (case c of Ok _ \<Rightarrow> (Ok ?ws, w3) | Err e \<Rightarrow> (Err (LcStore e), w4))"
        using run Inr False env_p p c w4 assms(3)
        by (auto simp: provision_phase_def prog_defs undo_provision_def in_time_def Let_def split: sum.splits)
      moreover have "is_DbManaged (managed_config role env)" "branch_id (managed_config role env) = environment_str (env_id env)"
        by (simp_all add: managed_config_def Let_def)
      ultimately show ?thesis
        using w3 env w1(1) by (cases c) (auto simp: saga_result_def assemble_workspace_def)
    qed
  qed
qed

end

lemma on_snd_eq: "on_snd m w = (r, w') \<longleftrightarrow> fst w' = fst w \<and> m (snd w) = (r, snd w')"
  by (cases w'; cases "m (snd w)") (auto simp: on_snd_def)

lemma on_fst_eq: "on_fst m w = (r, w') \<longleftrightarrow> snd w' = snd w \<and> m (fst w) = (r, fst w')"
  by (cases w'; cases "m (fst w)") (auto simp: on_fst_def)

interpretation local_world: lifecycle_world "provisioner_on_snd (local_provisioner exec ord clock)" "\<lambda>w. local_envs (snd w)"
  "\<lambda>w. local_ok (snd w)" "\<lambda>w. local_room (snd w)" "store_on_fst S"
proof (unfold_locales, goal_cases)
  case (1 w req e w')
  then show ?case
    using local.provision_ok [of "snd w" exec ord clock req e "snd w'"] by (auto simp: provisioner_on_snd_def on_snd_eq)
next
  case (2 w req x w')
  then show ?case
    using local.provision_err [of "snd w" exec ord clock req x "snd w'"] by (auto simp: provisioner_on_snd_def on_snd_eq)
next
  case (3 w req)
  then show ?case
    using local.provision_conflict [of "snd w" req exec ord clock] by (auto simp: provisioner_on_snd_def on_snd_def)
next
  case (4 w i u w')
  then show ?case
    using local.deprovision_ok [of "snd w" exec ord clock i u "snd w'"] by (auto simp: provisioner_on_snd_def on_snd_eq)
next
  case (5 w i)
  then show ?case
    using local.deprovision_present [of "snd w" i exec ord clock] by (auto simp: provisioner_on_snd_def on_snd_def)
next
  case (6 w i x w')
  then show ?case
    using local.deprovision_err [of "snd w" exec ord clock i x "snd w'"] by (auto simp: provisioner_on_snd_def on_snd_eq)
next
  case (7 w i)
  then show ?case
    using local.deprovision_missing [of "snd w" i exec ord clock] by (auto simp: provisioner_on_snd_def on_snd_def)
qed (auto simp: store_on_fst_def on_fst_eq)

text \<open>
  C12. A creation leaves no environment behind: with the local provisioner and any store, a creation that
  fails in any of its phases leaves the environments as they were, and one that succeeds adds exactly the
  environment its workspace refers to, under the name of its slug. The time limit of the provisioning is not
  reached, and the 64-bit counter of the provisioner's ids does not overflow.
\<close>

theorem create_workspace_saga:
  assumes "local_ok p" "local_room p" "in_time limit"
    "create_workspace limit uuid now input t (Some (provisioner_on_snd (local_provisioner exec ord clock))) (store_on_fst S)
       parent role (s, p) = (r, (s', p'))"
  shows "local_ok p' \<and> (case r of
      Err _ \<Rightarrow> local_envs p' = local_envs p
    | Ok ws \<Rightarrow> (\<exists>i. local_envs p i = None \<and> local_envs p' = (local_envs p)(i \<mapsto> EnvironmentName (''ws-'' @ ws_slug ws))
        \<and> is_DbManaged (ws_database_config ws) \<and> branch_id (ws_database_config ws) = environment_str i))"
  using local_world.create_saga [of "(s, p)" limit uuid now input t exec ord clock S parent role r "(s', p')"] assms
  by (cases r) (simp_all add: local_world.saga_result_def)

text \<open>The store that refuses every write.\<close>

definition refusing_store :: "unit WorkspaceEntityStore" where
  "refusing_store =
     \<lparr>wes_list_workspaces = (\<lambda>_. prog_ok []), wes_get_workspace = (\<lambda>_ _. prog_ok None),
      wes_create_workspace = (\<lambda>_ _. prog_result (Err (WsDb ''down''))), wes_update_workspace = (\<lambda>_ _. prog_result (Err (WsDb ''down''))),
      wes_delete_workspace = (\<lambda>_ _. prog_result (Err (WsDb ''down'')))\<rparr>"

lemma slug_demo: "validate_workspace_input \<lparr>ci_name = '' Demo 1'', ci_description = None\<rparr> = Ok ''demo-1''"
  by code_simp

theorem create_workspace_saga_witness:
  "\<exists>e p'. create_workspace (\<lambda>m w. (Some (fst (m w)), snd (m w))) ''u'' 0 \<lparr>ci_name = '' Demo 1'', ci_description = None\<rparr> ''t''
      (Some (provisioner_on_snd (local_provisioner (\<lambda>q _. (Ok (), q)) (\<lambda>_. []) ''0''))) (store_on_fst refusing_store) None ''r''
      ((), local_new () ''h'') = (Err (LcStore e), ((), p')) \<and> local_envs p' = local_envs (local_new () ''h'')"
proof -
  let ?run = "create_workspace (\<lambda>m w. (Some (fst (m w)), snd (m w))) ''u'' 0 \<lparr>ci_name = '' Demo 1'', ci_description = None\<rparr> ''t''
      (Some (provisioner_on_snd (local_provisioner (\<lambda>q _. (Ok (), q)) (\<lambda>_. []) ''0''))) (store_on_fst refusing_store) None ''r''
      ((), local_new () ''h'')"
  have "fst ?run = Err (LcStore (WsDb ''down''))"
    by (simp add: create_workspace_run slug_demo provision_phase_def prog_defs store_on_fst_def provisioner_on_snd_def on_fst_def on_snd_def
        local_provisioner_def local_provision_def refusing_store_def local_new_def Let_def)
  then obtain p' where run: "?run = (Err (LcStore (WsDb ''down'')), ((), p'))" by (cases ?run) auto
  have "local_room (local_new () ''h'')" by (simp add: local_room_def local_new_def)
  then show ?thesis
    using create_workspace_saga [OF local_ok_new _ _ run] run by (auto simp: in_time_def)
qed

section \<open>Slugs are not given twice\<close>

definition slugs :: "('j, 'st, 'r, 'x, 'dt) ws_abs \<Rightarrow> string list" where
  "slugs A = map ws_slug (im_list (a_workspaces A))"

lemma im_list_put_new:
  assumes "im_listed a" "im_map a i = None"
  shows "im_list (im_put i v a) = v # im_list a"
proof -
  have new: "i \<notin> set (im_ids a)" using assms by (auto simp: im_listed_def)
  then have "List.map_filter ((im_map a)(i \<mapsto> v)) (im_ids a) = List.map_filter (im_map a) (im_ids a)"
    by (auto simp: List.map_filter_def intro!: map_cong filter_cong)
  then show ?thesis using new by (simp add: im_list_def im_put_def List.map_filter_simps)
qed

context KV_laws
begin

lemma sim_create_store:
  "separable t \<Longrightarrow> simulates (store_content peek separable) (=) (store_create_workspace (ws_new_with_thread_aux_keys C kv aux) t ws)
     (store_create_workspace (map_store C aux) t ws)"
  using sim_ws_cmd [of t C aux "CreateWorkspace ws"] by simp

lemma sim_delete_store:
  "separable t \<Longrightarrow> simulates (store_content peek separable) (=) (store_delete_workspace (ws_new_with_thread_aux_keys C kv aux) t i)
     (store_delete_workspace (map_store C aux) t i)"
  using sim_ws_cmd [of t C aux "DeleteWorkspace i"] by simp

lemma list_workspaces_run:
  assumes "separable t" "ws_rep C t (store_content peek separable s) A"
  obtains s' where "list_workspaces (ws_new_with_thread_aux_keys C kv aux) t s = (Ok (im_list (a_workspaces A)), s')"
    "store_content peek separable s' = store_content peek separable s"
  by (rule simulates_run [OF sim_reads(21) [OF assms(1) refl refl, of C aux]])
    (auto simp: list_workspaces_def spaces.list_run [OF assms(2)])

lemma get_workspace_run:
  assumes "separable t" "ws_rep C t (store_content peek separable s) A" "i \<in> plain_ids"
  obtains s' where "get_workspace (ws_new_with_thread_aux_keys C kv aux) t i s = (Ok (im_map (a_workspaces A) i), s')"
    "store_content peek separable s' = store_content peek separable s"
  by (rule simulates_run [OF sim_reads(13) [OF assms(1) refl refl, of C aux i]])
    (auto simp: get_workspace_def spaces.get_run [OF assms(2,3)])

lemma create_workspace_run_kv:
  assumes "separable t" "good_codecs C" "aux_ok aux" "ws_rep C t (store_content peek separable s) A" "uuid \<in> plain_ids"
    "validate_workspace_input input = Ok slug"
    and ws_def: "ws = assemble_workspace now (WorkspaceId uuid) (ci_name input) slug (ci_description input) DbDefault"
  obtains r s' where "create_workspace limit uuid now input t None (kv_entity_store (ws_new_with_thread_aux_keys C kv aux)) parent role s = (r, s')"
    "r = (if slug \<in> set (slugs A)
       then Err (LcValidation (''Workspace with slug '' @ [CHR 0x27] @ slug @ [CHR 0x27] @ '' already exists'')) else Ok ws)"
    "ws_rep C t (store_content peek separable s') (if slug \<in> set (slugs A) then A else a_workspaces_update (im_put uuid ws) A)"
proof -
  let ?w = "ws_new_with_thread_aux_keys C kv aux"
  obtain s1 where s1: "list_workspaces ?w t s = (Ok (im_list (a_workspaces A)), s1)"
    "store_content peek separable s1 = store_content peek separable s"
    by (rule list_workspaces_run [OF assms(1,4)])
  have rep1: "ws_rep C t (store_content peek separable s1) A" using s1(2) assms(4) by simp
  have str: "workspace_str (ws_id ws) = uuid" by (simp add: ws_def assemble_workspace_def)
  obtain c where c: "store_create_workspace (map_store C aux) t ws (store_content peek separable s1) = (Ok (), c)"
    "ws_rep C t c (a_workspaces_update (im_put uuid ws) A)"
    using run_upserts(6) [OF assms(2) rep1, of ws aux] assms(5) by (auto simp: runs_to_def str)
  obtain s2 where s2: "store_create_workspace ?w t ws s1 = (Ok (), s2)" "store_content peek separable s2 = c"
    by (rule simulates_run [OF sim_create_store [OF assms(1)] c(1)])
  have dup: "(\<exists>v \<in> set (im_list (a_workspaces A)). ws_slug v = slug) \<longleftrightarrow> slug \<in> set (slugs A)" by (auto simp: slugs_def)
  show thesis
    by (rule that [of "if slug \<in> set (slugs A)
        then Err (LcValidation (''Workspace with slug '' @ [CHR 0x27] @ slug @ [CHR 0x27] @ '' already exists'')) else Ok ws"
        "if slug \<in> set (slugs A) then s1 else s2"])
      (use s1 s2 c(2) rep1 assms(6) in \<open>auto simp: create_workspace_run kv_entity_store_def dup provision_phase_def prog_defs Let_def ws_def\<close>)
qed

end

text \<open>
  A creation on the workspace store, on every lawful key-value store: a name without a valid slug is
  refused, so is one whose slug is taken, both without a change; any other name gives the assembled
  workspace, stored and listed first; and slugs of listed workspaces stay distinct.
\<close>

theorem create_workspace_exact:
  assumes "KV_laws kv peek separable" "separable t" "good_codecs C" "aux_ok aux"
    "ws_rep C t (store_content peek separable s) A" "uuid \<in> plain_ids" "ws_consistent A" "im_map (a_workspaces A) uuid = None"
    "distinct (slugs A)" "validate_workspace_input input = Ok slug"
  shows "\<exists>r s' A'. create_workspace limit uuid now input t None (kv_entity_store (ws_new_with_thread_aux_keys C kv aux)) parent role s = (r, s')
    \<and> ws_rep C t (store_content peek separable s') A' \<and> distinct (slugs A')
    \<and> (if slug \<in> set (slugs A) then (\<exists>msg. r = Err (LcValidation msg)) \<and> A' = A
       else \<exists>ws. r = Ok ws \<and> ws_slug ws = slug \<and> ws_name ws = trim_str (ci_name input)
         \<and> im_list (a_workspaces A') = ws # im_list (a_workspaces A))"
proof -
  let ?ws = "assemble_workspace now (WorkspaceId uuid) (ci_name input) slug (ci_description input) DbDefault"
  obtain r s' where run: "create_workspace limit uuid now input t None (kv_entity_store (ws_new_with_thread_aux_keys C kv aux)) parent role s = (r, s')"
    "r = (if slug \<in> set (slugs A)
       then Err (LcValidation (''Workspace with slug '' @ [CHR 0x27] @ slug @ [CHR 0x27] @ '' already exists'')) else Ok ?ws)"
    "ws_rep C t (store_content peek separable s') (if slug \<in> set (slugs A) then A else a_workspaces_update (im_put uuid ?ws) A)"
    by (rule KV_laws.create_workspace_run_kv [OF assms(1-6,10) refl])
  have new: "im_list (im_put uuid ?ws (a_workspaces A)) = ?ws # im_list (a_workspaces A)"
    using assms(7,8) by (intro im_list_put_new) (simp_all add: ws_consistent_def)
  show ?thesis
  proof (cases "slug \<in> set (slugs A)")
    case True
    then show ?thesis using run assms(9) by auto
  next
    case False
    then have "distinct (slugs (a_workspaces_update (im_put uuid ?ws) A))"
      using assms(9) new by (simp add: slugs_def assemble_workspace_def)
    then show ?thesis
      using run False new by (intro exI [of _ "a_workspaces_update (im_put uuid ?ws) A"] exI [of _ r] exI [of _ s'])
        (simp add: assemble_workspace_def)
  qed
qed

theorem create_workspace_exact_witness:
  "\<exists>ws s' A'. create_workspace (\<lambda>m w. (Some (fst (m w)), snd (m w))) ''u'' 0 \<lparr>ci_name = '' Demo 1'', ci_description = None\<rparr> ''t'' None
      (kv_entity_store (ws_new_with_thread_aux_keys nat_codecs dashmap_kv (\<lambda>_. []))) None ''r'' (dashmap_new 0) = (Ok ws, s')
    \<and> ws_slug ws = ''demo-1'' \<and> im_list (a_workspaces A') = [ws]
    \<and> ws_rep nat_codecs ''t'' (store_content dashmap_peek colon_free s') A'"
proof -
  have "ws_rep nat_codecs ''t'' (store_content dashmap_peek colon_free (dashmap_new 0)) ws_empty"
    by (rule ws_rep_empty) (simp add: store_content_def dashmap_new_def dashmap_peek_def)
  moreover have "''u'' \<in> plain_ids" "distinct (slugs (ws_empty :: (nat, nat, nat, nat, nat) ws_abs))" "slugs (ws_empty :: (nat, nat, nat, nat, nat) ws_abs) = []"
    "im_map (a_workspaces (ws_empty :: (nat, nat, nat, nat, nat) ws_abs)) ''u'' = None"
    by (simp_all add: plain_ids_def slugs_def ws_empty_def im_list_def im_empty_def List.map_filter_simps)
  ultimately show ?thesis
    using create_workspace_exact [OF dashmap.KV_laws_axioms, of "''t''" nat_codecs "\<lambda>_. []" "dashmap_new 0" ws_empty "''u''"
        "\<lparr>ci_name = '' Demo 1'', ci_description = None\<rparr>" "''demo-1''" "\<lambda>m w. (Some (fst (m w)), snd (m w))" 0 None "''r''"]
      good_nat_codecs ws_consistent_empty slug_demo
    by (auto simp: aux_ok_def colon_free_def slugs_def)
qed

text \<open>An update checks neither: renaming gives a second workspace the slug of another, or the slug \<open>unnamed\<close>.\<close>

lemma rename_takes_slug:
  assumes "trim_str name \<noteq> []"
  shows "\<exists>ws'. rename_workspace (Some name) ws = Ok ws' \<and> ws_slug ws' = slugify (trim_str name)"
  using assms by (simp add: rename_workspace_def Let_def)

lemma update_repeats_slug:
  assumes "good_codecs C" "ws_rep C t c A" "i \<in> plain_ids" "im_map (a_workspaces A) i = Some ws" "workspace_str (ws_id ws) = i"
    "trim_str name \<noteq> []" "aux_ok aux"
  shows "\<exists>ws' c'. update_workspace now t i \<lparr>ui_name = Some name, ui_description = None\<rparr> (kv_entity_store (map_store C aux)) c = (Ok ws', c')
    \<and> ws_slug ws' = slugify (trim_str name) \<and> ws_rep C t c' (a_workspaces_update (im_only i (Some ws')) A)"
proof -
  let ?ws' = "ws\<lparr>ws_name := trim_str name, ws_slug := slugify (trim_str name), ws_updated_at := now\<rparr>"
  have get: "get_workspace (map_store C aux) t i c = (Ok (Some ws), c)"
    using assms(4) spaces.get_run [OF assms(2,3), of kv_err serde_err] by (simp add: get_workspace_def)
  obtain c' where c': "store_update_workspace (map_store C aux) t ?ws' c = (Ok (), c')"
    "ws_rep C t c' (a_workspaces_update (im_only i (Some ?ws')) A)"
    using run_put_only(2) [OF assms(1,2), of ?ws' aux] assms(3,5) by (auto simp: runs_to_def)
  then show ?thesis
    using get assms(6) by (auto simp: update_workspace_def kv_entity_store_def rename_workspace_def prog_defs Let_def)
qed

section \<open>Deletion\<close>

lemma lift_then: "and_then (on_fst m) (\<lambda>x. on_fst (f x)) = on_fst (and_then m f)"
  by (auto simp: fun_eq_iff and_then_def on_fst_def split: prod.split sum.split)

lemma lift_ok: "prog_ok a = on_fst (prog_ok a)"
  by (simp add: fun_eq_iff prog_ok_def on_fst_def)

lemma lift_ignore: "ignore_result (on_fst m) = on_fst (ignore_result m)"
  by (auto simp: fun_eq_iff ignore_result_def on_fst_def split: prod.split)

lemma lift_for_each: "for_each (\<lambda>x. on_fst (f x)) xs = on_fst (for_each f xs)"
proof (induction xs)
  case Nil
  show ?case by (simp add: lift_ok [symmetric])
next
  case (Cons x xs)
  show ?case
    using lift_then [of "for_each f xs" "\<lambda>ys. prog_ok (_ # ys)"] by (simp add: Cons lift_then [symmetric] lift_ok [symmetric])
qed

lemma lift_cleanup: "cleanup_phase (Some (kv_on_fst kv)) t i = on_fst (cleanup_phase (Some kv) t i)"
proof
  fix w :: "'a \<times> 'b"
  let ?delete = "\<lambda>key. ignore_result (\<lambda>s. kv_delete kv s t key) :: ('a, LifecycleError, unit) prog"
  have keys: "list_keys (kv_on_fst kv) w t (ws_prefix i) = on_fst (\<lambda>s. list_keys kv s t (ws_prefix i)) w"
    and delete: "(\<lambda>key. ignore_result (\<lambda>w. kv_delete (kv_on_fst kv) w t key)) = (\<lambda>key. on_fst (?delete key))"
    by (simp_all add: kv_on_fst_def lift_ignore)
  have deletes: "and_then (for_each (\<lambda>key. on_fst (?delete key)) ks) (\<lambda>_. prog_ok ()) = on_fst (and_then (for_each ?delete ks) (\<lambda>_. prog_ok ()))" for ks
    unfolding lift_for_each using lift_then [of "for_each ?delete ks" "\<lambda>_. prog_ok ()"] by (simp add: lift_ok [symmetric])
  show "cleanup_phase (Some (kv_on_fst kv)) t i w = on_fst (cleanup_phase (Some kv) t i) w"
    unfolding cleanup_phase_def option.case keys delete deletes by (simp add: on_fst_def split: prod.split sum.split)
qed

definition release_env :: "'p DatabaseProvisioner \<Rightarrow> DatabaseConfig \<Rightarrow> 'p \<Rightarrow> 'p" where
  "release_env prov cfg p = (if is_DbManaged cfg then snd (deprovision prov (EnvironmentId (branch_id cfg)) p) else p)"

lemma deprovision_phase_run:
  "deprovision_phase (Some (provisioner_on_snd prov)) cfg (s, p) = (Ok (), (s, release_env prov cfg p))"
  by (cases cfg) (auto simp: deprovision_phase_def release_env_def provisioner_on_snd_def on_snd_def ignore_result_def prog_ok_def split: prod.split)

lemma ws_prefix_no_key: "prefix (ws_prefix i) (key_str k) = False"
  by (cases k) (auto simp: ws_prefix_def key_str_def)

context KV_laws
begin

lemma cleanup_run:
  assumes "separable t" "ws_rep C t (store_content peek separable s) A"
  obtains s' where "cleanup_phase (Some kv) t i s = (Ok (), s')" "ws_rep C t (store_content peek separable s') A"
    "\<And>k. prefix (ws_prefix i) k \<Longrightarrow> peek s' t k = None"
    "\<And>k. \<not> prefix (ws_prefix i) k \<Longrightarrow> peek s' t k = peek s t k"
proof -
  obtain r s1 where l: "list_keys kv s t (ws_prefix i) = (r, s1)" by fastforce
  then obtain ks where ks: "r = Ok ks" "peek s1 = peek s" "set ks = {k. prefix (ws_prefix i) k \<and> peek s t k \<noteq> None}"
    using list_content by blast
  have same: "store_content peek separable s1 = store_content peek separable s" by (rule store_content_cong [of peek, OF ks(2)])
  let ?c = "\<lambda>t' k. if t' = t \<and> k \<in> set ks then None else store_content peek separable s t' k"
  have sim: "simulates (store_content peek separable) (=) (for_each (\<lambda>key. ignore_result (\<lambda>s. kv_delete kv s t key)) ks)
      (for_each (\<lambda>key. ignore_result (\<lambda>s. kv_delete map_kv s t key)) ks)"
    by (intro sim_for_each_eq sim_ignored_delete assms(1))
  obtain s2 where s2: "for_each (\<lambda>key. ignore_result (\<lambda>s. kv_delete kv s t key)) ks s1 = (Ok (map (\<lambda>_. ()) ks) :: (LifecycleError, unit list) result, s2)"
    "store_content peek separable s2 = ?c"
    by (rule simulates_run [OF sim, of s1 "Ok (map (\<lambda>_. ()) ks)" ?c])
      (auto simp: run_ignored_deletes [of t "\<lambda>k. k"] same)
  have peek2: "peek s2 t k = (if k \<in> set ks then None else peek s t k)" for k
    using fun_cong [OF fun_cong [OF s2(2)], of t k] assms(1) by (simp add: store_content_def)
  show thesis
  proof (rule that)
    show "cleanup_phase (Some kv) t i s = (Ok (), s2)"
      using l ks(1) s2(1) by (simp add: cleanup_phase_def and_then_def prog_ok_def)
    show "ws_rep C t (store_content peek separable s2) A"
      unfolding s2(2) using ks(3) ws_prefix_no_key by (intro rep_drop_keys [OF assms(2)]) auto
  qed (use peek2 ks(3) in auto)
qed

lemma delete_workspace_run:
  assumes "separable t" "good_codecs C" "aux_ok aux" "ws_rep C t (store_content peek separable s) A" "i \<in> plain_ids"
    "im_map (a_workspaces A) i = Some ws"
  obtains s' where
    "delete_workspace t i (Some (provisioner_on_snd prov)) (store_on_fst (kv_entity_store (ws_new_with_thread_aux_keys C kv aux)))
       (Some (kv_on_fst kv)) (s, p) = (Ok (), (s', release_env prov (ws_database_config ws) p))"
    "ws_rep C t (store_content peek separable s') (a_workspaces_update (im_remove {i}) A)"
    "\<And>k. prefix (ws_prefix i) k \<Longrightarrow> peek s' t k = None"
proof -
  let ?w = "ws_new_with_thread_aux_keys C kv aux"
  obtain s1 where s1: "get_workspace ?w t i s = (Ok (Some ws), s1)" "store_content peek separable s1 = store_content peek separable s"
    using get_workspace_run [OF assms(1,4,5), of aux] assms(6) by metis
  have rep1: "ws_rep C t (store_content peek separable s1) A" using s1(2) assms(4) by simp
  obtain c where c: "store_delete_workspace (map_store C aux) t i (store_content peek separable s1) = (Ok (), c)"
    "ws_rep C t c (a_workspaces_update (im_remove {i}) A)"
    using run_deletes(5) [OF assms(2) rep1 assms(5), of aux] by (auto simp: runs_to_def)
  obtain s2 where s2: "store_delete_workspace ?w t i s1 = (Ok (), s2)" "store_content peek separable s2 = c"
    by (rule simulates_run [OF sim_delete_store [OF assms(1)] c(1)])
  obtain s3 where s3: "cleanup_phase (Some kv) t i s2 = (Ok (), s3)"
    "ws_rep C t (store_content peek separable s3) (a_workspaces_update (im_remove {i}) A)"
    "\<And>k. prefix (ws_prefix i) k \<Longrightarrow> peek s3 t k = None"
    using cleanup_run [OF assms(1), of C s2 "a_workspaces_update (im_remove {i}) A" i] c(2) s2(2) by metis
  show thesis
  proof (rule that)
    show "delete_workspace t i (Some (provisioner_on_snd prov)) (store_on_fst (kv_entity_store ?w)) (Some (kv_on_fst kv)) (s, p) =
        (Ok (), (s3, release_env prov (ws_database_config ws) p))"
      using s1(1) s2(1) s3(1)
      by (simp add: delete_workspace_def lift_cleanup deprovision_phase_run store_on_fst_def kv_entity_store_def on_fst_def prog_defs)
  qed (use s3 in auto)
qed

lemma delete_workspace_missing:
  assumes "separable t" "ws_rep C t (store_content peek separable s) A" "i \<in> plain_ids" "im_map (a_workspaces A) i = None"
  obtains s' where
    "delete_workspace t i P (store_on_fst (kv_entity_store (ws_new_with_thread_aux_keys C kv aux))) kv' (s, p) = (Err (LcNotFound i), (s', p))"
    "store_content peek separable s' = store_content peek separable s"
proof -
  obtain s1 where s1: "get_workspace (ws_new_with_thread_aux_keys C kv aux) t i s = (Ok None, s1)"
    "store_content peek separable s1 = store_content peek separable s"
    using get_workspace_run [OF assms(1-3), of aux] assms(4) by metis
  then show thesis
    by (intro that [of s1]) (simp_all add: delete_workspace_def store_on_fst_def kv_entity_store_def on_fst_def prog_defs)
qed

end



end
