(* ===== verification/Numbers.thy ===== *)
theory Numbers
  imports Prelude Complex_Main
begin

text \<open>
  The operations on \<open>f64\<close> that the evaluation and the latency statistics use, as a record of functions: the
  definitions take it as an argument, because the rounding of the hardware is not part of the sources. The
  real numbers are the instance in which results are compared with the formulas the comments cite; the
  conversions to integers truncate and saturate as Rust's casts do.
\<close>

record 'f num_ops =
  n_of :: "nat \<Rightarrow> 'f"
  n_add :: "'f \<Rightarrow> 'f \<Rightarrow> 'f"
  n_sub :: "'f \<Rightarrow> 'f \<Rightarrow> 'f"
  n_mul :: "'f \<Rightarrow> 'f \<Rightarrow> 'f"
  n_div :: "'f \<Rightarrow> 'f \<Rightarrow> 'f"
  n_le :: "'f \<Rightarrow> 'f \<Rightarrow> bool"
  n_less :: "'f \<Rightarrow> 'f \<Rightarrow> bool"
  n_eq :: "'f \<Rightarrow> 'f \<Rightarrow> bool"
  n_finite :: "'f \<Rightarrow> bool"
  n_ln :: "'f \<Rightarrow> 'f"
  n_exp :: "'f \<Rightarrow> 'f"
  n_neg :: "'f \<Rightarrow> 'f"
  n_floor :: "'f \<Rightarrow> 'f"
  n_ceil :: "'f \<Rightarrow> 'f"
  n_round :: "'f \<Rightarrow> 'f"
  n_to_nat :: "'f \<Rightarrow> nat"

abbreviation n_zero :: "'f num_ops \<Rightarrow> 'f" where "n_zero N \<equiv> n_of N 0"

abbreviation n_one :: "'f num_ops \<Rightarrow> 'f" where "n_one N \<equiv> n_of N 1"

text \<open>A cast to \<open>u64\<close> or \<open>usize\<close>: the fraction is dropped, the rest saturates.\<close>

definition n_to_u64 :: "'f num_ops \<Rightarrow> 'f \<Rightarrow> u64" where
  "n_to_u64 N x = (if n_to_nat N x < 2 ^ 64 then of_nat (n_to_nat N x) else - 1)"

text \<open>\<open>f64::clamp(0.0, 1.0)\<close> and \<open>Iterator::sum\<close> of a list of numbers.\<close>

definition clamp01 :: "'f num_ops \<Rightarrow> 'f \<Rightarrow> 'f" where
  "clamp01 N x = (if n_less N x (n_zero N) then n_zero N else if n_less N (n_one N) x then n_one N else x)"

definition n_sum :: "'f num_ops \<Rightarrow> 'f list \<Rightarrow> 'f" where
  "n_sum N xs = fold (\<lambda>x acc. n_add N acc x) xs (n_zero N)"

text \<open>\<open>f64::round\<close> rounds half-way cases away from zero.\<close>

definition round_away :: "real \<Rightarrow> real" where
  "round_away x = (if 0 \<le> x then of_int \<lfloor>x + 1 / 2\<rfloor> else of_int \<lceil>x - 1 / 2\<rceil>)"

definition real_num :: "real num_ops" where
  "real_num = \<lparr>n_of = real, n_add = (+), n_sub = (-), n_mul = (*), n_div = (/), n_le = (\<le>), n_less = (<), n_eq = (=),
     n_finite = (\<lambda>_. True), n_ln = ln, n_exp = exp, n_neg = uminus, n_floor = (\<lambda>x. of_int \<lfloor>x\<rfloor>),
     n_ceil = (\<lambda>x. of_int \<lceil>x\<rceil>), n_round = round_away, n_to_nat = (\<lambda>x. nat \<lfloor>x\<rfloor>)\<rparr>"

lemma real_num_simps [simp]:
  "n_of real_num = real" "n_le real_num = (\<le>)" "n_less real_num = (<)" "n_eq real_num = (=)" "n_div real_num = (/)"
  "n_mul real_num = (*)" "n_add real_num = (+)" "n_sub real_num = (-)" "n_neg real_num = uminus" "n_finite real_num x"
  by (simp_all add: real_num_def)

lemma n_to_u64_less: "n_to_nat N x < 2 ^ 64 \<Longrightarrow> unat (n_to_u64 N x) = n_to_nat N x"
  by (simp add: n_to_u64_def unat_of_nat)

end
