(* ===== verification/Eval_Scoring.thy ===== *)
theory Eval_Scoring
  imports Numbers "HOL-Library.Multiset" "HOL-Library.Sublist"
begin

text \<open>
  The pure scoring functions of the evaluation harness, \<open>crates/agent-fw-eval/src/scoring.rs\<close>, with the
  score values of \<open>types.rs\<close>.

  \<^item> The operations on \<open>f64\<close> are a record of functions; the real numbers are the instance in which the
    estimators are compared with the formulas their comments cite.
  \<^item> A frequency map is a map from names to counts. Counts are natural numbers where the source has
    \<open>u32\<close>: they count elements of a list in memory.
  \<^item> The table of common subsequence lengths is the source's nested vector, filled by the two nested
    loops; the traceback walks it. Names have any type, since only equality is used.
\<close>

section \<open>Ratios, precision and recall\<close>

definition ratio_score :: "'f num_ops \<Rightarrow> nat \<Rightarrow> nat \<Rightarrow> 'f" where
  "ratio_score N matching all = (if all = 0 then n_one N else n_div N (n_of N matching) (n_of N all))"

definition compute_f_beta :: "'f num_ops \<Rightarrow> 'f \<Rightarrow> 'f \<Rightarrow> 'f \<Rightarrow> 'f" where
  "compute_f_beta N precision recall beta =
     (if \<not> n_finite N precision \<or> \<not> n_finite N recall \<or> \<not> n_finite N beta then n_zero N
      else if n_eq N (n_add N precision recall) (n_zero N) then n_zero N
      else let beta_sq = n_mul N beta beta
           in n_div N (n_mul N (n_mul N (n_add N (n_one N) beta_sq) precision) recall)
                (n_add N (n_mul N beta_sq precision) recall))"

record 'f FBetaScore =
  fb_precision :: 'f
  fb_recall :: 'f
  fb_f_score :: 'f
  fb_beta :: 'f

definition f_beta_score :: "'f num_ops \<Rightarrow> nat \<Rightarrow> nat \<Rightarrow> nat \<Rightarrow> 'f \<Rightarrow> 'f FBetaScore" where
  "f_beta_score N tp fp fn beta =
     (if tp = 0 \<and> fp = 0 \<and> fn = 0
      then \<lparr>fb_precision = n_one N, fb_recall = n_one N, fb_f_score = n_one N, fb_beta = beta\<rparr>
      else let precision = (if tp + fp = 0 then n_zero N
                            else n_div N (n_of N tp) (n_add N (n_of N tp) (n_of N fp)));
               recall = (if tp + fn = 0 then n_zero N
                         else n_div N (n_of N tp) (n_add N (n_of N tp) (n_of N fn)))
           in \<lparr>fb_precision = precision, fb_recall = recall, fb_f_score = compute_f_beta N precision recall beta,
               fb_beta = beta\<rparr>)"

record 'f JaccardScore =
  js_similarity :: 'f
  js_intersection_size :: nat
  js_union_size :: nat

definition jaccard_similarity :: "'f num_ops \<Rightarrow> 'a list \<Rightarrow> 'a list \<Rightarrow> 'f JaccardScore" where
  "jaccard_similarity N a b =
     (let i = card (set a \<inter> set b); u = card (set a \<union> set b)
      in \<lparr>js_similarity = (if u = 0 then n_one N else n_div N (n_of N i) (n_of N u)), js_intersection_size = i,
          js_union_size = u\<rparr>)"

section \<open>Pass at k\<close>

text \<open>
  The loop of the simple estimator; the left result is its early return. Arithmetic is in \<open>i64\<close> in the
  test and in \<open>u32\<close> below it, where it cannot underflow.
\<close>

fun pass_at_k_loop :: "'f num_ops \<Rightarrow> nat \<Rightarrow> nat \<Rightarrow> nat list \<Rightarrow> 'f \<Rightarrow> ('f, 'f) result" where
  "pass_at_k_loop N n c [] acc = Ok acc"
| "pass_at_k_loop N n c (i # rest) acc =
     (if int n - int c - int i \<le> 0 then Err (n_one N)
      else pass_at_k_loop N n c rest (n_mul N acc (n_div N (n_of N (n - c - i)) (n_of N (n - i)))))"

definition pass_at_k_simple :: "'f num_ops \<Rightarrow> nat \<Rightarrow> nat \<Rightarrow> nat \<Rightarrow> 'f" where
  "pass_at_k_simple N n c k =
     (if k = 0 \<or> n = 0 then n_zero N
      else if c \<ge> n then n_one N
      else if c = 0 then n_zero N
      else if k = 1 then n_div N (n_of N c) (n_of N n)
      else case pass_at_k_loop N n c [0..<k] (n_one N) of
             Err early \<Rightarrow> early
           | Ok result \<Rightarrow> n_sub N (n_one N) result)"

definition pass_at_k_unbiased :: "'f num_ops \<Rightarrow> nat \<Rightarrow> nat \<Rightarrow> nat \<Rightarrow> 'f option" where
  "pass_at_k_unbiased N n c k =
     (if k > n then None
      else if c \<ge> n then Some (n_one N)
      else if c = 0 then Some (n_zero N)
      else if n - c < k then Some (n_one N)
      else let log_ratio = fold (\<lambda>i acc. n_add N acc (n_sub N (n_ln N (n_of N (n - c - i))) (n_ln N (n_of N (n - i)))))
                             [0..<k] (n_zero N)
           in Some (clamp01 N (n_sub N (n_one N) (n_exp N log_ratio))))"

section \<open>Trajectories\<close>

datatype TrajectoryMode = Strict | Unordered | Subset | Superset | Subsequence

text \<open>\<open>*counts.entry(tool).or_insert(0) += 1\<close> for every element.\<close>

definition multiset_counts :: "'a list \<Rightarrow> 'a \<rightharpoonup> nat" where
  "multiset_counts tools =
     fold (\<lambda>t counts. counts(t \<mapsto> (case counts t of None \<Rightarrow> 0 | Some n \<Rightarrow> n) + 1)) tools Map.empty"

definition count_of :: "('a \<rightharpoonup> nat) \<Rightarrow> 'a \<Rightarrow> nat" where
  "count_of m t = (case m t of None \<Rightarrow> 0 | Some n \<Rightarrow> n)"

text \<open>The entries of the left map are visited by its keys, which are the elements of the left list.\<close>

definition multiset_is_subset :: "'a list \<Rightarrow> 'a list \<Rightarrow> bool" where
  "multiset_is_subset left right =
     (let l = multiset_counts left; r = multiset_counts right
      in list_all (\<lambda>t. case l t of None \<Rightarrow> True | Some n \<Rightarrow> count_of r t \<ge> n) left)"

fun subsequence_loop :: "'a \<Rightarrow> 'a list \<Rightarrow> 'a list \<Rightarrow> bool" where
  "subsequence_loop next_expected rest [] = False"
| "subsequence_loop next_expected rest (a # actual) =
     (if next_expected = a
      then (case rest of [] \<Rightarrow> True | e # es \<Rightarrow> subsequence_loop e es actual)
      else subsequence_loop next_expected rest actual)"

definition is_subsequence :: "'a list \<Rightarrow> 'a list \<Rightarrow> bool" where
  "is_subsequence expected actual =
     (case expected of [] \<Rightarrow> True | e # es \<Rightarrow> subsequence_loop e es actual)"

definition binary_trajectory_score :: "'f num_ops \<Rightarrow> bool \<Rightarrow> 'f \<Rightarrow> 'f FBetaScore" where
  "binary_trajectory_score N pass beta =
     (if pass then f_beta_score N 1 0 0 beta
      else \<lparr>fb_precision = n_zero N, fb_recall = n_zero N, fb_f_score = n_zero N, fb_beta = beta\<rparr>)"

fun take_counted :: "('a \<rightharpoonup> nat) \<Rightarrow> 'a list \<Rightarrow> 'a list \<times> 'a list \<times> ('a \<rightharpoonup> nat)" where
  "take_counted m [] = ([], [], m)"
| "take_counted m (t # ts) =
     (if count_of m t > 0
      then let (taken, left, m) = take_counted (m(t \<mapsto> count_of m t - 1)) ts in (t # taken, left, m)
      else let (taken, left, m) = take_counted m ts in (taken, t # left, m))"

definition multiset_trajectory_diff :: "'a list \<Rightarrow> 'a list \<Rightarrow> 'a list \<times> 'a list \<times> 'a list" where
  "multiset_trajectory_diff expected actual =
     (let (matched, unexpected, remaining) = take_counted (multiset_counts expected) actual;
          (missing, _, _) = take_counted remaining expected
      in (matched, missing, unexpected))"

text \<open>
  The table has a row and a column more than the lists; \<open>lcs[i + 1][j + 1]\<close> is written from its three
  neighbours. An index out of range would panic; \<open>cell\<close> and \<open>set_cell\<close> are only used in range.
\<close>

definition cell :: "nat list list \<Rightarrow> nat \<Rightarrow> nat \<Rightarrow> nat" where
  "cell lcs i j = lcs ! i ! j"

definition set_cell :: "nat list list \<Rightarrow> nat \<Rightarrow> nat \<Rightarrow> nat \<Rightarrow> nat list list" where
  "set_cell lcs i j v = lcs[i := (lcs ! i)[j := v]]"

definition lcs_step :: "'a \<Rightarrow> 'a \<Rightarrow> nat \<Rightarrow> nat \<Rightarrow> nat list list \<Rightarrow> nat list list" where
  "lcs_step e a i j lcs =
     (if e = a then set_cell lcs (i + 1) (j + 1) (cell lcs i j + 1)
      else set_cell lcs (i + 1) (j + 1) (max (cell lcs i (j + 1)) (cell lcs (i + 1) j)))"

definition lcs_row :: "'a list \<Rightarrow> 'a \<Rightarrow> nat \<Rightarrow> nat list list \<Rightarrow> nat list list" where
  "lcs_row actual e i lcs = fold (\<lambda>(j, a). lcs_step e a i j) (enumerate 0 actual) lcs"

definition lcs_table :: "'a list \<Rightarrow> 'a list \<Rightarrow> nat list list" where
  "lcs_table expected actual =
     fold (\<lambda>(i, e). lcs_row actual e i) (enumerate 0 expected)
       (replicate (length expected + 1) (replicate (length actual + 1) 0))"

text \<open>The loop \<open>while i > 0 && j > 0\<close> with the two vectors of flags.\<close>

function traceback ::
  "'a list \<Rightarrow> 'a list \<Rightarrow> nat list list \<Rightarrow> nat \<Rightarrow> nat \<Rightarrow> bool list \<Rightarrow> bool list \<Rightarrow> bool list \<times> bool list" where
  "traceback expected actual lcs i j me ma =
     (if i > 0 \<and> j > 0
      then if expected ! (i - 1) = actual ! (j - 1)
           then traceback expected actual lcs (i - 1) (j - 1) (me[i - 1 := True]) (ma[j - 1 := True])
           else if cell lcs (i - 1) j \<ge> cell lcs i (j - 1)
                then traceback expected actual lcs (i - 1) j me ma
                else traceback expected actual lcs i (j - 1) me ma
      else (me, ma))"
  by pat_completeness auto
termination by (relation "measure (\<lambda>(_, _, _, i, j, _, _). i + j)") auto

declare traceback.simps [simp del]

text \<open>\<open>iter().enumerate().filter(|(i, _)| flags[i]).map(..)\<close>.\<close>

definition flagged :: "bool list \<Rightarrow> 'a list \<Rightarrow> 'a list" where
  "flagged flags xs = map snd (filter (\<lambda>(i, _). flags ! i) (enumerate 0 xs))"

definition unflagged :: "bool list \<Rightarrow> 'a list \<Rightarrow> 'a list" where
  "unflagged flags xs = map snd (filter (\<lambda>(i, _). \<not> flags ! i) (enumerate 0 xs))"

definition ordered_trajectory_diff :: "'a list \<Rightarrow> 'a list \<Rightarrow> 'a list \<times> 'a list \<times> 'a list" where
  "ordered_trajectory_diff expected actual =
     (let (me, ma) = traceback expected actual (lcs_table expected actual) (length expected) (length actual)
                       (replicate (length expected) False) (replicate (length actual) False)
      in (flagged ma actual, unflagged me expected, unflagged ma actual))"

record 'f TrajectorySimilarityDiagnostics =
  td_precision :: 'f
  td_recall :: 'f
  td_f1 :: 'f
  td_f2 :: 'f

definition trajectory_similarity_diagnostics ::
  "'f num_ops \<Rightarrow> nat \<Rightarrow> nat \<Rightarrow> nat \<Rightarrow> 'f TrajectorySimilarityDiagnostics" where
  "trajectory_similarity_diagnostics N matched missing unexpected =
     (let f1 = f_beta_score N matched unexpected missing (n_of N 1);
          f2 = f_beta_score N matched unexpected missing (n_of N 2)
      in \<lparr>td_precision = fb_precision f2, td_recall = fb_recall f2, td_f1 = fb_f_score f1, td_f2 = fb_f_score f2\<rparr>)"

record ('a, 'f) TrajectoryScoreDetails =
  tsd_mode :: TrajectoryMode
  tsd_passed :: bool
  tsd_expected :: "'a list"
  tsd_actual :: "'a list"
  tsd_matched :: "'a list"
  tsd_missing :: "'a list"
  tsd_unexpected :: "'a list"
  tsd_diagnostics :: "'f TrajectorySimilarityDiagnostics"

fun trajectory_diff :: "TrajectoryMode \<Rightarrow> 'a list \<Rightarrow> 'a list \<Rightarrow> 'a list \<times> 'a list \<times> 'a list" where
  "trajectory_diff Strict expected actual = ordered_trajectory_diff expected actual"
| "trajectory_diff Subsequence expected actual = ordered_trajectory_diff expected actual"
| "trajectory_diff _ expected actual = multiset_trajectory_diff expected actual"

definition trajectory_score_details ::
  "'f num_ops \<Rightarrow> 'a list \<Rightarrow> 'a list \<Rightarrow> TrajectoryMode \<Rightarrow> bool \<Rightarrow> ('a, 'f) TrajectoryScoreDetails" where
  "trajectory_score_details N expected actual mode passed =
     (let (matched, missing, unexpected) = trajectory_diff mode expected actual
      in \<lparr>tsd_mode = mode, tsd_passed = passed, tsd_expected = expected, tsd_actual = actual, tsd_matched = matched,
          tsd_missing = missing, tsd_unexpected = unexpected,
          tsd_diagnostics = trajectory_similarity_diagnostics N (length matched) (length missing) (length unexpected)\<rparr>)"

fun score_trajectory :: "'f num_ops \<Rightarrow> 'a list \<Rightarrow> 'a list \<Rightarrow> TrajectoryMode \<Rightarrow> 'f \<Rightarrow> 'f FBetaScore" where
  "score_trajectory N expected actual Strict beta = binary_trajectory_score N (expected = actual) beta"
| "score_trajectory N expected actual Unordered beta =
     binary_trajectory_score N (length expected = length actual \<and> multiset_is_subset expected actual) beta"
| "score_trajectory N expected actual Subset beta = binary_trajectory_score N (multiset_is_subset actual expected) beta"
| "score_trajectory N expected actual Superset beta = binary_trajectory_score N (multiset_is_subset expected actual) beta"
| "score_trajectory N expected actual Subsequence beta = binary_trajectory_score N (is_subsequence expected actual) beta"

section \<open>Aggregation\<close>

record ('j, 'f) ScorerResult =
  sr_scorer_name :: string
  sr_score :: 'f
  sr_details :: "'j option"

definition scorer_result_new :: "'f num_ops \<Rightarrow> string \<Rightarrow> 'f \<Rightarrow> ('j, 'f) ScorerResult" where
  "scorer_result_new N name score = \<lparr>sr_scorer_name = name, sr_score = clamp01 N score, sr_details = None\<rparr>"

definition scorer_result_with_details :: "'f num_ops \<Rightarrow> string \<Rightarrow> 'f \<Rightarrow> 'j \<Rightarrow> ('j, 'f) ScorerResult" where
  "scorer_result_with_details N name score details =
     \<lparr>sr_scorer_name = name, sr_score = clamp01 N score, sr_details = Some details\<rparr>"

text \<open>A weight list may be shorter than the scores; the missing weights are one.\<close>

definition weight_at :: "'f num_ops \<Rightarrow> 'f list option \<Rightarrow> nat \<Rightarrow> 'f" where
  "weight_at N weights i =
     (case weights of None \<Rightarrow> n_one N | Some ws \<Rightarrow> if i < length ws then ws ! i else n_one N)"

definition aggregate_scorer_results :: "'f num_ops \<Rightarrow> ('j, 'f) ScorerResult list \<Rightarrow> 'f list option \<Rightarrow> 'f" where
  "aggregate_scorer_results N scores weights =
     (case scores of
        [] \<Rightarrow> n_one N
      | [s] \<Rightarrow> sr_score s
      | _ \<Rightarrow>
          let (weighted_sum, total_weight) =
                fold (\<lambda>(i, s) (ws, tw). let w = weight_at N weights i
                                        in (n_add N ws (n_mul N (sr_score s) w), n_add N tw w))
                  (enumerate 0 scores) (n_zero N, n_zero N)
          in if n_eq N total_weight (n_zero N) then n_zero N
             else clamp01 N (n_div N weighted_sum total_weight))"

section \<open>Frequency maps are multisets\<close>

lemma count_of_upd [simp]: "count_of (m(t \<mapsto> n)) u = (if u = t then n else count_of m u)"
  by (simp add: count_of_def)

lemma count_of_fold:
  "count_of (fold (\<lambda>t counts. counts(t \<mapsto> (case counts t of None \<Rightarrow> 0 | Some n \<Rightarrow> n) + 1)) xs m) t =
    count_of m t + count (mset xs) t"
  by (induction xs arbitrary: m) (simp_all add: count_of_def)

lemma count_of_counts [simp]: "count_of (multiset_counts xs) t = count (mset xs) t"
  using count_of_fold [of xs Map.empty t] by (simp only: multiset_counts_def) (simp add: count_of_def)

lemma subset_entry: "(case m t of None \<Rightarrow> True | Some n \<Rightarrow> k \<ge> n) \<longleftrightarrow> count_of m t \<le> k"
  by (simp add: count_of_def split: option.split)

lemma multiset_is_subset_iff: "multiset_is_subset xs ys \<longleftrightarrow> mset xs \<subseteq># mset ys"
proof -
  have "multiset_is_subset xs ys \<longleftrightarrow> (\<forall>t\<in>set xs. count (mset xs) t \<le> count (mset ys) t)"
    by (simp add: multiset_is_subset_def Let_def subset_entry list_all_iff)
  also have "\<dots> \<longleftrightarrow> (\<forall>t. count (mset xs) t \<le> count (mset ys) t)"
    by (metis count_mset_0_iff le0)
  finally show ?thesis by (simp add: subseteq_mset_def)
qed

lemma subsequence_loop_iff: "subsequence_loop e es ys \<longleftrightarrow> subseq (e # es) ys"
  by (induction ys arbitrary: e es) (auto split: list.split)

lemma is_subsequence_iff: "is_subsequence xs ys \<longleftrightarrow> subseq xs ys"
  by (cases xs) (simp_all add: is_subsequence_def subsequence_loop_iff)

lemma same_size_subset: "length xs = length ys \<and> mset xs \<subseteq># mset ys \<longleftrightarrow> mset xs = mset ys"
  using mset_subset_size [of "mset xs" "mset ys"] by (auto simp: subset_mset.le_less dest: arg_cong [of _ _ size])

text \<open>The predicate of a mode.\<close>

fun mode_holds :: "TrajectoryMode \<Rightarrow> 'a list \<Rightarrow> 'a list \<Rightarrow> bool" where
  "mode_holds Strict expected actual \<longleftrightarrow> expected = actual"
| "mode_holds Unordered expected actual \<longleftrightarrow> mset expected = mset actual"
| "mode_holds Subset expected actual \<longleftrightarrow> mset actual \<subseteq># mset expected"
| "mode_holds Superset expected actual \<longleftrightarrow> mset expected \<subseteq># mset actual"
| "mode_holds Subsequence expected actual \<longleftrightarrow> subseq expected actual"

lemma score_trajectory_mode:
  "score_trajectory N expected actual mode beta = binary_trajectory_score N (mode_holds mode expected actual) beta"
  by (cases mode) (simp_all add: multiset_is_subset_iff is_subsequence_iff same_size_subset)

lemma binary_score_real:
  "binary_trajectory_score real_num pass beta =
     (let v = (if pass then 1 else 0) in \<lparr>fb_precision = v, fb_recall = v, fb_f_score = v, fb_beta = beta\<rparr>)"
proof -
  have "1 + beta * beta \<noteq> 0" using zero_le_square [of beta] by linarith
  then show ?thesis by (simp add: binary_trajectory_score_def f_beta_score_def compute_f_beta_def Let_def)
qed

text \<open>
  C27. The trajectory score is all or nothing. Precision, recall and F-score are all one when the trajectory
  satisfies the predicate of the mode and all zero otherwise, whatever beta is: equality, equality as
  multisets, inclusion as multisets of the actual calls in the expected ones or of the expected in the
  actual, or the expected calls being a subsequence of the actual ones. A trajectory that is strictly equal
  passes in every mode. Numbers are exact here.
\<close>

theorem score_trajectory_exact:
  "score_trajectory real_num expected actual mode beta =
     (let v = (if mode_holds mode expected actual then 1 else 0)
      in \<lparr>fb_precision = v, fb_recall = v, fb_f_score = v, fb_beta = beta\<rparr>) \<and>
   fb_f_score (score_trajectory real_num actual actual mode beta) = 1"
proof
  show "score_trajectory real_num expected actual mode beta =
     (let v = (if mode_holds mode expected actual then 1 else 0)
      in \<lparr>fb_precision = v, fb_recall = v, fb_f_score = v, fb_beta = beta\<rparr>)"
    by (simp only: score_trajectory_mode binary_score_real)
  have "mode_holds mode actual actual" by (cases mode) simp_all
  then show "fb_f_score (score_trajectory real_num actual actual mode beta) = 1"
    by (simp add: score_trajectory_mode binary_score_real)
qed

section \<open>The unordered difference\<close>

lemma take_counted_spec:
  "take_counted m xs = (taken, left, m') \<Longrightarrow>
     subseq taken xs \<and> subseq left xs \<and> mset xs = mset taken + mset left \<and>
     (\<forall>t. count (mset taken) t = min (count_of m t) (count (mset xs) t)) \<and>
     (\<forall>t. count_of m' t = count_of m t - count (mset xs) t)"
proof (induction m xs arbitrary: taken left m' rule: take_counted.induct)
  case (2 m t ts)
  show ?case
  proof (cases "count_of m t > 0")
    case True
    obtain taken' where rec: "take_counted (m(t \<mapsto> count_of m t - 1)) ts = (taken', left, m')" and taken: "taken = t # taken'"
      using 2(3) True by (auto split: prod.splits)
    note IH = 2(1) [OF True rec]
    have c1: "count (mset taken) u = min (count_of m u) (count (mset (t # ts)) u)" for u
      using IH [THEN conjunct2, THEN conjunct2, THEN conjunct2, THEN conjunct1, THEN spec [of _ u]] True
      by (cases "u = t") (simp_all add: taken del: fun_upd_apply)
    have c2: "count_of m' u = count_of m u - count (mset (t # ts)) u" for u
      using IH [THEN conjunct2, THEN conjunct2, THEN conjunct2, THEN conjunct2, THEN spec [of _ u]]
      by (cases "u = t") (simp_all del: fun_upd_apply)
    have sub: "subseq taken' ts" "subseq left ts" "mset ts = mset taken' + mset left" using IH by blast+
    show ?thesis using sub by (intro conjI allI c1 c2) (auto simp: taken)
  next
    case False
    obtain left' where rec: "take_counted m ts = (taken, left', m')" and left: "left = t # left'"
      using 2(3) False by (auto split: prod.splits)
    note IH = 2(2) [OF False rec]
    have c1: "count (mset taken) u = min (count_of m u) (count (mset (t # ts)) u)" for u
      using IH [THEN conjunct2, THEN conjunct2, THEN conjunct2, THEN conjunct1, THEN spec [of _ u]] False
      by (cases "u = t") simp_all
    have c2: "count_of m' u = count_of m u - count (mset (t # ts)) u" for u
      using IH [THEN conjunct2, THEN conjunct2, THEN conjunct2, THEN conjunct2, THEN spec [of _ u]] False
      by (cases "u = t") simp_all
    have sub: "subseq taken ts" "subseq left' ts" "mset ts = mset taken + mset left'" using IH by blast+
    show ?thesis using sub by (intro conjI allI c1 c2) (auto simp: left)
  qed
qed simp

lemma multiset_diff_exact:
  assumes "multiset_trajectory_diff expected actual = (matched, missing, unexpected)"
  shows "mset matched = mset expected \<inter># mset actual" "mset missing = mset expected - mset actual"
    "mset unexpected = mset actual - mset expected" "subseq matched actual" "subseq missing expected"
    "subseq unexpected actual"
proof -
  obtain remaining where first: "take_counted (multiset_counts expected) actual = (matched, unexpected, remaining)"
    and second: "\<exists>l m. take_counted remaining expected = (missing, l, m)"
    using assms by (auto simp: multiset_trajectory_diff_def split: prod.splits)
  note a = take_counted_spec [OF first]
  obtain l m where "take_counted remaining expected = (missing, l, m)" using second by blast
  note b = take_counted_spec [OF this]
  show matched: "mset matched = mset expected \<inter># mset actual"
  proof (rule multiset_eqI)
    fix t
    have "count (mset matched) t = min (count_of (multiset_counts expected) t) (count (mset actual) t)" using a by blast
    then show "count (mset matched) t = count (mset expected \<inter># mset actual) t" by simp
  qed
  have "mset actual = mset matched + mset unexpected" using a by blast
  then have "mset unexpected = mset actual - mset matched" by simp
  then show "mset unexpected = mset actual - mset expected"
    by (intro multiset_eqI) (simp add: matched)
  show "mset missing = mset expected - mset actual"
  proof (rule multiset_eqI)
    fix t
    have "count_of remaining t = count_of (multiset_counts expected) t - count (mset actual) t" using a by blast
    moreover have "count (mset missing) t = min (count_of remaining t) (count (mset expected) t)" using b by blast
    ultimately show "count (mset missing) t = count (mset expected - mset actual) t" by simp
  qed
  show "subseq matched actual" "subseq missing expected" "subseq unexpected actual" using a b by blast+
qed

section \<open>The ordered difference\<close>

text \<open>The length of a longest common subsequence of two prefixes, by the recurrence of the table.\<close>

fun lcs_len :: "'a list \<Rightarrow> 'a list \<Rightarrow> nat \<Rightarrow> nat \<Rightarrow> nat" where
  "lcs_len xs ys 0 j = 0"
| "lcs_len xs ys (Suc i) 0 = 0"
| "lcs_len xs ys (Suc i) (Suc j) =
     (if xs ! i = ys ! j then lcs_len xs ys i j + 1 else max (lcs_len xs ys i (Suc j)) (lcs_len xs ys (Suc i) j))"

lemma lcs_len_0 [simp]: "lcs_len xs ys i 0 = 0"
  by (cases i) simp_all

lemma take_Suc_snoc: "i < length xs \<Longrightarrow> take (Suc i) xs = take i xs @ [xs ! i]"
  by (rule take_Suc_conv_app_nth)

text \<open>No common subsequence of the prefixes is longer.\<close>

lemma subseq_snoc_cases:
  assumes "subseq zs (xs @ [x])"
  shows "subseq zs xs \<or> (\<exists>zs'. zs = zs' @ [x] \<and> subseq zs' xs)"
proof -
  obtain us vs where "zs = us @ vs" "subseq us xs" "subseq vs [x]"
    using assms by (auto simp: subseq_append_iff)
  moreover from this(3) have "vs = [] \<or> vs = [x]" by (cases vs) (auto split: if_splits)
  ultimately show ?thesis by auto
qed

lemma subseq_butlast:
  assumes "subseq zs (xs @ [x])"
  shows "subseq (butlast zs) xs"
proof -
  have "subseq (butlast zs) zs" by (metis append_butlast_last_id butlast.simps(1) subseq_order.order_refl subseq_rev_drop_many)
  with subseq_snoc_cases [OF assms] show ?thesis by (auto intro: subseq_order.trans)
qed

lemma lcs_len_upper:
  assumes "i \<le> length xs" "j \<le> length ys" "subseq zs (take i xs)" "subseq zs (take j ys)"
  shows "length zs \<le> lcs_len xs ys i j"
  using assms
proof (induction xs ys i j arbitrary: zs rule: lcs_len.induct)
  case (3 xs ys i j)
  have bounds: "i < length xs" "j < length ys" using 3(4, 5) by simp_all
  have zs: "subseq zs (take i xs @ [xs ! i])" "subseq zs (take j ys @ [ys ! j])"
    using 3(6, 7) take_Suc_snoc [OF bounds(1)] take_Suc_snoc [OF bounds(2)] by simp_all
  show ?case
  proof (cases "xs ! i = ys ! j")
    case True
    have "length (butlast zs) \<le> lcs_len xs ys i j"
      using 3(1) [OF True, of "butlast zs"] bounds subseq_butlast [OF zs(1)] subseq_butlast [OF zs(2)] by simp
    with True show ?thesis by simp
  next
    case False
    with subseq_snoc_cases [OF zs(1)] subseq_snoc_cases [OF zs(2)]
    have "subseq zs (take i xs) \<or> subseq zs (take j ys)" by auto
    then show ?thesis
    proof
      assume "subseq zs (take i xs)"
      with 3(2) [OF False, of zs] 3(5, 7) bounds False show ?thesis by simp
    next
      assume "subseq zs (take j ys)"
      with 3(3) [OF False, of zs] 3(4, 6) bounds False show ?thesis by simp
    qed
  qed
qed simp_all

text \<open>The two loops fill the table with these lengths.\<close>

definition table_dim :: "nat list list \<Rightarrow> nat \<Rightarrow> nat \<Rightarrow> bool" where
  "table_dim lcs m n \<longleftrightarrow> length lcs = Suc m \<and> (\<forall>r\<in>set lcs. length r = Suc n)"

lemma table_dim_set_cell [simp]: "table_dim lcs m n \<Longrightarrow> i \<le> m \<Longrightarrow> table_dim (set_cell lcs i j v) m n"
  by (auto simp: table_dim_def set_cell_def dest!: set_update_subset_insert [THEN subsetD])

lemma cell_set_cell [simp]:
  assumes "table_dim lcs m n" "i \<le> m" "j \<le> n" "i' \<le> m"
  shows "cell (set_cell lcs i j v) i' j' = (if i' = i \<and> j' = j then v else cell lcs i' j')"
  using assms by (auto simp: table_dim_def set_cell_def cell_def nth_list_update)

definition filled :: "'a list \<Rightarrow> 'a list \<Rightarrow> nat list list \<Rightarrow> nat \<Rightarrow> nat \<Rightarrow> bool" where
  "filled xs ys lcs i j \<longleftrightarrow> table_dim lcs (length xs) (length ys) \<and>
     (\<forall>i' j'. i' \<le> length xs \<longrightarrow> j' \<le> length ys \<longrightarrow>
        cell lcs i' j' = (if i' < i \<or> i' = i \<and> j' \<le> j then lcs_len xs ys i' j' else 0))"

lemma filled_step:
  assumes "filled xs ys lcs (Suc i) j" "i < length xs" "j < length ys"
  shows "filled xs ys (lcs_step (xs ! i) (ys ! j) i j lcs) (Suc i) (Suc j)"
proof -
  have cells: "cell lcs i j = lcs_len xs ys i j" "cell lcs i (Suc j) = lcs_len xs ys i (Suc j)"
    "cell lcs (Suc i) j = lcs_len xs ys (Suc i) j"
    using assms by (simp_all add: filled_def)
  have "lcs_step (xs ! i) (ys ! j) i j lcs = set_cell lcs (Suc i) (Suc j) (lcs_len xs ys (Suc i) (Suc j))"
    by (simp add: lcs_step_def cells)
  moreover have "table_dim lcs (length xs) (length ys)" using assms(1) by (simp add: filled_def)
  ultimately show ?thesis using assms by (auto simp: filled_def le_Suc_eq)
qed

lemma filled_row:
  assumes "filled xs ys lcs i (length ys)" "i < length xs"
  shows "filled xs ys (lcs_row ys (xs ! i) i lcs) (Suc i) (length ys)"
proof -
  have start: "filled xs ys lcs (Suc i) 0"
    using assms by (auto simp: filled_def less_Suc_eq)
  have "j \<le> length ys \<Longrightarrow>
      filled xs ys (fold (\<lambda>(j, a). lcs_step (xs ! i) a i j) (take j (enumerate 0 ys)) lcs) (Suc i) j" for j
  proof (induction j)
    case 0
    from start show ?case by simp
  next
    case (Suc j)
    then have "take (Suc j) (enumerate 0 ys) = take j (enumerate 0 ys) @ [(j, ys ! j)]"
      by (simp add: take_Suc_snoc nth_enumerate_eq)
    with Suc filled_step [OF _ assms(2), of ys _ j] show ?case by simp
  qed
  from this [of "length ys"] show ?thesis by (simp add: lcs_row_def)
qed

lemma lcs_table_filled: "filled xs ys (lcs_table xs ys) (length xs) (length ys)"
proof -
  let ?zero = "replicate (length xs + 1) (replicate (length ys + 1) (0 :: nat))"
  have start: "filled xs ys ?zero 0 (length ys)"
    by (auto simp: filled_def table_dim_def cell_def nth_append simp del: replicate_Suc)
  have "i \<le> length xs \<Longrightarrow>
      filled xs ys (fold (\<lambda>(i, e). lcs_row ys e i) (take i (enumerate 0 xs)) ?zero) i (length ys)" for i
  proof (induction i)
    case 0
    from start show ?case by simp
  next
    case (Suc i)
    then have "take (Suc i) (enumerate 0 xs) = take i (enumerate 0 xs) @ [(i, xs ! i)]"
      by (simp add: take_Suc_snoc nth_enumerate_eq)
    with Suc filled_row [of xs ys _ i] show ?case by simp
  qed
  from this [of "length xs"] show ?thesis by (simp add: lcs_table_def)
qed

lemma lcs_table_cell:
  "i \<le> length xs \<Longrightarrow> j \<le> length ys \<Longrightarrow> cell (lcs_table xs ys) i j = lcs_len xs ys i j"
  using lcs_table_filled [of xs ys] by (auto simp: filled_def)

text \<open>The traceback picks the same names in both lists, and as many as the table says.\<close>

definition picked :: "bool list \<Rightarrow> 'a list \<Rightarrow> nat \<Rightarrow> 'a list" where
  "picked flags xs i = map ((!) xs) (filter ((!) flags) [0..<i])"

lemma picked_Suc: "picked flags xs (Suc i) = picked flags xs i @ (if flags ! i then [xs ! i] else [])"
  by (simp add: picked_def)

lemma picked_none: "(\<And>x. x < i \<Longrightarrow> \<not> flags ! x) \<Longrightarrow> picked flags xs i = []"
  by (simp add: picked_def)

lemma enumerate_upt: "enumerate 0 xs = map (\<lambda>i. (i, xs ! i)) [0..<length xs]"
  by (rule nth_equalityI) (simp_all add: nth_enumerate_eq)

lemma flagged_picked: "flagged flags xs = picked flags xs (length xs)"
  by (simp add: flagged_def picked_def enumerate_upt filter_map o_def case_prod_beta)

lemma traceback_spec:
  assumes "i \<le> length xs" "j \<le> length ys" "length me = length xs" "length ma = length ys"
    and "\<And>x. x < i \<Longrightarrow> \<not> me ! x" "\<And>y. y < j \<Longrightarrow> \<not> ma ! y"
    and "traceback xs ys (lcs_table xs ys) i j me ma = (me', ma')"
  shows "length me' = length xs \<and> length ma' = length ys \<and> (\<forall>x\<ge>i. me' ! x = me ! x) \<and> (\<forall>y\<ge>j. ma' ! y = ma ! y) \<and>
    picked me' xs i = picked ma' ys j \<and> length (picked ma' ys j) = lcs_len xs ys i j"
  using assms
proof (induction xs ys "lcs_table xs ys" i j me ma rule: traceback.induct)
  case (1 xs ys i j me ma)
  show ?case
  proof (cases "i > 0 \<and> j > 0")
    case False
    with 1(10) have "me' = me" "ma' = ma" by (simp_all add: traceback.simps)
    moreover from False have "lcs_len xs ys i j = 0" by auto
    ultimately show ?thesis using 1(4-9) by (simp add: picked_none)
  next
    case True
    then obtain i0 j0 where ij: "i = Suc i0" "j = Suc j0" by (metis Suc_pred)
    show ?thesis
    proof (cases "xs ! i0 = ys ! j0")
      case same: True
      with 1(10) ij have rec: "traceback xs ys (lcs_table xs ys) i0 j0 (me[i0 := True]) (ma[j0 := True]) = (me', ma')"
        by (simp add: traceback.simps [of xs ys _ "Suc i0" "Suc j0"])
      have "length me' = length xs \<and> length ma' = length ys \<and> (\<forall>x\<ge>i0. me' ! x = me[i0 := True] ! x) \<and>
          (\<forall>y\<ge>j0. ma' ! y = ma[j0 := True] ! y) \<and> picked me' xs i0 = picked ma' ys j0 \<and>
          length (picked ma' ys j0) = lcs_len xs ys i0 j0"
        using 1(1) [OF True] same rec ij 1(4-9) by simp
      moreover from this have "me' ! i0" "ma' ! j0" using 1(4-7) ij by simp_all
      ultimately show ?thesis using same ij 1(6, 7) by (simp add: picked_Suc)
    next
      case differ: False
      show ?thesis
      proof (cases "lcs_len xs ys i0 j \<ge> lcs_len xs ys i j0")
        case up: True
        with 1(4, 5) have cells: "cell (lcs_table xs ys) (i - 1) j \<ge> cell (lcs_table xs ys) i (j - 1)"
          by (simp add: ij lcs_table_cell)
        with 1(10) ij differ have rec: "traceback xs ys (lcs_table xs ys) i0 j me ma = (me', ma')"
          by (simp add: traceback.simps [of xs ys _ "Suc i0" "Suc j0"])
        have "length me' = length xs \<and> length ma' = length ys \<and> (\<forall>x\<ge>i0. me' ! x = me ! x) \<and>
            (\<forall>y\<ge>j. ma' ! y = ma ! y) \<and> picked me' xs i0 = picked ma' ys j \<and> length (picked ma' ys j) = lcs_len xs ys i0 j"
          using 1(2) [OF True _ cells] differ rec ij 1(4-9) by simp
        moreover from this have "\<not> me' ! i0" using 1(8) ij by simp
        ultimately show ?thesis using differ up ij by (simp add: picked_Suc)
      next
        case left: False
        with 1(4, 5) have cells: "\<not> cell (lcs_table xs ys) (i - 1) j \<ge> cell (lcs_table xs ys) i (j - 1)"
          by (simp add: ij lcs_table_cell)
        with 1(10) ij differ have rec: "traceback xs ys (lcs_table xs ys) i j0 me ma = (me', ma')"
          by (simp add: traceback.simps [of xs ys _ "Suc i0" "Suc j0"])
        have "length me' = length xs \<and> length ma' = length ys \<and> (\<forall>x\<ge>i. me' ! x = me ! x) \<and>
            (\<forall>y\<ge>j0. ma' ! y = ma ! y) \<and> picked me' xs i = picked ma' ys j0 \<and> length (picked ma' ys j0) = lcs_len xs ys i j0"
          using 1(3) [OF True _ cells] differ rec ij 1(4-9) by simp
        moreover from this have "\<not> ma' ! j0" using 1(9) ij by simp
        ultimately show ?thesis using differ left ij by (simp add: picked_Suc)
      qed
    qed
  qed
qed

lemma subseq_flagged: "subseq (flagged flags xs) xs" "subseq (unflagged flags xs) xs"
proof -
  have "subseq (map snd (filter P (enumerate 0 xs))) (map snd (enumerate 0 xs))" for P :: "nat \<times> 'a \<Rightarrow> bool"
    by (rule subseq_map) simp
  then show "subseq (flagged flags xs) xs" "subseq (unflagged flags xs) xs"
    by (simp_all add: flagged_def unflagged_def)
qed

lemma mset_flagged: "mset xs = mset (flagged flags xs) + mset (unflagged flags xs)"
proof -
  have "mset xs = mset (map snd (enumerate 0 xs))" by simp
  also have "\<dots> = image_mset snd (mset (enumerate 0 xs))" by (simp only: mset_map)
  also have "\<dots> = mset (flagged flags xs) + mset (unflagged flags xs)"
    by (simp add: flagged_def unflagged_def mset_filter [symmetric] image_mset_union [symmetric] case_prod_unfold
        del: mset_filter image_mset_union) (simp add: mset_filter image_mset_union [symmetric] multiset_partition [symmetric])
  finally show ?thesis .
qed

text \<open>
  C28. The ordered difference is a longest common subsequence. The matched calls are a subsequence of the
  expected and of the actual trajectory, no common subsequence is longer, and the missing and the
  unexpected calls are what is left of the two, in order.
\<close>

theorem ordered_diff_is_longest:
  "case ordered_trajectory_diff expected actual of (matched, missing, unexpected) \<Rightarrow>
     subseq matched expected \<and> subseq matched actual \<and>
     (\<forall>zs. subseq zs expected \<and> subseq zs actual \<longrightarrow> length zs \<le> length matched) \<and>
     subseq missing expected \<and> mset expected = mset matched + mset missing \<and>
     subseq unexpected actual \<and> mset actual = mset matched + mset unexpected"
proof -
  obtain me ma where run: "traceback expected actual (lcs_table expected actual) (length expected) (length actual)
      (replicate (length expected) False) (replicate (length actual) False) = (me, ma)" by fastforce
  have picks: "flagged me expected = flagged ma actual"
    "length (flagged ma actual) = lcs_len expected actual (length expected) (length actual)"
    using traceback_spec [OF _ _ _ _ _ _ run] by (simp_all add: flagged_picked)
  have "length zs \<le> length (flagged ma actual)" if "subseq zs expected" "subseq zs actual" for zs
    using lcs_len_upper [of "length expected" expected "length actual" actual zs] that picks(2) by simp
  moreover have "subseq (flagged ma actual) expected" using subseq_flagged(1) [of me expected] picks(1) by simp
  moreover have "mset expected = mset (flagged ma actual) + mset (unflagged me expected)"
    using mset_flagged [of expected me] picks(1) by simp
  ultimately show ?thesis
    using mset_flagged [of actual ma] by (simp add: ordered_trajectory_diff_def run subseq_flagged)
qed

theorem ordered_diff_is_longest_witness:
  "ordered_trajectory_diff [1, 2, 3, 4 :: int] [2, 4, 3, 5] = ([2, 3], [1, 4], [4, 5]) \<and>
   \<not> (\<exists>zs. subseq zs [1, 2, 3, 4 :: int] \<and> subseq zs [2, 4, 3, 5] \<and> 2 < length zs)"
proof -
  have run: "ordered_trajectory_diff [1, 2, 3, 4 :: int] [2, 4, 3, 5] = ([2, 3], [1, 4], [4, 5])" by code_simp
  with ordered_diff_is_longest [of "[1, 2, 3, 4 :: int]" "[2, 4, 3, 5]"]
  have "\<forall>zs. subseq zs [1, 2, 3, 4 :: int] \<and> subseq zs [2, 4, 3, 5] \<longrightarrow> length zs \<le> 2"
    by (simp add: numeral_2_eq_2)
  then show ?thesis using run by (auto simp only: not_le [symmetric])
qed

text \<open>
  The unordered difference is the intersection and the two differences of the trajectories as multisets;
  every part keeps the order of the trajectory it is taken from.
\<close>

theorem unordered_diff_exact:
  "case multiset_trajectory_diff expected actual of (matched, missing, unexpected) \<Rightarrow>
     mset matched = mset expected \<inter># mset actual \<and> subseq matched actual \<and>
     mset missing = mset expected - mset actual \<and> subseq missing expected \<and>
     mset unexpected = mset actual - mset expected \<and> subseq unexpected actual"
  using multiset_diff_exact [of expected actual] by (auto split: prod.split)

section \<open>The estimators of pass at k\<close>

lemma pass_at_k_loop_real:
  "pass_at_k_loop real_num n c [j..<k] acc =
     (if j < k \<and> n < c + k then Err 1 else Ok (acc * (\<Prod>i=j..<k. real (n - c - i) / real (n - i))))"
proof (induction "k - j" arbitrary: j acc)
  case (Suc d)
  then have j: "j < k" "[j..<k] = j # [Suc j..<k]" by (simp_all add: upt_conv_Cons)
  have IH: "pass_at_k_loop real_num n c [Suc j..<k] acc' =
      (if Suc j < k \<and> n < c + k then Err 1 else Ok (acc' * (\<Prod>i=Suc j..<k. real (n - c - i) / real (n - i))))" for acc'
    using Suc(1) [of "Suc j" acc'] Suc(2) by simp
  show ?case
  proof (cases "int n - int c - int j \<le> 0")
    case True
    with j show ?thesis by (simp add: real_num_def)
  next
    case False
    then have "n < c + k \<longleftrightarrow> Suc j < k \<and> n < c + k" by auto
    with False j show ?thesis
      by (simp add: IH prod.atLeast_Suc_lessThan)
  qed
qed simp

lemma choose_ratio:
  assumes "k \<le> n" "c \<le> n" "k \<le> n - c"
  shows "(\<Prod>i=0..<k. real (n - c - i) / real (n - i)) = real ((n - c) choose k) / real (n choose k)"
proof -
  have "(\<Prod>i=0..<k. real (n - c - i) / real (n - i)) = (\<Prod>i=0..<k. (real (n - c) - real i) / (real n - real i))"
    using assms by (intro prod.cong) (simp_all add: of_nat_diff)
  also have "\<dots> = (\<Prod>i=0..<k. real (n - c) - real i) / (\<Prod>i=0..<k. real n - real i)"
    by (rule prod_dividef)
  also have "\<dots> = (real (n - c) gchoose k) / (real n gchoose k)"
    by (simp add: gbinomial_prod_rev)
  also have "\<dots> = real ((n - c) choose k) / real (n choose k)"
    by (simp only: binomial_gbinomial)
  finally show ?thesis .
qed

lemma choose_ratio_bounds: "real ((n - c) choose k) / real (n choose k) \<in> {0..1}"
proof -
  have "(n - c) choose k \<le> n choose k" by (rule binomial_right_mono) simp
  then show ?thesis by (auto simp: divide_le_eq_1)
qed

lemma pass_simple_real:
  assumes "1 \<le> k" "k \<le> n" "c \<le> n"
  shows "pass_at_k_simple real_num n c k = 1 - real ((n - c) choose k) / real (n choose k)"
proof -
  consider "c = n" | "c = 0" | "0 < c" "c < n" "k = 1" | "0 < c" "c < n" "k \<noteq> 1" using assms by linarith
  then show ?thesis
  proof cases
    case 1
    with assms show ?thesis by (simp add: pass_at_k_simple_def real_num_def)
  next
    case 2
    with assms show ?thesis by (simp add: pass_at_k_simple_def real_num_def)
  next
    case 3
    with assms show ?thesis by (simp add: pass_at_k_simple_def real_num_def field_simps of_nat_diff)
  next
    case 4
    show ?thesis
    proof (cases "n < c + k")
      case True
      with 4 assms show ?thesis
        by (simp add: pass_at_k_simple_def pass_at_k_loop_real)
    next
      case False
      with 4 assms choose_ratio [of k n c] show ?thesis
        by (simp add: pass_at_k_simple_def pass_at_k_loop_real)
    qed
  qed
qed

lemma log_ratio_real:
  assumes "k \<le> n - c"
  shows "exp (fold (\<lambda>i acc. acc + (ln (real (n - c - i)) - ln (real (n - i)))) [0..<k] 0) =
    (\<Prod>i=0..<k. real (n - c - i) / real (n - i))"
  using assms
proof (induction k)
  case (Suc k)
  then have "0 < real (n - c - k)" "0 < real (n - k)" by simp_all
  with Suc show ?case by (simp add: exp_add exp_diff)
qed simp

text \<open>
  C29. The two estimators of pass at k, evaluated without rounding, are the formula they cite: for
  \<open>1 \<le> k \<le> n\<close> and \<open>c \<le> n\<close> passing samples, the simple one, which multiplies fractions, and the unbiased
  one, which adds logarithms, both give one minus the share of the k-element sets that miss every passing
  sample. The clamp of the second never acts.
\<close>

theorem pass_at_k_exact:
  assumes "1 \<le> k" "k \<le> n" "c \<le> n"
  shows "pass_at_k_simple real_num n c k = 1 - real ((n - c) choose k) / real (n choose k) \<and>
    pass_at_k_unbiased real_num n c k = Some (1 - real ((n - c) choose k) / real (n choose k))"
proof
  show "pass_at_k_simple real_num n c k = 1 - real ((n - c) choose k) / real (n choose k)"
    by (rule pass_simple_real [OF assms])
  have clamp: "clamp01 real_num (1 - real ((n - c) choose k) / real (n choose k)) = 1 - real ((n - c) choose k) / real (n choose k)"
  proof -
    have "clamp01 real_num x = x" if "0 \<le> x" "x \<le> 1" for x :: real
      using that by (simp add: clamp01_def real_num_def)
    moreover have "0 \<le> 1 - r" "1 - r \<le> 1" if "r \<in> {0..1}" for r :: real using that by simp_all
    ultimately show ?thesis using choose_ratio_bounds [of n c k] by blast
  qed
  consider "c = n" | "c = 0" "0 < n" | "0 < c" "c < n" "n - c < k" | "0 < c" "c < n" "k \<le> n - c"
    using assms by linarith
  then show "pass_at_k_unbiased real_num n c k = Some (1 - real ((n - c) choose k) / real (n choose k))"
  proof cases
    case 4
    with assms have "pass_at_k_unbiased real_num n c k = Some (clamp01 real_num (1 -
        exp (fold (\<lambda>i acc. acc + (ln (real (n - c - i)) - ln (real (n - i)))) [0..<k] 0)))"
      by (simp add: pass_at_k_unbiased_def) (simp add: real_num_def)
    with 4 assms clamp log_ratio_real [of k n c] choose_ratio [of k n c] show ?thesis by simp
  qed (use assms in \<open>simp_all add: pass_at_k_unbiased_def real_num_def\<close>)
qed

theorem pass_at_k_exact_witness:
  "pass_at_k_simple real_num 4 2 2 = 5 / 6 \<and> pass_at_k_unbiased real_num 4 2 2 = Some (5 / 6)"
  using pass_at_k_exact [of 2 4 2] by (simp add: choose_two eval_nat_numeral)

end
