(* ===== verification/Cost.thy ===== *)
theory Cost
  imports Numbers Stream_Part
begin

text \<open>
  Costs. Rate cards and the estimate of \<open>crates/agent-fw-core/src/cost.rs\<close>; the token usage of an evaluation
  (\<open>types.rs\<close>) and the estimates over it (\<open>cost.rs\<close>) of \<open>crates/agent-fw-eval/src\<close>.

  \<^item> Token counts are 64-bit words. A constructor that panics returns \<open>None\<close>.
  \<^item> Rates are numbers of any type with the operations of \<open>Numbers\<close>; a decimal literal is the quotient of two
    integers, which rounds to the same number.
\<close>

section \<open>Rate cards\<close>

record 'f RateCard =
  rate_input :: 'f
  rate_output :: 'f
  rate_cache_read :: 'f
  rate_cache_creation :: 'f

record 'f ModelPricing =
  mp_model :: string
  mp_rates :: "'f RateCard"

definition pricing_new :: "'f num_ops \<Rightarrow> string \<Rightarrow> 'f \<Rightarrow> 'f \<Rightarrow> 'f \<Rightarrow> 'f ModelPricing" where
  "pricing_new N model input out cache_read =
     \<lparr>mp_model = model, mp_rates = \<lparr>rate_input = input, rate_output = out, rate_cache_read = cache_read,
        rate_cache_creation = n_mul N input (n_div N (n_of N 5) (n_of N 4))\<rparr>\<rparr>"

definition with_cache_creation :: "string \<Rightarrow> 'f \<Rightarrow> 'f \<Rightarrow> 'f \<Rightarrow> 'f \<Rightarrow> 'f ModelPricing" where
  "with_cache_creation model input out cache_read creation =
     \<lparr>mp_model = model, mp_rates = \<lparr>rate_input = input, rate_output = out, rate_cache_read = cache_read,
        rate_cache_creation = creation\<rparr>\<rparr>"

definition pricing_is_valid :: "'f num_ops \<Rightarrow> 'f ModelPricing \<Rightarrow> bool" where
  "pricing_is_valid N p \<longleftrightarrow>
     list_all (\<lambda>r. n_finite N r \<and> n_le N (n_zero N) r)
       [rate_input (mp_rates p), rate_output (mp_rates p), rate_cache_read (mp_rates p), rate_cache_creation (mp_rates p)]"

definition SONNET_4_RATES :: "'f num_ops \<Rightarrow> 'f RateCard" where
  "SONNET_4_RATES N = \<lparr>rate_input = n_of N 3, rate_output = n_of N 15, rate_cache_read = n_div N (n_of N 30) (n_of N 100),
     rate_cache_creation = n_div N (n_of N 375) (n_of N 100)\<rparr>"

definition OPUS_4_RATES :: "'f num_ops \<Rightarrow> 'f RateCard" where
  "OPUS_4_RATES N = \<lparr>rate_input = n_of N 5, rate_output = n_of N 25, rate_cache_read = n_div N (n_of N 50) (n_of N 100),
     rate_cache_creation = n_div N (n_of N 625) (n_of N 100)\<rparr>"

definition HAIKU_4_RATES :: "'f num_ops \<Rightarrow> 'f RateCard" where
  "HAIKU_4_RATES N = \<lparr>rate_input = n_of N 1, rate_output = n_of N 5, rate_cache_read = n_div N (n_of N 10) (n_of N 100),
     rate_cache_creation = n_div N (n_of N 125) (n_of N 100)\<rparr>"

datatype ModelFamily = Opus4 | Sonnet4 | Haiku4

text \<open>\<open>eq_ignore_ascii_case\<close> on the leading bytes.\<close>

definition starts_ignoring_case :: "string \<Rightarrow> string \<Rightarrow> bool" where
  "starts_ignoring_case p s \<longleftrightarrow> length s \<ge> length p \<and> map ascii_lower (take (length p) s) = map ascii_lower p"

definition from_model_id :: "string \<Rightarrow> ModelFamily option" where
  "from_model_id model =
     (if starts_ignoring_case ''claude-opus'' model then Some Opus4
      else if starts_ignoring_case ''claude-sonnet'' model then Some Sonnet4
      else if starts_ignoring_case ''claude-haiku'' model then Some Haiku4
      else None)"

fun rate_card :: "'f num_ops \<Rightarrow> ModelFamily \<Rightarrow> 'f RateCard" where
  "rate_card N Opus4 = OPUS_4_RATES N"
| "rate_card N Sonnet4 = SONNET_4_RATES N"
| "rate_card N Haiku4 = HAIKU_4_RATES N"

definition try_pricing_for_model :: "'f num_ops \<Rightarrow> string \<Rightarrow> 'f ModelPricing option" where
  "try_pricing_for_model N model =
     map_option (\<lambda>family. \<lparr>mp_model = model, mp_rates = rate_card N family\<rparr>) (from_model_id model)"

record CacheTokens =
  cache_read_count :: u64
  cache_creation_count :: u64

definition sat_sub :: "'n::len word \<Rightarrow> 'n word \<Rightarrow> 'n word" where
  "sat_sub a b = (if b \<le> a then a - b else 0)"

text \<open>\<open>n as f64 * rate / 1_000_000.0\<close>.\<close>

definition rated :: "'f num_ops \<Rightarrow> u64 \<Rightarrow> 'f \<Rightarrow> 'f" where
  "rated N n rate = n_div N (n_mul N (n_of N (unat n)) rate) (n_of N 1000000)"

definition estimate_cost :: "'f num_ops \<Rightarrow> TokenUsage \<Rightarrow> CacheTokens \<Rightarrow> 'f ModelPricing \<Rightarrow> 'f" where
  "estimate_cost N usage cache pricing =
     (let r = mp_rates pricing;
          cached_total = sat_add (cache_read_count cache) (cache_creation_count cache);
          uncached_input = sat_sub (prompt_tokens usage) cached_total
      in n_add N (n_add N (n_add N (rated N uncached_input (rate_input r)) (rated N (completion_tokens usage) (rate_output r)))
           (rated N (cache_read_count cache) (rate_cache_read r))) (rated N (cache_creation_count cache) (rate_cache_creation r)))"

definition estimate_cost_simple :: "'f num_ops \<Rightarrow> TokenUsage \<Rightarrow> 'f ModelPricing \<Rightarrow> 'f" where
  "estimate_cost_simple N usage pricing =
     estimate_cost N usage \<lparr>cache_read_count = 0, cache_creation_count = 0\<rparr> pricing"

section \<open>Token usage\<close>

record TokenUsageSummary =
  tu_input_tokens :: u64
  tu_output_tokens :: u64
  tu_cached_tokens :: u64
  tu_cache_creation_tokens :: u64

datatype TokenUsageSummaryError = CacheTokensExceedInput u64 u64 u64

definition tokens_ZERO :: TokenUsageSummary where
  "tokens_ZERO = \<lparr>tu_input_tokens = 0, tu_output_tokens = 0, tu_cached_tokens = 0, tu_cache_creation_tokens = 0\<rparr>"

definition checked_add_u64 :: "u64 \<Rightarrow> u64 \<Rightarrow> u64 option" where
  "checked_add_u64 a b = (if unat a + unat b < 2 ^ 64 then Some (a + b) else None)"

definition tokens_try_new :: "u64 \<Rightarrow> u64 \<Rightarrow> u64 \<Rightarrow> u64 \<Rightarrow> (TokenUsageSummaryError, TokenUsageSummary) result" where
  "tokens_try_new input output cached creation =
     (case checked_add_u64 cached creation of
        None \<Rightarrow> Err (CacheTokensExceedInput input cached creation)
      | Some total_cached \<Rightarrow>
          if total_cached > input then Err (CacheTokensExceedInput input cached creation)
          else Ok \<lparr>tu_input_tokens = input, tu_output_tokens = output, tu_cached_tokens = cached,
                   tu_cache_creation_tokens = creation\<rparr>)"

text \<open>\<open>expect\<close> panics on an error.\<close>

definition tokens_new :: "u64 \<Rightarrow> u64 \<Rightarrow> u64 \<Rightarrow> u64 \<Rightarrow> TokenUsageSummary option" where
  "tokens_new input output cached creation =
     (case tokens_try_new input output cached creation of Ok t \<Rightarrow> Some t | Err _ \<Rightarrow> None)"

definition uncached_input_tokens :: "TokenUsageSummary \<Rightarrow> u64" where
  "uncached_input_tokens t = tu_input_tokens t - tu_cached_tokens t - tu_cache_creation_tokens t"

definition tokens_combine :: "TokenUsageSummary \<Rightarrow> TokenUsageSummary \<Rightarrow> TokenUsageSummary option" where
  "tokens_combine a b =
     tokens_new (sat_add (tu_input_tokens a) (tu_input_tokens b)) (sat_add (tu_output_tokens a) (tu_output_tokens b))
       (sat_add (tu_cached_tokens a) (tu_cached_tokens b))
       (sat_add (tu_cache_creation_tokens a) (tu_cache_creation_tokens b))"

definition tokens_total :: "TokenUsageSummary \<Rightarrow> u64" where
  "tokens_total t = sat_add (tu_input_tokens t) (tu_output_tokens t)"

definition tokens_from_usage :: "TokenUsage \<Rightarrow> TokenUsageSummary option" where
  "tokens_from_usage u =
     tokens_new (prompt_tokens u) (completion_tokens u) (cache_read_input_tokens u) (cache_creation_input_tokens u)"

definition tokens_cache_hit_rate_percent :: "'f num_ops \<Rightarrow> TokenUsageSummary \<Rightarrow> 'f option" where
  "tokens_cache_hit_rate_percent N t =
     (if tu_input_tokens t = 0 then None
      else Some (n_mul N (n_div N (n_of N (unat (tu_cached_tokens t))) (n_of N (unat (tu_input_tokens t)))) (n_of N 100)))"

section \<open>Estimates\<close>

record 'f CostEstimate =
  ce_input_cost_usd :: 'f
  ce_output_cost_usd :: 'f
  ce_cached_cost_usd :: 'f
  ce_total_usd :: 'f

definition estimate_ZERO :: "'f num_ops \<Rightarrow> 'f CostEstimate" where
  "estimate_ZERO N = \<lparr>ce_input_cost_usd = n_zero N, ce_output_cost_usd = n_zero N, ce_cached_cost_usd = n_zero N, ce_total_usd = n_zero N\<rparr>"

definition estimate_is_finite :: "'f num_ops \<Rightarrow> 'f CostEstimate \<Rightarrow> bool" where
  "estimate_is_finite N e \<longleftrightarrow>
     list_all (\<lambda>v. n_finite N v \<and> n_le N (n_zero N) v)
       [ce_input_cost_usd e, ce_output_cost_usd e, ce_cached_cost_usd e, ce_total_usd e]"

text \<open>\<open>(n as f64 / 1_000_000.0) * rate\<close>: the division comes first here.\<close>

definition millions :: "'f num_ops \<Rightarrow> u64 \<Rightarrow> 'f \<Rightarrow> 'f" where
  "millions N n rate = n_mul N (n_div N (n_of N (unat n)) (n_of N 1000000)) rate"

text \<open>The debug assertions are not part of a release build.\<close>

definition estimate_from_usage :: "'f num_ops \<Rightarrow> TokenUsageSummary \<Rightarrow> 'f ModelPricing \<Rightarrow> 'f CostEstimate" where
  "estimate_from_usage N usage pricing =
     (let core_usage = \<lparr>prompt_tokens = tu_input_tokens usage, completion_tokens = tu_output_tokens usage,
            cache_read_input_tokens = tu_cached_tokens usage, cache_creation_input_tokens = tu_cache_creation_tokens usage\<rparr>;
          cache = \<lparr>cache_read_count = tu_cached_tokens usage, cache_creation_count = tu_cache_creation_tokens usage\<rparr>;
          r = mp_rates pricing
      in \<lparr>ce_input_cost_usd = millions N (uncached_input_tokens usage) (rate_input r),
          ce_output_cost_usd = millions N (tu_output_tokens usage) (rate_output r),
          ce_cached_cost_usd = n_add N (millions N (tu_cached_tokens usage) (rate_cache_read r))
            (millions N (tu_cache_creation_tokens usage) (rate_cache_creation r)),
          ce_total_usd = estimate_cost N core_usage cache pricing\<rparr>)"

definition estimate_combine :: "'f num_ops \<Rightarrow> 'f CostEstimate \<Rightarrow> 'f CostEstimate \<Rightarrow> 'f CostEstimate" where
  "estimate_combine N a b =
     \<lparr>ce_input_cost_usd = n_add N (ce_input_cost_usd a) (ce_input_cost_usd b),
      ce_output_cost_usd = n_add N (ce_output_cost_usd a) (ce_output_cost_usd b),
      ce_cached_cost_usd = n_add N (ce_cached_cost_usd a) (ce_cached_cost_usd b),
      ce_total_usd = n_add N (ce_total_usd a) (ce_total_usd b)\<rparr>"

text \<open>The products of counts wrap around, as in a release build.\<close>

definition estimate_eval_cost ::
  "'f num_ops \<Rightarrow> u32 \<Rightarrow> u32 \<Rightarrow> u64 \<Rightarrow> u64 \<Rightarrow> 'f \<Rightarrow> 'f ModelPricing \<Rightarrow> 'f CostEstimate option" where
  "estimate_eval_cost N test_case_count samples_per_case avg_input avg_output hit_rate pricing =
     (let total_samples = (of_nat (unat test_case_count) * of_nat (unat samples_per_case) :: u64);
          total_input = total_samples * avg_input;
          total_output = total_samples * avg_output;
          total_cached = n_to_u64 N (n_mul N (n_of N (unat total_input)) hit_rate)
      in map_option (\<lambda>usage. estimate_from_usage N usage pricing) (tokens_new total_input total_output total_cached 0))"

record 'f ProfilingCostEstimate =
  pe_input_tokens :: u64
  pe_output_tokens :: u64
  pe_cached_tokens :: u64
  pe_cache_creation_tokens :: u64
  pe_cost :: "'f CostEstimate"

definition ENRICHMENT_PROMPT_OVERHEAD :: u64 where "ENRICHMENT_PROMPT_OVERHEAD = 300"

definition TOKENS_PER_COLUMN :: u64 where "TOKENS_PER_COLUMN = 25"

definition TOKENS_PER_SAMPLE_ROW :: u64 where "TOKENS_PER_SAMPLE_ROW = 120"

definition SAMPLE_ROWS :: u64 where "SAMPLE_ROWS = 3"

definition OUTPUT_BASE_TOKENS :: u64 where "OUTPUT_BASE_TOKENS = 120"

definition OUTPUT_PER_COLUMN_TOKENS :: u64 where "OUTPUT_PER_COLUMN_TOKENS = 35"

definition estimate_profiling_cost :: "'f num_ops \<Rightarrow> u32 \<Rightarrow> u32 \<Rightarrow> 'f ModelPricing \<Rightarrow> 'f ProfilingCostEstimate option" where
  "estimate_profiling_cost N table_count total_columns pricing =
     (if table_count = 0
      then Some \<lparr>pe_input_tokens = 0, pe_output_tokens = 0, pe_cached_tokens = 0, pe_cache_creation_tokens = 0,
                 pe_cost = estimate_ZERO N\<rparr>
      else let tables = (of_nat (unat table_count) :: u64);
               avg_columns = of_nat (unat total_columns) div tables;
               input_per_table = ENRICHMENT_PROMPT_OVERHEAD + avg_columns * TOKENS_PER_COLUMN + SAMPLE_ROWS * TOKENS_PER_SAMPLE_ROW;
               output_per_table = OUTPUT_BASE_TOKENS + avg_columns * OUTPUT_PER_COLUMN_TOKENS;
               input_tokens = tables * input_per_table;
               output_tokens = tables * output_per_table;
               cached_tokens = (if n_less N (n_zero N) (rate_cache_read (mp_rates pricing)) \<and> tables > 1
                                then ENRICHMENT_PROMPT_OVERHEAD * (tables - 1) else 0)
           in map_option (\<lambda>usage. \<lparr>pe_input_tokens = input_tokens, pe_output_tokens = output_tokens,
                  pe_cached_tokens = cached_tokens, pe_cache_creation_tokens = 0,
                  pe_cost = estimate_from_usage N usage pricing\<rparr>)
                (tokens_new input_tokens output_tokens cached_tokens 0))"

text \<open>A resolver of prices: the last entry of a model counts.\<close>

type_synonym 'f StaticPricingResolver = "string \<rightharpoonup> 'f ModelPricing"

definition resolver_insert :: "'f ModelPricing \<Rightarrow> 'f StaticPricingResolver \<Rightarrow> 'f StaticPricingResolver" where
  "resolver_insert p r = r(mp_model p \<mapsto> p)"

definition resolver_new :: "'f ModelPricing list \<Rightarrow> 'f StaticPricingResolver" where
  "resolver_new ps = fold resolver_insert ps Map.empty"

section \<open>Properties of token usage\<close>

text \<open>A usage summary as the constructors make them: the cached tokens are part of the input.\<close>

definition tokens_ok :: "TokenUsageSummary \<Rightarrow> bool" where
  "tokens_ok t \<longleftrightarrow> unat (tu_cached_tokens t) + unat (tu_cache_creation_tokens t) \<le> unat (tu_input_tokens t)"

lemma tokens_try_new_iff:
  "tokens_try_new i out c cr = Ok t \<longleftrightarrow>
     t = \<lparr>tu_input_tokens = i, tu_output_tokens = out, tu_cached_tokens = c, tu_cache_creation_tokens = cr\<rparr> \<and>
     unat c + unat cr \<le> unat i"
proof -
  have i: "unat i < 2 ^ 64" using unsigned_less [of i] by simp
  have "unat (c + cr) = unat c + unat cr" if "unat c + unat cr < 2 ^ 64"
    using that by (simp add: unat_word_ariths)
  with i show ?thesis
    by (auto simp: tokens_try_new_def checked_add_u64_def word_less_nat_alt not_less split: if_splits)
qed

lemma tokens_new_iff:
  "tokens_new i out c cr = Some t \<longleftrightarrow>
     t = \<lparr>tu_input_tokens = i, tu_output_tokens = out, tu_cached_tokens = c, tu_cache_creation_tokens = cr\<rparr> \<and>
     unat c + unat cr \<le> unat i"
  using tokens_try_new_iff [of i out c cr t] by (auto simp: tokens_new_def split: sum.splits)

lemma tokens_try_new_cases:
  "tokens_try_new i out c cr =
     (if unat c + unat cr \<le> unat i
      then Ok \<lparr>tu_input_tokens = i, tu_output_tokens = out, tu_cached_tokens = c, tu_cache_creation_tokens = cr\<rparr>
      else Err (CacheTokensExceedInput i c cr))"
  using tokens_try_new_iff [of i out c cr]
  by (cases "tokens_try_new i out c cr") (auto simp: tokens_try_new_def split: option.splits if_splits)

lemma tokens_combine_fits:
  assumes "tokens_ok a" "tokens_ok b" and fits: "unat (tu_input_tokens a) + unat (tu_input_tokens b) < 2 ^ 64"
  shows "\<exists>t. tokens_combine a b = Some t \<and> unat (tu_input_tokens t) = unat (tu_input_tokens a) + unat (tu_input_tokens b) \<and>
    unat (tu_cached_tokens t) = unat (tu_cached_tokens a) + unat (tu_cached_tokens b) \<and>
    unat (tu_cache_creation_tokens t) = unat (tu_cache_creation_tokens a) + unat (tu_cache_creation_tokens b)"
proof -
  define t where "t = \<lparr>tu_input_tokens = sat_add (tu_input_tokens a) (tu_input_tokens b),
    tu_output_tokens = sat_add (tu_output_tokens a) (tu_output_tokens b),
    tu_cached_tokens = sat_add (tu_cached_tokens a) (tu_cached_tokens b),
    tu_cache_creation_tokens = sat_add (tu_cache_creation_tokens a) (tu_cache_creation_tokens b)\<rparr>"
  have counts: "unat (tu_input_tokens t) = unat (tu_input_tokens a) + unat (tu_input_tokens b)"
    "unat (tu_cached_tokens t) = unat (tu_cached_tokens a) + unat (tu_cached_tokens b)"
    "unat (tu_cache_creation_tokens t) = unat (tu_cache_creation_tokens a) + unat (tu_cache_creation_tokens b)"
    using fits assms(1,2) by (simp_all add: t_def unat_sat_add tokens_ok_def)
  then have "tokens_combine a b = Some t"
    using assms(1,2) by (simp add: tokens_combine_def tokens_new_iff t_def [symmetric] tokens_ok_def)
      (simp add: t_def)
  with counts show ?thesis by blast
qed

text \<open>
  C39. Token usage is what its constructor promises. A summary is built, with the given counts, exactly when the
  cached tokens fit into the input, and otherwise the error names the three counts. Combining two summaries
  does not depend on the order; when it returns, every count is the sum of the two, saturated at the
  greatest 64-bit number, and the promise holds again. It returns whenever the inputs together fit into 64
  bits, and then the input and cache counts are the exact sums.
\<close>

theorem tokens_combine_exact:
  assumes "tokens_ok a" "tokens_ok b"
  shows "(\<forall>i out c cr. tokens_try_new i out c cr =
      (if unat c + unat cr \<le> unat i
       then Ok \<lparr>tu_input_tokens = i, tu_output_tokens = out, tu_cached_tokens = c, tu_cache_creation_tokens = cr\<rparr>
       else Err (CacheTokensExceedInput i c cr))) \<and>
    tokens_combine a b = tokens_combine b a \<and>
    (\<forall>t. tokens_combine a b = Some t \<longrightarrow> tokens_ok t \<and>
      unat (tu_input_tokens t) = min (unat (tu_input_tokens a) + unat (tu_input_tokens b)) (2 ^ 64 - 1) \<and>
      unat (tu_output_tokens t) = min (unat (tu_output_tokens a) + unat (tu_output_tokens b)) (2 ^ 64 - 1) \<and>
      unat (tu_cached_tokens t) = min (unat (tu_cached_tokens a) + unat (tu_cached_tokens b)) (2 ^ 64 - 1) \<and>
      unat (tu_cache_creation_tokens t) =
        min (unat (tu_cache_creation_tokens a) + unat (tu_cache_creation_tokens b)) (2 ^ 64 - 1)) \<and>
    (unat (tu_input_tokens a) + unat (tu_input_tokens b) < 2 ^ 64 \<longrightarrow>
     (\<exists>t. tokens_combine a b = Some t \<and> unat (tu_input_tokens t) = unat (tu_input_tokens a) + unat (tu_input_tokens b) \<and>
       unat (tu_cached_tokens t) = unat (tu_cached_tokens a) + unat (tu_cached_tokens b) \<and>
       unat (tu_cache_creation_tokens t) = unat (tu_cache_creation_tokens a) + unat (tu_cache_creation_tokens b)))"
proof (intro conjI impI allI)
  show "tokens_try_new i out c cr =
      (if unat c + unat cr \<le> unat i
       then Ok \<lparr>tu_input_tokens = i, tu_output_tokens = out, tu_cached_tokens = c, tu_cache_creation_tokens = cr\<rparr>
       else Err (CacheTokensExceedInput i c cr))" for i out c cr
    by (rule tokens_try_new_cases)
  show "tokens_combine a b = tokens_combine b a" by (simp add: tokens_combine_def sat_add_commute)
  fix t assume t: "tokens_combine a b = Some t"
  then show "tokens_ok t" by (auto simp: tokens_combine_def tokens_new_iff tokens_ok_def)
  have t: "t = \<lparr>tu_input_tokens = sat_add (tu_input_tokens a) (tu_input_tokens b),
    tu_output_tokens = sat_add (tu_output_tokens a) (tu_output_tokens b),
    tu_cached_tokens = sat_add (tu_cached_tokens a) (tu_cached_tokens b),
    tu_cache_creation_tokens = sat_add (tu_cache_creation_tokens a) (tu_cache_creation_tokens b)\<rparr>"
    using t by (simp only: tokens_combine_def tokens_new_iff)
  show "unat (tu_input_tokens t) = min (unat (tu_input_tokens a) + unat (tu_input_tokens b)) (2 ^ 64 - 1)"
    "unat (tu_output_tokens t) = min (unat (tu_output_tokens a) + unat (tu_output_tokens b)) (2 ^ 64 - 1)"
    "unat (tu_cached_tokens t) = min (unat (tu_cached_tokens a) + unat (tu_cached_tokens b)) (2 ^ 64 - 1)"
    "unat (tu_cache_creation_tokens t) =
        min (unat (tu_cache_creation_tokens a) + unat (tu_cache_creation_tokens b)) (2 ^ 64 - 1)"
    by (simp_all add: t unat_sat_add)
next
  assume fits: "unat (tu_input_tokens a) + unat (tu_input_tokens b) < 2 ^ 64"
  show "\<exists>t. tokens_combine a b = Some t \<and> unat (tu_input_tokens t) = unat (tu_input_tokens a) + unat (tu_input_tokens b) \<and>
       unat (tu_cached_tokens t) = unat (tu_cached_tokens a) + unat (tu_cached_tokens b) \<and>
       unat (tu_cache_creation_tokens t) = unat (tu_cache_creation_tokens a) + unat (tu_cache_creation_tokens b)"
    by (rule tokens_combine_fits [OF assms fits])
qed

definition sample_tokens :: "u64 \<Rightarrow> u64 \<Rightarrow> u64 \<Rightarrow> TokenUsageSummary" where
  "sample_tokens i c cr = \<lparr>tu_input_tokens = i, tu_output_tokens = 1, tu_cached_tokens = c, tu_cache_creation_tokens = cr\<rparr>"

theorem tokens_combine_exact_witness:
  "\<exists>t. tokens_combine (sample_tokens 100 40 10) (sample_tokens 50 0 20) = Some t \<and> unat (tu_input_tokens t) = 150"
proof -
  have ok: "tokens_ok (sample_tokens 100 40 10)" "tokens_ok (sample_tokens 50 0 20)"
    by (simp_all add: tokens_ok_def sample_tokens_def)
  have sum: "unat (tu_input_tokens (sample_tokens 100 40 10)) + unat (tu_input_tokens (sample_tokens 50 0 20)) = 150"
    by (simp add: sample_tokens_def)
  from tokens_combine_exact [OF ok] sum show ?thesis by fastforce
qed

text \<open>
  Saturation breaks the promise: two valid summaries whose inputs saturate can hold more cached tokens than
  the saturated input, and then combining them panics.
\<close>

theorem tokens_combine_panics:
  "tokens_ok (sample_tokens (- 1) (- 1) 0) \<and> tokens_ok (sample_tokens (- 1) 0 (- 1)) \<and>
   tokens_combine (sample_tokens (- 1) (- 1) 0) (sample_tokens (- 1) 0 (- 1)) = None"
  by (simp add: tokens_ok_def sample_tokens_def tokens_combine_def tokens_new_def tokens_try_new_def
      checked_add_u64_def sat_add_def unsigned_minus_1_eq_mask mask_eq_exp_minus_1)

section \<open>Properties of the estimates\<close>

interpretation estimate: Monoid_trait "estimate_combine real_num" "estimate_ZERO real_num"
  by unfold_locales (simp_all add: estimate_combine_def estimate_ZERO_def)

text \<open>An estimate whose total is the sum of its parts.\<close>

definition adds_up :: "real CostEstimate \<Rightarrow> bool" where
  "adds_up e \<longleftrightarrow> ce_total_usd e = ce_input_cost_usd e + ce_output_cost_usd e + ce_cached_cost_usd e"

text \<open>
  C37. The two ways of computing a cost agree. For a usage whose cached tokens fit into its input, the total of an
  estimate, computed by the pricing formula of the core, is the sum of the three parts the evaluation
  computes itself, and is the documented formula: uncached input, output, cache reads and cache writes, each
  at its rate. With valid rates every part is non-negative. Combining adds every part and the total, so
  combined estimates still add up and stay non-negative. Numbers are exact here.
\<close>

theorem cost_parts_agree:
  assumes "tokens_ok u"
  shows "adds_up (estimate_from_usage real_num u p) \<and>
    ce_total_usd (estimate_from_usage real_num u p) * 1000000 =
      (real (unat (tu_input_tokens u)) - real (unat (tu_cached_tokens u)) - real (unat (tu_cache_creation_tokens u))) *
        rate_input (mp_rates p) +
      real (unat (tu_output_tokens u)) * rate_output (mp_rates p) + real (unat (tu_cached_tokens u)) * rate_cache_read (mp_rates p) +
      real (unat (tu_cache_creation_tokens u)) * rate_cache_creation (mp_rates p) \<and>
    (pricing_is_valid real_num p \<longrightarrow> estimate_is_finite real_num (estimate_from_usage real_num u p)) \<and>
    (\<forall>e e'. map (\<lambda>part. part (estimate_combine real_num e e'))
        [ce_input_cost_usd, ce_output_cost_usd, ce_cached_cost_usd, ce_total_usd] =
      [ce_input_cost_usd e + ce_input_cost_usd e', ce_output_cost_usd e + ce_output_cost_usd e',
       ce_cached_cost_usd e + ce_cached_cost_usd e', ce_total_usd e + ce_total_usd e'] \<and>
      (adds_up e \<longrightarrow> adds_up e' \<longrightarrow> adds_up (estimate_combine real_num e e')) \<and>
      (estimate_is_finite real_num e \<longrightarrow> estimate_is_finite real_num e' \<longrightarrow>
        estimate_is_finite real_num (estimate_combine real_num e e')))"
proof -
  have i: "unat (tu_input_tokens u) < 2 ^ 64" using unsigned_less [of "tu_input_tokens u"] by simp
  have fits: "unat (tu_cached_tokens u) + unat (tu_cache_creation_tokens u) \<le> unat (tu_input_tokens u)"
    using assms by (simp add: tokens_ok_def)
  have c: "unat (sat_add (tu_cached_tokens u) (tu_cache_creation_tokens u)) =
      unat (tu_cached_tokens u) + unat (tu_cache_creation_tokens u)"
    using fits i by (simp add: unat_sat_add)
  define k where "k = unat (tu_input_tokens u) - (unat (tu_cached_tokens u) + unat (tu_cache_creation_tokens u))"
  have core: "unat (sat_sub (tu_input_tokens u) (sat_add (tu_cached_tokens u) (tu_cache_creation_tokens u))) = k"
    using fits by (simp add: sat_sub_def word_le_nat_alt c unat_sub k_def)
  have le: "tu_cached_tokens u \<le> tu_input_tokens u" using fits by (simp add: word_le_nat_alt)
  have "unat (tu_input_tokens u - tu_cached_tokens u) = unat (tu_input_tokens u) - unat (tu_cached_tokens u)"
    by (rule unat_sub [OF le])
  moreover from this have "tu_cache_creation_tokens u \<le> tu_input_tokens u - tu_cached_tokens u"
    using fits by (simp add: word_le_nat_alt)
  ultimately have own: "unat (uncached_input_tokens u) = k"
    using fits by (simp add: uncached_input_tokens_def unat_sub k_def)
  define o' r' w' where "o' = real (unat (tu_output_tokens u))" and "r' = real (unat (tu_cached_tokens u))"
    and "w' = real (unat (tu_cache_creation_tokens u))"
  have k: "real (unat (tu_input_tokens u)) - r' - w' = real k" using fits by (simp add: k_def r'_def w'_def)
  have pos: "0 \<le> o'" "0 \<le> r'" "0 \<le> w'" unfolding o'_def r'_def w'_def by (rule of_nat_0_le_iff)+
  note parts = estimate_from_usage_def estimate_cost_def rated_def millions_def Let_def
  show ?thesis
    using pos
    by (simp only: parts core own real_num_simps CostEstimate.select_convs TokenUsage.select_convs
        CacheTokens.select_convs adds_up_def estimate_combine_def o'_def [symmetric] r'_def [symmetric] w'_def [symmetric] k)
      (simp add: pricing_is_valid_def estimate_is_finite_def field_simps)
qed

theorem cost_parts_agree_witness:
  "ce_total_usd (estimate_from_usage real_num (sample_tokens 100 40 10) \<lparr>mp_model = ''m'', mp_rates = SONNET_4_RATES real_num\<rparr>) * 1000000 =
     50 * 3 + 1 * 15 + 40 * (30 / 100) + 10 * (375 / 100)"
proof -
  have "tokens_ok (sample_tokens 100 40 10)" by (simp add: tokens_ok_def sample_tokens_def)
  from cost_parts_agree [OF this, of "\<lparr>mp_model = ''m'', mp_rates = SONNET_4_RATES real_num\<rparr>"] show ?thesis
    by (simp add: sample_tokens_def SONNET_4_RATES_def)
qed

text \<open>
  Profiling estimates never wrap and never panic: for every number of tables and columns of 32 bits, the
  64-bit products are the exact ones, and the cached part fits into the input, so the estimate is returned.
\<close>

theorem profiling_cost_exact:
  "\<exists>e. estimate_profiling_cost N t c p = Some e \<and>
     unat (pe_input_tokens e) = unat t * (660 + 25 * (unat c div unat t)) \<and>
     unat (pe_output_tokens e) = unat t * (120 + 35 * (unat c div unat t)) \<and>
     unat (pe_cached_tokens e) + unat (pe_cache_creation_tokens e) \<le> unat (pe_input_tokens e)"
proof (cases "t = 0")
  case False
  define q where "q = unat c div unat t"
  have t: "0 < unat t" "unat t < 2 ^ 32" "unat c < 2 ^ 32"
    using False unsigned_less [of t] unsigned_less [of c] by (simp_all add: unat_gt_0)
  have m: "unat t * q \<le> unat c" by (simp add: q_def)
  have eqs: "unat t * (660 + 25 * q) = 660 * unat t + 25 * (unat t * q)" "unat t * (120 + 35 * q) = 120 * unat t + 35 * (unat t * q)"
    by (simp_all add: algebra_simps)
  have less: "unat t * (660 + 25 * q) < 2 ^ 64" "unat t * (120 + 35 * q) < 2 ^ 64" "300 * (unat t - 1) \<le> unat t * (660 + 25 * q)"
    unfolding eqs using t m by simp_all
  have avg: "(of_nat (unat c) :: u64) div of_nat (unat t) = of_nat q"
  proof -
    have small: "unat c < 2 ^ 64" "unat t < 2 ^ 64" "q < 2 ^ 64" using t m by (auto simp: q_def intro: le_less_trans [OF div_le_dividend])
    show ?thesis
      unfolding word_unat_eq_iff unat_div unat_of_nat_u64 [OF small(1)] unat_of_nat_u64 [OF small(2)] unat_of_nat_u64 [OF small(3)]
      by (simp only: q_def)
  qed
  have inp: "of_nat (unat t) * (ENRICHMENT_PROMPT_OVERHEAD + of_nat q * TOKENS_PER_COLUMN + SAMPLE_ROWS * TOKENS_PER_SAMPLE_ROW) =
      (of_nat (unat t * (660 + 25 * q)) :: u64)"
    by (simp add: ENRICHMENT_PROMPT_OVERHEAD_def TOKENS_PER_COLUMN_def SAMPLE_ROWS_def TOKENS_PER_SAMPLE_ROW_def algebra_simps)
  have outp: "of_nat (unat t) * (OUTPUT_BASE_TOKENS + of_nat q * OUTPUT_PER_COLUMN_TOKENS) = (of_nat (unat t * (120 + 35 * q)) :: u64)"
    by (simp add: OUTPUT_BASE_TOKENS_def OUTPUT_PER_COLUMN_TOKENS_def algebra_simps)
  have cache: "ENRICHMENT_PROMPT_OVERHEAD * (of_nat (unat t) - 1) = (of_nat (300 * (unat t - 1)) :: u64)"
    using t(1) by (simp add: ENRICHMENT_PROMPT_OVERHEAD_def of_nat_diff Suc_le_eq)
  have "300 * (unat t - 1) < 2 ^ 64" using less by linarith
  note un = unat_of_nat_u64 [OF less(1)] unat_of_nat_u64 [OF less(2)] unat_of_nat_u64 [OF this]
  let ?k = "if n_less N (n_zero N) (rate_cache_read (mp_rates p)) \<and> (of_nat (unat t) :: u64) > 1
    then of_nat (300 * (unat t - 1)) else (0 :: u64)"
  have k: "unat ?k \<le> unat t * (660 + 25 * q)" using un less(3) by simp
  define usage where "usage = \<lparr>tu_input_tokens = of_nat (unat t * (660 + 25 * q)), tu_output_tokens = of_nat (unat t * (120 + 35 * q)),
    tu_cached_tokens = ?k, tu_cache_creation_tokens = 0\<rparr>"
  have new: "tokens_new (of_nat (unat t * (660 + 25 * q))) (of_nat (unat t * (120 + 35 * q))) ?k 0 = Some usage"
    unfolding tokens_new_iff usage_def using k un(1) by simp
  have "estimate_profiling_cost N t c p = Some \<lparr>pe_input_tokens = of_nat (unat t * (660 + 25 * q)),
      pe_output_tokens = of_nat (unat t * (120 + 35 * q)), pe_cached_tokens = ?k, pe_cache_creation_tokens = 0,
      pe_cost = estimate_from_usage N usage p\<rparr>"
    using False unfolding estimate_profiling_cost_def Let_def avg inp outp cache new by (simp only: if_False option.map)
  with k un show ?thesis by (simp add: q_def [symmetric])
qed (simp add: estimate_profiling_cost_def)

text \<open>An assumed hit rate above one makes more cached tokens than input, and the estimate panics.\<close>

theorem eval_cost_hit_rate_panics: "estimate_eval_cost real_num 1 1 10 0 2 p = None"
  by (simp add: estimate_eval_cost_def Let_def n_to_u64_def real_num_def tokens_new_def tokens_try_new_def checked_add_u64_def)

text \<open>A family is recognised by a prefix that ends before the dash.\<close>

theorem family_without_dash: "from_model_id ''claude-opusculum'' = Some Opus4"
  by (simp add: from_model_id_def starts_ignoring_case_def ascii_lower_def)

end
