(* ===== verification/Latency.thy ===== *)
theory Latency
  imports Numbers Algebra Map_Order "HOL-Library.Multiset"
begin

text \<open>
  Latency metrics, \<open>crates/agent-fw-core/src/latency.rs\<close>: tool timings, the phase, store and token metrics, the
  summary with its combination, and the distribution of observations with its percentiles.

  \<^item> The documented monoid laws are the locale \<open>Monoid_trait\<close>, interpreted for every combination here.
  \<^item> The counters of a summary are a finite map read in the order of its keys.
  \<^item> A distribution sorts itself when it is asked, so its queries return the distribution as well. The sum of
    the observations is a wrapping 64-bit sum, as in a release build.
\<close>

section \<open>Tool timings\<close>

datatype ToolStatus = Tool_Completed | Tool_Error

record ToolTiming =
  tt_tool_name :: string
  tt_tool_call_id :: string
  tt_duration_ms :: u64
  tt_status :: ToolStatus
  tt_payload_size :: "u64 option"

definition timing_completed :: "string \<Rightarrow> string \<Rightarrow> u64 \<Rightarrow> ToolTiming" where
  "timing_completed name i ms =
     \<lparr>tt_tool_name = name, tt_tool_call_id = i, tt_duration_ms = ms, tt_status = Tool_Completed, tt_payload_size = None\<rparr>"

definition timing_error :: "string \<Rightarrow> string \<Rightarrow> u64 \<Rightarrow> ToolTiming" where
  "timing_error name i ms =
     \<lparr>tt_tool_name = name, tt_tool_call_id = i, tt_duration_ms = ms, tt_status = Tool_Error, tt_payload_size = None\<rparr>"

definition with_payload_size :: "u64 \<Rightarrow> ToolTiming \<Rightarrow> ToolTiming" where
  "with_payload_size n t = t\<lparr>tt_payload_size := Some n\<rparr>"

definition is_sub_agent_invocation :: "ToolTiming \<Rightarrow> bool" where
  "is_sub_agent_invocation t \<longleftrightarrow> prefix ''invoke'' (tt_tool_name t)"

section \<open>Phases\<close>

record PhaseBreakdown =
  pb_llm_time_ms :: u64
  pb_tool_time_ms :: u64
  pb_sub_agent_time_ms :: u64
  pb_llm_calls :: u32

definition phases_ZERO :: PhaseBreakdown where
  "phases_ZERO = \<lparr>pb_llm_time_ms = 0, pb_tool_time_ms = 0, pb_sub_agent_time_ms = 0, pb_llm_calls = 0\<rparr>"

definition phases_new :: "u64 \<Rightarrow> u64 \<Rightarrow> u32 \<Rightarrow> PhaseBreakdown" where
  "phases_new llm tool calls = \<lparr>pb_llm_time_ms = llm, pb_tool_time_ms = tool, pb_sub_agent_time_ms = 0, pb_llm_calls = calls\<rparr>"

definition with_sub_agent_time :: "u64 \<Rightarrow> PhaseBreakdown \<Rightarrow> PhaseBreakdown" where
  "with_sub_agent_time ms p = p\<lparr>pb_sub_agent_time_ms := ms\<rparr>"

definition phases_combine :: "PhaseBreakdown \<Rightarrow> PhaseBreakdown \<Rightarrow> PhaseBreakdown" where
  "phases_combine a b =
     \<lparr>pb_llm_time_ms = sat_add (pb_llm_time_ms a) (pb_llm_time_ms b),
      pb_tool_time_ms = sat_add (pb_tool_time_ms a) (pb_tool_time_ms b),
      pb_sub_agent_time_ms = sat_add (pb_sub_agent_time_ms a) (pb_sub_agent_time_ms b),
      pb_llm_calls = sat_add (pb_llm_calls a) (pb_llm_calls b)\<rparr>"

definition phases_is_zero :: "PhaseBreakdown \<Rightarrow> bool" where
  "phases_is_zero p \<longleftrightarrow> pb_llm_time_ms p = 0 \<and> pb_tool_time_ms p = 0 \<and> pb_sub_agent_time_ms p = 0 \<and> pb_llm_calls p = 0"

section \<open>Store metrics\<close>

record KVMetrics =
  km_bytes_written :: u64
  km_bytes_read :: u64
  km_duration_ms :: u64
  km_put_count :: u32
  km_get_count :: u32

definition km_ZERO :: KVMetrics where
  "km_ZERO = \<lparr>km_bytes_written = 0, km_bytes_read = 0, km_duration_ms = 0, km_put_count = 0, km_get_count = 0\<rparr>"

definition km_combine :: "KVMetrics \<Rightarrow> KVMetrics \<Rightarrow> KVMetrics" where
  "km_combine a b =
     \<lparr>km_bytes_written = sat_add (km_bytes_written a) (km_bytes_written b),
      km_bytes_read = sat_add (km_bytes_read a) (km_bytes_read b),
      km_duration_ms = sat_add (km_duration_ms a) (km_duration_ms b),
      km_put_count = sat_add (km_put_count a) (km_put_count b),
      km_get_count = sat_add (km_get_count a) (km_get_count b)\<rparr>"

definition km_is_zero :: "KVMetrics \<Rightarrow> bool" where
  "km_is_zero m \<longleftrightarrow> km_bytes_written m = 0 \<and> km_bytes_read m = 0 \<and> km_duration_ms m = 0 \<and> km_put_count m = 0 \<and> km_get_count m = 0"

definition km_total_bytes :: "KVMetrics \<Rightarrow> u64" where
  "km_total_bytes m = sat_add (km_bytes_written m) (km_bytes_read m)"

text \<open>\<open>duration.as_millis() as u64\<close> keeps the low 64 bits.\<close>

definition km_record_put :: "u64 \<Rightarrow> duration \<Rightarrow> KVMetrics \<Rightarrow> KVMetrics" where
  "km_record_put bytes d m =
     m\<lparr>km_bytes_written := sat_add (km_bytes_written m) bytes, km_duration_ms := sat_add (km_duration_ms m) (of_nat (as_millis d)),
       km_put_count := sat_add (km_put_count m) 1\<rparr>"

definition km_record_get :: "u64 \<Rightarrow> duration \<Rightarrow> KVMetrics \<Rightarrow> KVMetrics" where
  "km_record_get bytes d m =
     m\<lparr>km_bytes_read := sat_add (km_bytes_read m) bytes, km_duration_ms := sat_add (km_duration_ms m) (of_nat (as_millis d)),
       km_get_count := sat_add (km_get_count m) 1\<rparr>"

definition km_record_delete :: "duration \<Rightarrow> KVMetrics \<Rightarrow> KVMetrics" where
  "km_record_delete d m = m\<lparr>km_duration_ms := sat_add (km_duration_ms m) (of_nat (as_millis d))\<rparr>"

definition km_record_get_many :: "u32 \<Rightarrow> duration \<Rightarrow> KVMetrics \<Rightarrow> KVMetrics" where
  "km_record_get_many hits d m =
     m\<lparr>km_get_count := sat_add (km_get_count m) hits, km_duration_ms := sat_add (km_duration_ms m) (of_nat (as_millis d))\<rparr>"

datatype KVTimingEvent =
    KT_Put nat nat u64
  | KT_Get nat bool u64
  | KT_Delete nat u64
  | KT_GetMany nat nat u64

fun apply_to :: "KVTimingEvent \<Rightarrow> KVMetrics \<Rightarrow> KVMetrics" where
  "apply_to (KT_Put key_len value_len ms) m = km_record_put (of_nat value_len) (from_millis (unat ms)) m"
| "apply_to (KT_Get key_len hit ms) m = km_record_get (if hit then 1 else 0) (from_millis (unat ms)) m"
| "apply_to (KT_Delete key_len ms) m = km_record_delete (from_millis (unat ms)) m"
| "apply_to (KT_GetMany key_count hit_count ms) m = km_record_get_many (of_nat hit_count) (from_millis (unat ms)) m"

section \<open>Token metrics\<close>

record TokenMetrics =
  tm_input_tokens :: u64
  tm_output_tokens :: u64
  tm_cached_tokens :: u64
  tm_cache_creation_tokens :: u64

definition tm_ZERO :: TokenMetrics where
  "tm_ZERO = \<lparr>tm_input_tokens = 0, tm_output_tokens = 0, tm_cached_tokens = 0, tm_cache_creation_tokens = 0\<rparr>"

definition tm_combine :: "TokenMetrics \<Rightarrow> TokenMetrics \<Rightarrow> TokenMetrics" where
  "tm_combine a b =
     \<lparr>tm_input_tokens = sat_add (tm_input_tokens a) (tm_input_tokens b),
      tm_output_tokens = sat_add (tm_output_tokens a) (tm_output_tokens b),
      tm_cached_tokens = sat_add (tm_cached_tokens a) (tm_cached_tokens b),
      tm_cache_creation_tokens = sat_add (tm_cache_creation_tokens a) (tm_cache_creation_tokens b)\<rparr>"

definition tm_total_tokens :: "TokenMetrics \<Rightarrow> u64" where
  "tm_total_tokens m = sat_add (tm_input_tokens m) (tm_output_tokens m)"

definition tm_is_zero :: "TokenMetrics \<Rightarrow> bool" where
  "tm_is_zero m \<longleftrightarrow> tm_input_tokens m = 0 \<and> tm_output_tokens m = 0 \<and> tm_cached_tokens m = 0 \<and> tm_cache_creation_tokens m = 0"

definition cache_hit_rate :: "'f num_ops \<Rightarrow> TokenMetrics \<Rightarrow> 'f option" where
  "cache_hit_rate N m =
     (if tm_input_tokens m = 0 then None
      else Some (n_div N (n_of N (unat (tm_cached_tokens m))) (n_of N (unat (tm_input_tokens m)))))"

definition cache_hit_rate_percent :: "'f num_ops \<Rightarrow> TokenMetrics \<Rightarrow> 'f option" where
  "cache_hit_rate_percent N m = map_option (\<lambda>r. n_mul N r (n_of N 100)) (cache_hit_rate N m)"

section \<open>Retries\<close>

datatype RetryReason = RateLimit | Timeout_reason | ContextLength | ServerError | NetworkError | ContentFilter | Unknown_reason

definition should_retry_reason :: "RetryReason \<Rightarrow> bool" where
  "should_retry_reason r \<longleftrightarrow> r \<in> {RateLimit, Timeout_reason, ServerError, NetworkError}"

record RetryEvent =
  re_reason :: RetryReason
  re_attempt :: u32
  re_duration_ms :: u64

section \<open>The summary\<close>

record LatencySummary =
  ls_total_duration_ms :: u64
  ls_phases :: PhaseBreakdown
  ls_tool_timings :: "ToolTiming list"
  ls_kv_metrics :: KVMetrics
  ls_token_metrics :: TokenMetrics
  ls_ttft_ms :: "u64 option"
  ls_first_text_ms :: "u64 option"
  ls_retry_count :: u32
  ls_retry_events :: "RetryEvent list"
  ls_had_timeout :: bool
  ls_domain_counters :: "(string, u64) fmap"

definition latency_zero :: LatencySummary where
  "latency_zero =
     \<lparr>ls_total_duration_ms = 0, ls_phases = phases_ZERO, ls_tool_timings = [], ls_kv_metrics = km_ZERO, ls_token_metrics = tm_ZERO,
      ls_ttft_ms = None, ls_first_text_ms = None, ls_retry_count = 0, ls_retry_events = [], ls_had_timeout = False,
      ls_domain_counters = fmempty\<rparr>"

fun earliest :: "u64 option \<Rightarrow> u64 option \<Rightarrow> u64 option" where
  "earliest (Some a) (Some b) = Some (min a b)"
| "earliest a None = a"
| "earliest None b = b"

text \<open>\<open>merged.entry(k).or_insert(v)\<close> for every entry of the other map.\<close>

definition merge_counters :: "(string, u64) fmap \<Rightarrow> (string, u64) fmap \<Rightarrow> (string, u64) fmap" where
  "merge_counters a b =
     fold (\<lambda>(k, v) merged. if fmlookup merged k = None then fmupd k v merged else merged) (entries sorted_list_of_fset b) a"

definition latency_combine :: "LatencySummary \<Rightarrow> LatencySummary \<Rightarrow> LatencySummary" where
  "latency_combine a b =
     \<lparr>ls_total_duration_ms = sat_add (ls_total_duration_ms a) (ls_total_duration_ms b),
      ls_phases = phases_combine (ls_phases a) (ls_phases b),
      ls_tool_timings = ls_tool_timings a @ ls_tool_timings b,
      ls_kv_metrics = km_combine (ls_kv_metrics a) (ls_kv_metrics b),
      ls_token_metrics = tm_combine (ls_token_metrics a) (ls_token_metrics b),
      ls_ttft_ms = earliest (ls_ttft_ms a) (ls_ttft_ms b),
      ls_first_text_ms = earliest (ls_first_text_ms a) (ls_first_text_ms b),
      ls_retry_count = sat_add (ls_retry_count a) (ls_retry_count b),
      ls_retry_events = ls_retry_events a @ ls_retry_events b,
      ls_had_timeout = (ls_had_timeout a \<or> ls_had_timeout b),
      ls_domain_counters = merge_counters (ls_domain_counters a) (ls_domain_counters b)\<rparr>"

definition latency_is_zero :: "LatencySummary \<Rightarrow> bool" where
  "latency_is_zero s \<longleftrightarrow>
     ls_total_duration_ms s = 0 \<and> phases_is_zero (ls_phases s) \<and> ls_tool_timings s = [] \<and> km_is_zero (ls_kv_metrics s) \<and>
     tm_is_zero (ls_token_metrics s) \<and> ls_ttft_ms s = None \<and> ls_first_text_ms s = None \<and> ls_retry_count s = 0 \<and>
     ls_retry_events s = [] \<and> \<not> ls_had_timeout s \<and> fmdom (ls_domain_counters s) = {||}"

definition completed_tool_count :: "LatencySummary \<Rightarrow> nat" where
  "completed_tool_count s = length (filter (\<lambda>t. tt_status t = Tool_Completed) (ls_tool_timings s))"

definition failed_tool_count :: "LatencySummary \<Rightarrow> nat" where
  "failed_tool_count s = length (filter (\<lambda>t. tt_status t = Tool_Error) (ls_tool_timings s))"

definition tokens_per_second :: "'f num_ops \<Rightarrow> LatencySummary \<Rightarrow> 'f option" where
  "tokens_per_second N s =
     (if ls_total_duration_ms s = 0 \<or> tm_output_tokens (ls_token_metrics s) = 0 then None
      else let duration_secs = n_div N (n_of N (unat (ls_total_duration_ms s))) (n_of N 1000)
           in Some (n_div N (n_of N (unat (tm_output_tokens (ls_token_metrics s)))) duration_secs))"

definition llm_utilization :: "'f num_ops \<Rightarrow> LatencySummary \<Rightarrow> 'f option" where
  "llm_utilization N s =
     (if ls_total_duration_ms s = 0 then None
      else Some (n_div N (n_of N (unat (pb_llm_time_ms (ls_phases s)))) (n_of N (unat (ls_total_duration_ms s)))))"

definition tool_utilization :: "'f num_ops \<Rightarrow> LatencySummary \<Rightarrow> 'f option" where
  "tool_utilization N s =
     (if ls_total_duration_ms s = 0 then None
      else Some (n_div N (n_of N (unat (pb_tool_time_ms (ls_phases s)))) (n_of N (unat (ls_total_duration_ms s)))))"

definition tokens_per_llm_call :: "'f num_ops \<Rightarrow> LatencySummary \<Rightarrow> 'f option" where
  "tokens_per_llm_call N s =
     (if pb_llm_calls (ls_phases s) = 0 then None
      else Some (n_div N (n_of N (unat (tm_total_tokens (ls_token_metrics s)))) (n_of N (unat (pb_llm_calls (ls_phases s))))))"

definition avg_llm_latency_ms :: "'f num_ops \<Rightarrow> LatencySummary \<Rightarrow> 'f option" where
  "avg_llm_latency_ms N s =
     (if pb_llm_calls (ls_phases s) = 0 then None
      else Some (n_div N (n_of N (unat (pb_llm_time_ms (ls_phases s)))) (n_of N (unat (pb_llm_calls (ls_phases s))))))"

definition avg_tool_latency_ms :: "'f num_ops \<Rightarrow> LatencySummary \<Rightarrow> 'f option" where
  "avg_tool_latency_ms N s =
     (if ls_tool_timings s = [] then None
      else Some (n_div N (n_of N (unat (sum_list (map tt_duration_ms (ls_tool_timings s))))) (n_of N (length (ls_tool_timings s)))))"

definition retries_by_reason :: "RetryReason \<Rightarrow> LatencySummary \<Rightarrow> RetryEvent list" where
  "retries_by_reason r s = filter (\<lambda>e. re_reason e = r) (ls_retry_events s)"

definition retry_count_by_reason :: "RetryReason \<Rightarrow> LatencySummary \<Rightarrow> nat" where
  "retry_count_by_reason r s = length (retries_by_reason r s)"

definition fold_latency :: "LatencySummary list \<Rightarrow> LatencySummary" where
  "fold_latency xs = foldl latency_combine latency_zero xs"

section \<open>Distributions\<close>

record LatencyDistribution =
  ld_observations :: "u64 list"
  ld_sorted :: bool

definition dist_new :: LatencyDistribution where
  "dist_new = \<lparr>ld_observations = [], ld_sorted = True\<rparr>"

definition observe :: "u64 \<Rightarrow> LatencyDistribution \<Rightarrow> LatencyDistribution" where
  "observe v d = d\<lparr>ld_observations := ld_observations d @ [v], ld_sorted := False\<rparr>"

definition observe_many :: "u64 list \<Rightarrow> LatencyDistribution \<Rightarrow> LatencyDistribution" where
  "observe_many vs d = d\<lparr>ld_observations := ld_observations d @ vs, ld_sorted := False\<rparr>"

definition ensure_sorted :: "LatencyDistribution \<Rightarrow> LatencyDistribution" where
  "ensure_sorted d =
     (if \<not> ld_sorted d then d\<lparr>ld_observations := sort (ld_observations d), ld_sorted := True\<rparr> else d)"

definition percentile :: "'f num_ops \<Rightarrow> 'f \<Rightarrow> LatencyDistribution \<Rightarrow> u64 option \<times> LatencyDistribution" where
  "percentile N p d =
     (if ld_observations d = [] then (None, d)
      else let d = ensure_sorted d; obs = ld_observations d; p = clamp01 N p; n = length obs;
               rank = n_mul N p (n_of N (n - 1));
               lower_idx = min (n_to_nat N (n_floor N rank)) (n - 1);
               upper_idx = min (n_to_nat N (n_ceil N rank)) (n - 1)
           in if lower_idx = upper_idx then (Some (obs ! lower_idx), d)
              else let frac = n_sub N rank (n_of N lower_idx);
                       lower = n_of N (unat (obs ! lower_idx));
                       upper = n_of N (unat (obs ! upper_idx))
                   in (Some (n_to_u64 N (n_round N (n_add N lower (n_mul N frac (n_sub N upper lower))))), d))"

definition dist_min :: "LatencyDistribution \<Rightarrow> u64 option \<times> LatencyDistribution" where
  "dist_min d =
     (if ld_observations d = [] then (None, d)
      else let d = ensure_sorted d in (Some (ld_observations d ! 0), d))"

definition dist_max :: "LatencyDistribution \<Rightarrow> u64 option \<times> LatencyDistribution" where
  "dist_max d =
     (if ld_observations d = [] then (None, d)
      else let d = ensure_sorted d in (Some (ld_observations d ! (length (ld_observations d) - 1)), d))"

definition dist_mean :: "'f num_ops \<Rightarrow> LatencyDistribution \<Rightarrow> 'f option" where
  "dist_mean N d =
     (if ld_observations d = [] then None
      else Some (n_div N (n_of N (unat (sum_list (ld_observations d)))) (n_of N (length (ld_observations d)))))"

definition dist_merge :: "LatencyDistribution \<Rightarrow> LatencyDistribution \<Rightarrow> LatencyDistribution" where
  "dist_merge d other = d\<lparr>ld_observations := ld_observations d @ ld_observations other, ld_sorted := False\<rparr>"

definition dist_clear :: "LatencyDistribution \<Rightarrow> LatencyDistribution" where
  "dist_clear d = d\<lparr>ld_observations := [], ld_sorted := True\<rparr>"

record 'f DistributionSummary =
  di_count :: nat
  di_min :: u64
  di_max :: u64
  di_mean :: 'f
  di_p50 :: u64
  di_p95 :: u64
  di_p99 :: u64

text \<open>The \<open>unwrap\<close>s of the fields cannot fail, which the outer option records.\<close>

definition dist_summary :: "'f num_ops \<Rightarrow> LatencyDistribution \<Rightarrow> 'f DistributionSummary option option \<times> LatencyDistribution" where
  "dist_summary N d =
     (if ld_observations d = [] then (Some None, d)
      else let count = length (ld_observations d);
               (mn, d) = dist_min d; (mx, d) = dist_max d; mean = dist_mean N d;
               (p50, d) = percentile N (n_div N (n_of N 50) (n_of N 100)) d;
               (p95, d) = percentile N (n_div N (n_of N 95) (n_of N 100)) d;
               (p99, d) = percentile N (n_div N (n_of N 99) (n_of N 100)) d
           in (case (mn, mx, mean, p50, p95, p99) of
                 (Some mn, Some mx, Some mean, Some p50, Some p95, Some p99) \<Rightarrow>
                   Some (Some \<lparr>di_count = count, di_min = mn, di_max = mx, di_mean = mean, di_p50 = p50, di_p95 = p95, di_p99 = p99\<rparr>)
               | _ \<Rightarrow> None, d))"

type_synonym ToolDistributions = "(string, LatencyDistribution) fmap"

text \<open>\<open>or_default()\<close> makes an empty distribution whose flag is false.\<close>

definition tools_record :: "string \<Rightarrow> u64 \<Rightarrow> ToolDistributions \<Rightarrow> ToolDistributions" where
  "tools_record name ms ds =
     fmupd name (observe ms (unwrap_or \<lparr>ld_observations = [], ld_sorted = False\<rparr> (fmlookup ds name))) ds"

definition record_from_summary :: "LatencySummary \<Rightarrow> ToolDistributions \<Rightarrow> ToolDistributions" where
  "record_from_summary s ds = fold (\<lambda>t. tools_record (tt_tool_name t) (tt_duration_ms t)) (ls_tool_timings s) ds"

section \<open>The monoid laws\<close>

lemma merge_counters_lookup:
  "fmlookup (merge_counters a b) k = (case fmlookup a k of Some v \<Rightarrow> Some v | None \<Rightarrow> fmlookup b k)"
proof -
  have *: "fmlookup (fold (\<lambda>(k, v) merged. if fmlookup merged k = None then fmupd k v merged else merged) es m) k =
      (case fmlookup m k of Some v \<Rightarrow> Some v | None \<Rightarrow> map_of es k)" for es m
    by (induction es arbitrary: m) (auto split: option.splits if_splits)
  show ?thesis unfolding merge_counters_def * entries_map_of [OF sorted_enumerates] by (rule refl)
qed

lemma merge_counters_monoid:
  "merge_counters (merge_counters a b) c = merge_counters a (merge_counters b c)"
  "merge_counters fmempty a = a" "merge_counters a fmempty = a"
  by (rule fmap_ext; simp add: merge_counters_lookup split: option.splits)+

lemma fmdom_empty_iff: "fmdom m = {||} \<longleftrightarrow> m = fmempty"
  by (auto intro!: fmap_ext simp: fmdom_notD)

lemma earliest_monoid:
  "earliest (earliest a b) c = earliest a (earliest b c)" "earliest None a = a" "earliest a None = a"
  by (cases a; cases b; cases c; simp add: min.assoc)+

interpretation phases: Monoid_trait phases_combine phases_ZERO
  by unfold_locales (simp_all add: phases_combine_def phases_ZERO_def sat_add_assoc)

interpretation kv_latency: Monoid_trait km_combine km_ZERO
  by unfold_locales (simp_all add: km_combine_def km_ZERO_def sat_add_assoc)

interpretation token_metrics: Monoid_trait tm_combine tm_ZERO
  by unfold_locales (simp_all add: tm_combine_def tm_ZERO_def sat_add_assoc)

lemmas latency_monoids = phases.combine_assoc phases.empty_left phases.empty_right kv_latency.combine_assoc
  kv_latency.empty_left kv_latency.empty_right token_metrics.combine_assoc token_metrics.empty_left token_metrics.empty_right
  merge_counters_monoid earliest_monoid sat_add_assoc

interpretation latency: Monoid_trait latency_combine latency_zero
  by unfold_locales (simp_all add: latency_combine_def latency_zero_def latency_monoids)

text \<open>Recording an event is combining with what the event alone records.\<close>

lemma apply_to_combine: "apply_to e m = km_combine m (apply_to e km_ZERO)"
  by (cases e) (simp_all add: km_combine_def km_ZERO_def km_record_put_def km_record_get_def km_record_delete_def
    km_record_get_many_def)

text \<open>The first of the optional values, and the least of them.\<close>

definition first_value :: "'a option list \<Rightarrow> 'a option" where
  "first_value xs = (case dropWhile (\<lambda>x. x = None) xs of [] \<Rightarrow> None | x # _ \<Rightarrow> x)"

definition least_value :: "'a::linorder option list \<Rightarrow> 'a option" where
  "least_value xs = (let vs = List.map_filter id xs in if vs = [] then None else Some (Min (set vs)))"

lemma least_value_Cons [simp]:
  "least_value [] = None" "least_value (x # xs) = earliest x (least_value xs)"
  by (cases x; auto simp: least_value_def Let_def map_filter_simps)+

lemma first_value_Cons [simp]:
  "first_value [] = None" "first_value (x # xs) = (case x of None \<Rightarrow> first_value xs | Some v \<Rightarrow> Some v)"
  by (auto simp: first_value_def split: option.splits)

text \<open>A summary folded from the right, one field at a time.\<close>

lemma fold_latency_Cons: "fold_latency (x # xs) = latency_combine x (fold_latency xs)"
  using latency.foldl_combine [of x xs] by (simp add: fold_latency_def latency.empty_left)

text \<open>
  C35. Folding latency summaries is exact, however the summaries are grouped: the fold of a concatenation is the
  combination of the folds; durations and call counts are the saturated sums, tool timings and retry
  events the concatenations in order, the time to the first token is the least one reported, a time-out is
  reported exactly when one summary reports one, a counter has the value of the first summary that has it,
  and the test for the identity accepts exactly the identity.
\<close>

theorem fold_latency_exact:
  "fold_latency (xs @ ys) = latency_combine (fold_latency xs) (fold_latency ys) \<and>
   unat (ls_total_duration_ms (fold_latency xs)) = min (sum_list (map (unat \<circ> ls_total_duration_ms) xs)) (2 ^ 64 - 1) \<and>
   unat (pb_llm_calls (ls_phases (fold_latency xs))) = min (sum_list (map (unat \<circ> pb_llm_calls \<circ> ls_phases) xs)) (2 ^ 32 - 1) \<and>
   ls_tool_timings (fold_latency xs) = concat (map ls_tool_timings xs) \<and>
   ls_retry_events (fold_latency xs) = concat (map ls_retry_events xs) \<and>
   ls_ttft_ms (fold_latency xs) = least_value (map ls_ttft_ms xs) \<and>
   (ls_had_timeout (fold_latency xs) \<longleftrightarrow> list_ex ls_had_timeout xs) \<and>
   fmlookup (ls_domain_counters (fold_latency xs)) k = first_value (map (\<lambda>x. fmlookup (ls_domain_counters x) k) xs) \<and>
   (latency_is_zero x \<longleftrightarrow> x = latency_zero)"
proof (intro conjI)
  show "fold_latency (xs @ ys) = latency_combine (fold_latency xs) (fold_latency ys)"
    using latency.foldl_combine [of "foldl latency_combine latency_zero xs" ys] by (simp add: fold_latency_def)
  have nil: "fold_latency [] = latency_zero" by (simp add: fold_latency_def)
  show "unat (ls_total_duration_ms (fold_latency xs)) = min (sum_list (map (unat \<circ> ls_total_duration_ms) xs)) (2 ^ 64 - 1)"
    by (induction xs) (simp_all add: nil fold_latency_Cons latency_zero_def latency_combine_def unat_sat_add min_add_distrib_right)
  show "unat (pb_llm_calls (ls_phases (fold_latency xs))) = min (sum_list (map (unat \<circ> pb_llm_calls \<circ> ls_phases) xs)) (2 ^ 32 - 1)"
    by (induction xs) (simp_all add: nil fold_latency_Cons latency_zero_def latency_combine_def phases_ZERO_def
      phases_combine_def unat_sat_add)
  show "ls_tool_timings (fold_latency xs) = concat (map ls_tool_timings xs)"
    "ls_retry_events (fold_latency xs) = concat (map ls_retry_events xs)"
    "ls_ttft_ms (fold_latency xs) = least_value (map ls_ttft_ms xs)"
    "ls_had_timeout (fold_latency xs) \<longleftrightarrow> list_ex ls_had_timeout xs"
    "fmlookup (ls_domain_counters (fold_latency xs)) k = first_value (map (\<lambda>x. fmlookup (ls_domain_counters x) k) xs)"
    by (induction xs)
      (simp_all add: nil fold_latency_Cons latency_zero_def latency_combine_def merge_counters_lookup split: option.splits)
  show "latency_is_zero x \<longleftrightarrow> x = latency_zero"
    by (cases x) (auto simp: latency_is_zero_def latency_zero_def phases_is_zero_def phases_ZERO_def km_is_zero_def km_ZERO_def
      tm_is_zero_def tm_ZERO_def fmdom_empty_iff)
qed

text \<open>
  A read that finds its key adds one byte, whatever it read: the bytes read of the metrics count the hits.
\<close>

theorem bytes_read_counts_hits:
  "unat (km_bytes_read (fold apply_to (replicate n (KT_Get key_len True ms)) km_ZERO)) = min n (2 ^ 64 - 1)"
proof (induction n)
  case (Suc n)
  then show ?case
    by (simp add: replicate_append_same [symmetric] km_record_get_def unat_sat_add del: replicate_Suc)
qed (simp add: km_ZERO_def)


section \<open>Percentiles\<close>

text \<open>The flag of a distribution is truthful, and stays so.\<close>

definition dist_ok :: "LatencyDistribution \<Rightarrow> bool" where
  "dist_ok d \<longleftrightarrow> (ld_sorted d \<longrightarrow> sorted (ld_observations d))"

lemma dist_ok_ops [simp]:
  "dist_ok dist_new" "dist_ok (observe v d)" "dist_ok (observe_many vs d)" "dist_ok (dist_merge d d')" "dist_ok (dist_clear d)"
  "dist_ok d \<Longrightarrow> dist_ok (ensure_sorted d)"
  by (simp_all add: dist_ok_def dist_new_def observe_def observe_many_def dist_merge_def dist_clear_def ensure_sorted_def)

lemma sort_nonempty: "xs \<noteq> [] \<Longrightarrow> sort xs \<noteq> []"
  by (cases "sort xs") (auto dest: arg_cong [where f = length])

lemma sorted_ends:
  assumes "sorted xs" "xs \<noteq> []"
  shows "xs ! 0 = Min (set xs)" "xs ! (length xs - 1) = Max (set xs)"
proof -
  have n: "0 < length xs" "length xs - 1 < length xs" using assms(2) by simp_all
  have "xs ! 0 \<le> y \<and> y \<le> xs ! (length xs - 1)" if "y \<in> set xs" for y
    using that assms(1) by (auto simp: in_set_conv_nth intro!: sorted_nth_mono)
  with nth_mem [OF n(1)] nth_mem [OF n(2)] show "xs ! 0 = Min (set xs)" "xs ! (length xs - 1) = Max (set xs)"
    by (metis List.finite_set Min_eqI, metis List.finite_set Max_eqI)
qed

lemma ensure_sorted_obs: "dist_ok d \<Longrightarrow> ld_observations (ensure_sorted d) = sort (ld_observations d)"
  by (simp add: ensure_sorted_def dist_ok_def sorted_sort_id)

text \<open>The value at a fractional position of a list, between its neighbours.\<close>

definition interp :: "u64 list \<Rightarrow> real \<Rightarrow> real" where
  "interp xs r = real (unat (xs ! nat \<lfloor>r\<rfloor>)) + (r - of_int \<lfloor>r\<rfloor>) * (real (unat (xs ! nat \<lceil>r\<rceil>)) - real (unat (xs ! nat \<lfloor>r\<rfloor>)))"

lemma nth_unat_mono: "sorted xs \<Longrightarrow> i \<le> j \<Longrightarrow> j < length xs \<Longrightarrow> real (unat (xs ! i)) \<le> real (unat (xs ! j))" for xs :: "u64 list"
  by (rule of_nat_mono) (simp add: sorted_nth_mono flip: word_le_nat_alt)

lemma position_bounds:
  assumes "0 \<le> r" "r \<le> real (n - 1)" "0 < n"
  shows "nat \<lfloor>r\<rfloor> \<le> nat \<lceil>r\<rceil>" "nat \<lceil>r\<rceil> < n" "real (nat \<lfloor>r\<rfloor>) = of_int \<lfloor>r\<rfloor>"
proof -
  show "nat \<lfloor>r\<rfloor> \<le> nat \<lceil>r\<rceil>" by (rule nat_mono) (rule floor_le_ceiling)
  have "\<lceil>r\<rceil> \<le> int (n - 1)" using assms(2) by (simp add: ceiling_le_iff)
  then show "nat \<lceil>r\<rceil> < n" using assms(3) by linarith
  show "real (nat \<lfloor>r\<rfloor>) = of_int \<lfloor>r\<rfloor>" using assms(1) by simp
qed

lemma interp_bounds:
  assumes "sorted xs" "0 \<le> r" "r \<le> real (length xs - 1)" "xs \<noteq> []"
  shows "real (unat (xs ! nat \<lfloor>r\<rfloor>)) \<le> interp xs r" "interp xs r \<le> real (unat (xs ! nat \<lceil>r\<rceil>))"
proof -
  have n: "0 < length xs" using assms(4) by simp
  have le: "real (unat (xs ! nat \<lfloor>r\<rfloor>)) \<le> real (unat (xs ! nat \<lceil>r\<rceil>))"
    by (rule nth_unat_mono [OF assms(1) position_bounds(1, 2) [OF assms(2, 3) n]])
  have f: "0 \<le> r - of_int \<lfloor>r\<rfloor>" "r - of_int \<lfloor>r\<rfloor> \<le> 1" by linarith+
  from le f show "real (unat (xs ! nat \<lfloor>r\<rfloor>)) \<le> interp xs r" by (simp add: interp_def)
  have "(r - of_int \<lfloor>r\<rfloor>) * (real (unat (xs ! nat \<lceil>r\<rceil>)) - real (unat (xs ! nat \<lfloor>r\<rfloor>))) \<le>
      1 * (real (unat (xs ! nat \<lceil>r\<rceil>)) - real (unat (xs ! nat \<lfloor>r\<rfloor>)))"
    using le f by (intro mult_right_mono) simp_all
  then show "interp xs r \<le> real (unat (xs ! nat \<lceil>r\<rceil>))" by (simp add: interp_def)
qed

lemma interp_mono:
  assumes "sorted xs" "0 \<le> r" "r \<le> r'" "r' \<le> real (length xs - 1)" "xs \<noteq> []"
  shows "interp xs r \<le> interp xs r'"
proof (cases "\<lfloor>r\<rfloor> = \<lfloor>r'\<rfloor>")
  case True
  show ?thesis
  proof (cases "r = r'")
    case False
    show ?thesis
    proof (cases "r = of_int \<lfloor>r\<rfloor>")
      case True
      then have "interp xs r = real (unat (xs ! nat \<lfloor>r'\<rfloor>))" using \<open>\<lfloor>r\<rfloor> = \<lfloor>r'\<rfloor>\<close> by (simp add: interp_def)
      then show ?thesis using interp_bounds(1) [OF assms(1) _ assms(4, 5)] assms(2, 3) by simp
    next
      case False
      with \<open>r \<noteq> r'\<close> True assms(3) have "\<lceil>r\<rceil> = \<lfloor>r\<rfloor> + 1" "\<lceil>r'\<rceil> = \<lfloor>r\<rfloor> + 1" by linarith+
      then have c: "nat \<lceil>r\<rceil> = nat \<lceil>r'\<rceil>" by simp
      have "0 < length xs" using assms(5) by simp
      note pos = position_bounds [OF _ assms(4) this]
      have "real (unat (xs ! nat \<lfloor>r'\<rfloor>)) \<le> real (unat (xs ! nat \<lceil>r'\<rceil>))"
        by (rule nth_unat_mono [OF assms(1) pos(1, 2)]) (use assms(2, 3) in simp_all)
      then have "(r - of_int \<lfloor>r'\<rfloor>) * (real (unat (xs ! nat \<lceil>r'\<rceil>)) - real (unat (xs ! nat \<lfloor>r'\<rfloor>))) \<le>
          (r' - of_int \<lfloor>r'\<rfloor>) * (real (unat (xs ! nat \<lceil>r'\<rceil>)) - real (unat (xs ! nat \<lfloor>r'\<rfloor>)))"
        using assms(3) by (intro mult_right_mono) simp_all
      then show ?thesis by (simp add: interp_def c True)
    qed
  qed simp
next
  case False
  with assms(3) have "\<lceil>r\<rceil> \<le> \<lfloor>r'\<rfloor>" by linarith
  then have ij: "nat \<lceil>r\<rceil> \<le> nat \<lfloor>r'\<rfloor>" by (rule nat_mono)
  have n: "0 < length xs" using assms(5) by simp
  have "0 \<le> r'" using assms(2, 3) by simp
  note pos = position_bounds [OF this assms(4) n]
  have "interp xs r \<le> real (unat (xs ! nat \<lceil>r\<rceil>))"
    using interp_bounds(2) [OF assms(1, 2) _ assms(5)] assms(3, 4) by simp
  also have "\<dots> \<le> real (unat (xs ! nat \<lfloor>r'\<rfloor>))"
    by (rule nth_unat_mono [OF assms(1) ij]) (use pos in simp)
  also have "\<dots> \<le> interp xs r'" by (rule interp_bounds(1) [OF assms(1) \<open>0 \<le> r'\<close> assms(4, 5)])
  finally show ?thesis .
qed

lemma round_away_nat:
  assumes "real a \<le> x" "x \<le> real b"
  shows "a \<le> nat \<lfloor>round_away x\<rfloor>" "nat \<lfloor>round_away x\<rfloor> \<le> b"
  using assms by (simp_all add: round_away_def) linarith+

lemma round_away_mono: "x \<le> y \<Longrightarrow> round_away x \<le> round_away y"
  by (auto simp: round_away_def floor_mono ceiling_mono) linarith

text \<open>What a percentile computes on a sorted, non-empty list.\<close>

lemma percentile_real:
  fixes p :: real
  assumes "dist_ok d" "ld_observations d \<noteq> []"
  defines "xs \<equiv> sort (ld_observations d)" and "r \<equiv> clamp01 real_num p * real (length (ld_observations d) - 1)"
  shows "\<exists>v. percentile real_num p d = (Some v, ensure_sorted d) \<and> unat v = nat \<lfloor>round_away (interp xs r)\<rfloor>"
proof -
  have xs: "xs \<noteq> []" "sorted xs" "length xs = length (ld_observations d)" "0 < length xs"
    using assms(2) by (simp_all add: xs_def sort_nonempty)
  have clamp: "0 \<le> clamp01 real_num p" "clamp01 real_num p \<le> 1" by (simp_all add: clamp01_def real_num_def)
  then have r: "0 \<le> r" "r \<le> real (length xs - 1)" by (simp_all add: r_def xs mult_left_le_one_le)
  note pos = position_bounds [OF r xs(4)]
  note b = interp_bounds [OF xs(2) r xs(1)]
  have lo: "min (n_to_nat real_num (n_floor real_num r)) (length xs - 1) = nat \<lfloor>r\<rfloor>"
    and up: "min (n_to_nat real_num (n_ceil real_num r)) (length xs - 1) = nat \<lceil>r\<rceil>"
    using pos by (simp_all add: real_num_def)
  have rank: "n_mul real_num (clamp01 real_num p) (n_of real_num (length xs - 1)) = r" by (simp add: r_def xs(3))
  let ?x = "n_add real_num (n_of real_num (unat (xs ! nat \<lfloor>r\<rfloor>))) (n_mul real_num (n_sub real_num r (n_of real_num (nat \<lfloor>r\<rfloor>)))
    (n_sub real_num (n_of real_num (unat (xs ! nat \<lceil>r\<rceil>))) (n_of real_num (unat (xs ! nat \<lfloor>r\<rfloor>)))))"
  have perc: "percentile real_num p d =
      (if nat \<lfloor>r\<rfloor> = nat \<lceil>r\<rceil> then (Some (xs ! nat \<lfloor>r\<rfloor>), ensure_sorted d)
       else (Some (n_to_u64 real_num (n_round real_num ?x)), ensure_sorted d))"
    unfolding percentile_def Let_def ensure_sorted_obs [OF assms(1)] xs_def [symmetric] rank lo up if_not_P [OF assms(2)]
    by (rule refl)
  show ?thesis
  proof (cases "nat \<lfloor>r\<rfloor> = nat \<lceil>r\<rceil>")
    case True
    have "nat \<lfloor>round_away (interp xs r)\<rfloor> = unat (xs ! nat \<lfloor>r\<rfloor>)"
      using round_away_nat [OF b] True by simp
    then show ?thesis unfolding perc if_P [OF True] by (intro exI conjI) (rule refl, simp)
  next
    case False
    have x: "n_to_nat real_num (n_round real_num ?x) = nat \<lfloor>round_away (interp xs r)\<rfloor>"
      unfolding interp_def pos(3) [symmetric] by (simp add: real_num_def)
    have "nat \<lfloor>round_away (interp xs r)\<rfloor> \<le> unat (xs ! nat \<lceil>r\<rceil>)" by (rule round_away_nat(2) [OF b])
    also have "\<dots> < 2 ^ 64" using unsigned_less [of "xs ! nat \<lceil>r\<rceil>"] by simp
    finally have "unat (n_to_u64 real_num (n_round real_num ?x)) = nat \<lfloor>round_away (interp xs r)\<rfloor>"
      by (simp only: x n_to_u64_less)
    then show ?thesis unfolding perc if_not_P [OF False] by (intro exI conjI) (rule refl)
  qed
qed

text \<open>
  The operations that build a distribution, in any order; reading a percentile also sorts.
\<close>

datatype dist_op = Observe u64 | ObserveMany "u64 list" | MergeWith LatencyDistribution | Clear | Read real

primrec run_dist_op :: "dist_op \<Rightarrow> LatencyDistribution \<Rightarrow> LatencyDistribution" where
  "run_dist_op (Observe v) d = observe v d"
| "run_dist_op (ObserveMany vs) d = observe_many vs d"
| "run_dist_op (MergeWith other) d = dist_merge d other"
| "run_dist_op Clear d = dist_clear d"
| "run_dist_op (Read p) d = snd (percentile real_num p d)"

lemma percentile_state: "snd (percentile N p d) = (if ld_observations d = [] then d else ensure_sorted d)"
  by (simp add: percentile_def Let_def)

lemma run_dist_ops_ok: "dist_ok d \<Longrightarrow> dist_ok (fold run_dist_op ops d)"
proof (induction ops arbitrary: d)
  case (Cons op ops)
  from Cons.prems have "dist_ok (run_dist_op op d)" by (cases op) (simp_all add: percentile_state)
  then show ?case by (simp add: Cons.IH)
qed simp

lemma percentile_laws:
  assumes "dist_ok d" "dist_ok d'" "mset (ld_observations d) = mset (ld_observations d')" "ld_observations d \<noteq> []" "p \<le> q"
  shows "\<exists>v w. percentile real_num p d = (Some v, ensure_sorted d) \<and> percentile real_num q d = (Some w, ensure_sorted d) \<and>
    fst (percentile real_num p d') = Some v \<and> v \<le> w \<and>
    Min (set (ld_observations d)) \<le> v \<and> w \<le> Max (set (ld_observations d)) \<and>
    (q \<le> 0 \<longrightarrow> w = Min (set (ld_observations d))) \<and> (1 \<le> p \<longrightarrow> v = Max (set (ld_observations d))) \<and>
    dist_ok (ensure_sorted d) \<and> ld_observations (ensure_sorted d) = sort (ld_observations d)"
proof -
  let ?xs = "sort (ld_observations d)" and ?n = "length (ld_observations d)"
  let ?r = "\<lambda>p. clamp01 real_num p * real (?n - 1)"
  let ?f = "\<lambda>r. nat \<lfloor>round_away (interp ?xs r)\<rfloor>"
  obtain v where v: "percentile real_num p d = (Some v, ensure_sorted d)" "unat v = ?f (?r p)"
    using percentile_real [OF assms(1, 4)] by blast
  obtain w where w: "percentile real_num q d = (Some w, ensure_sorted d)" "unat w = ?f (?r q)"
    using percentile_real [OF assms(1, 4)] by blast
  have ne: "ld_observations d' \<noteq> []" using assms(3, 4) by auto
  have same: "sort (ld_observations d') = ?xs" "length (ld_observations d') = ?n"
    using assms(3) by (metis properties_for_sort mset_sort sorted_sort, metis size_mset)
  obtain v' where v': "percentile real_num p d' = (Some v', ensure_sorted d')" "unat v' = ?f (?r p)"
    using percentile_real [OF assms(2) ne] same by metis
  have vv: "v' = v" using v(2) v'(2) by (simp add: word_unat_eq_iff)
  have xs: "sorted ?xs" "?xs \<noteq> []" "length ?xs = ?n" "0 < ?n"
    using assms(4) by (simp_all add: sort_nonempty)
  have clamp: "0 \<le> clamp01 real_num x" "clamp01 real_num x \<le> 1" for x by (simp_all add: clamp01_def real_num_def)
  then have r: "0 \<le> ?r x" "?r x \<le> real (length ?xs - 1)" for x by (simp_all add: mult_left_le_one_le)
  have clamp_mono: "clamp01 real_num p \<le> clamp01 real_num q" using assms(5) by (simp add: clamp01_def real_num_def)
  have "?r p \<le> ?r q" by (rule mult_right_mono [OF clamp_mono]) simp
  from round_away_mono [OF interp_mono [OF xs(1) r(1) this r(2) xs(2)]]
  have "?f (?r p) \<le> ?f (?r q)" by (intro nat_mono floor_mono)
  then have le: "v \<le> w" by (simp add: word_le_nat_alt v w)
  have least: "?xs ! 0 = Min (set (ld_observations d))" and greatest: "?xs ! (?n - 1) = Max (set (ld_observations d))"
    using sorted_ends [OF xs(1, 2)] by simp_all
  have lo: "real (unat (?xs ! 0)) \<le> interp ?xs (?r x)" for x
  proof -
    have "nat \<lfloor>?r x\<rfloor> < length ?xs" using position_bounds(1, 2) [OF r] xs(3, 4) by (metis le_less_trans)
    from order_trans [OF nth_unat_mono [OF xs(1) le0 this] interp_bounds(1) [OF xs(1) r xs(2)]] show ?thesis .
  qed
  have hi: "interp ?xs (?r x) \<le> real (unat (?xs ! (?n - 1)))" for x
  proof -
    have "nat \<lceil>?r x\<rceil> < length ?xs" using position_bounds(2) [OF r] xs(3, 4) by metis
    then have "nat \<lceil>?r x\<rceil> \<le> ?n - 1" "?n - 1 < length ?xs" using xs(3, 4) by linarith+
    from order_trans [OF interp_bounds(2) [OF xs(1) r xs(2)] nth_unat_mono [OF xs(1) this]] show ?thesis .
  qed
  have bounds: "?xs ! 0 \<le> v" "w \<le> ?xs ! (?n - 1)"
    using round_away_nat [OF lo hi] by (simp_all add: word_le_nat_alt v(2) w(2))
  have ends: "w = ?xs ! 0" if "q \<le> 0"
  proof -
    have z: "?r q = 0" using that by (simp add: clamp01_def)
    have "interp ?xs (?r q) = real (unat (?xs ! 0))" unfolding z by (simp add: interp_def)
    then have "unat w = unat (?xs ! 0)" using w(2) round_away_nat [of "unat (?xs ! 0)" "interp ?xs (?r q)" "unat (?xs ! 0)"] by simp
    then show ?thesis by (simp add: word_unat_eq_iff)
  qed
  have ends': "v = ?xs ! (?n - 1)" if "1 \<le> p"
  proof -
    have z: "?r p = real (?n - 1)" using that by (simp add: clamp01_def)
    have "interp ?xs (?r p) = real (unat (?xs ! (?n - 1)))" unfolding z by (simp add: interp_def)
    then have "unat v = unat (?xs ! (?n - 1))"
      using v(2) round_away_nat [of "unat (?xs ! (?n - 1))" "interp ?xs (?r p)" "unat (?xs ! (?n - 1))"] by simp
    then show ?thesis by (simp add: word_unat_eq_iff)
  qed
  show ?thesis
    using v(1) w(1) v'(1) vv le bounds ends ends' least greatest assms(1) ensure_sorted_obs [OF assms(1)] by auto
qed

text \<open>
  C36. For a distribution built from the empty one by any sequence of observations, merges, clearings and
  reads: a percentile is a value between the least and the greatest observation, grows with the percentage,
  is the least observation for zero and below and the greatest for one and above, and depends on the
  observations only, not on their order or on how they came in; asking for it leaves the same observations
  behind, now sorted. A distribution without observations has no percentile and is left as it was. Numbers
  are exact here.
\<close>

theorem percentile_exact:
  assumes "d = fold run_dist_op ops dist_new" "d' = fold run_dist_op ops' dist_new"
    and "mset (ld_observations d) = mset (ld_observations d')" "p \<le> q"
  shows "if ld_observations d = [] then percentile real_num p d = (None, d)
    else \<exists>v w. percentile real_num p d = (Some v, ensure_sorted d) \<and> percentile real_num q d = (Some w, ensure_sorted d) \<and>
      fst (percentile real_num p d') = Some v \<and> v \<le> w \<and>
      Min (set (ld_observations d)) \<le> v \<and> w \<le> Max (set (ld_observations d)) \<and>
      (q \<le> 0 \<longrightarrow> w = Min (set (ld_observations d))) \<and> (1 \<le> p \<longrightarrow> v = Max (set (ld_observations d))) \<and>
      ld_observations (ensure_sorted d) = sort (ld_observations d)"
proof -
  have ok: "dist_ok d" "dist_ok d'" unfolding assms(1,2) by (simp_all add: run_dist_ops_ok)
  show ?thesis
  proof (cases "ld_observations d = []")
    case True
    then show ?thesis by (simp add: percentile_def)
  next
    case False
    from percentile_laws [OF ok assms(3) False assms(4)] show ?thesis unfolding if_not_P [OF False] by blast
  qed
qed

theorem percentile_exact_witness:
  "fst (percentile real_num (1 / 2) (observe 4 (observe 1 (observe 3 (observe 1 dist_new))))) =
     fst (percentile real_num (1 / 2) (observe_many [1, 1, 3, 4] dist_new)) \<and>
   fst (percentile real_num 2 (observe 4 (observe 1 (observe 3 (observe 1 dist_new))))) = Some 4"
proof -
  let ?d = "observe 4 (observe 1 (observe 3 (observe 1 dist_new)))" and ?e = "observe_many [1, 1, 3, 4] dist_new"
  have obs: "ld_observations ?d = [1, 3, 1, 4]" "ld_observations ?e = [1, 1, 3, 4]"
    by (simp_all add: observe_def observe_many_def dist_new_def)
  have built: "?d = fold run_dist_op [Observe 1, Observe 3, Observe 1, Observe 4] dist_new"
    "?e = fold run_dist_op [ObserveMany [1, 1, 3, 4]] dist_new" by simp_all
  have "mset (ld_observations ?d) = mset (ld_observations ?e)" by (simp add: obs)
  note same = percentile_exact [OF built this]
  have "fst (percentile real_num (1 / 2) ?d) = fst (percentile real_num (1 / 2) ?e)"
    using same [of "1 / 2" "1 / 2"] obs by auto
  moreover have "fst (percentile real_num 2 ?d) = Some 4"
    using same [of 2 2] obs by (auto simp: max_def)
  ultimately show ?thesis by blast
qed

end
