(* ===== verification/Eval_Trace.thy ===== *)
theory Eval_Trace
  imports Ids
begin

text \<open>
  The durable traces of an evaluation, \<open>trace.rs\<close> of \<open>crates/agent-fw-eval/src\<close>, with the captured tool call of
  \<open>stream_capture.rs\<close>. JSON values have the type \<open>'j\<close>; the bytes of a value, their digest and its rendering are
  arguments of the redaction.
\<close>

section \<open>References\<close>

datatype TraceRef = TraceRef (trace_ref_id: string)

record TraceSegmentRef =
  seg_trace_id :: string
  seg_from_step :: u32
  seg_to_step :: u32

definition segment_new :: "string \<Rightarrow> u32 \<Rightarrow> u32 \<Rightarrow> TraceSegmentRef" where
  "segment_new i a b = \<lparr>seg_trace_id = i, seg_from_step = a, seg_to_step = b\<rparr>"

text \<open>\<open>saturating_sub\<close>.\<close>

definition segment_len :: "TraceSegmentRef \<Rightarrow> u32" where
  "segment_len s = (if seg_from_step s \<le> seg_to_step s then seg_to_step s - seg_from_step s else 0)"

definition segment_is_empty :: "TraceSegmentRef \<Rightarrow> bool" where
  "segment_is_empty s \<longleftrightarrow> seg_from_step s \<ge> seg_to_step s"

section \<open>Steps\<close>

datatype TraceStage = Selection | Confirmation | Holdout | Diagnostic | Builder | Authoring | Runtime_stage

datatype TraceStatus = Trace_Completed | Trace_Failed | Trace_Cancelled | Trace_TimedOut | Trace_Partial

datatype TraceActor = User_actor | Assistant_actor | Tool_actor | System_actor | SubAgent_actor

datatype TraceOmissionReason = NotCaptured | TooLarge | Sensitive | Unsupported

record RedactedPayload =
  rp_sha256 :: string
  rp_original_bytes :: nat
  rp_policy :: string
  rp_summary :: "string option"

datatype 'j TracePayload = Inline 'j | Redacted RedactedPayload | Omitted TraceOmissionReason

definition redact ::
  "('v \<Rightarrow> (string, 'b list) result) \<Rightarrow> ('b list \<Rightarrow> string) \<Rightarrow> 'v \<Rightarrow> string \<Rightarrow> string option \<Rightarrow> (string, 'j TracePayload) result" where
  "redact to_vec hex_digest v policy summary =
     (case to_vec v of
        Err e \<Rightarrow> Err e
      | Ok bytes \<Rightarrow> Ok (Redacted \<lparr>rp_sha256 = hex_digest bytes, rp_original_bytes = length bytes, rp_policy = policy,
                                rp_summary = summary\<rparr>))"

fun payload_is_inline :: "'j TracePayload \<Rightarrow> bool" where
  "payload_is_inline (Inline _) = True"
| "payload_is_inline _ = False"

record TraceScope =
  scope_session_id :: "string option"
  scope_candidate_id :: "string option"
  scope_attempt_id :: "string option"
  scope_eval_run_id :: "EvalRunId option"
  scope_test_case_id :: "TestCaseId option"
  scope_thread_id :: "ThreadId option"
  scope_sample_index :: "u32 option"

definition scope_default :: TraceScope where
  "scope_default = \<lparr>scope_session_id = None, scope_candidate_id = None, scope_attempt_id = None, scope_eval_run_id = None,
     scope_test_case_id = None, scope_thread_id = None, scope_sample_index = None\<rparr>"

definition for_eval_attempt ::
  "string \<Rightarrow> string \<Rightarrow> string \<Rightarrow> EvalRunId \<Rightarrow> TestCaseId \<Rightarrow> u32 \<Rightarrow> ThreadId option \<Rightarrow> TraceScope" where
  "for_eval_attempt session candidate attempt run tc i thread =
     \<lparr>scope_session_id = Some session, scope_candidate_id = Some candidate, scope_attempt_id = Some attempt,
      scope_eval_run_id = Some run, scope_test_case_id = Some tc, scope_thread_id = thread, scope_sample_index = Some i\<rparr>"

definition for_thread :: "ThreadId \<Rightarrow> TraceScope" where
  "for_thread t = scope_default\<lparr>scope_thread_id := Some t\<rparr>"

datatype TraceProvenance =
    EvalSample EvalRunId TestCaseId u32 TraceStage "ThreadId option"
  | WorkspaceThreadSegment ThreadId u32 u32
  | ManualBuilderEdit string "string option"
  | PromotedAuthoringDraft string TraceRef
  | RecomposedSegment "TraceSegmentRef list"

record 'j TraceStep =
  ts_ordinal :: u32
  ts_actor :: "TraceActor option"
  ts_tool_name :: string
  ts_tool_call_id :: "string option"
  ts_arguments :: "'j TracePayload"
  ts_result :: "'j TracePayload option"
  ts_started_at :: "datetime option"
  ts_completed_at :: "datetime option"
  ts_error :: "string option"
  ts_correlation_id :: "string option"

definition tool_call_step :: "u32 \<Rightarrow> string \<Rightarrow> 'j TracePayload \<Rightarrow> 'j TraceStep" where
  "tool_call_step ordinal name args =
     \<lparr>ts_ordinal = ordinal, ts_actor = Some Assistant_actor, ts_tool_name = name, ts_tool_call_id = None, ts_arguments = args,
      ts_result = None, ts_started_at = None, ts_completed_at = None, ts_error = None, ts_correlation_id = None\<rparr>"

section \<open>Records\<close>

record 'j TraceRecord =
  tr_trace_id :: string
  tr_workspace_id :: WorkspaceId
  tr_stage :: TraceStage
  tr_status :: TraceStatus
  tr_scope :: TraceScope
  tr_steps :: "'j TraceStep list"
  tr_started_at :: "datetime option"
  tr_completed_at :: "datetime option"
  tr_provenance :: TraceProvenance

definition trace_ref :: "'j TraceRecord \<Rightarrow> TraceRef" where
  "trace_ref r = TraceRef (tr_trace_id r)"

definition segment_ref :: "'j TraceRecord \<Rightarrow> u32 \<Rightarrow> u32 \<Rightarrow> TraceSegmentRef" where
  "segment_ref r a b = segment_new (tr_trace_id r) a b"

text \<open>The slice is \<open>None\<close> where indexing the vector would panic.\<close>

definition slice_steps :: "'j TraceRecord \<Rightarrow> TraceSegmentRef \<Rightarrow> 'j TraceStep list option" where
  "slice_steps r seg =
     (let len = length (tr_steps r);
          from_ix = min (unat (seg_from_step seg)) len;
          to_ix = max (min (unat (seg_to_step seg)) len) from_ix
      in if from_ix \<le> to_ix \<and> to_ix \<le> len then Some (take (to_ix - from_ix) (drop from_ix (tr_steps r))) else None)"

record 'j CapturedToolCall =
  ct_tool :: string
  ct_tool_call_id :: "string option"
  ct_args :: 'j
  ct_result :: "'j option"

definition captured_new :: "string \<Rightarrow> 'j \<Rightarrow> 'j CapturedToolCall" where
  "captured_new tool args = \<lparr>ct_tool = tool, ct_tool_call_id = None, ct_args = args, ct_result = None\<rparr>"

definition to_trace_step :: "u32 \<Rightarrow> 'j CapturedToolCall \<Rightarrow> 'j TraceStep" where
  "to_trace_step ordinal c =
     \<lparr>ts_ordinal = ordinal, ts_actor = Some Assistant_actor, ts_tool_name = ct_tool c, ts_tool_call_id = ct_tool_call_id c,
      ts_arguments = Inline (ct_args c), ts_result = map_option Inline (ct_result c), ts_started_at = None,
      ts_completed_at = None, ts_error = None, ts_correlation_id = None\<rparr>"

section \<open>Slices\<close>

lemma slice_steps_nths:
  "slice_steps r seg = Some (take (unat (seg_to_step seg) - unat (seg_from_step seg)) (drop (unat (seg_from_step seg)) (tr_steps r)))"
  by (auto simp: slice_steps_def Let_def min_def max_def)

text \<open>
  A slice never panics, has the steps of the segment that exist, in order, is empty for an empty segment and
  has at most the length of the segment; the slices of two adjacent segments are together the slice of the
  segment they make up.
\<close>

theorem slices_compose:
  "\<exists>xs. slice_steps r (segment_ref r a b) = Some xs \<and> length xs \<le> unat (segment_len (segment_ref r a b)) \<and>
     (segment_is_empty (segment_ref r a b) \<longrightarrow> xs = []) \<and>
     (\<forall>c ys. a \<le> b \<and> b \<le> c \<and> slice_steps r (segment_ref r b c) = Some ys \<longrightarrow> slice_steps r (segment_ref r a c) = Some (xs @ ys))"
proof (intro exI conjI allI impI)
  let ?xs = "take (unat b - unat a) (drop (unat a) (tr_steps r))"
  show "slice_steps r (segment_ref r a b) = Some ?xs" by (simp add: slice_steps_nths segment_ref_def segment_new_def)
  show "length ?xs \<le> unat (segment_len (segment_ref r a b))"
    by (simp add: segment_len_def segment_ref_def segment_new_def word_le_nat_alt unat_sub)
  show "?xs = []" if "segment_is_empty (segment_ref r a b)"
    using that by (simp add: segment_is_empty_def segment_ref_def segment_new_def word_le_nat_alt)
  fix c ys
  assume "a \<le> b \<and> b \<le> c \<and> slice_steps r (segment_ref r b c) = Some ys"
  then have le: "unat a \<le> unat b" "unat b \<le> unat c" and ys: "ys = take (unat c - unat b) (drop (unat b) (tr_steps r))"
    by (simp_all add: slice_steps_nths segment_ref_def segment_new_def word_le_nat_alt)
  from le have "unat c - unat a = (unat b - unat a) + (unat c - unat b)" "unat b = (unat b - unat a) + unat a" by simp_all
  then have "take (unat c - unat a) (drop (unat a) (tr_steps r)) = ?xs @ ys"
    unfolding ys by (metis drop_drop take_add)
  then show "slice_steps r (segment_ref r a c) = Some (?xs @ ys)"
    by (simp add: slice_steps_nths segment_ref_def segment_new_def)
qed

end
