(* ===== verification/Eval_Types.thy ===== *)
theory Eval_Types
  imports Eval_Scoring Cost Latency Eval_Trace "HOL-Library.Product_Lexorder"
begin

text \<open>
  The values of an evaluation: \<open>types.rs\<close> and the executor's values of \<open>sample_executor.rs\<close> of
  \<open>crates/agent-fw-eval/src\<close>.

  \<^item> JSON values and ground truths are only carried along; one opaque type \<open>'x\<close> stands for them.
    Floating-point numbers are a type \<open>'f\<close> with the operations of the scoring.
  \<^item> A combination that panics, because that of the token usages does, returns \<open>None\<close>.
\<close>

section \<open>Trajectory modes on the wire\<close>

definition mode_from_str :: "string \<Rightarrow> (string, TrajectoryMode) result" where
  "mode_from_str s =
     (if s \<in> {''strict'', ''Strict''} then Ok Strict
      else if s \<in> {''unordered'', ''Unordered'', ''anyOrder'', ''any_order'', ''Any Order''} then Ok Unordered
      else if s = ''subset'' then Ok Subset
      else if s = ''superset'' then Ok Superset
      else if s \<in> {''subsequence'', ''Subsequence''} then Ok Subsequence
      else if s \<in> {''inOrder'', ''in_order'', ''In Order''} then Ok Subsequence
      else Err (''unknown trajectory mode: '' @ s))"

fun mode_to_string :: "TrajectoryMode \<Rightarrow> string" where
  "mode_to_string Strict = ''strict''"
| "mode_to_string Unordered = ''unordered''"
| "mode_to_string Subset = ''subset''"
| "mode_to_string Superset = ''superset''"
| "mode_to_string Subsequence = ''subsequence''"

section \<open>Results\<close>

record ('f, 'x) SampleResult =
  sa_sample_index :: u32
  sa_passed :: bool
  sa_scores :: "('x, 'f) ScorerResult list"
  sa_actual_trajectory :: "string list"
  sa_response_text :: "string option"
  sa_duration_ms :: u64
  sa_token_usage :: TokenUsageSummary
  sa_error :: "string option"
  sa_retry_count :: u32
  sa_thread_id :: "string option"
  sa_trace :: "'x TraceRecord option"
  sa_metadata :: "'x option"
  sa_latency :: "LatencySummary option"

definition sample_empty :: "u32 \<Rightarrow> ('f, 'x) SampleResult" where
  "sample_empty i =
     \<lparr>sa_sample_index = i, sa_passed = False, sa_scores = [], sa_actual_trajectory = [], sa_response_text = None,
      sa_duration_ms = 0, sa_token_usage = tokens_ZERO, sa_error = None, sa_retry_count = 0, sa_thread_id = None,
      sa_trace = None, sa_metadata = None, sa_latency = None\<rparr>"

record 'f PassAtKResult =
  pk_k :: u32
  pk_simple_estimate :: 'f
  pk_unbiased_estimate :: "'f option"
  pk_num_samples :: u32
  pk_num_correct :: u32

record ('f, 'x) TestCaseResult =
  tr_test_case_id :: TestCaseId
  tr_input :: "string option"
  tr_samples :: "('f, 'x) SampleResult list"
  tr_pass_at_k :: "'f PassAtKResult list"
  tr_aggregate_score :: 'f

definition result_empty :: "'f num_ops \<Rightarrow> TestCaseId \<Rightarrow> ('f, 'x) TestCaseResult" where
  "result_empty N i =
     \<lparr>tr_test_case_id = i, tr_input = None, tr_samples = [], tr_pass_at_k = [], tr_aggregate_score = n_zero N\<rparr>"

text \<open>The score of a sample in \<open>TestCaseResult::combine\<close>: the mean over all its scorers.\<close>

definition per_sample_mean :: "'f num_ops \<Rightarrow> ('f, 'x) SampleResult \<Rightarrow> 'f" where
  "per_sample_mean N s =
     (if sa_scores s = [] then if sa_passed s then n_one N else n_zero N
      else n_div N (n_sum N (map sr_score (sa_scores s))) (n_of N (length (sa_scores s))))"

definition mean_of :: "'f num_ops \<Rightarrow> 'f list \<Rightarrow> 'f" where
  "mean_of N xs = (if xs = [] then n_zero N else n_div N (n_sum N xs) (n_of N (length xs)))"

definition result_combine ::
  "'f num_ops \<Rightarrow> ('f, 'x) TestCaseResult \<Rightarrow> ('f, 'x) TestCaseResult \<Rightarrow> ('f, 'x) TestCaseResult" where
  "result_combine N a b =
     (let merged = tr_samples a @ tr_samples b
      in \<lparr>tr_test_case_id = tr_test_case_id a,
          tr_input = (case tr_input a of None \<Rightarrow> tr_input b | Some i \<Rightarrow> Some i),
          tr_samples = merged,
          tr_pass_at_k = (if tr_pass_at_k a = [] then tr_pass_at_k b else tr_pass_at_k a),
          tr_aggregate_score = mean_of N (map (per_sample_mean N) merged)\<rparr>)"

section \<open>Summaries, progress and status\<close>

record 'f AgentCostBreakdown =
  ac_agent_name :: string
  ac_model :: string
  ac_usage :: TokenUsageSummary
  ac_cost_usd :: 'f

record 'f EvalCostSummary =
  ec_total_usage :: TokenUsageSummary
  ec_estimated_cost_usd :: 'f
  ec_per_agent :: "'f AgentCostBreakdown list"

definition cost_zero :: "'f num_ops \<Rightarrow> 'f EvalCostSummary" where
  "cost_zero N = \<lparr>ec_total_usage = tokens_ZERO, ec_estimated_cost_usd = n_zero N, ec_per_agent = []\<rparr>"

definition from_single_agent_usage :: "'f num_ops \<Rightarrow> string \<Rightarrow> TokenUsageSummary \<Rightarrow> 'f ModelPricing \<Rightarrow> 'f EvalCostSummary" where
  "from_single_agent_usage N agent usage pricing =
     (let estimate = estimate_from_usage N usage pricing
      in \<lparr>ec_total_usage = usage, ec_estimated_cost_usd = ce_total_usd estimate,
          ec_per_agent = [\<lparr>ac_agent_name = agent, ac_model = mp_model pricing, ac_usage = usage,
                           ac_cost_usd = ce_total_usd estimate\<rparr>]\<rparr>)"

definition agent_cost_combine ::
  "'f num_ops \<Rightarrow> 'f AgentCostBreakdown \<Rightarrow> 'f AgentCostBreakdown \<Rightarrow> 'f AgentCostBreakdown option" where
  "agent_cost_combine N a b =
     map_option (\<lambda>usage. \<lparr>ac_agent_name = ac_agent_name a, ac_model = ac_model a, ac_usage = usage,
       ac_cost_usd = n_add N (ac_cost_usd a) (ac_cost_usd b)\<rparr>) (tokens_combine (ac_usage a) (ac_usage b))"

text \<open>The ordered map of the agents, filled one item at a time.\<close>

fun collect_agents ::
  "'f num_ops \<Rightarrow> (string \<times> string, 'f AgentCostBreakdown) fmap \<Rightarrow> 'f AgentCostBreakdown list \<Rightarrow>
   (string \<times> string, 'f AgentCostBreakdown) fmap option" where
  "collect_agents N m [] = Some m"
| "collect_agents N m (item # items) =
     (let key = (ac_agent_name item, ac_model item)
      in case fmlookup m key of
           None \<Rightarrow> collect_agents N (fmupd key item m) items
         | Some acc \<Rightarrow> (case agent_cost_combine N acc item of
                          None \<Rightarrow> None
                        | Some acc \<Rightarrow> collect_agents N (fmupd key acc m) items))"

definition cost_combine :: "'f num_ops \<Rightarrow> 'f EvalCostSummary \<Rightarrow> 'f EvalCostSummary \<Rightarrow> 'f EvalCostSummary option" where
  "cost_combine N a b =
     (case collect_agents N fmempty (ec_per_agent a @ ec_per_agent b) of
        None \<Rightarrow> None
      | Some m \<Rightarrow>
          map_option (\<lambda>usage. \<lparr>ec_total_usage = usage,
              ec_estimated_cost_usd = n_add N (ec_estimated_cost_usd a) (ec_estimated_cost_usd b),
              ec_per_agent = map snd (entries sorted_list_of_fset m)\<rparr>)
            (tokens_combine (ec_total_usage a) (ec_total_usage b)))"

record ('f, 'x) EvalSummary =
  es_total_test_cases :: u32
  es_passed :: u32
  es_failed :: u32
  es_skipped :: u32
  es_aggregate_score :: 'f
  es_pass_at_k :: "'f PassAtKResult list"
  es_total_duration_ms :: u64
  es_total_usage :: TokenUsageSummary
  es_cost :: "'f EvalCostSummary"
  es_latency :: "LatencySummary option"
  es_metadata :: "'x option"

definition summary_empty :: "'f num_ops \<Rightarrow> ('f, 'x) EvalSummary" where
  "summary_empty N =
     \<lparr>es_total_test_cases = 0, es_passed = 0, es_failed = 0, es_skipped = 0, es_aggregate_score = n_zero N, es_pass_at_k = [],
      es_total_duration_ms = 0, es_total_usage = tokens_ZERO, es_cost = cost_zero N, es_latency = None, es_metadata = None\<rparr>"

fun latency_merge :: "LatencySummary option \<Rightarrow> LatencySummary option \<Rightarrow> LatencySummary option" where
  "latency_merge (Some l) (Some r) = Some (latency_combine l r)"
| "latency_merge (Some l) None = Some l"
| "latency_merge None (Some r) = Some r"
| "latency_merge None None = None"

definition weighted_score :: "'f num_ops \<Rightarrow> ('f, 'x) EvalSummary \<Rightarrow> ('f, 'x) EvalSummary \<Rightarrow> u32 \<Rightarrow> 'f" where
  "weighted_score N a b all =
     (if all = 0 then n_zero N
      else n_div N (n_add N (n_mul N (es_aggregate_score a) (n_of N (unat (es_total_test_cases a))))
                     (n_mul N (es_aggregate_score b) (n_of N (unat (es_total_test_cases b))))) (n_of N (unat all)))"

definition summary_combine :: "'f num_ops \<Rightarrow> ('f, 'x) EvalSummary \<Rightarrow> ('f, 'x) EvalSummary \<Rightarrow> ('f, 'x) EvalSummary option" where
  "summary_combine N a b =
     (let all = sat_add (es_total_test_cases a) (es_total_test_cases b)
      in case (tokens_combine (es_total_usage a) (es_total_usage b), cost_combine N (es_cost a) (es_cost b)) of
           (Some usage, Some cost) \<Rightarrow>
             Some \<lparr>es_total_test_cases = all, es_passed = sat_add (es_passed a) (es_passed b),
                   es_failed = sat_add (es_failed a) (es_failed b), es_skipped = sat_add (es_skipped a) (es_skipped b),
                   es_aggregate_score = weighted_score N a b all, es_pass_at_k = [],
                   es_total_duration_ms = sat_add (es_total_duration_ms a) (es_total_duration_ms b),
                   es_total_usage = usage, es_cost = cost, es_latency = latency_merge (es_latency a) (es_latency b),
                   es_metadata = None\<rparr>
         | _ \<Rightarrow> None)"

datatype 'f TestCaseState =
    TC_Queued
  | TC_Running u64 u32 u32
  | TC_Completed u64 bool 'f
  | TC_Failed u64 string

record 'f EvalProgress =
  ep_completed_samples :: u32
  ep_total_samples :: u32
  ep_completed_test_cases :: u32
  ep_total_test_cases :: u32
  ep_current_test_case_id :: "string option"
  ep_elapsed_ms :: u64
  ep_estimated_remaining_ms :: "u64 option"
  ep_test_case_states :: "(string \<times> 'f TestCaseState) list"

datatype ('f, 'x) EvalStatus =
    Queued
  | Running "'f EvalProgress"
  | Paused "'f EvalProgress"
  | Completed "('f, 'x) EvalSummary"
  | Failed string
  | Cancelled
  | Skipped string

section \<open>Configuration\<close>

datatype EvalMode = Planner | Executor | Sequential | Specialist | TestCaseBuilder

datatype AggregationStrategy = PassRate | MeanScore

datatype TestCaseSource = Set_source string | Individual "string list"

record 'f EvalRetryConfig =
  rc_max_retries :: u32
  rc_initial_backoff_ms :: u64
  rc_backoff_multiplier :: 'f

record ('f, 'x) EvalConfig =
  cf_mode :: EvalMode
  cf_target_agent_id :: "string option"
  cf_test_case_source :: TestCaseSource
  cf_samples_per_case :: u32
  cf_pass_threshold :: 'f
  cf_concurrency :: u32
  cf_k_values :: "u32 list"
  cf_provider :: "string option"
  cf_model :: "string option"
  cf_timeout_per_sample_secs :: "u64 option"
  cf_tags_filter :: "string list option"
  cf_retry_policy :: "'f EvalRetryConfig option"
  cf_aggregation_strategy :: AggregationStrategy
  cf_rest :: 'x

definition MAX_SAMPLES_PER_CASE :: u32 where "MAX_SAMPLES_PER_CASE = 20"

definition MAX_CONCURRENCY :: u32 where "MAX_CONCURRENCY = 10"

definition MAX_TEST_CASES :: nat where "MAX_TEST_CASES = 500"

datatype 'f EvalConfigError =
    SamplesPerCaseZero
  | SamplesPerCaseTooHigh u32
  | PassThresholdOutOfRange 'f
  | ConcurrencyZero
  | ConcurrencyTooHigh u32
  | KValuesEmpty
  | KValueExceedsSamples u32 u32
  | BackoffMultiplierTooLow 'f
  | TooManyTestCases nat
  | EmptyTestCaseIds
  | NoTestCaseSource

text \<open>The checks in the order of the source; each contributes the errors it pushes.\<close>

definition samples_errors :: "('f, 'x) EvalConfig \<Rightarrow> 'f EvalConfigError list" where
  "samples_errors c =
     (if cf_samples_per_case c = 0 then [SamplesPerCaseZero]
      else if cf_samples_per_case c > MAX_SAMPLES_PER_CASE then [SamplesPerCaseTooHigh (cf_samples_per_case c)] else [])"

definition threshold_errors :: "'f num_ops \<Rightarrow> ('f, 'x) EvalConfig \<Rightarrow> 'f EvalConfigError list" where
  "threshold_errors N c =
     (if \<not> (n_le N (n_zero N) (cf_pass_threshold c) \<and> n_le N (cf_pass_threshold c) (n_one N))
      then [PassThresholdOutOfRange (cf_pass_threshold c)] else [])"

definition concurrency_errors :: "('f, 'x) EvalConfig \<Rightarrow> 'f EvalConfigError list" where
  "concurrency_errors c =
     (if cf_concurrency c = 0 then [ConcurrencyZero]
      else if cf_concurrency c > MAX_CONCURRENCY then [ConcurrencyTooHigh (cf_concurrency c)] else [])"

definition k_errors :: "('f, 'x) EvalConfig \<Rightarrow> 'f EvalConfigError list" where
  "k_errors c =
     (if cf_k_values c = [] then [KValuesEmpty] else []) @
     concat (map (\<lambda>k. if cf_samples_per_case c > 0 \<and> k > cf_samples_per_case c
                      then [KValueExceedsSamples k (cf_samples_per_case c)] else []) (cf_k_values c))"

definition retry_errors :: "'f num_ops \<Rightarrow> ('f, 'x) EvalConfig \<Rightarrow> 'f EvalConfigError list" where
  "retry_errors N c =
     (case cf_retry_policy c of
        None \<Rightarrow> []
      | Some r \<Rightarrow> if n_less N (rc_backoff_multiplier r) (n_one N)
                  then [BackoffMultiplierTooLow (rc_backoff_multiplier r)] else [])"

fun source_errors :: "TestCaseSource \<Rightarrow> 'f EvalConfigError list" where
  "source_errors (Individual ids) =
     (if ids = [] then [EmptyTestCaseIds]
      else if length ids > MAX_TEST_CASES then [TooManyTestCases (length ids)] else [])"
| "source_errors (Set_source i) = (if i = [] then [NoTestCaseSource] else [])"

definition validate_config ::
  "'f num_ops \<Rightarrow> ('f, 'x) EvalConfig \<Rightarrow> ('f EvalConfigError list, ('f, 'x) EvalConfig) result" where
  "validate_config N c =
     (let errors = samples_errors c @ threshold_errors N c @ concurrency_errors c @ k_errors c @ retry_errors N c @
                   source_errors (cf_test_case_source c)
      in if errors = [] then Ok c else Err errors)"

section \<open>Runs and events\<close>

record ('f, 'x) EvalRun =
  run_id :: EvalRunId
  run_config :: "('f, 'x) EvalConfig"
  run_status :: "('f, 'x) EvalStatus"
  run_results :: "('f, 'x) TestCaseResult list"
  run_created_at :: string
  run_updated_at :: string
  run_parent_run_id :: "EvalRunId option"
  run_rerun_test_case_ids :: "TestCaseId list option"

record ('f, 'x) EvalRunSummary =
  rs_id :: EvalRunId
  rs_config :: "('f, 'x) EvalConfig"
  rs_status :: "('f, 'x) EvalStatus"
  rs_result_count :: nat
  rs_created_at :: string
  rs_updated_at :: string
  rs_parent_run_id :: "EvalRunId option"
  rs_rerun_test_case_ids :: "TestCaseId list option"

definition run_new :: "string \<Rightarrow> string \<Rightarrow> ('f, 'x) EvalConfig \<Rightarrow> ('f, 'x) EvalRun" where
  "run_new uuid now config =
     \<lparr>run_id = EvalRunId uuid, run_config = config, run_status = Queued, run_results = [], run_created_at = now,
      run_updated_at = now, run_parent_run_id = None, run_rerun_test_case_ids = None\<rparr>"

definition to_summary :: "('f, 'x) EvalRun \<Rightarrow> ('f, 'x) EvalRunSummary" where
  "to_summary r =
     \<lparr>rs_id = run_id r, rs_config = run_config r, rs_status = run_status r, rs_result_count = length (run_results r),
      rs_created_at = run_created_at r, rs_updated_at = run_updated_at r, rs_parent_run_id = run_parent_run_id r,
      rs_rerun_test_case_ids = run_rerun_test_case_ids r\<rparr>"

datatype ('f, 'x) EvalEvent =
    Ev_Started EvalRunId "('f, 'x) EvalConfig"
  | Ev_Progress "'f EvalProgress"
  | Ev_TestCaseStarted TestCaseId u32
  | Ev_SampleProgress TestCaseId u32 u32 u32
  | Ev_SampleComplete TestCaseId "('f, 'x) SampleResult"
  | Ev_TestCaseComplete "('f, 'x) TestCaseResult"
  | Ev_Completed "('f, 'x) EvalSummary"
  | Ev_Paused "'f EvalProgress"
  | Ev_Resumed "'f EvalProgress"
  | Ev_TestCaseSkipped TestCaseId string
  | Ev_Error string
  | Ev_ChildProgress EvalRunId "('f, 'x) EvalEvent"

record 'x EvalTestCase =
  et_id :: TestCaseId
  et_tags :: "string list"
  et_input :: string
  et_expected_trajectory :: "string list"
  et_trajectory_mode :: TrajectoryMode
  et_ground_truth :: "'x option"
  et_final_response :: "'x option"
  et_source_thread_id :: "string option"

section \<open>The executor's values\<close>

record 'x SampleInput =
  si_test_case :: "'x EvalTestCase"
  si_sample_index :: u32
  si_eval_mode :: EvalMode
  si_target_agent_id :: "string option"
  si_run_id :: string

record ResolvedModelConfig =
  mc_provider :: string
  mc_model :: string

definition resolve_model :: "string option \<Rightarrow> string option \<Rightarrow> string \<Rightarrow> string \<Rightarrow> ResolvedModelConfig" where
  "resolve_model eval_provider eval_model default_provider default_model =
     \<lparr>mc_provider = (case eval_provider of None \<Rightarrow> default_provider | Some p \<Rightarrow> p),
      mc_model = (case eval_model of None \<Rightarrow> default_model | Some m \<Rightarrow> m)\<rparr>"

definition to_model_spec :: "ResolvedModelConfig \<Rightarrow> string \<Rightarrow> string" where
  "to_model_spec c default_provider =
     (if mc_provider c = default_provider then mc_model c else mc_provider c @ ''/'' @ mc_model c)"

record 'x SampleOutput =
  out_actual_trajectory :: "string list"
  out_captured_tool_calls :: "'x CapturedToolCall list"
  out_duration_ms :: u64
  out_token_usage :: TokenUsageSummary
  out_error :: "string option"
  out_thread_id :: "string option"
  out_extra :: "'x option"
  out_latency :: "LatencySummary option"

datatype SampleExecutionError = AgentFailed string | TimedOut duration | Exec_Cancelled | Internal string

section \<open>Properties\<close>

text \<open>The name of a mode is read back as the mode.\<close>

theorem mode_roundtrip: "mode_from_str (mode_to_string m) = Ok m"
  by (cases m) (simp_all add: mode_from_str_def)

text \<open>What every error says of the configuration.\<close>

primrec violates :: "'f num_ops \<Rightarrow> ('f, 'x) EvalConfig \<Rightarrow> 'f EvalConfigError \<Rightarrow> bool" where
  "violates N c SamplesPerCaseZero \<longleftrightarrow> unat (cf_samples_per_case c) = 0"
| "violates N c (SamplesPerCaseTooHigh n) \<longleftrightarrow> n = cf_samples_per_case c \<and> 20 < unat n"
| "violates N c (PassThresholdOutOfRange t) \<longleftrightarrow> t = cf_pass_threshold c \<and> \<not> (n_le N (n_zero N) t \<and> n_le N t (n_one N))"
| "violates N c ConcurrencyZero \<longleftrightarrow> unat (cf_concurrency c) = 0"
| "violates N c (ConcurrencyTooHigh n) \<longleftrightarrow> n = cf_concurrency c \<and> 10 < unat n"
| "violates N c KValuesEmpty \<longleftrightarrow> cf_k_values c = []"
| "violates N c (KValueExceedsSamples k n) \<longleftrightarrow> n = cf_samples_per_case c \<and> 0 < unat n \<and> k \<in> set (cf_k_values c) \<and> unat n < unat k"
| "violates N c (BackoffMultiplierTooLow m) \<longleftrightarrow> map_option rc_backoff_multiplier (cf_retry_policy c) = Some m \<and> n_less N m (n_one N)"
| "violates N c (TooManyTestCases n) \<longleftrightarrow> (\<exists>ids. cf_test_case_source c = Individual ids \<and> n = length ids \<and> 500 < n)"
| "violates N c EmptyTestCaseIds \<longleftrightarrow> cf_test_case_source c = Individual []"
| "violates N c NoTestCaseSource \<longleftrightarrow> cf_test_case_source c = Set_source []"

lemma config_errors_iff:
  "e \<in> set (samples_errors c @ threshold_errors N c @ concurrency_errors c @ k_errors c @ retry_errors N c @
      source_errors (cf_test_case_source c)) \<longleftrightarrow> violates N c e"
proof -
  have "e \<in> set (samples_errors c) \<longleftrightarrow> violates N c e \<and> (e = SamplesPerCaseZero \<or> (\<exists>n. e = SamplesPerCaseTooHigh n))"
    by (cases e) (auto simp: samples_errors_def MAX_SAMPLES_PER_CASE_def word_less_nat_alt unat_eq_0)
  moreover have "e \<in> set (threshold_errors N c) \<longleftrightarrow> violates N c e \<and> (\<exists>t. e = PassThresholdOutOfRange t)"
    by (cases e) (auto simp: threshold_errors_def)
  moreover have "e \<in> set (concurrency_errors c) \<longleftrightarrow> violates N c e \<and> (e = ConcurrencyZero \<or> (\<exists>n. e = ConcurrencyTooHigh n))"
    by (cases e) (auto simp: concurrency_errors_def MAX_CONCURRENCY_def word_less_nat_alt unat_eq_0)
  moreover have "e \<in> set (k_errors c) \<longleftrightarrow> violates N c e \<and> (e = KValuesEmpty \<or> (\<exists>k n. e = KValueExceedsSamples k n))"
    by (cases e) (auto simp: k_errors_def word_less_nat_alt split: if_splits)
  moreover have "e \<in> set (retry_errors N c) \<longleftrightarrow> violates N c e \<and> (\<exists>m. e = BackoffMultiplierTooLow m)"
    by (cases e; cases "cf_retry_policy c") (auto simp: retry_errors_def)
  moreover have "e \<in> set (source_errors (cf_test_case_source c)) \<longleftrightarrow>
      violates N c e \<and> ((\<exists>n. e = TooManyTestCases n) \<or> e = EmptyTestCaseIds \<or> e = NoTestCaseSource)"
    by (cases e; cases "cf_test_case_source c") (auto simp: MAX_TEST_CASES_def split: if_splits)
  ultimately show ?thesis by (cases e) (simp_all only: set_append Un_iff, blast+)
qed

text \<open>The conditions on a configuration.\<close>

definition config_conditions :: "'f num_ops \<Rightarrow> ('f, 'x) EvalConfig \<Rightarrow> bool" where
  "config_conditions N c \<longleftrightarrow>
     1 \<le> unat (cf_samples_per_case c) \<and> unat (cf_samples_per_case c) \<le> 20 \<and>
     n_le N (n_zero N) (cf_pass_threshold c) \<and> n_le N (cf_pass_threshold c) (n_one N) \<and>
     1 \<le> unat (cf_concurrency c) \<and> unat (cf_concurrency c) \<le> 10 \<and>
     cf_k_values c \<noteq> [] \<and> list_all (\<lambda>k. unat k \<le> unat (cf_samples_per_case c)) (cf_k_values c) \<and>
     (case cf_retry_policy c of None \<Rightarrow> True | Some r \<Rightarrow> \<not> n_less N (rc_backoff_multiplier r) (n_one N)) \<and>
     (case cf_test_case_source c of Individual ids \<Rightarrow> ids \<noteq> [] \<and> length ids \<le> 500 | Set_source i \<Rightarrow> i \<noteq> [])"

lemma config_conditions_iff: "config_conditions N c \<longleftrightarrow> (\<forall>e. \<not> violates N c e)"
proof
  assume ok: "config_conditions N c"
  show "\<forall>e. \<not> violates N c e"
  proof
    fix e show "\<not> violates N c e"
      using ok by (cases e) (auto simp: config_conditions_def list_all_iff split: option.splits)
  qed
next
  assume none: "\<forall>e. \<not> violates N c e"
  then have "\<not> violates N c SamplesPerCaseZero" "\<not> violates N c (SamplesPerCaseTooHigh (cf_samples_per_case c))"
    "\<not> violates N c (PassThresholdOutOfRange (cf_pass_threshold c))" "\<not> violates N c ConcurrencyZero"
    "\<not> violates N c (ConcurrencyTooHigh (cf_concurrency c))" "\<not> violates N c KValuesEmpty" by blast+
  moreover have "unat k \<le> unat (cf_samples_per_case c)" if "k \<in> set (cf_k_values c)" for k
    using none [rule_format, of "KValueExceedsSamples k (cf_samples_per_case c)"] calculation(1) that by (auto simp: not_less)
  moreover have "\<not> n_less N (rc_backoff_multiplier r) (n_one N)" if "cf_retry_policy c = Some r" for r
    using none [rule_format, of "BackoffMultiplierTooLow (rc_backoff_multiplier r)"] that by simp
  moreover have "case cf_test_case_source c of Individual ids \<Rightarrow> ids \<noteq> [] \<and> length ids \<le> 500 | Set_source i \<Rightarrow> i \<noteq> []"
    using none [rule_format, of EmptyTestCaseIds] none [rule_format, of NoTestCaseSource] none [rule_format, of "TooManyTestCases _"]
    by (auto simp: not_less split: TestCaseSource.split)
  ultimately show "config_conditions N c"
    unfolding config_conditions_def by (auto simp: list_all_iff not_less Suc_le_eq split: option.split)
qed

text \<open>
  C38. Validation accepts a configuration, and returns it unchanged, exactly under these conditions: from 1 to 20
  samples per case, a threshold from zero to one, a concurrency from 1 to 10, some k values and none above
  the samples per case, a back-off multiplier that is not below one (so one that is not a number passes),
  and from 1 to 500 test cases or a non-empty name of a set. Otherwise there is at least one error, and the
  errors are exactly the violations, each with the offending value.
\<close>

theorem validate_config_exact:
  "case validate_config N c of
     Ok c' \<Rightarrow> c' = c \<and> config_conditions N c
   | Err errors \<Rightarrow> \<not> config_conditions N c \<and> errors \<noteq> [] \<and> set errors = {e. violates N c e}"
proof (cases "validate_config N c")
  case (Inl errors)
  then have errors: "errors = samples_errors c @ threshold_errors N c @ concurrency_errors c @ k_errors c @ retry_errors N c @
      source_errors (cf_test_case_source c)" "errors \<noteq> []"
    by (simp_all only: validate_config_def Let_def split: if_splits) auto
  have set: "e \<in> set errors \<longleftrightarrow> violates N c e" for e unfolding errors(1) by (rule config_errors_iff)
  obtain e where "e \<in> set errors" using errors(2) by (cases errors) auto
  with set errors(2) show ?thesis unfolding Inl sum.case config_conditions_iff by blast
next
  case (Inr c')
  then have "c' = c" "samples_errors c @ threshold_errors N c @ concurrency_errors c @ k_errors c @ retry_errors N c @
      source_errors (cf_test_case_source c) = []"
    by (simp_all only: validate_config_def Let_def split: if_splits) auto
  then show ?thesis
    unfolding Inr sum.case config_conditions_iff config_errors_iff [symmetric] by (metis empty_iff list.set(1))
qed

text \<open>A multiplier that compares with nothing is accepted.\<close>

theorem nan_backoff_accepted:
  "\<not> n_less N m (n_one N) \<Longrightarrow> retry_errors N (c\<lparr>cf_retry_policy := Some \<lparr>rc_max_retries = r, rc_initial_backoff_ms = b,
     rc_backoff_multiplier = m\<rparr>\<rparr>) = []"
  by (simp add: retry_errors_def)

text \<open>
  Merging with an empty result is not the identity: the score is recomputed as the mean over all scorers of
  a sample, the composite one included, whatever the aggregation of the run was.
\<close>

theorem result_combine_rescores:
  "tr_aggregate_score (result_combine N (result_empty N i) r) = mean_of N (map (per_sample_mean N) (tr_samples r))"
  by (simp add: result_combine_def result_empty_def Let_def)

text \<open>
  Combining two summaries weighs their scores by their test cases, exactly, and so does combining three in
  either grouping, as long as the number of test cases fits into 32 bits. Numbers are exact here.
\<close>

theorem summary_combine_weighted:
  assumes "unat (es_total_test_cases a) + unat (es_total_test_cases b) + unat (es_total_test_cases c) < 2 ^ 32"
    and "summary_combine real_num a b = Some ab" "summary_combine real_num b c = Some bc"
    and "summary_combine real_num ab c = Some l" "summary_combine real_num a bc = Some r"
  shows "es_aggregate_score l = es_aggregate_score r \<and> es_total_test_cases l = es_total_test_cases r \<and>
    es_aggregate_score l * real (unat (es_total_test_cases l)) =
      es_aggregate_score a * real (unat (es_total_test_cases a)) + es_aggregate_score b * real (unat (es_total_test_cases b)) +
      es_aggregate_score c * real (unat (es_total_test_cases c))"
proof -
  have tot: "unat (es_total_test_cases z) = unat (es_total_test_cases x) + unat (es_total_test_cases y)"
    if "summary_combine real_num x y = Some z" "unat (es_total_test_cases x) + unat (es_total_test_cases y) < 2 ^ 32"
    for x y z :: "(real, 'a) EvalSummary"
    using that by (auto simp: summary_combine_def Let_def unat_sat_add split: option.splits)
  have sc: "es_aggregate_score z * real (unat (es_total_test_cases z)) =
      es_aggregate_score x * real (unat (es_total_test_cases x)) + es_aggregate_score y * real (unat (es_total_test_cases y))"
    if "summary_combine real_num x y = Some z" "unat (es_total_test_cases x) + unat (es_total_test_cases y) < 2 ^ 32"
    for x y z :: "(real, 'a) EvalSummary"
  proof (cases "unat (es_total_test_cases z) = 0")
    case True
    with tot [OF that] show ?thesis by simp
  next
    case False
    then have "es_aggregate_score z = (es_aggregate_score x * real (unat (es_total_test_cases x)) +
        es_aggregate_score y * real (unat (es_total_test_cases y))) / real (unat (es_total_test_cases z))"
      using that(1) by (auto simp: summary_combine_def weighted_score_def Let_def split: option.splits)
    moreover have "real (unat (es_total_test_cases z)) \<noteq> 0" using False by (simp only: of_nat_eq_0_iff) simp
    ultimately show ?thesis by (metis nonzero_eq_divide_eq)
  qed
  have n: "unat (es_total_test_cases ab) = unat (es_total_test_cases a) + unat (es_total_test_cases b)"
    "unat (es_total_test_cases bc) = unat (es_total_test_cases b) + unat (es_total_test_cases c)"
    using tot [OF assms(2)] tot [OF assms(3)] assms(1) by simp_all
  have nl: "unat (es_total_test_cases l) = unat (es_total_test_cases r)"
    using tot [OF assms(4)] tot [OF assms(5)] n assms(1) by simp
  have L: "es_aggregate_score l * real (unat (es_total_test_cases l)) =
      es_aggregate_score a * real (unat (es_total_test_cases a)) + es_aggregate_score b * real (unat (es_total_test_cases b)) +
      es_aggregate_score c * real (unat (es_total_test_cases c))"
    using sc [OF assms(4)] sc [OF assms(2)] n assms(1) by simp
  have R: "es_aggregate_score r * real (unat (es_total_test_cases r)) =
      es_aggregate_score a * real (unat (es_total_test_cases a)) + es_aggregate_score b * real (unat (es_total_test_cases b)) +
      es_aggregate_score c * real (unat (es_total_test_cases c))"
    using sc [OF assms(5)] sc [OF assms(3)] n assms(1) by simp
  have zero: "es_aggregate_score z = 0" if "summary_combine real_num x y = Some z" "unat (es_total_test_cases z) = 0"
    for x y z :: "(real, 'a) EvalSummary"
    using that by (auto simp: summary_combine_def weighted_score_def Let_def split: option.splits)
  have "es_aggregate_score l = es_aggregate_score r"
  proof (cases "unat (es_total_test_cases l) = 0")
    case True
    with zero [OF assms(4)] zero [OF assms(5)] nl show ?thesis by simp
  next
    case False
    then have "real (unat (es_total_test_cases l)) \<noteq> 0" by (simp only: of_nat_eq_0_iff) simp
    moreover have "es_aggregate_score l * real (unat (es_total_test_cases l)) = es_aggregate_score r * real (unat (es_total_test_cases l))"
      using L R by (simp only: nl)
    ultimately show ?thesis by (metis mult_right_cancel)
  qed
  with L nl show ?thesis by (simp add: word_unat_eq_iff)
qed

end
