(* ===== verification/Eval_Bus.thy ===== *)
theory Eval_Bus
  imports Eval_Types
begin

text \<open>
  The event bus of an evaluation: \<open>event_bus.rs\<close> of \<open>crates/agent-fw-eval/src\<close> and the sequenced wrapper of
  \<open>agent-fw-core/src/sequenced.rs\<close>.

  \<^item> An emission is one critical section under the bus's lock, so it is one step. The time is an argument.
  \<^item> The broadcast channel is the list of what was sent on it; a receiver reads from the position at which
    it subscribed. The overflow of a slow receiver's buffer is not modelled.
  \<^item> The history is a finite map, read in an arbitrary order and then sorted.
  \<^item> Buses with a parent are cells of a store; a parent was created before its child, so its index is smaller.
\<close>

section \<open>The sequenced bus\<close>

record 'e Sequenced =
  sq_seq :: u64
  sq_event :: 'e

definition sequenced_map :: "('e \<Rightarrow> 'b) \<Rightarrow> 'e Sequenced \<Rightarrow> 'b Sequenced" where
  "sequenced_map f s = \<lparr>sq_seq = sq_seq s, sq_event = f (sq_event s)\<rparr>"

record 'e HistoryEntry =
  he_event :: "'e Sequenced"
  he_inserted_at :: duration

record 'e SequencedBus =
  sb_seq :: u64
  sb_history :: "(u64, 'e HistoryEntry) fmap"
  sb_history_ttl :: duration
  sb_sent :: "'e Sequenced list"
  sb_receivers :: nat

definition DEFAULT_HISTORY_TTL :: duration where "DEFAULT_HISTORY_TTL = from_secs 300"

definition sbus_with_history_ttl :: "duration \<Rightarrow> 'e SequencedBus" where
  "sbus_with_history_ttl ttl =
     \<lparr>sb_seq = 0, sb_history = fmempty, sb_history_ttl = ttl, sb_sent = [], sb_receivers = 0\<rparr>"

definition sbus_new :: "'e SequencedBus" where
  "sbus_new = sbus_with_history_ttl DEFAULT_HISTORY_TTL"

definition sbus_emit :: "duration \<Rightarrow> 'e \<Rightarrow> 'e SequencedBus \<Rightarrow> nat \<times> 'e SequencedBus" where
  "sbus_emit now event b =
     (let seq = sb_seq b; sequenced = \<lparr>sq_seq = seq, sq_event = event\<rparr>
      in (sb_receivers b,
          b\<lparr>sb_seq := seq + 1,
            sb_history := fmupd seq \<lparr>he_event = sequenced, he_inserted_at = now\<rparr> (sb_history b),
            sb_sent := sb_sent b @ [sequenced]\<rparr>))"

definition current_seq :: "'e SequencedBus \<Rightarrow> u64" where
  "current_seq b = sb_seq b"

definition fresh :: "duration \<Rightarrow> 'e SequencedBus \<Rightarrow> 'e HistoryEntry \<Rightarrow> bool" where
  "fresh now b e \<longleftrightarrow> now - he_inserted_at e < sb_history_ttl b"

definition history_since :: "(u64 fset \<Rightarrow> u64 list) \<Rightarrow> duration \<Rightarrow> u64 \<Rightarrow> 'e SequencedBus \<Rightarrow> 'e Sequenced list" where
  "history_since ord now from_seq b =
     sort_key sq_seq (map he_event (filter (fresh now b)
       (filter (\<lambda>e. sq_seq (he_event e) > from_seq) (map snd (entries ord (sb_history b))))))"

definition evict_expired :: "duration \<Rightarrow> 'e SequencedBus \<Rightarrow> nat \<times> 'e SequencedBus" where
  "evict_expired now b =
     (let kept = fmfilter (\<lambda>k. case fmlookup (sb_history b) k of None \<Rightarrow> False | Some e \<Rightarrow> fresh now b e) (sb_history b)
      in (fcard (fmdom (sb_history b)) - fcard (fmdom kept), b\<lparr>sb_history := kept\<rparr>))"

definition history_len :: "'e SequencedBus \<Rightarrow> nat" where
  "history_len b = fcard (fmdom (sb_history b))"

text \<open>A subscription is the position in what is sent.\<close>

definition subscribe :: "'e SequencedBus \<Rightarrow> nat \<times> 'e SequencedBus" where
  "subscribe b = (length (sb_sent b), b\<lparr>sb_receivers := sb_receivers b + 1\<rparr>)"

definition received :: "nat \<Rightarrow> 'e SequencedBus \<Rightarrow> 'e Sequenced list" where
  "received start b = drop start (sb_sent b)"

section \<open>The evaluation bus\<close>

record ('f, 'x) EvalEventBus =
  eb_inner :: "('f, 'x) EvalEvent SequencedBus"
  eb_parent_bus :: "nat option"
  eb_child_run_id :: "EvalRunId option"

type_synonym ('f, 'x) bus_store = "('f, 'x) EvalEventBus list"

definition eval_bus_new :: "('f, 'x) bus_store \<Rightarrow> nat \<times> ('f, 'x) bus_store" where
  "eval_bus_new st = (length st, st @ [\<lparr>eb_inner = sbus_new, eb_parent_bus = None, eb_child_run_id = None\<rparr>])"

definition eval_bus_with_history_ttl :: "duration \<Rightarrow> ('f, 'x) bus_store \<Rightarrow> nat \<times> ('f, 'x) bus_store" where
  "eval_bus_with_history_ttl ttl st =
     (length st, st @ [\<lparr>eb_inner = sbus_with_history_ttl ttl, eb_parent_bus = None, eb_child_run_id = None\<rparr>])"

definition eval_bus_with_parent :: "nat \<Rightarrow> EvalRunId \<Rightarrow> ('f, 'x) bus_store \<Rightarrow> nat \<times> ('f, 'x) bus_store" where
  "eval_bus_with_parent parent child_run_id st =
     (length st, st @ [\<lparr>eb_inner = sbus_new, eb_parent_bus = Some parent, eb_child_run_id = Some child_run_id\<rparr>])"

text \<open>The parent hears of the event first, wrapped; then the bus itself.\<close>

function eval_bus_emit :: "duration \<Rightarrow> nat \<Rightarrow> ('f, 'x) EvalEvent \<Rightarrow> ('f, 'x) bus_store \<Rightarrow> ('f, 'x) bus_store" where
  "eval_bus_emit now i event st =
     (let st = (case (eb_parent_bus (st ! i), eb_child_run_id (st ! i)) of
                  (Some parent, Some child_id) \<Rightarrow>
                    if parent < i then eval_bus_emit now parent (Ev_ChildProgress child_id event) st else st
                | _ \<Rightarrow> st)
      in st[i := (st ! i)\<lparr>eb_inner := snd (sbus_emit now event (eb_inner (st ! i)))\<rparr>])"
  by pat_completeness auto
termination by (relation "measure (\<lambda>(_, i, _, _). i)") auto

declare eval_bus_emit.simps [simp del]

section \<open>The history is the recent part of the log\<close>

datatype 'e bus_cmd = Emit 'e | Evict | Subscribe

fun bus_step :: "duration \<times> 'e bus_cmd \<Rightarrow> 'e SequencedBus \<Rightarrow> 'e SequencedBus" where
  "bus_step (now, Emit e) b = snd (sbus_emit now e b)"
| "bus_step (now, Evict) b = snd (evict_expired now b)"
| "bus_step (now, Subscribe) b = snd (subscribe b)"

definition bus_run :: "(duration \<times> 'e bus_cmd) list \<Rightarrow> 'e SequencedBus \<Rightarrow> 'e SequencedBus" where
  "bus_run cmds b = fold bus_step cmds b"

text \<open>What was emitted, and when.\<close>

fun emitted :: "(duration \<times> 'e bus_cmd) list \<Rightarrow> (duration \<times> 'e) list" where
  "emitted [] = []"
| "emitted ((now, Emit e) # cmds) = (now, e) # emitted cmds"
| "emitted ((now, Evict) # cmds) = emitted cmds"
| "emitted ((now, Subscribe) # cmds) = emitted cmds"

definition log_entry :: "(duration \<times> 'e) list \<Rightarrow> nat \<Rightarrow> 'e HistoryEntry" where
  "log_entry lg i = \<lparr>he_event = \<lparr>sq_seq = of_nat i, sq_event = snd (lg ! i)\<rparr>, he_inserted_at = fst (lg ! i)\<rparr>"

definition bus_inv :: "duration \<Rightarrow> (duration \<times> 'e) list \<Rightarrow> duration \<Rightarrow> 'e SequencedBus \<Rightarrow> bool" where
  "bus_inv ttl lg now b \<longleftrightarrow> sb_history_ttl b = ttl \<and> sb_seq b = of_nat (length lg) \<and>
     (\<forall>k e. fmlookup (sb_history b) k = Some e \<longrightarrow> unat k < length lg \<and> e = log_entry lg (unat k)) \<and>
     (\<forall>i < length lg. fmlookup (sb_history b) (of_nat i) = None \<longrightarrow> ttl \<le> now - fst (lg ! i))"

lemma log_entry_append [simp]: "i < length lg \<Longrightarrow> log_entry (lg @ xs) i = log_entry lg i"
  by (simp add: log_entry_def nth_append)

lemma bus_inv_emit:
  assumes "bus_inv ttl lg now b" "now \<le> now'" "length lg < 2 ^ 64"
  shows "bus_inv ttl (lg @ [(now', e)]) now' (snd (sbus_emit now' e b))"
proof -
  note n = unat_of_nat_u64 [OF assms(3)]
  have old: "(of_nat i :: u64) = of_nat (length lg) \<longleftrightarrow> i = length lg" if "i < Suc (length lg)" for i
    using that assms(3) n unat_of_nat_u64 [of i] by (metis less_Suc_eq order_less_trans)
  have "unat k < length (lg @ [(now', e)]) \<and> h = log_entry (lg @ [(now', e)]) (unat k)"
    if "fmlookup (sb_history (snd (sbus_emit now' e b))) k = Some h" for k h
    using that assms(1) n
    by (auto simp: sbus_emit_def Let_def bus_inv_def log_entry_def nth_append split: if_splits)
  moreover have "ttl \<le> now' - fst ((lg @ [(now', e)]) ! i)"
    if "i < Suc (length lg)" "fmlookup (sb_history (snd (sbus_emit now' e b))) (of_nat i) = None" for i
  proof -
    have "i < length lg" "fmlookup (sb_history b) (of_nat i) = None"
      using that assms(1) old [of i] by (auto simp: sbus_emit_def Let_def bus_inv_def less_Suc_eq split: if_splits)
    with assms(1, 2) show ?thesis by (fastforce simp: bus_inv_def nth_append)
  qed
  ultimately show ?thesis using assms(1) by (auto simp: bus_inv_def sbus_emit_def Let_def)
qed

lemma bus_inv_later: "bus_inv ttl lg now b \<Longrightarrow> now \<le> now' \<Longrightarrow> bus_inv ttl lg now' b"
  by (fastforce simp: bus_inv_def)

lemma bus_inv_evict:
  assumes "bus_inv ttl lg now b" "now \<le> now'" "length lg < 2 ^ 64"
  shows "bus_inv ttl lg now' (snd (evict_expired now' b))"
proof -
  have inv: "bus_inv ttl lg now' b" by (rule bus_inv_later [OF assms(1, 2)])
  have "ttl \<le> now' - fst (lg ! i)"
    if "i < length lg" "fmlookup (sb_history (snd (evict_expired now' b))) (of_nat i) = None" for i
  proof (cases "fmlookup (sb_history b) (of_nat i)")
    case None
    with inv that(1) show ?thesis by (simp add: bus_inv_def)
  next
    case (Some h)
    have "unat (of_nat i :: u64) = i" using that(1) assms(3) by (intro unat_of_nat_u64) simp
    moreover have "h = log_entry lg (unat (of_nat i :: u64))" using inv Some unfolding bus_inv_def by blast
    ultimately have "h = log_entry lg i" by simp
    with Some that(2) inv show ?thesis
      by (auto simp: evict_expired_def Let_def fresh_def bus_inv_def log_entry_def split: if_splits)
  qed
  with inv show ?thesis
    by (auto simp: bus_inv_def evict_expired_def Let_def split: if_splits)
qed

lemma bus_inv_run:
  assumes "bus_inv ttl lg now b" "sorted (now # map fst cmds)" "length lg + length (emitted cmds) < 2 ^ 64"
  shows "bus_inv ttl (lg @ emitted cmds) (last (now # map fst cmds)) (bus_run cmds b)"
  using assms
proof (induction cmds arbitrary: lg now b rule: emitted.induct)
  case (2 t e cmds)
  have "bus_inv ttl (lg @ [(t, e)]) t (snd (sbus_emit t e b))"
    by (rule bus_inv_emit [OF "2.prems"(1)]) (use "2.prems"(2, 3) in simp_all)
  from "2.IH" [OF this] "2.prems" show ?case by (simp add: bus_run_def)
next
  case (3 t cmds)
  have "bus_inv ttl lg t (snd (evict_expired t b))"
    by (rule bus_inv_evict [OF "3.prems"(1)]) (use "3.prems"(2, 3) in simp_all)
  from "3.IH" [OF this] "3.prems" show ?case by (simp add: bus_run_def)
next
  case (4 t cmds)
  have "bus_inv ttl lg t (snd (subscribe b))"
    using bus_inv_later [OF "4.prems"(1), of t] "4.prems"(2) by (simp add: bus_inv_def subscribe_def)
  from "4.IH" [OF this] "4.prems" show ?case by (simp add: bus_run_def)
qed (simp add: bus_run_def)

lemma bus_inv_start: "bus_inv ttl [] now (sbus_with_history_ttl ttl)"
  by (simp add: bus_inv_def sbus_with_history_ttl_def)

text \<open>The recent part of a log: the events after a number that are younger than the time to live.\<close>

definition recent :: "duration \<Rightarrow> duration \<Rightarrow> nat \<Rightarrow> (duration \<times> 'e) list \<Rightarrow> 'e Sequenced list" where
  "recent ttl now n lg =
     map (\<lambda>i. \<lparr>sq_seq = of_nat i, sq_event = snd (lg ! i)\<rparr>)
       (filter (\<lambda>i. n < i \<and> now - fst (lg ! i) < ttl) [0..<length lg])"

lemma bus_inv_entry:
  assumes "enumerates ord" "bus_inv ttl lg now b" "length lg < 2 ^ 64" "(k, e) \<in> set (entries ord (sb_history b))"
  shows "unat k < length lg \<and> e = log_entry lg (unat k) \<and> sq_seq (he_event e) = k"
proof -
  have "unat k < length lg \<and> e = log_entry lg (unat k)"
    using assms(2, 4) unfolding bus_inv_def entries_set [OF assms(1)] by blast
  then show ?thesis by (simp add: log_entry_def)
qed

lemma sorted_words:
  assumes "length lg < 2 ^ 64"
  shows "sorted (map (\<lambda>i. of_nat i :: u64) (filter P [0..<length lg])) \<and>
    distinct (map (\<lambda>i. of_nat i :: u64) (filter P [0..<length lg]))"
proof -
  have lt: "i < 2 ^ 64" if "i \<in> set (filter P [0..<length lg])" for i using that assms by simp
  have "(of_nat i :: u64) \<le> of_nat j" if "i \<le> j" "j \<in> set (filter P [0..<length lg])" for i j
    using that lt [OF that(2)] by (simp add: word_le_nat_alt unat_of_nat_u64)
  moreover have "sorted (filter P [0..<length lg])" by (simp add: sorted_wrt_filter)
  ultimately have "sorted (map (\<lambda>i. of_nat i :: u64) (filter P [0..<length lg]))"
    unfolding sorted_map by (elim sorted_wrt_mono_rel [rotated]) auto
  moreover have "inj_on (\<lambda>i. of_nat i :: u64) (set (filter P [0..<length lg]))"
    by (rule inj_on_inverseI [where g = unat]) (rule unat_of_nat_u64 [OF lt])
  ultimately show ?thesis by (simp add: distinct_map)
qed

lemma history_since_set:
  assumes "enumerates ord" "bus_inv ttl lg now b" "length lg < 2 ^ 64"
  shows "set (history_since ord now n b) = set (recent ttl now (unat n) lg)"
proof (intro set_eqI iffI)
  fix x
  assume "x \<in> set (history_since ord now n b)"
  then obtain k e where ke: "(k, e) \<in> set (entries ord (sb_history b))" "x = he_event e" "n < sq_seq x" "fresh now b e"
    by (auto simp: history_since_def)
  note en = bus_inv_entry [OF assms ke(1)]
  have "x = \<lparr>sq_seq = of_nat (unat k), sq_event = snd (lg ! unat k)\<rparr>" using en ke(2) by (simp add: log_entry_def)
  moreover have "unat n < unat k" using en ke(2, 3) by (metis word_less_nat_alt)
  moreover have "now - fst (lg ! unat k) < ttl"
    using en ke(4) assms(2) by (simp add: fresh_def log_entry_def bus_inv_def)
  ultimately show "x \<in> set (recent ttl now (unat n) lg)"
    using en unfolding recent_def set_map set_filter by (intro image_eqI [where x = "unat k"]) auto
next
  fix x
  assume "x \<in> set (recent ttl now (unat n) lg)"
  then obtain i where i: "i < length lg" "unat n < i" "now - fst (lg ! i) < ttl"
    "x = \<lparr>sq_seq = of_nat i, sq_event = snd (lg ! i)\<rparr>" by (auto simp: recent_def)
  have u: "unat (of_nat i :: u64) = i" using i(1) assms(3) by (intro unat_of_nat_u64) simp
  obtain e where e: "fmlookup (sb_history b) (of_nat i) = Some e"
    using assms(2) i(1, 3) unfolding bus_inv_def by (metis not_le option.exhaust)
  then have el: "e = log_entry lg i" using assms(2) u unfolding bus_inv_def by metis
  have "(of_nat i, e) \<in> set (entries ord (sb_history b))" by (simp add: entries_set [OF assms(1)] e)
  moreover have "n < sq_seq (he_event e)" using i(2) u by (simp add: el log_entry_def word_less_nat_alt)
  moreover have "fresh now b e" using i(3) assms(2) by (simp add: fresh_def el log_entry_def bus_inv_def)
  moreover have "x = he_event e" using i(4) by (simp add: el log_entry_def)
  ultimately show "x \<in> set (history_since ord now n b)"
    by (force simp: history_since_def)
qed

lemma history_since_distinct:
  assumes "enumerates ord" "bus_inv ttl lg now b" "length lg < 2 ^ 64"
  shows "distinct (map sq_seq (history_since ord now n b))"
proof -
  have "map (\<lambda>(k, e). sq_seq (he_event e)) (entries ord (sb_history b)) = map fst (entries ord (sb_history b))"
    using bus_inv_entry [OF assms] by (intro map_cong) auto
  then have "map (sq_seq \<circ> he_event) (map snd (entries ord (sb_history b))) = map fst (entries ord (sb_history b))"
    by (simp only: map_map comp_def case_prod_beta')
  then have *: "distinct (map (sq_seq \<circ> he_event) (map snd (entries ord (sb_history b))))"
    using distinct_entries [OF assms(1)] by (simp only:)
  have "distinct (map (sq_seq \<circ> he_event) (filter P (filter Q (map snd (entries ord (sb_history b))))))" for P Q
    by (intro distinct_map_filter *)
  then have "distinct (map sq_seq (sort_key sq_seq (map he_event (filter P (filter Q (map snd (entries ord (sb_history b))))))))" for P Q
    by (subst mset_eq_imp_distinct_iff [of _ "map (sq_seq \<circ> he_event) (filter P (filter Q (map snd (entries ord (sb_history b)))))"])
      (simp_all add: multiset.map_comp)
  then show ?thesis by (simp add: history_since_def)
qed

lemma history_since_recent:
  assumes "enumerates ord" "bus_inv ttl lg now b" "length lg < 2 ^ 64"
  shows "history_since ord now n b = recent ttl now (unat n) lg"
proof (rule map_sorted_distinct_set_unique [where f = sq_seq])
  have key: "map sq_seq (recent ttl now (unat n) lg) =
      map (\<lambda>i. of_nat i) (filter (\<lambda>i. unat n < i \<and> now - fst (lg ! i) < ttl) [0..<length lg])"
    by (simp add: recent_def)
  show srt: "sorted (map sq_seq (recent ttl now (unat n) lg))" and dst: "distinct (map sq_seq (recent ttl now (unat n) lg))"
    unfolding key using sorted_words [OF assms(3)] by blast+
  show same: "set (history_since ord now n b) = set (recent ttl now (unat n) lg)" by (rule history_since_set [OF assms])
  show "inj_on sq_seq (set (history_since ord now n b) \<union> set (recent ttl now (unat n) lg))"
    using dst by (simp add: same distinct_map)
  show "sorted (map sq_seq (history_since ord now n b))" by (simp add: history_since_def)
  show "distinct (map sq_seq (history_since ord now n b))" by (rule history_since_distinct [OF assms])
qed

text \<open>
  C32. Replay is the recent part of the log. Whatever was emitted, evicted and subscribed at times that do not
  decrease, in fewer than \<open>2 ^ 64\<close> emissions and whatever the order of the history's iteration, a replay after
  number \<open>n\<close> returns exactly the emitted events numbered above \<open>n\<close> whose age is below the time to live, in the
  order of emission and each once: eviction never loses an event that could still be asked for.
\<close>

theorem bus_replays_recent:
  assumes "enumerates ord" "sorted (map fst cmds @ [now])" "length (emitted cmds) < 2 ^ 64"
  shows "history_since ord now n (bus_run cmds (sbus_with_history_ttl ttl)) = recent ttl now (unat n) (emitted cmds)"
proof -
  have "sorted (0 # map fst cmds)" using assms(2) by (simp add: sorted_append)
  from bus_inv_run [OF bus_inv_start this] assms(3)
  have inv: "bus_inv ttl (emitted cmds) (last (0 # map fst cmds)) (bus_run cmds (sbus_with_history_ttl ttl))" by simp
  have "last (0 # map fst cmds) \<in> set (0 # map fst cmds)" by (intro last_in_set) simp
  then have "last (0 # map fst cmds) \<le> now" using assms(2) by (auto simp: sorted_append)
  from history_since_recent [OF assms(1) bus_inv_later [OF inv this] assms(3)] show ?thesis .
qed

theorem bus_replays_recent_witness:
  "history_since sorted_list_of_fset 12 0 (bus_run [(1, Emit ''a''), (2, Emit ''b''), (11, Evict), (11, Emit ''c'')]
     (sbus_with_history_ttl 11)) = [\<lparr>sq_seq = 1, sq_event = ''b''\<rparr>, \<lparr>sq_seq = 2, sq_event = ''c''\<rparr>] \<and>
   enumerates (sorted_list_of_fset :: u64 fset \<Rightarrow> u64 list)"
proof
  show "enumerates (sorted_list_of_fset :: u64 fset \<Rightarrow> u64 list)" by (rule sorted_enumerates)
  have "sorted (map fst [(1, Emit ''a''), (2, Emit ''b''), (11, Evict), (11, Emit ''c'')] @ [12 :: duration])" by simp
  from bus_replays_recent [OF sorted_enumerates this, of 0 11]
  show "history_since sorted_list_of_fset 12 0 (bus_run [(1, Emit ''a''), (2, Emit ''b''), (11, Evict), (11, Emit ''c'')]
     (sbus_with_history_ttl 11)) = [\<lparr>sq_seq = 1, sq_event = ''b''\<rparr>, \<lparr>sq_seq = 2, sq_event = ''c''\<rparr>]"
    by (simp add: recent_def upt_rec)
qed

text \<open>
  The first event has number 0 and a replay starts above the number asked for, so no replay ever returns it.
\<close>

theorem first_event_never_replayed:
  assumes "x \<in> set (history_since ord now n b)"
  shows "sq_seq x \<noteq> 0"
  using assms by (auto simp: history_since_def)

text \<open>
  Replaying and then subscribing, as the documentation of the replay says, misses what is emitted in between;
  subscribing first does not.
\<close>

theorem replay_before_subscribe_gap:
  "\<exists>b :: string SequencedBus. \<exists>x.
     (let h = history_since sorted_list_of_fset 3 0 b;
          b1 = snd (sbus_emit 3 x b); (start, b2) = subscribe b1
      in h = [] \<and> received start b2 = [] \<and>
         history_since sorted_list_of_fset 3 0 b1 = [\<lparr>sq_seq = 1, sq_event = x\<rparr>])"
proof (intro exI)
  let ?b = "bus_run [(1, Emit ''a'')] (sbus_with_history_ttl 9)"
  have s1: "sorted (map fst [(1, Emit ''a'')] @ [3 :: duration])" by simp
  have s2: "sorted (map fst [(1, Emit ''a''), (3, Emit ''b'')] @ [3 :: duration])" by simp
  have run: "snd (sbus_emit 3 ''b'' ?b) = bus_run [(1, Emit ''a''), (3, Emit ''b'')] (sbus_with_history_ttl 9)"
    by (simp add: bus_run_def)
  have "bus_inv 9 (emitted [(1, Emit ''a'')]) 3 ?b"
    using bus_inv_later [OF bus_inv_run [OF bus_inv_start [of 9 0], of "[(1, Emit ''a'')]"], of 3] by simp
  from history_since_recent [OF sorted_enumerates this, of 0]
  have h1: "history_since sorted_list_of_fset 3 0 ?b = []" by (simp add: recent_def upt_rec)
  have "bus_inv 9 (emitted [(1, Emit ''a''), (3, Emit ''b'')]) 3 (snd (sbus_emit 3 ''b'' ?b))"
    unfolding run using bus_inv_run [OF bus_inv_start [of 9 0], of "[(1, Emit ''a''), (3, Emit ''b'')]"] by simp
  from history_since_recent [OF sorted_enumerates this, of 0]
  have h2: "history_since sorted_list_of_fset 3 0 (snd (sbus_emit 3 ''b'' ?b)) = [\<lparr>sq_seq = 1, sq_event = ''b''\<rparr>]"
    by (simp add: recent_def upt_rec)
  show "let h = history_since sorted_list_of_fset 3 0 ?b;
          b1 = snd (sbus_emit 3 ''b'' ?b); (start, b2) = subscribe b1
      in h = [] \<and> received start b2 = [] \<and>
         history_since sorted_list_of_fset 3 0 b1 = [\<lparr>sq_seq = 1, sq_event = ''b''\<rparr>]"
    unfolding Let_def h1 h2 by (simp add: subscribe_def received_def)
qed

section \<open>Forwarding\<close>

text \<open>
  The buses that hear of an event: the bus itself, then its parent with the event wrapped, and so on.
\<close>

function hears :: "('f, 'x) bus_store \<Rightarrow> nat \<Rightarrow> ('f, 'x) EvalEvent \<Rightarrow> (nat \<times> ('f, 'x) EvalEvent) list" where
  "hears st i event = (i, event) #
     (case (eb_parent_bus (st ! i), eb_child_run_id (st ! i)) of
        (Some parent, Some child_id) \<Rightarrow> if parent < i then hears st parent (Ev_ChildProgress child_id event) else []
      | _ \<Rightarrow> [])"
  by pat_completeness auto
termination by (relation "measure (\<lambda>(_, i, _). i)") auto

declare hears.simps [simp del]

lemma hears_le: "(j, e) \<in> set (hears st i event) \<Longrightarrow> j \<le> i"
proof (induction st i event rule: hears.induct)
  case (1 st i event)
  from "1.prems" consider "j = i"
    | p c where "(eb_parent_bus (st ! i), eb_child_run_id (st ! i)) = (Some p, Some c)" "p < i"
        "(j, e) \<in> set (hears st p (Ev_ChildProgress c event))"
    unfolding hears.simps [of st i event] by (auto split: option.splits if_splits) metis
  then show ?case
  proof cases
    case (2 p c)
    with "1.IH" [OF 2(1) [symmetric] refl refl] show ?thesis by simp
  qed simp
qed

lemma hears_once: "distinct (map fst (hears st i event))"
proof (induction st i event rule: hears.induct)
  case (1 st i event)
  then show ?case
    by (subst hears.simps) (auto split: option.splits dest: hears_le)
qed

lemma length_eval_bus_emit [simp]: "length (eval_bus_emit now i event st) = length st"
proof (induction now i event st rule: eval_bus_emit.induct)
  case (1 now i event st)
  then show ?case by (subst eval_bus_emit.simps) (auto simp: Let_def split: option.splits)
qed

text \<open>
  Every bus on the way to the root hears of an event once, wrapped once per step; the others, and the
  wiring of all of them, stay as they are.
\<close>

theorem eval_bus_emit_exact:
  assumes "i < length st" "j < length st"
  shows "eval_bus_emit now i event st ! j =
    (case map_of (hears st i event) j of
       None \<Rightarrow> st ! j
     | Some e \<Rightarrow> (st ! j)\<lparr>eb_inner := snd (sbus_emit now e (eb_inner (st ! j)))\<rparr>)"
  using assms(1)
proof (induction now i event st rule: eval_bus_emit.induct)
  case (1 now i event st)
  have no_later: "map_of (hears st p e) i = None" if "p < i" for p e
    using that hears_le [of i _ st p e] by (auto simp: map_of_eq_None_iff)
  show ?case
    using "1.prems" "1.IH" assms(2) no_later
    by (subst eval_bus_emit.simps, subst hears.simps)
      (auto simp: Let_def nth_list_update split: option.splits)
qed

end
