(* ===== verification/Eval_Scorer.thy ===== *)
theory Eval_Scorer
  imports Eval_Types Non_Empty
begin

text \<open>
  Scorers and aggregation of the evaluation harness: \<open>scorer.rs\<close> and \<open>result_aggregator.rs\<close> of
  \<open>crates/agent-fw-eval/src\<close>.

  \<^item> The trait \<open>EvalScorer\<close> is the type of its method \<open>score\<close>; its documented laws, over the real numbers,
    are the locale \<open>EvalScorer_laws\<close>, interpreted for the trajectory scorer and for a composition.
  \<^item> The rendering of the details as JSON is an argument.
\<close>

section \<open>Scored samples\<close>

record ('f, 'x) ScoredSample =
  sc_aggregate :: 'f
  sc_component_scores :: "('x, 'f) ScorerResult NonEmpty"

definition leaf_with_details :: "'f num_ops \<Rightarrow> string \<Rightarrow> 'f \<Rightarrow> 'x \<Rightarrow> ('f, 'x) ScoredSample" where
  "leaf_with_details N name score details =
     (let result = scorer_result_with_details N name score details
      in \<lparr>sc_aggregate = sr_score result, sc_component_scores = ne_singleton result\<rparr>)"

definition leaf :: "'f num_ops \<Rightarrow> string \<Rightarrow> 'f \<Rightarrow> ('f, 'x) ScoredSample" where
  "leaf N name score =
     (let result = scorer_result_new N name score
      in \<lparr>sc_aggregate = sr_score result, sc_component_scores = ne_singleton result\<rparr>)"

definition weighted_average :: "'f num_ops \<Rightarrow> 'f list \<Rightarrow> 'f list \<Rightarrow> 'f" where
  "weighted_average N values weights =
     (let sum_weights = n_sum N weights
      in if n_eq N sum_weights (n_zero N) then n_zero N
         else n_div N (n_sum N (map (\<lambda>(v, w). n_mul N v w) (zip values weights))) sum_weights)"

section \<open>Weights\<close>

datatype 'f ScoreWeightsError =
    SW_Empty
  | SW_NonFinite string 'f
  | SW_Negative string 'f
  | SW_AllZero
  | SW_UnknownScorer string

datatype 'f ScoreWeights = ScoreWeights (sw_entries: "(string \<times> 'f) NonEmpty")

fun check_weights :: "'f num_ops \<Rightarrow> (string \<times> 'f) list \<Rightarrow> 'f ScoreWeightsError option" where
  "check_weights N [] = None"
| "check_weights N ((name, w) # rest) =
     (if \<not> n_finite N w then Some (SW_NonFinite name w)
      else if n_less N w (n_zero N) then Some (SW_Negative name w)
      else check_weights N rest)"

definition score_weights_new :: "'f num_ops \<Rightarrow> (string \<times> 'f) list \<Rightarrow> ('f ScoreWeightsError, 'f ScoreWeights) result" where
  "score_weights_new N es =
     (case ne_from_vec es of
        None \<Rightarrow> Err SW_Empty
      | Some ne \<Rightarrow>
          case check_weights N (ne_to_vec ne) of
            Some e \<Rightarrow> Err e
          | None \<Rightarrow> if n_eq N (n_sum N (map snd (ne_to_vec ne))) (n_zero N) then Err SW_AllZero
                    else Ok (ScoreWeights ne))"

definition score_weights_equal :: "'f num_ops \<Rightarrow> string list \<Rightarrow> ('f ScoreWeightsError, 'f ScoreWeights) result" where
  "score_weights_equal N names =
     (case ne_from_vec names of
        None \<Rightarrow> Err SW_Empty
      | Some ne \<Rightarrow> let w = n_div N (n_one N) (n_of N (ne_len ne)) in Ok (ScoreWeights (ne_map (\<lambda>n. (n, w)) ne)))"

definition weights_values :: "'f ScoreWeights \<Rightarrow> 'f list" where
  "weights_values ws = map snd (ne_to_vec (sw_entries ws))"

definition weights_normalized :: "'f num_ops \<Rightarrow> 'f ScoreWeights \<Rightarrow> (string \<times> 'f) list" where
  "weights_normalized N ws =
     (let wsum = n_sum N (weights_values ws)
      in map (\<lambda>(name, w). (name, n_div N w wsum)) (ne_to_vec (sw_entries ws)))"

section \<open>Scorers\<close>

record 'x RawSampleOutput =
  raw_actual_trajectory :: "string list"
  raw_response_text :: "string option"
  raw_extra :: "'x option"

definition raw_new :: "string list \<Rightarrow> 'x RawSampleOutput" where
  "raw_new t = \<lparr>raw_actual_trajectory = t, raw_response_text = None, raw_extra = None\<rparr>"

definition raw_with_extra :: "string list \<Rightarrow> 'x \<Rightarrow> 'x RawSampleOutput" where
  "raw_with_extra t x = \<lparr>raw_actual_trajectory = t, raw_response_text = None, raw_extra = Some x\<rparr>"

type_synonym ('f, 'x) scorer = "'x EvalTestCase \<Rightarrow> 'x RawSampleOutput \<Rightarrow> ('f, 'x) ScoredSample"

definition trajectory_scorer ::
  "'f num_ops \<Rightarrow> ((string, 'f) TrajectoryScoreDetails \<Rightarrow> 'x) \<Rightarrow> 'f \<Rightarrow> ('f, 'x) scorer" where
  "trajectory_scorer N to_json beta tc out =
     (let f_beta = score_trajectory N (et_expected_trajectory tc) (raw_actual_trajectory out) (et_trajectory_mode tc) beta
      in leaf_with_details N ''trajectory'' (fb_f_score f_beta)
           (to_json (trajectory_score_details N (et_expected_trajectory tc) (raw_actual_trajectory out)
              (et_trajectory_mode tc) (n_eq N (fb_f_score f_beta) (n_one N)))))"

record ('f, 'x) WeightedChild =
  wc_scorer :: "('f, 'x) scorer"
  wc_weight :: 'f

datatype 'f WeightedChildError = WC_Negative 'f | WC_NonFinite 'f

definition weighted_child_new ::
  "'f num_ops \<Rightarrow> ('f, 'x) scorer \<Rightarrow> 'f \<Rightarrow> ('f WeightedChildError, ('f, 'x) WeightedChild) result" where
  "weighted_child_new N sc w =
     (if n_less N w (n_zero N) then Err (WC_Negative w)
      else if \<not> n_finite N w then Err (WC_NonFinite w)
      else Ok \<lparr>wc_scorer = sc, wc_weight = w\<rparr>)"

datatype 'f CompositeError =
    CE_Empty
  | CE_AllZeroWeights
  | CE_InvalidChild "'f WeightedChildError"
  | CE_LengthMismatch nat nat

datatype ('f, 'x) CompositeScorer = CompositeScorer (cs_children: "('f, 'x) WeightedChild NonEmpty")

definition composite_new ::
  "'f num_ops \<Rightarrow> ('f, 'x) WeightedChild NonEmpty \<Rightarrow> ('f CompositeError, ('f, 'x) CompositeScorer) result" where
  "composite_new N children =
     (if n_eq N (n_sum N (map wc_weight (ne_to_vec children))) (n_zero N) then Err CE_AllZeroWeights
      else Ok (CompositeScorer children))"

text \<open>The seed is the first child's output; the others are appended in order.\<close>

definition composite_score :: "'f num_ops \<Rightarrow> ('f, 'x) CompositeScorer \<Rightarrow> ('f, 'x) scorer" where
  "composite_score N cs tc out =
     (let first_child = ne_first (cs_children cs);
          first_output = wc_scorer first_child tc out;
          (aggregates, weights, components) =
            fold (\<lambda>child (as, ws, cps). let o' = wc_scorer child tc out
                   in (as @ [sc_aggregate o'], ws @ [wc_weight child], ne_extend (ne_to_vec (sc_component_scores o')) cps))
              (tl (ne_to_vec (cs_children cs)))
              ([sc_aggregate first_output], [wc_weight first_child], sc_component_scores first_output);
          aggregate = weighted_average N aggregates weights
      in \<lparr>sc_aggregate = aggregate,
          sc_component_scores = ne_push (scorer_result_new N ''composite'' aggregate) components\<rparr>)"

text \<open>The \<open>expect\<close> of the children is a panic, \<open>None\<close>.\<close>

definition into_composite ::
  "'f num_ops \<Rightarrow> 'f ScoreWeights \<Rightarrow> ('f, 'x) scorer NonEmpty \<Rightarrow> ('f CompositeError, ('f, 'x) CompositeScorer) result option" where
  "into_composite N ws scorers =
     (if ne_len scorers \<noteq> ne_len (sw_entries ws)
      then Some (Err (CE_LengthMismatch (ne_len scorers) (ne_len (sw_entries ws))))
      else let children = map (\<lambda>(sc, (_, w)). weighted_child_new N sc w) (zip (ne_to_vec scorers) (ne_to_vec (sw_entries ws)))
           in if list_all is_ok children
              then map_option (composite_new N) (ne_from_vec (map projr children))
              else None)"

definition trajectory_only ::
  "'f num_ops \<Rightarrow> ((string, 'f) TrajectoryScoreDetails \<Rightarrow> 'x) \<Rightarrow> ('f, 'x) CompositeScorer option" where
  "trajectory_only N to_json =
     (case weighted_child_new N (trajectory_scorer N to_json (n_of N 2)) (n_one N) of
        Err _ \<Rightarrow> None
      | Ok child \<Rightarrow> (case composite_new N (ne_singleton child) of Err _ \<Rightarrow> None | Ok cs \<Rightarrow> Some cs))"

section \<open>Aggregation\<close>

record 'f TestCaseAggInput =
  ti_test_case_id :: TestCaseId
  ti_sample_scores :: "'f list"
  ti_sample_passed :: "bool list"
  ti_k_values :: "u32 list"
  ti_samples_per_case :: u32
  ti_aggregation_strategy :: AggregationStrategy

record 'f TestCaseAggOutput =
  to_pass_at_k :: "'f PassAtKResult list"
  to_aggregate_score :: 'f
  to_num_correct :: u32

definition pass_at_k_result :: "'f num_ops \<Rightarrow> u32 \<Rightarrow> u32 \<Rightarrow> u32 \<Rightarrow> 'f PassAtKResult" where
  "pass_at_k_result N n num_correct k =
     \<lparr>pk_k = k, pk_simple_estimate = pass_at_k_simple N (unat n) (unat num_correct) (unat k),
      pk_unbiased_estimate = pass_at_k_unbiased N (unat n) (unat num_correct) (unat k), pk_num_samples = n,
      pk_num_correct = num_correct\<rparr>"

definition aggregate_test_case :: "'f num_ops \<Rightarrow> 'f TestCaseAggInput \<Rightarrow> 'f TestCaseAggOutput" where
  "aggregate_test_case N i =
     (let n = of_nat (length (ti_sample_scores i)) :: u32;
          num_correct = of_nat (length (filter id (ti_sample_passed i)))
      in \<lparr>to_pass_at_k = map (pass_at_k_result N n num_correct) (ti_k_values i),
          to_aggregate_score =
            (case ti_aggregation_strategy i of
               PassRate \<Rightarrow> if n = 0 then n_zero N else n_div N (n_of N (unat num_correct)) (n_of N (unat n))
             | MeanScore \<Rightarrow> mean_of N (ti_sample_scores i)),
          to_num_correct = num_correct\<rparr>)"

record 'f RunAggInput =
  ri_tc_aggregate_scores :: "'f list"
  ri_total_usage :: TokenUsageSummary
  ri_total_duration_ms :: u64
  ri_k_values :: "u32 list"
  ri_pass_threshold :: 'f
  ri_aggregation_strategy :: AggregationStrategy
  ri_cost :: "'f EvalCostSummary option"
  ri_latency_summaries :: "LatencySummary list"

text \<open>The fold of the usages; \<open>None\<close> is the panic of \<open>combine\<close>.\<close>

fun usage_fold :: "TokenUsageSummary \<Rightarrow> TokenUsageSummary list \<Rightarrow> TokenUsageSummary option" where
  "usage_fold acc [] = Some acc"
| "usage_fold acc (u # us) = (case tokens_combine acc u of None \<Rightarrow> None | Some acc \<Rightarrow> usage_fold acc us)"

definition all_samples :: "('f, 'x) TestCaseResult list \<Rightarrow> ('f, 'x) SampleResult list" where
  "all_samples results = concat (map tr_samples results)"

definition run_input_from_results ::
  "('f, 'x) TestCaseResult list \<Rightarrow> ('f, 'x) EvalConfig \<Rightarrow> 'f EvalCostSummary option \<Rightarrow> 'f RunAggInput option" where
  "run_input_from_results results config cost =
     map_option (\<lambda>usage.
       \<lparr>ri_tc_aggregate_scores = map tr_aggregate_score results, ri_total_usage = usage,
        ri_total_duration_ms = sum_list (map sa_duration_ms (all_samples results)),
        ri_k_values = cf_k_values config, ri_pass_threshold = cf_pass_threshold config,
        ri_aggregation_strategy = cf_aggregation_strategy config, ri_cost = cost,
        ri_latency_summaries = List.map_filter sa_latency (all_samples results)\<rparr>)
     (usage_fold tokens_ZERO (map sa_token_usage (all_samples results)))"

definition with_cost :: "'f EvalCostSummary \<Rightarrow> 'f RunAggInput \<Rightarrow> 'f RunAggInput" where
  "with_cost cost i = i\<lparr>ri_cost := Some cost\<rparr>"

definition with_single_agent_cost :: "'f num_ops \<Rightarrow> string \<Rightarrow> 'f ModelPricing \<Rightarrow> 'f RunAggInput \<Rightarrow> 'f RunAggInput" where
  "with_single_agent_cost N agent pricing i =
     i\<lparr>ri_cost := Some (from_single_agent_usage N agent (ri_total_usage i) pricing)\<rparr>"

definition with_latency_summaries :: "LatencySummary list \<Rightarrow> 'f RunAggInput \<Rightarrow> 'f RunAggInput" where
  "with_latency_summaries ls i = i\<lparr>ri_latency_summaries := ls\<rparr>"

definition aggregate_run :: "'f num_ops \<Rightarrow> 'f RunAggInput \<Rightarrow> ('f, 'x) EvalSummary" where
  "aggregate_run N i =
     (let n = of_nat (length (ri_tc_aggregate_scores i)) :: u32;
          passed = of_nat (length (filter (\<lambda>s. n_le N (ri_pass_threshold i) s) (ri_tc_aggregate_scores i)));
          failed = (if passed \<le> n then n - passed else 0)
      in \<lparr>es_total_test_cases = n, es_passed = passed, es_failed = failed, es_skipped = 0,
          es_aggregate_score =
            (if n = 0 then n_zero N
             else case ri_aggregation_strategy i of
                    PassRate \<Rightarrow> n_div N (n_of N (unat passed)) (n_of N (unat n))
                  | MeanScore \<Rightarrow> n_div N (n_sum N (ri_tc_aggregate_scores i)) (n_of N (unat n))),
          es_pass_at_k = map (pass_at_k_result N n passed) (ri_k_values i),
          es_total_duration_ms = ri_total_duration_ms i, es_total_usage = ri_total_usage i,
          es_cost = (case ri_cost i of None \<Rightarrow> cost_zero N | Some c \<Rightarrow> c),
          es_latency =
            (if ri_latency_summaries i = [] then None
             else let s = fold_latency (ri_latency_summaries i) in if s = latency_zero then None else Some s),
          es_metadata = None\<rparr>)"

definition rebuild_summary_from_results ::
  "'f num_ops \<Rightarrow> ('f, 'x) TestCaseResult list \<Rightarrow> ('f, 'x) EvalConfig \<Rightarrow> 'f EvalCostSummary option \<Rightarrow>
   ('f, 'x) EvalSummary option" where
  "rebuild_summary_from_results N results config cost =
     map_option (aggregate_run N) (run_input_from_results results config cost)"

section \<open>The scorer laws\<close>

definition in01 :: "real \<Rightarrow> bool" where "in01 x \<longleftrightarrow> 0 \<le> x \<and> x \<le> 1"

lemma clamp01_in01: "in01 (clamp01 real_num x)"
  by (simp add: in01_def clamp01_def real_num_def)

lemma clamp01_id: "in01 x \<Longrightarrow> clamp01 real_num x = x"
  by (simp add: in01_def clamp01_def real_num_def)

lemma n_sum_real [simp]: "n_sum real_num xs = sum_list xs"
proof -
  have "fold (\<lambda>x acc. acc + x) xs a = a + sum_list xs" for a :: real
    by (induction xs arbitrary: a) simp_all
  then show ?thesis by (simp add: n_sum_def real_num_def)
qed

locale EvalScorer_laws =
  fixes score :: "(real, 'x) scorer"
  assumes aggregate_bounded: "in01 (sc_aggregate (score tc out))"
    and components_bounded: "r \<in> set (ne_to_vec (sc_component_scores (score tc out))) \<Longrightarrow> in01 (sr_score r)"
begin

lemma component_score_bounded: "list_all (\<lambda>r. in01 (sr_score r)) (ne_to_vec (sc_component_scores (score tc out)))"
  using components_bounded by (auto simp: list_all_iff)

end

interpretation trajectory: EvalScorer_laws "trajectory_scorer real_num to_json beta" for to_json beta
  by unfold_locales
    (auto simp: trajectory_scorer_def leaf_with_details_def scorer_result_with_details_def Let_def clamp01_in01)

section \<open>Composition\<close>

lemma ne_vec_cons: "ne_to_vec x = ne_first x # tl (ne_to_vec x)"
  by (simp add: ne_to_vec_def ne_first_def)

lemma composite_fold:
  "fold (\<lambda>child (as, ws, cps). let o' = wc_scorer child tc out
       in (as @ [sc_aggregate o'], ws @ [wc_weight child], ne_extend (ne_to_vec (sc_component_scores o')) cps)) cs (as, ws, cps) =
   (as @ map (\<lambda>c. sc_aggregate (wc_scorer c tc out)) cs, ws @ map wc_weight cs,
    ne_extend (concat (map (\<lambda>c. ne_to_vec (sc_component_scores (wc_scorer c tc out))) cs)) cps)"
proof (induction cs arbitrary: as ws cps)
  case Nil
  then show ?case by (simp add: ne_extend_def)
next
  case (Cons c cs)
  then show ?case by (simp add: Let_def ne_extend_def)
qed

lemma composite_score_parts:
  "sc_aggregate (composite_score N cs tc out) =
     weighted_average N (map (\<lambda>c. sc_aggregate (wc_scorer c tc out)) (ne_to_vec (cs_children cs)))
       (map wc_weight (ne_to_vec (cs_children cs)))"
  "ne_to_vec (sc_component_scores (composite_score N cs tc out)) =
     concat (map (\<lambda>c. ne_to_vec (sc_component_scores (wc_scorer c tc out))) (ne_to_vec (cs_children cs))) @
     [scorer_result_new N ''composite'' (sc_aggregate (composite_score N cs tc out))]"
proof -
  obtain c rest where c: "cs_children cs = \<lparr>ne_head = c, ne_tail = rest\<rparr>" by (cases "cs_children cs")
  have parts: "ne_first (cs_children cs) = c" "tl (ne_to_vec (cs_children cs)) = rest" "ne_to_vec (cs_children cs) = c # rest"
    by (simp_all add: c ne_first_def ne_to_vec_def)
  show "sc_aggregate (composite_score N cs tc out) =
     weighted_average N (map (\<lambda>c. sc_aggregate (wc_scorer c tc out)) (ne_to_vec (cs_children cs)))
       (map wc_weight (ne_to_vec (cs_children cs)))"
    by (simp add: composite_score_def parts Let_def composite_fold [unfolded Let_def])
  then show "ne_to_vec (sc_component_scores (composite_score N cs tc out)) =
     concat (map (\<lambda>c. ne_to_vec (sc_component_scores (wc_scorer c tc out))) (ne_to_vec (cs_children cs))) @
     [scorer_result_new N ''composite'' (sc_aggregate (composite_score N cs tc out))]"
    by (simp add: composite_score_def parts Let_def composite_fold [unfolded Let_def])
qed

text \<open>A weighted mean of numbers between zero and one is between zero and one.\<close>

lemma weighted_sum_bounds:
  assumes "length vs = length ws" "list_all in01 vs" "list_all (\<lambda>w. 0 \<le> w) ws"
  shows "0 \<le> sum_list (map (\<lambda>(v, w). v * w) (zip vs ws)) \<and> sum_list (map (\<lambda>(v, w). v * w) (zip vs ws)) \<le> sum_list ws"
  using assms
proof (induction vs ws rule: list_induct2)
  case (Cons v vs w ws)
  then have "0 \<le> v * w" "v * w \<le> w" by (simp_all add: in01_def mult_left_le_one_le)
  with Cons show ?case by simp
qed simp

lemma weighted_average_in01:
  assumes "length vs = length ws" "list_all in01 vs" "list_all (\<lambda>w. 0 \<le> w) ws"
  shows "in01 (weighted_average real_num vs ws)"
proof (cases "sum_list ws = 0")
  case False
  moreover from weighted_sum_bounds [OF assms] have "0 \<le> sum_list ws" by linarith
  ultimately have "0 < sum_list ws" by simp
  with weighted_sum_bounds [OF assms] False show ?thesis
    by (simp add: weighted_average_def in01_def divide_le_eq_1)
qed (simp add: weighted_average_def in01_def)

lemma composite_laws:
  assumes "list_all (\<lambda>c. EvalScorer_laws (wc_scorer c) \<and> 0 \<le> wc_weight c) (ne_to_vec (cs_children cs))"
  shows "EvalScorer_laws (composite_score real_num cs)"
proof
  fix tc out
  have "list_all in01 (map (\<lambda>c. sc_aggregate (wc_scorer c tc out)) (ne_to_vec (cs_children cs)))"
    "list_all (\<lambda>w. 0 \<le> w) (map wc_weight (ne_to_vec (cs_children cs)))"
    using assms by (auto simp: list_all_iff intro: EvalScorer_laws.aggregate_bounded)
  then show aggregate: "in01 (sc_aggregate (composite_score real_num cs tc out))"
    by (simp only: composite_score_parts(1)) (simp add: weighted_average_in01)
  fix r
  assume "r \<in> set (ne_to_vec (sc_component_scores (composite_score real_num cs tc out)))"
  then consider c where "c \<in> set (ne_to_vec (cs_children cs))" "r \<in> set (ne_to_vec (sc_component_scores (wc_scorer c tc out)))"
    | "r = scorer_result_new real_num ''composite'' (sc_aggregate (composite_score real_num cs tc out))"
    by (auto simp: composite_score_parts(2))
  then show "in01 (sr_score r)"
  proof cases
    case 1
    with assms show ?thesis by (auto simp: list_all_iff intro: EvalScorer_laws.components_bounded)
  qed (simp add: scorer_result_new_def clamp01_in01)
qed

lemma check_weights_None: "check_weights real_num es = None \<longleftrightarrow> list_all (\<lambda>e. 0 \<le> snd e) es"
  by (induction es) (auto split: if_splits)

lemma ne_from_vec_iff: "ne_from_vec es = None \<longleftrightarrow> es = []"
  by (cases es) (simp_all add: ne_from_vec_def)

lemma children_ok:
  assumes "list_all (\<lambda>e. 0 \<le> snd e) es" "length scs = length es"
  shows "map (\<lambda>(sc, (_, w)). weighted_child_new real_num sc w) (zip scs es) =
    map (\<lambda>(sc, (_, w)). Ok \<lparr>wc_scorer = sc, wc_weight = w\<rparr>) (zip scs es)"
  using assms(2, 1) by (induction scs es rule: list_induct2) (auto simp: weighted_child_new_def)

lemma weight_column: "length scs = length es \<Longrightarrow> map (wc_weight \<circ> (\<lambda>(sc, e). \<lparr>wc_scorer = sc, wc_weight = snd e\<rparr>)) (zip scs es) = map snd es"
  by (induction scs es rule: list_induct2) auto

lemma weighted_average_zip:
  assumes "length scs = length es" "sum_list (map snd es) \<noteq> 0"
  shows "weighted_average real_num (map ((\<lambda>c. sc_aggregate (wc_scorer c tc out)) \<circ> (\<lambda>(sc, e). \<lparr>wc_scorer = sc, wc_weight = snd e\<rparr>)) (zip scs es))
      (map (wc_weight \<circ> (\<lambda>(sc, e). \<lparr>wc_scorer = sc, wc_weight = snd e\<rparr>)) (zip scs es)) =
    sum_list (map (\<lambda>(sc, (_, w)). sc_aggregate (sc tc out) * w) (zip scs es)) / sum_list (map snd es)"
proof -
  have "sum_list (map (\<lambda>(v, w). v * w) (zip (map ((\<lambda>c. sc_aggregate (wc_scorer c tc out)) \<circ> (\<lambda>(sc, e). \<lparr>wc_scorer = sc, wc_weight = snd e\<rparr>)) (zip scs es))
      (map snd es))) = sum_list (map (\<lambda>(sc, (_, w)). sc_aggregate (sc tc out) * w) (zip scs es))"
    using assms(1) by (induction scs es rule: list_induct2) auto
  with assms show ?thesis by (simp only: weighted_average_def weight_column n_sum_real real_num_simps Let_def) simp
qed

lemma into_composite_ok:
  assumes "length (ne_to_vec scorers) = length es" "ne_len (sw_entries ws) = ne_len scorers" "ne_to_vec (sw_entries ws) = es"
    and "list_all (\<lambda>e. 0 \<le> snd e) es" "sum_list (map snd es) \<noteq> 0"
  shows "\<exists>cs. into_composite real_num ws scorers = Some (Ok cs) \<and>
    ne_to_vec (cs_children cs) = map (\<lambda>(sc, e). \<lparr>wc_scorer = sc, wc_weight = snd e\<rparr>) (zip (ne_to_vec scorers) es)"
proof -
  let ?kids = "map (\<lambda>(sc, e). \<lparr>wc_scorer = sc, wc_weight = snd e\<rparr>) (zip (ne_to_vec scorers) es)"
  have oks: "map (\<lambda>(sc, (_, w)). weighted_child_new real_num sc w) (zip (ne_to_vec scorers) es) = map Ok ?kids"
    using children_ok [OF assms(4, 1)] by (simp add: case_prod_beta)
  have "?kids \<noteq> []" using assms(1) ne_vec_cons [of scorers] by (cases es) auto
  then obtain kids where kids: "ne_from_vec ?kids = Some kids" by (cases "ne_from_vec ?kids") (simp_all only: ne_from_vec_iff)
  then have vec: "ne_to_vec kids = ?kids" by (simp only: ne_to_vec_from_vec)
  have "sum_list (map wc_weight ?kids) \<noteq> 0" using assms(5) weight_column [OF assms(1)] by simp
  then have "composite_new real_num kids = Ok (CompositeScorer kids)" by (simp add: composite_new_def vec)
  moreover have "into_composite real_num ws scorers = map_option (composite_new real_num) (ne_from_vec ?kids)"
    by (simp only: into_composite_def assms(2, 3) oks Let_def) (simp add: list_all_iff is_ok_def o_def)
  ultimately show ?thesis using kids vec by auto
qed

lemma score_weights_new_iff:
  "is_ok (score_weights_new real_num es) \<longleftrightarrow> es \<noteq> [] \<and> list_all (\<lambda>e. 0 \<le> snd e) es \<and> sum_list (map snd es) \<noteq> 0"
proof (cases "ne_from_vec es")
  case None
  then have "es = []" by (simp add: ne_from_vec_iff)
  with None show ?thesis by (simp add: score_weights_new_def is_ok_def)
next
  case (Some ne)
  then have "ne_to_vec ne = es" "es \<noteq> []" by (auto simp: ne_to_vec_from_vec simp flip: ne_from_vec_iff)
  with Some show ?thesis
    using check_weights_None [of es] by (auto simp: score_weights_new_def is_ok_def split: option.splits)
qed

text \<open>The scores of the components, with the score of the composition at the end.\<close>

lemma composite_components:
  assumes "EvalScorer_laws (composite_score real_num cs)" "length scs = length es"
    "ne_to_vec (cs_children cs) = map (\<lambda>(sc, e). \<lparr>wc_scorer = sc, wc_weight = snd e\<rparr>) (zip scs es)"
  shows "ne_to_vec (sc_component_scores (composite_score real_num cs tc out)) =
    concat (map (\<lambda>sc. ne_to_vec (sc_component_scores (sc tc out))) scs) @
      [\<lparr>sr_scorer_name = ''composite'', sr_score = sc_aggregate (composite_score real_num cs tc out), sr_details = None\<rparr>]"
proof -
  have "map (\<lambda>c. ne_to_vec (sc_component_scores (wc_scorer c tc out))) (ne_to_vec (cs_children cs)) =
      map (\<lambda>sc. ne_to_vec (sc_component_scores (sc tc out))) scs"
    unfolding assms(3) using assms(2) by (induction scs es rule: list_induct2) auto
  moreover have "clamp01 real_num (sc_aggregate (composite_score real_num cs tc out)) = sc_aggregate (composite_score real_num cs tc out)"
    by (intro clamp01_id EvalScorer_laws.aggregate_bounded assms(1))
  ultimately show ?thesis by (simp only: composite_score_parts(2) scorer_result_new_def)
qed

text \<open>
  C30. Validated weights always compose. Weights are accepted exactly when there are some, none is negative
  and they do not sum to zero; accepted weights and as many scorers build a composite scorer without a
  panic and without an error; and if the scorers keep their scores between zero and one, so does the
  composition, its aggregate being the weighted mean of theirs and its components theirs in order,
  followed by the aggregate under the name \<open>composite\<close>. Numbers are exact here.
\<close>

theorem validated_weights_compose:
  assumes "length es = ne_len scorers" "list_all EvalScorer_laws (ne_to_vec scorers)"
  shows "(\<forall>entries. is_ok (score_weights_new real_num entries) \<longleftrightarrow>
      entries \<noteq> [] \<and> list_all (\<lambda>e. 0 \<le> snd e) entries \<and> sum_list (map snd entries) \<noteq> 0) \<and>
    (\<forall>ws. score_weights_new real_num es = Ok ws \<longrightarrow>
      (\<exists>cs. into_composite real_num ws scorers = Some (Ok cs) \<and> EvalScorer_laws (composite_score real_num cs) \<and>
        (\<forall>tc out. sc_aggregate (composite_score real_num cs tc out) =
            sum_list (map (\<lambda>(sc, (_, w)). sc_aggregate (sc tc out) * w) (zip (ne_to_vec scorers) es)) / sum_list (map snd es) \<and>
          ne_to_vec (sc_component_scores (composite_score real_num cs tc out)) =
            concat (map (\<lambda>sc. ne_to_vec (sc_component_scores (sc tc out))) (ne_to_vec scorers)) @
            [\<lparr>sr_scorer_name = ''composite'', sr_score = sc_aggregate (composite_score real_num cs tc out), sr_details = None\<rparr>])))"
proof (intro conjI allI impI)
  show "is_ok (score_weights_new real_num entries) \<longleftrightarrow>
      entries \<noteq> [] \<and> list_all (\<lambda>e. 0 \<le> snd e) entries \<and> sum_list (map snd entries) \<noteq> 0" for entries
    by (rule score_weights_new_iff)
  fix ws
  assume new: "score_weights_new real_num es = Ok ws"
  then have ws: "ne_to_vec (sw_entries ws) = es" "list_all (\<lambda>e. 0 \<le> snd e) es" "sum_list (map snd es) \<noteq> 0"
    by (auto simp: score_weights_new_def ne_to_vec_from_vec check_weights_None split: option.splits if_splits)
  have len: "length (ne_to_vec scorers) = length es" "ne_len (sw_entries ws) = ne_len scorers"
    using assms(1) ws(1) by (auto simp: ne_len_def ne_to_vec_def)
  obtain cs where cs: "into_composite real_num ws scorers = Some (Ok cs)"
    "ne_to_vec (cs_children cs) = map (\<lambda>(sc, e). \<lparr>wc_scorer = sc, wc_weight = snd e\<rparr>) (zip (ne_to_vec scorers) es)"
    using into_composite_ok [OF len ws] by blast
  have "list_all (\<lambda>c. EvalScorer_laws (wc_scorer c) \<and> 0 \<le> wc_weight c) (ne_to_vec (cs_children cs))"
    using ws(2) assms(2) by (fastforce simp: cs(2) list_all_iff dest: set_zip_leftD set_zip_rightD)
  then have laws: "EvalScorer_laws (composite_score real_num cs)" by (rule composite_laws)
  have "sc_aggregate (composite_score real_num cs tc out) =
      sum_list (map (\<lambda>(sc, (_, w)). sc_aggregate (sc tc out) * w) (zip (ne_to_vec scorers) es)) / sum_list (map snd es)" for tc out
    using ws(3) len(1) by (simp add: composite_score_parts cs(2) weighted_average_zip)
  with cs(1) laws composite_components [OF laws len(1) cs(2)]
  show "\<exists>cs. into_composite real_num ws scorers = Some (Ok cs) \<and> EvalScorer_laws (composite_score real_num cs) \<and>
        (\<forall>tc out. sc_aggregate (composite_score real_num cs tc out) =
            sum_list (map (\<lambda>(sc, (_, w)). sc_aggregate (sc tc out) * w) (zip (ne_to_vec scorers) es)) / sum_list (map snd es) \<and>
          ne_to_vec (sc_component_scores (composite_score real_num cs tc out)) =
            concat (map (\<lambda>sc. ne_to_vec (sc_component_scores (sc tc out))) (ne_to_vec scorers)) @
            [\<lparr>sr_scorer_name = ''composite'', sr_score = sc_aggregate (composite_score real_num cs tc out), sr_details = None\<rparr>])"
    by blast
qed

text \<open>Two trajectory scorers, one weighing three times the other.\<close>

definition two_scorers :: "(real, nat) scorer NonEmpty" where
  "two_scorers = ne_new (trajectory_scorer real_num (\<lambda>_. 0) 2) [trajectory_scorer real_num (\<lambda>_. 1) 1]"

theorem validated_weights_compose_witness:
  "\<exists>ws cs. score_weights_new real_num [(''a'', 3), (''b'', 1)] = Ok ws \<and>
     into_composite real_num ws two_scorers = Some (Ok cs) \<and> EvalScorer_laws (composite_score real_num cs)"
proof -
  have len: "length [(''a'', 3 :: real), (''b'', 1)] = ne_len two_scorers"
    by (simp add: two_scorers_def ne_new_def ne_len_def)
  have laws: "list_all EvalScorer_laws (ne_to_vec two_scorers)"
    by (simp add: two_scorers_def trajectory.EvalScorer_laws_axioms)
  note compose = validated_weights_compose [OF len laws]
  have "is_ok (score_weights_new real_num [(''a'', 3), (''b'', 1)])" using compose by simp
  then obtain ws where "score_weights_new real_num [(''a'', 3), (''b'', 1)] = Ok ws"
    by (auto simp: is_ok_def split: sum.splits)
  with compose show ?thesis by blast
qed

interpretation only_trajectory: EvalScorer_laws "composite_score real_num (the (trajectory_only real_num to_json))" for to_json
proof -
  have "trajectory_only real_num to_json =
      Some (CompositeScorer (ne_singleton \<lparr>wc_scorer = trajectory_scorer real_num to_json 2, wc_weight = 1\<rparr>))" for to_json :: "_ \<Rightarrow> 'a"
    by (simp add: trajectory_only_def weighted_child_new_def composite_new_def)
  then show "EvalScorer_laws (composite_score real_num (the (trajectory_only real_num to_json)))"
    by (simp add: composite_laws trajectory.EvalScorer_laws_axioms)
qed

section \<open>Properties of the aggregation\<close>

lemma unat_count:
  assumes "length xs < 2 ^ 32"
  shows "unat (of_nat (length (filter P xs)) :: u32) = length (filter P xs)"
proof -
  have "length (filter P xs) < 2 ^ 32" using assms length_filter_le [of P xs] by (rule order.strict_trans1 [rotated])
  then show ?thesis by (simp add: unat_of_nat)
qed

text \<open>
  C31. The summary of a run adds up. Of fewer than \<open>2 ^ 32\<close> test cases, passed and failed ones are all of them,
  the passed ones are those whose score reaches the threshold, and the score of the run is the share of the
  passed ones or the mean of the scores, as configured, so it is between zero and one when the scores are.
  An empty run scores zero. Numbers are exact here.
\<close>

theorem run_summary_adds_up:
  fixes s :: "(real, 'x) EvalSummary"
  assumes "length (ri_tc_aggregate_scores i) < 2 ^ 32" "s = aggregate_run real_num i"
  shows "unat (es_passed s) + unat (es_failed s) =
      length (ri_tc_aggregate_scores i) \<and>
    unat (es_passed s) =
      length (filter (\<lambda>x. ri_pass_threshold i \<le> x) (ri_tc_aggregate_scores i)) \<and>
    es_aggregate_score s =
      (if ri_tc_aggregate_scores i = [] then 0
       else (case ri_aggregation_strategy i of
               PassRate \<Rightarrow> real (length (filter (\<lambda>x. ri_pass_threshold i \<le> x) (ri_tc_aggregate_scores i)))
             | MeanScore \<Rightarrow> sum_list (ri_tc_aggregate_scores i)) / real (length (ri_tc_aggregate_scores i))) \<and>
    (list_all in01 (ri_tc_aggregate_scores i) \<longrightarrow> in01 (es_aggregate_score s))"
proof -
  let ?xs = "ri_tc_aggregate_scores i" and ?p = "\<lambda>x. ri_pass_threshold i \<le> x"
  have n: "unat (of_nat (length ?xs) :: u32) = length ?xs" using assms(1) by (simp add: unat_of_nat)
  note p = unat_count [OF assms(1), of ?p] and le = length_filter_le [of ?p ?xs]
  have passed: "unat (es_passed s) = length (filter ?p ?xs)"
    by (simp add: assms(2) aggregate_run_def Let_def p)
  have failed: "unat (es_failed s) = length ?xs - length (filter ?p ?xs)"
    using le by (simp add: assms(2) aggregate_run_def Let_def word_le_nat_alt p n unat_sub)
  have zero: "(of_nat (length ?xs) :: u32) = 0 \<longleftrightarrow> ?xs = []"
    using n by (metis length_0_conv unat_eq_0)
  have score: "es_aggregate_score s =
      (if ?xs = [] then 0
       else (case ri_aggregation_strategy i of PassRate \<Rightarrow> real (length (filter ?p ?xs)) | MeanScore \<Rightarrow> sum_list ?xs) /
            real (length ?xs))"
    by (cases "ri_aggregation_strategy i") (simp_all add: assms(2) aggregate_run_def Let_def zero p n)
  have mean: "list_all in01 xs \<Longrightarrow> 0 \<le> sum_list xs \<and> sum_list xs \<le> real (length xs)" for xs
    by (induction xs) (auto simp: in01_def)
  have "in01 (es_aggregate_score s)" if "list_all in01 ?xs"
    using mean [OF that] le by (cases "ri_aggregation_strategy i") (auto simp: score in01_def divide_le_eq_1)
  with passed failed le score show ?thesis by simp
qed

definition sample_run_input :: "real RunAggInput" where
  "sample_run_input = \<lparr>ri_tc_aggregate_scores = [1, 1 / 2, 0], ri_total_usage = tokens_ZERO, ri_total_duration_ms = 7,
     ri_k_values = [1], ri_pass_threshold = 1 / 2, ri_aggregation_strategy = MeanScore, ri_cost = None, ri_latency_summaries = []\<rparr>"

theorem run_summary_adds_up_witness:
  "\<exists>s :: (real, nat) EvalSummary. s = aggregate_run real_num sample_run_input \<and> es_aggregate_score s = 1 / 2 \<and> unat (es_passed s) = 2"
proof (intro exI conjI)
  let ?s = "aggregate_run real_num sample_run_input :: (real, nat) EvalSummary"
  have "length (ri_tc_aggregate_scores sample_run_input) < 2 ^ 32" by (simp add: sample_run_input_def)
  note sums = run_summary_adds_up [OF this, of ?s]
  show "?s = aggregate_run real_num sample_run_input" by (rule refl)
  show "es_aggregate_score ?s = 1 / 2" "unat (es_passed ?s) = 2"
    using sums [OF refl] by (simp_all add: sample_run_input_def)
qed

end
