(* ===== verification/Eval_Compare.thy ===== *)
theory Eval_Compare
  imports Eval_Scorer
begin

text \<open>
  Comparing two runs and merging a rerun: \<open>comparison.rs\<close> of \<open>crates/agent-fw-eval/src\<close>.

  \<^item> The hash maps from test case names to results are finite maps; collecting keeps the last result of
    a name. Their iteration order is an argument, and the sort makes the outcome independent of it.
  \<^item> The wire form of a comparison is the pair of flags the serializer projects the outcome to.
\<close>

section \<open>Outcomes\<close>

datatype ComparisonOutcome = Regressed | Improved | Unchanged

fun classify :: "bool option \<Rightarrow> bool option \<Rightarrow> ComparisonOutcome" where
  "classify (Some True) (Some False) = Regressed"
| "classify (Some False) (Some True) = Improved"
| "classify None (Some True) = Improved"
| "classify _ _ = Unchanged"

definition is_regression :: "ComparisonOutcome \<Rightarrow> bool" where
  "is_regression c \<longleftrightarrow> c = Regressed"

definition is_improvement :: "ComparisonOutcome \<Rightarrow> bool" where
  "is_improvement c \<longleftrightarrow> c = Improved"

record 'f TestCaseComparison =
  tcc_test_case_id :: string
  tcc_left_score :: "'f option"
  tcc_right_score :: "'f option"
  tcc_score_delta :: 'f
  tcc_left_pass :: "bool option"
  tcc_right_pass :: "bool option"
  tcc_outcome :: ComparisonOutcome

section \<open>Aggregates\<close>

definition mean_score :: "'f num_ops \<Rightarrow> ('f, 'x) TestCaseResult list \<Rightarrow> 'f option" where
  "mean_score N results =
     (if results = [] then None
      else Some (n_div N (n_sum N (map tr_aggregate_score results)) (n_of N (length results))))"

definition pass_rate :: "'f num_ops \<Rightarrow> ('f, 'x) TestCaseResult list \<Rightarrow> 'f \<Rightarrow> 'f option" where
  "pass_rate N results threshold =
     (if results = [] then None
      else Some (n_div N (n_of N (length (filter (\<lambda>r. n_le N threshold (tr_aggregate_score r)) results)))
                   (n_of N (length results))))"

section \<open>Comparing runs\<close>

record 'f RunComparison =
  rc_left_id :: string
  rc_right_id :: string
  rc_test_case_comparisons :: "'f TestCaseComparison list"
  rc_score_delta :: 'f
  rc_pass_rate_delta :: 'f
  rc_left_avg_score :: 'f
  rc_right_avg_score :: 'f
  rc_left_pass_rate :: 'f
  rc_right_pass_rate :: 'f

definition result_key :: "('f, 'x) TestCaseResult \<Rightarrow> string" where
  "result_key r = test_case_str (tr_test_case_id r)"

definition results_by_id :: "('f, 'x) TestCaseResult list \<Rightarrow> (string, ('f, 'x) TestCaseResult) fmap" where
  "results_by_id results = fold (\<lambda>r. fmupd (result_key r) r) results fmempty"

fun score_delta_of :: "'f num_ops \<Rightarrow> 'f option \<Rightarrow> 'f option \<Rightarrow> 'f" where
  "score_delta_of N (Some l) (Some r) = n_sub N r l"
| "score_delta_of N None (Some r) = r"
| "score_delta_of N (Some l) None = n_neg N l"
| "score_delta_of N None None = n_zero N"

definition compare_case ::
  "'f num_ops \<Rightarrow> (string, ('f, 'x) TestCaseResult) fmap \<Rightarrow> (string, ('f, 'x) TestCaseResult) fmap \<Rightarrow> 'f \<Rightarrow> 'f \<Rightarrow>
   string \<Rightarrow> 'f TestCaseComparison" where
  "compare_case N left_map right_map left_threshold right_threshold i =
     (let left_score = map_option tr_aggregate_score (fmlookup left_map i);
          right_score = map_option tr_aggregate_score (fmlookup right_map i);
          left_pass = map_option (\<lambda>s. n_le N left_threshold s) left_score;
          right_pass = map_option (\<lambda>s. n_le N right_threshold s) right_score
      in \<lparr>tcc_test_case_id = i, tcc_left_score = left_score, tcc_right_score = right_score,
          tcc_score_delta = score_delta_of N left_score right_score, tcc_left_pass = left_pass,
          tcc_right_pass = right_pass, tcc_outcome = classify left_pass right_pass\<rparr>)"

definition compare_runs_with_thresholds ::
  "(string fset \<Rightarrow> string list) \<Rightarrow> 'f num_ops \<Rightarrow> ('f, 'x) EvalRun \<Rightarrow> ('f, 'x) EvalRun \<Rightarrow> 'f \<Rightarrow> 'f \<Rightarrow> 'f RunComparison" where
  "compare_runs_with_thresholds ord N left right left_threshold right_threshold =
     (let left_map = results_by_id (run_results left);
          right_map = results_by_id (run_results right);
          all_ids = remdups_adj (sort (ord (fmdom left_map) @ ord (fmdom right_map)));
          left_avg = unwrap_or (n_zero N) (mean_score N (run_results left));
          right_avg = unwrap_or (n_zero N) (mean_score N (run_results right));
          left_rate = unwrap_or (n_zero N) (pass_rate N (run_results left) left_threshold);
          right_rate = unwrap_or (n_zero N) (pass_rate N (run_results right) right_threshold)
      in \<lparr>rc_left_id = eval_run_str (run_id left), rc_right_id = eval_run_str (run_id right),
          rc_test_case_comparisons = map (compare_case N left_map right_map left_threshold right_threshold) all_ids,
          rc_score_delta = n_sub N right_avg left_avg, rc_pass_rate_delta = n_sub N right_rate left_rate,
          rc_left_avg_score = left_avg, rc_right_avg_score = right_avg, rc_left_pass_rate = left_rate,
          rc_right_pass_rate = right_rate\<rparr>)"

definition compare_runs ::
  "(string fset \<Rightarrow> string list) \<Rightarrow> 'f num_ops \<Rightarrow> ('f, 'x) EvalRun \<Rightarrow> ('f, 'x) EvalRun \<Rightarrow> 'f RunComparison" where
  "compare_runs ord N left right =
     compare_runs_with_thresholds ord N left right (cf_pass_threshold (run_config left)) (cf_pass_threshold (run_config right))"

definition compare_runs_at_threshold ::
  "(string fset \<Rightarrow> string list) \<Rightarrow> 'f num_ops \<Rightarrow> ('f, 'x) EvalRun \<Rightarrow> ('f, 'x) EvalRun \<Rightarrow> 'f \<Rightarrow> 'f RunComparison" where
  "compare_runs_at_threshold ord N left right pass_threshold =
     compare_runs_with_thresholds ord N left right pass_threshold pass_threshold"

section \<open>Merging a rerun\<close>

definition merge_rerun_results ::
  "('f, 'x) TestCaseResult list \<Rightarrow> ('f, 'x) TestCaseResult list \<Rightarrow> ('f, 'x) TestCaseResult list" where
  "merge_rerun_results parent_results rerun_results =
     (let rerun_map = results_by_id rerun_results
      in map (\<lambda>parent. case fmlookup rerun_map (result_key parent) of Some rerun \<Rightarrow> rerun | None \<Rightarrow> parent) parent_results)"

section \<open>Properties\<close>

text \<open>The result that counts for a name: the last one.\<close>

definition result_of :: "('f, 'x) TestCaseResult list \<Rightarrow> string \<Rightarrow> ('f, 'x) TestCaseResult option" where
  "result_of results i = map_of (map (\<lambda>r. (result_key r, r)) (rev results)) i"

lemma results_by_id_lookup: "fmlookup (results_by_id results) = result_of results"
proof -
  have "fmlookup (fold (\<lambda>r. fmupd (result_key r) r) results m) = fmlookup m ++ result_of results" for m
    by (induction results rule: rev_induct) (auto simp: result_of_def fun_eq_iff map_add_def)
  then show ?thesis by (simp add: results_by_id_def fun_eq_iff map_add_def split: option.splits)
qed

lemma result_of_key: "result_of results i = Some r \<Longrightarrow> result_key r = i \<and> r \<in> set results"
  unfolding result_of_def by (drule map_of_SomeD) auto

lemma result_of_append: "result_of (rs @ rs') i = (case result_of rs' i of None \<Rightarrow> result_of rs i | Some r \<Rightarrow> Some r)"
  by (simp add: result_of_def map_add_def split: option.splits)

lemma results_by_id_dom: "fset (fmdom (results_by_id results)) = result_key ` set results"
proof -
  have "fset (fmdom (results_by_id results)) = dom (fmlookup (results_by_id results))" by (simp add: fmdom.rep_eq)
  also have "\<dots> = dom (map_of (map (\<lambda>r. (result_key r, r)) (rev results)))"
    by (simp add: results_by_id_lookup result_of_def [abs_def])
  finally show ?thesis by (simp add: dom_map_of_conv_image_fst image_image)
qed

text \<open>The names compared do not depend on the order in which the maps are read.\<close>

lemma distinct_dedup: "sorted xs \<Longrightarrow> distinct (remdups_adj xs)" for xs :: "'a::linorder list"
  by (induction xs rule: remdups_adj.induct) auto

lemma compared_ids:
  assumes "enumerates ord"
  shows "remdups_adj (sort (ord (fmdom (results_by_id l)) @ ord (fmdom (results_by_id r)))) =
    sorted_list_of_set (result_key ` (set l \<union> set r))"
proof -
  let ?xs = "remdups_adj (sort (ord (fmdom (results_by_id l)) @ ord (fmdom (results_by_id r))))"
  have "set ?xs = result_key ` (set l \<union> set r)"
    by (simp add: enumeratesD(2) [OF assms] results_by_id_dom image_Un)
  moreover have "sorted ?xs" "distinct ?xs" by (simp_all add: sorted_remdups_adj distinct_dedup)
  ultimately show ?thesis by (metis sorted_list_of_set.idem_if_sorted_distinct)
qed

text \<open>
  What a comparison \<open>c\<close> of a case says of two lists of results and their thresholds, and \<open>d\<close>, the comparison the
  other way round.
\<close>

definition passes_at :: "real \<Rightarrow> real option \<Rightarrow> bool" where
  "passes_at threshold score \<longleftrightarrow> (\<exists>s. score = Some s \<and> threshold \<le> s)"

definition fails_at :: "real \<Rightarrow> real option \<Rightarrow> bool" where
  "fails_at threshold score \<longleftrightarrow> (\<exists>s. score = Some s \<and> s < threshold)"

definition compares ::
  "(real, 'x) TestCaseResult list \<Rightarrow> (real, 'x) TestCaseResult list \<Rightarrow> real \<Rightarrow> real \<Rightarrow> real TestCaseComparison \<Rightarrow>
   real TestCaseComparison \<Rightarrow> bool" where
  "compares ls rs x y c d \<longleftrightarrow>
     (let l = map_option tr_aggregate_score (result_of ls (tcc_test_case_id c));
          r = map_option tr_aggregate_score (result_of rs (tcc_test_case_id c))
      in tcc_left_score c = l \<and> tcc_right_score c = r \<and>
         tcc_left_pass c = map_option (\<lambda>s. x \<le> s) l \<and> tcc_right_pass c = map_option (\<lambda>s. y \<le> s) r \<and>
         tcc_score_delta c = unwrap_or 0 r - unwrap_or 0 l \<and>
         (is_regression (tcc_outcome c) \<longleftrightarrow> passes_at x l \<and> fails_at y r) \<and>
         (is_improvement (tcc_outcome c) \<longleftrightarrow> \<not> passes_at x l \<and> passes_at y r) \<and>
         tcc_test_case_id d = tcc_test_case_id c \<and> tcc_left_score d = r \<and> tcc_right_score d = l \<and>
         tcc_score_delta d = - tcc_score_delta c \<and>
         (is_regression (tcc_outcome d) \<longleftrightarrow> is_improvement (tcc_outcome c) \<and> l \<noteq> None))"

text \<open>The averages of a run; a run without results has zero.\<close>

definition average :: "real list \<Rightarrow> real" where
  "average xs = (if xs = [] then 0 else sum_list xs / real (length xs))"

definition passed_share :: "real \<Rightarrow> real list \<Rightarrow> real" where
  "passed_share threshold xs =
     (if xs = [] then 0 else real (length (filter (\<lambda>s. threshold \<le> s) xs)) / real (length xs))"

lemma mean_score_real: "unwrap_or 0 (mean_score real_num rs) = average (map tr_aggregate_score rs)"
  by (simp add: mean_score_def average_def)

lemma pass_rate_real: "unwrap_or 0 (pass_rate real_num rs x) = passed_share x (map tr_aggregate_score rs)"
  by (simp add: pass_rate_def passed_share_def filter_map comp_def)

lemma classify_iff:
  "is_regression (classify a b) \<longleftrightarrow> a = Some True \<and> b = Some False"
  "is_improvement (classify a b) \<longleftrightarrow> a \<noteq> Some True \<and> b = Some True"
  by (cases "(a, b)" rule: classify.cases; simp add: is_regression_def is_improvement_def)+

lemma compare_case_compares:
  "compares ls rs x y (compare_case real_num (results_by_id ls) (results_by_id rs) x y i)
     (compare_case real_num (results_by_id rs) (results_by_id ls) y x i)"
  by (cases "result_of ls i"; cases "result_of rs i")
    (auto simp: compares_def compare_case_def Let_def results_by_id_lookup classify_iff passes_at_def fails_at_def real_num_def
      simp del: classify.simps)

text \<open>
  C34. A comparison is exact and can be turned round. Whatever order the hash maps are read in, the compared
  cases are the names of the results of either run, each once and in ascending order, with the scores of
  the last result of the name on either side. A side passes when its score reaches the threshold of that
  side. A case regressed exactly when the left score reaches its threshold and the right one stays below
  its own, and improved exactly when the right score reaches its threshold and there is no left score or it
  stays below; the difference is right minus left, an absent score counting as zero. The differences of the
  runs are those of their mean scores and of their shares of results that reach the threshold. With the
  runs and thresholds exchanged the same cases appear, every difference is the opposite one, and of the
  cases that the left run has those improved are now the regressed ones. Numbers are exact here.
\<close>

theorem compare_runs_exact:
  assumes "enumerates ord"
  shows "map tcc_test_case_id (rc_test_case_comparisons (compare_runs_with_thresholds ord real_num l r x y)) =
      sorted_list_of_set (result_key ` (set (run_results l) \<union> set (run_results r))) \<and>
    rc_score_delta (compare_runs_with_thresholds ord real_num l r x y) =
      average (map tr_aggregate_score (run_results r)) - average (map tr_aggregate_score (run_results l)) \<and>
    rc_pass_rate_delta (compare_runs_with_thresholds ord real_num l r x y) =
      passed_share y (map tr_aggregate_score (run_results r)) - passed_share x (map tr_aggregate_score (run_results l)) \<and>
    list_all2 (compares (run_results l) (run_results r) x y)
      (rc_test_case_comparisons (compare_runs_with_thresholds ord real_num l r x y))
      (rc_test_case_comparisons (compare_runs_with_thresholds ord real_num r l y x))"
proof (intro conjI)
  let ?ids = "sorted_list_of_set (result_key ` (set (run_results l) \<union> set (run_results r)))"
  have lr: "rc_test_case_comparisons (compare_runs_with_thresholds ord real_num l r x y) =
      map (compare_case real_num (results_by_id (run_results l)) (results_by_id (run_results r)) x y) ?ids"
    by (simp only: compare_runs_with_thresholds_def Let_def compared_ids [OF assms] RunComparison.select_convs)
  have rl: "rc_test_case_comparisons (compare_runs_with_thresholds ord real_num r l y x) =
      map (compare_case real_num (results_by_id (run_results r)) (results_by_id (run_results l)) y x) ?ids"
    by (simp only: compare_runs_with_thresholds_def Let_def compared_ids [OF assms] RunComparison.select_convs Un_commute)
  show "map tcc_test_case_id (rc_test_case_comparisons (compare_runs_with_thresholds ord real_num l r x y)) = ?ids"
    unfolding lr by (simp add: compare_case_def Let_def comp_def)
  show "rc_score_delta (compare_runs_with_thresholds ord real_num l r x y) =
      average (map tr_aggregate_score (run_results r)) - average (map tr_aggregate_score (run_results l))"
    "rc_pass_rate_delta (compare_runs_with_thresholds ord real_num l r x y) =
      passed_share y (map tr_aggregate_score (run_results r)) - passed_share x (map tr_aggregate_score (run_results l))"
    by (simp_all add: compare_runs_with_thresholds_def Let_def mean_score_real pass_rate_real)
  show "list_all2 (compares (run_results l) (run_results r) x y)
      (rc_test_case_comparisons (compare_runs_with_thresholds ord real_num l r x y))
      (rc_test_case_comparisons (compare_runs_with_thresholds ord real_num r l y x))"
    unfolding lr rl list.rel_map by (rule list.rel_refl) (rule compare_case_compares)
qed

definition compared_config :: "(real, unit) EvalConfig" where
  "compared_config = \<lparr>cf_mode = Sequential, cf_target_agent_id = None, cf_test_case_source = Set_source ''s'',
     cf_samples_per_case = 1, cf_pass_threshold = 1 / 2, cf_concurrency = 1, cf_k_values = [1], cf_provider = None,
     cf_model = None, cf_timeout_per_sample_secs = None, cf_tags_filter = None, cf_retry_policy = None,
     cf_aggregation_strategy = MeanScore, cf_rest = ()\<rparr>"

definition compared_run :: "string list \<Rightarrow> (real, unit) EvalRun" where
  "compared_run ids = (run_new ''r'' ''now'' compared_config)
     \<lparr>run_results := map (\<lambda>i. result_empty real_num (TestCaseId i)) ids\<rparr>"

theorem compare_runs_exact_witness:
  "enumerates (sorted_list_of_fset :: string fset \<Rightarrow> string list) \<and>
   map tcc_test_case_id (rc_test_case_comparisons (compare_runs sorted_list_of_fset real_num
     (compared_run [''b'', ''a'']) (compared_run [''c'', ''b'']))) = [''a'', ''b'', ''c'']"
proof
  show enum: "enumerates (sorted_list_of_fset :: string fset \<Rightarrow> string list)" by (rule sorted_enumerates)
  have "sorted_list_of_set {''a'', ''b'', ''c''} = [''a'', ''b'', ''c'']"
    by (simp add: less_list_code less_char_def)
  then show "map tcc_test_case_id (rc_test_case_comparisons (compare_runs sorted_list_of_fset real_num
     (compared_run [''b'', ''a'']) (compared_run [''c'', ''b'']))) = [''a'', ''b'', ''c'']"
    using compare_runs_exact [OF enum, of "compared_run [''b'', ''a'']" "compared_run [''c'', ''b'']"]
    by (simp add: compare_runs_def compared_run_def result_key_def result_empty_def insert_commute)
qed

text \<open>
  Merging a rerun replaces the results it has and nothing else. The cases and their order are those of the
  parent, each with the last result of the rerun for its name if there is one; merging the same rerun again
  changes nothing, and merging one rerun after another is merging their concatenation.
\<close>

theorem merge_rerun_exact:
  "map result_key (merge_rerun_results parent rerun) = map result_key parent \<and>
   merge_rerun_results parent rerun = map (\<lambda>p. case result_of rerun (result_key p) of None \<Rightarrow> p | Some r \<Rightarrow> r) parent \<and>
   merge_rerun_results (merge_rerun_results parent rerun) rerun = merge_rerun_results parent rerun \<and>
   merge_rerun_results (merge_rerun_results parent rerun) rerun' = merge_rerun_results parent (rerun @ rerun')"
proof -
  have keys: "result_key (case result_of rs (result_key p) of None \<Rightarrow> p | Some r \<Rightarrow> r) = result_key p"
    for rs :: "('a, 'b) TestCaseResult list" and p using result_of_key [of rs "result_key p"] by (auto split: option.splits)
  show ?thesis
    by (auto simp: merge_rerun_results_def Let_def results_by_id_lookup keys result_of_append split: option.splits)
qed

end
