(* ===== verification/Eval_Capture.thy ===== *)
theory Eval_Capture
  imports Eval_Types
begin

text \<open>
  The capture of a sample's event stream, \<open>stream_capture.rs\<close> of \<open>crates/agent-fw-eval/src\<close>: a fold of the stream
  parts into the output that is scored.

  \<^item> The set of seen calls and the map from scoped keys to positions are a finite set and a finite map.
  \<^item> A step is \<open>None\<close> where the source panics: the token summary is made with the panicking constructor.
  \<^item> The messages are folded by the accumulator of \<open>Stream_Part\<close>.
\<close>

section \<open>The accumulator\<close>

datatype TokenSource = No_Source | Finish_Source | Cost_Source | Latency_Source

fun source_rank :: "TokenSource \<Rightarrow> nat" where
  "source_rank No_Source = 0"
| "source_rank Finish_Source = 1"
| "source_rank Cost_Source = 2"
| "source_rank Latency_Source = 3"

definition scoped_tool_call_key :: "string list \<Rightarrow> string \<Rightarrow> string" where
  "scoped_tool_call_key agent_stack i =
     (if agent_stack = [] then i else join_with ''/'' agent_stack @ ''::'' @ i)"

record 'j StreamCapture =
  cap_trajectory :: "string list"
  cap_calls :: "'j CapturedToolCall list"
  cap_seen :: "string fset"
  cap_indices :: "(string, nat) fmap"
  cap_agent_stack :: "string list"
  cap_token_usage :: TokenUsageSummary
  cap_token_source :: TokenSource
  cap_latency :: "LatencySummary option"
  cap_errors :: "string list"
  cap_messages :: "'j MessagePartAccumulator"

definition capture_new :: "'j StreamCapture" where
  "capture_new = \<lparr>cap_trajectory = [], cap_calls = [], cap_seen = {||}, cap_indices = fmempty, cap_agent_stack = [],
     cap_token_usage = tokens_ZERO, cap_token_source = No_Source, cap_latency = None, cap_errors = [],
     cap_messages = accumulator_new\<rparr>"

definition capture_call :: "string \<Rightarrow> 'j ToolInvocationData \<Rightarrow> 'j StreamCapture \<Rightarrow> 'j StreamCapture" where
  "capture_call key d c =
     (if key |\<in>| cap_seen c then c
      else c\<lparr>cap_seen := finsert key (cap_seen c), cap_trajectory := cap_trajectory c @ [ti_name d],
             cap_calls := cap_calls c @ [\<lparr>ct_tool = ti_name d, ct_tool_call_id = Some (ti_id d), ct_args = ti_args d, ct_result = None\<rparr>],
             cap_indices := fmupd key (length (cap_calls c)) (cap_indices c)\<rparr>)"

definition capture_result :: "string \<Rightarrow> 'j \<Rightarrow> 'j StreamCapture \<Rightarrow> 'j StreamCapture" where
  "capture_result key res c =
     (case fmlookup (cap_indices c) key of
        None \<Rightarrow> c
      | Some i \<Rightarrow>
          if i < length (cap_calls c) \<and> ct_result (cap_calls c ! i) = None
          then c\<lparr>cap_calls := (cap_calls c)[i := (cap_calls c ! i)\<lparr>ct_result := Some res\<rparr>]\<rparr> else c)"

text \<open>\<open>rposition\<close> and \<open>truncate\<close>: the stack up to the last frame of the agent.\<close>

definition pop_agent :: "string \<Rightarrow> string list \<Rightarrow> string list" where
  "pop_agent i stack =
     (case filter (\<lambda>p. stack ! p = i) (rev [0..<length stack]) of
        [] \<Rightarrow> stack
      | position # _ \<Rightarrow> take position stack)"

text \<open>A usage replaces the current one if its source is better.\<close>

definition take_usage :: "TokenSource \<Rightarrow> TokenUsageSummary option \<Rightarrow> 'j StreamCapture \<Rightarrow> 'j StreamCapture option" where
  "take_usage src usage c =
     (if source_rank (cap_token_source c) < source_rank src
      then map_option (\<lambda>u. c\<lparr>cap_token_usage := u, cap_token_source := src\<rparr>) usage else Some c)"

definition latency_usage :: "LatencySummary \<Rightarrow> TokenUsageSummary option" where
  "latency_usage l =
     (let m = ls_token_metrics l
      in tokens_new (tm_input_tokens m) (tm_output_tokens m) (tm_cached_tokens m) (tm_cache_creation_tokens m))"

fun capture_part :: "('j, LatencySummary) StreamPart \<Rightarrow> 'j StreamCapture \<Rightarrow> 'j StreamCapture option" where
  "capture_part (ToolInvocation d) c =
     (let scoped_key = scoped_tool_call_key (cap_agent_stack c) (ti_id d)
      in Some (case ti_state d of
                 InvocationCall \<Rightarrow> capture_call scoped_key d c
               | InvocationResult res \<Rightarrow> capture_result scoped_key res c))"
| "capture_part (ToolAgent d) c =
     Some (case ta_state d of
             AgentCall \<Rightarrow> c\<lparr>cap_agent_stack := cap_agent_stack c @ [ta_invocation_id d]\<rparr>
           | AgentResult \<Rightarrow> c\<lparr>cap_agent_stack := pop_agent (ta_invocation_id d) (cap_agent_stack c)\<rparr>)"
| "capture_part (DataLatencySummary l) c = take_usage Latency_Source (latency_usage l) (c\<lparr>cap_latency := Some l\<rparr>)"
| "capture_part (DataCostSummary s) c = take_usage Cost_Source (tokens_from_usage (total_usage s)) c"
| "capture_part (Finish reason usage) c = take_usage Finish_Source (tokens_from_usage usage) c"
| "capture_part (ErrorPart e) c = Some (c\<lparr>cap_errors := cap_errors c @ [ei_message e]\<rparr>)"
| "capture_part _ c = Some c"

definition capture_step :: "('j, LatencySummary) StreamPart \<Rightarrow> 'j StreamCapture \<Rightarrow> 'j StreamCapture option" where
  "capture_step part c = capture_part part (c\<lparr>cap_messages := accumulator_push part (cap_messages c)\<rparr>)"

record 'j StreamCaptureResult =
  scr_sample_output :: "'j SampleOutput"
  scr_response_text :: string
  scr_message_parts :: "'j MessagePart list"

definition capture_finalize :: "u64 \<Rightarrow> string option \<Rightarrow> 'j StreamCapture \<Rightarrow> 'j StreamCaptureResult" where
  "capture_finalize duration_ms thread_id c =
     (let error = (if cap_errors c = [] then None else Some (join_with ''; '' (cap_errors c)));
          (message_parts, response_text) = accumulator_finish (cap_messages c)
      in \<lparr>scr_sample_output =
            \<lparr>out_actual_trajectory = cap_trajectory c, out_captured_tool_calls = cap_calls c, out_duration_ms = duration_ms,
             out_token_usage = cap_token_usage c, out_error = error, out_thread_id = thread_id, out_extra = None,
             out_latency = cap_latency c\<rparr>,
          scr_response_text = response_text, scr_message_parts = message_parts\<rparr>)"

text \<open>A stream folded from the start; \<open>None\<close> if a step panics.\<close>

fun capture_all :: "('j, LatencySummary) StreamPart list \<Rightarrow> 'j StreamCapture \<Rightarrow> 'j StreamCapture option" where
  "capture_all [] c = Some c"
| "capture_all (p # ps) c = (case capture_step p c of None \<Rightarrow> None | Some c \<Rightarrow> capture_all ps c)"

section \<open>What a stream says\<close>

text \<open>The usage a part offers and how good its source is.\<close>

fun offered :: "('j, LatencySummary) StreamPart \<Rightarrow> (TokenSource \<times> TokenUsageSummary option) option" where
  "offered (DataLatencySummary l) = Some (Latency_Source, latency_usage l)"
| "offered (DataCostSummary s) = Some (Cost_Source, tokens_from_usage (total_usage s))"
| "offered (Finish reason usage) = Some (Finish_Source, tokens_from_usage usage)"
| "offered _ = None"

definition first_of :: "TokenSource \<Rightarrow> ('j, LatencySummary) StreamPart list \<Rightarrow> TokenUsageSummary option option" where
  "first_of src ps = map_option snd (List.find (\<lambda>x. fst x = src) (List.map_filter offered ps))"

text \<open>The stack of running agents after a part.\<close>

fun stack_after :: "('j, LatencySummary) StreamPart \<Rightarrow> string list \<Rightarrow> string list" where
  "stack_after (ToolAgent d) st =
     (case ta_state d of AgentCall \<Rightarrow> st @ [ta_invocation_id d] | AgentResult \<Rightarrow> pop_agent (ta_invocation_id d) st)"
| "stack_after _ st = st"

text \<open>The tool invocations of a stream with their scoped keys.\<close>

fun invocations :: "string list \<Rightarrow> ('j, LatencySummary) StreamPart list \<Rightarrow> (string \<times> 'j ToolInvocationData) list" where
  "invocations st [] = []"
| "invocations st (ToolInvocation d # ps) = (scoped_tool_call_key st (ti_id d), d) # invocations st ps"
| "invocations st (p # ps) = invocations (stack_after p st) ps"

text \<open>The first result of a key.\<close>

fun first_result :: "string \<Rightarrow> (string \<times> 'j ToolInvocationData) list \<Rightarrow> 'j option" where
  "first_result k [] = None"
| "first_result k ((k', d) # ds) =
     (case ti_state d of InvocationResult r \<Rightarrow> if k' = k then Some r else first_result k ds | InvocationCall \<Rightarrow> first_result k ds)"

text \<open>The calls of a list of invocations: the first call of every key, with the first result after it.\<close>

fun calls_of :: "string set \<Rightarrow> (string \<times> 'j ToolInvocationData) list \<Rightarrow> 'j CapturedToolCall list" where
  "calls_of seen [] = []"
| "calls_of seen ((k, d) # ds) =
     (case ti_state d of
        InvocationCall \<Rightarrow>
          if k \<in> seen then calls_of seen ds
          else \<lparr>ct_tool = ti_name d, ct_tool_call_id = Some (ti_id d), ct_args = ti_args d, ct_result = first_result k ds\<rparr> #
               calls_of (insert k seen) ds
      | InvocationResult r \<Rightarrow> calls_of seen ds)"

section \<open>The capture is exact\<close>

text \<open>The key of every captured call, by position.\<close>

definition keyed :: "string list \<Rightarrow> 'j StreamCapture \<Rightarrow> bool" where
  "keyed ks c \<longleftrightarrow> distinct ks \<and> length ks = length (cap_calls c) \<and> fset (cap_seen c) = set ks \<and>
     (\<forall>k i. fmlookup (cap_indices c) k = Some i \<longleftrightarrow> i < length ks \<and> ks ! i = k)"

text \<open>What the calls captured so far become when the rest of the stream brings their results.\<close>

definition settle :: "(string \<times> 'j ToolInvocationData) list \<Rightarrow> string \<Rightarrow> 'j CapturedToolCall \<Rightarrow> 'j CapturedToolCall" where
  "settle ds k c = (case ct_result c of Some _ \<Rightarrow> c | None \<Rightarrow> c\<lparr>ct_result := first_result k ds\<rparr>)"

lemma keyed_new: "keyed [] capture_new"
  by (simp add: keyed_def capture_new_def)

lemma settle_nil [simp]: "settle [] k c = c"
  by (cases c) (simp add: settle_def split: option.split)

lemma keyed_call:
  assumes "keyed ks c" "key \<notin> set ks"
  shows "keyed (ks @ [key]) (capture_call key d c)"
proof -
  have "fmlookup (cap_indices (capture_call key d c)) k = Some i \<longleftrightarrow> i < length (ks @ [key]) \<and> (ks @ [key]) ! i = k" for k i
    using assms by (auto simp: keyed_def capture_call_def nth_append less_Suc_eq dest: nth_mem)
  then show ?thesis using assms by (auto simp: keyed_def capture_call_def)
qed

lemma keyed_result: "keyed ks c \<Longrightarrow> keyed ks (capture_result key res c)"
  by (auto simp: keyed_def capture_result_def split: option.splits)

text \<open>A part that is no tool invocation leaves the calls alone and moves the stack.\<close>

fun is_invocation :: "('j, 'l) StreamPart \<Rightarrow> bool" where
  "is_invocation (ToolInvocation d) = True"
| "is_invocation _ = False"

lemma take_usage_keeps:
  assumes "take_usage src u c = Some c'"
  shows "cap_calls c' = cap_calls c" "cap_trajectory c' = cap_trajectory c" "cap_agent_stack c' = cap_agent_stack c"
    "cap_seen c' = cap_seen c" "cap_indices c' = cap_indices c" "cap_errors c' = cap_errors c" "cap_latency c' = cap_latency c"
    "cap_messages c' = cap_messages c"
  using assms by (auto simp: take_usage_def split: if_splits)

lemma other_part_keeps:
  assumes "\<not> is_invocation p" "capture_step p c = Some c'"
  shows "cap_calls c' = cap_calls c" "cap_trajectory c' = cap_trajectory c" "cap_seen c' = cap_seen c"
    "cap_indices c' = cap_indices c" "cap_agent_stack c' = stack_after p (cap_agent_stack c)"
  using assms by (cases p; auto simp: capture_step_def take_usage_keeps split: ToolAgentState.splits)+

lemma invocations_other: "\<not> is_invocation p \<Longrightarrow> invocations st (p # ps) = invocations (stack_after p st) ps"
  by (cases p) simp_all

lemma keyed_cong:
  "cap_calls c' = cap_calls c \<Longrightarrow> cap_seen c' = cap_seen c \<Longrightarrow> cap_indices c' = cap_indices c \<Longrightarrow> keyed ks c' = keyed ks c"
  by (simp add: keyed_def)

lemma settle_call [simp]: "ti_state d = InvocationCall \<Longrightarrow> settle ((k', d) # ds) k c = settle ds k c"
  by (simp add: settle_def split: option.split)

text \<open>One result: the call of its key gets it, the others wait for theirs.\<close>

lemma settle_result:
  assumes "keyed ks c" "ti_state d = InvocationResult r"
  shows "map2 (settle ((key, d) # ds)) ks (cap_calls c) = map2 (settle ds) ks (cap_calls (capture_result key r c))"
proof (rule nth_equalityI)
  have len: "length (cap_calls (capture_result key r c)) = length (cap_calls c)"
    by (simp add: capture_result_def split: option.split)
  then show "length (map2 (settle ((key, d) # ds)) ks (cap_calls c)) = length (map2 (settle ds) ks (cap_calls (capture_result key r c)))"
    by simp
  fix i
  assume "i < length (map2 (settle ((key, d) # ds)) ks (cap_calls c))"
  then have i: "i < length ks" "i < length (cap_calls c)" by simp_all
  have look: "fmlookup (cap_indices c) key = Some j \<longleftrightarrow> j < length ks \<and> ks ! j = key" for j
    using assms(1) by (simp add: keyed_def)
  have same: "j = i" if "j < length ks" "ks ! j = ks ! i" for j
    using that i assms(1) by (simp add: keyed_def nth_eq_iff_index_eq)
  have "settle ((key, d) # ds) (ks ! i) (cap_calls c ! i) = settle ds (ks ! i) (cap_calls (capture_result key r c) ! i)"
  proof (cases "ks ! i = key")
    case True
    then have "fmlookup (cap_indices c) key = Some i" using look i by simp
    then show ?thesis using True i assms(2) by (auto simp: settle_def capture_result_def split: option.split)
  next
    case False
    have "cap_calls (capture_result key r c) ! i = cap_calls c ! i"
      using False look same by (auto simp: capture_result_def nth_list_update split: option.split)
    then show ?thesis using False assms(2) by (simp add: settle_def split: option.split)
  qed
  with i len show "map2 (settle ((key, d) # ds)) ks (cap_calls c) ! i = map2 (settle ds) ks (cap_calls (capture_result key r c)) ! i"
    by simp
qed

lemma capture_calls:
  assumes "keyed ks c" "capture_all ps c = Some c'"
  shows "cap_calls c' = map2 (settle (invocations (cap_agent_stack c) ps)) ks (cap_calls c) @ calls_of (set ks) (invocations (cap_agent_stack c) ps) \<and>
    cap_trajectory c' = cap_trajectory c @ map ct_tool (calls_of (set ks) (invocations (cap_agent_stack c) ps))"
  using assms
proof (induction ps arbitrary: c ks)
  case Nil
  then have "map2 (settle []) ks (cap_calls c) = cap_calls c"
    by (simp add: keyed_def case_prod_beta' map_snd_zip)
  with Nil show ?case by simp
next
  case (Cons p ps)
  from Cons.prems(2) obtain c1 where c1: "capture_step p c = Some c1" "capture_all ps c1 = Some c'"
    by (auto split: option.splits)
  show ?case
  proof (cases "is_invocation p")
    case False
    note keeps = other_part_keeps [OF False c1(1)]
    have "keyed ks c1" using Cons.prems(1) keyed_cong [OF keeps(1, 3, 4)] by simp
    from Cons.IH [OF this c1(2)] show ?thesis by (simp only: keeps invocations_other [OF False])
  next
    case True
    then obtain d where p: "p = ToolInvocation d" by (cases p) simp_all
    define key where "key = scoped_tool_call_key (cap_agent_stack c) (ti_id d)"
    let ?c = "c\<lparr>cap_messages := accumulator_push p (cap_messages c)\<rparr>"
    have k: "keyed ks ?c" using Cons.prems(1) by (simp add: keyed_def)
    have inv: "invocations (cap_agent_stack c) (p # ps) = (key, d) # invocations (cap_agent_stack c) ps" by (simp add: p key_def)
    show ?thesis
    proof (cases "ti_state d")
      case InvocationCall
      then have c1': "c1 = capture_call key d ?c" using c1(1) by (simp add: capture_step_def p key_def)
      have stack: "cap_agent_stack c1 = cap_agent_stack c" by (simp add: c1' capture_call_def)
      show ?thesis
      proof (cases "key \<in> set ks")
        case True
        then have "c1 = ?c" using k by (auto simp: c1' capture_call_def keyed_def)
        with Cons.IH [OF k, of] c1(2) InvocationCall True show ?thesis by (simp add: inv)
      next
        case False
        note ks' = keyed_call [OF k False, of d]
        have "key |\<notin>| cap_seen c" using k False by (auto simp: keyed_def)
        moreover have "length ks = length (cap_calls c)" using k by (simp add: keyed_def)
        ultimately show ?thesis using Cons.IH [OF ks' c1(2) [unfolded c1']] InvocationCall False
          by (simp add: inv capture_call_def settle_def [of _ key])
      qed
    next
      case (InvocationResult r)
      then have c1': "c1 = capture_result key r ?c" using c1(1) by (simp add: capture_step_def p key_def)
      have same: "cap_agent_stack c1 = cap_agent_stack c" "cap_trajectory c1 = cap_trajectory c"
        by (simp_all add: c1' capture_result_def split: option.split)
      from Cons.IH [OF keyed_result [OF k] c1(2) [unfolded c1']] settle_result [OF k InvocationResult, of key] same show ?thesis
        by (simp add: inv c1' InvocationResult)
    qed
  qed
qed

section \<open>The best usage wins\<close>

lemma first_of_Cons [simp]:
  "first_of src [] = None"
  "first_of src (p # ps) =
     (case offered p of None \<Rightarrow> first_of src ps | Some (s, u) \<Rightarrow> if s = src then Some u else first_of src ps)"
  by (auto simp: first_of_def map_filter_simps split: option.split)

text \<open>The usage after a stream, from a state whose source has rank \<open>r\<close>.\<close>

definition best_usage :: "nat \<Rightarrow> TokenUsageSummary \<Rightarrow> ('j, LatencySummary) StreamPart list \<Rightarrow> TokenUsageSummary" where
  "best_usage r u ps =
     (case if r < 3 then first_of Latency_Source ps else None of Some l \<Rightarrow> the l
      | None \<Rightarrow> (case if r < 2 then first_of Cost_Source ps else None of Some l \<Rightarrow> the l
      | None \<Rightarrow> (case if r < 1 then first_of Finish_Source ps else None of Some l \<Rightarrow> the l | None \<Rightarrow> u)))"

lemma best_usage_skip: "offered p = None \<Longrightarrow> best_usage r u (p # ps) = best_usage r u ps"
  by (simp add: best_usage_def split: option.split)

lemma best_usage_take:
  assumes "offered p = Some (src, v)"
  shows "best_usage r u (p # ps) =
    (if r < source_rank src then best_usage (source_rank src) (the v) ps else best_usage r u ps)"
  using assms by (cases src) (auto simp: best_usage_def split: option.split)

lemma capture_part_usage:
  assumes "capture_step p c = Some c'"
  shows "best_usage (source_rank (cap_token_source c)) (cap_token_usage c) (p # ps) =
    best_usage (source_rank (cap_token_source c')) (cap_token_usage c') ps"
proof (cases "offered p")
  case None
  then have "cap_token_source c' = cap_token_source c \<and> cap_token_usage c' = cap_token_usage c"
    using assms by (cases p) (auto simp: capture_step_def capture_call_def capture_result_def Let_def
      split: ToolInvocationState.splits ToolAgentState.splits option.splits)
  with None show ?thesis by (simp add: best_usage_skip)
next
  case (Some sv)
  obtain src v where sv: "offered p = Some (src, v)" using Some by (cases sv) simp
  obtain c0 where c0: "take_usage src v c0 = Some c'" "cap_token_source c0 = cap_token_source c" "cap_token_usage c0 = cap_token_usage c"
  proof -
    assume "\<And>c0. take_usage src v c0 = Some c' \<Longrightarrow> cap_token_source c0 = cap_token_source c \<Longrightarrow> cap_token_usage c0 = cap_token_usage c \<Longrightarrow> thesis"
    then show thesis using assms sv by (cases p) (fastforce simp: capture_step_def)+
  qed
  show ?thesis
  proof (cases "source_rank (cap_token_source c) < source_rank src")
    case True
    with c0 obtain z where "v = Some z" "c' = c0\<lparr>cap_token_usage := z, cap_token_source := src\<rparr>"
      by (auto simp: take_usage_def)
    with True show ?thesis by (simp add: best_usage_take [OF sv])
  next
    case False
    with c0 show ?thesis by (simp add: best_usage_take [OF sv] take_usage_def)
  qed
qed

lemma capture_usage:
  "capture_all ps c = Some c' \<Longrightarrow>
     cap_token_usage c' = best_usage (source_rank (cap_token_source c)) (cap_token_usage c) ps"
proof (induction ps arbitrary: c)
  case Nil
  then show ?case by (simp add: best_usage_def)
next
  case (Cons p ps)
  then obtain c1 where c1: "capture_step p c = Some c1" "capture_all ps c1 = Some c'" by (auto split: option.splits)
  with Cons.IH [OF c1(2)] capture_part_usage [OF c1(1), of ps] show ?case by simp
qed

text \<open>A step fails only on a usage that is no valid summary.\<close>

definition valid_part :: "('j, LatencySummary) StreamPart \<Rightarrow> bool" where
  "valid_part p \<longleftrightarrow> (case offered p of Some (_, None) \<Rightarrow> False | _ \<Rightarrow> True)"

lemma valid_part_steps: "valid_part p \<Longrightarrow> \<exists>c'. capture_step p c = Some c'"
  by (cases p) (auto simp: valid_part_def capture_step_def take_usage_def Let_def split: option.splits)

lemma valid_stream_captured: "list_all valid_part ps \<Longrightarrow> \<exists>c'. capture_all ps c = Some c'"
proof (induction ps arbitrary: c)
  case (Cons p ps)
  then show ?case using valid_part_steps [of p c] by auto
qed simp

lemma capture_messages:
  "capture_all ps c = Some c' \<Longrightarrow> cap_messages c' = fold accumulator_push ps (cap_messages c)"
proof (induction ps arbitrary: c)
  case (Cons p ps)
  then obtain c1 where c1: "capture_step p c = Some c1" "capture_all ps c1 = Some c'" by (auto split: option.splits)
  have "cap_messages c1 = accumulator_push p (cap_messages c)"
    using c1(1) by (cases p) (auto simp: capture_step_def capture_call_def capture_result_def Let_def take_usage_keeps
      split: ToolInvocationState.splits ToolAgentState.splits option.splits)
  with Cons.IH [OF c1(2)] show ?case by simp
qed simp

text \<open>
  C33. The capture of a stream is exact. A stream whose usages are valid summaries is captured without a panic; the
  captured calls are the first call of every scoped key, in order, each with the first result that follows
  it, and the trajectory is their tools; the token usage is that of the first latency summary if there is
  one, else of the first cost summary, else of the first end of a turn, else zero, wherever they are in the
  stream; and the text and the message parts are those the accumulator of the protocol makes of the stream.
\<close>

theorem capture_exact:
  assumes "list_all valid_part ps"
  shows "\<exists>c. capture_all ps capture_new = Some c \<and>
    (let r = capture_finalize ms thread c; out = scr_sample_output r; calls = calls_of {} (invocations [] ps)
     in out_captured_tool_calls out = calls \<and> out_actual_trajectory out = map ct_tool calls \<and>
        out_token_usage out =
          (case first_of Latency_Source ps of Some u \<Rightarrow> the u
           | None \<Rightarrow> (case first_of Cost_Source ps of Some u \<Rightarrow> the u
           | None \<Rightarrow> (case first_of Finish_Source ps of Some u \<Rightarrow> the u | None \<Rightarrow> tokens_ZERO))) \<and>
        (scr_message_parts r, scr_response_text r) = accumulate ps)"
proof -
  obtain c where c: "capture_all ps capture_new = Some c" using valid_stream_captured [OF assms] by blast
  have new: "cap_agent_stack capture_new = []" "cap_calls capture_new = []" "cap_trajectory capture_new = []"
    "cap_token_source capture_new = No_Source" "cap_token_usage capture_new = tokens_ZERO" "cap_messages capture_new = accumulator_new"
    by (simp_all add: capture_new_def)
  from capture_calls [OF keyed_new c] capture_usage [OF c] capture_messages [OF c] c show ?thesis
    by (simp add: new capture_finalize_def Let_def best_usage_def accumulate_def split: prod.split)
qed

text \<open>A call, its result, another agent's call with the same identifier, and the end of the turn.\<close>

definition captured_stream :: "(nat, LatencySummary) StreamPart list" where
  "captured_stream =
     [tool_call_part ''1'' ''find'' 7, ToolAgent \<lparr>ta_agent_name = ''p'', ta_invocation_id = ''a'', ta_state = AgentCall\<rparr>,
      tool_call_part ''1'' ''store'' 8, ToolAgent \<lparr>ta_agent_name = ''p'', ta_invocation_id = ''a'', ta_state = AgentResult\<rparr>,
      tool_result_part ''1'' ''find'' 7 9, Finish FinishStop (usage_simple 5 3)]"

theorem capture_exact_witness:
  "\<exists>c. capture_all captured_stream capture_new = Some c \<and>
     map ct_result (out_captured_tool_calls (scr_sample_output (capture_finalize 4 None c))) = [Some 9, None] \<and>
     out_actual_trajectory (scr_sample_output (capture_finalize 4 None c)) = [''find'', ''store'']"
proof -
  have "tokens_from_usage (usage_simple 5 3) = Some \<lparr>tu_input_tokens = 5, tu_output_tokens = 3, tu_cached_tokens = 0,
      tu_cache_creation_tokens = 0\<rparr>"
    by (simp add: tokens_from_usage_def tokens_new_iff usage_simple_def)
  then have "list_all valid_part captured_stream"
    by (simp add: captured_stream_def valid_part_def tool_call_part_def tool_result_part_def)
  from capture_exact [OF this, of 4 None] show ?thesis
    by (auto simp: captured_stream_def tool_call_part_def tool_result_part_def scoped_tool_call_key_def pop_agent_def Let_def)
qed

text \<open>
  A provider that reports more cached than input tokens ends the capture with a panic, whatever was captured.
\<close>

theorem capture_panics:
  assumes "unat (prompt_tokens u) < unat (cache_read_input_tokens u)"
  shows "capture_all [tool_call_part i name args, Finish reason u] capture_new = None"
proof -
  have "tokens_from_usage u = None"
    using assms tokens_new_iff by (metis (no_types, lifting) add_leE not_le not_None_eq tokens_from_usage_def)
  then show ?thesis
    by (simp add: tool_call_part_def capture_step_def take_usage_def capture_call_def capture_new_def Let_def)
qed

text \<open>The scoped key of a nested call can be the key of a call outside every agent.\<close>

theorem scoped_keys_collide: "scoped_tool_call_key [''a''] ''b'' = scoped_tool_call_key [] ''a::b''"
  by (simp add: scoped_tool_call_key_def)

end
