(* ===== verification/Spec2Isabelle.thy ===== *)
theory Spec2Isabelle
  imports Plan_Executor Plan_Persist Kv_Approval_Store Event_Log Job_Registry Retry Writable_Db Request_Tools
    Search_Filter Fuzzy_Match Wave_Plan Workspace_Lifecycle Eval_Bus Eval_Compare Eval_Capture
begin

text \<open>
  \<^bold>\<open>A verification library of flowai-harness.\<close>

  flowai-harness is a framework for language-model agents. The part that decides what an agent may
  do is a chain of small components: a planner proposes a \<^emph>\<open>plan\<close> (a non-empty sequence of actions),
  the plan is persisted in a tenant-scoped key-value store, a human approves it through a pending
  approval store while the host follows the events on a sink, and only then are its actions
  dispatched to the target system. This library models that chain, from the algebraic helpers up to
  the gate, and proves what each component promises to the next.

  \<^bold>\<open>Theories and sources\<close> (all under \<open>src/crates\<close>)

  \<^item> \<open>Prelude\<close>: results (\<open>Ok\<close>, \<open>Err\<close>), serde codecs, string and list lemmas, the collections.
  \<^item> \<open>Algebra\<close>: \<open>agent-fw-core/src/algebra.rs\<close>, semigroups, monoids and accumulating validation;
    locales \<open>Semigroup_trait\<close> and \<open>Monoid_trait\<close>, one interpretation for each instance.
  \<^item> \<open>Ids\<close>: \<open>agent-fw-core/src/id.rs\<close>, the identifier newtypes and their validation.
  \<^item> \<open>Non_Empty\<close>: \<open>agent-fw-core/src/non_empty.rs\<close> and \<open>agent-fw-plan/src/action.rs\<close>.
  \<^item> \<open>KV_Store\<close>: \<open>agent-fw-algebra/src/kv_store.rs\<close>; the trait is the record \<open>KVStore\<close>, its
    documented laws the locale \<open>KV_laws\<close>.
  \<^item> \<open>DashMap_KV\<close>: \<open>agent-fw-interpreter/src/dashmap_kv.rs\<close>, the in-memory store; it interprets
    \<open>KV_laws\<close>.
  \<^item> \<open>Plan_Context\<close>, \<open>Plan\<close>: \<open>agent-fw-plan/src/context.rs\<close>, \<open>plan.rs\<close> and \<open>builder.rs\<close>, the plan
    value, its transitions, observers and builder.
  \<^item> \<open>Plan_Persist\<close>: \<open>agent-fw-plan/src/persist.rs\<close>, plans in the key-value store.
  \<^item> \<open>Approval_Store\<close>: \<open>agent-fw-core/src/approval.rs\<close> and \<open>agent-fw-algebra/src/approval.rs\<close>; the
    locale \<open>Approval_laws\<close> is the contract of a pending approval store.
  \<^item> \<open>Kv_Approval_Store\<close>: \<open>agent-fw-interpreter/src/approval_store.rs\<close>, the store with an audit
    record in a key-value store; a second interpretation of the contract.
  \<^item> \<open>Stream_Part\<close>: \<open>agent-fw-core/src/usage.rs\<close> and \<open>stream_part.rs\<close>, the event values and the
    accumulator that turns a stream into a message.
  \<^item> \<open>Event_Sink\<close>: \<open>agent-fw-algebra/src/event_sink.rs\<close>; locale \<open>EventSink_laws\<close>, interpreted for the
    broadcast, validating and tee sinks.
  \<^item> \<open>Plan_Executor\<close>: \<open>agent-fw-plan/src/executor.rs\<close>, execution and its approval gate.
  \<^item> \<open>Json\<close>: JSON values, for the parts that look inside one.
  \<^item> \<open>Tool_Layer\<close>: \<open>agent-fw-agent/src/approval.rs\<close>, \<open>layer.rs\<close> and the handlers of \<open>tool_handler.rs\<close>, with
    results, errors and manifests; locale \<open>ToolLayer_laws\<close>, interpreted for the guard, approval and
    tracing layers and their stacks.
  \<^item> \<open>Tool_Dispatcher\<close>: the composed dispatcher of \<open>tool_handler.rs\<close>. \<open>Request_Tools\<close>: the overrides of a
    request, \<open>agent-fw-core/src/tool_overrides.rs\<close>, \<open>tool_registry_overrides.rs\<close> and
    \<open>agent-fw-agent/src/request_scoped_tools.rs\<close>.
  \<^item> \<open>Job_Registry\<close>: \<open>agent-fw-algebra/src/job_registry.rs\<close>, phases and pauses of background jobs.
  \<^item> \<open>Event_Log\<close>: \<open>agent-fw-algebra/src/event_log.rs\<close> with \<open>memory_event_log.rs\<close> and
    \<open>durable_event_sink.rs\<close> of \<open>agent-fw-interpreter/src\<close>; locale \<open>EventLog_laws\<close>, interpreted for the
    in-memory log, with the lemmas about the durable sink proved in the locale.
  \<^item> \<open>Schedule\<close>: \<open>agent-fw-algebra/src/schedule.rs\<close>, recurrence schedules and the loops they drive.
    \<open>Retry\<close>: \<open>agent-fw-algebra/src/retry.rs\<close>, retry policies and their loops, with the schedule made of a
    policy and the pausable sleep of \<open>schedule.rs\<close>.
  \<^item> \<open>Sql_Ast\<close>: the syntax tree of the SQL parser, with the fields the checks name and the skipped ones that
    can hold an expression or a called name; the parser itself is a parameter. \<open>Target_Db\<close>, \<open>Writable_Db\<close>: \<open>agent-fw-algebra/src/target_db.rs\<close> and \<open>writable_db.rs\<close>,
    the read-only validation, quoting, and the validated statements, names and batches of writes.
  \<^item> \<open>Map_Order\<close>: the entries of a map in an order of its keys. \<open>Search_Filter\<close>:
    \<open>agent-fw-search/src/set_ops.rs\<close>, \<open>filter.rs\<close> and \<open>filter_collector.rs\<close>, filter sets and their algebra.
  \<^item> \<open>Text_Words\<close>, \<open>Fuzzy_Match\<close>: \<open>agent-fw-search/src/fuzzy.rs\<close>, the matching of search terms with stored values.
  \<^item> \<open>Wave_Plan\<close>: \<open>agent-fw-ingest/src/etl/wave.rs\<close>, the order in which tables with foreign keys are loaded.
  \<^item> \<open>Entity_Index\<close>: \<open>agent-fw-workspace/src/indexed_entity.rs\<close> and the helpers of \<open>kv_store.rs\<close>, entities with an
    index of their ids. Methods are programs over a store; a simulation carries them to a plain map.
  \<^item> \<open>Workspace_Types\<close>: \<open>thread.rs\<close>, \<open>file.rs\<close>, \<open>workspace.rs\<close> and \<open>kv_keys.rs\<close> of \<open>agent-fw-workspace/src\<close>, artifacts,
    slugs and keys. \<open>Workspace_Store\<close>: the store \<open>kv_store.rs\<close> and \<open>file_store.rs\<close>. \<open>Workspace_Refine\<close>: its
    abstract state; the locale \<open>artifact_family\<close> is one kind of artifact with an index, interpreted for six kinds.
  \<^item> \<open>Provisioner\<close>: \<open>agent-fw-catalog/src/provisioner.rs\<close> with \<open>local_provisioner.rs\<close> and \<open>mock_provisioner.rs\<close> of
    \<open>agent-fw-interpreter/src\<close>; locale \<open>provisioner_laws\<close>, interpreted for both.
  \<^item> \<open>Workspace_Lifecycle\<close>: \<open>agent-fw-workspace/src/lifecycle.rs\<close> and \<open>agent-fw-algebra/src/resource.rs\<close>; locale
    \<open>lifecycle_world\<close>, a store beside a provisioner, interpreted for any store and the local provisioner.
  \<^item> \<open>Numbers\<close>: the floating-point operations the measurements use, as a record, with the real numbers as an
    instance. \<open>Latency\<close>: \<open>agent-fw-core/src/latency.rs\<close>, counters, samples and percentiles. \<open>Cost\<close>:
    \<open>agent-fw-core/src/cost.rs\<close> and, of \<open>agent-fw-eval/src\<close>, \<open>cost.rs\<close> and the token usage of \<open>types.rs\<close>.
  \<^item> \<open>Eval_Scoring\<close>, \<open>Eval_Trace\<close>, \<open>Eval_Types\<close>, \<open>Eval_Capture\<close>, \<open>Eval_Compare\<close>: \<open>scoring.rs\<close>, \<open>trace.rs\<close>,
    \<open>types.rs\<close>, \<open>stream_capture.rs\<close> and \<open>comparison.rs\<close> of \<open>agent-fw-eval/src\<close>: trajectory scoring and pass-at-k, traces and their slices, the values and the configuration
    of a run, the capture of a stream, and the comparison of two runs.
  \<^item> \<open>Eval_Scorer\<close>: \<open>scorer.rs\<close> and \<open>result_aggregator.rs\<close> of \<open>agent-fw-eval/src\<close>, scorers and the summary of a run; locale \<open>EvalScorer_laws\<close>, interpreted
    for the trajectory scorer and for compositions. \<open>Eval_Bus\<close>: \<open>event_bus.rs\<close>, with
    \<open>agent-fw-core/src/sequenced.rs\<close>.

  \<^bold>\<open>Modelling conventions\<close>

  A struct is a record and an enum a datatype with the source's constructors (prefixed where a name
  is taken). A fallible operation returns a \<open>result\<close>, and every early return of the source is a
  branch. A method with interior mutability takes the state and returns it updated. A trait object
  is a record of operations over a state type, so a component that uses one is parametric in it.
  Clock readings are arguments; a store carries the current time as a field. Serde is a pair of
  functions (\<open>to_value\<close>, \<open>from_value\<close>); where a round trip matters, that the decoder inverts the
  encoder is a named hypothesis and the witnesses instantiate it. Unsigned counters are words with
  the saturation written out. A wait (\<open>select!\<close> in the gate) is an arbitrary function on the shared
  state, so the theorems about the gate hold for every interleaving with other tasks at that point.
  Finer interleavings that matter are separate two-step definitions, as for the lazy eviction of the
  store and the registration of an approval, or a step function of each task, as for the background
  task of the durable sink. Loops over data are structural recursions. The schedule-driven loops may
  run for ever, so they are partial functions into \<open>option\<close>; that they return on a bounded schedule is
  proved, by induction on the attempts left. No fuel is used.

  \<^bold>\<open>What is shown\<close>

  \<^item> The gate never dispatches without an approval, for any store, sink, approval store and dispatcher;
    an approved plan is dispatched exactly once, and the events, the result and the stored plan are
    those of the approved run.
  \<^item> The tool stack of the runtime never runs a tool whose policy asks for an approval without one, runs
    it once between its events when approved, and leaves no open request when refused.
  \<^item> Composition of dispatchers is a monoid for routing, records a collision exactly when two
    registrations share a name, and building one checks every declared extension. The tools a request
    advertises are the ones its calls reach, and a disallowed tool cannot be reached.
  \<^item> Every plan a caller can hold is consistent, transitions only move forward, and the methods
    realise exactly the documented diagram; persisted transitions refine the in-memory ones.
  \<^item> An approval is settled once, by the first decision or expiry; the key-value backed variant keeps
    this for any store behaviour, and its audit record tells the first settlement.
  \<^item> The in-memory store honours times to live exactly, isolates tenants, agrees with itself across its
    reads, and its cleanup cannot be observed.
  \<^item> The accumulator loses nothing and equals a reference on streams without sub-agent and file events.
  \<^item> Sinks forward in order; sub-agent events are scoped; unresolved tool calls are tracked exactly.
  \<^item> A log replays exactly what was appended before it was closed; the durable sink stores what it
    accepted, in order, under every interleaving with its background task while the log is open.
  \<^item> Schedules form a distributive lattice under union and intersection; their delays and attempts
    respect static bounds; jitter stays between half and whole; a retry on a bounded schedule returns,
    counts its attempts truly, and returns an error for one of three stated reasons only.
  \<^item> The read-only validation accepts exactly the statements whose every inspected node is harmless, and misses nothing in
    a query without skipped positions;
    quoted text reads back as itself; table names and insert batches are accepted exactly when their
    documented conditions hold, and a coercion is reported for every value it replaces.
  \<^item> Well-formed filter sets are a distributive lattice and select the rows their
    documentation says. Normalisation, the edit distance test and the tiers of the matching are exact;
    resolution without vectors equals a closed form, and with vectors every result is accounted for.
  \<^item> Loading waves are the layers of the dependency graph: every table waits for what it references, no
    table waits longer than it must, and what is left over is exactly what no finite order can load.
  \<^item> The workspace store refines an abstract state of indexed maps and logs: every sequence of its writes
    succeeds on a lawful store, every read answers from the abstract state, listings are consistent and
    other tenants stay as they are. A rebuilt index lists exactly the stored test cases, newest first.
  \<^item> A failed creation of a workspace leaves no environment behind and a successful one adds exactly its own;
    slugs are not given twice; a deletion removes the workspace, its keys and its environment and no more.
  \<^item> A retry loop is decided by the first attempt that stops it, and a policy waits and gives up exactly as the
    schedule made of it.
  \<^item> The trajectory score is the documented one, an ordered comparison matches a longest common subsequence,
    and pass-at-k is the unbiased estimator. Validated weights always compose, a composition scores within its
    bounds, and the counts and averages of a run summary are those of its results.
  \<^item> A run configuration is rejected with exactly the errors its fields deserve. The capture of a stream records
    its text, calls and usage; the bus replays exactly the events it still holds after a given one; a comparison
    sorts every case of two runs into the class it belongs to, and reversing the runs reverses the comparison.
  \<^item> Folding latency events equals counting them, percentiles lie between the extreme samples and grow with
    the rank, the parts of a cost add up to its total, and the estimates of a profile never wrap.
  \<^item> The algebraic helpers satisfy their laws, saturation included.

  Lemmas named after a race or a collision show where the code departs from its documentation: a plan
  can be dispatched twice when a second caller finishes it during the wait, an eviction can drop a
  fresh write, tenants with a colon in their name can collide, a fast decision can be overwritten in
  the audit record, a custom prefix makes the persisted transitions miss, text can be reordered after a
  sub-agent event, closing the durable sink loses the events it still holds, jitter drops delays
  below a millisecond, latent tools bypass the layers, a cancelled call is still announced and still asks,
  layers hide the extensions a tool requires, chained and dangling renames misroute, EXPLAIN, VALUES and the
  names of table functions are not inspected, table names may have letters outside ASCII, the order of pushed filters matters, filter
  hashes collide on commas, vector hits overtake exact matches, cyclic tables include the ones that only
  reference a cycle, an entry or set called \<open>index\<close> overwrites an index, a thread id with a colon collides with
  messages, inline results of a run are lost, a rename repeats a slug, a database that could not be
  created is dropped, a retry delay of zero jumps to the cap and one below a millisecond vanishes, a back-off
  that is not a number passes validation, combined results are scored anew, combining token usages can panic, the
  first event of a bus is never replayed and a replay before a subscription leaves a gap, a capture panics when
  more tokens are cached than prompted, scoped keys collide, the bytes read count cache hits, a model family
  is a prefix without its dash, and a cache hit rate above one panics.

  \<^bold>\<open>What is not modelled\<close>

  Database, network and language-model clients, the vendored library, rendering and command lines.
  Floating-point arithmetic is a parameter of the schedules, the retries, the matching, the scoring and the
  measurements; the theorems that state a value exactly take the real numbers for it, so rounding is outside them.
  The evaluation orchestrator, ground truths, test case documents and builder sessions, the stream builder, the
  resolution of database URLs against the file system and the rest of the ingestion crate are the next
  candidates, in this order.
\<close>

end
